(* ===== verification/NsPrelude.thy ===== *)
theory NsPrelude
  imports Main "HOL-Library.Word" "HOL-Library.Monad_Syntax" "HOL-Library.Multiset"
begin

text \<open>
  Shared vocabulary of the development: the machine integers of the code, the way its aborts are
  modelled, and the generic facts on words, lists and options that the component theories use.
\<close>

section \<open>Machine integers\<close>

type_synonym uint8 = "8 word"
type_synonym uint16 = "16 word"
type_synonym uint32 = "32 word"
type_synonym uint64 = "64 word"

text \<open>
  A failed \<open>NS_ASSERT\<close>, an \<open>NS_ABORT_MSG\<close> or \<open>NS_FATAL_ERROR\<close> that is reached, and a use of
  the standard library outside its contract all end the simulation. They are the value \<open>None\<close>;
  \<open>Some\<close> is a call that returns. \<open>ns_assert\<close> stands for the checks.
\<close>

definition ns_assert :: "bool \<Rightarrow> unit option" where
  "ns_assert b = (if b then Some () else None)"

section \<open>Rule collections\<close>

named_theorems ns_word \<open>arithmetic of unsigned machine integers that does not wrap\<close>
named_theorems ns_seq \<open>sequence numbers inside one window\<close>

section \<open>Options\<close>

lemma ns_assert_simps [simp]:
  "ns_assert True = Some ()" "ns_assert False = None"
  by (simp_all add: ns_assert_def)

lemma ns_assert_eq_Some [simp]: "ns_assert b = Some u \<longleftrightarrow> b"
  by (simp add: ns_assert_def)

lemma ns_assert_eq_None [simp]: "ns_assert b = None \<longleftrightarrow> \<not> b"
  by (simp add: ns_assert_def)

lemma ns_assert_bind [simp]: "ns_assert b \<bind> f = (if b then f () else None)"
  by (simp add: ns_assert_def)

section \<open>Words\<close>

lemma unat_of_nat32 [ns_word]: "n < 2 ^ 32 \<Longrightarrow> unat (of_nat n :: uint32) = n"
  by (simp add: unat_of_nat)

lemma unat_plus32 [ns_word]:
  "unat (a :: uint32) + unat b < 2 ^ 32 \<Longrightarrow> unat (a + b) = unat a + unat b"
  by (simp add: unat_word_ariths)

lemma unat_minus32 [ns_word]:
  "unat (b :: uint32) \<le> unat a \<Longrightarrow> unat (a - b) = unat a - unat b"
  by (simp add: unat_sub word_le_nat_alt)

lemma of_nat32_minus [ns_word]:
  "m \<le> n \<Longrightarrow> (of_nat n :: uint32) - of_nat m = of_nat (n - m)"
  by simp

lemma of_nat32_less [ns_word]:
  "m < 2 ^ 32 \<Longrightarrow> n < 2 ^ 32 \<Longrightarrow> (of_nat m :: uint32) < of_nat n \<longleftrightarrow> m < n"
  by (simp add: word_less_nat_alt unat_of_nat)

lemma of_nat32_le [ns_word]:
  "m < 2 ^ 32 \<Longrightarrow> n < 2 ^ 32 \<Longrightarrow> (of_nat m :: uint32) \<le> of_nat n \<longleftrightarrow> m \<le> n"
  by (simp add: word_le_nat_alt unat_of_nat)

lemma of_nat32_eq [ns_word]:
  "m < 2 ^ 32 \<Longrightarrow> n < 2 ^ 32 \<Longrightarrow> (of_nat m :: uint32) = of_nat n \<longleftrightarrow> m = n"
  by (metis unat_of_nat32)

section \<open>Signed reading of 64-bit words\<close>

lemma sint_uint64:
  assumes "unat (t :: uint64) < 2 ^ 63"
  shows "sint t = int (unat t)"
proof -
  have "int (unat t) < int (2 ^ 63)"
    using assms by (simp only: of_nat_less_iff)
  then have "uint t < 2 ^ 63"
    by simp
  then have "signed_take_bit 63 (uint t) = uint t"
    using order_trans [of "- (2 ^ 63)" 0 "uint t"] by (intro signed_take_bit_int_eq_self) simp_all
  then show ?thesis by (simp add: sint_uint)
qed

lemma unat_of_int64:
  assumes "0 \<le> a" "a < 2 ^ 63"
  shows "unat (of_int a :: uint64) = nat a"
proof -
  have "uint (of_int a :: uint64) = take_bit 64 a"
    by (simp only: unsigned_of_int) simp
  also have "\<dots> = a"
    using assms by (intro take_bit_int_eq_self) auto
  finally have "int (unat (of_int a :: uint64)) = int (nat a)"
    using assms by simp
  then show ?thesis by (simp only: of_nat_eq_iff)
qed

end
