(* ===== verification/EventSched.thy ===== *)
theory EventSched
  imports NsPrelude
begin

text \<open>
  The event queue interface of the simulator (\<open>core/model/scheduler.h\<close>): keys and events, their
  comparison operators, and the virtual functions of \<open>Scheduler\<close> as a record of operations. The
  locale \<open>scheduler\<close> states what the simulator relies on, and the lemmas proved in it hold for
  every scheduler that is shown to be an instance.
\<close>

section \<open>Keys and events\<close>

record event_key =
  m_ts :: uint64
  m_uid :: uint32
  m_context :: uint32

record 'i event =
  impl :: 'i
  key :: event_key

definition key_eq :: "event_key \<Rightarrow> event_key \<Rightarrow> bool" where
  "key_eq a b \<longleftrightarrow> m_uid a = m_uid b"

definition key_neq :: "event_key \<Rightarrow> event_key \<Rightarrow> bool" where
  "key_neq a b \<longleftrightarrow> m_uid a \<noteq> m_uid b"

definition key_lt :: "event_key \<Rightarrow> event_key \<Rightarrow> bool" where
  "key_lt a b =
     (if m_ts a < m_ts b then True
      else if m_ts a = m_ts b \<and> m_uid a < m_uid b then True
      else False)"

definition key_gt :: "event_key \<Rightarrow> event_key \<Rightarrow> bool" where
  "key_gt a b =
     (if m_ts a > m_ts b then True
      else if m_ts a = m_ts b \<and> m_uid a > m_uid b then True
      else False)"

definition ev_eq :: "'i event \<Rightarrow> 'i event \<Rightarrow> bool" where
  "ev_eq a b = key_eq (key a) (key b)"

definition ev_lt :: "'i event \<Rightarrow> 'i event \<Rightarrow> bool" where
  "ev_lt a b = key_lt (key a) (key b)"

definition ev_gt :: "'i event \<Rightarrow> 'i event \<Rightarrow> bool" where
  "ev_gt a b = key_gt (key a) (key b)"

section \<open>The order of the keys\<close>

text \<open>
  Time stamp first, then unique id: the position of a key in that order as a number. The context
  plays no part.
\<close>

definition rank :: "event_key \<Rightarrow> nat" where
  "rank k = unat (m_ts k) * 2 ^ 32 + unat (m_uid k)"

lemma uid_bound: "unat (m_uid k) < 4294967296"
  using unsigned_less [of "m_uid k"] by simp

lemma key_lt_rank: "key_lt a b \<longleftrightarrow> rank a < rank b"
proof (cases "unat (m_ts a)" "unat (m_ts b)" rule: linorder_cases)
  case less
  with uid_bound [of a] show ?thesis
    by (simp add: key_lt_def word_less_nat_alt rank_def)
next
  case equal
  then show ?thesis
    by (auto simp: key_lt_def word_less_nat_alt word_unat_eq_iff rank_def)
next
  case greater
  with uid_bound [of b] show ?thesis
    by (auto simp: key_lt_def word_less_nat_alt rank_def)
qed

lemma key_gt_rank: "key_gt a b \<longleftrightarrow> rank b < rank a"
  unfolding key_lt_rank [symmetric] by (auto simp: key_gt_def key_lt_def)

lemma rank_eq: "rank a = rank b \<longleftrightarrow> m_ts a = m_ts b \<and> m_uid a = m_uid b"
proof
  assume r: "rank a = rank b"
  then have "\<not> key_lt a b" "\<not> key_lt b a" by (simp_all add: key_lt_rank)
  then show "m_ts a = m_ts b \<and> m_uid a = m_uid b"
    by (auto simp: key_lt_def split: if_splits)
qed (simp add: rank_def)

lemma rank_neq_uid: "m_uid a \<noteq> m_uid b \<Longrightarrow> rank a \<noteq> rank b"
  by (simp add: rank_eq)

abbreviation ev_rank :: "'i event \<Rightarrow> nat" where
  "ev_rank e \<equiv> rank (key e)"

abbreviation uid :: "'i event \<Rightarrow> uint32" where
  "uid e \<equiv> m_uid (key e)"

lemma ev_lt_rank: "ev_lt a b \<longleftrightarrow> ev_rank a < ev_rank b"
  by (simp add: ev_lt_def key_lt_rank)

definition fresh :: "'i event \<Rightarrow> 'i event multiset \<Rightarrow> bool" where
  "fresh e M \<longleftrightarrow> uid e \<notin># image_mset uid M"

lemma fresh_rank: "fresh e M \<Longrightarrow> x \<in># M \<Longrightarrow> ev_rank x \<noteq> ev_rank e"
  using rank_neq_uid [of "key x" "key e"] unfolding fresh_def
  by (metis imageI set_image_mset)

section \<open>The operations and their contract\<close>

record ('s, 'i) sched_ops =
  Insert :: "'i event \<Rightarrow> 's \<Rightarrow> 's option"
  IsEmpty :: "'s \<Rightarrow> bool"
  PeekNext :: "'s \<Rightarrow> 'i event option"
  RemoveNext :: "'s \<Rightarrow> ('i event \<times> 's) option"
  Remove :: "'i event \<Rightarrow> 's \<Rightarrow> 's option"

locale scheduler =
  fixes ops :: "('s, 'i) sched_ops"
    and new :: "'s"
    and invar :: "'s \<Rightarrow> bool"
    and events :: "'s \<Rightarrow> 'i event multiset"
  assumes new_ok: "invar new" "events new = {#}"
    and insert_ok: "invar s \<Longrightarrow> fresh e (events s) \<Longrightarrow>
      \<exists>s'. Insert ops e s = Some s' \<and> invar s' \<and> events s' = add_mset e (events s)"
    and is_empty: "invar s \<Longrightarrow> IsEmpty ops s \<longleftrightarrow> events s = {#}"
    and remove_next: "invar s \<Longrightarrow> events s \<noteq> {#} \<Longrightarrow>
      \<exists>e s'. RemoveNext ops s = Some (e, s') \<and> PeekNext ops s = Some e \<and> invar s' \<and>
        events s = add_mset e (events s') \<and> (\<forall>x \<in># events s'. ev_rank e < ev_rank x)"
    and remove_none: "invar s \<Longrightarrow> events s = {#} \<Longrightarrow> RemoveNext ops s = None"

locale removing_scheduler = scheduler +
  assumes remove_ok: "invar s \<Longrightarrow> e \<in># events s \<Longrightarrow>
    \<exists>s'. Remove ops e s = Some s' \<and> invar s' \<and> events s' = events s - {#e#}"
    and remove_absent: "invar s \<Longrightarrow> fresh e (events s) \<Longrightarrow> Remove ops e s = None"
    and remove_some: "invar s \<Longrightarrow> Remove ops e s = Some s' \<Longrightarrow>
      invar s' \<and> (\<exists>x. uid x = uid e \<and> impl x = impl e \<and> events s = add_mset x (events s'))"

text \<open>
  A scheduler may rely on time: it need not take an event that lies before \<open>last s\<close>, or beyond a
  horizon, or when it is full. After the event \<open>e\<close> was taken out, \<open>last\<close> is at most \<open>earliest e\<close>.
\<close>

locale timed_scheduler =
  fixes ops :: "('s, 'i) sched_ops"
    and new :: "'s"
    and invar :: "'s \<Rightarrow> bool"
    and events :: "'s \<Rightarrow> 'i event multiset"
    and last :: "'s \<Rightarrow> nat"
    and earliest :: "'i event \<Rightarrow> nat"
    and horizon capacity :: nat
  assumes timed_new: "invar new" "events new = {#}" "last new = 0"
    and timed_insert: "invar s \<Longrightarrow> fresh e (events s) \<Longrightarrow> last s \<le> unat (m_ts (key e)) \<Longrightarrow>
      unat (m_ts (key e)) < horizon \<Longrightarrow> size (events s) < capacity \<Longrightarrow>
      \<exists>s'. Insert ops e s = Some s' \<and> invar s' \<and> events s' = add_mset e (events s) \<and> last s' = last s"
    and timed_next: "invar s \<Longrightarrow> events s \<noteq> {#} \<Longrightarrow>
      \<exists>e s'. RemoveNext ops s = Some (e, s') \<and> PeekNext ops s = Some e \<and> invar s' \<and>
        events s = add_mset e (events s') \<and> (\<forall>x \<in># events s'. ev_rank e < ev_rank x) \<and> last s' \<le> earliest e"
    and timed_none: "invar s \<Longrightarrow> events s = {#} \<Longrightarrow> RemoveNext ops s = None"

sublocale scheduler \<subseteq> timed: timed_scheduler ops new invar events "\<lambda>_. 0" "\<lambda>_. 0" "2 ^ 64" capacity for capacity
  using new_ok insert_ok remove_next remove_none by unfold_locales simp_all

locale timed_removing_scheduler = timed_scheduler +
  assumes timed_remove: "invar s \<Longrightarrow> e \<in># events s \<Longrightarrow>
    \<exists>s'. Remove ops e s = Some s' \<and> invar s' \<and> events s' = events s - {#e#} \<and> last s' = last s"
    and timed_absent: "invar s \<Longrightarrow> fresh e (events s) \<Longrightarrow> Remove ops e s = None"

sublocale removing_scheduler \<subseteq> timed_removing: timed_removing_scheduler ops new invar events "\<lambda>_. 0" "\<lambda>_. 0" "2 ^ 64" capacity for capacity
  using remove_ok remove_absent by unfold_locales simp_all

text \<open>
  Taking the events out one after the other, as \<open>DefaultSimulatorImpl::DoDispose\<close>
  does. The counter bounds the iterations: the number of queued events is enough.
\<close>

fun drain :: "('s, 'i) sched_ops \<Rightarrow> nat \<Rightarrow> 's \<Rightarrow> ('i event list \<times> 's) option" where
  "drain ops 0 s = (if IsEmpty ops s then Some ([], s) else None)"
| "drain ops (Suc n) s =
     (if IsEmpty ops s then Some ([], s)
      else do {
        (e, s1) \<leftarrow> RemoveNext ops s;
        (es, s2) \<leftarrow> drain ops n s1;
        Some (e # es, s2)
      })"

abbreviation in_order :: "'i event list \<Rightarrow> bool" where
  "in_order es \<equiv> sorted_wrt (\<lambda>a b. ev_rank a < ev_rank b) es"

lemma in_order_unique:
  assumes "in_order xs" "in_order ys" "mset xs = mset ys"
  shows "xs = ys"
proof -
  have d: "distinct (map ev_rank zs)" and s: "sorted (map ev_rank zs)" if "in_order zs"
    for zs :: "'a event list"
    using that strict_sorted_iff [of "map ev_rank zs"] by (simp_all add: sorted_wrt_map)
  have "inj_on ev_rank (set xs \<union> set ys)"
    using d [OF assms(1)] assms(3) by (metis Un_absorb distinct_map mset_eq_setD)
  moreover have "map ev_rank xs = map ev_rank ys"
    using s [OF assms(1)] s [OF assms(2)] assms(3)
    by (metis mset_map properties_for_sort sorted_sort_id)
  ultimately show ?thesis
    by (simp add: inj_on_map_eq_map)
qed

context scheduler
begin

lemma drain_all:
  "invar s \<Longrightarrow> size (events s) \<le> n \<Longrightarrow>
    \<exists>es s'. drain ops n s = Some (es, s') \<and> in_order es \<and> mset es = events s \<and>
      invar s' \<and> events s' = {#}"
proof (induction n arbitrary: s)
  case 0
  then show ?case by (simp add: is_empty)
next
  case (Suc n)
  show ?case
  proof (cases "events s = {#}")
    case True
    with Suc.prems show ?thesis by (simp add: is_empty)
  next
    case False
    then obtain e s1 where r: "RemoveNext ops s = Some (e, s1)" "invar s1"
        "events s = add_mset e (events s1)" "\<forall>x \<in># events s1. ev_rank e < ev_rank x"
      using remove_next [OF Suc.prems(1)] by blast
    moreover from r(3) Suc.prems(2) have "size (events s1) \<le> n" by simp
    ultimately obtain es s2 where "drain ops n s1 = Some (es, s2)" "in_order es"
        "mset es = events s1" "invar s2" "events s2 = {#}"
      using Suc.IH by blast
    with r False Suc.prems(1) show ?thesis
      by (auto simp: is_empty simp flip: set_mset_mset)
  qed
qed

lemma drain_determined:
  "invar s \<Longrightarrow> size (events s) \<le> n \<Longrightarrow> in_order es \<Longrightarrow> mset es = events s \<Longrightarrow>
    map_option fst (drain ops n s) = Some es"
  using drain_all [of s n] in_order_unique by fastforce

end

end
