(* ===== verification/CalSched.thy ===== *)
theory CalSched
  imports EventSched
begin

text \<open>
  \<open>CalendarScheduler\<close> (\<open>core/model/calendar-scheduler.cc\<close>): an array of buckets, each of which holds
  the events of the days that fall on it, in order. The search starts at the day of the last event and
  goes round once; the number of buckets and their width follow the number of events. \<open>None\<close> is a failed
  assertion, an access outside the array, a division by zero or a search that does not end.
\<close>

section \<open>State\<close>

type_synonym 'i bucket = "'i event list"

record 'i calendar =
  m_buckets :: "'i bucket list"
  m_nBuckets :: uint32
  m_width :: uint64
  m_lastBucket :: uint32
  m_bucketTop :: uint64
  m_lastPrio :: uint64
  m_qSize :: uint32
  m_reverse :: bool

text \<open>The three functions that \<open>SetReverse\<close> chooses. \<open>NextEvent\<close> of an empty bucket is undefined.\<close>

definition cal_NextEvent :: "bool \<Rightarrow> 'i bucket \<Rightarrow> 'i event option" where
  "cal_NextEvent bwd b = (if b = [] then None else Some (if bwd then last b else hd b))"

definition cal_Order :: "bool \<Rightarrow> event_key \<Rightarrow> event_key \<Rightarrow> bool" where
  "cal_Order bwd a b = (if bwd then key_gt a b else key_lt a b)"

definition cal_Pop :: "bool \<Rightarrow> 'i bucket \<Rightarrow> 'i bucket" where
  "cal_Pop bwd b = (if bwd then butlast b else tl b)"

definition cal_Hash :: "'i calendar \<Rightarrow> uint64 \<Rightarrow> uint32 option" where
  "cal_Hash s ts =
     (if m_width s = 0 \<or> m_nBuckets s = 0 then None
      else Some (ucast ((ts div m_width s) mod ucast (m_nBuckets s))))"

definition bucket_at :: "'i calendar \<Rightarrow> uint32 \<Rightarrow> 'i bucket option" where
  "bucket_at s i = (if unat i < length (m_buckets s) then Some (m_buckets s ! unat i) else None)"

definition set_bucket :: "uint32 \<Rightarrow> 'i bucket \<Rightarrow> 'i calendar \<Rightarrow> 'i calendar" where
  "set_bucket i b s = s\<lparr>m_buckets := (m_buckets s)[unat i := b]\<rparr>"

definition bucket_top :: "uint64 \<Rightarrow> uint64 \<Rightarrow> uint64" where
  "bucket_top prio width = (prio div width + 1) * width"

definition cal_Init :: "uint32 \<Rightarrow> uint64 \<Rightarrow> uint64 \<Rightarrow> 'i calendar \<Rightarrow> 'i calendar option" where
  "cal_Init nBuckets width startPrio s = do {
     let s = s\<lparr>m_buckets := replicate (unat nBuckets) [], m_nBuckets := nBuckets, m_width := width, m_lastPrio := startPrio\<rparr>;
     h \<leftarrow> cal_Hash s startPrio;
     Some (s\<lparr>m_lastBucket := h, m_bucketTop := bucket_top startPrio width\<rparr>)
   }"

text \<open>The constructor calls \<open>Init (2, 1, 0)\<close>; the order of the buckets is fixed at construction.\<close>

definition cal_new :: "bool \<Rightarrow> 'i calendar" where
  "cal_new bwd = \<lparr>m_buckets = [[], []], m_nBuckets = 2, m_width = 1, m_lastBucket = 0, m_bucketTop = 1,
     m_lastPrio = 0, m_qSize = 0, m_reverse = bwd\<rparr>"

section \<open>Insertion\<close>

fun bucket_insert :: "bool \<Rightarrow> 'i event \<Rightarrow> 'i bucket \<Rightarrow> 'i bucket" where
  "bucket_insert bwd ev [] = [ev]"
| "bucket_insert bwd ev (i # is) = (if cal_Order bwd (key ev) (key i) then ev # i # is else i # bucket_insert bwd ev is)"

definition cal_DoInsert :: "'i event \<Rightarrow> 'i calendar \<Rightarrow> 'i calendar option" where
  "cal_DoInsert ev s = do {
     bucket \<leftarrow> cal_Hash s (m_ts (key ev));
     b \<leftarrow> bucket_at s bucket;
     Some (set_bucket bucket (bucket_insert (m_reverse s) ev b) s)
   }"

fun cal_insert_all :: "'i event list \<Rightarrow> 'i calendar \<Rightarrow> 'i calendar option" where
  "cal_insert_all [] s = Some s"
| "cal_insert_all (e # es) s = do { s \<leftarrow> cal_DoInsert e s; cal_insert_all es s }"

section \<open>The search for the next event\<close>

definition cal_IsEmpty :: "'i calendar \<Rightarrow> bool" where
  "cal_IsEmpty s \<longleftrightarrow> m_qSize s = 0"

text \<open>
  \<open>PeekNext\<close> and \<open>DoRemoveNext\<close> have the same loop; they differ in what they keep of the least event
  seen, \<open>best\<close>. The loop ends at an event below the top of its bucket, or after one round.
\<close>

datatype ('e, 'b) found = Today uint32 uint64 'e | Least 'b

definition due :: "bool \<Rightarrow> uint64 \<Rightarrow> 'i bucket \<Rightarrow> 'i event option" where
  "due bwd bucketTop b = (case cal_NextEvent bwd b of None \<Rightarrow> None
     | Some nxt \<Rightarrow> if m_ts (key nxt) < bucketTop then Some nxt else None)"

partial_function (option) cal_scan ::
    "(uint32 \<Rightarrow> 'i event \<Rightarrow> 'b \<Rightarrow> 'b) \<Rightarrow> 'i calendar \<Rightarrow> uint32 \<Rightarrow> uint64 \<Rightarrow> 'b \<Rightarrow> ('i event, 'b) found option" where
  "cal_scan upd s i bucketTop best = do {
     b \<leftarrow> bucket_at s i;
     (case due (m_reverse s) bucketTop b of
        Some nxt \<Rightarrow> Some (Today i bucketTop nxt)
      | None \<Rightarrow>
          let best = (case cal_NextEvent (m_reverse s) b of None \<Rightarrow> best | Some nxt \<Rightarrow> upd i nxt best);
              j = (i + 1) mod m_nBuckets s
          in if m_nBuckets s = 0 then None
             else if j \<noteq> m_lastBucket s then cal_scan upd s j (bucketTop + m_width s) best
             else Some (Least best))
   }"

declare cal_scan.simps [code]

text \<open>\<open>nullptr\<close> is the value of a pointer to no event; the result has it only if every event is at the end of time.\<close>

definition cal_PeekNext :: "'i \<Rightarrow> 'i calendar \<Rightarrow> 'i event option" where
  "cal_PeekNext nullptr s = do {
     ns_assert (\<not> cal_IsEmpty s);
     let minEvent = \<lparr>impl = nullptr, key = \<lparr>m_ts = 0xffffffffffffffff, m_uid = 0xffffffff, m_context = 0\<rparr>\<rparr>;
     r \<leftarrow> cal_scan (\<lambda>i nxt m. if key_lt (key nxt) (key m) then nxt else m) s (m_lastBucket s) (m_bucketTop s) minEvent;
     Some (case r of Today i t nxt \<Rightarrow> nxt | Least m \<Rightarrow> m)
   }"

text \<open>The bucket of the least event is \<open>None\<close> as long as it is -1.\<close>

definition cal_DoRemoveNext :: "'i calendar \<Rightarrow> ('i event \<times> 'i calendar) option" where
  "cal_DoRemoveNext s = do {
     ns_assert (\<not> cal_IsEmpty s);
     let minKey = \<lparr>m_ts = 0xffffffffffffffff, m_uid = 0, m_context = 0xffffffff\<rparr>;
     r \<leftarrow> cal_scan (\<lambda>i nxt m. if key_lt (key nxt) (fst m) then (key nxt, Some i) else m) s
            (m_lastBucket s) (m_bucketTop s) (minKey, None);
     (case r of
        Today i t nxt \<Rightarrow> do {
          b \<leftarrow> bucket_at s i;
          Some (nxt, set_bucket i (cal_Pop (m_reverse s) b)
            (s\<lparr>m_lastBucket := i, m_lastPrio := m_ts (key nxt), m_bucketTop := t\<rparr>))
        }
      | Least (minKey, minBucket) \<Rightarrow> do {
          let s = s\<lparr>m_lastPrio := m_ts minKey\<rparr>;
          h \<leftarrow> cal_Hash s (m_ts minKey);
          let s = s\<lparr>m_lastBucket := h, m_bucketTop := bucket_top (m_ts minKey) (m_width s)\<rparr>;
          i \<leftarrow> minBucket;
          b \<leftarrow> bucket_at s i;
          nxt \<leftarrow> cal_NextEvent (m_reverse s) b;
          Some (nxt, set_bucket i (cal_Pop (m_reverse s) b) s)
        })
   }"

section \<open>The number of buckets and their width\<close>

fun cal_gather :: "nat \<Rightarrow> 'i calendar \<Rightarrow> ('i event list \<times> 'i calendar) option" where
  "cal_gather 0 s = Some ([], s)"
| "cal_gather (Suc n) s = do { (e, s) \<leftarrow> cal_DoRemoveNext s; (es, s) \<leftarrow> cal_gather n s; Some (e # es, s) }"

fun separations :: "uint64 list \<Rightarrow> uint64 list" where
  "separations (a # b # ts) = (b - a) # separations (b # ts)"
| "separations _ = []"

definition sample_width :: "uint64 list \<Rightarrow> uint64" where
  "sample_width ts =
     (let seps = separations ts;
          twiceAvg = sum_list seps div (of_nat (length ts) - 1) * 2;
          totalSeparation = sum_list (filter (\<lambda>diff. diff \<le> twiceAvg) seps) * 3
      in max totalSeparation 1)"

definition sample_count :: "uint32 \<Rightarrow> uint32" where
  "sample_count qSize = (let n = (if qSize \<le> 5 then qSize else 5 + qSize div 10) in if n > 25 then 25 else n)"

definition CalculateNewWidth :: "'i calendar \<Rightarrow> (uint64 \<times> 'i calendar) option" where
  "CalculateNewWidth s =
     (if m_qSize s < 2 then Some (1, s)
      else do {
        (samples, s') \<leftarrow> cal_gather (unat (sample_count (m_qSize s))) s;
        s' \<leftarrow> cal_insert_all samples s';
        Some (sample_width (map (m_ts \<circ> key) samples),
          s'\<lparr>m_lastBucket := m_lastBucket s, m_bucketTop := m_bucketTop s, m_lastPrio := m_lastPrio s\<rparr>)
      })"

definition DoResize :: "uint32 \<Rightarrow> uint64 \<Rightarrow> 'i calendar \<Rightarrow> 'i calendar option" where
  "DoResize newSize newWidth s = do {
     s' \<leftarrow> cal_Init newSize newWidth (m_lastPrio s) s;
     cal_insert_all (concat (m_buckets s)) s'
   }"

definition cal_Resize :: "uint32 \<Rightarrow> 'i calendar \<Rightarrow> 'i calendar option" where
  "cal_Resize newSize s = do { (newWidth, s) \<leftarrow> CalculateNewWidth s; DoResize newSize newWidth s }"

definition ResizeUp :: "'i calendar \<Rightarrow> 'i calendar option" where
  "ResizeUp s = (if m_qSize s > m_nBuckets s * 2 \<and> m_nBuckets s < 32768 then cal_Resize (m_nBuckets s * 2) s else Some s)"

definition ResizeDown :: "'i calendar \<Rightarrow> 'i calendar option" where
  "ResizeDown s = (if m_qSize s < m_nBuckets s div 2 then cal_Resize (m_nBuckets s div 2) s else Some s)"

section \<open>The operations\<close>

definition cal_Insert :: "'i event \<Rightarrow> 'i calendar \<Rightarrow> 'i calendar option" where
  "cal_Insert ev s = do { s \<leftarrow> cal_DoInsert ev s; ResizeUp (s\<lparr>m_qSize := m_qSize s + 1\<rparr>) }"

definition cal_RemoveNext :: "'i calendar \<Rightarrow> ('i event \<times> 'i calendar) option" where
  "cal_RemoveNext s = do {
     ns_assert (\<not> cal_IsEmpty s);
     (ev, s) \<leftarrow> cal_DoRemoveNext s;
     s \<leftarrow> ResizeDown (s\<lparr>m_qSize := m_qSize s - 1\<rparr>);
     Some (ev, s)
   }"

text \<open>The event with the unique id is erased from its bucket; a bucket without it hits \<open>NS_ASSERT (false)\<close>.\<close>

fun bucket_remove :: "'i event \<Rightarrow> 'i bucket \<Rightarrow> 'i bucket option" where
  "bucket_remove ev [] = None"
| "bucket_remove ev (i # is) =
     (if m_uid (key i) = m_uid (key ev) then do { ns_assert (impl ev = impl i); Some is }
      else map_option ((#) i) (bucket_remove ev is))"

definition cal_Remove :: "'i event \<Rightarrow> 'i calendar \<Rightarrow> 'i calendar option" where
  "cal_Remove ev s = do {
     ns_assert (\<not> cal_IsEmpty s);
     bucket \<leftarrow> cal_Hash s (m_ts (key ev));
     b \<leftarrow> bucket_at s bucket;
     b \<leftarrow> bucket_remove ev b;
     let s = set_bucket bucket b s;
     ResizeDown (s\<lparr>m_qSize := m_qSize s - 1\<rparr>)
   }"

definition cal_ops :: "'i \<Rightarrow> ('i calendar, 'i) sched_ops" where
  "cal_ops nullptr = \<lparr>Insert = cal_Insert, IsEmpty = cal_IsEmpty, PeekNext = cal_PeekNext nullptr,
     RemoveNext = cal_RemoveNext, Remove = cal_Remove\<rparr>"

end
