(* ===== verification/CalInv.thy ===== *)
theory CalInv
  imports CalSched
begin

text \<open>
  The invariant of the calendar: an event lies in the bucket of its day, the buckets are in order, and
  the search starts at the day of the last event taken out. The next event is the least one, for times
  below \<open>2 ^ 46\<close>, where the ends of the days fit 64 bits whatever the width.
\<close>

section \<open>The invariant\<close>

definition cal_end :: nat where
  "cal_end = 70368744177664"

abbreviation tsn :: "'i event \<Rightarrow> nat" where
  "tsn e \<equiv> unat (m_ts (key e))"

abbreviation wid :: "'i calendar \<Rightarrow> nat" where
  "wid s \<equiv> unat (m_width s)"

abbreviation nbk :: "'i calendar \<Rightarrow> nat" where
  "nbk s \<equiv> unat (m_nBuckets s)"

abbreviation lastp :: "'i calendar \<Rightarrow> nat" where
  "lastp s \<equiv> unat (m_lastPrio s)"

definition cal_events :: "'i calendar \<Rightarrow> 'i event multiset" where
  "cal_events s = mset (concat (m_buckets s))"

definition bucket_ok :: "bool \<Rightarrow> 'i bucket \<Rightarrow> bool" where
  "bucket_ok bwd b \<longleftrightarrow> in_order (if bwd then rev b else b)"

definition in_day :: "nat \<Rightarrow> nat \<Rightarrow> nat \<Rightarrow> 'i event \<Rightarrow> bool" where
  "in_day w n i e \<longleftrightarrow> tsn e div w mod n = i"

definition shape :: "'i calendar \<Rightarrow> bool" where
  "shape s \<longleftrightarrow> 0 < wid s \<and> wid s \<le> 3 * cal_end \<and> (\<exists>k \<le> 15. nbk s = 2 ^ k) \<and> length (m_buckets s) = nbk s"

text \<open>The buckets hold events between \<open>L\<close> and the end of time.\<close>

definition buckets_ok :: "nat \<Rightarrow> 'i calendar \<Rightarrow> bool" where
  "buckets_ok L s \<longleftrightarrow> shape s \<and>
     (\<forall>i < nbk s. bucket_ok (m_reverse s) (m_buckets s ! i) \<and>
       (\<forall>e \<in> set (m_buckets s ! i). in_day (wid s) (nbk s) i e)) \<and>
     (\<forall>e \<in># cal_events s. L \<le> tsn e \<and> tsn e < cal_end) \<and>
     distinct (map uid (concat (m_buckets s)))"

definition pointer_ok :: "'i calendar \<Rightarrow> bool" where
  "pointer_ok s \<longleftrightarrow> lastp s < cal_end \<and> m_lastBucket s = of_nat (lastp s div wid s mod nbk s) \<and>
     m_bucketTop s = of_nat ((lastp s div wid s + 1) * wid s)"

definition cal_core :: "'i calendar \<Rightarrow> bool" where
  "cal_core s \<longleftrightarrow> buckets_ok (lastp s) s \<and> pointer_ok s"

definition cal_invar :: "'i calendar \<Rightarrow> bool" where
  "cal_invar s \<longleftrightarrow> cal_core s \<and> unat (m_qSize s) = size (cal_events s)"

lemma shape_bounds:
  assumes "shape s"
  shows "0 < wid s" "0 < nbk s" "nbk s \<le> 32768" "length (m_buckets s) = nbk s" "m_width s \<noteq> 0" "m_nBuckets s \<noteq> 0"
proof -
  obtain k where k: "k \<le> 15" "nbk s = 2 ^ k" using assms by (auto simp: shape_def)
  then have "nbk s \<le> 2 ^ 15" using power_increasing [of k 15 "2 :: nat"] by simp
  then show "nbk s \<le> 32768" by simp
  show "0 < nbk s" by (simp add: k)
  then show "m_nBuckets s \<noteq> 0" by auto
  show "0 < wid s" "length (m_buckets s) = nbk s" using assms by (simp_all add: shape_def)
  then show "m_width s \<noteq> 0" by auto
qed

lemma buckets_ok_mono: "buckets_ok L s \<Longrightarrow> K \<le> L \<Longrightarrow> buckets_ok K s"
  by (auto simp: buckets_ok_def intro: order_trans)

section \<open>Words\<close>

lemma unat_of_nat64: "n < 2 ^ 64 \<Longrightarrow> unat (of_nat n :: uint64) = n"
  by (simp add: unat_of_nat)

lemma unat_ucast64: "unat (ucast (n :: uint32) :: uint64) = unat n"
proof -
  have "unat n < 2 ^ 64" using unsigned_less [of n, where 'a = nat] by simp
  then show ?thesis by (simp add: unsigned_ucast_eq take_bit_nat_eq_self)
qed

lemma cal_Hash_nat:
  assumes "shape s"
  shows "cal_Hash s ts = Some (of_nat (unat ts div wid s mod nbk s))"
proof -
  have "ucast (ts div m_width s mod ucast (m_nBuckets s)) =
      (of_nat (unat (ts div m_width s mod ucast (m_nBuckets s))) :: uint32)" by simp
  also have "\<dots> = of_nat (unat ts div wid s mod nbk s)"
    by (simp only: unat_div_distrib unat_mod_distrib unat_ucast64)
  finally show ?thesis using shape_bounds(5,6) [OF assms] by (simp add: cal_Hash_def)
qed

lemma mod_nbk: "shape s \<Longrightarrow> x mod nbk s < nbk s"
  using shape_bounds(2) [of s] by (rule mod_less_divisor)

lemma unat_bucket: "shape s \<Longrightarrow> unat (of_nat (x mod nbk s) :: uint32) = x mod nbk s"
  using shape_bounds(3) [of s] mod_nbk [of s x] by (intro unat_of_nat32) simp

lemma bucket_at_nat: "shape s \<Longrightarrow> bucket_at s (of_nat (x mod nbk s)) = Some (m_buckets s ! (x mod nbk s))"
  using shape_bounds(4) [of s] by (simp add: bucket_at_def unat_bucket mod_nbk)

lemma bucket_top_nat: "bucket_top p w = of_nat ((unat p div unat w + 1) * unat w)"
proof -
  have "(of_nat (unat p div unat w) :: uint64) = of_nat (unat (p div w))" by (simp only: unat_div_distrib)
  then have "of_nat (unat p div unat w) = p div w" by simp
  then show ?thesis by (simp only: bucket_top_def of_nat_mult of_nat_add of_nat_1) simp
qed

text \<open>The end of a day of the round fits.\<close>

lemma day_end_fits:
  assumes "shape s" "x < cal_end" "j \<le> nbk s"
  shows "(x div wid s + j) * wid s < 2 ^ 64"
proof -
  have "(x div wid s + j) * wid s = x div wid s * wid s + j * wid s" by (simp add: distrib_right)
  also have "\<dots> \<le> x + 32768 * (3 * cal_end)"
    using assms shape_bounds(3) [OF assms(1)]
    by (intro add_mono mult_mono div_times_less_eq_dividend) (auto simp: shape_def)
  also have "\<dots> < 2 ^ 64" using assms(2) by (simp add: cal_end_def)
  finally show ?thesis .
qed

section \<open>Buckets\<close>

lemma mset_bucket_insert [simp]: "mset (bucket_insert bwd e b) = add_mset e (mset b)"
  by (induction b) auto

lemma set_bucket_insert [simp]: "set (bucket_insert bwd e b) = insert e (set b)"
  by (induction b) auto

lemma bucket_insert_ok:
  assumes "bucket_ok bwd b" "\<forall>x \<in> set b. ev_rank x \<noteq> ev_rank e"
  shows "bucket_ok bwd (bucket_insert bwd e b)"
  using assms
proof (induction b)
  case (Cons x b)
  then show ?case
    by (cases bwd) (auto simp: bucket_ok_def cal_Order_def key_lt_rank key_gt_rank sorted_wrt_append not_less order_le_less)
qed (simp add: bucket_ok_def)

lemma NextEvent_None: "cal_NextEvent bwd b = None \<longleftrightarrow> b = []"
  by (simp add: cal_NextEvent_def)

text \<open>The next event of a bucket is its least one, and \<open>Pop\<close> takes it out.\<close>

lemma NextEvent_least:
  assumes "bucket_ok bwd b" "cal_NextEvent bwd b = Some e"
  shows "e \<in> set b" "\<forall>x \<in> set (cal_Pop bwd b). ev_rank e < ev_rank x" "mset b = add_mset e (mset (cal_Pop bwd b))"
    "bucket_ok bwd (cal_Pop bwd b)"
proof -
  have eq: "(if bwd then rev b else b) = e # (if bwd then rev (cal_Pop bwd b) else cal_Pop bwd b)"
  proof (cases bwd)
    case True
    with assms(2) have "b \<noteq> []" "e = last b" by (auto simp: cal_NextEvent_def split: if_splits)
    then have "b = butlast b @ [e]" by simp
    then have "rev b = e # rev (butlast b)" by (metis rev_eq_Cons_iff rev_rev_ident)
    with True show ?thesis by (simp add: cal_Pop_def)
  qed (use assms(2) in \<open>auto simp: cal_NextEvent_def cal_Pop_def split: if_splits\<close>)
  show m: "mset b = add_mset e (mset (cal_Pop bwd b))"
    using arg_cong [OF eq, of mset] by (cases bwd) simp_all
  then show "e \<in> set b" by (metis set_mset_mset union_single_eq_member)
  have "in_order (e # (if bwd then rev (cal_Pop bwd b) else cal_Pop bwd b))"
    using assms(1) unfolding bucket_ok_def eq .
  then show "\<forall>x \<in> set (cal_Pop bwd b). ev_rank e < ev_rank x" "bucket_ok bwd (cal_Pop bwd b)"
    by (cases bwd, simp_all add: bucket_ok_def)+
qed

lemma concat_update:
  assumes "i < length bs"
  obtains M where "mset (concat bs) = mset (bs ! i) + M" "\<And>b. mset (concat (bs[i := b])) = mset b + M"
proof -
  let ?M = "mset (concat (take i bs)) + mset (concat (drop (Suc i) bs))"
  have "mset (concat bs) = mset (bs ! i) + ?M"
    by (subst id_take_nth_drop [OF assms]) (simp add: union_ac)
  moreover have "mset (concat (bs[i := b])) = mset b + ?M" for b
    by (simp add: upd_conv_take_nth_drop assms union_ac)
  ultimately show ?thesis using that by blast
qed

end
