(* ===== verification/CalNext.thy ===== *)
theory CalNext
  imports CalInv
begin

text \<open>Insertion into the calendar, and the search for the next event.\<close>

section \<open>Insertion\<close>

text \<open>What a call keeps, apart from the buckets.\<close>

definition same_frame :: "'i calendar \<Rightarrow> 'i calendar \<Rightarrow> bool" where
  "same_frame s s' \<longleftrightarrow> (\<exists>bs. s' = s\<lparr>m_buckets := bs\<rparr>)"

lemma same_frame_trans: "same_frame a b \<Longrightarrow> same_frame b c \<Longrightarrow> same_frame a c"
  by (auto simp: same_frame_def)

lemma cal_events_update:
  assumes "i < length (m_buckets s)"
  obtains M where "cal_events s = mset (m_buckets s ! i) + M" "\<And>b. cal_events (s\<lparr>m_buckets := (m_buckets s)[i := b]\<rparr>) = mset b + M"
  using concat_update [OF assms] unfolding cal_events_def by simp metis

lemma cal_DoInsert_ok:
  assumes ok: "buckets_ok L s" and e: "L \<le> tsn e" "tsn e < cal_end" "fresh e (cal_events s)"
  shows "\<exists>s'. cal_DoInsert e s = Some s' \<and> same_frame s s' \<and> buckets_ok L s' \<and> cal_events s' = add_mset e (cal_events s)"
proof -
  have sh: "shape s" using ok by (simp add: buckets_ok_def)
  let ?i = "tsn e div wid s mod nbk s"
  let ?b = "bucket_insert (m_reverse s) e (m_buckets s ! ?i)"
  let ?s = "s\<lparr>m_buckets := (m_buckets s)[?i := ?b]\<rparr>"
  have i: "?i < nbk s" "?i < length (m_buckets s)" using mod_nbk [OF sh] shape_bounds(4) [OF sh] by simp_all
  have r: "cal_DoInsert e s = Some ?s"
    by (simp add: cal_DoInsert_def cal_Hash_nat [OF sh] bucket_at_nat [OF sh] set_bucket_def unat_bucket [OF sh])
  obtain M where M: "cal_events s = mset (m_buckets s ! ?i) + M" "cal_events ?s = mset ?b + M"
    using cal_events_update [OF i(2)] by metis
  then have ev: "cal_events ?s = add_mset e (cal_events s)" by simp
  have "ev_rank x \<noteq> ev_rank e" if "x \<in> set (m_buckets s ! ?i)" for x
    using that M(1) fresh_rank [OF e(3), of x] by simp
  then have "bucket_ok (m_reverse s) ?b"
    using ok i(1) by (intro bucket_insert_ok) (auto simp: buckets_ok_def)
  then have "\<forall>j < nbk s. bucket_ok (m_reverse s) (m_buckets ?s ! j) \<and> (\<forall>x \<in> set (m_buckets ?s ! j). in_day (wid s) (nbk s) j x)"
    using ok i by (auto simp: buckets_ok_def nth_list_update in_day_def)
  moreover have "distinct (map uid (concat (m_buckets ?s)))"
  proof -
    have "mset (map uid (concat (m_buckets ?s))) = mset (uid e # map uid (concat (m_buckets s)))"
      using ev by (simp add: cal_events_def)
    moreover have "distinct (uid e # map uid (concat (m_buckets s)))"
      using ok e(3) by (auto simp: buckets_ok_def fresh_def cal_events_def)
    ultimately show ?thesis by (metis mset_eq_imp_distinct_iff)
  qed
  moreover have "shape ?s" using sh by (simp add: shape_def)
  ultimately have "buckets_ok L ?s" using ok e ev by (simp add: buckets_ok_def)
  with r ev show ?thesis by (auto simp: same_frame_def)
qed

lemma cal_insert_all_ok:
  assumes "buckets_ok L s" "\<forall>e \<in> set es. L \<le> tsn e \<and> tsn e < cal_end" "distinct (map uid es)"
    "\<forall>e \<in> set es. fresh e (cal_events s)"
  shows "\<exists>s'. cal_insert_all es s = Some s' \<and> same_frame s s' \<and> buckets_ok L s' \<and> cal_events s' = mset es + cal_events s"
  using assms
proof (induction es arbitrary: s)
  case Nil
  then show ?case by (auto simp: same_frame_def intro!: exI [of _ "m_buckets s"])
next
  case (Cons e es)
  obtain s1 where s1: "cal_DoInsert e s = Some s1" "same_frame s s1" "buckets_ok L s1" "cal_events s1 = add_mset e (cal_events s)"
    using cal_DoInsert_ok [of L s e] Cons.prems by auto
  moreover have "\<forall>x \<in> set es. fresh x (cal_events s1)" using Cons.prems(3,4) by (auto simp: fresh_def s1(4) image_iff)
  ultimately obtain s' where "cal_insert_all es s1 = Some s'" "same_frame s1 s'" "buckets_ok L s'" "cal_events s' = mset es + cal_events s1"
    using Cons.IH [of s1] Cons.prems by auto
  with s1 same_frame_trans [of s s1 s'] show ?case by simp
qed

section \<open>One round of the search\<close>

text \<open>The bucket and the end of the day that the search looks at in its step \<open>j\<close>.\<close>

definition day :: "'i calendar \<Rightarrow> nat \<Rightarrow> nat" where
  "day s j = lastp s div wid s + j"

definition day_end :: "'i calendar \<Rightarrow> nat \<Rightarrow> nat" where
  "day_end s j = (day s j + 1) * wid s"

abbreviation day_bucket :: "'i calendar \<Rightarrow> nat \<Rightarrow> 'i bucket" where
  "day_bucket s j \<equiv> m_buckets s ! (day s j mod nbk s)"

abbreviation day_next :: "'i calendar \<Rightarrow> nat \<Rightarrow> 'i event option" where
  "day_next s j \<equiv> cal_NextEvent (m_reverse s) (day_bucket s j)"

lemma mod_shift_neq:
  assumes "0 < j" "j < n"
  shows "(v + j) mod n \<noteq> v mod (n :: nat)"
proof
  assume "(v + j) mod n = v mod n"
  then have "n dvd v + j - v" by (metis mod_eq_dvd_iff_nat le_add1)
  then show False using assms nat_dvd_not_less [of j n] by simp
qed

lemma scan_step:
  assumes sh: "shape s" and p: "pointer_ok s" and j: "j < nbk s"
  shows "cal_scan upd s (of_nat (day s j mod nbk s)) (of_nat (day_end s j)) best =
    (case day_next s j of
       Some nxt \<Rightarrow> if tsn nxt < day_end s j
         then Some (Today (of_nat (day s j mod nbk s)) (of_nat (day_end s j)) nxt)
         else if Suc j < nbk s then cal_scan upd s (of_nat (day s (Suc j) mod nbk s)) (of_nat (day_end s (Suc j)))
           (upd (of_nat (day s j mod nbk s)) nxt best)
         else Some (Least (upd (of_nat (day s j mod nbk s)) nxt best))
     | None \<Rightarrow> if Suc j < nbk s then cal_scan upd s (of_nat (day s (Suc j) mod nbk s)) (of_nat (day_end s (Suc j))) best
         else Some (Least best))"
proof -
  let ?i = "of_nat (day s j mod nbk s) :: uint32" and ?t = "of_nat (day_end s j) :: uint64"
  have fit: "day_end s j < 2 ^ 64"
    using day_end_fits [OF sh, of "lastp s" "Suc j"] p j by (simp add: pointer_ok_def day_def day_end_def)
  have u: "unat ?t = day_end s j" by (rule unat_of_nat64 [OF fit])
  have lt: "m_ts (key x) < ?t \<longleftrightarrow> tsn x < day_end s j" for x :: "'a event"
    by (simp only: word_less_nat_alt u)
  have nx: "(?i + 1) mod m_nBuckets s = of_nat (day s (Suc j) mod nbk s)"
  proof -
    have "unat (?i + 1) = day s j mod nbk s + 1"
      using mod_nbk [OF sh, of "day s j"] shape_bounds(3) [OF sh] unat_bucket [OF sh, of "day s j"]
      by (subst unat_plus32) simp_all
    then have "unat ((?i + 1) mod m_nBuckets s) = day s (Suc j) mod nbk s"
      by (simp add: unat_mod_distrib day_def mod_Suc_eq)
    then show ?thesis by (metis unat_bucket [OF sh] word_unat_eq_iff)
  qed
  have top: "?t + m_width s = of_nat (day_end s (Suc j))" by (simp add: day_def day_end_def distrib_right)
  have last: "of_nat (day s (Suc j) mod nbk s) \<noteq> m_lastBucket s \<longleftrightarrow> Suc j < nbk s"
  proof -
    have "of_nat (day s (Suc j) mod nbk s) = m_lastBucket s \<longleftrightarrow> day s (Suc j) mod nbk s = lastp s div wid s mod nbk s"
      using p unat_bucket [OF sh] unfolding pointer_ok_def by metis
    also have "\<dots> \<longleftrightarrow> \<not> Suc j < nbk s"
      using mod_shift_neq [of "Suc j" "nbk s" "lastp s div wid s"] j by (cases "Suc j = nbk s") (simp_all add: day_def)
    finally show ?thesis by blast
  qed
  show ?thesis
    unfolding cal_scan.simps [of upd s ?i] bucket_at_nat [OF sh] nx top
    using shape_bounds(6) [OF sh] by (cases "day_next s j") (simp_all add: due_def Let_def lt last nx)
qed

text \<open>
  The two loops keep the least key seen: \<open>K\<close> reads the key of what they keep, \<open>mk\<close> makes it from an event.
  Below \<open>m\<close> steps the days had no event.
\<close>

definition keep_least :: "('b \<Rightarrow> event_key) \<Rightarrow> (uint32 \<Rightarrow> 'i event \<Rightarrow> 'b) \<Rightarrow> uint32 \<Rightarrow> 'i event \<Rightarrow> 'b \<Rightarrow> 'b" where
  "keep_least K mk i nxt m = (if key_lt (key nxt) (K m) then mk i nxt else m)"

definition best_of :: "('b \<Rightarrow> event_key) \<Rightarrow> (uint32 \<Rightarrow> 'i event \<Rightarrow> 'b) \<Rightarrow> 'b \<Rightarrow> 'i calendar \<Rightarrow> nat \<Rightarrow> 'b \<Rightarrow> bool" where
  "best_of K mk b0 s m b \<longleftrightarrow>
     (b = b0 \<or> (\<exists>j < m. \<exists>e. day_next s j = Some e \<and> b = mk (of_nat (day s j mod nbk s)) e)) \<and>
     rank (K b) \<le> rank (K b0) \<and> (\<forall>j < m. \<forall>e. day_next s j = Some e \<longrightarrow> rank (K b) \<le> ev_rank e)"

definition late :: "'i calendar \<Rightarrow> nat \<Rightarrow> bool" where
  "late s m \<longleftrightarrow> (\<forall>j < m. \<forall>e. day_next s j = Some e \<longrightarrow> day_end s j \<le> tsn e)"

lemma best_of_step:
  assumes "best_of K mk b0 s m b" "\<And>i e. K (mk i e) = key e"
  shows "best_of K mk b0 s (Suc m) (case day_next s m of None \<Rightarrow> b | Some nxt \<Rightarrow> keep_least K mk (of_nat (day s m mod nbk s)) nxt b)"
proof (cases "day_next s m")
  case None
  with assms show ?thesis by (auto simp: best_of_def less_Suc_eq)
next
  case (Some e)
  with assms show ?thesis
    by (auto simp: best_of_def less_Suc_eq keep_least_def key_lt_rank)
qed

lemma scan_result:
  assumes sh: "shape s" and p: "pointer_ok s" and j: "j < nbk s" "late s j" "best_of K mk b0 s j b"
    and K: "\<And>i e. K (mk i e) = key e"
  shows "(\<exists>k e. k < nbk s \<and> late s k \<and> day_next s k = Some e \<and> tsn e < day_end s k \<and>
      cal_scan (keep_least K mk) s (of_nat (day s j mod nbk s)) (of_nat (day_end s j)) b =
        Some (Today (of_nat (day s k mod nbk s)) (of_nat (day_end s k)) e)) \<or>
    (\<exists>b'. late s (nbk s) \<and> best_of K mk b0 s (nbk s) b' \<and>
      cal_scan (keep_least K mk) s (of_nat (day s j mod nbk s)) (of_nat (day_end s j)) b = Some (Least b'))"
  using j
proof (induction "nbk s - j" arbitrary: j b)
  case (Suc n)
  note st = scan_step [OF sh p Suc.prems(1), of "keep_least K mk" b]
  show ?case
  proof (cases "\<exists>e. day_next s j = Some e \<and> tsn e < day_end s j")
    case True
    then obtain e where "day_next s j = Some e" "tsn e < day_end s j" by blast
    with st Suc.prems show ?thesis by auto
  next
    case False
    let ?b = "case day_next s j of None \<Rightarrow> b | Some nxt \<Rightarrow> keep_least K mk (of_nat (day s j mod nbk s)) nxt b"
    have l: "late s (Suc j)" using False Suc.prems(2) by (auto simp: late_def less_Suc_eq not_less)
    have b: "best_of K mk b0 s (Suc j) ?b" by (rule best_of_step [OF Suc.prems(3) K])
    have eq: "cal_scan (keep_least K mk) s (of_nat (day s j mod nbk s)) (of_nat (day_end s j)) b =
        (if Suc j < nbk s then cal_scan (keep_least K mk) s (of_nat (day s (Suc j) mod nbk s)) (of_nat (day_end s (Suc j))) ?b
         else Some (Least ?b))"
      using st False by (cases "day_next s j") auto
    show ?thesis
    proof (cases "Suc j < nbk s")
      case True
      have "n = nbk s - Suc j" using Suc.hyps(2) by simp
      from Suc.hyps(1) [OF this True l b] True show ?thesis unfolding eq by simp
    next
      case False
      then have "nbk s = Suc j" using Suc.prems(1) by simp
      with l b False show ?thesis unfolding eq by auto
    qed
  qed
qed simp

section \<open>The event found is the least one\<close>

lemma same_day:
  assumes "x mod n = (v + j) mod n" "v \<le> x" "j < (n :: nat)"
  shows "v + j \<le> x \<and> (x \<noteq> v + j \<longrightarrow> v + j + n \<le> x)"
proof -
  have 1: False if "x < v + j"
  proof -
    have "n dvd v + j - x" using assms(1) that by (metis mod_eq_dvd_iff_nat less_imp_le)
    moreover have "0 < v + j - x" "v + j - x < n" using that assms(2,3) by simp_all
    ultimately show False using nat_dvd_not_less by blast
  qed
  moreover have "v + j + n \<le> x" if "v + j < x"
  proof -
    have "n dvd x - (v + j)" using assms(1) that by (metis mod_eq_dvd_iff_nat less_imp_le)
    with that have "n \<le> x - (v + j)" by (simp add: dvd_imp_le)
    with that show ?thesis by simp
  qed
  ultimately show ?thesis by (meson not_less le_neq_implies_less)
qed

lemma rank_ts: "tsn e < tsn x \<Longrightarrow> ev_rank e < ev_rank x"
  using key_lt_rank [of "key e" "key x"] by (simp add: key_lt_def word_less_nat_alt)

lemma ts_rank: "ev_rank e \<le> ev_rank x \<Longrightarrow> tsn e \<le> tsn x"
  using rank_ts [of x e] by (metis not_less)

text \<open>An event of the calendar is in the bucket of a day of the round, on that day or in a later round.\<close>

lemma event_day:
  assumes "cal_core s" "x \<in># cal_events s"
  obtains j where "j < nbk s" "x \<in> set (day_bucket s j)" "tsn x div wid s mod nbk s = day s j mod nbk s"
    "day s j \<le> tsn x div wid s" "tsn x div wid s \<noteq> day s j \<Longrightarrow> day s j + nbk s \<le> tsn x div wid s"
proof -
  have b: "buckets_ok (lastp s) s" and sh: "shape s" using assms(1) by (simp_all add: cal_core_def buckets_ok_def)
  let ?v = "lastp s div wid s" and ?d = "tsn x div wid s"
  obtain i where i: "i < nbk s" "x \<in> set (m_buckets s ! i)"
    using assms(2) shape_bounds(4) [OF sh] by (auto simp: cal_events_def in_set_conv_nth) metis
  then have d: "?d mod nbk s = i" using b by (auto simp: buckets_ok_def in_day_def)
  have v: "?v \<le> ?d" using b assms(2) by (intro div_le_mono) (auto simp: buckets_ok_def)
  let ?j = "(?d - ?v) mod nbk s"
  have j: "?j < nbk s" by (rule mod_nbk [OF sh])
  have "(?v + ?j) mod nbk s = ?d mod nbk s" using v by (simp add: mod_add_right_eq)
  then have dj: "?d mod nbk s = day s ?j mod nbk s" by (simp add: day_def)
  from same_day [of ?d "nbk s" ?v ?j] dj v j have "day s ?j \<le> ?d \<and> (?d \<noteq> day s ?j \<longrightarrow> day s ?j + nbk s \<le> ?d)"
    by (simp add: day_def)
  moreover have "x \<in> set (day_bucket s ?j)" using i(2) d dj by simp
  ultimately show ?thesis using that [OF j _ dj] by blast
qed

lemma bucket_head:
  assumes "cal_core s" "x \<in> set (day_bucket s j)"
  obtains h where "day_next s j = Some h" "ev_rank h \<le> ev_rank x" "x \<noteq> h \<Longrightarrow> ev_rank h < ev_rank x" "h \<in> set (day_bucket s j)"
proof -
  have sh: "shape s" and ok: "bucket_ok (m_reverse s) (day_bucket s j)"
    using assms(1) mod_nbk [of s "day s j"] by (auto simp: cal_core_def buckets_ok_def)
  obtain h where h: "day_next s j = Some h" using assms(2) by (cases "day_next s j") (auto simp: NextEvent_None)
  note l = NextEvent_least [OF ok h]
  have "x = h \<or> x \<in> set (cal_Pop (m_reverse s) (day_bucket s j))"
    using l(3) assms(2) by (metis insert_iff set_mset_add_mset_insert set_mset_mset)
  with l(1,2) show ?thesis by (intro that [OF h]) auto
qed

lemma event_rank_bound:
  assumes "cal_core s" "x \<in># cal_events s" "cal_end * 4294967296 \<le> r"
  shows "ev_rank x < r"
proof -
  have "tsn x < cal_end" using assms(1,2) by (auto simp: cal_core_def buckets_ok_def)
  then have "(tsn x + 1) * 4294967296 \<le> cal_end * 4294967296" by (intro mult_le_mono) simp_all
  with uid_bound [of "key x"] assms(3) show ?thesis by (simp add: rank_def)
qed

lemma today_least:
  assumes c: "cal_core s" and k: "k < nbk s" "late s k" "day_next s k = Some e" "tsn e < day_end s k"
    and x: "x \<in># cal_events s" "x \<noteq> e"
  shows "ev_rank e < ev_rank x"
proof -
  have sh: "0 < wid s" using c shape_bounds(1) by (auto simp: cal_core_def buckets_ok_def)
  have later: "ev_rank e < ev_rank x" if "day s k < tsn x div wid s"
  proof -
    have "day_end s k \<le> tsn x div wid s * wid s" using that unfolding day_end_def by (intro mult_le_mono) simp_all
    also have "\<dots> \<le> tsn x" by (rule div_times_less_eq_dividend)
    finally show ?thesis using k(4) by (intro rank_ts) simp
  qed
  obtain j where j: "j < nbk s" "x \<in> set (day_bucket s j)" "day s j \<le> tsn x div wid s"
      "tsn x div wid s \<noteq> day s j \<Longrightarrow> day s j + nbk s \<le> tsn x div wid s"
    using event_day [OF c x(1)] by metis
  obtain h where h: "day_next s j = Some h" "ev_rank h \<le> ev_rank x" "x \<noteq> h \<Longrightarrow> ev_rank h < ev_rank x"
    using bucket_head [OF c j(2)] by metis
  consider "j = k" | "k < j" | "j < k" by linarith
  then show ?thesis
  proof cases
    case 1
    with h k(3) x(2) show ?thesis by simp
  next
    case 2
    with j(3) show ?thesis by (intro later) (simp add: day_def)
  next
    case 3
    then have "day_end s j \<le> tsn h" using k(2) h(1) by (simp add: late_def)
    also have "\<dots> \<le> tsn x" by (rule ts_rank [OF h(2)])
    finally have "day s j + 1 \<le> tsn x div wid s"
      using sh by (simp add: day_end_def less_eq_div_iff_mult_less_eq)
    with j(4) k(1) show ?thesis by (intro later) (simp add: day_def)
  qed
qed

text \<open>The search finds the least event, and in its bucket.\<close>

theorem scan_least:
  assumes c: "cal_core s" and ne: "cal_events s \<noteq> {#}" and K: "\<And>i e. K (mk i e) = key e"
    and b0: "cal_end * 4294967296 \<le> rank (K b0)"
  shows "\<exists>i e. i < nbk s \<and> i = tsn e div wid s mod nbk s \<and> cal_NextEvent (m_reverse s) (m_buckets s ! i) = Some e \<and>
    e \<in># cal_events s \<and> (\<forall>x \<in># cal_events s. x \<noteq> e \<longrightarrow> ev_rank e < ev_rank x) \<and>
    cal_scan (keep_least K mk) s (m_lastBucket s) (m_bucketTop s) b0 \<in>
      {Some (Today (of_nat i) (of_nat ((tsn e div wid s + 1) * wid s)) e), Some (Least (mk (of_nat i) e))}"
proof -
  have sh: "shape s" and p: "pointer_ok s" using c by (simp_all add: cal_core_def buckets_ok_def)
  have start: "m_lastBucket s = of_nat (day s 0 mod nbk s)" "m_bucketTop s = of_nat (day_end s 0)"
    using p by (simp_all add: pointer_ok_def day_def day_end_def)
  have bucket: "j mod nbk s < nbk s" "x \<in># cal_events s" "tsn x div wid s mod nbk s = j mod nbk s"
    if "x \<in> set (m_buckets s ! (j mod nbk s))" for j x
    using that c mod_nbk [OF sh, of j] shape_bounds(4) [OF sh]
    by (auto simp: cal_core_def buckets_ok_def in_day_def cal_events_def)
  have head: "e \<in> set (day_bucket s j)" if "day_next s j = Some e" for j e
    using that NextEvent_least(1) c mod_nbk [OF sh, of "day s j"] by (fastforce simp: cal_core_def buckets_ok_def)
  have "best_of K mk b0 s 0 b0" "late s 0" by (simp_all add: best_of_def late_def)
  from scan_result [OF sh p shape_bounds(2) [OF sh] this(2,1) K]
  consider k e where "k < nbk s" "late s k" "day_next s k = Some e" "tsn e < day_end s k"
      "cal_scan (keep_least K mk) s (m_lastBucket s) (m_bucketTop s) b0 =
        Some (Today (of_nat (day s k mod nbk s)) (of_nat (day_end s k)) e)"
    | b where "best_of K mk b0 s (nbk s) b" "cal_scan (keep_least K mk) s (m_lastBucket s) (m_bucketTop s) b0 = Some (Least b)"
    unfolding start by blast
  then show ?thesis
  proof cases
    case (1 k e)
    note e = bucket [OF head [OF 1(3)]]
    have "day s k \<le> tsn e div wid s \<and> (tsn e div wid s \<noteq> day s k \<longrightarrow> day s k + nbk s \<le> tsn e div wid s)"
      unfolding day_def
    proof (rule same_day)
      show "tsn e div wid s mod nbk s = (lastp s div wid s + k) mod nbk s" using e(3) by (simp add: day_def)
      show "lastp s div wid s \<le> tsn e div wid s" using c e(2) by (intro div_le_mono) (auto simp: cal_core_def buckets_ok_def)
    qed (rule 1(1))
    moreover have "tsn e div wid s < day s k + 1"
      using 1(4) shape_bounds(1) [OF sh] by (simp add: day_end_def div_less_iff_less_mult)
    ultimately have "tsn e div wid s = day s k" using shape_bounds(2) [OF sh] by linarith
    with 1 e today_least [OF c 1(1-4)] show ?thesis
      by (intro exI [of _ "day s k mod nbk s"] exI [of _ e]) (simp add: day_end_def)
  next
    case (2 b)
    have least: "rank (K b) \<le> ev_rank x" if x: "x \<in># cal_events s" for x
    proof -
      obtain j where j: "j < nbk s" "x \<in> set (day_bucket s j)" using event_day [OF c x] by metis
      obtain h where "day_next s j = Some h" "ev_rank h \<le> ev_rank x" using bucket_head [OF c j(2)] by metis
      with 2(1) j(1) show ?thesis by (meson best_of_def le_trans)
    qed
    have "b \<noteq> b0"
    proof
      assume "b = b0"
      obtain x where "x \<in># cal_events s" using ne by blast
      with least [OF this] event_rank_bound [OF c this b0] \<open>b = b0\<close> show False by simp
    qed
    with 2(1) obtain j e where je: "j < nbk s" "day_next s j = Some e" "b = mk (of_nat (day s j mod nbk s)) e"
      unfolding best_of_def by blast
    note e = bucket [OF head [OF je(2)]]
    have "ev_rank e < ev_rank x" if "x \<in># cal_events s" "x \<noteq> e" for x
    proof -
      have "distinct (map uid (concat (m_buckets s)))" using c by (simp add: cal_core_def buckets_ok_def)
      then have "uid x \<noteq> uid e" using that e(2) unfolding cal_events_def distinct_map set_mset_mset inj_on_def by blast
      then have "ev_rank x \<noteq> ev_rank e" by (rule rank_neq_uid)
      with least [OF that(1)] show ?thesis by (simp add: je(3) K)
    qed
    with 2(2) je e show ?thesis
      by (intro exI [of _ "day s j mod nbk s"] exI [of _ e]) simp
  qed
qed

end
