(* ===== verification/ListSched.thy ===== *)
theory ListSched
  imports EventSched
begin

text \<open>
  \<open>ListScheduler\<close> (\<open>core/model/list-scheduler.cc\<close>): the events in a list kept sorted by insertion.
  \<open>front\<close> and \<open>pop_front\<close> of an empty \<open>std::list\<close> are undefined, hence \<open>None\<close>.
\<close>

section \<open>The operations\<close>

fun list_Insert :: "'i event \<Rightarrow> 'i event list \<Rightarrow> 'i event list" where
  "list_Insert ev [] = [ev]"
| "list_Insert ev (i # is) =
     (if key_lt (key ev) (key i) then ev # i # is else i # list_Insert ev is)"

definition list_IsEmpty :: "'i event list \<Rightarrow> bool" where
  "list_IsEmpty m_events \<longleftrightarrow> m_events = []"

definition list_PeekNext :: "'i event list \<Rightarrow> 'i event option" where
  "list_PeekNext m_events = (case m_events of [] \<Rightarrow> None | e # _ \<Rightarrow> Some e)"

definition list_RemoveNext :: "'i event list \<Rightarrow> ('i event \<times> 'i event list) option" where
  "list_RemoveNext m_events =
     (case m_events of [] \<Rightarrow> None | next_ev # rest \<Rightarrow> Some (next_ev, rest))"

text \<open>The scan of \<open>Remove\<close> stops at the first event with the same unique id and asserts that it is
  the same event; a scan that ends without one hits \<open>NS_ASSERT (false)\<close>.\<close>

fun list_Remove :: "'i event \<Rightarrow> 'i event list \<Rightarrow> 'i event list option" where
  "list_Remove ev [] = None"
| "list_Remove ev (i # is) =
     (if m_uid (key i) = m_uid (key ev)
      then do { ns_assert (impl ev = impl i); Some is }
      else map_option ((#) i) (list_Remove ev is))"

definition list_ops :: "('i event list, 'i) sched_ops" where
  "list_ops = \<lparr>Insert = (\<lambda>e s. Some (list_Insert e s)), IsEmpty = list_IsEmpty,
     PeekNext = list_PeekNext, RemoveNext = list_RemoveNext, Remove = list_Remove\<rparr>"

section \<open>It is a scheduler\<close>

definition list_invar :: "'i event list \<Rightarrow> bool" where
  "list_invar es \<longleftrightarrow> in_order es \<and> distinct (map uid es)"

lemma mset_list_Insert [simp]: "mset (list_Insert e es) = add_mset e (mset es)"
  by (induction es) auto

lemma set_list_Insert [simp]: "set (list_Insert e es) = insert e (set es)"
  by (induction es) auto

lemma list_invar_Insert:
  "list_invar es \<Longrightarrow> fresh e (mset es) \<Longrightarrow> list_invar (list_Insert e es)"
proof (induction es)
  case Nil
  then show ?case by (simp add: list_invar_def)
next
  case (Cons i es)
  have f: "fresh e (mset es)" "uid e \<noteq> uid i"
    using Cons.prems(2) by (auto simp: fresh_def)
  have IH: "in_order (list_Insert e es)" "distinct (map uid (list_Insert e es))"
    using Cons f by (auto simp: list_invar_def)
  have r: "ev_rank i \<noteq> ev_rank e"
    using f(2) by (simp add: rank_eq)
  show ?case
    using Cons.prems IH f r by (auto simp: list_invar_def key_lt_rank fresh_def image_iff)
qed

lemma list_Remove_member:
  assumes "e \<in> set es" "distinct (map uid es)"
  shows "list_Remove e es = Some (remove1 e es)"
  using assms
proof (induction es)
  case (Cons i es)
  show ?case
  proof (cases "e = i")
    case False
    with Cons.prems have "uid i \<noteq> uid e" by (auto simp: image_iff)
    with False Cons show ?thesis by auto
  qed simp
qed simp

lemma list_Remove_fresh: "fresh e (mset es) \<Longrightarrow> list_Remove e es = None"
  by (induction es) (auto simp: fresh_def)

lemma list_Remove_Some:
  "list_Remove e es = Some es' \<Longrightarrow> list_invar es \<Longrightarrow>
    list_invar es' \<and> set es' \<subseteq> set es \<and>
    (\<exists>x. uid x = uid e \<and> impl x = impl e \<and> mset es = add_mset x (mset es'))"
proof (induction es arbitrary: es')
  case (Cons i es)
  show ?case
  proof (cases "uid i = uid e")
    case True
    with Cons.prems show ?thesis by (auto simp: list_invar_def split: if_splits)
  next
    case False
    with Cons.prems obtain es1 where es1: "list_Remove e es = Some es1" "es' = i # es1" by auto
    moreover have "list_invar es" using Cons.prems by (simp add: list_invar_def)
    ultimately show ?thesis
      using Cons.IH [of es1] Cons.prems(2) by (auto simp: list_invar_def)
  qed
qed simp

lemma list_invar_remove1: "list_invar es \<Longrightarrow> list_invar (remove1 e es)"
  by (induction es) (auto simp: list_invar_def dest: set_remove1_subset [THEN subsetD])

interpretation lsched: removing_scheduler list_ops "[]" list_invar mset
proof unfold_locales
  fix s :: "'a event list" and e
  assume "list_invar s" "fresh e (mset s)"
  then show "\<exists>s'. Insert list_ops e s = Some s' \<and> list_invar s' \<and> mset s' = add_mset e (mset s)"
    by (auto simp: list_ops_def list_invar_Insert)
next
  fix s :: "'a event list"
  assume "list_invar s" "mset s \<noteq> {#}"
  then show "\<exists>e s'. RemoveNext list_ops s = Some (e, s') \<and> PeekNext list_ops s = Some e \<and>
      list_invar s' \<and> mset s = add_mset e (mset s') \<and> (\<forall>x \<in># mset s'. ev_rank e < ev_rank x)"
    by (cases s) (auto simp: list_ops_def list_RemoveNext_def list_PeekNext_def list_invar_def)
next
  fix s :: "'a event list" and e
  assume "list_invar s" "e \<in># mset s"
  then show "\<exists>s'. Remove list_ops e s = Some s' \<and> list_invar s' \<and> mset s' = mset s - {#e#}"
    using list_Remove_member [of e s] list_invar_remove1 [of s e]
    by (simp add: list_ops_def list_invar_def)
next
  fix s :: "'a event list" and e :: "'a event"
  assume "list_invar s" "fresh e (mset s)"
  then show "Remove list_ops e s = None"
    using list_Remove_fresh [of e s] by (simp add: list_ops_def)
next
  fix s s' :: "'a event list" and e :: "'a event"
  assume "list_invar s" "Remove list_ops e s = Some s'"
  then show "list_invar s' \<and> (\<exists>x. uid x = uid e \<and> impl x = impl e \<and> mset s = add_mset x (mset s'))"
    using list_Remove_Some [of e s s'] by (simp add: list_ops_def)
qed (auto simp: list_ops_def list_RemoveNext_def list_IsEmpty_def list_invar_def)

end
