(* ===== verification/MapSched.thy ===== *)
theory MapSched
  imports EventSched
begin

text \<open>
  \<open>MapScheduler\<close> (\<open>core/model/map-scheduler.cc\<close>): a \<open>std::map\<close> from keys to event
  implementations. A \<open>std::map\<close> is its sequence of pairs in the order of the keys; two keys are the
  same entry when neither is less than the other, so the context of a key is not part of its
  identity. Dereferencing or erasing \<open>end()\<close> is undefined, hence \<open>None\<close>.
\<close>

type_synonym 'i event_map = "(event_key \<times> 'i) list"

section \<open>The operations\<close>

text \<open>\<open>m_list.insert\<close>: the map afterwards, and whether the entry was inserted.\<close>

fun map_insert :: "event_key \<Rightarrow> 'i \<Rightarrow> 'i event_map \<Rightarrow> 'i event_map \<times> bool" where
  "map_insert k v [] = ([(k, v)], True)"
| "map_insert k v ((k', v') # m) =
     (if key_lt k k' then ((k, v) # (k', v') # m, True)
      else if key_lt k' k then (let (m', b) = map_insert k v m in ((k', v') # m', b))
      else ((k', v') # m, False))"

definition map_Insert :: "'i event \<Rightarrow> 'i event_map \<Rightarrow> 'i event_map option" where
  "map_Insert ev m_list =
     (let (m, inserted) = map_insert (key ev) (impl ev) m_list
      in do { ns_assert inserted; Some m })"

definition map_IsEmpty :: "'i event_map \<Rightarrow> bool" where
  "map_IsEmpty m_list \<longleftrightarrow> m_list = []"

definition map_PeekNext :: "'i event_map \<Rightarrow> 'i event option" where
  "map_PeekNext m_list =
     (case m_list of [] \<Rightarrow> None | (k, v) # _ \<Rightarrow> Some \<lparr>impl = v, key = k\<rparr>)"

definition map_RemoveNext :: "'i event_map \<Rightarrow> ('i event \<times> 'i event_map) option" where
  "map_RemoveNext m_list =
     (case m_list of [] \<Rightarrow> None | (k, v) # m \<Rightarrow> Some (\<lparr>impl = v, key = k\<rparr>, m))"

fun map_Remove :: "'i event \<Rightarrow> 'i event_map \<Rightarrow> 'i event_map option" where
  "map_Remove ev [] = None"
| "map_Remove ev ((k, v) # m) =
     (if \<not> key_lt k (key ev) \<and> \<not> key_lt (key ev) k
      then do { ns_assert (v = impl ev); Some m }
      else map_option ((#) (k, v)) (map_Remove ev m))"

definition map_ops :: "('i event_map, 'i) sched_ops" where
  "map_ops = \<lparr>Insert = map_Insert, IsEmpty = map_IsEmpty,
     PeekNext = map_PeekNext, RemoveNext = map_RemoveNext, Remove = map_Remove\<rparr>"

section \<open>It is a scheduler\<close>

abbreviation entry :: "event_key \<times> 'i \<Rightarrow> 'i event" where
  "entry p \<equiv> \<lparr>impl = snd p, key = fst p\<rparr>"

definition map_events :: "'i event_map \<Rightarrow> 'i event multiset" where
  "map_events m = mset (map entry m)"

definition map_invar :: "'i event_map \<Rightarrow> bool" where
  "map_invar m \<longleftrightarrow> sorted_wrt (\<lambda>a b. rank (fst a) < rank (fst b)) m \<and> distinct (map (m_uid \<circ> fst) m)"

lemma map_insert_fresh:
  assumes "fresh \<lparr>impl = v, key = k\<rparr> (map_events m)" "map_invar m"
  shows "\<exists>m'. map_insert k v m = (m', True) \<and> map_invar m' \<and> set m' = insert (k, v) (set m) \<and>
    map_events m' = add_mset \<lparr>impl = v, key = k\<rparr> (map_events m)"
  using assms
proof (induction m)
  case Nil
  then show ?case by (simp add: map_invar_def map_events_def)
next
  case (Cons p m)
  obtain k' v' where p: "p = (k', v')" by fastforce
  have f: "fresh \<lparr>impl = v, key = k\<rparr> (map_events m)" "m_uid k \<noteq> m_uid k'" "map_invar m"
    using Cons.prems p by (auto simp: fresh_def map_events_def map_invar_def)
  then have r: "rank k \<noteq> rank k'" by (simp add: rank_eq)
  from Cons.IH [OF f(1,3)] obtain m' where "map_insert k v m = (m', True)" "map_invar m'"
      "set m' = insert (k, v) (set m)"
      "map_events m' = add_mset \<lparr>impl = v, key = k\<rparr> (map_events m)" by blast
  with Cons.prems f r p show ?case
    by (cases "rank k < rank k'")
       (auto simp: map_invar_def map_events_def key_lt_rank fresh_def image_iff)
qed

lemma map_Remove_member:
  assumes "(k, v) \<in> set m" "map_invar m"
  shows "map_Remove \<lparr>impl = v, key = k\<rparr> m = Some (remove1 (k, v) m)"
  using assms
proof (induction m)
  case (Cons p m)
  obtain k' v' where p: "p = (k', v')" by fastforce
  show ?case
  proof (cases "p = (k, v)")
    case False
    with Cons.prems have "(k, v) \<in> set m" "rank k' < rank k" "map_invar m"
      by (auto simp: map_invar_def p)
    with Cons.IH False p show ?thesis by (auto simp: key_lt_rank)
  qed (simp add: key_lt_rank p)
qed simp

lemma map_Remove_fresh: "fresh e (map_events m) \<Longrightarrow> map_Remove e m = None"
proof (induction m)
  case (Cons p m)
  obtain k v where p: "p = (k, v)" by fastforce
  with Cons.prems have "rank k \<noteq> ev_rank e" "fresh e (map_events m)"
    by (auto simp: fresh_def map_events_def rank_eq)
  with Cons.IH p show ?case by (auto simp: key_lt_rank)
qed simp

lemma map_Remove_Some:
  "map_Remove e m = Some m' \<Longrightarrow> map_invar m \<Longrightarrow>
    map_invar m' \<and> set m' \<subseteq> set m \<and>
    (\<exists>x. uid x = uid e \<and> impl x = impl e \<and> map_events m = add_mset x (map_events m'))"
proof (induction m arbitrary: m')
  case (Cons p m)
  obtain k v where p: "p = (k, v)" by fastforce
  have m: "map_invar m" using Cons.prems(2) by (simp add: map_invar_def)
  show ?case
  proof (cases "rank k = ev_rank e")
    case True
    with Cons.prems p m show ?thesis
      by (auto simp: key_lt_rank map_events_def rank_eq split: if_splits)
  next
    case False
    with Cons.prems p obtain m1 where "map_Remove e m = Some m1" "m' = p # m1"
      by (auto simp: key_lt_rank split: if_splits)
    with Cons.IH [OF _ m] Cons.prems(2) show ?thesis
      by (fastforce simp: map_invar_def map_events_def)
  qed
qed simp

lemma map_invar_remove1: "map_invar m \<Longrightarrow> map_invar (remove1 p m)"
  by (induction m) (auto simp: map_invar_def dest: set_remove1_subset [THEN subsetD])

lemma map_events_remove1: "p \<in> set m \<Longrightarrow> map_events (remove1 p m) = map_events m - {#entry p#}"
  by (simp add: map_events_def image_mset_Diff)

interpretation msched: removing_scheduler map_ops "[]" map_invar map_events
proof unfold_locales
  fix s :: "'a event_map" and e :: "'a event"
  assume "map_invar s" "fresh e (map_events s)"
  then show "\<exists>s'. Insert map_ops e s = Some s' \<and> map_invar s' \<and>
      map_events s' = add_mset e (map_events s)"
    using map_insert_fresh [of "impl e" "key e" s]
    by (cases e) (auto simp: map_ops_def map_Insert_def)
next
  fix s :: "'a event_map"
  assume "map_invar s" "map_events s \<noteq> {#}"
  then show "\<exists>e s'. RemoveNext map_ops s = Some (e, s') \<and> PeekNext map_ops s = Some e \<and>
      map_invar s' \<and> map_events s = add_mset e (map_events s') \<and>
      (\<forall>x \<in># map_events s'. ev_rank e < ev_rank x)"
    by (cases s) (auto simp: map_ops_def map_RemoveNext_def map_PeekNext_def map_invar_def
        map_events_def)
next
  fix s :: "'a event_map" and e :: "'a event"
  assume i: "map_invar s" and m: "e \<in># map_events s"
  from m have k: "(key e, impl e) \<in> set s" by (auto simp: map_events_def)
  show "\<exists>s'. Remove map_ops e s = Some s' \<and> map_invar s' \<and> map_events s' = map_events s - {#e#}"
    using map_Remove_member [OF k i] map_events_remove1 [OF k] map_invar_remove1 [OF i]
    by (cases e) (simp add: map_ops_def)
next
  fix s :: "'a event_map" and e :: "'a event"
  assume "map_invar s" "fresh e (map_events s)"
  then show "Remove map_ops e s = None"
    using map_Remove_fresh [of e s] by (simp add: map_ops_def)
next
  fix s s' :: "'a event_map" and e :: "'a event"
  assume "map_invar s" "Remove map_ops e s = Some s'"
  then show "map_invar s' \<and>
      (\<exists>x. uid x = uid e \<and> impl x = impl e \<and> map_events s = add_mset x (map_events s'))"
    using map_Remove_Some [of e s s'] by (simp add: map_ops_def)
qed (auto simp: map_ops_def map_IsEmpty_def map_RemoveNext_def map_invar_def map_events_def)

end
