(* ===== verification/HeapSched.thy ===== *)
theory HeapSched
  imports EventSched
begin

text \<open>
  \<open>HeapScheduler\<close> (\<open>core/model/heap-scheduler.cc\<close>): a binary heap in a vector whose item 0 is
  wasted. An index out of range is undefined and is \<open>None\<close>; the assertion of \<open>Exch\<close> is checked.
  \<open>TopDown\<close> is a \<open>partial_function\<close>: started at index 0 its loop would not end.
\<close>

type_synonym 'i heap = "'i event list"

section \<open>The operations\<close>

definition heap_new :: "'i \<Rightarrow> 'i heap" where
  "heap_new nullptr = [\<lparr>impl = nullptr, key = \<lparr>m_ts = 0, m_uid = 0, m_context = 0\<rparr>\<rparr>]"

definition Parent :: "nat \<Rightarrow> nat" where
  "Parent i = i div 2"

definition Sibling :: "nat \<Rightarrow> nat" where
  "Sibling i = i + 1"

definition LeftChild :: "nat \<Rightarrow> nat" where
  "LeftChild i = i * 2"

definition RightChild :: "nat \<Rightarrow> nat" where
  "RightChild i = i * 2 + 1"

definition Root :: nat where
  "Root = 1"

definition IsRoot :: "nat \<Rightarrow> bool" where
  "IsRoot i \<longleftrightarrow> i = Root"

definition Last :: "'i heap \<Rightarrow> nat" where
  "Last m_heap = length m_heap - 1"

definition IsBottom :: "'i heap \<Rightarrow> nat \<Rightarrow> bool" where
  "IsBottom m_heap i \<longleftrightarrow> i \<ge> length m_heap"

definition Exch :: "'i heap \<Rightarrow> nat \<Rightarrow> nat \<Rightarrow> 'i heap option" where
  "Exch m_heap a b =
     do {
       ns_assert (b < length m_heap \<and> a < length m_heap);
       let tmp = m_heap ! a;
       Some ((m_heap [a := m_heap ! b]) [b := tmp])
     }"

definition IsLessStrictly :: "'i heap \<Rightarrow> nat \<Rightarrow> nat \<Rightarrow> bool" where
  "IsLessStrictly m_heap a b = ev_lt (m_heap ! a) (m_heap ! b)"

definition Smallest :: "'i heap \<Rightarrow> nat \<Rightarrow> nat \<Rightarrow> nat" where
  "Smallest m_heap a b = (if IsLessStrictly m_heap a b then a else b)"

definition heap_IsEmpty :: "'i heap \<Rightarrow> bool" where
  "heap_IsEmpty m_heap \<longleftrightarrow> length m_heap = 1"

partial_function (option) BottomUp_from :: "nat \<Rightarrow> 'i heap \<Rightarrow> 'i heap option" where
  "BottomUp_from index m_heap =
     (if \<not> IsRoot index \<and> IsLessStrictly m_heap index (Parent index)
      then Option.bind (Exch m_heap index (Parent index)) (BottomUp_from (Parent index))
      else Some m_heap)"

definition BottomUp :: "'i heap \<Rightarrow> 'i heap option" where
  "BottomUp m_heap = BottomUp_from (Last m_heap) m_heap"

text \<open>The statements of \<open>TopDown\<close> after its loop.\<close>

definition TopDown_last :: "nat \<Rightarrow> 'i heap \<Rightarrow> 'i heap option" where
  "TopDown_last index m_heap =
     (if IsBottom m_heap index then Some m_heap
      else
        let left = LeftChild index in
        if IsBottom m_heap left then Some m_heap
        else if IsLessStrictly m_heap index left then Some m_heap
        else Exch m_heap index left)"

partial_function (option) TopDown :: "nat \<Rightarrow> 'i heap \<Rightarrow> 'i heap option" where
  "TopDown index m_heap =
     (if \<not> IsBottom m_heap (RightChild index)
      then
        (let tmp = Smallest m_heap (LeftChild index) (RightChild index) in
         if IsLessStrictly m_heap index tmp then Some m_heap
         else Option.bind (Exch m_heap index tmp) (TopDown tmp))
      else TopDown_last index m_heap)"

definition heap_Insert :: "'i event \<Rightarrow> 'i heap \<Rightarrow> 'i heap option" where
  "heap_Insert ev m_heap = BottomUp (m_heap @ [ev])"

definition heap_PeekNext :: "'i heap \<Rightarrow> 'i event option" where
  "heap_PeekNext m_heap = (if Root < length m_heap then Some (m_heap ! Root) else None)"

definition heap_RemoveNext :: "'i heap \<Rightarrow> ('i event \<times> 'i heap) option" where
  "heap_RemoveNext m_heap =
     do {
       next_ev \<leftarrow> heap_PeekNext m_heap;
       h1 \<leftarrow> Exch m_heap Root (Last m_heap);
       h2 \<leftarrow> TopDown Root (butlast h1);
       Some (next_ev, h2)
     }"

text \<open>The scan of \<open>Remove\<close>: the first index from \<open>i\<close> on whose event has the unique id.\<close>

function heap_find :: "uint32 \<Rightarrow> nat \<Rightarrow> 'i heap \<Rightarrow> nat option" where
  "heap_find u i m_heap =
     (if i < length m_heap
      then if u = m_uid (key (m_heap ! i)) then Some i else heap_find u (i + 1) m_heap
      else None)"
  by pat_completeness auto
termination
  by (relation "measure (\<lambda>(u, i, m_heap). length m_heap - i)") auto

definition heap_Remove :: "'i event \<Rightarrow> 'i heap \<Rightarrow> 'i heap option" where
  "heap_Remove ev m_heap =
     (case heap_find (m_uid (key ev)) 1 m_heap of
        None \<Rightarrow> None
      | Some i \<Rightarrow>
          do {
            ns_assert (impl (m_heap ! i) = impl ev);
            h1 \<leftarrow> Exch m_heap i (Last m_heap);
            TopDown i (butlast h1)
          })"

definition heap_ops :: "('i heap, 'i) sched_ops" where
  "heap_ops = \<lparr>Insert = heap_Insert, IsEmpty = heap_IsEmpty,
     PeekNext = heap_PeekNext, RemoveNext = heap_RemoveNext, Remove = heap_Remove\<rparr>"

declare heap_find.simps [simp del]

section \<open>The heap property\<close>

abbreviation rk :: "'i heap \<Rightarrow> nat \<Rightarrow> nat" where
  "rk h i \<equiv> ev_rank (h ! i)"

definition heap_ok :: "'i heap \<Rightarrow> bool" where
  "heap_ok h \<longleftrightarrow> (\<forall>j. 2 \<le> j \<and> j < length h \<longrightarrow> rk h (j div 2) \<le> rk h j)"

definition heap_events :: "'i heap \<Rightarrow> 'i event multiset" where
  "heap_events h = mset (tl h)"

definition heap_invar :: "'i heap \<Rightarrow> bool" where
  "heap_invar h \<longleftrightarrow> h \<noteq> [] \<and> heap_ok h \<and> distinct (map uid (tl h))"

abbreviation swap :: "'i heap \<Rightarrow> nat \<Rightarrow> nat \<Rightarrow> 'i heap" where
  "swap h a b \<equiv> (h [a := h ! b]) [b := h ! a]"

lemma Exch_eq: "a < length h \<Longrightarrow> b < length h \<Longrightarrow> Exch h a b = Some (swap h a b)"
  by (simp add: Exch_def Let_def)

lemma rk_swap:
  "a < length h \<Longrightarrow> b < length h \<Longrightarrow>
    rk (swap h a b) j = (if j = b then rk h a else if j = a then rk h b else rk h j)"
  by (auto simp: nth_list_update)

lemma mset_tl_swap:
  assumes "0 < a" "a < length h" "0 < b" "b < length h"
  shows "mset (tl (swap h a b)) = mset (tl h)"
proof (cases h)
  case (Cons d t)
  obtain a' b' where "a = Suc a'" "b = Suc b'"
    using assms by (metis gr0_implies_Suc)
  with Cons assms show ?thesis
    using mset_swap [of b' t a'] by simp
qed simp

section \<open>BottomUp restores the heap after an append\<close>

text \<open>Everything is in order but possibly the event at \<open>i\<close> and its parent.\<close>

definition up_ok :: "nat \<Rightarrow> 'i heap \<Rightarrow> bool" where
  "up_ok i h \<longleftrightarrow>
     (\<forall>j. 2 \<le> j \<and> j < length h \<and> j \<noteq> i \<longrightarrow> rk h (j div 2) \<le> rk h j) \<and>
     (\<forall>j. 2 \<le> i \<and> j < length h \<and> j div 2 = i \<longrightarrow> rk h (i div 2) \<le> rk h j)"

lemma up_ok_step:
  assumes "up_ok i h" "2 \<le> i" "i < length h" "rk h i < rk h (i div 2)"
  shows "up_ok (i div 2) (swap h i (i div 2))"
proof -
  let ?p = "i div 2"
  have p: "0 < ?p" "?p < i" "?p < length h" using assms(2,3) by auto
  note r = rk_swap [OF assms(3) p(3)]
  have A: "rk h (j div 2) \<le> rk h j" if "2 \<le> j" "j < length h" "j \<noteq> i" for j
    using assms(1) that by (simp add: up_ok_def)
  have B: "rk h ?p \<le> rk h j" if "j < length h" "j div 2 = i" for j
    using assms(1,2) that by (simp add: up_ok_def)
  have "rk (swap h i ?p) (j div 2) \<le> rk (swap h i ?p) j"
    if j: "2 \<le> j" "j < length h" "j \<noteq> ?p" for j
  proof -
    consider "j = i" | "j \<noteq> i" "j div 2 = i" | "j \<noteq> i" "j div 2 = ?p" | "j \<noteq> i" "j div 2 \<noteq> i" "j div 2 \<noteq> ?p"
      by blast
    then show ?thesis
      unfolding r using A [OF j(1,2)] B [OF j(2)] j(3) assms(4) p(2) by cases simp_all
  qed
  moreover have "rk (swap h i ?p) (?p div 2) \<le> rk (swap h i ?p) j"
    if "2 \<le> ?p" "j < length h" "j div 2 = ?p" for j
  proof -
    have "rk h (?p div 2) \<le> rk h ?p"
      using A [of ?p] that p by simp
    moreover have "rk h ?p \<le> rk h j" if "j \<noteq> i"
      using A [of j] that \<open>j < length h\<close> \<open>j div 2 = ?p\<close> \<open>2 \<le> ?p\<close> by (cases "2 \<le> j") auto
    moreover have "?p div 2 \<noteq> ?p" "?p div 2 \<noteq> i" "j \<noteq> ?p"
      using that p by auto
    ultimately show ?thesis unfolding r using p(2) by auto
  qed
  ultimately show ?thesis unfolding up_ok_def length_list_update by blast
qed

lemma BottomUp_from_ok:
  assumes "up_ok i h" "0 < i" "i < length h"
  shows "\<exists>h'. BottomUp_from i h = Some h' \<and> heap_ok h' \<and> length h' = length h \<and>
    mset (tl h') = mset (tl h)"
  using assms
proof (induction i arbitrary: h rule: less_induct)
  case (less i)
  show ?case
  proof (cases "i \<noteq> 1 \<and> rk h i < rk h (i div 2)")
    case True
    with less.prems have i: "2 \<le> i" "0 < i div 2" "i div 2 < i" by auto
    have u: "up_ok (i div 2) (swap h i (i div 2))"
      using True by (intro up_ok_step [OF less.prems(1) i(1) less.prems(3)]) simp
    have l: "i div 2 < length (swap h i (i div 2))"
      using i(3) less.prems(3) by simp
    obtain h' where "BottomUp_from (i div 2) (swap h i (i div 2)) = Some h'" "heap_ok h'"
        "length h' = length h" "mset (tl h') = mset (tl (swap h i (i div 2)))"
      using less.IH [OF i(3) u i(2) l] unfolding length_list_update by blast
    moreover have "\<not> IsRoot i"
      using True by (simp add: IsRoot_def Root_def)
    ultimately show ?thesis using True less.prems i
      by (subst BottomUp_from.simps)
         (simp add: IsLessStrictly_def ev_lt_rank Parent_def Exch_eq mset_tl_swap)
  next
    case False
    have "heap_ok h"
      using less.prems False unfolding up_ok_def heap_ok_def
      by (metis One_nat_def Suc_1 leD linorder_not_less not_less_eq_eq)
    with False show ?thesis
      by (subst BottomUp_from.simps)
         (auto simp: IsRoot_def Root_def IsLessStrictly_def ev_lt_rank Parent_def)
  qed
qed

section \<open>TopDown restores the heap below an index\<close>

text \<open>Everything is in order but possibly the event at \<open>i\<close> and its children.\<close>

definition down_ok :: "nat \<Rightarrow> 'i heap \<Rightarrow> bool" where
  "down_ok i h \<longleftrightarrow>
     (\<forall>j. 2 \<le> j \<and> j < length h \<and> j div 2 \<noteq> i \<longrightarrow> rk h (j div 2) \<le> rk h j) \<and>
     (\<forall>j. 2 \<le> i \<and> j < length h \<and> j div 2 = i \<longrightarrow> rk h (i div 2) \<le> rk h j)"

lemma child_cases: "j div 2 = (i :: nat) \<Longrightarrow> j = 2 * i \<or> j = 2 * i + 1"
  by presburger

lemma down_ok_step:
  assumes "down_ok i h" "0 < i" "c < length h" "c = 2 * i \<or> c = 2 * i + 1" "rk h c \<le> rk h i"
    and min: "\<And>j. j < length h \<Longrightarrow> j div 2 = i \<Longrightarrow> rk h c \<le> rk h j"
  shows "down_ok c (swap h i c)"
proof -
  have c: "i < c" "c div 2 = i" "i < length h" "2 \<le> c" using assms(2,3,4) by auto
  note r = rk_swap [OF c(3) assms(3)]
  have A: "rk h (j div 2) \<le> rk h j" if "2 \<le> j" "j < length h" "j div 2 \<noteq> i" for j
    using assms(1) that by (simp add: down_ok_def)
  have B: "rk h (i div 2) \<le> rk h j" if "2 \<le> i" "j < length h" "j div 2 = i" for j
    using assms(1) that by (simp add: down_ok_def)
  have "rk (swap h i c) (j div 2) \<le> rk (swap h i c) j"
    if j: "2 \<le> j" "j < length h" "j div 2 \<noteq> c" for j
  proof -
    consider "j = i" | "j = c" | "j \<noteq> i" "j \<noteq> c" "j div 2 = i" | "j \<noteq> i" "j \<noteq> c" "j div 2 \<noteq> i"
      by blast
    then show ?thesis
    proof cases
      case 1
      with j have "j div 2 \<noteq> i" "j \<noteq> c" using c by auto
      with 1 j B [OF _ assms(3) c(2)] show ?thesis unfolding r by simp
    qed (use j c assms(5) A [OF j(1,2)] min [OF j(2)] in \<open>simp_all add: rk_swap [OF c(3) assms(3)]\<close>)
  qed
  moreover have "rk (swap h i c) i \<le> rk (swap h i c) j"
    if "j < length h" "j div 2 = c" for j
  proof -
    have "rk h c \<le> rk h j" using A [of j] that c by simp
    moreover have "j \<noteq> i" "j \<noteq> c" using that c by auto
    ultimately show ?thesis unfolding r using c by simp
  qed
  ultimately show ?thesis unfolding down_ok_def length_list_update c(2) by blast
qed

lemma down_ok_done:
  assumes "down_ok i h" "\<And>j. j < length h \<Longrightarrow> j div 2 = i \<Longrightarrow> 2 \<le> j \<Longrightarrow> rk h i \<le> rk h j"
  shows "heap_ok h"
  using assms unfolding down_ok_def heap_ok_def by blast

lemma TopDown_last_ok:
  assumes "down_ok i h" "0 < i" "length h \<le> 2 * i + 1"
  shows "\<exists>h'. TopDown_last i h = Some h' \<and> heap_ok h' \<and> length h' = length h \<and>
    mset (tl h') = mset (tl h)"
proof (cases "2 * i < length h \<and> rk h (2 * i) \<le> rk h i")
  case True
  then have i: "i < length h" by simp
  have only: "j = 2 * i" if "j < length h" "j div 2 = i" for j
    using that assms(3) child_cases [of j i] by auto
  have "down_ok (2 * i) (swap h i (2 * i))"
    using True only by (intro down_ok_step [OF assms(1,2)]) auto
  then have "heap_ok (swap h i (2 * i))"
    by (rule down_ok_done) (use assms True in auto)
  with True i assms(2) show ?thesis
    by (simp add: TopDown_last_def IsBottom_def LeftChild_def IsLessStrictly_def ev_lt_rank
        Exch_eq mset_tl_swap mult.commute Let_def)
next
  case False
  have "heap_ok h"
  proof (rule down_ok_done [OF assms(1)])
    fix j assume j: "j < length h" "j div 2 = i" "2 \<le> j"
    with child_cases [OF j(2)] assms(3) have "j = 2 * i" by auto
    with j False show "rk h i \<le> rk h j" by simp
  qed
  with False show ?thesis
    by (auto simp: TopDown_last_def IsBottom_def LeftChild_def IsLessStrictly_def ev_lt_rank
        mult.commute Let_def)
qed

lemma TopDown_ok:
  assumes "down_ok i h" "0 < i"
  shows "\<exists>h'. TopDown i h = Some h' \<and> heap_ok h' \<and> length h' = length h \<and>
    mset (tl h') = mset (tl h)"
  using assms
proof (induction "length h - i" arbitrary: i h rule: less_induct)
  case less
  show ?case
  proof (cases "2 * i + 1 < length h")
    case False
    with less.prems TopDown_last_ok [of i h] show ?thesis
      by (subst TopDown.simps) (simp add: IsBottom_def RightChild_def mult.commute)
  next
    case True
    define c where "c = Smallest h (LeftChild i) (RightChild i)"
    have c: "c = 2 * i \<or> c = 2 * i + 1" "c < length h"
      using True by (auto simp: c_def Smallest_def LeftChild_def RightChild_def)
    have min: "rk h c \<le> rk h j" if "j < length h" "j div 2 = i" for j
      using child_cases [OF that(2)]
      by (auto simp: c_def Smallest_def LeftChild_def RightChild_def IsLessStrictly_def ev_lt_rank
          mult.commute)
    have unf: "TopDown i h = (if rk h i < rk h c then Some h else Option.bind (Exch h i c) (TopDown c))"
      using True by (subst TopDown.simps, fold c_def)
        (simp add: IsBottom_def RightChild_def IsLessStrictly_def ev_lt_rank mult.commute)
    show ?thesis
    proof (cases "rk h i < rk h c")
      case True
      have "heap_ok h"
        by (rule down_ok_done [OF less.prems(1)]) (use True min in force)
      with True show ?thesis by (simp add: unf)
    next
      case False
      have i: "i < length h" "i < c" using c less.prems(2) by auto
      have d: "down_ok c (swap h i c)"
        using False c min less.prems by (intro down_ok_step) auto
      have l: "length (swap h i c) - c < length h - i" "0 < c"
        using i by simp_all
      obtain h' where "TopDown c (swap h i c) = Some h'" "heap_ok h'" "length h' = length h"
          "mset (tl h') = mset (tl (swap h i c))"
        using less.hyps [OF l(1) d l(2)] unfolding length_list_update by blast
      with False i c less.prems(2) show ?thesis
        by (simp add: unf Exch_eq mset_tl_swap)
    qed
  qed
qed


section \<open>It is a scheduler, without Remove\<close>

lemma heap_ok_root:
  assumes "heap_ok h"
  shows "0 < j \<Longrightarrow> j < length h \<Longrightarrow> rk h 1 \<le> rk h j"
proof (induction j rule: less_induct)
  case (less j)
  show ?case
  proof (cases "j = 1")
    case False
    with less.prems have "rk h 1 \<le> rk h (j div 2)" by (intro less.IH) auto
    also have "\<dots> \<le> rk h j" using assms less.prems False unfolding heap_ok_def by auto
    finally show ?thesis .
  qed simp
qed

lemma heap_Insert_ok:
  assumes "heap_invar h" "fresh e (heap_events h)"
  shows "\<exists>h'. heap_Insert e h = Some h' \<and> heap_invar h' \<and> heap_events h' = add_mset e (heap_events h)"
proof -
  let ?h = "h @ [e]"
  have h: "h \<noteq> []" "heap_ok h" "distinct (map uid (tl h))"
    using assms(1) by (simp_all add: heap_invar_def)
  have "up_ok (length h) ?h"
    using h(2) unfolding up_ok_def heap_ok_def
    by (auto simp: nth_append)
  from BottomUp_from_ok [OF this] h(1) obtain h' where b: "BottomUp ?h = Some h'" "heap_ok h'"
      "length h' = Suc (length h)" "mset (tl h') = mset (tl ?h)"
    by (auto simp: BottomUp_def Last_def)
  have e: "mset (tl h') = add_mset e (mset (tl h))"
    using b(4) h(1) by simp
  have "distinct (map uid (e # tl h))"
    using assms(2) h(3) by (auto simp: fresh_def heap_events_def)
  then have "distinct (map uid (tl h'))"
    using e by (metis distinct_map mset.simps(2) mset_eq_imp_distinct_iff mset_map)
  then show ?thesis
    using b e by (auto simp: heap_Insert_def heap_invar_def heap_events_def)
qed

lemma mset_tl_butlast: "2 \<le> length h \<Longrightarrow> mset (tl h) = add_mset (last h) (mset (tl (butlast h)))"
proof -
  assume l: "2 \<le> length h"
  then have "tl h \<noteq> []" by (cases h) auto
  then have "tl h = butlast (tl h) @ [last (tl h)]" by simp
  then have "mset (tl h) = add_mset (last (tl h)) (mset (butlast (tl h)))"
    by (metis add_mset_add_single mset_append mset_single_iff_right mset.simps)
  with \<open>tl h \<noteq> []\<close> show ?thesis by (simp add: butlast_tl last_tl)
qed

lemma distinct_uid_mset:
  "mset xs = mset ys \<Longrightarrow> distinct (map uid xs) = distinct (map uid ys)"
  by (metis mset_eq_imp_distinct_iff mset_map)

lemma heap_RemoveNext_ok:
  assumes "heap_invar h" "heap_events h \<noteq> {#}"
  shows "\<exists>e h'. heap_RemoveNext h = Some (e, h') \<and> heap_PeekNext h = Some e \<and> heap_invar h' \<and>
    heap_events h = add_mset e (heap_events h') \<and> (\<forall>x \<in># heap_events h'. ev_rank e < ev_rank x)"
proof -
  let ?n = "length h - 1"
  let ?h1 = "butlast (swap h 1 ?n)"
  have n: "1 < length h" "0 < ?n" "?n < length h"
    using assms(2) by (cases h; auto simp: heap_events_def)+
  have nth: "?h1 ! j = h ! j" if "j \<noteq> 1" "j < ?n" for j
    using that n by (simp add: nth_butlast)
  have d: "down_ok 1 ?h1"
    using assms(1) nth unfolding down_ok_def heap_invar_def heap_ok_def by auto
  obtain h2 where t: "TopDown 1 ?h1 = Some h2" "heap_ok h2" "length h2 = ?n" "mset (tl h2) = mset (tl ?h1)"
    using TopDown_ok [OF d] by auto
  have l: "last (swap h 1 ?n) = h ! 1"
    using n by (subst last_conv_nth) auto
  have m: "mset (tl h) = add_mset (h ! 1) (mset (tl h2))"
    using mset_tl_butlast [of "swap h 1 ?n"] mset_tl_swap [of 1 h ?n] n l t(4) by simp
  have dis: "distinct (map uid (h ! 1 # tl h2))"
    using assms(1) distinct_uid_mset [of "tl h" "h ! 1 # tl h2"] m by (simp add: heap_invar_def)
  have "ev_rank (h ! 1) < ev_rank x" if x: "x \<in> set (tl h2)" for x
  proof -
    have "x \<in> set (tl h)" using m x by (metis insertI2 set_mset_add_mset_insert set_mset_mset)
    then obtain j where "j < length (tl h)" "x = tl h ! j" by (metis in_set_conv_nth)
    then have "ev_rank (h ! 1) \<le> ev_rank x"
      using heap_ok_root [of h "Suc j"] assms(1) by (simp add: heap_invar_def nth_tl)
    moreover have "uid (h ! 1) \<noteq> uid x" using dis x by auto
    ultimately show ?thesis using rank_neq_uid by (metis le_neq_implies_less)
  qed
  then show ?thesis
    using n t m dis by (auto simp: heap_RemoveNext_def heap_PeekNext_def Root_def Last_def Exch_eq
        heap_events_def heap_invar_def)
qed

interpretation hsched: scheduler heap_ops "heap_new nullptr" heap_invar heap_events for nullptr
proof unfold_locales
  fix s :: "'a heap"
  assume "heap_invar s"
  then show "IsEmpty heap_ops s \<longleftrightarrow> heap_events s = {#}"
    by (cases s) (auto simp: heap_ops_def heap_IsEmpty_def heap_events_def heap_invar_def)
next
  fix s :: "'a heap"
  assume "heap_invar s" "heap_events s = {#}"
  then have "length s = 1" by (cases s) (auto simp: heap_events_def heap_invar_def)
  then show "RemoveNext heap_ops s = None"
    by (simp add: heap_ops_def heap_RemoveNext_def heap_PeekNext_def Root_def)
qed (simp_all add: heap_ops_def heap_Insert_ok heap_RemoveNext_ok,
    simp_all add: heap_new_def heap_invar_def heap_events_def heap_ok_def)

end
