(* ===== verification/PrioSched.thy ===== *)
theory PrioSched
  imports EventSched
begin

text \<open>
  \<open>PriorityQueueScheduler\<close> (\<open>core/model/priority-queue-scheduler.cc\<close>): a \<open>std::priority_queue\<close> over a
  vector, ordered by \<open>std::greater\<close>. Of such a queue C++ says that \<open>top\<close> is an element that no other
  precedes in the order, and that \<open>pop\<close> removes it; where the elements lie in the vector is up to the
  library. Here the vector is a list in the order of insertion and \<open>top\<close> the first of the least events.
  \<open>top\<close> and \<open>pop\<close> of an empty queue are undefined, hence \<open>None\<close>.
\<close>

section \<open>The queue\<close>

fun pq_top :: "'i event list \<Rightarrow> 'i event option" where
  "pq_top [] = None"
| "pq_top (e # es) = (case pq_top es of None \<Rightarrow> Some e | Some m \<Rightarrow> if ev_gt e m then Some m else Some e)"

definition pq_pop :: "'i event list \<Rightarrow> 'i event list option" where
  "pq_pop q = (case pq_top q of None \<Rightarrow> None | Some e \<Rightarrow> Some (remove1 e q))"

text \<open>\<open>std::find\<close> compares with \<open>operator==\<close>, which looks at the unique id alone; an event that is not there is ignored.\<close>

fun pq_remove :: "'i event \<Rightarrow> 'i event list \<Rightarrow> 'i event list" where
  "pq_remove ev [] = []"
| "pq_remove ev (i # is) = (if ev_eq i ev then is else i # pq_remove ev is)"

section \<open>The operations\<close>

definition pq_Insert :: "'i event \<Rightarrow> 'i event list \<Rightarrow> 'i event list option" where
  "pq_Insert ev q = Some (q @ [ev])"

definition pq_IsEmpty :: "'i event list \<Rightarrow> bool" where
  "pq_IsEmpty q \<longleftrightarrow> q = []"

definition pq_PeekNext :: "'i event list \<Rightarrow> 'i event option" where
  "pq_PeekNext q = pq_top q"

definition pq_RemoveNext :: "'i event list \<Rightarrow> ('i event \<times> 'i event list) option" where
  "pq_RemoveNext q = do { ev \<leftarrow> pq_top q; q \<leftarrow> pq_pop q; Some (ev, q) }"

definition pq_Remove :: "'i event \<Rightarrow> 'i event list \<Rightarrow> 'i event list option" where
  "pq_Remove ev q = Some (pq_remove ev q)"

definition pq_ops :: "('i event list, 'i) sched_ops" where
  "pq_ops = \<lparr>Insert = pq_Insert, IsEmpty = pq_IsEmpty, PeekNext = pq_PeekNext, RemoveNext = pq_RemoveNext, Remove = pq_Remove\<rparr>"

section \<open>It is a scheduler\<close>

definition pq_invar :: "'i event list \<Rightarrow> bool" where
  "pq_invar q \<longleftrightarrow> distinct (map uid q)"

lemma ev_gt_rank: "ev_gt a b \<longleftrightarrow> ev_rank b < ev_rank a"
  by (simp add: ev_gt_def key_gt_rank)

lemma pq_top_least:
  "q \<noteq> [] \<Longrightarrow> \<exists>e. pq_top q = Some e \<and> e \<in> set q \<and> (\<forall>x \<in> set q. ev_rank e \<le> ev_rank x)"
proof (induction q)
  case (Cons e q)
  then show ?case by (cases "q = []") (fastforce simp: ev_gt_rank)+
qed simp

lemma pq_next:
  assumes "pq_invar q" "q \<noteq> []"
  shows "\<exists>e q'. pq_RemoveNext q = Some (e, q') \<and> pq_PeekNext q = Some e \<and> pq_invar q' \<and>
    mset q = add_mset e (mset q') \<and> (\<forall>x \<in># mset q'. ev_rank e < ev_rank x)"
proof -
  obtain e where e: "pq_top q = Some e" "e \<in> set q" "\<forall>x \<in> set q. ev_rank e \<le> ev_rank x"
    using pq_top_least [OF assms(2)] by blast
  have d: "distinct q" "inj_on uid (set q)" using assms(1) by (simp_all add: pq_invar_def distinct_map)
  have "ev_rank e < ev_rank x" if "x \<in> set (remove1 e q)" for x
  proof -
    have x: "x \<in> set q" "x \<noteq> e" using that d(1) by auto
    then have "uid x \<noteq> uid e" using d(2) e(2) by (auto simp: inj_on_def)
    then show ?thesis using e(3) x(1) rank_neq_uid [of "key x" "key e"] by fastforce
  qed
  moreover have "distinct (map uid (remove1 e q))" using assms(1) d by (simp add: pq_invar_def distinct_map inj_on_def)
  ultimately show ?thesis using e by (simp add: pq_RemoveNext_def pq_pop_def pq_PeekNext_def pq_invar_def)
qed

lemma pq_remove_member: "e \<in> set q \<Longrightarrow> distinct (map uid q) \<Longrightarrow> pq_remove e q = remove1 e q"
  by (induction q) (auto simp: ev_eq_def key_eq_def image_iff)

interpretation pqsched: scheduler pq_ops "[]" pq_invar mset
proof unfold_locales
  fix s :: "'a event list" and e :: "'a event"
  assume "pq_invar s" "fresh e (mset s)"
  then show "\<exists>s'. Insert pq_ops e s = Some s' \<and> pq_invar s' \<and> mset s' = add_mset e (mset s)"
    by (auto simp: pq_ops_def pq_Insert_def pq_invar_def fresh_def)
next
  fix s :: "'a event list"
  assume "pq_invar s" "mset s \<noteq> {#}"
  then show "\<exists>e s'. RemoveNext pq_ops s = Some (e, s') \<and> PeekNext pq_ops s = Some e \<and> pq_invar s' \<and>
      mset s = add_mset e (mset s') \<and> (\<forall>x \<in># mset s'. ev_rank e < ev_rank x)"
    using pq_next [of s] by (simp add: pq_ops_def)
qed (auto simp: pq_ops_def pq_invar_def pq_IsEmpty_def pq_RemoveNext_def)

end
