(* ===== verification/SchedEquiv.thy ===== *)
theory SchedEquiv
  imports ListSched MapSched HeapSched PrioSched
begin

text \<open>
  What a client of the event queue observes. A run is a sequence of calls on one scheduler; its
  result is the sequence of events that \<open>RemoveNext\<close> returns, or \<open>None\<close> when a call aborts. Every
  instance of the locale \<open>scheduler\<close> gives the runs of the sorted list, which is therefore the
  specification the others refine. \<open>HeapScheduler::Remove\<close> is the exception, shown by a run.
\<close>

datatype 'i call = CInsert "'i event" | CNext | CRemove "'i event"

fun run_calls :: "('s, 'i) sched_ops \<Rightarrow> 'i call list \<Rightarrow> 's \<Rightarrow> 'i event list option" where
  "run_calls ops [] s = Some []"
| "run_calls ops (CInsert e # cs) s = do { s1 \<leftarrow> Insert ops e s; run_calls ops cs s1 }"
| "run_calls ops (CNext # cs) s =
     do { (e, s1) \<leftarrow> RemoveNext ops s; es \<leftarrow> run_calls ops cs s1; Some (e # es) }"
| "run_calls ops (CRemove e # cs) s = do { s1 \<leftarrow> Remove ops e s; run_calls ops cs s1 }"

fun inserted :: "'i call list \<Rightarrow> 'i event list" where
  "inserted [] = []"
| "inserted (CInsert e # cs) = e # inserted cs"
| "inserted (CNext # cs) = inserted cs"
| "inserted (CRemove e # cs) = inserted cs"

fun removed :: "'i call list \<Rightarrow> 'i event list" where
  "removed [] = []"
| "removed (CInsert e # cs) = removed cs"
| "removed (CNext # cs) = removed cs"
| "removed (CRemove e # cs) = e # removed cs"

text \<open>The clients' side of the contract: unique ids are not reused (the simulator counts them up),
  and an event that is removed is one that was inserted, or has a unique id of its own.\<close>

definition ids_ok :: "'i call list \<Rightarrow> bool" where
  "ids_ok cs \<longleftrightarrow> distinct (map uid (inserted cs)) \<and>
     (\<forall>r \<in> set (removed cs). \<forall>e \<in> set (inserted cs). uid r = uid e \<longrightarrow> r = e)"

definition pending_ok :: "'i event multiset \<Rightarrow> 'i call list \<Rightarrow> bool" where
  "pending_ok M cs \<longleftrightarrow> (\<forall>e \<in># M. uid e \<notin> set (map uid (inserted cs)) \<and>
     (\<forall>r \<in> set (removed cs). uid r = uid e \<longrightarrow> r = e))"

lemma ids_ok_simps [simp]:
  "ids_ok (CInsert e # cs) \<longleftrightarrow> ids_ok cs \<and> uid e \<notin> uid ` set (inserted cs) \<and>
     (\<forall>r \<in> set (removed cs). uid r = uid e \<longrightarrow> r = e)"
  "ids_ok (CNext # cs) \<longleftrightarrow> ids_ok cs"
  "ids_ok (CRemove r # cs) \<longleftrightarrow> ids_ok cs \<and> (\<forall>e \<in> set (inserted cs). uid r = uid e \<longrightarrow> r = e)"
  by (auto simp: ids_ok_def)

lemma pending_ok_simps [simp]:
  "pending_ok (add_mset e M) (CNext # cs) \<longleftrightarrow> pending_ok (add_mset e M) cs"
  "pending_ok M (CInsert e # cs) \<longleftrightarrow> pending_ok M cs \<and> fresh e M"
  "pending_ok M (CNext # cs) \<longleftrightarrow> pending_ok M cs"
  "pending_ok M (CRemove r # cs) \<longleftrightarrow> pending_ok M cs \<and> (\<forall>e \<in># M. uid r = uid e \<longrightarrow> r = e)"
  by (auto simp: pending_ok_def fresh_def) (metis imageI)

lemma pending_ok_insert:
  "pending_ok M cs \<Longrightarrow> uid e \<notin> uid ` set (inserted cs) \<Longrightarrow>
    \<forall>r \<in> set (removed cs). uid r = uid e \<longrightarrow> r = e \<Longrightarrow> pending_ok (add_mset e M) cs"
  by (auto simp: pending_ok_def)

lemma pending_ok_mono: "pending_ok M cs \<Longrightarrow> N \<subseteq># M \<Longrightarrow> pending_ok N cs"
  unfolding pending_ok_def by (meson mset_subset_eqD)

lemma least_unique:
  assumes "add_mset a M = add_mset b N"
    and "\<forall>x \<in># M. ev_rank a < ev_rank x" "\<forall>x \<in># N. ev_rank b < ev_rank x"
  shows "a = b \<and> M = N"
proof -
  have "a = b"
  proof (rule ccontr)
    assume "a \<noteq> b"
    then have "b \<in># M" "a \<in># N" using assms(1) by (auto simp: add_eq_conv_ex)
    with assms(2,3) show False by fastforce
  qed
  with assms(1) show ?thesis by simp
qed

text \<open>
  A client that keeps to the order of time: in the run of the sorted list, an event is inserted no
  earlier than \<open>f e\<close> after \<open>e\<close> was taken out, and before the horizon \<open>h\<close>.
\<close>

fun causal :: "('i event \<Rightarrow> nat) \<Rightarrow> nat \<Rightarrow> nat \<Rightarrow> 'i event list \<Rightarrow> 'i call list \<Rightarrow> bool" where
  "causal f h t l [] \<longleftrightarrow> True"
| "causal f h t l (CInsert e # cs) \<longleftrightarrow> t \<le> unat (m_ts (key e)) \<and> unat (m_ts (key e)) < h \<and> causal f h t (list_Insert e l) cs"
| "causal f h t l (CNext # cs) \<longleftrightarrow> (case list_RemoveNext l of None \<Rightarrow> True | Some (e, l') \<Rightarrow> causal f h (f e) l' cs)"
| "causal f h t l (CRemove e # cs) \<longleftrightarrow> (case list_Remove e l of None \<Rightarrow> True | Some l' \<Rightarrow> causal f h t l' cs)"

lemma length_list_Insert [simp]: "length (list_Insert e l) = Suc (length l)"
  by (induction l) auto

lemma causal_trivial: "causal (\<lambda>_. 0) (2 ^ 64) 0 l cs"
proof (induction cs arbitrary: l)
  case (Cons c cs)
  then show ?case using unsigned_less [where 'a = nat and 'b = 64]
    by (cases c) (auto split: option.splits)
qed simp

context timed_scheduler
begin

text \<open>One call of each kind keeps the two queues equal and returns the same event.\<close>

lemma sim_insert:
  assumes "invar s" "list_invar l" "events s = mset l" "fresh e (mset l)"
    and "last s \<le> unat (m_ts (key e))" "unat (m_ts (key e)) < horizon" "length l < capacity"
  shows "\<exists>s1. Insert ops e s = Some s1 \<and> invar s1 \<and> list_invar (list_Insert e l) \<and> events s1 = mset (list_Insert e l) \<and> last s1 = last s"
  using timed_insert [of s e] list_invar_Insert [of l e] assms by force

lemma sim_next:
  assumes "invar s" "list_invar l" "events s = mset l"
  shows "(RemoveNext ops s = None \<and> list_RemoveNext l = None) \<or>
    (\<exists>e s1 l1. RemoveNext ops s = Some (e, s1) \<and> list_RemoveNext l = Some (e, l1) \<and>
      invar s1 \<and> list_invar l1 \<and> events s1 = mset l1 \<and> mset l1 \<subseteq># mset l \<and> length l1 \<le> length l \<and> last s1 \<le> earliest e)"
proof (cases "mset l = {#}")
  case True
  with assms show ?thesis by (simp add: timed_none list_RemoveNext_def)
next
  case False
  obtain e s1 where a: "RemoveNext ops s = Some (e, s1)" "invar s1"
      "events s = add_mset e (events s1)" "\<forall>x \<in># events s1. ev_rank e < ev_rank x" "last s1 \<le> earliest e"
    using timed_next [OF assms(1)] assms(3) False by metis
  obtain f l1 where b: "RemoveNext list_ops l = Some (f, l1)" "list_invar l1"
      "mset l = add_mset f (mset l1)" "\<forall>x \<in># mset l1. ev_rank f < ev_rank x"
    using lsched.remove_next [OF assms(2) False] by metis
  have "e = f \<and> events s1 = mset l1"
    using a(3) b(3) assms(3) by (intro least_unique [OF _ a(4) b(4)]) simp
  moreover have "length l1 \<le> length l" using arg_cong [OF b(3), of size] by simp
  ultimately show ?thesis using a b by (auto simp: list_ops_def)
qed

lemma refines_list_upto:
  assumes "invar s" "list_invar l" "events s = mset l" "ids_ok cs" "pending_ok (mset l) cs"
    and "last s \<le> t" "causal earliest horizon t l cs" "length l + length cs \<le> capacity"
    and rem: "\<And>r s l. r \<in> set (removed cs) \<Longrightarrow> invar s \<Longrightarrow> list_invar l \<Longrightarrow> events s = mset l \<Longrightarrow>
      \<forall>e \<in># mset l. uid r = uid e \<longrightarrow> r = e \<Longrightarrow>
      (Remove ops r s = None \<and> list_Remove r l = None) \<or>
      (\<exists>s1 l1. Remove ops r s = Some s1 \<and> list_Remove r l = Some l1 \<and>
        invar s1 \<and> list_invar l1 \<and> events s1 = mset l1 \<and> mset l1 \<subseteq># mset l \<and> length l1 \<le> length l \<and> last s1 = last s)"
  shows "run_calls ops cs s = run_calls list_ops cs l"
  using assms
proof (induction cs arbitrary: s l t)
  case (Cons c cs)
  note IH = Cons.IH [OF _ _ _ _ _ _ _ _ Cons.prems(9)]
  have list: "Insert list_ops e l = Some (list_Insert e l)" "RemoveNext list_ops l = list_RemoveNext l"
    "Remove list_ops e l = list_Remove e l" for e :: "'b event" and l
    by (simp_all add: list_ops_def)
  show ?case
  proof (cases c)
    case (CInsert e)
    with Cons.prems obtain s1 where ins: "Insert ops e s = Some s1" and "invar s1" "list_invar (list_Insert e l)"
        "events s1 = mset (list_Insert e l)" "last s1 = last s"
      using sim_insert [of s l e] by auto
    then have "run_calls ops cs s1 = run_calls list_ops cs (list_Insert e l)"
      using Cons.prems(4-8) CInsert by (intro IH [of s1 "list_Insert e l" t]) (simp_all add: pending_ok_insert)
    with ins CInsert show ?thesis by (simp add: list)
  next
    case CNext
    from sim_next [OF Cons.prems(1,2,3)] show ?thesis
    proof (elim disjE exE conjE)
      fix e s1 l1
      assume n: "RemoveNext ops s = Some (e, s1)" "list_RemoveNext l = Some (e, l1)" "invar s1" "list_invar l1"
        "events s1 = mset l1" "mset l1 \<subseteq># mset l" "length l1 \<le> length l" "last s1 \<le> earliest e"
      then have "run_calls ops cs s1 = run_calls list_ops cs l1"
        using Cons.prems(4-8) CNext by (intro IH [of s1 l1 "earliest e"]) (auto intro: pending_ok_mono)
      with n CNext show ?thesis by (simp add: list)
    qed (simp add: CNext list)
  next
    case (CRemove r)
    with Cons.prems have "r \<in> set (removed (c # cs))" "\<forall>e \<in># mset l. uid r = uid e \<longrightarrow> r = e" by simp_all
    from Cons.prems(9) [OF this(1) Cons.prems(1-3) this(2)] show ?thesis
    proof (elim disjE exE conjE)
      fix s1 l1
      assume n: "Remove ops r s = Some s1" "list_Remove r l = Some l1" "invar s1" "list_invar l1"
        "events s1 = mset l1" "mset l1 \<subseteq># mset l" "length l1 \<le> length l" "last s1 = last s"
      then have "run_calls ops cs s1 = run_calls list_ops cs l1"
        using Cons.prems(4-8) CRemove by (intro IH [of s1 l1 t]) (auto intro: pending_ok_mono)
      with n CRemove show ?thesis by (simp add: list)
    qed (simp add: CRemove list)
  qed
qed simp

lemma new_refines_list_upto:
  assumes "ids_ok cs" "causal earliest horizon 0 [] cs" "length cs \<le> capacity"
    and "\<And>r s l. r \<in> set (removed cs) \<Longrightarrow> invar s \<Longrightarrow> list_invar l \<Longrightarrow> events s = mset l \<Longrightarrow>
      \<forall>e \<in># mset l. uid r = uid e \<longrightarrow> r = e \<Longrightarrow>
      (Remove ops r s = None \<and> list_Remove r l = None) \<or>
      (\<exists>s1 l1. Remove ops r s = Some s1 \<and> list_Remove r l = Some l1 \<and>
        invar s1 \<and> list_invar l1 \<and> events s1 = mset l1 \<and> mset l1 \<subseteq># mset l \<and> length l1 \<le> length l \<and> last s1 = last s)"
  shows "run_calls ops cs new = run_calls list_ops cs []"
  by (rule refines_list_upto [where t = 0]) (use assms in \<open>simp_all add: timed_new pending_ok_def list_invar_def [of "[]"]\<close>)

end

context timed_removing_scheduler
begin

lemma sim_remove:
  assumes "invar s" "list_invar l" "events s = mset l" "\<forall>e \<in># mset l. uid r = uid e \<longrightarrow> r = e"
  shows "(Remove ops r s = None \<and> list_Remove r l = None) \<or>
    (\<exists>s1 l1. Remove ops r s = Some s1 \<and> list_Remove r l = Some l1 \<and>
      invar s1 \<and> list_invar l1 \<and> events s1 = mset l1 \<and> mset l1 \<subseteq># mset l \<and> length l1 \<le> length l \<and> last s1 = last s)"
proof (cases "r \<in># mset l")
  case True
  obtain s1 where "Remove ops r s = Some s1" "invar s1" "events s1 = events s - {#r#}" "last s1 = last s"
    using timed_remove [OF assms(1)] True assms(3) by metis
  moreover have "list_Remove r l = Some (remove1 r l)" "list_invar (remove1 r l)"
    using list_Remove_member [of r l] list_invar_remove1 [of l r] True assms(2) by (simp_all add: list_invar_def)
  moreover have "length (remove1 r l) \<le> length l" by (simp add: length_remove1)
  ultimately show ?thesis using assms(3) by auto
next
  case False
  then have "fresh r (mset l)" using assms(4) by (auto simp: fresh_def)
  with assms show ?thesis by (simp add: timed_absent list_Remove_fresh)
qed

lemma new_refines_list_remove:
  "ids_ok cs \<Longrightarrow> causal earliest horizon 0 [] cs \<Longrightarrow> length cs \<le> capacity \<Longrightarrow> run_calls ops cs new = run_calls list_ops cs []"
  by (rule new_refines_list_upto [OF _ _ _ sim_remove])

end

context scheduler
begin

lemma new_refines_list:
  "ids_ok cs \<Longrightarrow> removed cs = [] \<Longrightarrow> run_calls ops cs new = run_calls list_ops cs []"
  by (rule timed.new_refines_list_upto [where capacity = "length cs"]) (simp_all add: causal_trivial [simplified])

end

context removing_scheduler
begin

lemma new_refines_list_remove:
  "ids_ok cs \<Longrightarrow> run_calls ops cs new = run_calls list_ops cs []"
  by (rule timed_removing.new_refines_list_remove [where capacity = "length cs"]) (simp_all add: causal_trivial [simplified])

end

section \<open>The schedulers are interchangeable\<close>

text \<open>
  C6. As long as unique ids are not reused, the heap, the priority queue, the map and the list scheduler
  return the same events in the same order for every sequence of insertions and removals of the next event.
\<close>

theorem schedulers_agree:
  assumes "ids_ok cs" "removed cs = []"
  shows "run_calls heap_ops cs (heap_new nullptr) = run_calls list_ops cs [] \<and>
    run_calls pq_ops cs [] = run_calls list_ops cs [] \<and> run_calls map_ops cs [] = run_calls list_ops cs []"
  using hsched.new_refines_list [OF assms, of nullptr] pqsched.new_refines_list [OF assms]
    msched.new_refines_list [OF assms] by simp

text \<open>
  The map and the list scheduler also agree when events are removed out of turn, whether the
  removed event is queued, already gone or was never inserted.
\<close>

theorem map_list_agree_remove:
  assumes "ids_ok cs"
  shows "run_calls map_ops cs [] = run_calls list_ops cs []"
  by (rule msched.new_refines_list_remove [OF assms])

definition ev_at :: "uint64 \<Rightarrow> uint32 \<Rightarrow> unit event" where
  "ev_at t u = \<lparr>impl = (), key = \<lparr>m_ts = t, m_uid = u, m_context = 0\<rparr>\<rparr>"

text \<open>Six insertions, the removal of the event at time 11, two more insertions, then the queue is emptied.\<close>

definition breaking_calls :: "unit call list" where
  "breaking_calls =
     [CInsert (ev_at 1 4), CInsert (ev_at 10 5), CInsert (ev_at 2 6), CInsert (ev_at 11 7), CInsert (ev_at 12 8),
      CInsert (ev_at 3 9), CRemove (ev_at 11 7), CInsert (ev_at 20 10), CInsert (ev_at 21 11),
      CNext, CNext, CNext, CNext]"

lemmas heap_eval =
  heap_ops_def heap_new_def heap_Insert_def heap_RemoveNext_def heap_PeekNext_def heap_Remove_def
  heap_find.simps BottomUp_def BottomUp_from.simps TopDown.simps TopDown_last_def Exch_def
  IsRoot_def Root_def Last_def Parent_def LeftChild_def RightChild_def IsBottom_def
  IsLessStrictly_def Smallest_def ev_lt_def key_lt_def Let_def

text \<open>
  C13. \<open>HeapScheduler::Remove\<close> only moves the event it puts in the hole down, never up, and so
  breaks the heap: after one such removal the event at time 10 is returned before the event at
  time 3, where the list scheduler returns them in order.
\<close>

theorem heap_remove_out_of_order:
  "ids_ok breaking_calls \<and>
   map_option (map (m_ts \<circ> key)) (run_calls list_ops breaking_calls []) = Some [1, 2, 3, 10] \<and>
   map_option (map (m_ts \<circ> key)) (run_calls heap_ops breaking_calls (heap_new ())) = Some [1, 2, 10, 3]"
proof (intro conjI)
  show "ids_ok breaking_calls"
    by (simp add: breaking_calls_def ev_at_def ids_ok_def)
  show "map_option (map (m_ts \<circ> key)) (run_calls list_ops breaking_calls []) = Some [1, 2, 3, 10]"
    by (simp add: breaking_calls_def ev_at_def list_ops_def key_lt_def list_RemoveNext_def)
  show "map_option (map (m_ts \<circ> key)) (run_calls heap_ops breaking_calls (heap_new ())) = Some [1, 2, 10, 3]"
    by (simp add: breaking_calls_def ev_at_def heap_eval)
qed


definition example_calls :: "unit call list" where
  "example_calls =
     [CInsert (ev_at 10 4), CInsert (ev_at 5 5), CInsert (ev_at 5 6), CNext, CInsert (ev_at 7 7), CNext, CNext]"

lemmas map_eval =
  map_ops_def map_Insert_def map_RemoveNext_def key_lt_def ev_at_def

theorem schedulers_agree_witness:
  "run_calls heap_ops example_calls (heap_new ()) = Some [ev_at 5 5, ev_at 5 6, ev_at 7 7] \<and>
   run_calls list_ops example_calls [] = Some [ev_at 5 5, ev_at 5 6, ev_at 7 7]"
proof -
  have "ids_ok example_calls" "removed example_calls = []"
    by (simp_all add: example_calls_def ev_at_def ids_ok_def)
  note a = schedulers_agree [OF this, of "()"]
  have "run_calls map_ops example_calls [] = Some [ev_at 5 5, ev_at 5 6, ev_at 7 7]"
    by (simp add: example_calls_def map_eval)
  with a show ?thesis by simp
qed

theorem map_list_agree_remove_witness:
  "run_calls list_ops breaking_calls [] = Some [ev_at 1 4, ev_at 2 6, ev_at 3 9, ev_at 10 5]"
proof -
  have "ids_ok breaking_calls"
    by (simp add: breaking_calls_def ev_at_def ids_ok_def)
  note a = map_list_agree_remove [OF this]
  have "run_calls map_ops breaking_calls [] = Some [ev_at 1 4, ev_at 2 6, ev_at 3 9, ev_at 10 5]"
    by (simp add: breaking_calls_def map_eval)
  with a show ?thesis by simp
qed

end
