(* ===== verification/CalOps.thy ===== *)
theory CalOps
  imports CalNext SchedEquiv
begin

text \<open>The operations of the calendar keep the invariant, across every change of the number of buckets.\<close>

section \<open>Taking out the next event\<close>

text \<open>The calendar without its next event \<open>e\<close>, with the search at the day of \<open>e\<close>.\<close>

definition taken :: "'i event \<Rightarrow> 'i calendar \<Rightarrow> 'i calendar" where
  "taken e s = (let i = tsn e div wid s mod nbk s in
     s\<lparr>m_buckets := (m_buckets s)[i := cal_Pop (m_reverse s) (m_buckets s ! i)],
       m_lastBucket := of_nat i, m_lastPrio := m_ts (key e), m_bucketTop := of_nat ((tsn e div wid s + 1) * wid s)\<rparr>)"

text \<open>The fields that the search does not write.\<close>

definition same_dims :: "'i calendar \<Rightarrow> 'i calendar \<Rightarrow> bool" where
  "same_dims s s' \<longleftrightarrow> m_nBuckets s' = m_nBuckets s \<and> m_width s' = m_width s \<and> m_qSize s' = m_qSize s \<and> m_reverse s' = m_reverse s"

lemma DoRemoveNext_taken:
  assumes c: "cal_core s" and q: "m_qSize s \<noteq> 0" "cal_events s \<noteq> {#}"
  shows "\<exists>e. cal_DoRemoveNext s = Some (e, taken e s) \<and> e \<in># cal_events s \<and>
    (\<forall>x \<in># cal_events s. x \<noteq> e \<longrightarrow> ev_rank e < ev_rank x) \<and>
    cal_NextEvent (m_reverse s) (m_buckets s ! (tsn e div wid s mod nbk s)) = Some e"
proof -
  have sh: "shape s" using c by (simp add: cal_core_def buckets_ok_def)
  let ?b0 = "(\<lparr>m_ts = 0xffffffffffffffff, m_uid = 0, m_context = 0xffffffff\<rparr>, None :: uint32 option)"
  let ?mk = "\<lambda>i (e :: 'a event). (key e, Some i)"
  have "cal_end * 4294967296 \<le> rank (fst ?b0)" by (simp add: cal_end_def rank_def)
  from scan_least [OF c q(2), of fst ?mk ?b0, OF _ this] obtain i e where
    i: "i < nbk s" "i = tsn e div wid s mod nbk s" and e: "cal_NextEvent (m_reverse s) (m_buckets s ! i) = Some e"
      "e \<in># cal_events s" "\<forall>x \<in># cal_events s. x \<noteq> e \<longrightarrow> ev_rank e < ev_rank x" and
    r: "cal_scan (keep_least fst ?mk) s (m_lastBucket s) (m_bucketTop s) ?b0 \<in>
      {Some (Today (of_nat i) (of_nat ((tsn e div wid s + 1) * wid s)) e), Some (Least (?mk (of_nat i) e))}"
    by auto
  have upd: "(\<lambda>i nxt m. if key_lt (key nxt) (fst m) then (key nxt, Some i) else m) = keep_least fst ?mk"
    by (intro ext) (simp add: keep_least_def)
  have at: "bucket_at s (of_nat i) = Some (m_buckets s ! i)" unfolding i(2) by (rule bucket_at_nat [OF sh])
  have u: "unat (of_nat i :: uint32) = i" unfolding i(2) by (rule unat_bucket [OF sh])
  from r have "cal_DoRemoveNext s = Some (e, taken e s)"
  proof (elim insertE emptyE)
    assume "cal_scan (keep_least fst ?mk) s (m_lastBucket s) (m_bucketTop s) ?b0 =
      Some (Today (of_nat i) (of_nat ((tsn e div wid s + 1) * wid s)) e)"
    with q(1) at u show ?thesis
      by (simp add: cal_DoRemoveNext_def upd cal_IsEmpty_def set_bucket_def taken_def Let_def flip: i(2))
  next
    assume s: "cal_scan (keep_least fst ?mk) s (m_lastBucket s) (m_bucketTop s) ?b0 = Some (Least (?mk (of_nat i) e))"
    have "cal_Hash (s\<lparr>m_lastPrio := p\<rparr>) t = cal_Hash s t" for p t by (simp add: cal_Hash_def)
    then have "cal_Hash (s\<lparr>m_lastPrio := m_ts (key e)\<rparr>) (m_ts (key e)) = Some (of_nat i)"
      using cal_Hash_nat [OF sh, of "m_ts (key e)"] by (simp only: i(2))
    moreover have "bucket_at (s\<lparr>m_lastPrio := p, m_lastBucket := l, m_bucketTop := t\<rparr>) k = bucket_at s k" for p l t k
      by (simp add: bucket_at_def)
    ultimately show ?thesis using q(1) at u e(1) s
      by (simp add: cal_DoRemoveNext_def upd cal_IsEmpty_def set_bucket_def taken_def Let_def bucket_top_nat flip: i(2))
  qed
  with e i show ?thesis by auto
qed

lemma cal_NextEvent_taken:
  assumes c: "cal_core s" and e: "cal_NextEvent (m_reverse s) (m_buckets s ! (tsn e div wid s mod nbk s)) = Some e"
    "\<forall>x \<in># cal_events s. x \<noteq> e \<longrightarrow> ev_rank e < ev_rank x"
  shows "cal_core (taken e s)" "cal_events s = add_mset e (cal_events (taken e s))"
    "\<forall>x \<in># cal_events (taken e s). ev_rank e < ev_rank x" "same_dims s (taken e s)" "lastp (taken e s) = tsn e"
    "lastp s \<le> tsn e" "tsn e < cal_end"
proof -
  have b: "buckets_ok (lastp s) s" and sh: "shape s" using c by (simp_all add: cal_core_def buckets_ok_def)
  let ?i = "tsn e div wid s mod nbk s"
  let ?p = "cal_Pop (m_reverse s) (m_buckets s ! ?i)"
  have i: "?i < nbk s" "?i < length (m_buckets s)" using mod_nbk [OF sh] shape_bounds(4) [OF sh] by simp_all
  have "bucket_ok (m_reverse s) (m_buckets s ! ?i)" using b i(1) by (simp add: buckets_ok_def)
  note l = NextEvent_least [OF this e(1)]
  have tb: "m_buckets (taken e s) = (m_buckets s)[?i := ?p]" by (simp add: taken_def Let_def)
  obtain M where "cal_events s = mset (m_buckets s ! ?i) + M" "cal_events (s\<lparr>m_buckets := (m_buckets s)[?i := ?p]\<rparr>) = mset ?p + M"
    using cal_events_update [OF i(2)] by metis
  then show ev: "cal_events s = add_mset e (cal_events (taken e s))"
    using l(3) by (simp add: cal_events_def tb)
  have d: "distinct (uid e # map uid (concat (m_buckets (taken e s))))"
  proof -
    have "mset (map uid (concat (m_buckets s))) = mset (uid e # map uid (concat (m_buckets (taken e s))))"
      using ev by (simp add: cal_events_def)
    with b show ?thesis unfolding buckets_ok_def by (metis mset_eq_imp_distinct_iff)
  qed
  then have "x \<noteq> e" if "x \<in># cal_events (taken e s)" for x
    using that by (auto simp: cal_events_def)
  with e(2) ev show r: "\<forall>x \<in># cal_events (taken e s). ev_rank e < ev_rank x" by simp
  show dims: "same_dims s (taken e s)" by (simp add: same_dims_def taken_def Let_def)
  show lp: "lastp (taken e s) = tsn e" by (simp add: taken_def Let_def)
  show "lastp s \<le> tsn e" and te: "tsn e < cal_end" using b ev by (auto simp: buckets_ok_def)
  have "set ?p \<subseteq> set (m_buckets s ! ?i)" using l(3) by (metis set_mset_mset set_mset_add_mset_insert subset_insertI)
  then have "\<forall>j < nbk s. bucket_ok (m_reverse s) (m_buckets (taken e s) ! j) \<and>
      (\<forall>x \<in> set (m_buckets (taken e s) ! j). in_day (wid s) (nbk s) j x)"
    using b i l(4) by (auto simp: buckets_ok_def nth_list_update tb)
  moreover have "tsn e \<le> tsn x \<and> tsn x < cal_end" if "x \<in># cal_events (taken e s)" for x
    using that r ts_rank [of e x] b ev by (auto simp: buckets_ok_def)
  moreover have "shape (taken e s)" using sh dims by (simp add: shape_def same_dims_def tb)
  ultimately have "buckets_ok (tsn e) (taken e s)" using d dims by (simp add: buckets_ok_def same_dims_def)
  moreover have "pointer_ok (taken e s)" using te by (simp add: pointer_ok_def taken_def Let_def)
  ultimately show "cal_core (taken e s)" by (simp add: cal_core_def lp)
qed

text \<open>One search, in all.\<close>

lemma DoRemoveNext_ok:
  assumes "cal_core s" "m_qSize s \<noteq> 0" "cal_events s \<noteq> {#}"
  shows "\<exists>e s'. cal_DoRemoveNext s = Some (e, s') \<and> cal_core s' \<and> cal_events s = add_mset e (cal_events s') \<and>
    (\<forall>x \<in># cal_events s'. ev_rank e < ev_rank x) \<and> same_dims s s' \<and> lastp s' = tsn e \<and> lastp s \<le> tsn e \<and> tsn e < cal_end"
  using DoRemoveNext_taken [OF assms] cal_NextEvent_taken [OF assms(1)] by metis

lemma PeekNext_ok:
  assumes c: "cal_core s" and q: "m_qSize s \<noteq> 0" "cal_events s \<noteq> {#}" and r: "cal_DoRemoveNext s = Some (e, s')"
  shows "cal_PeekNext nullptr s = Some e"
proof -
  let ?b0 = "\<lparr>impl = nullptr, key = \<lparr>m_ts = 0xffffffffffffffff, m_uid = 0xffffffff, m_context = 0\<rparr>\<rparr>"
  have "cal_end * 4294967296 \<le> ev_rank ?b0" by (simp add: cal_end_def rank_def)
  from scan_least [OF c q(2), of key "\<lambda>i e. e" ?b0, OF _ this] obtain i f where
    f: "f \<in># cal_events s" "\<forall>x \<in># cal_events s. x \<noteq> f \<longrightarrow> ev_rank f < ev_rank x" and
    s: "cal_scan (keep_least key (\<lambda>i e. e)) s (m_lastBucket s) (m_bucketTop s) ?b0 \<in>
      {Some (Today (of_nat i) (of_nat ((tsn f div wid s + 1) * wid s)) f), Some (Least f)}"
    by auto
  have "e \<in># cal_events s" "\<forall>x \<in># cal_events s. x \<noteq> e \<longrightarrow> ev_rank e < ev_rank x"
    using DoRemoveNext_taken [OF c q] r by auto
  with f have "f = e" by (metis less_asym)
  moreover have "(\<lambda>i nxt (m :: 'a event). if key_lt (key nxt) (key m) then nxt else m) = keep_least key (\<lambda>(i :: uint32) e. e)"
    by (intro ext) (simp add: keep_least_def)
  ultimately show ?thesis using s q(1) by (auto simp: cal_PeekNext_def cal_IsEmpty_def)
qed

section \<open>The width\<close>

lemma gather_ok:
  "cal_core s \<Longrightarrow> m_qSize s \<noteq> 0 \<Longrightarrow> n \<le> size (cal_events s) \<Longrightarrow>
    \<exists>es s'. cal_gather n s = Some (es, s') \<and> length es = n \<and> in_order es \<and> cal_events s = mset es + cal_events s' \<and>
      cal_core s' \<and> same_dims s s' \<and> lastp s \<le> lastp s'"
proof (induction n arbitrary: s)
  case 0
  then show ?case by (auto simp: same_dims_def)
next
  case (Suc n)
  then have "cal_events s \<noteq> {#}" by auto
  from DoRemoveNext_ok [OF Suc.prems(1,2) this] obtain e s1 where
    s1: "cal_DoRemoveNext s = Some (e, s1)" "cal_core s1" "cal_events s = add_mset e (cal_events s1)"
      "\<forall>x \<in># cal_events s1. ev_rank e < ev_rank x" "same_dims s s1" "lastp s1 = tsn e" "lastp s \<le> tsn e" by blast
  then have "m_qSize s1 \<noteq> 0" "n \<le> size (cal_events s1)" using Suc.prems by (simp_all add: same_dims_def)
  from Suc.IH [OF s1(2) this] obtain es s' where "cal_gather n s1 = Some (es, s')" "length es = n" "in_order es"
      "cal_events s1 = mset es + cal_events s'" "cal_core s'" "same_dims s1 s'" "lastp s1 \<le> lastp s'" by blast
  with s1 show ?case by (auto simp: same_dims_def)
qed

lemma separations_sum:
  "sorted (map unat ts) \<Longrightarrow> ts \<noteq> [] \<Longrightarrow>
    unat (sum_list (filter P (separations ts))) \<le> unat (last ts) - unat (hd ts)"
proof (induction ts rule: separations.induct)
  case (1 a b ts)
  have ab: "unat a \<le> unat b" "unat b \<le> unat (last (b # ts))" using 1(2) by auto
  have IH: "unat (sum_list (filter P (separations (b # ts)))) \<le> unat (last (b # ts)) - unat b" using 1 by simp
  have d: "unat (b - a) = unat b - unat a" using ab(1) by (simp add: unat_sub word_le_nat_alt)
  have "unat (x + y) \<le> unat x + unat y" for x y :: uint64 by (simp add: unat_word_ariths)
  from this [of "b - a" "sum_list (filter P (separations (b # ts)))"] IH ab d show ?case by (auto split: if_splits)
qed simp_all

lemma width_of_sum:
  assumes "unat (x :: uint64) < cal_end"
  shows "0 < unat (max (x * 3) 1) \<and> unat (max (x * 3) 1) \<le> 3 * cal_end"
proof -
  have "unat (x * 3) = unat x * 3" using assms by (simp add: unat_word_ariths cal_end_def)
  moreover have "unat (max y 1) = max (unat y) 1" for y :: uint64 by (simp add: max_def word_le_nat_alt)
  ultimately show ?thesis using assms by (simp add: cal_end_def)
qed

lemma sample_width_ok:
  assumes "sorted (map unat ts)" "\<forall>t \<in> set ts. unat t < cal_end"
  shows "0 < unat (sample_width ts) \<and> unat (sample_width ts) \<le> 3 * cal_end"
proof -
  let ?f = "sum_list (filter (\<lambda>diff. diff \<le> sum_list (separations ts) div (of_nat (length ts) - 1) * 2) (separations ts))"
  have "unat ?f < cal_end"
  proof (cases "ts = []")
    case False
    from separations_sum [OF assms(1) False] have "unat ?f \<le> unat (last ts) - unat (hd ts)" .
    moreover have "unat (last ts) < cal_end" using assms(2) last_in_set [OF False] by blast
    ultimately show ?thesis by linarith
  qed (simp add: cal_end_def)
  then show ?thesis unfolding sample_width_def Let_def by (rule width_of_sum)
qed

section \<open>Resizing\<close>

lemma concat_nils: "concat (replicate m []) = []"
  by (induction m) simp_all

lemma cal_Init_ok:
  assumes "0 < unat w \<and> unat w \<le> 3 * cal_end" "k \<le> 15" "unat n = 2 ^ k" "unat p < cal_end"
  shows "\<exists>s'. cal_Init n w p s = Some s' \<and> buckets_ok (unat p) s' \<and> pointer_ok s' \<and> cal_events s' = {#} \<and>
    m_lastPrio s' = p \<and> m_qSize s' = m_qSize s \<and> m_reverse s' = m_reverse s \<and> m_nBuckets s' = n \<and> m_width s' = w"
proof -
  let ?s = "s\<lparr>m_buckets := replicate (unat n) [], m_nBuckets := n, m_width := w, m_lastPrio := p\<rparr>"
  have sh: "shape ?s" using assms by (auto simp: shape_def)
  note e = concat_nils
  show ?thesis using sh cal_Hash_nat [OF sh, of p] assms(4)
    by (simp add: cal_Init_def bucket_top_nat buckets_ok_def pointer_ok_def cal_events_def e bucket_ok_def shape_def)
qed

lemma in_order_times: "in_order es \<Longrightarrow> sorted (map unat (map (m_ts \<circ> key) es))"
  by (induction es) (auto intro: ts_rank less_imp_le)

text \<open>Every resize keeps the events and the invariant, and does not fail.\<close>

definition resized :: "'i calendar \<Rightarrow> 'i calendar \<Rightarrow> bool" where
  "resized s s' \<longleftrightarrow> cal_core s' \<and> cal_events s' = cal_events s \<and> m_lastPrio s' = m_lastPrio s \<and> m_qSize s' = m_qSize s"

lemma CalculateNewWidth_ok:
  assumes c: "cal_core s" and q: "unat (m_qSize s) = size (cal_events s)"
  shows "\<exists>w s'. CalculateNewWidth s = Some (w, s') \<and> 0 < unat w \<and> unat w \<le> 3 * cal_end \<and> resized s s' \<and> same_dims s s'"
proof (cases "m_qSize s < 2")
  case True
  then show ?thesis using c by (auto simp: CalculateNewWidth_def resized_def same_dims_def cal_end_def)
next
  case False
  let ?n = "unat (sample_count (m_qSize s))"
  have "sample_count (m_qSize s) \<le> m_qSize s"
  proof -
    have "unat (5 + m_qSize s div 10) = 5 + unat (m_qSize s) div 10" if "\<not> m_qSize s \<le> 5"
    proof -
      have "unat (m_qSize s) div 10 < 429496730" using unsigned_less [of "m_qSize s", where 'a = nat] by simp
      then show ?thesis by (subst unat_plus32) (simp_all add: unat_div_distrib)
    qed
    then show ?thesis by (auto simp: sample_count_def Let_def word_le_nat_alt word_less_nat_alt)
  qed
  then have n: "?n \<le> size (cal_events s)" using q by (simp add: word_le_nat_alt)
  have "m_qSize s \<noteq> 0" using False by auto
  from gather_ok [OF c this n] obtain es s1 where
    g: "cal_gather ?n s = Some (es, s1)" "in_order es" "cal_events s = mset es + cal_events s1" "cal_core s1"
      "same_dims s s1" "lastp s \<le> lastp s1" by blast
  have b1: "buckets_ok (lastp s) s1" using g(4,6) by (auto simp: cal_core_def intro: buckets_ok_mono)
  have bs: "buckets_ok (lastp s) s" using c by (simp add: cal_core_def)
  have es: "\<forall>e \<in> set es. lastp s \<le> tsn e \<and> tsn e < cal_end" using bs g(3) by (auto simp: buckets_ok_def)
  have u: "distinct (map uid (es @ concat (m_buckets s1)))"
  proof -
    have "mset (map uid (concat (m_buckets s))) = mset (map uid (es @ concat (m_buckets s1)))"
      using g(3) by (simp add: cal_events_def)
    with bs show ?thesis unfolding buckets_ok_def by (metis mset_eq_imp_distinct_iff)
  qed
  then have "\<forall>e \<in> set es. fresh e (cal_events s1)" by (auto simp: fresh_def cal_events_def)
  from cal_insert_all_ok [OF b1 es _ this] u obtain s2 where
    s2: "cal_insert_all es s1 = Some s2" "same_frame s1 s2" "buckets_ok (lastp s) s2" "cal_events s2 = mset es + cal_events s1" by auto
  let ?s = "s2\<lparr>m_lastBucket := m_lastBucket s, m_bucketTop := m_bucketTop s, m_lastPrio := m_lastPrio s\<rparr>"
  have d: "same_dims s ?s" using g(5) s2(2) by (auto simp: same_dims_def same_frame_def)
  have e: "cal_events ?s = cal_events s" using s2(4) g(3) by (simp add: cal_events_def)
  have "buckets_ok (lastp s) ?s" using s2(3) by (simp add: buckets_ok_def shape_def cal_events_def)
  moreover have "pointer_ok ?s" using c d by (simp add: cal_core_def pointer_ok_def same_dims_def)
  ultimately have "resized s ?s" using e d by (simp add: resized_def cal_core_def same_dims_def)
  moreover have "sorted (map unat (map (m_ts \<circ> key) es))"
    by (rule in_order_times [OF g(2)])
  from sample_width_ok [OF this] es have "0 < unat (sample_width (map (m_ts \<circ> key) es)) \<and> unat (sample_width (map (m_ts \<circ> key) es)) \<le> 3 * cal_end"
    by simp
  ultimately show ?thesis using g(1) s2(1) d False by (simp add: CalculateNewWidth_def)
qed

lemma DoResize_ok:
  assumes c: "cal_core s" and w: "0 < unat w \<and> unat w \<le> 3 * cal_end" "k \<le> 15" "unat n = 2 ^ k"
  shows "\<exists>s'. DoResize n w s = Some s' \<and> resized s s'"
proof -
  have b: "buckets_ok (lastp s) s" and p: "lastp s < cal_end" using c by (simp_all add: cal_core_def pointer_ok_def)
  from cal_Init_ok [OF w p, of s] obtain s1 where
    s1: "cal_Init n w (m_lastPrio s) s = Some s1" "buckets_ok (lastp s) s1" "pointer_ok s1" "cal_events s1 = {#}"
      "m_lastPrio s1 = m_lastPrio s" "m_qSize s1 = m_qSize s" by blast
  have "\<forall>e \<in> set (concat (m_buckets s)). lastp s \<le> tsn e \<and> tsn e < cal_end" "distinct (map uid (concat (m_buckets s)))"
    using b by (simp_all add: buckets_ok_def cal_events_def)
  moreover have "\<forall>e \<in> set (concat (m_buckets s)). fresh e (cal_events s1)" by (simp add: s1(4) fresh_def)
  ultimately have "\<exists>s2. cal_insert_all (concat (m_buckets s)) s1 = Some s2 \<and> same_frame s1 s2 \<and> buckets_ok (lastp s) s2 \<and>
      cal_events s2 = mset (concat (m_buckets s)) + cal_events s1"
    by (rule cal_insert_all_ok [OF s1(2)])
  then obtain s2 where
    s2: "cal_insert_all (concat (m_buckets s)) s1 = Some s2" "same_frame s1 s2" "buckets_ok (lastp s) s2" "cal_events s2 = cal_events s"
    unfolding s1(4) cal_events_def [of s] by auto
  then have "resized s s2"
    using s1(3,5,6) by (auto simp: resized_def cal_core_def same_frame_def pointer_ok_def)
  with s1(1) s2(1) show ?thesis by (simp add: DoResize_def)
qed

lemma cal_Resize_ok:
  assumes "cal_core s" "unat (m_qSize s) = size (cal_events s)" "k \<le> 15" "unat n = 2 ^ k"
  shows "\<exists>s'. cal_Resize n s = Some s' \<and> resized s s'"
proof -
  obtain w s1 where 1: "CalculateNewWidth s = Some (w, s1)" "0 < unat w \<and> unat w \<le> 3 * cal_end" "resized s s1"
    using CalculateNewWidth_ok [OF assms(1,2)] by blast
  then have "cal_core s1" by (simp add: resized_def)
  from DoResize_ok [OF this 1(2) assms(3,4)] obtain s2 where "DoResize n w s1 = Some s2" "resized s1 s2" by blast
  with 1 show ?thesis by (simp add: cal_Resize_def resized_def)
qed

lemma resize_ok:
  assumes c: "cal_core s" and q: "unat (m_qSize s) = size (cal_events s)"
  shows "\<exists>s'. ResizeUp s = Some s' \<and> resized s s'" "\<exists>s'. ResizeDown s = Some s' \<and> resized s s'"
proof -
  have same: "resized s s" using c by (simp add: resized_def)
  obtain k where k: "k \<le> 15" "nbk s = 2 ^ k" using c by (auto simp: cal_core_def buckets_ok_def shape_def)
  show "\<exists>s'. ResizeUp s = Some s' \<and> resized s s'"
  proof (cases "m_qSize s > m_nBuckets s * 2 \<and> m_nBuckets s < 32768")
    case True
    then have "(2 :: nat) ^ k < 2 ^ 15" by (simp add: word_less_nat_alt k(2))
    then have "k < 15" by (simp only: power_strict_increasing_iff)
    moreover have "unat (m_nBuckets s * 2) = 2 ^ Suc k"
      using True k(2) by (simp add: unat_word_ariths word_less_nat_alt)
    ultimately show ?thesis using cal_Resize_ok [OF c q, of "Suc k"] True by (simp add: ResizeUp_def)
  qed (use same in \<open>auto simp: ResizeUp_def\<close>)
  show "\<exists>s'. ResizeDown s = Some s' \<and> resized s s'"
  proof (cases "m_qSize s < m_nBuckets s div 2")
    case True
    then have "0 < nbk s div 2" by (simp add: word_less_nat_alt unat_div_distrib)
    then have "k \<noteq> 0" by (intro notI) (simp add: k(2))
    then obtain l where l: "k = Suc l" by (cases k) simp_all
    then have "unat (m_nBuckets s div 2) = 2 ^ l" using k(2) by (simp add: unat_div_distrib)
    with cal_Resize_ok [OF c q, of l] k(1) l True show ?thesis by (simp add: ResizeDown_def)
  qed (use same in \<open>auto simp: ResizeDown_def\<close>)
qed

section \<open>The operations\<close>

lemma cal_events_qSize [simp]: "cal_events (s\<lparr>m_qSize := n\<rparr>) = cal_events s"
  by (simp add: cal_events_def)

lemma cal_core_qSize: "cal_core (s\<lparr>m_qSize := n\<rparr>) \<longleftrightarrow> cal_core s"
  by (simp add: cal_core_def buckets_ok_def shape_def pointer_ok_def)

lemma cal_Insert_ok:
  assumes inv: "cal_invar s" and e: "fresh e (cal_events s)" "lastp s \<le> tsn e" "tsn e < cal_end" "size (cal_events s) < 4294967295"
  shows "\<exists>s'. cal_Insert e s = Some s' \<and> cal_invar s' \<and> cal_events s' = add_mset e (cal_events s) \<and> lastp s' = lastp s"
proof -
  have b: "buckets_ok (lastp s) s" and p: "pointer_ok s" using inv by (simp_all add: cal_invar_def cal_core_def)
  from cal_DoInsert_ok [OF b e(2,3,1)] obtain s1 where
    s1: "cal_DoInsert e s = Some s1" "same_frame s s1" "buckets_ok (lastp s) s1" "cal_events s1 = add_mset e (cal_events s)" by blast
  let ?s = "s1\<lparr>m_qSize := m_qSize s1 + 1\<rparr>"
  have f: "m_qSize s1 = m_qSize s" "m_lastPrio s1 = m_lastPrio s" using s1(2) by (auto simp: same_frame_def)
  have q: "unat (m_qSize ?s) = size (cal_events ?s)"
    using inv s1(4) e(4) by (simp add: f cal_invar_def unat_plus32)
  have "pointer_ok s1" using s1(2) p by (auto simp: same_frame_def pointer_ok_def)
  then have "cal_core s1" using s1(3) by (simp add: cal_core_def f)
  then have c: "cal_core ?s" by (simp only: cal_core_qSize)
  from resize_ok(1) [OF c q] obtain s' where "ResizeUp ?s = Some s'" "resized ?s s'" by blast
  with s1 q f show ?thesis by (auto simp: cal_Insert_def cal_invar_def resized_def)
qed

text \<open>What follows the removal of an event from a bucket.\<close>

lemma shrink_ok:
  assumes c: "cal_core s" and q: "unat (m_qSize s) = Suc (size (cal_events s))"
  shows "\<exists>s'. ResizeDown (s\<lparr>m_qSize := m_qSize s - 1\<rparr>) = Some s' \<and> cal_invar s' \<and> cal_events s' = cal_events s \<and> lastp s' = lastp s"
proof -
  let ?s = "s\<lparr>m_qSize := m_qSize s - 1\<rparr>"
  have q': "unat (m_qSize ?s) = size (cal_events ?s)" using q by (simp add: unat_minus32)
  have "cal_core ?s" using c by (simp add: cal_core_qSize)
  from resize_ok(2) [OF this q'] obtain s' where "ResizeDown ?s = Some s'" "resized ?s s'" by blast
  with q' show ?thesis by (auto simp: cal_invar_def resized_def)
qed

lemma cal_RemoveNext_ok:
  assumes inv: "cal_invar s" and ne: "cal_events s \<noteq> {#}"
  shows "\<exists>e s'. cal_RemoveNext s = Some (e, s') \<and> cal_PeekNext nullptr s = Some e \<and> cal_invar s' \<and>
    cal_events s = add_mset e (cal_events s') \<and> (\<forall>x \<in># cal_events s'. ev_rank e < ev_rank x) \<and> lastp s' = tsn e"
proof -
  have c: "cal_core s" and q: "unat (m_qSize s) = size (cal_events s)" using inv by (simp_all add: cal_invar_def)
  have q0: "m_qSize s \<noteq> 0" using q ne by auto
  from DoRemoveNext_ok [OF c q0 ne] obtain e s1 where
    s1: "cal_DoRemoveNext s = Some (e, s1)" "cal_core s1" "cal_events s = add_mset e (cal_events s1)"
      "\<forall>x \<in># cal_events s1. ev_rank e < ev_rank x" "same_dims s s1" "lastp s1 = tsn e" by blast
  have "unat (m_qSize s1) = Suc (size (cal_events s1))" using q s1(3,5) by (simp add: same_dims_def)
  from shrink_ok [OF s1(2) this] obtain s' where
    "ResizeDown (s1\<lparr>m_qSize := m_qSize s1 - 1\<rparr>) = Some s'" "cal_invar s'" "cal_events s' = cal_events s1" "lastp s' = lastp s1" by blast
  with s1 q0 PeekNext_ok [OF c q0 ne s1(1)] show ?thesis by (simp add: cal_RemoveNext_def cal_IsEmpty_def)
qed

lemma bucket_remove_member:
  "e \<in> set b \<Longrightarrow> distinct (map uid b) \<Longrightarrow> bucket_remove e b = Some (remove1 e b)"
proof (induction b)
  case (Cons i b)
  show ?case
  proof (cases "e = i")
    case False
    with Cons.prems have "uid i \<noteq> uid e" by (auto simp: image_iff)
    with False Cons show ?thesis by auto
  qed simp
qed simp

lemma bucket_remove_fresh: "uid e \<notin> uid ` set b \<Longrightarrow> bucket_remove e b = None"
  by (induction b) auto

lemma bucket_ok_remove1: "bucket_ok bwd b \<Longrightarrow> bucket_ok bwd (remove1 e b)"
proof -
  have 1: "in_order (remove1 e l)" if "in_order l" for l :: "'a event list"
    using that by (induction l) (auto dest: set_remove1_subset [THEN subsetD])
  have 2: "in_order (rev (remove1 e l))" if "in_order (rev l)" for l :: "'a event list"
    using that by (induction l) (auto simp: sorted_wrt_append dest: set_remove1_subset [THEN subsetD])
  assume "bucket_ok bwd b"
  then show ?thesis using 1 [of b] 2 [of b] by (cases bwd) (simp_all add: bucket_ok_def)
qed

lemma cal_Remove_ok:
  assumes inv: "cal_invar s" and e: "e \<in># cal_events s"
  shows "\<exists>s'. cal_Remove e s = Some s' \<and> cal_invar s' \<and> cal_events s' = cal_events s - {#e#} \<and> lastp s' = lastp s"
proof -
  have c: "cal_core s" and q: "unat (m_qSize s) = size (cal_events s)" using inv by (simp_all add: cal_invar_def)
  then have b: "buckets_ok (lastp s) s" and p: "pointer_ok s" and sh: "shape s" by (simp_all add: cal_core_def buckets_ok_def)
  let ?i = "tsn e div wid s mod nbk s"
  have i: "?i < nbk s" "?i < length (m_buckets s)" using mod_nbk [OF sh] shape_bounds(4) [OF sh] by simp_all
  obtain j where j: "j < nbk s" "e \<in> set (m_buckets s ! j)"
    using e shape_bounds(4) [OF sh] by (auto simp: cal_events_def in_set_conv_nth) metis
  then have "j = ?i" using b by (auto simp: buckets_ok_def in_day_def)
  with j have m: "e \<in> set (m_buckets s ! ?i)" by simp
  let ?b = "remove1 e (m_buckets s ! ?i)"
  let ?s = "s\<lparr>m_buckets := (m_buckets s)[?i := ?b]\<rparr>"
  obtain M where M: "cal_events s = mset (m_buckets s ! ?i) + M" "cal_events ?s = mset ?b + M"
    using cal_events_update [OF i(2)] by metis
  then have ev: "cal_events s = add_mset e (cal_events ?s)" using m by simp
  have d: "distinct (map uid (m_buckets s ! ?i))"
    using b i(2) by (auto simp: buckets_ok_def map_concat distinct_concat_iff)
  have "mset (map uid (concat (m_buckets s))) = mset (uid e # map uid (concat (m_buckets ?s)))"
    using ev by (simp add: cal_events_def)
  then have u: "distinct (map uid (concat (m_buckets ?s)))"
    using b unfolding buckets_ok_def by (metis distinct.simps(2) mset_eq_imp_distinct_iff)
  have "\<forall>j < nbk s. bucket_ok (m_reverse s) (m_buckets ?s ! j) \<and> (\<forall>x \<in> set (m_buckets ?s ! j). in_day (wid s) (nbk s) j x)"
    using b i bucket_ok_remove1 by (auto simp: buckets_ok_def nth_list_update dest: set_remove1_subset [THEN subsetD])
  moreover have "shape ?s" using sh by (simp add: shape_def)
  ultimately have c': "cal_core ?s" using b p u ev by (simp add: cal_core_def buckets_ok_def pointer_ok_def)
  have q': "unat (m_qSize ?s) = Suc (size (cal_events ?s))" using q ev by simp
  have "m_qSize s \<noteq> 0" using q' by auto
  moreover obtain s' where "ResizeDown (?s\<lparr>m_qSize := m_qSize ?s - 1\<rparr>) = Some s'" "cal_invar s'" "cal_events s' = cal_events ?s" "lastp s' = lastp ?s"
    using shrink_ok [OF c' q'] by blast
  ultimately show ?thesis using ev bucket_remove_member [OF m d]
    by (simp add: cal_Remove_def cal_IsEmpty_def cal_Hash_nat [OF sh] bucket_at_nat [OF sh] set_bucket_def unat_bucket [OF sh])
qed

lemma cal_Remove_absent:
  assumes "cal_invar s" "fresh e (cal_events s)"
  shows "cal_Remove e s = None"
proof -
  have sh: "shape s" using assms(1) by (simp add: cal_invar_def cal_core_def buckets_ok_def)
  have "uid e \<notin> uid ` set (m_buckets s ! (tsn e div wid s mod nbk s))"
    using assms(2) shape_bounds(4) [OF sh] mod_nbk [OF sh, of "tsn e div wid s"] by (auto simp: fresh_def cal_events_def image_iff)
  then show ?thesis
    by (simp add: cal_Remove_def cal_Hash_nat [OF sh] bucket_at_nat [OF sh] bucket_remove_fresh)
qed

lemma cal_new_invar: "cal_invar (cal_new bwd :: 'i calendar)"
proof -
  let ?c = "cal_new bwd :: 'i calendar"
  have n: "nbk ?c = 2 ^ 1" "wid ?c = 1" by (simp_all add: cal_new_def)
  have b: "m_buckets ?c = replicate 2 []" by (simp add: cal_new_def numeral_2_eq_2)
  have "shape ?c" using n unfolding shape_def by (auto simp: b cal_end_def intro: exI [of _ 1])
  then have "buckets_ok 0 ?c"
    using n concat_nils [of 2] by (simp add: buckets_ok_def b bucket_ok_def cal_events_def)
  then show ?thesis
    by (simp add: cal_invar_def cal_core_def pointer_ok_def) (simp add: cal_new_def cal_events_def cal_end_def)
qed

text \<open>The calendar is a scheduler for clients that keep to the order of time.\<close>

interpretation csched: timed_removing_scheduler "cal_ops nullptr" "cal_new bwd" cal_invar cal_events "\<lambda>s. lastp s" tsn cal_end 4294967295
  for nullptr bwd
proof unfold_locales
  show "cal_invar (cal_new bwd)" by (rule cal_new_invar)
  show "cal_events (cal_new bwd) = {#}" "lastp (cal_new bwd) = 0" by (simp_all add: cal_new_def cal_events_def)
next
  fix s :: "'a calendar"
  assume "cal_invar s" "cal_events s = {#}"
  then have "m_qSize s = 0" by (simp add: cal_invar_def unat_eq_zero)
  then show "RemoveNext (cal_ops nullptr) s = None" by (simp add: cal_ops_def cal_RemoveNext_def cal_IsEmpty_def)
next
  fix s :: "'a calendar"
  assume "cal_invar s" "cal_events s \<noteq> {#}"
  from cal_RemoveNext_ok [OF this, of nullptr]
  show "\<exists>e s'. RemoveNext (cal_ops nullptr) s = Some (e, s') \<and> PeekNext (cal_ops nullptr) s = Some e \<and> cal_invar s' \<and>
      cal_events s = add_mset e (cal_events s') \<and> (\<forall>x \<in># cal_events s'. ev_rank e < ev_rank x) \<and> lastp s' \<le> tsn e"
    by (auto simp: cal_ops_def)
qed (simp_all add: cal_ops_def cal_Insert_ok cal_Remove_ok cal_Remove_absent)

section \<open>The calendar among the schedulers\<close>

text \<open>
  The calendar in the place of the other schedulers. The simulator never schedules an event before the
  current time, which is the time of the last event taken out.
\<close>

text \<open>
  C7. For a client that keeps to the order of time and schedules nothing at or after \<open>2 ^ 46\<close> ticks, the
  calendar, with buckets in either order, returns the same events in the same order as the sorted list,
  for every sequence of insertions, removals and removals of the next event, through every change of
  the number of buckets and of their width.
\<close>

theorem calendar_agrees:
  assumes "ids_ok cs" "causal tsn cal_end 0 [] cs" "length cs < 4294967295"
  shows "run_calls (cal_ops nullptr) cs (cal_new bwd) = run_calls list_ops cs []"
  using assms by (intro csched.new_refines_list_remove) simp_all

text \<open>Ten insertions, which double the buckets twice, a removal, and then the queue is emptied.\<close>

definition busy_calls :: "unit call list" where
  "busy_calls =
     map CInsert [ev_at 7 4, ev_at 100 5, ev_at 7 6, ev_at 3 7, ev_at 41 8, ev_at 1000000 9, ev_at 42 10, ev_at 5 11,
       ev_at 9 12, ev_at 3 13] @ [CRemove (ev_at 42 10), CNext, CNext, CInsert (ev_at 3 14)] @ [CNext, CNext, CNext, CNext, CNext, CNext, CNext, CNext]"

lemma busy_list:
  "run_calls list_ops busy_calls [] =
     Some [ev_at 3 7, ev_at 3 13, ev_at 3 14, ev_at 5 11, ev_at 7 4, ev_at 7 6, ev_at 9 12, ev_at 41 8, ev_at 100 5, ev_at 1000000 9]"
  by code_simp

lemma busy_ok: "ids_ok busy_calls" "causal tsn cal_end 0 [] busy_calls"
proof -
  show "ids_ok busy_calls" by (simp add: busy_calls_def ev_at_def ids_ok_def)
  show "causal tsn cal_end 0 [] busy_calls"
    by (simp add: busy_calls_def ev_at_def list_RemoveNext_def key_lt_def cal_end_def)
qed

theorem calendar_agrees_witness:
  "run_calls (cal_ops ()) busy_calls (cal_new True) =
     Some [ev_at 3 7, ev_at 3 13, ev_at 3 14, ev_at 5 11, ev_at 7 4, ev_at 7 6, ev_at 9 12, ev_at 41 8, ev_at 100 5, ev_at 1000000 9]"
  using calendar_agrees [OF busy_ok, of "()" True] busy_list by (simp add: busy_calls_def)

end
