(* ===== verification/SimCore.thy ===== *)
theory SimCore
  imports SchedEquiv
begin

text \<open>
  \<open>DefaultSimulatorImpl\<close> (\<open>core/model/default-simulator-impl.cc\<close>), the event loop, over the record of
  operations of its scheduler. An \<open>EventImpl\<close> is a value of type \<open>'i\<close>; the only field of it the
  loop reads is its cancel flag, kept here as the set of cancelled implementations. What
  \<open>EventImpl::Notify\<close> does is a parameter of the definitions that reach it. Reference counts and the
  mutex around the list of foreign events are not modelled; the call that finds itself on another
  thread is a flag of \<open>ScheduleWithContext\<close>.
\<close>

section \<open>Time and the state\<close>

text \<open>\<open>Time\<close> is a signed 64-bit count of time steps; the sum of two is undefined when it overflows.\<close>

definition time_add :: "int \<Rightarrow> int \<Rightarrow> int option" where
  "time_add a b = (if - (2 ^ 63) \<le> a + b \<and> a + b < 2 ^ 63 then Some (a + b) else None)"

definition IsPositive :: "int \<Rightarrow> bool" where
  "IsPositive t \<longleftrightarrow> t \<ge> 0"

record 'i event_id =
  m_eventImpl :: "'i option"
  id_ts :: uint64
  id_context :: uint32
  id_uid :: uint32

definition id_eq :: "'i event_id \<Rightarrow> 'i event_id \<Rightarrow> bool" where
  "id_eq a b \<longleftrightarrow> id_uid a = id_uid b \<and> id_context a = id_context b \<and> id_ts a = id_ts b \<and>
     m_eventImpl a = m_eventImpl b"

record 'i foreign_event =
  context_of :: uint32
  timestamp :: uint64
  foreign_impl :: 'i

record ('s, 'i) sim =
  m_eventsWithContext :: "'i foreign_event list"
  m_eventsWithContextEmpty :: bool
  m_destroyEvents :: "'i event_id list"
  m_stop :: bool
  m_events :: 's
  next_uid :: uint32
  m_currentUid :: uint32
  m_currentTs :: uint64
  m_currentContext :: uint32
  m_eventCount :: uint64
  m_unscheduledEvents :: int
  m_cancelled :: "'i set"

definition UID_INVALID :: uint32 where "UID_INVALID = 0"
definition UID_DESTROY :: uint32 where "UID_DESTROY = 2"
definition UID_VALID :: uint32 where "UID_VALID = 4"
definition NO_CONTEXT :: uint32 where "NO_CONTEXT = 0xffffffff"

definition new_sim :: "'s \<Rightarrow> ('s, 'i) sim" where
  "new_sim sched =
     \<lparr>m_eventsWithContext = [], m_eventsWithContextEmpty = True, m_destroyEvents = [],
      m_stop = False, m_events = sched, next_uid = UID_VALID, m_currentUid = UID_INVALID,
      m_currentTs = 0, m_currentContext = NO_CONTEXT, m_eventCount = 0, m_unscheduledEvents = 0,
      m_cancelled = {}\<rparr>"

section \<open>Scheduling\<close>

text \<open>The statements that \<open>Schedule\<close>, \<open>ScheduleWithContext\<close> and \<open>ProcessEventsWithContext\<close> share.\<close>

definition enqueue ::
  "('s, 'i) sched_ops \<Rightarrow> uint64 \<Rightarrow> uint32 \<Rightarrow> 'i \<Rightarrow> ('s, 'i) sim \<Rightarrow> ('i event_id \<times> ('s, 'i) sim) option" where
  "enqueue ops ts ctx event st =
     (let ev = \<lparr>impl = event, key = \<lparr>m_ts = ts, m_uid = next_uid st, m_context = ctx\<rparr>\<rparr> in
      do {
        q \<leftarrow> Insert ops ev (m_events st);
        Some (\<lparr>m_eventImpl = Some event, id_ts = ts, id_context = ctx, id_uid = next_uid st\<rparr>,
          st\<lparr>next_uid := next_uid st + 1, m_unscheduledEvents := m_unscheduledEvents st + 1,
             m_events := q\<rparr>)
      })"

definition Schedule ::
  "('s, 'i) sched_ops \<Rightarrow> int \<Rightarrow> 'i \<Rightarrow> ('s, 'i) sim \<Rightarrow> ('i event_id \<times> ('s, 'i) sim) option" where
  "Schedule ops delay event st =
     do {
       ns_assert (IsPositive delay);
       tAbsolute \<leftarrow> time_add delay (sint (m_currentTs st));
       enqueue ops (of_int tAbsolute) (m_currentContext st) event st
     }"

definition ScheduleWithContext ::
  "('s, 'i) sched_ops \<Rightarrow> bool \<Rightarrow> uint32 \<Rightarrow> int \<Rightarrow> 'i \<Rightarrow> ('s, 'i) sim \<Rightarrow> ('s, 'i) sim option" where
  "ScheduleWithContext ops mainThread ctx delay event st =
     (if mainThread
      then do {
        tAbsolute \<leftarrow> time_add delay (sint (m_currentTs st));
        map_option snd (enqueue ops (of_int tAbsolute) ctx event st)
      }
      else
        let ev = \<lparr>context_of = ctx, timestamp = of_int delay, foreign_impl = event\<rparr> in
        Some (st\<lparr>m_eventsWithContext := m_eventsWithContext st @ [ev],
                 m_eventsWithContextEmpty := False\<rparr>))"

definition ScheduleNow ::
  "('s, 'i) sched_ops \<Rightarrow> 'i \<Rightarrow> ('s, 'i) sim \<Rightarrow> ('i event_id \<times> ('s, 'i) sim) option" where
  "ScheduleNow ops event st = Schedule ops 0 event st"

definition ScheduleDestroy :: "'i \<Rightarrow> ('s, 'i) sim \<Rightarrow> 'i event_id \<times> ('s, 'i) sim" where
  "ScheduleDestroy event st =
     (let i = \<lparr>m_eventImpl = Some event, id_ts = m_currentTs st, id_context = 0xffffffff, id_uid = 2\<rparr>
      in (i, st\<lparr>m_destroyEvents := m_destroyEvents st @ [i], next_uid := next_uid st + 1\<rparr>))"

fun move_foreign ::
  "('s, 'i) sched_ops \<Rightarrow> 'i foreign_event list \<Rightarrow> ('s, 'i) sim \<Rightarrow> ('s, 'i) sim option" where
  "move_foreign ops [] st = Some st"
| "move_foreign ops (e # es) st =
     do {
       (_, st1) \<leftarrow> enqueue ops (m_currentTs st + timestamp e) (context_of e) (foreign_impl e) st;
       move_foreign ops es st1
     }"

definition ProcessEventsWithContext ::
  "('s, 'i) sched_ops \<Rightarrow> ('s, 'i) sim \<Rightarrow> ('s, 'i) sim option" where
  "ProcessEventsWithContext ops st =
     (if m_eventsWithContextEmpty st then Some st
      else move_foreign ops (m_eventsWithContext st)
             (st\<lparr>m_eventsWithContext := [], m_eventsWithContextEmpty := True\<rparr>))"

section \<open>Expiry, cancelling, removing\<close>

definition impl_cancelled :: "'i event_id \<Rightarrow> ('s, 'i) sim \<Rightarrow> bool" where
  "impl_cancelled i st =
     (case m_eventImpl i of None \<Rightarrow> True | Some e \<Rightarrow> e \<in> m_cancelled st)"

definition IsExpired :: "'i event_id \<Rightarrow> ('s, 'i) sim \<Rightarrow> bool" where
  "IsExpired i st =
     (if id_uid i = UID_DESTROY
      then if impl_cancelled i st then True
           else if list_ex (\<lambda>d. id_eq d i) (m_destroyEvents st) then False
           else True
      else m_eventImpl i = None \<or> id_ts i < m_currentTs st \<or>
        (id_ts i = m_currentTs st \<and> id_uid i \<le> m_currentUid st) \<or> impl_cancelled i st)"

definition GetDelayLeft :: "'i event_id \<Rightarrow> ('s, 'i) sim \<Rightarrow> int" where
  "GetDelayLeft i st = (if IsExpired i st then 0 else sint (id_ts i - m_currentTs st))"

definition Cancel :: "'i event_id \<Rightarrow> ('s, 'i) sim \<Rightarrow> ('s, 'i) sim" where
  "Cancel i st =
     (if \<not> IsExpired i st
      then st\<lparr>m_cancelled := insert (the (m_eventImpl i)) (m_cancelled st)\<rparr>
      else st)"

fun erase_first :: "('a \<Rightarrow> bool) \<Rightarrow> 'a list \<Rightarrow> 'a list" where
  "erase_first p [] = []"
| "erase_first p (x # xs) = (if p x then xs else x # erase_first p xs)"

definition sim_Remove ::
  "('s, 'i) sched_ops \<Rightarrow> 'i event_id \<Rightarrow> ('s, 'i) sim \<Rightarrow> ('s, 'i) sim option" where
  "sim_Remove ops i st =
     (if id_uid i = UID_DESTROY
      then Some (st\<lparr>m_destroyEvents := erase_first (\<lambda>d. id_eq d i) (m_destroyEvents st)\<rparr>)
      else if IsExpired i st then Some st
      else case m_eventImpl i of None \<Rightarrow> None
      | Some e \<Rightarrow>
          do {
            q \<leftarrow> Remove ops \<lparr>impl = e, key = \<lparr>m_ts = id_ts i, m_uid = id_uid i,
              m_context = id_context i\<rparr>\<rparr> (m_events st);
            Some (st\<lparr>m_events := q, m_cancelled := insert e (m_cancelled st),
              m_unscheduledEvents := m_unscheduledEvents st - 1\<rparr>)
          })"

section \<open>The loop\<close>

definition Now :: "('s, 'i) sim \<Rightarrow> int" where
  "Now st = sint (m_currentTs st)"

definition IsFinished :: "('s, 'i) sched_ops \<Rightarrow> ('s, 'i) sim \<Rightarrow> bool" where
  "IsFinished ops st \<longleftrightarrow> IsEmpty ops (m_events st) \<or> m_stop st"

definition Stop :: "('s, 'i) sim \<Rightarrow> ('s, 'i) sim" where
  "Stop st = st\<lparr>m_stop := True\<rparr>"

definition Invoke ::
  "('i \<Rightarrow> ('s, 'i) sim \<Rightarrow> ('s, 'i) sim option) \<Rightarrow> 'i \<Rightarrow> ('s, 'i) sim \<Rightarrow> ('s, 'i) sim option" where
  "Invoke Notify e st = (if e \<notin> m_cancelled st then Notify e st else Some st)"

text \<open>\<open>ProcessOneEvent\<close> up to \<open>Invoke\<close>: the event that is due and the state with its clock.\<close>

definition next_event :: "('s, 'i) sched_ops \<Rightarrow> ('s, 'i) sim \<Rightarrow> ('i event \<times> ('s, 'i) sim) option" where
  "next_event ops st =
     do {
       (next_ev, q) \<leftarrow> RemoveNext ops (m_events st);
       ns_assert (m_ts (key next_ev) \<ge> m_currentTs st);
       Some (next_ev,
         st\<lparr>m_events := q, m_unscheduledEvents := m_unscheduledEvents st - 1,
            m_eventCount := m_eventCount st + 1, m_currentTs := m_ts (key next_ev),
            m_currentContext := m_context (key next_ev), m_currentUid := m_uid (key next_ev)\<rparr>)
     }"

definition ProcessOneEvent ::
  "('s, 'i) sched_ops \<Rightarrow> ('i \<Rightarrow> ('s, 'i) sim \<Rightarrow> ('s, 'i) sim option) \<Rightarrow> ('s, 'i) sim \<Rightarrow>
    ('s, 'i) sim option" where
  "ProcessOneEvent ops Notify st =
     do {
       (next_ev, st1) \<leftarrow> next_event ops st;
       st2 \<leftarrow> Invoke Notify (impl next_ev) st1;
       ProcessEventsWithContext ops st2
     }"

partial_function (option) Run_loop ::
  "('s, 'i) sched_ops \<Rightarrow> ('i \<Rightarrow> ('s, 'i) sim \<Rightarrow> ('s, 'i) sim option) \<Rightarrow> ('s, 'i) sim \<Rightarrow>
    ('s, 'i) sim option" where
  "Run_loop ops Notify st =
     (if \<not> IsEmpty ops (m_events st) \<and> \<not> m_stop st
      then Option.bind (ProcessOneEvent ops Notify st) (Run_loop ops Notify)
      else Some st)"

definition Run ::
  "('s, 'i) sched_ops \<Rightarrow> ('i \<Rightarrow> ('s, 'i) sim \<Rightarrow> ('s, 'i) sim option) \<Rightarrow> ('s, 'i) sim \<Rightarrow>
    ('s, 'i) sim option" where
  "Run ops Notify st =
     do {
       st1 \<leftarrow> ProcessEventsWithContext ops st;
       st2 \<leftarrow> Run_loop ops Notify (st1\<lparr>m_stop := False\<rparr>);
       ns_assert (\<not> IsEmpty ops (m_events st2) \<or> m_unscheduledEvents st2 = 0);
       Some st2
     }"

text \<open>\<open>SetScheduler\<close>: the events move one by one into the new scheduler.\<close>

partial_function (option) move_events ::
  "('s, 'i) sched_ops \<Rightarrow> ('t, 'i) sched_ops \<Rightarrow> 's \<Rightarrow> 't \<Rightarrow> 't option" where
  "move_events ops ops' s t =
     (if IsEmpty ops s then Some t
      else do {
        (next_ev, s1) \<leftarrow> RemoveNext ops s;
        t1 \<leftarrow> Insert ops' next_ev t;
        move_events ops ops' s1 t1
      })"

definition SetScheduler ::
  "('s, 'i) sched_ops \<Rightarrow> ('t, 'i) sched_ops \<Rightarrow> ('s, 'i) sim \<Rightarrow> 't \<Rightarrow> 't option" where
  "SetScheduler ops ops' st new_scheduler = move_events ops ops' (m_events st) new_scheduler"

text \<open>\<open>Destroy\<close>: the events to run when the simulator is torn down, each taken off the list first.\<close>

partial_function (option) Destroy ::
  "('i \<Rightarrow> ('s, 'i) sim \<Rightarrow> ('s, 'i) sim option) \<Rightarrow> ('s, 'i) sim \<Rightarrow> ('s, 'i) sim option" where
  "Destroy Notify st =
     (case m_destroyEvents st of
        [] \<Rightarrow> Some st
      | d # ds \<Rightarrow>
          (case m_eventImpl d of None \<Rightarrow> None
           | Some e \<Rightarrow>
               let st1 = st\<lparr>m_destroyEvents := ds\<rparr> in
               if e \<notin> m_cancelled st1
               then Option.bind (Invoke Notify e st1) (Destroy Notify)
               else Destroy Notify st1))"

end
