(* ===== verification/SimInv.thy ===== *)
theory SimInv
  imports SimCore
begin

text \<open>
  The event loop never goes back in time. A run is a sequence of steps, each the start of the next
  due event or one call of the simulator's interface, made by the event that runs or before the
  loop starts. The invariant ties the queue to the clock, the counter of unique ids and the count
  of unscheduled events; it is proved once for every scheduler of the locale.
\<close>

section \<open>Calls and steps\<close>

datatype 'i api =
    ASchedule int 'i
  | AScheduleWithContext uint32 int 'i
  | AScheduleNow 'i
  | AScheduleDestroy 'i
  | ACancel "'i event_id"
  | ARemove "'i event_id"
  | AStop

fun call_api :: "('s, 'i) sched_ops \<Rightarrow> 'i api \<Rightarrow> ('s, 'i) sim \<Rightarrow> ('s, 'i) sim option" where
  "call_api ops (ASchedule d e) st = map_option snd (Schedule ops d e st)"
| "call_api ops (AScheduleWithContext c d e) st = ScheduleWithContext ops True c d e st"
| "call_api ops (AScheduleNow e) st = map_option snd (ScheduleNow ops e st)"
| "call_api ops (AScheduleDestroy e) st = Some (snd (ScheduleDestroy e st))"
| "call_api ops (ACancel i) st = Some (Cancel i st)"
| "call_api ops (ARemove i) st = sim_Remove ops i st"
| "call_api ops AStop st = Some (Stop st)"

fun call_apis :: "('s, 'i) sched_ops \<Rightarrow> 'i api list \<Rightarrow> ('s, 'i) sim \<Rightarrow> ('s, 'i) sim option" where
  "call_apis ops [] st = Some st"
| "call_apis ops (a # as) st = Option.bind (call_api ops a st) (call_apis ops as)"

datatype 'i step = Begin | Call "'i api"

text \<open>The events that began, in the order in which they did, and the state after the steps.\<close>

fun exec :: "('s, 'i) sched_ops \<Rightarrow> 'i step list \<Rightarrow> ('s, 'i) sim \<Rightarrow> ('i event list \<times> ('s, 'i) sim) option" where
  "exec ops [] st = Some ([], st)"
| "exec ops (Begin # steps) st =
     do {
       (e, st1) \<leftarrow> next_event ops st;
       (es, st2) \<leftarrow> exec ops steps st1;
       Some (e # es, st2)
     }"
| "exec ops (Call a # steps) st = do { st1 \<leftarrow> call_api ops a st; exec ops steps st1 }"

text \<open>\<open>Schedule\<close> checks the sign of a delay itself, \<open>ScheduleWithContext\<close> leaves it to its callers.\<close>

fun api_ok :: "'i api \<Rightarrow> bool" where
  "api_ok (AScheduleWithContext c d e) \<longleftrightarrow> 0 \<le> d"
| "api_ok _ \<longleftrightarrow> True"

fun step_ok :: "'i step \<Rightarrow> bool" where
  "step_ok Begin \<longleftrightarrow> True"
| "step_ok (Call a) \<longleftrightarrow> api_ok a"

section \<open>The invariant\<close>

definition current_rank :: "('s, 'i) sim \<Rightarrow> nat" where
  "current_rank st = unat (m_currentTs st) * 2 ^ 32 + unat (m_currentUid st)"

definition sim_inv :: "('s \<Rightarrow> bool) \<Rightarrow> ('s \<Rightarrow> 'i event multiset) \<Rightarrow> ('s, 'i) sim \<Rightarrow> bool" where
  "sim_inv invar events st \<longleftrightarrow>
     invar (m_events st) \<and>
     (\<forall>e \<in># events (m_events st). uid e < next_uid st \<and> current_rank st < ev_rank e \<and>
        unat (m_ts (key e)) < 2 ^ 63) \<and>
     m_currentUid st < next_uid st \<and>
     unat (m_currentTs st) < 2 ^ 63 \<and>
     m_unscheduledEvents st = int (size (events (m_events st))) \<and>
     m_eventsWithContext st = [] \<and> m_eventsWithContextEmpty st"

text \<open>Room for \<open>n\<close> more unique ids before the 32-bit counter wraps.\<close>

definition room :: "nat \<Rightarrow> ('s, 'i) sim \<Rightarrow> bool" where
  "room n st \<longleftrightarrow> unat (next_uid st) + n < 4294967296"

lemma room_Suc: "room (Suc n) st \<Longrightarrow> unat (next_uid st + 1) = Suc (unat (next_uid st))"
  by (simp add: room_def unat_plus32)

lemma time_add_word:
  assumes "time_add d (sint (t :: uint64)) = Some a" "0 \<le> d" "unat t < 2 ^ 63"
  shows "unat (of_int a :: uint64) < 2 ^ 63 \<and> unat t \<le> unat (of_int a :: uint64)"
proof -
  have a: "a = d + int (unat t)" "a < 2 ^ 63"
    using assms(1) unfolding time_add_def sint_uint64 [OF assms(3)] by (auto split: if_splits)
  then have "unat (of_int a :: uint64) = nat a"
    using assms(2) by (intro unat_of_int64) simp_all
  with a assms(2) show ?thesis by (simp add: nat_less_iff le_nat_iff)
qed

context scheduler
begin

lemma enqueue_inv:
  assumes inv: "sim_inv invar events st" and r: "room (Suc n) st"
    and ts: "unat ts < 2 ^ 63" "unat (m_currentTs st) \<le> unat ts"
  shows "\<exists>i st'. enqueue ops ts ctx e st = Some (i, st') \<and> sim_inv invar events st' \<and> room n st' \<and>
    current_rank st' = current_rank st \<and> m_currentTs st' = m_currentTs st"
proof -
  let ?e = "\<lparr>impl = e, key = \<lparr>m_ts = ts, m_uid = next_uid st, m_context = ctx\<rparr>\<rparr>"
  have "fresh ?e (events (m_events st))"
    using inv by (auto simp: sim_inv_def fresh_def)
  then obtain q where q: "Insert ops ?e (m_events st) = Some q" "invar q"
      "events q = add_mset ?e (events (m_events st))"
    using insert_ok [of "m_events st" ?e] inv by (auto simp: sim_inv_def)
  have n: "next_uid st < next_uid st + 1"
    using room_Suc [OF r] by (simp add: word_less_nat_alt)
  have c: "current_rank st < ev_rank ?e"
    using inv ts(2) by (auto simp: current_rank_def rank_def sim_inv_def word_less_nat_alt
        intro: add_le_less_mono)
  show ?thesis
    using q inv ts(1) n c r room_Suc [OF r]
    by (auto simp: enqueue_def Let_def sim_inv_def current_rank_def room_def
        intro: less_trans)
qed


lemma Schedule_inv:
  assumes "sim_inv invar events st" "room (Suc n) st" "Schedule ops d e st = Some (i, st')"
  shows "sim_inv invar events st' \<and> room n st' \<and> current_rank st' = current_rank st"
proof -
  from assms(3) obtain a where a: "0 \<le> d" "time_add d (sint (m_currentTs st)) = Some a"
      "enqueue ops (of_int a) (m_currentContext st) e st = Some (i, st')"
    by (auto simp: Schedule_def IsPositive_def split: if_splits Option.bind_splits)
  moreover have "unat (m_currentTs st) < 2 ^ 63"
    using assms(1) by (simp add: sim_inv_def)
  ultimately show ?thesis
    using enqueue_inv [OF assms(1,2), of "of_int a" "m_currentContext st" e] time_add_word by fastforce
qed

lemma ScheduleWithContext_inv:
  assumes "sim_inv invar events st" "room (Suc n) st" "0 \<le> d"
    and "ScheduleWithContext ops True c d e st = Some st'"
  shows "sim_inv invar events st' \<and> room n st' \<and> current_rank st' = current_rank st"
proof -
  from assms(4) obtain a i where a: "time_add d (sint (m_currentTs st)) = Some a"
      "enqueue ops (of_int a) c e st = Some (i, st')"
    by (auto simp: ScheduleWithContext_def split: if_splits Option.bind_splits)
  moreover have "unat (m_currentTs st) < 2 ^ 63"
    using assms(1) by (simp add: sim_inv_def)
  ultimately show ?thesis
    using enqueue_inv [OF assms(1,2), of "of_int a" c e] time_add_word assms(3) by fastforce
qed

lemma next_event_inv:
  assumes "sim_inv invar events st" "events (m_events st) \<noteq> {#}"
  shows "\<exists>e st'. next_event ops st = Some (e, st') \<and> sim_inv invar events st' \<and>
    next_uid st' = next_uid st \<and> current_rank st < ev_rank e \<and> current_rank st' = ev_rank e \<and>
    events (m_events st) = add_mset e (events (m_events st'))"
proof -
  obtain e q where q: "RemoveNext ops (m_events st) = Some (e, q)" "invar q"
      "events (m_events st) = add_mset e (events q)" "\<forall>x \<in># events q. ev_rank e < ev_rank x"
    using remove_next [of "m_events st"] assms by (auto simp: sim_inv_def)
  have e: "uid e < next_uid st" "current_rank st < ev_rank e" "unat (m_ts (key e)) < 2 ^ 63"
    using assms(1) q(3) by (auto simp: sim_inv_def)
  have "m_currentTs st \<le> m_ts (key e)"
  proof (rule ccontr)
    assume "\<not> ?thesis"
    then have "unat (m_ts (key e)) + 1 \<le> unat (m_currentTs st)"
      by (simp add: word_le_nat_alt)
    then have "ev_rank e < current_rank st"
      using uid_bound [of "key e"] by (simp add: rank_def current_rank_def)
    with e(2) show False by simp
  qed
  let ?st = "st\<lparr>m_events := q, m_unscheduledEvents := m_unscheduledEvents st - 1,
    m_eventCount := m_eventCount st + 1, m_currentTs := m_ts (key e),
    m_currentContext := m_context (key e), m_currentUid := uid e\<rparr>"
  have "next_event ops st = Some (e, ?st)"
    using q(1) \<open>m_currentTs st \<le> m_ts (key e)\<close> by (simp add: next_event_def)
  moreover have r: "current_rank ?st = ev_rank e"
    by (simp add: current_rank_def rank_def)
  moreover have "sim_inv invar events ?st"
    using q e assms(1) unfolding sim_inv_def r by simp
  ultimately show ?thesis
    using q(3) e(2) by (intro exI [of _ e] exI [of _ ?st]) simp
qed

lemma next_event_empty:
  "sim_inv invar events st \<Longrightarrow> events (m_events st) = {#} \<Longrightarrow> next_event ops st = None"
  using remove_none [of "m_events st"] by (simp add: next_event_def sim_inv_def)

end

context removing_scheduler
begin

lemma sim_Remove_inv:
  assumes "sim_inv invar events st" "sim_Remove ops i st = Some st'"
  shows "sim_inv invar events st' \<and> next_uid st' = next_uid st \<and> current_rank st' = current_rank st"
proof (cases "id_uid i = UID_DESTROY \<or> IsExpired i st")
  case True
  with assms show ?thesis
    by (auto simp: sim_Remove_def sim_inv_def current_rank_def split: if_splits)
next
  case False
  with assms(2) obtain e q where q: "Remove ops \<lparr>impl = e, key = \<lparr>m_ts = id_ts i,
        m_uid = id_uid i, m_context = id_context i\<rparr>\<rparr> (m_events st) = Some q"
      "st' = st\<lparr>m_events := q, m_cancelled := insert e (m_cancelled st),
              m_unscheduledEvents := m_unscheduledEvents st - 1\<rparr>"
    by (auto simp: sim_Remove_def split: option.splits Option.bind_splits)
  with assms(1) obtain x where "invar q" "events (m_events st) = add_mset x (events q)"
    using remove_some [OF _ q(1)] by (auto simp: sim_inv_def)
  with q(2) assms(1) show ?thesis
    by (auto simp: sim_inv_def current_rank_def)
qed

lemma call_api_inv:
  assumes "sim_inv invar events st" "room (Suc n) st" "api_ok a" "call_api ops a st = Some st'"
  shows "sim_inv invar events st' \<and> room n st' \<and> current_rank st' = current_rank st"
proof (cases a)
  case (ASchedule d e)
  with assms(4) obtain i where "Schedule ops d e st = Some (i, st')" by auto
  from Schedule_inv [OF assms(1,2) this] show ?thesis .
next
  case (AScheduleWithContext c d e)
  with assms(3,4) have "0 \<le> d" "ScheduleWithContext ops True c d e st = Some st'" by simp_all
  from ScheduleWithContext_inv [OF assms(1,2) this] show ?thesis .
next
  case (AScheduleNow e)
  with assms(4) obtain i where "Schedule ops 0 e st = Some (i, st')" by (auto simp: ScheduleNow_def)
  from Schedule_inv [OF assms(1,2) this] show ?thesis .
next
  case (AScheduleDestroy e)
  have n: "next_uid st < next_uid st + 1"
    using room_Suc [OF assms(2)] by (simp add: word_less_nat_alt)
  have m: "u < next_uid st + 1" if "u < next_uid st" for u
    using that n by (rule order.strict_trans)
  show ?thesis using AScheduleDestroy assms room_Suc [OF assms(2)] m
    by (auto simp: ScheduleDestroy_def Let_def sim_inv_def current_rank_def room_def)
next
  case (ARemove i)
  with assms show ?thesis using sim_Remove_inv [of st i st'] by (auto simp: room_def)
next
  case (ACancel i)
  with assms show ?thesis
    by (cases "IsExpired i st") (auto simp: Cancel_def sim_inv_def current_rank_def room_def)
next
  case AStop
  with assms show ?thesis by (auto simp: Stop_def sim_inv_def current_rank_def room_def)
qed

text \<open>The events of a run begin in the order of time stamp and unique id, and the clock follows.\<close>

lemma exec_in_order:
  assumes "sim_inv invar events st" "room (length steps) st" "list_all step_ok steps"
    and "exec ops steps st = Some (es, st')"
  shows "sim_inv invar events st' \<and> in_order es \<and> (\<forall>e \<in> set es. current_rank st < ev_rank e \<and> ev_rank e \<le> current_rank st') \<and>
    current_rank st \<le> current_rank st'"
  using assms
proof (induction steps arbitrary: st es)
  case Nil
  then show ?case by simp
next
  case (Cons s steps)
  show ?case
  proof (cases s)
    case Begin
    with Cons.prems have "events (m_events st) \<noteq> {#}"
      using next_event_empty by force
    with Cons.prems(1) obtain e st1 where n: "next_event ops st = Some (e, st1)"
        "sim_inv invar events st1" "next_uid st1 = next_uid st" "current_rank st < ev_rank e"
        "current_rank st1 = ev_rank e"
      using next_event_inv by blast
    with Begin Cons.prems(4) obtain es1 where "exec ops steps st1 = Some (es1, st')" "es = e # es1"
      by (auto split: Option.bind_splits)
    with n Cons.IH [of st1 es1] Cons.prems show ?thesis
      by (fastforce simp: room_def)
  next
    case (Call a)
    with Cons.prems obtain st1 where "call_api ops a st = Some st1" "exec ops steps st1 = Some (es, st')"
      by (auto split: Option.bind_splits)
    with Call Cons.prems Cons.IH [of st1 es] call_api_inv [of st "length steps" a st1] show ?thesis
      by auto
  qed
qed

lemma new_sim_inv: "sim_inv invar events (new_sim new)"
  by (simp add: sim_inv_def new_sim_def new_ok UID_INVALID_def UID_VALID_def)

end

section \<open>The default simulator\<close>

lemma current_rank_le: "ev_rank e \<le> current_rank st \<Longrightarrow> m_ts (key e) \<le> m_currentTs st"
proof (rule ccontr)
  assume r: "ev_rank e \<le> current_rank st" and n: "\<not> ?thesis"
  have "unat (m_currentUid st) < 4294967296"
    using unsigned_less [of "m_currentUid st"] by simp
  with n have "current_rank st < ev_rank e"
    by (simp add: current_rank_def rank_def word_le_nat_alt)
  with r show False by simp
qed

lemma new_sim_room: "n < 2 ^ 32 - 4 \<Longrightarrow> room n (new_sim s)"
  by (simp add: room_def new_sim_def UID_VALID_def)

lemmas exec_map = msched.exec_in_order [OF msched.new_sim_inv new_sim_room]

text \<open>
  C8. The default simulator (map scheduler) never goes back in time: over any sequence of calls
  and event starts from a new simulator, the events begin in the order of their time stamps, and
  those with one time stamp in the order in which they were scheduled.
\<close>

theorem simulation_in_order:
  assumes "exec map_ops steps (new_sim []) = Some (es, st)"
    and "list_all step_ok steps" "length steps < 2 ^ 32 - 4"
  shows "in_order es \<and> (\<forall>e \<in> set es. m_ts (key e) \<le> m_currentTs st)"
  using exec_map [OF assms(3,2,1)] current_rank_le by blast

text \<open>
  C14. After any such sequence the two assertions of the loop hold: the next event, if there is
  one, is taken without an abort and is not in the past; and \<open>Run\<close>'s final consistency check holds,
  for an empty queue means a count of unscheduled events of zero.
\<close>

theorem simulation_never_aborts:
  assumes "exec map_ops steps (new_sim []) = Some (es, st)"
    and "list_all step_ok steps" "length steps < 2 ^ 32 - 4"
  shows "if map_IsEmpty (m_events st) then m_unscheduledEvents st = 0
    else \<exists>e st'. next_event map_ops st = Some (e, st') \<and> m_currentTs st \<le> m_currentTs st'"
proof -
  have inv: "sim_inv map_invar map_events st"
    using exec_map [OF assms(3,2,1)] by blast
  then have e: "map_IsEmpty (m_events st) \<longleftrightarrow> map_events (m_events st) = {#}"
    by (simp add: map_IsEmpty_def map_events_def)
  show ?thesis
  proof (cases "map_events (m_events st) = {#}")
    case True
    with e inv show ?thesis by (simp add: sim_inv_def)
  next
    case False
    then obtain e st' where n: "next_event map_ops st = Some (e, st')" "current_rank st < ev_rank e"
      using msched.next_event_inv [OF inv] by blast
    then have "m_currentTs st \<le> m_currentTs st'"
      by (auto simp: next_event_def split: if_splits Option.bind_splits)
    with n False e show ?thesis by auto
  qed
qed

definition example_steps :: "nat step list" where
  "example_steps =
     [Call (ASchedule 20 1), Call (ASchedule 10 2), Call (AScheduleWithContext 7 10 3), Begin,
      Call (AScheduleNow 4), Begin, Begin]"

text \<open>A run of C5 and C6: events 2, 3 and 4 begin at time 10, in the order they were scheduled.\<close>

lemma example_run:
  "\<exists>st. exec map_ops example_steps (new_sim []) = Some
    ([\<lparr>impl = 2, key = \<lparr>m_ts = 10, m_uid = 5, m_context = 0xffffffff\<rparr>\<rparr>,
      \<lparr>impl = 3, key = \<lparr>m_ts = 10, m_uid = 6, m_context = 7\<rparr>\<rparr>,
      \<lparr>impl = 4, key = \<lparr>m_ts = 10, m_uid = 7, m_context = 0xffffffff\<rparr>\<rparr>], st) \<and>
    map_IsEmpty (m_events st) = False"
  by (simp add: example_steps_def new_sim_def UID_VALID_def UID_INVALID_def NO_CONTEXT_def
      Schedule_def ScheduleNow_def ScheduleWithContext_def IsPositive_def time_add_def enqueue_def
      next_event_def map_ops_def map_Insert_def map_RemoveNext_def map_IsEmpty_def key_lt_def Let_def)

theorem simulation_in_order_witness:
  "\<exists>es st. exec map_ops example_steps (new_sim []) = Some (es, st) \<and> length es = 3 \<and>
    in_order es \<and> (\<forall>e \<in> set es. m_ts (key e) \<le> m_currentTs st)"
proof -
  have ok: "list_all step_ok example_steps" "length example_steps < 2 ^ 32 - 4"
    by (simp_all add: example_steps_def)
  from example_run obtain es st where "exec map_ops example_steps (new_sim []) = Some (es, st)"
      "length es = 3" by fastforce
  with simulation_in_order [OF _ ok] show ?thesis by blast
qed

theorem simulation_never_aborts_witness:
  "\<exists>es st e st'. exec map_ops example_steps (new_sim []) = Some (es, st) \<and>
    next_event map_ops st = Some (e, st') \<and> m_currentTs st \<le> m_currentTs st'"
proof -
  have ok: "list_all step_ok example_steps" "length example_steps < 2 ^ 32 - 4"
    by (simp_all add: example_steps_def)
  from example_run obtain es st where r: "exec map_ops example_steps (new_sim []) = Some (es, st)"
      "\<not> map_IsEmpty (m_events st)" by blast
  from simulation_never_aborts [OF r(1) ok] r show ?thesis by auto
qed

end
