(* ===== verification/SeqNum.thy ===== *)
theory SeqNum
  imports NsPrelude
begin

text \<open>
  \<open>SequenceNumber32\<close> (\<open>network/utils/sequence-number.h\<close>): a 32-bit counter with a circular order.
  The comparison operators and the signed difference are the branches of the source; the lemmas
  show that inside a window of \<open>2 ^ 31\<close> numbers they are the order and the difference of the
  offsets, which is what the TCP buffers need.
\<close>

type_synonym seq32 = uint32

definition halfMaxValue :: uint32 where
  "halfMaxValue = 2147483647"

definition seq_gt :: "seq32 \<Rightarrow> seq32 \<Rightarrow> bool" where
  "seq_gt a b \<longleftrightarrow>
     ((a > b \<and> a - b \<le> halfMaxValue) \<or> (b > a \<and> b - a > halfMaxValue))"

definition seq_le :: "seq32 \<Rightarrow> seq32 \<Rightarrow> bool" where
  "seq_le a b \<longleftrightarrow> \<not> seq_gt a b"

definition seq_ge :: "seq32 \<Rightarrow> seq32 \<Rightarrow> bool" where
  "seq_ge a b \<longleftrightarrow> seq_gt a b \<or> a = b"

definition seq_lt :: "seq32 \<Rightarrow> seq32 \<Rightarrow> bool" where
  "seq_lt a b \<longleftrightarrow> \<not> seq_gt a b \<and> a \<noteq> b"

text \<open>
  \<open>operator-\<close> of two sequence numbers. The casts \<open>static_cast<int32_t>\<close> are \<open>sint\<close>, and the
  negation is the one of the integers: for two numbers exactly \<open>2 ^ 31\<close> apart the code negates
  \<open>INT32_MIN\<close>, which C++ leaves undefined, and no lemma below speaks of that case.
\<close>

definition seq_diff :: "seq32 \<Rightarrow> seq32 \<Rightarrow> int" where
  "seq_diff a b =
     (if a > b then
        (let diff = a - b in
         if diff < halfMaxValue then sint diff
         else - sint (- 1 - a + 1 + b :: uint32))
      else
        (let diff = b - a in
         if diff < halfMaxValue then - sint diff
         else sint (- 1 - b + 1 + a :: uint32)))"

section \<open>The four branches are the two's complement difference\<close>

lemma uint32_less: "uint (x :: uint32) < 4294967296"
  using unsigned_less [of x] by simp

lemma uint32_minus:
  "uint (a - b :: uint32) = (if uint b \<le> uint a then uint a - uint b else uint a - uint b + 4294967296)"
  using uint32_less [of a] uint32_less [of b] by (simp add: uint_sub_if')

lemma sint_uint32: "sint (x :: uint32) = (if uint x < 2147483648 then uint x else uint x - 4294967296)"
proof -
  have b: "0 \<le> uint x" "uint x < 4294967296" using uint32_less [of x] by simp_all
  have s: "sint x = (uint x + 2147483648) mod 4294967296 - 2147483648"
    by (simp add: sint_uint signed_take_bit_eq_take_bit_shift take_bit_eq_mod)
  show ?thesis
  proof (cases "uint x < 2147483648")
    case True
    with b s show ?thesis by simp
  next
    case False
    with b have "(uint x + 2147483648) mod 4294967296 = uint x - 2147483648"
      using mod_pos_pos_trivial [of "uint x - 2147483648" 4294967296]
        mod_add_self2 [of "uint x - 2147483648" 4294967296] by (simp add: add.commute)
    with False s show ?thesis by simp
  qed
qed

lemma sint_uint32_swap:
  "uint (x :: uint32) \<noteq> 2147483648 \<Longrightarrow> sint (- x) = - sint x"
  using uint32_less [of x] uint32_minus [of 0 x] sint_uint32 [of x] sint_uint32 [of "- x"]
  by (cases "uint x = 0") (auto split: if_splits)

lemma uint32_half: "uint (x :: uint32) = 2147483648 \<longleftrightarrow> x = 2147483648"
  by (simp add: word_uint_eq_iff)

lemma uint_minus_flip:
  "uint (a - b :: uint32) = 2147483648 \<longleftrightarrow> uint (b - a) = 2147483648"
  using uint32_minus [of a b] uint32_minus [of b a] by (auto split: if_splits)

lemma seq_diff_sint:
  assumes "a - b \<noteq> (2147483648 :: uint32)"
  shows "seq_diff a b = sint (a - b)"
proof -
  have ab: "uint (a - b) \<noteq> 2147483648"
    using assms uint32_half [of "a - b"] by blast
  then have ba: "uint (b - a) \<noteq> 2147483648"
    by (simp add: uint_minus_flip)
  have flip: "- sint (b - a) = sint (a - b)"
    using sint_uint32_swap [OF ab] by simp
  have c1: "- 1 - a + 1 + b = b - a" and c2: "- 1 - b + 1 + a = a - b"
    by simp_all
  show ?thesis
    unfolding seq_diff_def Let_def c1 c2 flip by (simp only: if_cancel)
qed

lemma seq_gt_uint:
  "seq_gt a b \<longleftrightarrow>
     (0 < uint (a - b) \<and> uint (a - b) < 2147483648) \<or> (uint (a - b) = 2147483648 \<and> a < b)"
  using uint32_less [of a] uint32_less [of b] uint_ge_0 [of a] uint_ge_0 [of b]
    uint32_minus [of a b] uint32_minus [of b a]
  unfolding seq_gt_def halfMaxValue_def word_less_def word_le_def
  by (cases "uint a < uint b"; cases "uint b < uint a"; simp; presburger?)

section \<open>Order and difference inside a window\<close>

lemma uint_of_nat32: "n < 2 ^ 32 \<Longrightarrow> uint (of_nat n :: uint32) = int n"
  by (metis uint_nat unat_of_nat32)

lemma window_minus:
  assumes "i < 2147483648" "j < 2147483648"
  shows "uint (of_nat i - of_nat j :: uint32) =
    (if j \<le> i then int i - int j else int i - int j + 4294967296)"
  using assms uint32_minus [of "of_nat i" "of_nat j"] by (simp add: uint_of_nat32)

lemma seq_gt_window [ns_seq]:
  assumes "i < 2147483648" "j < 2147483648"
  shows "seq_gt (b + of_nat i) (b + of_nat j) \<longleftrightarrow> j < i"
  using assms window_minus [OF assms] by (simp add: seq_gt_uint)

lemma seq_eq_window [ns_seq]:
  assumes "i < 2147483648" "j < 2147483648"
  shows "b + of_nat i = (b + of_nat j :: uint32) \<longleftrightarrow> i = j"
  using assms by (simp add: of_nat32_eq)

lemma seq_ge_window [ns_seq]:
  assumes "i < 2147483648" "j < 2147483648"
  shows "seq_ge (b + of_nat i) (b + of_nat j) \<longleftrightarrow> j \<le> i"
  unfolding seq_ge_def seq_gt_window [OF assms] seq_eq_window [OF assms] by auto

lemma seq_le_window [ns_seq]:
  assumes "i < 2147483648" "j < 2147483648"
  shows "seq_le (b + of_nat i) (b + of_nat j) \<longleftrightarrow> i \<le> j"
  unfolding seq_le_def seq_gt_window [OF assms] by auto

lemma seq_lt_window [ns_seq]:
  assumes "i < 2147483648" "j < 2147483648"
  shows "seq_lt (b + of_nat i) (b + of_nat j) \<longleftrightarrow> i < j"
  unfolding seq_lt_def seq_gt_window [OF assms] seq_eq_window [OF assms] by auto

lemma seq_diff_window [ns_seq]:
  assumes "i < 2147483648" "j < 2147483648"
  shows "seq_diff (b + of_nat i) (b + of_nat j) = int i - int j"
proof -
  have d: "(b + of_nat i) - (b + of_nat j) = (of_nat i - of_nat j :: uint32)"
    by simp
  have u: "uint (of_nat i - of_nat j :: uint32) \<noteq> 2147483648"
    using assms by (simp add: window_minus)
  then have n: "(b + of_nat i) - (b + of_nat j) \<noteq> (2147483648 :: uint32)"
    unfolding d uint32_half .
  show ?thesis
    unfolding seq_diff_sint [OF n] d sint_uint32 window_minus [OF assms]
    using assms by simp
qed

lemmas seq_at_base [ns_seq] =
  seq_gt_window [where j = 0, simplified] seq_gt_window [where i = 0, simplified]
  seq_ge_window [where j = 0, simplified] seq_ge_window [where i = 0, simplified]
  seq_le_window [where j = 0, simplified] seq_le_window [where i = 0, simplified]
  seq_lt_window [where j = 0, simplified] seq_lt_window [where i = 0, simplified]
  seq_diff_window [where j = 0, simplified] seq_diff_window [where i = 0, simplified]

section \<open>The comparison is total and antisymmetric on every pair\<close>

lemma seq_gt_flip: "seq_gt b a \<longleftrightarrow> a \<noteq> b \<and> \<not> seq_gt a b"
proof -
  define x y where "x = uint a" and "y = uint b"
  have b: "0 \<le> x" "x < 4294967296" "0 \<le> y" "y < 4294967296"
    using uint32_less [of a] uint32_less [of b] by (simp_all add: x_def y_def)
  have e: "a = b \<longleftrightarrow> x = y"
    by (simp add: x_def y_def word_uint_eq_iff)
  show ?thesis
    unfolding seq_gt_uint uint32_minus word_less_def e x_def [symmetric] y_def [symmetric]
    using b by (cases "x < y"; cases "y < x"; simp; presburger?)
qed

lemma seq_gt_positive:
  "a - b \<noteq> 2147483648 \<Longrightarrow> seq_gt a b \<longleftrightarrow> 0 < sint (a - b)"
  using uint32_less [of "a - b"] uint_ge_0 [of "a - b"] uint32_half [of "a - b"]
  by (auto simp: seq_gt_uint sint_uint32)

text \<open>
  For any two sequence numbers exactly one of "before", "equal" and "after" holds, the pairs
  half the circle apart included; and for every other pair the four branches of \<open>operator-\<close> give
  the two's complement difference, whose sign decides "after".
\<close>

theorem seq_compare_total:
  "(seq_lt a b \<noteq> (a = b \<or> seq_gt a b)) \<and> \<not> (a = b \<and> seq_gt a b) \<and>
   seq_gt a b = seq_lt b a \<and> seq_ge a b = seq_le b a \<and>
   (if a - b = 2147483648 then seq_gt a b = (a < b)
    else seq_diff a b = sint (a - b) \<and> seq_gt a b = (0 < seq_diff a b))"
proof -
  have anti: "seq_gt a b = (a < b)" if "a - b = 2147483648"
    using that uint32_half [of "a - b"] by (simp add: seq_gt_uint)
  show ?thesis
    using seq_gt_flip [of a b] seq_gt_flip [of b a] anti
    by (auto simp: seq_lt_def seq_le_def seq_ge_def seq_diff_sint seq_gt_positive)
qed

end
