(* ===== verification/RxBuffer.thy ===== *)
theory RxBuffer
  imports SeqNum
begin

text \<open>
  \<open>TcpRxBuffer\<close> (\<open>internet/model/tcp-rx-buffer.cc\<close>), the receive buffer with the list of SACK
  blocks. The \<open>std::map\<close> from sequence numbers to packets is the list of its entries in the order
  of the map, which is \<open>operator<\<close> of sequence numbers. The lines that \<open>Add\<close> appends to the
  throughput file are a field of the state; whether the file could be opened is an argument, as is
  \<open>Simulator::Now\<close>.
\<close>

section \<open>State and accessors\<close>

type_synonym rx_entry = "seq32 \<times> uint8 list"
type_synonym sack_blk = "seq32 \<times> seq32"

record rx_buffer =
  m_sackList :: "sack_blk list"
  m_tputOut :: "(int \<times> uint32) list"
  m_nextRxSeq :: seq32
  m_finSeq :: seq32
  m_gotFin :: bool
  rx_size :: uint32
  rx_maxBuffer :: uint32
  m_availBytes :: uint32
  m_data :: "rx_entry list"

abbreviation rx_len :: "uint8 list \<Rightarrow> uint32" where
  "rx_len p \<equiv> of_nat (length p)"

definition new_rx_buffer :: "uint32 \<Rightarrow> rx_buffer" where
  "new_rx_buffer n =
     \<lparr>m_sackList = [], m_tputOut = [], m_nextRxSeq = n, m_finSeq = 0, m_gotFin = False, rx_size = 0,
      rx_maxBuffer = 32768, m_availBytes = 0, m_data = []\<rparr>"

definition NextRxSequence :: "rx_buffer \<Rightarrow> seq32" where
  "NextRxSequence b = m_nextRxSeq b"

definition SetNextRxSequence :: "seq32 \<Rightarrow> rx_buffer \<Rightarrow> rx_buffer" where
  "SetNextRxSequence s b = b\<lparr>m_nextRxSeq := s\<rparr>"

definition rx_MaxBufferSize :: "rx_buffer \<Rightarrow> uint32" where
  "rx_MaxBufferSize b = rx_maxBuffer b"

definition rx_SetMaxBufferSize :: "uint32 \<Rightarrow> rx_buffer \<Rightarrow> rx_buffer" where
  "rx_SetMaxBufferSize s b = b\<lparr>rx_maxBuffer := s\<rparr>"

definition rx_Size :: "rx_buffer \<Rightarrow> uint32" where
  "rx_Size b = rx_size b"

definition rx_Available :: "rx_buffer \<Rightarrow> uint32" where
  "rx_Available b = m_availBytes b"

definition IncNextRxSequence :: "rx_buffer \<Rightarrow> rx_buffer option" where
  "IncNextRxSequence b = do { ns_assert (rx_size b = 0); Some (b\<lparr>m_nextRxSeq := m_nextRxSeq b + 1\<rparr>) }"

definition MaxRxSequence :: "rx_buffer \<Rightarrow> seq32" where
  "MaxRxSequence b =
     (if m_gotFin b then m_finSeq b
      else case m_data b of
          [] \<Rightarrow> m_nextRxSeq b + rx_maxBuffer b
        | (f, _) # _ \<Rightarrow>
            if seq_gt (m_nextRxSeq b) f then f + rx_maxBuffer b else m_nextRxSeq b + rx_maxBuffer b)"

definition SetFinSequence :: "seq32 \<Rightarrow> rx_buffer \<Rightarrow> rx_buffer" where
  "SetFinSequence s b =
     b\<lparr>m_gotFin := True, m_finSeq := s,
       m_nextRxSeq := (if m_nextRxSeq b = s then m_nextRxSeq b + 1 else m_nextRxSeq b)\<rparr>"

definition Finished :: "rx_buffer \<Rightarrow> bool" where
  "Finished b \<longleftrightarrow> m_gotFin b \<and> seq_lt (m_finSeq b) (m_nextRxSeq b)"

definition GotFin :: "rx_buffer \<Rightarrow> bool" where
  "GotFin b = m_gotFin b"

section \<open>The SACK list\<close>

definition GetSackListSize :: "rx_buffer \<Rightarrow> uint32" where
  "GetSackListSize b = of_nat (length (m_sackList b))"

definition GetSackList :: "rx_buffer \<Rightarrow> sack_blk list" where
  "GetSackList b = m_sackList b"

text \<open>
  The loop of \<open>UpdateSackList\<close>: the first block, the blocks examined since the last merge, and the
  others. A merge puts the merged block first and starts over.
\<close>

function merge_scan :: "sack_blk \<Rightarrow> sack_blk list \<Rightarrow> sack_blk list \<Rightarrow> sack_blk list option" where
  "merge_scan blk seen [] = Some (blk # seen)"
| "merge_scan blk seen (cur # rest) =
     (if fst blk = snd cur
      then (if seq_lt (fst cur) (snd blk) then merge_scan (fst cur, snd blk) [] (seen @ rest) else None)
      else if snd blk = fst cur
      then (if seq_lt (fst blk) (snd cur) then merge_scan (fst blk, snd cur) [] (seen @ rest) else None)
      else merge_scan blk (seen @ [cur]) rest)"
  by pat_completeness auto
termination
  by (relation "measures [\<lambda>(_, seen, rest). length seen + length rest, \<lambda>(_, _, rest). length rest]") auto

definition UpdateSackList :: "seq32 \<Rightarrow> seq32 \<Rightarrow> rx_buffer \<Rightarrow> rx_buffer option" where
  "UpdateSackList head tail b =
     do {
       ns_assert (seq_gt head (m_nextRxSeq b));
       l \<leftarrow> merge_scan (head, tail) [] (m_sackList b);
       Some (b\<lparr>m_sackList := (if length l > 4 then butlast l else l)\<rparr>)
     }"

fun clear_blocks :: "seq32 \<Rightarrow> sack_blk list \<Rightarrow> sack_blk list option" where
  "clear_blocks s [] = Some []"
| "clear_blocks s (blk # blks) =
     do {
       ns_assert (seq_lt (fst blk) (snd blk));
       blks' \<leftarrow> clear_blocks s blks;
       Some (if seq_le (snd blk) s then blks' else blk # blks')
     }"

definition ClearSackList :: "seq32 \<Rightarrow> rx_buffer \<Rightarrow> rx_buffer option" where
  "ClearSackList s b = do { l \<leftarrow> clear_blocks s (m_sackList b); Some (b\<lparr>m_sackList := l\<rparr>) }"

section \<open>Adding a segment\<close>

text \<open>The loop that removes overlaps: entries, head, tail and occupancy after it.\<close>

fun trim_overlap ::
  "rx_entry list \<Rightarrow> seq32 \<Rightarrow> seq32 \<Rightarrow> uint32 \<Rightarrow> rx_entry list \<times> seq32 \<times> seq32 \<times> uint32" where
  "trim_overlap [] headSeq tailSeq sz = ([], headSeq, tailSeq, sz)"
| "trim_overlap ((f, p) # rest) headSeq tailSeq sz =
     (if seq_le f tailSeq
      then let lastByteSeq = f + rx_len p in
        if seq_gt lastByteSeq headSeq
        then if seq_gt f headSeq \<and> seq_lt lastByteSeq tailSeq
          then trim_overlap rest headSeq tailSeq (sz - rx_len p)
          else
            let head' = (if seq_le f headSeq then lastByteSeq else headSeq);
                tail' = (if seq_ge lastByteSeq tailSeq then f else tailSeq);
                (rest', r) = trim_overlap rest head' tail' sz
            in ((f, p) # rest', r)
        else (let (rest', r) = trim_overlap rest headSeq tailSeq sz in ((f, p) # rest', r))
      else ((f, p) # rest, headSeq, tailSeq, sz))"

text \<open>\<open>m_data[s] = p\<close>: the entry of \<open>s\<close> is overwritten, or a new one is put in its place in the order.\<close>

fun data_put :: "seq32 \<Rightarrow> uint8 list \<Rightarrow> rx_entry list \<Rightarrow> rx_entry list" where
  "data_put s p [] = [(s, p)]"
| "data_put s p ((f, q) # rest) =
     (if seq_lt s f then (s, p) # (f, q) # rest
      else if seq_lt f s then (f, q) # data_put s p rest
      else (f, p) # rest)"

text \<open>The loop over the entries that moves \<open>RCV.NXT\<close> forward.\<close>

fun advance :: "rx_entry list \<Rightarrow> rx_buffer \<Rightarrow> rx_buffer option" where
  "advance [] b = Some b"
| "advance ((f, p) # rest) b =
     (if seq_lt f (m_nextRxSeq b) then advance rest b
      else if seq_gt f (m_nextRxSeq b) then Some b
      else do {
        b1 \<leftarrow> ClearSackList (f + rx_len p)
               (b\<lparr>m_nextRxSeq := f + rx_len p, m_availBytes := m_availBytes b + rx_len p\<rparr>);
        advance rest b1
      })"

text \<open>\<open>Add\<close>: the limits of the receive window, then the overlaps, then the storing of what is left.\<close>

definition trim_window :: "uint8 list \<Rightarrow> seq32 \<Rightarrow> rx_buffer \<Rightarrow> seq32 \<times> seq32" where
  "trim_window p sequenceNumber b =
     (let headSeq = (if seq_lt sequenceNumber (m_nextRxSeq b) then m_nextRxSeq b else sequenceNumber);
          tailSeq = sequenceNumber + rx_len p
      in case m_data b of
           [] \<Rightarrow> (headSeq, tailSeq)
         | (f, _) # _ \<Rightarrow>
             let maxSeq = f + rx_maxBuffer b;
                 tailSeq = (if seq_lt maxSeq tailSeq then maxSeq else tailSeq)
             in (if seq_lt tailSeq headSeq then tailSeq else headSeq, tailSeq))"

definition store_segment ::
  "int \<Rightarrow> bool \<Rightarrow> uint8 list \<Rightarrow> seq32 \<Rightarrow> seq32 \<Rightarrow> seq32 \<Rightarrow> rx_buffer \<Rightarrow> rx_buffer option" where
  "store_segment now file_ok p sequenceNumber headSeq tailSeq b =
     (let start = unat (of_int (seq_diff headSeq sequenceNumber) :: uint32);
          len = unat (of_int (seq_diff tailSeq headSeq) :: uint32);
          q = take len (drop start p)
      in do {
        ns_assert (start + len \<le> length p);
        ns_assert (headSeq \<notin> fst ` set (m_data b));
        let b1 = b\<lparr>m_data := data_put headSeq q (m_data b),
                   m_tputOut := (if file_ok then m_tputOut b @ [(now, rx_len q)] else m_tputOut b)\<rparr>;
        b2 \<leftarrow> (if seq_gt headSeq (m_nextRxSeq b1) then UpdateSackList headSeq tailSeq b1 else Some b1);
        let b3 = b2\<lparr>rx_size := rx_size b2 + rx_len q\<rparr>;
        b4 \<leftarrow> advance (m_data b3) b3;
        Some (if m_gotFin b4 \<and> m_nextRxSeq b4 = m_finSeq b4
              then b4\<lparr>m_nextRxSeq := m_nextRxSeq b4 + 1\<rparr> else b4)
      })"

definition rx_Add :: "int \<Rightarrow> bool \<Rightarrow> uint8 list \<Rightarrow> seq32 \<Rightarrow> rx_buffer \<Rightarrow> (bool \<times> rx_buffer) option" where
  "rx_Add now file_ok p sequenceNumber b =
     (let (headSeq, tailSeq) = trim_window p sequenceNumber b;
          (entries, headSeq, tailSeq, sz) = trim_overlap (m_data b) headSeq tailSeq (rx_size b);
          b = b\<lparr>m_data := entries, rx_size := sz\<rparr>
      in
        if seq_ge headSeq tailSeq then Some (False, b)
        else do {
          b \<leftarrow> store_segment now file_ok p sequenceNumber headSeq tailSeq b;
          Some (True, b)
        })"

section \<open>Reading\<close>

text \<open>The loop of \<open>Extract\<close>: the bytes copied out so far, the size still to extract.\<close>

function extract_loop :: "uint32 \<Rightarrow> uint8 list \<Rightarrow> rx_buffer \<Rightarrow> (uint8 list \<times> rx_buffer) option" where
  "extract_loop extractSize out b =
     (if extractSize = 0 then Some (out, b)
      else case m_data b of
          [] \<Rightarrow> None
        | (f, p) # rest \<Rightarrow>
            if \<not> seq_le f (m_nextRxSeq b) then None
            else if rx_len p \<le> extractSize
            then extract_loop (extractSize - rx_len p) (out @ p)
              (b\<lparr>m_data := rest, rx_size := rx_size b - rx_len p, m_availBytes := m_availBytes b - rx_len p\<rparr>)
            else
              let n = unat extractSize in
              Some (out @ take n p,
                b\<lparr>m_data := filter (\<lambda>e. fst e \<noteq> f) (data_put (f + extractSize) (drop n p) ((f, p) # rest)),
                  rx_size := rx_size b - extractSize, m_availBytes := m_availBytes b - extractSize\<rparr>))"
  by pat_completeness auto
termination
  by (relation "measure (\<lambda>(_, _, b). length (m_data b))") auto

definition Extract :: "uint32 \<Rightarrow> rx_buffer \<Rightarrow> (uint8 list option \<times> rx_buffer) option" where
  "Extract maxSize b =
     (let extractSize = min maxSize (m_availBytes b) in
      if extractSize = 0 then Some (None, b)
      else do {
        ns_assert (m_data b \<noteq> []);
        (out, b1) \<leftarrow> extract_loop extractSize [] b;
        Some (if out = [] then None else Some out, b1)
      })"

end
