(* ===== verification/RxTrim.thy ===== *)
theory RxTrim
  imports RxBuffer
begin

text \<open>
  The receive buffer in terms of positions in the byte stream. A sequence number is \<open>s0 + q\<close> for
  the initial sequence \<open>s0\<close> and an unbounded position \<open>q\<close>; the comparisons of the code agree with
  those of the positions as long as these lie within one window of \<open>2 ^ 31\<close>.
\<close>

section \<open>Positions\<close>

definition near :: "nat \<Rightarrow> nat \<Rightarrow> bool" where
  "near i j \<longleftrightarrow> i < j + 2147483648 \<and> j < i + 2147483648"

lemma near_window:
  assumes "near i j"
  obtains w where "w \<le> i" "w \<le> j" "i - w < 2147483648" "j - w < 2147483648"
    "\<And>s :: seq32. s + of_nat i = (s + of_nat w) + of_nat (i - w)"
    "\<And>s :: seq32. s + of_nat j = (s + of_nat w) + of_nat (j - w)"
proof
  let ?w = "min i j"
  show "?w \<le> i" "?w \<le> j" by simp_all
  show "i - ?w < 2147483648" "j - ?w < 2147483648"
    using assms by (auto simp: near_def min_def)
  show "s + of_nat i = (s + of_nat ?w) + of_nat (i - ?w)"
       "s + of_nat j = (s + of_nat ?w) + of_nat (j - ?w)" for s :: seq32
    by (simp_all add: of_nat_diff)
qed

lemma near_seq:
  assumes "near i j"
  shows "seq_gt (s + of_nat i) (s + of_nat j) \<longleftrightarrow> j < i"
    and "seq_ge (s + of_nat i) (s + of_nat j) \<longleftrightarrow> j \<le> i"
    and "seq_lt (s + of_nat i) (s + of_nat j) \<longleftrightarrow> i < j"
    and "seq_le (s + of_nat i) (s + of_nat j) \<longleftrightarrow> i \<le> j"
    and "s + of_nat i = s + of_nat j \<longleftrightarrow> i = j"
    and "seq_diff (s + of_nat i) (s + of_nat j) = int i - int j"
proof -
  obtain w where w: "w \<le> i" "w \<le> j" "i - w < 2147483648" "j - w < 2147483648"
      "\<And>s :: seq32. s + of_nat i = (s + of_nat w) + of_nat (i - w)"
      "\<And>s :: seq32. s + of_nat j = (s + of_nat w) + of_nat (j - w)"
    using near_window [OF assms] by blast
  show "seq_gt (s + of_nat i) (s + of_nat j) \<longleftrightarrow> j < i"
    unfolding w(5,6) seq_gt_window [OF w(3,4)] using w(1,2) by auto
  show "seq_ge (s + of_nat i) (s + of_nat j) \<longleftrightarrow> j \<le> i"
    unfolding w(5,6) seq_ge_window [OF w(3,4)] using w(1,2) by auto
  show "seq_lt (s + of_nat i) (s + of_nat j) \<longleftrightarrow> i < j"
    unfolding w(5,6) seq_lt_window [OF w(3,4)] using w(1,2) by auto
  show "seq_le (s + of_nat i) (s + of_nat j) \<longleftrightarrow> i \<le> j"
    unfolding w(5,6) seq_le_window [OF w(3,4)] using w(1,2) by auto
  show "s + of_nat i = s + of_nat j \<longleftrightarrow> i = j"
    unfolding w(5,6) seq_eq_window [OF w(3,4)] using w(1,2) by auto
  show "seq_diff (s + of_nat i) (s + of_nat j) = int i - int j"
    unfolding w(5,6) seq_diff_window [OF w(3,4)] using w(1,2) by auto
qed

type_synonym entry = "nat \<times> uint8 list"

abbreviation endp :: "entry \<Rightarrow> nat" where
  "endp e \<equiv> fst e + length (snd e)"

definition conc :: "seq32 \<Rightarrow> entry list \<Rightarrow> rx_entry list" where
  "conc s0 d = map (\<lambda>e. (s0 + of_nat (fst e), snd e)) d"

lemma conc_simps [simp]:
  "conc s0 [] = []" "conc s0 (e # d) = (s0 + of_nat (fst e), snd e) # conc s0 d"
  "conc s0 (d @ d') = conc s0 d @ conc s0 d'" "conc s0 d = [] \<longleftrightarrow> d = []"
  by (simp_all add: conc_def)

definition held :: "entry list \<Rightarrow> nat set" where
  "held d = (\<Union>e \<in> set d. {fst e..<endp e})"

lemma held_simps [simp]: "held [] = {}" "held (e # d) = {fst e..<endp e} \<union> held d"
  by (simp_all add: held_def)

definition total_len :: "entry list \<Rightarrow> nat" where
  "total_len d = sum_list (map (length \<circ> snd) d)"

lemma total_len_simps [simp]: "total_len [] = 0" "total_len (e # d) = length (snd e) + total_len d"
  by (simp_all add: total_len_def)

text \<open>Disjoint entries in order, none empty, none before \<open>lo\<close>.\<close>

fun chain :: "nat \<Rightarrow> entry list \<Rightarrow> bool" where
  "chain lo [] \<longleftrightarrow> True"
| "chain lo (e # d) \<longleftrightarrow> lo \<le> fst e \<and> snd e \<noteq> [] \<and> chain (endp e) d"

lemma chain_mono: "chain lo d \<Longrightarrow> l \<le> lo \<Longrightarrow> chain l d"
  by (cases d) auto

lemma chain_lower: "chain lo d \<Longrightarrow> e \<in> set d \<Longrightarrow> lo \<le> fst e \<and> snd e \<noteq> []"
proof (induction d arbitrary: lo)
  case (Cons a d)
  from Cons.prems(2) consider "e = a" | "e \<in> set d" by auto
  then show ?case
  proof cases
    case 2
    with Cons.IH [of "endp a"] Cons.prems(1) have "endp a \<le> fst e \<and> snd e \<noteq> []" by simp
    with Cons.prems(1) show ?thesis by auto
  qed (use Cons.prems in simp)
qed simp

lemma chain_held: "chain lo d \<Longrightarrow> x \<in> held d \<Longrightarrow> lo \<le> x"
  using chain_lower unfolding held_def by fastforce

lemma chain_Cons_later: "chain lo (e # d) \<Longrightarrow> f \<in> set d \<Longrightarrow> endp e \<le> fst f"
  using chain_lower by fastforce

section \<open>Removing overlaps, on positions\<close>

fun ntrim :: "entry list \<Rightarrow> nat \<Rightarrow> nat \<Rightarrow> entry list \<times> nat \<times> nat" where
  "ntrim [] h t = ([], h, t)"
| "ntrim (e # d) h t =
     (if t < fst e then (e # d, h, t)
      else if h < fst e \<and> endp e < t then ntrim d h t
      else (let h2 = (if fst e \<le> h \<and> h < endp e then endp e else h);
                t2 = (if h < endp e \<and> t \<le> endp e then fst e else t);
                (d', r) = ntrim d h2 t2
            in (e # d', r)))"

definition in_window :: "nat \<Rightarrow> nat \<Rightarrow> bool" where
  "in_window w q \<longleftrightarrow> w \<le> q \<and> q < w + 2147483648"

lemma in_window_near: "in_window w i \<Longrightarrow> in_window w j \<Longrightarrow> near i j"
  by (auto simp: in_window_def near_def)

lemma total_len_ntrim: "ntrim d h t = (d', r) \<Longrightarrow> total_len d' \<le> total_len d"
  by (induction d arbitrary: h t d' r) (fastforce simp: Let_def split: if_splits prod.splits)+

lemma trim_refines:
  assumes "\<forall>e \<in> set d. in_window w (fst e) \<and> in_window w (endp e)" "in_window w h" "in_window w t"
    and "ntrim d h t = (d', h', t')"
  shows "trim_overlap (conc s0 d) (s0 + of_nat h) (s0 + of_nat t) sz =
    (conc s0 d', s0 + of_nat h', s0 + of_nat t', sz - of_nat (total_len d - total_len d')) \<and>
    in_window w h' \<and> in_window w t'"
  using assms
proof (induction d arbitrary: h t sz d' h' t')
  case (Cons e d)
  have we: "in_window w (fst e)" "in_window w (endp e)" and wd: "\<forall>e \<in> set d. in_window w (fst e) \<and> in_window w (endp e)"
    using Cons.prems(1) by simp_all
  note n = near_seq [OF in_window_near [OF we(1) Cons.prems(3)], of s0]
    near_seq [OF in_window_near [OF we(2) Cons.prems(2)], of s0]
    near_seq [OF in_window_near [OF we(1) Cons.prems(2)], of s0]
    near_seq [OF in_window_near [OF we(2) Cons.prems(3)], of s0]
  have l: "s0 + of_nat (fst e) + rx_len (snd e) = s0 + of_nat (endp e)" by simp
  consider (past) "t < fst e" | (embedded) "\<not> t < fst e" "h < fst e \<and> endp e < t"
    | (keep) "\<not> t < fst e" "\<not> (h < fst e \<and> endp e < t)"
    by blast
  then show ?case
  proof cases
    case past
    then have "d' = e # d" "h' = h" "t' = t" using Cons.prems(4) by auto
    with past Cons.prems(2,3) n(4) show ?thesis by simp
  next
    case embedded
    with Cons.prems(4) have r: "ntrim d h t = (d', h', t')" by simp
    have "total_len d' \<le> total_len d" by (rule total_len_ntrim [OF r])
    then have s: "sz - rx_len (snd e) - of_nat (total_len d - total_len d') =
        sz - of_nat (total_len (e # d) - total_len d')"
      by (simp add: of_nat_diff)
    have "trim_overlap (conc s0 (e # d)) (s0 + of_nat h) (s0 + of_nat t) sz =
        trim_overlap (conc s0 d) (s0 + of_nat h) (s0 + of_nat t) (sz - rx_len (snd e))"
      using embedded n by (simp add: Let_def l del: of_nat_add)
    with Cons.IH [OF wd Cons.prems(2,3) r, of "sz - rx_len (snd e)"] s show ?thesis by simp
  next
    case keep
    define h2 where "h2 = (if fst e \<le> h \<and> h < endp e then endp e else h)"
    define t2 where "t2 = (if h < endp e \<and> t \<le> endp e then fst e else t)"
    obtain d2 where r: "ntrim d h2 t2 = (d2, h', t')" "d' = e # d2"
    proof -
      have "ntrim (e # d) h t = (let (d', r) = ntrim d h2 t2 in (e # d', r))"
        by (simp only: ntrim.simps keep if_False Let_def h2_def t2_def)
      with Cons.prems(4) that show ?thesis by (auto split: prod.splits)
    qed
    have w2: "in_window w h2" "in_window w t2"
      using we Cons.prems(2,3) by (simp_all add: h2_def t2_def)
    have "trim_overlap (conc s0 (e # d)) (s0 + of_nat h) (s0 + of_nat t) sz =
        (let (rest', r) = trim_overlap (conc s0 d) (s0 + of_nat h2) (s0 + of_nat t2) sz
         in ((s0 + of_nat (fst e), snd e) # rest', r))"
      using keep n by (auto simp: Let_def l h2_def t2_def not_less simp del: of_nat_add)
    with Cons.IH [OF wd w2 r(1), of sz] r(2) show ?thesis by simp
  qed
qed simp

section \<open>What the trimming achieves\<close>

text \<open>
  The part that remains of a segment is disjoint from what remains in the buffer, nothing that was
  held or that the segment brings is lost, and if nothing remains of the segment the buffer is
  unchanged.
\<close>

lemma ntrim_past: "chain lo d \<Longrightarrow> t < lo \<Longrightarrow> ntrim d h t = (d, h, t)"
  by (cases d) auto

lemma ntrim_ok:
  assumes "chain lo d" "ntrim d h t = (d', h', t')" "h \<le> t"
  shows "chain lo d' \<and> set d' \<subseteq> set d \<and> h \<le> h' \<and> t' \<le> t \<and>
    (if h' < t' then (\<forall>e \<in> set d'. endp e \<le> h' \<or> t' \<le> fst e) \<and>
        held d' \<union> {h'..<t'} = held d \<union> {h..<t}
     else d' = d \<and> {h..<t} \<subseteq> held d)"
  using assms
proof (induction d arbitrary: lo h t d')
  case (Cons e d)
  have e: "lo \<le> fst e" "fst e < endp e" "chain (endp e) d"
    using Cons.prems(1) by auto
  consider (past) "t < fst e"
    | (embedded) "h < fst e" "endp e < t"
    | (left) "endp e \<le> h"
    | (inside) "fst e \<le> h" "t \<le> endp e" "\<not> t < fst e" "h < endp e"
    | (tail) "h < fst e" "t \<le> endp e" "fst e \<le> t"
    | (head) "fst e \<le> h" "h < endp e" "endp e < t"
    by linarith
  then show ?case
  proof cases
    case past
    then have "d' = e # d" "h' = h" "t' = t" using Cons.prems(2) by auto
    moreover have "\<forall>f \<in> set (e # d). endp f \<le> h \<or> t \<le> fst f"
      using past e(2) chain_Cons_later [OF Cons.prems(1)] by fastforce
    ultimately show ?thesis using Cons.prems(1,3) by auto
  next
    case embedded
    then have r: "ntrim d h t = (d', h', t')" using Cons.prems(2) e(2) by auto
    note IH = Cons.IH [OF e(3) r Cons.prems(3)]
    have "h' < t'"
    proof (rule ccontr)
      assume "\<not> ?thesis"
      with IH have "{h..<t} \<subseteq> held d" by simp
      then have "h \<in> held d" using embedded e(2) by auto
      with chain_held [OF e(3)] embedded e(2) show False by fastforce
    qed
    moreover have "{fst e..<endp e} \<subseteq> {h..<t}" using embedded by auto
    then have "held (e # d) \<union> {h..<t} = held d \<union> {h..<t}" by auto
    moreover have "chain lo d'" using IH e chain_mono [of "endp e" d' lo] by auto
    ultimately show ?thesis using IH by (simp add: subset_insertI2)
  next
    case left
    then obtain d2 where r: "ntrim d h t = (d2, h', t')" "d' = e # d2"
      using Cons.prems(2,3) e(2) by (auto simp: Let_def split: prod.splits)
    note IH = Cons.IH [OF e(3) r(1) Cons.prems(3)]
    have "h' < t' \<Longrightarrow> held d' \<union> {h'..<t'} = held (e # d) \<union> {h..<t}"
      using IH r(2) by (simp add: Un_assoc)
    moreover have "\<not> h' < t' \<Longrightarrow> {h..<t} \<subseteq> held (e # d)"
      using IH by (simp add: le_supI2)
    ultimately show ?thesis using IH r(2) left e by auto
  next
    case inside
    then have "d' = e # d" "h' = endp e" "t' = fst e"
      using Cons.prems(2) ntrim_past [OF e(3), of "fst e"] e(2) by (auto simp: Let_def)
    with inside e Cons.prems(1) show ?thesis by auto
  next
    case tail
    then have r: "d' = e # d" "h' = h" "t' = fst e"
      using Cons.prems(2) ntrim_past [OF e(3), of "fst e"] e(2) by (auto simp: Let_def)
    have "\<forall>f \<in> set d. fst e \<le> fst f"
      using e(2) chain_Cons_later [OF Cons.prems(1)] by fastforce
    moreover have "{fst e..<endp e} \<union> {h..<fst e} = {fst e..<endp e} \<union> {h..<t}"
      using tail by auto
    then have "held (e # d) \<union> {h..<fst e} = held (e # d) \<union> {h..<t}"
      by (simp add: Un_assoc Un_left_commute Un_commute)
    moreover have "\<forall>f \<in> set d. fst e \<le> fst f"
      using e(2) chain_Cons_later [OF Cons.prems(1)] by fastforce
    ultimately show ?thesis
      using r tail Cons.prems(1) by simp
  next
    case head
    then obtain d2 where r: "ntrim d (endp e) t = (d2, h', t')" "d' = e # d2"
      using Cons.prems(2) by (auto simp: Let_def split: prod.splits)
    have "{fst e..<endp e} \<union> {h..<t} = {fst e..<endp e} \<union> {endp e..<t}"
      using head by auto
    note seg = this
    note IH = Cons.IH [OF e(3) r(1) less_imp_le [OF head(3)]]
    have "h' < t' \<Longrightarrow> held d' \<union> {h'..<t'} = held (e # d) \<union> {h..<t}"
    proof -
      assume "h' < t'"
      then have "held d2 \<union> {h'..<t'} = held d \<union> {endp e..<t}" using IH by simp
      then have "{fst e..<endp e} \<union> (held d2 \<union> {h'..<t'}) = held d \<union> ({fst e..<endp e} \<union> {endp e..<t})" by blast
      then show ?thesis unfolding seg [symmetric] r(2) held_simps by blast
    qed
    moreover have "{h..<t} \<subseteq> {fst e..<endp e} \<union> {endp e..<t}"
      using seg by blast
    then have "\<not> h' < t' \<Longrightarrow> {h..<t} \<subseteq> held (e # d)"
      using IH by (simp add: subset_iff) blast
    ultimately show ?thesis using IH r(2) head e by auto
  qed
qed simp

text \<open>What remains of a segment starts with a byte that was not held before.\<close>

lemma ntrim_new:
  assumes "chain lo d" "ntrim d h t = (d', h', t')" "d \<noteq> [] \<Longrightarrow> h \<le> t" "h' < t'"
  shows "h' \<notin> held d"
  using assms
proof (induction d arbitrary: lo h t d')
  case (Cons e d)
  have e: "fst e < endp e" "chain (endp e) d" "h \<le> t"
    using Cons.prems(1,3) by auto
  note all = ntrim_ok [OF Cons.prems(1,2) e(3)]
  consider (past) "t < fst e" | (embedded) "h < fst e" "endp e < t" | (left) "endp e \<le> h"
    | (inside) "fst e \<le> h" "t \<le> endp e" "\<not> t < fst e" "h < endp e"
    | (tail) "h < fst e" "t \<le> endp e" "fst e \<le> t" | (head) "fst e \<le> h" "h < endp e" "endp e < t"
    by linarith
  then show ?case
  proof cases
    case past
    then show ?thesis using Cons.prems(2) e chain_held [OF e(2), of h] by auto
  next
    case embedded
    then have r: "ntrim d h t = (d', h', t')" using Cons.prems(2) e(1) by auto
    note sub = ntrim_ok [OF e(2) r e(3)]
    have "h \<in> held d' \<union> {h'..<t'}" using sub Cons.prems(4) embedded e(1) by auto
    moreover have "h \<notin> held d'" using sub chain_held [of "endp e" d' h] embedded e(1) by auto
    ultimately have "h' = h" using sub by auto
    with Cons.IH [OF e(2) r e(3) Cons.prems(4)] embedded show ?thesis by auto
  next
    case left
    then obtain d2 where r: "ntrim d h t = (d2, h', t')"
      using Cons.prems(2) e by (auto simp: Let_def split: prod.splits)
    from Cons.IH [OF e(2) r e(3) Cons.prems(4)] left all show ?thesis by auto
  next
    case inside
    then show ?thesis
      using Cons.prems(2,4) ntrim_past [OF e(2), of "fst e"] e(1) by (auto simp: Let_def)
  next
    case tail
    then have "h' = h"
      using Cons.prems(2) ntrim_past [OF e(2), of "fst e"] e(1) by (auto simp: Let_def)
    then show ?thesis using tail e(1) chain_held [OF e(2), of h] by auto
  next
    case head
    then obtain d2 where r: "ntrim d (endp e) t = (d2, h', t')"
      using Cons.prems(2) by (auto simp: Let_def split: prod.splits)
    have "endp e \<le> h'" using ntrim_ok [OF e(2) r] head by simp
    with Cons.IH [OF e(2) r _ Cons.prems(4)] head show ?thesis by auto
  qed
qed simp

end
