(* ===== verification/RxInv.thy ===== *)
theory RxInv
  imports RxTrim
begin

text \<open>
  The loops of the receive buffer on positions: insertion into the map, the SACK list, and the
  advance of \<open>RCV.NXT\<close>.
\<close>

section \<open>Insertion\<close>

fun nput :: "nat \<Rightarrow> uint8 list \<Rightarrow> entry list \<Rightarrow> entry list" where
  "nput h p [] = [(h, p)]"
| "nput h p (e # d) = (if h < fst e then (h, p) # e # d else e # nput h p d)"

lemma put_refines:
  assumes "\<forall>e \<in> set d. near (fst e) h \<and> near h (fst e) \<and> fst e \<noteq> h"
  shows "data_put (s0 + of_nat h) p (conc s0 d) = conc s0 (nput h p d)"
  using assms
proof (induction d)
  case (Cons e d)
  then have n: "near h (fst e)" "near (fst e) h" "fst e \<noteq> h" by simp_all
  with Cons show ?case
    by (auto simp: near_seq(3) [OF n(1)] near_seq(3) [OF n(2)])
qed simp

lemma nput_ok:
  assumes "chain lo d" "lo \<le> h" "p \<noteq> []" "\<forall>e \<in> set d. endp e \<le> h \<or> h + length p \<le> fst e"
  shows "chain lo (nput h p d) \<and> set (nput h p d) = insert (h, p) (set d) \<and>
    held (nput h p d) = held d \<union> {h..<h + length p} \<and> total_len (nput h p d) = total_len d + length p"
  using assms
proof (induction d arbitrary: lo)
  case (Cons e d)
  show ?case
  proof (cases "h < fst e")
    case True
    with Cons.prems have "h + length p \<le> fst e" by auto
    with True Cons.prems show ?thesis by auto
  next
    case False
    with Cons.prems have "endp e \<le> h" by (cases p) auto
    with Cons.IH [of "endp e"] Cons.prems False show ?thesis by auto
  qed
qed auto

section \<open>SACK blocks\<close>

definition cblocks :: "seq32 \<Rightarrow> (nat \<times> nat) list \<Rightarrow> sack_blk list" where
  "cblocks s0 l = map (\<lambda>(a, c). (s0 + of_nat a, s0 + of_nat c)) l"

lemma cblocks_simps [simp]:
  "cblocks s0 [] = []" "cblocks s0 (x # l) = (s0 + of_nat (fst x), s0 + of_nat (snd x)) # cblocks s0 l"
  "cblocks s0 (l @ l') = cblocks s0 l @ cblocks s0 l'" "length (cblocks s0 l) = length l"
  by (auto simp: cblocks_def case_prod_unfold)

lemma cblocks_butlast [simp]: "butlast (cblocks s0 l) = cblocks s0 (butlast l)"
  by (simp add: cblocks_def map_butlast)

text \<open>A block of bytes that are all in \<open>H\<close>, a set of positions in one window.\<close>

definition block_ok :: "nat \<Rightarrow> nat set \<Rightarrow> nat \<times> nat \<Rightarrow> bool" where
  "block_ok w H x \<longleftrightarrow> fst x < snd x \<and> {fst x..<snd x} \<subseteq> H \<and> in_window w (fst x) \<and> in_window w (snd x)"

lemma block_join:
  assumes "block_ok w H x" "block_ok w H y" "snd x = fst y"
  shows "block_ok w H (fst x, snd y)"
proof -
  have "{fst x..<snd y} = {fst x..<snd x} \<union> {fst y..<snd y}"
    using assms by (auto simp: block_ok_def)
  with assms show ?thesis by (auto simp: block_ok_def)
qed

function nmerge :: "nat \<times> nat \<Rightarrow> (nat \<times> nat) list \<Rightarrow> (nat \<times> nat) list \<Rightarrow> (nat \<times> nat) list" where
  "nmerge blk seen [] = blk # seen"
| "nmerge blk seen (cur # rest) =
     (if fst blk = snd cur then nmerge (fst cur, snd blk) [] (seen @ rest)
      else if snd blk = fst cur then nmerge (fst blk, snd cur) [] (seen @ rest)
      else nmerge blk (seen @ [cur]) rest)"
  by pat_completeness auto
termination
  by (relation "measures [\<lambda>(_, seen, rest). length seen + length rest, \<lambda>(_, _, rest). length rest]") auto

lemma merge_refines:
  assumes "block_ok w H blk" "\<forall>x \<in> set seen \<union> set rest. block_ok w H x"
  shows "merge_scan (s0 + of_nat (fst blk), s0 + of_nat (snd blk)) (cblocks s0 seen) (cblocks s0 rest) =
    Some (cblocks s0 (nmerge blk seen rest))"
  using assms
proof (induction blk seen rest rule: nmerge.induct)
  case (2 blk seen cur rest)
  have c: "block_ok w H cur" using "2.prems" by simp
  have win: "in_window w (fst blk)" "in_window w (snd blk)" "in_window w (fst cur)" "in_window w (snd cur)"
    and lt: "fst blk < snd blk" "fst cur < snd cur"
    using "2.prems" c by (simp_all add: block_ok_def)
  note n = near_seq(5) [OF in_window_near [OF win(1,4)], of s0] near_seq(5) [OF in_window_near [OF win(2,3)], of s0]
    near_seq(3) [OF in_window_near [OF win(3,2)], of s0] near_seq(3) [OF in_window_near [OF win(1,4)], of s0]
  consider (left) "fst blk = snd cur" | (right) "fst blk \<noteq> snd cur" "snd blk = fst cur"
    | (no_merge) "fst blk \<noteq> snd cur" "snd blk \<noteq> fst cur"
    by blast
  then show ?case
  proof cases
    case left
    have "block_ok w H (fst cur, snd blk)"
      using block_join [OF c "2.prems"(1)] left by simp
    with "2.IH"(1) [OF left] "2.prems"(2) left lt show ?thesis
      using n by (simp add: ball_Un)
  next
    case right
    have "block_ok w H (fst blk, snd cur)"
      using block_join [OF "2.prems"(1) c] right by simp
    with "2.IH"(2) [OF right] "2.prems"(2) right lt show ?thesis
      using n by (simp add: ball_Un)
  next
    case no_merge
    with "2.IH"(3) [OF no_merge] "2.prems" show ?thesis
      using n by (simp add: ball_Un)
  qed
qed simp

lemma nmerge_ok:
  assumes "block_ok w H blk" "\<forall>x \<in> set seen \<union> set rest. block_ok w H x"
  shows "(\<forall>x \<in> set (nmerge blk seen rest). block_ok w H x) \<and> nmerge blk seen rest \<noteq> [] \<and>
    {fst blk..<snd blk} \<subseteq> {fst (hd (nmerge blk seen rest))..<snd (hd (nmerge blk seen rest))} \<and>
    length (nmerge blk seen rest) \<le> Suc (length seen + length rest)"
  using assms
proof (induction blk seen rest rule: nmerge.induct)
  case (2 blk seen cur rest)
  have c: "block_ok w H cur" using "2.prems" by simp
  then have lt: "fst blk < snd blk" "fst cur < snd cur" using "2.prems" by (simp_all add: block_ok_def)
  consider (left) "fst blk = snd cur" | (right) "fst blk \<noteq> snd cur" "snd blk = fst cur"
    | (no_merge) "fst blk \<noteq> snd cur" "snd blk \<noteq> fst cur"
    by blast
  then show ?case
  proof cases
    case left
    have "block_ok w H (fst cur, snd blk)"
      using block_join [OF c "2.prems"(1)] left by simp
    note IH = "2.IH"(1) [OF left this]
    have "{fst blk..<snd blk} \<subseteq> {fst cur..<snd blk}" using left lt by auto
    with IH "2.prems"(2) left show ?thesis by (auto simp: ball_Un)
  next
    case right
    have "block_ok w H (fst blk, snd cur)"
      using block_join [OF "2.prems"(1) c] right by simp
    note IH = "2.IH"(2) [OF right this]
    have "{fst blk..<snd blk} \<subseteq> {fst blk..<snd cur}" using right lt by auto
    with IH "2.prems"(2) right show ?thesis by (auto simp: ball_Un)
  next
    case no_merge
    with "2.IH"(3) [OF no_merge] "2.prems" show ?thesis by (simp add: ball_Un)
  qed
qed simp

lemma block_ok_mono: "block_ok w H x \<Longrightarrow> H \<subseteq> H' \<Longrightarrow> block_ok w H' x"
  by (auto simp: block_ok_def)

lemma clear_refines:
  assumes "\<forall>x \<in> set l. block_ok w H x" "in_window w n"
  shows "clear_blocks (s0 + of_nat n) (cblocks s0 l) = Some (cblocks s0 (filter (\<lambda>x. n < snd x) l))"
  using assms
proof (induction l)
  case (Cons x l)
  then have x: "fst x < snd x" "in_window w (fst x)" "in_window w (snd x)" by (simp_all add: block_ok_def)
  have "seq_lt (s0 + of_nat (fst x)) (s0 + of_nat (snd x))"
    using near_seq(3) [OF in_window_near [OF x(2,3)]] x(1) by simp
  moreover have "seq_le (s0 + of_nat (snd x)) (s0 + of_nat n) \<longleftrightarrow> \<not> n < snd x"
    using near_seq(4) [OF in_window_near [OF x(3) Cons.prems(2)]] by auto
  ultimately show ?case using Cons by simp
qed simp

section \<open>Advancing\<close>

lemma advance_ok:
  assumes "chain lo d" "\<forall>e \<in> set d. fst e < n \<longrightarrow> endp e \<le> n"
    and "\<forall>e \<in> set d. in_window w (fst e) \<and> in_window w (endp e)" "in_window w n"
    and "m_nextRxSeq b = s0 + of_nat n" "m_sackList b = cblocks s0 l" "\<forall>x \<in> set l. block_ok w H x"
  shows "\<exists>n' l'. advance (conc s0 d) b = Some (b\<lparr>m_nextRxSeq := s0 + of_nat n',
        m_availBytes := m_availBytes b + of_nat (n' - n), m_sackList := cblocks s0 l'\<rparr>) \<and>
    n \<le> n' \<and> {n..<n'} \<subseteq> held d \<and> n' \<notin> held d \<and> in_window w n' \<and>
    l' = (if n' = n then l else filter (\<lambda>x. n' < snd x) l)"
  using assms
proof (induction d arbitrary: lo n b l)
  case Nil
  then have "b\<lparr>m_nextRxSeq := s0 + of_nat n, m_availBytes := m_availBytes b + of_nat (n - n),
      m_sackList := cblocks s0 l\<rparr> = b" by (cases b) simp
  with Nil show ?case by (intro exI [of _ n] exI [of _ l]) simp
next
  case (Cons e d)
  have ch: "chain (endp e) d" "fst e < endp e" using Cons.prems(1) by auto
  have we: "in_window w (fst e)" "in_window w (endp e)" using Cons.prems(3) by simp_all
  note ns = near_seq [OF in_window_near [OF we(1) Cons.prems(4)], of s0]
  consider "fst e < n" | "n < fst e" | "fst e = n" by linarith
  then show ?case
  proof cases
    case 1
    then have le: "endp e \<le> n" using Cons.prems(2) by simp
    have adv: "advance (conc s0 (e # d)) b = advance (conc s0 d) b"
      using 1 ns(3) Cons.prems(5) by simp
    from Cons.IH [OF ch(1) _ _ Cons.prems(4,5,6,7)] Cons.prems(2,3)
    obtain n' l' where h: "advance (conc s0 d) b = Some (b\<lparr>m_nextRxSeq := s0 + of_nat n',
        m_availBytes := m_availBytes b + of_nat (n' - n), m_sackList := cblocks s0 l'\<rparr>)"
      "n \<le> n'" "{n..<n'} \<subseteq> held d" "n' \<notin> held d" "in_window w n'"
      "l' = (if n' = n then l else filter (\<lambda>x. n' < snd x) l)"
      by auto
    moreover have "{n..<n'} \<subseteq> held (e # d)" "n' \<notin> held (e # d)" using h(2-4) le by auto
    ultimately show ?thesis unfolding adv by blast
  next
    case 2
    have b: "b\<lparr>m_nextRxSeq := s0 + of_nat n, m_availBytes := m_availBytes b + of_nat (n - n),
        m_sackList := cblocks s0 l\<rparr> = b" using Cons.prems(5,6) by (cases b) simp
    have "n \<notin> held (e # d)" using chain_held [OF ch(1), of n] 2 ch(2) by auto
    moreover have "advance (conc s0 (e # d)) b = Some b"
      using 2 ns(1,3) Cons.prems(5) by simp
    ultimately show ?thesis
      using Cons.prems(4) b by (intro exI [of _ n] exI [of _ l]) simp
  next
    case 3
    let ?m = "endp e"
    let ?l = "filter (\<lambda>x. ?m < snd x) l"
    let ?b = "b\<lparr>m_nextRxSeq := s0 + of_nat ?m, m_availBytes := m_availBytes b + rx_len (snd e), m_sackList := cblocks s0 ?l\<rparr>"
    have sm: "s0 + of_nat (fst e) + rx_len (snd e) = s0 + of_nat ?m" by simp
    have "ClearSackList (s0 + of_nat ?m) (b\<lparr>m_nextRxSeq := s0 + of_nat ?m, m_availBytes := m_availBytes b + rx_len (snd e)\<rparr>) = Some ?b"
      using clear_refines [OF Cons.prems(7) we(2), of s0] Cons.prems(6) by (simp add: ClearSackList_def)
    then have adv: "advance (conc s0 (e # d)) b = advance (conc s0 d) ?b"
      using 3 ns(1,3) Cons.prems(5) sm by (simp add: add.assoc)
    have "\<forall>f \<in> set d. fst f < ?m \<longrightarrow> endp f \<le> ?m"
      using chain_lower [OF ch(1)] by fastforce
    from Cons.IH [OF ch(1) this _ we(2), of ?b ?l] Cons.prems(3,7)
    obtain n' l' where h: "advance (conc s0 d) ?b = Some (?b\<lparr>m_nextRxSeq := s0 + of_nat n',
        m_availBytes := m_availBytes ?b + of_nat (n' - ?m), m_sackList := cblocks s0 l'\<rparr>)"
      "?m \<le> n'" "{?m..<n'} \<subseteq> held d" "n' \<notin> held d" "in_window w n'"
      "l' = (if n' = ?m then ?l else filter (\<lambda>x. n' < snd x) ?l)"
      by auto
    have l: "l' = filter (\<lambda>x. n' < snd x) l" using h(2,6) by (auto intro: filter_cong)
    have a: "rx_len (snd e) + of_nat (n' - ?m) = (of_nat (n' - n) :: uint32)"
    proof -
      have "length (snd e) + (n' - ?m) = n' - n" using h(2) 3 by simp
      then show ?thesis by (metis of_nat_add)
    qed
    have "{n..<n'} = {fst e..<?m} \<union> {?m..<n'}" using h(2) 3 by auto
    then have "{n..<n'} \<subseteq> held (e # d)" using h(3) by auto
    moreover have "n' \<notin> held (e # d)" using h(2,4) by auto
    moreover have "advance (conc s0 (e # d)) b = Some (b\<lparr>m_nextRxSeq := s0 + of_nat n',
        m_availBytes := m_availBytes b + of_nat (n' - n), m_sackList := cblocks s0 l'\<rparr>)"
      using h(1) a unfolding adv by (simp add: add.assoc)
    ultimately show ?thesis
      using h(2,5) l ch(2) 3 by (intro exI [of _ n'] exI [of _ l']) auto
  qed
qed

end
