(* ===== verification/RxAdd.thy ===== *)
theory RxAdd
  imports RxInv
begin

text \<open>
  The invariant of the receive buffer with respect to the stream \<open>S\<close> of bytes that the sender
  transmits: \<open>R\<close> bytes were read by the application, \<open>n\<close> is the first position not received. \<open>Add\<close>
  and \<open>Extract\<close> keep it and never abort.
\<close>

text \<open>Half a gigabyte: how far from \<open>R\<close> the segments on the way may lie.\<close>

definition reach :: nat where "reach = 536870912"

definition rx_inv ::
  "seq32 \<Rightarrow> (nat \<Rightarrow> uint8) \<Rightarrow> nat \<Rightarrow> nat \<Rightarrow> entry list \<Rightarrow> (nat \<times> nat) list \<Rightarrow> rx_buffer \<Rightarrow> bool" where
  "rx_inv s0 S R n d l b \<longleftrightarrow>
     m_data b = conc s0 d \<and> chain R d \<and> m_nextRxSeq b = s0 + of_nat n \<and> R \<le> n \<and>
     {R..<n} \<subseteq> held d \<and> n \<notin> held d \<and> n \<le> R + reach \<and>
     m_availBytes b = of_nat (n - R) \<and> rx_size b = of_nat (total_len d) \<and>
     (\<forall>e \<in> set d. snd e = map S [fst e..<endp e] \<and> endp e \<le> R + reach) \<and>
     unat (rx_maxBuffer b) \<le> 1073741824 \<and>
     m_sackList b = cblocks s0 l \<and> length l \<le> 4 \<and>
     (\<forall>x \<in> set l. n < fst x \<and> fst x < snd x \<and> {fst x..<snd x} \<subseteq> held d) \<and> \<not> m_gotFin b"

abbreviation base :: "nat \<Rightarrow> nat" where
  "base R \<equiv> R - reach"

lemma window_R: "R < q + reach \<Longrightarrow> q < R + reach + 1073741824 \<Longrightarrow> in_window (base R) q"
  by (auto simp: in_window_def reach_def)

lemma held_upper: "\<forall>e \<in> set d. endp e \<le> u \<Longrightarrow> x \<in> held d \<Longrightarrow> x < u"
  by (fastforce simp: held_def)

text \<open>The part of a segment that the buffer takes.\<close>

definition limit :: "nat \<Rightarrow> entry list \<Rightarrow> nat \<Rightarrow> nat" where
  "limit mx d t = (case d of [] \<Rightarrow> t | e # _ \<Rightarrow> min t (fst e + mx))"

definition accepted :: "nat \<Rightarrow> nat \<Rightarrow> entry list \<Rightarrow> nat \<Rightarrow> nat \<Rightarrow> nat set" where
  "accepted n mx d q k = {max q n..<limit mx d (q + k)}"

text \<open>A segment of the stream that may be on the way.\<close>

definition segment :: "(nat \<Rightarrow> uint8) \<Rightarrow> nat \<Rightarrow> nat \<Rightarrow> uint8 list \<Rightarrow> bool" where
  "segment S R q p \<longleftrightarrow> p = map S [q..<q + length p] \<and> R < q + reach \<and> q + length p \<le> R + reach"

lemma of_nat_limit:
  assumes "d \<noteq> []" "near (fst (hd d) + mx) t"
  shows "(if seq_lt (s0 + of_nat (fst (hd d)) + of_nat mx) (s0 + of_nat t)
      then s0 + of_nat (fst (hd d)) + of_nat mx else s0 + of_nat t) = s0 + of_nat (limit mx d t)"
proof -
  have e: "s0 + of_nat (fst (hd d)) + of_nat mx = s0 + of_nat (fst (hd d) + mx)" by simp
  show ?thesis
    unfolding e near_seq(3) [OF assms(2)] using assms(1) by (cases d) (auto simp: limit_def)
qed

text \<open>The trimming at the start of \<open>Add\<close>, on positions.\<close>

lemma add_trim:
  assumes inv: "rx_inv s0 S R n d l b" and seg: "segment S R q p"
  defines "mx \<equiv> unat (rx_maxBuffer b)"
  defines "t \<equiv> limit mx d (q + length p)"
  defines "h \<equiv> (if d = [] then max q n else min (max q n) t)"
  shows "trim_window p (s0 + of_nat q) b = (s0 + of_nat h, s0 + of_nat t)"
    and "in_window (base R) h" "in_window (base R) t" "in_window (base R) q" "in_window (base R) n"
proof -
  have q: "in_window (base R) q" "in_window (base R) (q + length p)" "in_window (base R) n"
  proof -
    have f: "R < q + reach" "q + length p \<le> R + reach" "R \<le> n" "n \<le> R + reach"
      using seg inv by (simp_all add: segment_def rx_inv_def)
    show "in_window (base R) q" "in_window (base R) (q + length p)" "in_window (base R) n"
      using f by (auto simp: in_window_def reach_def)
  qed
  then show "in_window (base R) q" "in_window (base R) n" by simp_all
  have mw: "in_window (base R) (fst (hd d) + mx)" if "d \<noteq> []"
  proof -
    have "chain R d" "endp (hd d) \<le> R + reach" using inv that by (auto simp: rx_inv_def)
    moreover from this(1) have "R \<le> fst (hd d)" "fst (hd d) < endp (hd d)"
      using that by (cases d; simp)+
    ultimately have "R \<le> fst (hd d)" "fst (hd d) < R + reach" by linarith+
    moreover have "mx \<le> 1073741824" using inv by (simp add: rx_inv_def mx_def)
    ultimately show ?thesis by (intro window_R) (simp_all add: reach_def)
  qed
  show tw: "in_window (base R) t"
    using q(2) mw by (cases d) (auto simp: t_def limit_def min_def)
  have hw: "in_window (base R) (max q n)" using q by (simp add: max_def)
  then show "in_window (base R) h" using tw by (simp add: h_def min_def)
  have head: "(if seq_lt (s0 + of_nat q) (m_nextRxSeq b) then m_nextRxSeq b else s0 + of_nat q) = s0 + of_nat (max q n)"
    using inv near_seq(3) [OF in_window_near [OF q(1,3)], of s0] by (auto simp: rx_inv_def max_def)
  have tail: "s0 + of_nat q + rx_len p = s0 + of_nat (q + length p)" by simp
  have mx: "rx_maxBuffer b = of_nat mx" by (simp add: mx_def)
  show "trim_window p (s0 + of_nat q) b = (s0 + of_nat h, s0 + of_nat t)"
  proof (cases d)
    case Nil
    then have "m_data b = []" using inv by (simp add: rx_inv_def)
    with Nil show ?thesis unfolding trim_window_def Let_def head tail by (simp add: h_def t_def limit_def)
  next
    case (Cons e d2)
    have db: "m_data b = (s0 + of_nat (fst e), snd e) # conc s0 d2" using inv Cons by (simp add: rx_inv_def)
    have dn: "d \<noteq> []" "fst (hd d) = fst e" using Cons by simp_all
    have ts: "(if seq_lt (s0 + of_nat (fst e) + of_nat mx) (s0 + of_nat (q + length p))
        then s0 + of_nat (fst e) + of_nat mx else s0 + of_nat (q + length p)) = s0 + of_nat t"
      using of_nat_limit [OF dn(1) in_window_near [OF mw [OF dn(1)] q(2)], of s0] unfolding dn(2) t_def .
    show ?thesis
      unfolding trim_window_def db list.case prod.case Let_def head tail mx ts
      using near_seq(3) [OF in_window_near [OF tw hw], of s0] Cons by (auto simp: h_def min_def)
  qed
qed

text \<open>The step that reports a segment above \<open>RCV.NXT\<close> in the SACK list.\<close>

lemma add_sack:
  assumes n: "m_nextRxSeq b = s0 + of_nat n" "in_window w n" and h: "n \<le> h" "h < t" "in_window w h" "in_window w t"
    and l: "m_sackList b = cblocks s0 l" "length l \<le> 4" "\<forall>x \<in> set l. block_ok w {x \<in> held d. n < x} x"
    and sub: "{h..<t} \<subseteq> held d"
  obtains l1 where "(if seq_gt (s0 + of_nat h) (m_nextRxSeq b) then UpdateSackList (s0 + of_nat h) (s0 + of_nat t) b else Some b)
      = Some (b\<lparr>m_sackList := cblocks s0 l1\<rparr>)"
    "length l1 \<le> 4" "\<forall>x \<in> set l1. block_ok w {x \<in> held d. n < x} x"
proof (cases "n < h")
  case True
  let ?H = "{x \<in> held d. n < x}"
  let ?m = "nmerge (h, t) [] l"
  have gt: "seq_gt (s0 + of_nat h) (m_nextRxSeq b)"
    using near_seq(1) [OF in_window_near [OF h(3) n(2)], of s0] True n(1) by simp
  have blk: "block_ok w ?H (h, t)" using h sub True by (auto simp: block_ok_def)
  have m: "\<forall>x \<in> set ?m. block_ok w ?H x" "length ?m \<le> 5"
    using nmerge_ok [OF blk, of "[]" l] l by auto
  have "merge_scan (s0 + of_nat h, s0 + of_nat t) [] (m_sackList b) = Some (cblocks s0 ?m)"
    using merge_refines [OF blk, of "[]" l s0] l by simp
  then have "UpdateSackList (s0 + of_nat h) (s0 + of_nat t) b =
      Some (b\<lparr>m_sackList := cblocks s0 (if length ?m > 4 then butlast ?m else ?m)\<rparr>)"
    using gt by (simp add: UpdateSackList_def)
  with gt show ?thesis
    using m by (intro that [of "if length ?m > 4 then butlast ?m else ?m"]) (auto dest: in_set_butlastD)
next
  case False
  then have "\<not> seq_gt (s0 + of_nat h) (m_nextRxSeq b)"
    using near_seq(1) [OF in_window_near [OF h(3) n(2)], of s0] n(1) by simp
  moreover have "b\<lparr>m_sackList := cblocks s0 l\<rparr> = b" using l(1) by (cases b) simp
  ultimately show ?thesis using l by (intro that [of l]) simp_all
qed

text \<open>The blocks that survive an advance lie above the new \<open>RCV.NXT\<close>.\<close>

lemma kept_blocks:
  assumes "\<forall>x \<in> set l1. block_ok w {x \<in> held d. n < x} x" "n' \<notin> held d" "n \<le> n'"
    and "l' = (if n' = n then l1 else filter (\<lambda>x. n' < snd x) l1)" "x \<in> set l'"
  shows "n' < fst x \<and> fst x < snd x \<and> {fst x..<snd x} \<subseteq> held d"
proof -
  have x: "x \<in> set l1" "n' = n \<or> n' < snd x" using assms(4,5) by (auto split: if_splits)
  then have b: "fst x < snd x" "{fst x..<snd x} \<subseteq> {x \<in> held d. n < x}"
    using assms(1) by (auto simp: block_ok_def)
  then have "n < fst x" by auto
  moreover have "n' \<notin> {fst x..<snd x}" using b(2) assms(2) by blast
  ultimately show ?thesis using b x(2) by auto
qed

lemma fragment_of_stream:
  assumes "p = map S [q..<q + length p]" "q \<le> h" "h < t" "t \<le> q + length p"
  shows "take (t - h) (drop (h - q) p) = map S [h..<t]"
proof -
  have "drop (h - q) p = map S [h..<q + length p]"
    using assms(2) by (subst assms(1)) (simp add: drop_map)
  then show ?thesis using assms(3,4) by (simp add: take_map)
qed

section \<open>Add\<close>

lemma inv_windows:
  assumes "rx_inv s0 S R n d l b"
  shows "\<forall>e \<in> set d. in_window (base R) (fst e) \<and> in_window (base R) (endp e)"
    and "\<forall>x \<in> set l. block_ok (base R) {x \<in> held d. n < x} x"
proof -
  have ch: "chain R d" and up: "\<forall>e \<in> set d. endp e \<le> R + reach" and n: "R \<le> n"
    and l: "\<forall>x \<in> set l. n < fst x \<and> fst x < snd x \<and> {fst x..<snd x} \<subseteq> held d"
    using assms by (simp_all add: rx_inv_def)
  show "\<forall>e \<in> set d. in_window (base R) (fst e) \<and> in_window (base R) (endp e)"
    using chain_lower [OF ch] up by (fastforce simp: in_window_def reach_def)
  show "\<forall>x \<in> set l. block_ok (base R) {x \<in> held d. n < x} x"
  proof
    fix x assume "x \<in> set l"
    with l have x: "n < fst x" "fst x < snd x" "{fst x..<snd x} \<subseteq> held d" by simp_all
    then have "snd x - 1 \<in> held d" by auto
    from held_upper [OF up this] have "snd x \<le> R + reach" by linarith
    with x n show "block_ok (base R) {x \<in> held d. n < x} x"
      by (auto simp: block_ok_def in_window_def reach_def)
  qed
qed

lemma add_ntrim:
  assumes "rx_inv s0 S R n d l b" "ntrim d h t = (d1, h', t')" "d \<noteq> [] \<Longrightarrow> h \<le> t"
  shows "chain R d1 \<and> set d1 \<subseteq> set d \<and> h \<le> h' \<and> t' \<le> t \<and>
    (if h' < t' then (\<forall>e \<in> set d1. endp e \<le> h' \<or> t' \<le> fst e) \<and> held d1 \<union> {h'..<t'} = held d \<union> {h..<t}
     else d1 = d \<and> {h..<t} \<subseteq> held d)"
proof (cases "d = []")
  case False
  have "chain R d" using assms(1) by (simp add: rx_inv_def)
  from ntrim_ok [OF this assms(2) assms(3) [OF False]] show ?thesis .
qed (use assms(2) in auto)

lemma seq_diff_unat:
  assumes "near i j" "j \<le> i"
  shows "unat (of_int (seq_diff (s0 + of_nat i) (s0 + of_nat j)) :: uint32) = i - j"
proof -
  have "(of_int (int i - int j) :: uint32) = of_nat (i - j)"
    using assms(2) by (simp add: of_nat_diff)
  moreover have "i - j < 4294967296" using assms(1) unfolding near_def by linarith
  ultimately show ?thesis
    unfolding near_seq(6) [OF assms(1)] by (simp add: unat_of_nat take_bit_nat_eq_self)
qed

lemma store_ok:
  assumes inv: "rx_inv s0 S R n d l b" and seg: "segment S R q p"
    and d1: "chain R d1" "set d1 \<subseteq> set d" "\<forall>e \<in> set d1. endp e \<le> h \<or> t \<le> fst e"
    and ht: "q \<le> h" "n \<le> h" "h < t" "t \<le> q + length p"
    and w: "in_window (base R) q" "in_window (base R) n" "in_window (base R) h" "in_window (base R) t"
    and sub: "held d \<subseteq> held d1 \<union> {h..<t}"
  shows "\<exists>b' n' d2 l'. store_segment now ok p (s0 + of_nat q) (s0 + of_nat h) (s0 + of_nat t)
        (b\<lparr>m_data := conc s0 d1, rx_size := of_nat (total_len d1)\<rparr>) = Some b' \<and>
    rx_inv s0 S R n' d2 l' b' \<and> n \<le> n' \<and> held d2 = held d1 \<union> {h..<t} \<and> rx_maxBuffer b' = rx_maxBuffer b"
proof -
  let ?w = "base R"
  define pl where "pl = map S [h..<t]"
  define d2 where "d2 = nput h pl d1"
  note i = inv [unfolded rx_inv_def]
  have len: "length pl = t - h" "h + length pl = t" "pl \<noteq> []" using ht(3) by (simp_all add: pl_def)
  have frag: "take (t - h) (drop (h - q) p) = pl"
    unfolding pl_def using fragment_of_stream [of p S q h t] seg ht by (simp add: segment_def)
  have st: "unat (of_int (seq_diff (s0 + of_nat h) (s0 + of_nat q)) :: uint32) = h - q"
      "unat (of_int (seq_diff (s0 + of_nat t) (s0 + of_nat h)) :: uint32) = t - h"
    using seq_diff_unat [OF in_window_near [OF w(3,1)] ht(1)]
      seq_diff_unat [OF in_window_near [OF w(4,3)] less_imp_le [OF ht(3)]] by simp_all
  have wd: "\<forall>e \<in> set d1. in_window ?w (fst e) \<and> in_window ?w (endp e)"
    using inv_windows(1) [OF inv] d1(2) by blast
  have ne: "fst e \<noteq> h" if "e \<in> set d1" for e
    using d1(3) that chain_lower [OF d1(1) that] ht(3) by fastforce
  have put: "data_put (s0 + of_nat h) pl (conc s0 d1) = conc s0 d2"
    unfolding d2_def using put_refines [of d1 h] ne wd w(3) in_window_near by blast
  have fresh: "s0 + of_nat h \<notin> fst ` set (conc s0 d1)"
    using ne wd near_seq(5) [OF in_window_near [OF w(3)]] by (fastforce simp: conc_def)
  have d2: "chain R d2" "set d2 = insert (h, pl) (set d1)" "held d2 = held d1 \<union> {h..<t}"
      "total_len d2 = total_len d1 + (t - h)"
    using nput_ok [OF d1(1) _ len(3), of h] d1(3) ht(2) i len by (simp_all add: d2_def)
  define b1 where "b1 = b\<lparr>m_data := conc s0 d2, rx_size := of_nat (total_len d1),
      m_tputOut := (if ok then m_tputOut b @ [(now, rx_len pl)] else m_tputOut b)\<rparr>"
  have nx: "m_nextRxSeq b1 = s0 + of_nat n" "m_sackList b1 = cblocks s0 l" using i by (simp_all add: b1_def)
  have "{x \<in> held d. n < x} \<subseteq> {x \<in> held d2. n < x}" using sub d2(3) by blast
  then have "\<forall>x \<in> set l. block_ok ?w {x \<in> held d2. n < x} x"
    using inv_windows(2) [OF inv] block_ok_mono by blast
  from add_sack [OF nx(1) w(2) ht(2,3) w(3,4) nx(2) _ this] i d2(3)
  obtain l1 where up: "(if seq_gt (s0 + of_nat h) (m_nextRxSeq b1) then UpdateSackList (s0 + of_nat h) (s0 + of_nat t) b1 else Some b1)
      = Some (b1\<lparr>m_sackList := cblocks s0 l1\<rparr>)"
    and l1: "length l1 \<le> 4" "\<forall>x \<in> set l1. block_ok ?w {x \<in> held d2. n < x} x"
    by blast
  define b3 where "b3 = b1\<lparr>m_sackList := cblocks s0 l1, rx_size := of_nat (total_len d2)\<rparr>"
  have below: "\<forall>e \<in> set d2. fst e < n \<longrightarrow> endp e \<le> n"
  proof (intro ballI impI)
    fix e assume e: "e \<in> set d2" "fst e < n"
    then have "e \<in> set d" using d2(2) d1(2) ht(2) by auto
    moreover have "n \<notin> held d" using i by simp
    ultimately show "endp e \<le> n" using e(2) unfolding held_def by force
  qed
  have wd2: "\<forall>e \<in> set d2. in_window ?w (fst e) \<and> in_window ?w (endp e)"
    using wd d2(2) w(3,4) len by simp
  have b3: "m_nextRxSeq b3 = s0 + of_nat n" "m_sackList b3 = cblocks s0 l1"
    using nx by (simp_all add: b3_def)
  from advance_ok [OF d2(1) below wd2 w(2) b3 l1(2)]
  obtain n' l' where adv: "advance (conc s0 d2) b3 = Some (b3\<lparr>m_nextRxSeq := s0 + of_nat n',
        m_availBytes := m_availBytes b3 + of_nat (n' - n), m_sackList := cblocks s0 l'\<rparr>)"
    and n': "n \<le> n'" "{n..<n'} \<subseteq> held d2" "n' \<notin> held d2" "in_window ?w n'"
    and l': "l' = (if n' = n then l1 else filter (\<lambda>x. n' < snd x) l1)"
    by blast
  define b' where "b' = b3\<lparr>m_nextRxSeq := s0 + of_nat n',
        m_availBytes := m_availBytes b3 + of_nat (n' - n), m_sackList := cblocks s0 l'\<rparr>"
  have "store_segment now ok p (s0 + of_nat q) (s0 + of_nat h) (s0 + of_nat t)
        (b\<lparr>m_data := conc s0 d1, rx_size := of_nat (total_len d1)\<rparr>) = Some b'"
  proof -
    let ?B = "b\<lparr>m_data := conc s0 d1, rx_size := of_nat (total_len d1)\<rparr>"
    have e: "?B\<lparr>m_data := data_put (s0 + of_nat h) pl (m_data ?B),
        m_tputOut := (if ok then m_tputOut ?B @ [(now, rx_len pl)] else m_tputOut ?B)\<rparr> = b1"
      by (simp add: b1_def put)
    have f: "(b1\<lparr>m_sackList := cblocks s0 l1\<rparr>)\<lparr>rx_size := rx_size (b1\<lparr>m_sackList := cblocks s0 l1\<rparr>) + rx_len pl\<rparr> = b3"
      using d2(4) len(1) ht(3) by (simp add: b3_def b1_def)
    have g: "m_data b3 = conc s0 d2" "\<not> m_gotFin b'" using i by (simp_all add: b3_def b1_def b'_def)
    have a: "ns_assert (h - q + (t - h) \<le> length p) = Some ()" "ns_assert (s0 + of_nat h \<notin> fst ` set (m_data ?B)) = Some ()"
      using ht fresh by (simp_all add: ns_assert_def)
    show ?thesis
      unfolding store_segment_def Let_def st frag e a up Option.bind_lunit f g adv b'_def [symmetric]
      using g(2) by simp
  qed
  moreover have "rx_inv s0 S R n' d2 l' b'"
  proof -
    have up2: "\<forall>e \<in> set d2. snd e = map S [fst e..<endp e] \<and> endp e \<le> R + reach"
      using d2(2) d1(2) i seg ht(4) len(2) by (auto simp: pl_def segment_def)
    have "n' = n \<or> n' - 1 \<in> held d2" using n'(1,2) by (cases "n' = n") auto
    then have "n' \<le> R + reach" using i held_upper [of d2 "R + reach" "n' - 1"] up2 by auto
    moreover have "{R..<n'} \<subseteq> held d2"
    proof -
      have "{R..<n'} = {R..<n} \<union> {n..<n'}" using n'(1) i by auto
      moreover have "{R..<n} \<subseteq> held d2" using i sub d2(3) by blast
      ultimately show ?thesis using n'(2) by blast
    qed
    moreover have "m_availBytes b' = of_nat (n' - R)"
      using i n'(1) by (simp add: b'_def b3_def b1_def of_nat_diff)
    moreover have "\<forall>x \<in> set l'. n' < fst x \<and> fst x < snd x \<and> {fst x..<snd x} \<subseteq> held d2"
      using kept_blocks [OF l1(2) n'(3,1) l'] by blast
    moreover have "length l' \<le> 4" using l1(1) l' by (auto intro: le_trans [OF length_filter_le])
    ultimately show ?thesis
      using i n' d2(1) up2 by (simp add: rx_inv_def b'_def b3_def b1_def)
  qed
  moreover have "rx_maxBuffer b' = rx_maxBuffer b" by (simp add: b'_def b3_def b1_def)
  ultimately show ?thesis using n'(1) d2(3) by blast
qed

lemma rx_Add_ok:
  assumes inv: "rx_inv s0 S R n d l b" and seg: "segment S R q p"
  shows "\<exists>r b' n' d' l'. rx_Add now ok p (s0 + of_nat q) b = Some (r, b') \<and> rx_inv s0 S R n' d' l' b' \<and>
    n \<le> n' \<and> held d' = held d \<union> accepted n (unat (rx_maxBuffer b)) d q (length p) \<and>
    r = (\<not> accepted n (unat (rx_maxBuffer b)) d q (length p) \<subseteq> held d) \<and> rx_maxBuffer b' = rx_maxBuffer b"
proof -
  let ?w = "base R"
  define mx where "mx = unat (rx_maxBuffer b)"
  define t where "t = limit mx d (q + length p)"
  define h where "h = (if d = [] then max q n else min (max q n) t)"
  note tr = add_trim [OF inv seg, folded mx_def, folded t_def, folded h_def]
  obtain d1 h' t' where nt: "ntrim d h t = (d1, h', t')" by (metis prod_cases3)
  have acc: "accepted n mx d q (length p) = {h..<t}" by (auto simp: accepted_def h_def t_def)
  note tm = add_ntrim [OF inv nt]
  have ht: "d \<noteq> [] \<Longrightarrow> h \<le> t" by (simp add: h_def)
  note tm = tm [OF this]
  note i = inv [unfolded rx_inv_def]
  have trim: "trim_overlap (m_data b) (s0 + of_nat h) (s0 + of_nat t) (rx_size b) =
      (conc s0 d1, s0 + of_nat h', s0 + of_nat t', of_nat (total_len d1))"
    and w': "in_window ?w h'" "in_window ?w t'"
    using trim_refines [OF inv_windows(1) [OF inv] tr(2,3) nt, of s0 "rx_size b"] i total_len_ntrim [OF nt]
    by (simp_all add: of_nat_diff)
  have ge: "seq_ge (s0 + of_nat h') (s0 + of_nat t') \<longleftrightarrow> t' \<le> h'"
    by (rule near_seq(2) [OF in_window_near [OF w']])
  show ?thesis
  proof (cases "h' < t'")
    case False
    then have d1: "d1 = d" "{h..<t} \<subseteq> held d" using tm by simp_all
    have "b\<lparr>m_data := conc s0 d1, rx_size := of_nat (total_len d1)\<rparr> = b"
      using d1 i by (cases b) simp
    then have "rx_Add now ok p (s0 + of_nat q) b = Some (False, b)"
      using False unfolding rx_Add_def tr(1) Let_def prod.case trim ge by simp
    then show ?thesis
      using inv d1 acc unfolding mx_def by blast
  next
    case True
    have tm': "\<forall>e \<in> set d1. endp e \<le> h' \<or> t' \<le> fst e" "held d1 \<union> {h'..<t'} = held d \<union> {h..<t}"
      "chain R d1" "set d1 \<subseteq> set d" "h \<le> h'" "t' \<le> t"
      using tm True by simp_all
    have hq: "h = max q n" using True tm'(5,6) by (auto simp: h_def min_def)
    have tq: "t' \<le> q + length p" using tm'(6) by (auto simp: t_def limit_def split: list.splits)
    have "q \<le> h'" "n \<le> h'" using hq tm'(5) by auto
    from store_ok [OF inv seg tm'(3,4,1) this True tq tr(4,5) w', of now ok]
    obtain b' n' d2 l' where st: "store_segment now ok p (s0 + of_nat q) (s0 + of_nat h') (s0 + of_nat t')
        (b\<lparr>m_data := conc s0 d1, rx_size := of_nat (total_len d1)\<rparr>) = Some b'"
      "rx_inv s0 S R n' d2 l' b'" "n \<le> n'" "held d2 = held d1 \<union> {h'..<t'}" "rx_maxBuffer b' = rx_maxBuffer b"
      using tm'(2) by blast
    have "rx_Add now ok p (s0 + of_nat q) b = Some (True, b')"
      using True unfolding rx_Add_def tr(1) Let_def prod.case trim ge st(1) by simp
    moreover have "\<not> {h..<t} \<subseteq> held d"
    proof -
      have "h' \<notin> held d" using ntrim_new [OF _ nt ht True] i by blast
      moreover have "h' \<in> {h..<t}" using True tm'(5,6) by simp
      ultimately show ?thesis by blast
    qed
    ultimately show ?thesis
      using st(2-5) acc tm'(2) unfolding mx_def by blast
  qed
qed

end
