(* ===== verification/RxExtract.thy ===== *)
theory RxExtract
  imports RxAdd
begin

text \<open>
  Reading from the receive buffer: \<open>Extract\<close> returns the next bytes of the stream and keeps the
  invariant.
\<close>

lemma extract_inv:
  assumes inv: "rx_inv s0 S R n d l b" and k: "k \<le> n - R"
    and d': "chain (R + k) d'" "held d' = {x \<in> held d. R + k \<le> x}" "total_len d = total_len d' + k"
      "\<forall>e \<in> set d'. snd e = map S [fst e..<endp e] \<and> endp e \<le> R + reach"
  shows "rx_inv s0 S (R + k) n d' l (b\<lparr>m_data := conc s0 d', rx_size := rx_size b - of_nat k,
    m_availBytes := m_availBytes b - of_nat k\<rparr>)"
proof -
  note i = inv [unfolded rx_inv_def]
  have "R + k \<le> n" using k i by auto
  moreover have "{R + k..<n} \<subseteq> held d'" "n \<notin> held d'" using i d'(2) by auto
  moreover have "m_availBytes b - of_nat k = of_nat (n - (R + k))" "rx_size b - of_nat k = of_nat (total_len d')"
    using i d'(3) \<open>R + k \<le> n\<close> by (simp_all add: of_nat_diff)
  moreover have "\<forall>x \<in> set l. {fst x..<snd x} \<subseteq> held d'"
  proof
    fix x assume "x \<in> set l"
    then have "n < fst x" "{fst x..<snd x} \<subseteq> held d" using i by blast+
    then show "{fst x..<snd x} \<subseteq> held d'" unfolding d'(2) using \<open>R + k \<le> n\<close> by auto
  qed
  moreover have "\<forall>e \<in> set d'. snd e = map S [fst e..<endp e] \<and> endp e \<le> R + k + reach"
    using d'(4) by fastforce
  ultimately show ?thesis using i d'(1) unfolding rx_inv_def by simp
qed

lemma first_entry:
  assumes "rx_inv s0 S R n d l b" "R < n"
  obtains p d2 where "d = (R, p) # d2" "p \<noteq> []" "R + length p \<le> n" "chain (R + length p) d2"
proof -
  note i = assms(1) [unfolded rx_inv_def]
  have R: "R \<in> held d" using i assms(2) by auto
  then obtain e d2 where d: "d = e # d2" by (cases d) auto
  then have c: "chain (endp e) d2" "snd e \<noteq> []" "R \<le> fst e" using i by auto
  then have e: "fst e = R" using R chain_held [OF c(1), of R] unfolding d by (cases "snd e") auto
  moreover have "n \<notin> {R..<endp e}" using i e unfolding d by auto
  ultimately show ?thesis using that [of "snd e" d2] d c assms(2) by (cases e) auto
qed

lemma total_len_bound:
  assumes "chain lo d" "\<forall>e \<in> set d. endp e \<le> u" shows "total_len d \<le> u - lo"
  using assms
proof (induction d arbitrary: lo)
  case (Cons e d)
  then have "total_len d \<le> u - endp e" by simp
  with Cons.prems show ?case by auto
qed simp

lemma rx_len_le: "m < 4294967296 \<Longrightarrow> k < 4294967296 \<Longrightarrow> (of_nat m :: uint32) \<le> of_nat k \<longleftrightarrow> m \<le> k"
  by (simp add: word_le_nat_alt unat_of_nat take_bit_nat_eq_self)

lemma of_nat_eq_0: "k < 4294967296 \<Longrightarrow> (of_nat k :: uint32) = 0 \<longleftrightarrow> k = 0"
  by (auto simp: word_of_nat_eq_0_iff dest: nat_dvd_not_less)

lemma split_entry:
  assumes "rx_inv s0 S R n ((R, p) # d2) l b" "0 < k" "k < length p"
  shows "filter (\<lambda>e. fst e \<noteq> s0 + of_nat R)
      (data_put (s0 + of_nat R + of_nat k) (drop k p) (conc s0 ((R, p) # d2))) =
    conc s0 ((R + k, drop k p) # d2)"
proof -
  have w: "\<forall>e \<in> set ((R, p) # d2). in_window (base R) (fst e) \<and> in_window (base R) (endp e)"
    by (rule inv_windows(1) [OF assms(1)])
  then have wk: "in_window (base R) (R + k)" using assms(3) by (auto simp: in_window_def)
  have later: "R + length p \<le> fst e" if "e \<in> set d2" for e
  proof -
    have "chain (R + length p) d2" using assms(1) by (simp add: rx_inv_def)
    from chain_lower [OF this that] show ?thesis by simp
  qed
  have lt: "seq_lt (s0 + of_nat R) (s0 + of_nat (R + k))" "\<not> seq_lt (s0 + of_nat (R + k)) (s0 + of_nat R)"
    using near_seq(3) [OF in_window_near [of "base R" R "R + k"]] near_seq(3) [OF in_window_near [of "base R" "R + k" R]]
      w wk assms(2) by simp_all
  have n: "near (fst e) (R + k) \<and> near (R + k) (fst e) \<and> fst e \<noteq> R + k" if "e \<in> set d2" for e
    using in_window_near w wk that later [OF that] assms(3) by fastforce
  then have "data_put (s0 + of_nat (R + k)) (drop k p) (conc s0 d2) = conc s0 (nput (R + k) (drop k p) d2)"
    by (intro put_refines) blast
  also have "nput (R + k) (drop k p) d2 = (R + k, drop k p) # d2"
    using later assms(3) by (cases d2) fastforce+
  finally have put: "data_put (s0 + of_nat (R + k)) (drop k p) (conc s0 ((R, p) # d2)) =
      conc s0 ((R, p) # (R + k, drop k p) # d2)"
    using lt by simp
  have "s0 + of_nat (fst e) \<noteq> s0 + of_nat R" if "e \<in> set d2" for e
    using near_seq(5) [OF in_window_near [of "base R" "fst e" R]] w that later [OF that] assms(3) by fastforce
  then have "filter (\<lambda>e. fst e \<noteq> s0 + of_nat R) (conc s0 d2) = conc s0 d2"
    by (auto simp: conc_def filter_id_conv)
  moreover have "s0 + of_nat (R + k) \<noteq> s0 + of_nat R"
    using near_seq(5) [OF in_window_near [of "base R" "R + k" R]] w wk assms(2) by simp
  ultimately show ?thesis using put by (simp add: add.assoc)
qed

lemma unat_small: "k < 4294967296 \<Longrightarrow> unat (of_nat k :: uint32) = k"
  by (simp add: unat_of_nat take_bit_nat_eq_self)

lemma inv_sizes:
  assumes "rx_inv s0 S R n d l b" shows "n - R < 4294967296" "unat (m_availBytes b) = n - R"
proof -
  show "n - R < 4294967296" using assms by (auto simp: rx_inv_def reach_def)
  moreover have "m_availBytes b = of_nat (n - R)" using assms unfolding rx_inv_def by blast
  ultimately show "unat (m_availBytes b) = n - R" using unat_small by presburger
qed

lemma cut_cut: "a \<le> c \<Longrightarrow> {x \<in> {x \<in> H. a \<le> x}. c \<le> x} = {x \<in> H. c \<le> (x :: nat)}"
  by auto

lemma extract_loop_ok:
  assumes "rx_inv s0 S R n d l b" "k \<le> n - R"
  shows "\<exists>d' b'. extract_loop (of_nat k) out b = Some (out @ map S [R..<R + k], b') \<and>
    rx_inv s0 S (R + k) n d' l b' \<and> held d' = {x \<in> held d. R + k \<le> x} \<and> rx_maxBuffer b' = rx_maxBuffer b"
  using assms
proof (induction d arbitrary: R k out b)
  case Nil
  then have "n = R" by (auto simp: rx_inv_def)
  with Nil show ?case by (intro exI [of _ "[]"] exI [of _ b]) (simp add: extract_loop.simps [of 0])
next
  case (Cons e0 d0)
  let ?d = "e0 # d0"
  note inv = Cons.prems(1)
  note i = inv [unfolded rx_inv_def]
  have small: "k < 4294967296" using inv_sizes(1) [OF inv] Cons.prems(2) by linarith
  show ?case
  proof (cases "k = 0")
    case True
    have "held ?d = {x \<in> held ?d. R \<le> x}" using i chain_held [of R ?d] by blast
    with True inv show ?thesis by (intro exI [of _ ?d] exI [of _ b]) (simp add: extract_loop.simps [of 0])
  next
    case False
    then have "R < n" using Cons.prems(2) by simp
    from first_entry [OF inv this] obtain p d2 where
      d: "e0 = (R, p)" "d0 = d2" "p \<noteq> []" "R + length p \<le> n" "chain (R + length p) d2" by blast
    have p: "p = map S [R..<R + length p]" "R + length p \<le> R + reach" using i d by auto
    have db: "m_data b = (s0 + of_nat R, p) # conc s0 d2" using i d by simp
    have le: "seq_le (s0 + of_nat R) (m_nextRxSeq b)"
    proof -
      have "near R n" using i by (auto simp: near_def reach_def)
      from near_seq(4) [OF this] show ?thesis using i by simp
    qed
    have z: "(of_nat k :: uint32) \<noteq> 0" using of_nat_eq_0 [OF small] False by simp
    have cmp: "rx_len p \<le> of_nat k \<longleftrightarrow> length p \<le> k"
      using d(4) inv_sizes(1) [OF inv] small by (intro rx_len_le) linarith+
    show ?thesis
    proof (cases "length p \<le> k")
      case True
      let ?b = "b\<lparr>m_data := conc s0 d2, rx_size := rx_size b - rx_len p, m_availBytes := m_availBytes b - rx_len p\<rparr>"
      have h: "held d2 = {x \<in> held ?d. R + length p \<le> x}"
        using d(1,2) chain_held [OF d(5)] by auto
      have inv2: "rx_inv s0 S (R + length p) n d2 l ?b"
        using i d by (intro extract_inv [OF inv _ d(5) h]) auto
      have "k - length p \<le> n - (R + length p)" using Cons.prems(2) by simp
      from Cons.IH [unfolded d(2), OF inv2 this, of "out @ p"]
      obtain d' b' where r: "extract_loop (of_nat (k - length p)) (out @ p) ?b =
          Some ((out @ p) @ map S [R + length p..<R + length p + (k - length p)], b')"
        "rx_inv s0 S (R + length p + (k - length p)) n d' l b'"
        "held d' = {x \<in> held d2. R + length p + (k - length p) \<le> x}" "rx_maxBuffer b' = rx_maxBuffer b"
        by auto
      have k: "R + length p + (k - length p) = R + k" using True by simp
      have "extract_loop (of_nat k) out b = extract_loop (of_nat (k - length p)) (out @ p) ?b"
        using z db le cmp True by (subst extract_loop.simps) (simp add: of_nat_diff)
      moreover have "p @ map S [R + length p..<R + k] = map S [R..<R + k]"
      proof -
        have "[R..<R + k] = [R..<R + length p] @ [R + length p..<R + k]"
          using True by (metis upt_add_eq_append le_add1 add_left_mono le_iff_add add.assoc)
        with p(1) show ?thesis by (metis map_append)
      qed
      moreover have "held d' = {x \<in> held ?d. R + k \<le> x}"
        unfolding r(3) k h using True by (intro cut_cut) simp
      ultimately show ?thesis using r unfolding k by (metis append.assoc)
    next
      case False
      let ?d' = "(R + k, drop k p) # d2"
      have h: "held ?d' = {x \<in> held ?d. R + k \<le> x}"
      proof -
        have "{R + k..<R + length p} = {x \<in> {R..<R + length p}. R + k \<le> x}" using False by auto
        moreover have "held d2 = {x \<in> held d2. R + k \<le> x}" using chain_held [OF d(5)] False by fastforce
        ultimately show ?thesis using False d(1,2) by auto
      qed
      have dp: "drop k p = map S [R + k..<R + length p]"
        using drop_map [of k S "[R..<R + length p]"] unfolding p(1) [symmetric] by simp
      have inv2: "rx_inv s0 S (R + k) n ?d' l (b\<lparr>m_data := conc s0 ?d', rx_size := rx_size b - of_nat k,
          m_availBytes := m_availBytes b - of_nat k\<rparr>)"
        using i d False dp p(2) by (intro extract_inv [OF inv Cons.prems(2) _ h]) auto
      have tk: "take k p = map S [R..<R + k]"
        using take_map [of k S "[R..<R + length p]"] False unfolding p(1) [symmetric] by simp
      have "extract_loop (of_nat k) out b = Some (out @ take k p, b\<lparr>m_data := conc s0 ?d', rx_size := rx_size b - of_nat k,
          m_availBytes := m_availBytes b - of_nat k\<rparr>)"
        using z db le cmp False split_entry [OF inv [unfolded d(1,2)], of k] \<open>k \<noteq> 0\<close> small
        by (subst extract_loop.simps) (simp add: unat_small)
      then show ?thesis using inv2 h tk by (intro exI conjI) (assumption | simp)+
    qed
  qed
qed

lemma Extract_ok:
  fixes mx :: uint32
  assumes inv: "rx_inv s0 S R n d l b"
  defines "k \<equiv> min (unat mx) (n - R)"
  shows "\<exists>d' b'. Extract mx b = Some (if k = 0 then None else Some (map S [R..<R + k]), b') \<and>
    rx_inv s0 S (R + k) n d' l b' \<and> held d' = {x \<in> held d. R + k \<le> x} \<and> rx_maxBuffer b' = rx_maxBuffer b"
proof -
  have k: "min mx (m_availBytes b) = of_nat k"
  proof -
    have "unat (min mx (m_availBytes b)) = k"
      using inv_sizes(2) [OF inv] by (simp add: k_def min_def word_le_nat_alt)
    then show ?thesis by auto
  qed
  have k2: "k \<le> n - R" "k < 4294967296" using inv_sizes(1) [OF inv] by (auto simp: k_def)
  show ?thesis
  proof (cases "k = 0")
    case True
    have "held d = {x \<in> held d. R \<le> x}" using inv chain_held [of R d] by (auto simp: rx_inv_def)
    then show ?thesis
      using True inv k by (intro exI [of _ d] exI [of _ b]) (simp add: Extract_def Let_def)
  next
    case False
    then have "m_data b \<noteq> []" using inv k2(1) by (auto simp: rx_inv_def)
    moreover obtain d' b' where "extract_loop (of_nat k) [] b = Some (map S [R..<R + k], b')"
      "rx_inv s0 S (R + k) n d' l b'" "held d' = {x \<in> held d. R + k \<le> x}" "rx_maxBuffer b' = rx_maxBuffer b"
      using extract_loop_ok [OF inv k2(1), of "[]"] by auto
    ultimately show ?thesis
      using False of_nat_eq_0 [OF k2(2)] k by (intro exI [of _ d'] exI [of _ b']) (simp add: Extract_def Let_def)
  qed
qed

end
