(* ===== verification/RxProps.thy ===== *)
theory RxProps
  imports RxExtract
begin

text \<open>
  The receive buffer over all sequences of calls, and its properties. \<open>rx_run s0 S out b\<close>: from a new
  buffer that expects \<open>s0\<close>, segments of the stream \<open>S\<close> arrived in any order, duplicated and
  overlapping in any way, and the application read the bytes \<open>out\<close>.
\<close>

definition bytes_read :: "uint8 list option \<Rightarrow> uint8 list" where
  "bytes_read r = (case r of None \<Rightarrow> [] | Some p \<Rightarrow> p)"

inductive rx_run :: "seq32 \<Rightarrow> (nat \<Rightarrow> uint8) \<Rightarrow> uint8 list \<Rightarrow> rx_buffer \<Rightarrow> bool" for s0 S where
  fresh: "rx_run s0 S [] (new_rx_buffer s0)"
| resize: "rx_run s0 S out b \<Longrightarrow> unat m \<le> 1073741824 \<Longrightarrow> rx_run s0 S out (rx_SetMaxBufferSize m b)"
| arrive: "rx_run s0 S out b \<Longrightarrow> segment S (length out) q p \<Longrightarrow>
    rx_Add now ok p (s0 + of_nat q) b = Some (r, b') \<Longrightarrow> rx_run s0 S out b'"
| read: "rx_run s0 S out b \<Longrightarrow> Extract m b = Some (r, b') \<Longrightarrow> rx_run s0 S (out @ bytes_read r) b'"

lemma rx_run_inv:
  assumes "rx_run s0 S out b"
  shows "\<exists>n d l. rx_inv s0 S (length out) n d l b \<and> out = map S [0..<length out]"
  using assms
proof induction
  case fresh
  have "rx_inv s0 S 0 0 [] [] (new_rx_buffer s0)" by (simp add: rx_inv_def new_rx_buffer_def)
  then show ?case by auto
next
  case (resize out b m)
  then show ?case by (auto simp: rx_inv_def rx_SetMaxBufferSize_def)
next
  case (arrive out b q p now ok r b')
  then obtain n d l where "rx_inv s0 S (length out) n d l b" "out = map S [0..<length out]" by blast
  moreover from rx_Add_ok [OF this(1) arrive.hyps(2), of now ok] arrive.hyps(3)
  obtain n' d' l' where "rx_inv s0 S (length out) n' d' l' b'" by auto
  ultimately show ?case by blast
next
  case (read out b m r b')
  then obtain n d l where inv: "rx_inv s0 S (length out) n d l b" and out: "out = map S [0..<length out]" by blast
  let ?k = "min (unat m) (n - length out)"
  obtain d' where r: "r = (if ?k = 0 then None else Some (map S [length out..<length out + ?k]))"
    and inv': "rx_inv s0 S (length out + ?k) n d' l b'"
    using Extract_ok [OF inv, of m] read.hyps(2) by auto
  have k: "bytes_read r = map S [length out..<length out + ?k]" by (simp add: r bytes_read_def)
  have "map S [0..<length out + ?k] = map S [0..<length out] @ map S [length out..<length out + ?k]"
    by (simp only: upt_add_eq_append [OF le0] map_append)
  then have "out @ bytes_read r = map S [0..<length (out @ bytes_read r)]"
    using out unfolding k by simp
  with inv' k show ?case by auto
qed

section \<open>What a buffer holds\<close>

text \<open>
  A buffer is read as positions of the stream. After \<open>R\<close> bytes were read, the sequence number \<open>f\<close> stands for
  the first position from \<open>R\<close> on that has it.
\<close>

definition position :: "seq32 \<Rightarrow> nat \<Rightarrow> seq32 \<Rightarrow> nat" where
  "position s0 R f = R + unat (f - (s0 + of_nat R))"

definition stored :: "seq32 \<Rightarrow> nat \<Rightarrow> rx_buffer \<Rightarrow> nat set" where
  "stored s0 R b = (\<Union>(f, p) \<in> set (m_data b). {position s0 R f..<position s0 R f + length p})"

definition next_pos :: "seq32 \<Rightarrow> nat \<Rightarrow> rx_buffer \<Rightarrow> nat" where
  "next_pos s0 R b = position s0 R (m_nextRxSeq b)"

text \<open>
  The positions of a segment at \<open>q\<close> with \<open>k\<close> bytes that lie in the window: from \<open>RCV.NXT\<close> on, and, when the
  buffer holds something, less than its limit away from the first position held.
\<close>

definition in_limits :: "seq32 \<Rightarrow> nat \<Rightarrow> rx_buffer \<Rightarrow> nat \<Rightarrow> nat \<Rightarrow> nat set" where
  "in_limits s0 R b q k =
     {max q (next_pos s0 R b)..<
      (case m_data b of
         [] \<Rightarrow> q + k
       | (f, _) # _ \<Rightarrow> min (q + k) (position s0 R f + unat (rx_maxBuffer b)))}"

text \<open>The bytes held are those of the stream \<open>S\<close> at their positions.\<close>

definition holds_stream :: "seq32 \<Rightarrow> nat \<Rightarrow> (nat \<Rightarrow> uint8) \<Rightarrow> rx_buffer \<Rightarrow> bool" where
  "holds_stream s0 R S b \<longleftrightarrow>
     (\<forall>(f, p) \<in> set (m_data b). p = map S [position s0 R f..<position s0 R f + length p])"

lemma position_of:
  assumes "R \<le> i" "i \<le> R + reach"
  shows "position s0 R (s0 + of_nat i) = i"
proof -
  have "s0 + of_nat i - (s0 + of_nat R) = (of_nat (i - R) :: uint32)" using assms(1) by (simp add: of_nat_diff)
  moreover have "unat (of_nat (i - R) :: uint32) = i - R" using assms(2) by (intro unat_of_nat32) (simp add: reach_def)
  ultimately show ?thesis using assms(1) by (simp add: position_def)
qed

lemma rx_inv_read:
  assumes inv: "rx_inv s0 S R n d l b"
  shows "stored s0 R b = held d" "next_pos s0 R b = n" "holds_stream s0 R S b"
    "in_limits s0 R b q k = accepted n (unat (rx_maxBuffer b)) d q k"
proof -
  have b: "m_data b = conc s0 d" "m_nextRxSeq b = s0 + of_nat n" "R \<le> n" "n \<le> R + reach" "chain R d"
      "\<forall>e \<in> set d. snd e = map S [fst e..<endp e] \<and> endp e \<le> R + reach"
    using inv by (simp_all add: rx_inv_def)
  have p: "position s0 R (s0 + of_nat (fst e)) = fst e" if "e \<in> set d" for e
  proof (rule position_of)
    show "R \<le> fst e" using chain_lower [OF b(5) that] by simp
    have "endp e \<le> R + reach" using b(6) that by blast
    then show "fst e \<le> R + reach" by simp
  qed
  show "stored s0 R b = held d" using p by (auto simp: stored_def held_def b(1) conc_def)
  show nx: "next_pos s0 R b = n" using b(2-4) by (simp add: next_pos_def position_of)
  show "holds_stream s0 R S b" using p b(6) by (auto simp: holds_stream_def b(1) conc_def)
  show "in_limits s0 R b q k = accepted n (unat (rx_maxBuffer b)) d q k"
    using p by (cases d) (auto simp: in_limits_def nx accepted_def limit_def b(1))
qed

section \<open>Properties\<close>

text \<open>C3. Whatever the order in which the segments arrive, with duplicates and overlaps, the
  application reads the bytes of the stream from the first one on, each exactly once and in order,
  also across the wrap-around of the sequence numbers.\<close>

theorem rx_delivers_stream:
  assumes "rx_run s0 S out b"
  shows "out = map S [0..<length out]"
  using rx_run_inv [OF assms] by blast

text \<open>C20. \<open>Add\<close> never fails an assertion. Of a segment of the stream that begins less than half a gigabyte
  before and ends at most half a gigabyte after the bytes read so far (and with no FIN registered, as in
  every run here) it stores exactly the positions from \<open>RCV.NXT\<close> on that fit the limit of the buffer, with
  the bytes of the stream; it forgets nothing that it held and stores nothing else. It returns true exactly
  if one of these positions was new, and moves \<open>RCV.NXT\<close> forward to the first position not held.\<close>

theorem rx_add_exact:
  assumes "rx_run s0 S out b" "segment S (length out) q p"
  defines "R \<equiv> length out" and "new \<equiv> in_limits s0 (length out) b q (length p)"
  shows "\<exists>b'. rx_Add now ok p (s0 + of_nat q) b = Some (\<not> new \<subseteq> stored s0 R b, b') \<and>
    stored s0 R b' = stored s0 R b \<union> new \<and> holds_stream s0 R S b' \<and>
    next_pos s0 R b \<le> next_pos s0 R b' \<and>
    {R..<next_pos s0 R b'} \<subseteq> stored s0 R b' \<and> next_pos s0 R b' \<notin> stored s0 R b'"
proof -
  from rx_run_inv [OF assms(1)] obtain n d l where inv: "rx_inv s0 S R n d l b" unfolding R_def by blast
  from rx_Add_ok [OF this, of q p now ok] assms(2) obtain b' n' d' l' where
    a: "rx_Add now ok p (s0 + of_nat q) b = Some (\<not> accepted n (unat (rx_maxBuffer b)) d q (length p) \<subseteq> held d, b')"
      "rx_inv s0 S R n' d' l' b'" "n \<le> n'" "held d' = held d \<union> accepted n (unat (rx_maxBuffer b)) d q (length p)"
    unfolding R_def by blast
  have "{R..<n'} \<subseteq> held d'" "n' \<notin> held d'" using a(2) by (simp_all add: rx_inv_def)
  with a show ?thesis
    unfolding new_def R_def [symmetric] rx_inv_read [OF inv] using rx_inv_read [OF a(2)] by auto
qed

text \<open>C21. \<open>Extract\<close> never fails an assertion: it returns as many of the bytes before \<open>RCV.NXT\<close> that
  were not read yet as it is asked for, the next ones of the stream, and \<open>Available\<close> counts those
  that are left.\<close>

theorem rx_extract_exact:
  assumes "rx_run s0 S out b"
  shows "\<exists>n b'. m_nextRxSeq b = s0 + of_nat n \<and> unat (rx_Available b) = n - length out \<and>
    (let k = min (unat m) (unat (rx_Available b)) in
     Extract m b = Some (if k = 0 then None else Some (map S [length out..<length out + k]), b') \<and>
     unat (rx_Available b') = unat (rx_Available b) - k) \<and> m_nextRxSeq b' = m_nextRxSeq b"
proof -
  from rx_run_inv [OF assms] obtain n d l where inv: "rx_inv s0 S (length out) n d l b" by blast
  let ?k = "min (unat m) (n - length out)"
  obtain d' b' where "Extract m b = Some (if ?k = 0 then None else Some (map S [length out..<length out + ?k]), b')"
    and inv': "rx_inv s0 S (length out + ?k) n d' l b'"
    using Extract_ok [OF inv, of m] by blast
  moreover have "unat (rx_Available b) = n - length out" "unat (rx_Available b') = n - (length out + ?k)"
    using inv_sizes(2) [OF inv] inv_sizes(2) [OF inv'] by (simp_all add: rx_Available_def)
  moreover have "m_nextRxSeq b = s0 + of_nat n" "m_nextRxSeq b' = s0 + of_nat n"
    using inv inv' by (simp_all add: rx_inv_def)
  ultimately show ?thesis
    unfolding Let_def by (intro exI [of _ n] exI [of _ b'] conjI) (simp_all only:, simp)
qed

text \<open>C22. The SACK list has at most four blocks, and each of them is an interval of positions above
  \<open>RCV.NXT\<close>, not empty, all of whose bytes are in the buffer with the contents of the stream: the
  receiver never acknowledges a byte that it does not hold.\<close>

theorem rx_sack_sound:
  assumes "rx_run s0 S out b"
  shows "\<exists>n d l. m_nextRxSeq b = s0 + of_nat n \<and> m_data b = conc s0 d \<and>
    GetSackList b = map (\<lambda>(i, j). (s0 + of_nat i, s0 + of_nat j)) l \<and> length l \<le> 4 \<and>
    (\<forall>(i, j) \<in> set l. n < i \<and> i < j \<and> {i..<j} \<subseteq> held d) \<and>
    (\<forall>(i, p) \<in> set d. p = map S [i..<i + length p])"
proof -
  from rx_run_inv [OF assms] obtain n d l where "rx_inv s0 S (length out) n d l b" by blast
  then show ?thesis
    by (intro exI [of _ n] exI [of _ d] exI [of _ l]) (simp add: rx_inv_def GetSackList_def cblocks_def case_prod_unfold)
qed

section \<open>Runs\<close>

definition demo_buffer :: rx_buffer where
  "demo_buffer = snd (the (rx_Add 1 True [4, 5, 6, 7] (4294967294 + 4) (new_rx_buffer 4294967294)))"

definition demo_full :: rx_buffer where
  "demo_full = snd (the (rx_Add 2 True [0, 1, 2, 3, 4, 5] 4294967294 demo_buffer))"

definition demo_read :: rx_buffer where
  "demo_read = snd (the (Extract 5 demo_full))"

lemma demo_segments:
  "segment of_nat 0 4 [4, 5, 6, 7]" "segment of_nat 0 0 [0, 1, 2, 3, 4, 5]"
  by (simp_all add: segment_def reach_def upt_rec)

lemma demo_calls:
  "rx_Add 1 True [4, 5, 6, 7] (4294967294 + of_nat 4) (new_rx_buffer 4294967294) = Some (True, demo_buffer)"
  "rx_Add 2 True [0, 1, 2, 3, 4, 5] (4294967294 + of_nat 0) demo_buffer = Some (True, demo_full)"
  "Extract 5 demo_full = Some (Some [0, 1, 2, 3, 4], demo_read)"
  by code_simp+

lemma demo_run:
  "rx_run 4294967294 of_nat [] demo_buffer" "rx_run 4294967294 of_nat [] demo_full"
  "rx_run 4294967294 of_nat [0, 1, 2, 3, 4] demo_read"
proof -
  show b: "rx_run 4294967294 of_nat [] demo_buffer"
    by (rule arrive [OF fresh _ demo_calls(1)]) (simp add: demo_segments)
  show f: "rx_run 4294967294 of_nat [] demo_full"
    by (rule arrive [OF b _ demo_calls(2)]) (simp add: demo_segments)
  show "rx_run 4294967294 of_nat [0, 1, 2, 3, 4] demo_read"
    using read [OF f demo_calls(3)] by (simp add: bytes_read_def)
qed

theorem rx_delivers_stream_witness:
  "rx_run 4294967294 of_nat [0, 1, 2, 3, 4] demo_read \<and>
   ([0, 1, 2, 3, 4] :: uint8 list) = map of_nat [0..<length ([0, 1, 2, 3, 4] :: uint8 list)]"
  using demo_run(3) rx_delivers_stream [OF demo_run(3)] by blast

theorem rx_add_exact_witness:
  "\<exists>b'. rx_Add 2 True [0, 1, 2, 3, 4, 5] (4294967294 + of_nat 0) demo_buffer = Some (True, b') \<and>
    stored 4294967294 0 b' = {0..<8} \<and> next_pos 4294967294 0 b' = 8"
proof -
  have s: "stored 4294967294 0 demo_buffer = {4..<8}"
    and l: "in_limits 4294967294 0 demo_buffer 0 6 = {0..<6}"
  proof -
    have "m_data demo_buffer = [(2, [4, 5, 6, 7])] \<and> m_nextRxSeq demo_buffer = 4294967294 \<and> rx_maxBuffer demo_buffer = 32768"
      by code_simp
    then show "stored 4294967294 0 demo_buffer = {4..<8}" "in_limits 4294967294 0 demo_buffer 0 6 = {0..<6}"
      by (simp_all add: stored_def in_limits_def next_pos_def position_def)
  qed
  have len: "length ([0, 1, 2, 3, 4, 5] :: uint8 list) = 6" by simp
  obtain b' where b': "rx_Add 2 True [0, 1, 2, 3, 4, 5] (4294967294 + of_nat 0) demo_buffer = Some (\<not> {0..<6} \<subseteq> {4..<8 :: nat}, b')"
      "stored 4294967294 0 b' = {4..<8} \<union> {0..<6}" "{0..<next_pos 4294967294 0 b'} \<subseteq> stored 4294967294 0 b'"
      "next_pos 4294967294 0 b' \<notin> stored 4294967294 0 b'"
    using rx_add_exact [OF demo_run(1), of 0 "[0, 1, 2, 3, 4, 5]" 2 True, unfolded list.size(3) len s l] demo_segments(2)
    by blast
  have u: "{4..<8} \<union> {0..<6} = {0..<8 :: nat}" by auto
  have "next_pos 4294967294 0 b' = 8"
  proof (rule antisym)
    show "next_pos 4294967294 0 b' \<le> 8" using b'(3) unfolding b'(2) u ivl_subset by auto
    show "8 \<le> next_pos 4294967294 0 b'" using b'(4) unfolding b'(2) u by simp
  qed
  moreover have "(\<not> {0..<6} \<subseteq> {4..<8 :: nat}) = True" by auto
  ultimately show ?thesis using b'(1,2) unfolding u by simp
qed

theorem rx_extract_exact_witness:
  "rx_run 4294967294 of_nat [] demo_full \<and>
   (\<exists>n. m_nextRxSeq demo_full = 4294967294 + of_nat n \<and> unat (rx_Available demo_full) = n - 0)"
  using rx_extract_exact [OF demo_run(2)] demo_run(2) by auto

theorem rx_sack_sound_witness:
  "rx_run 4294967294 of_nat [] demo_buffer \<and> GetSackList demo_buffer = [(2, 6)] \<and>
   (\<exists>l. GetSackList demo_buffer = map (\<lambda>(i, j). (4294967294 + of_nat i, 4294967294 + of_nat j)) l \<and> length l \<le> 4)"
proof -
  have "GetSackList demo_buffer = [(2, 6)]" by code_simp
  with rx_sack_sound [OF demo_run(1)] demo_run(1) show ?thesis by blast
qed

end
