(* ===== verification/Wire.thy ===== *)
theory Wire
  imports NsPrelude
begin

text \<open>
  The byte-level reads and writes of \<open>Buffer::Iterator\<close> (\<open>network/model/buffer.{h,cc}\<close>) that the TCP
  header uses. An iterator is the list of the bytes from its position to the end of the buffer; a
  read beyond the end is a failed assertion. The zero area, a compressed run of zero bytes, is not
  visible at this level. The Internet checksum is the 32-bit accumulator loop of the code.
\<close>

unbundle bit_operations_syntax

section \<open>Writing\<close>

definition WriteU8 :: "uint8 \<Rightarrow> uint8 list" where
  "WriteU8 b = [b]"

definition WriteU16 :: "uint16 \<Rightarrow> uint8 list" where
  "WriteU16 x = [ucast (x AND 0xff), ucast (drop_bit 8 x AND 0xff)]"

definition WriteHtonU16 :: "uint16 \<Rightarrow> uint8 list" where
  "WriteHtonU16 x = [ucast (drop_bit 8 x AND 0xff), ucast (x AND 0xff)]"

definition WriteHtonU32 :: "uint32 \<Rightarrow> uint8 list" where
  "WriteHtonU32 x =
     [ucast (drop_bit 24 x AND 0xff), ucast (drop_bit 16 x AND 0xff), ucast (drop_bit 8 x AND 0xff),
      ucast (x AND 0xff)]"

section \<open>Reading\<close>

fun ReadU8 :: "uint8 list \<Rightarrow> (uint8 \<times> uint8 list) option" where
  "ReadU8 [] = None"
| "ReadU8 (b # bs) = Some (b, bs)"

definition PeekU8 :: "uint8 list \<Rightarrow> uint8 option" where
  "PeekU8 bs = map_option fst (ReadU8 bs)"

text \<open>\<open>Next(delta)\<close>, which checks that the position stays inside the buffer.\<close>

definition it_Next :: "nat \<Rightarrow> uint8 list \<Rightarrow> uint8 list option" where
  "it_Next n bs = do { ns_assert (n \<le> length bs); Some (drop n bs) }"

definition ReadU16 :: "uint8 list \<Rightarrow> (uint16 \<times> uint8 list) option" where
  "ReadU16 bs =
     do {
       (byte0, bs) \<leftarrow> ReadU8 bs;
       (byte1, bs) \<leftarrow> ReadU8 bs;
       Some (push_bit 8 (ucast byte1) OR ucast byte0, bs)
     }"

definition ReadNtohU16 :: "uint8 list \<Rightarrow> (uint16 \<times> uint8 list) option" where
  "ReadNtohU16 bs =
     do {
       (b0, bs) \<leftarrow> ReadU8 bs;
       (b1, bs) \<leftarrow> ReadU8 bs;
       Some (push_bit 8 (ucast b0) OR ucast b1, bs)
     }"

definition ReadNtohU32 :: "uint8 list \<Rightarrow> (uint32 \<times> uint8 list) option" where
  "ReadNtohU32 bs =
     do {
       (b0, bs) \<leftarrow> ReadU8 bs;
       (b1, bs) \<leftarrow> ReadU8 bs;
       (b2, bs) \<leftarrow> ReadU8 bs;
       (b3, bs) \<leftarrow> ReadU8 bs;
       Some (push_bit 8 (push_bit 8 (push_bit 8 (ucast b0) OR ucast b1) OR ucast b2) OR ucast b3, bs)
     }"

fun ReadBytes :: "nat \<Rightarrow> uint8 list \<Rightarrow> (uint8 list \<times> uint8 list) option" where
  "ReadBytes 0 bs = Some ([], bs)"
| "ReadBytes (Suc n) bs =
     do { (b, bs) \<leftarrow> ReadU8 bs; (c, bs) \<leftarrow> ReadBytes n bs; Some (b # c, bs) }"

section \<open>The Internet checksum\<close>

text \<open>The sum of the 16-bit words, least significant byte first, and of an odd last byte.\<close>

fun sum_words :: "nat \<Rightarrow> uint8 list \<Rightarrow> uint32 \<Rightarrow> (uint32 \<times> uint8 list) option" where
  "sum_words 0 bs acc = Some (acc, bs)"
| "sum_words (Suc n) bs acc = do { (w, bs) \<leftarrow> ReadU16 bs; sum_words n bs (acc + ucast w) }"

text \<open>The loop that folds the carries.\<close>

lemma fold_decreases:
  fixes s :: uint32
  assumes "drop_bit 16 s \<noteq> 0"
  shows "unat ((s AND 0xffff) + drop_bit 16 s) < unat s"
proof -
  have m: "s AND 0xffff = take_bit 16 s" by (simp add: take_bit_eq_mask mask_numeral)
  have d: "unat (drop_bit 16 s) = unat s div 65536" "unat (take_bit 16 s) = unat s mod 65536"
    by (simp_all add: drop_bit_eq_div take_bit_eq_mod unat_div unat_mod)
  have pos: "0 < unat s div 65536"
    using assms d(1) by (metis neq0_conv unat_eq_0)
  have "unat s = unat s mod 65536 + unat s div 65536 * 65536" by simp
  then have lt: "unat s mod 65536 + unat s div 65536 < unat s" using pos by linarith
  have "unat s < 4294967296" using unsigned_less [of s] by simp
  then have "unat (take_bit 16 s + drop_bit 16 s) = unat s mod 65536 + unat s div 65536"
    using lt d by (simp add: unat_word_ariths)
  with lt m show ?thesis by simp
qed

function fold_carries :: "uint32 \<Rightarrow> uint32" where
  "fold_carries s = (if drop_bit 16 s \<noteq> 0 then fold_carries ((s AND 0xffff) + drop_bit 16 s) else s)"
  by pat_completeness auto
termination
  by (relation "measure unat") (simp_all add: fold_decreases)

declare fold_carries.simps [simp del]

definition CalculateIpChecksum :: "uint16 \<Rightarrow> uint32 \<Rightarrow> uint8 list \<Rightarrow> uint16 option" where
  "CalculateIpChecksum sz initialChecksum bs =
     do {
       (s, bs) \<leftarrow> sum_words (unat sz div 2) bs initialChecksum;
       s \<leftarrow> (if sz AND 1 \<noteq> 0 then do { (b, _) \<leftarrow> ReadU8 bs; Some (s + ucast b) } else Some s);
       Some (ucast (NOT (fold_carries s)))
     }"

section \<open>Round trips\<close>

text \<open>A codec reads back what it wrote and leaves what follows.\<close>

locale codec =
  fixes enc :: "'a \<Rightarrow> uint8 list" and dec :: "uint8 list \<Rightarrow> ('a \<times> uint8 list) option"
    and width :: nat
  assumes dec_enc: "dec (enc x @ rest) = Some (x, rest)"
    and width: "length (enc x) = width"
begin

lemma enc_inj: "enc x = enc y \<longleftrightarrow> x = y"
proof
  assume "enc x = enc y"
  then have "dec (enc x @ []) = dec (enc y @ [])" by simp
  then show "x = y" by (simp only: dec_enc option.inject prod.inject)
qed simp

lemma enc_prefix: "enc x @ r = enc y @ r' \<longleftrightarrow> x = y \<and> r = r'"
proof
  assume e: "enc x @ r = enc y @ r'"
  have "length (enc x) = length (enc y)" by (simp add: width)
  with e show "x = y \<and> r = r'" by (simp add: enc_inj)
qed simp

end

lemma byte_masks [simp]:
  "x AND 0xff = take_bit 8 (x :: uint16)" "y AND 0xff = take_bit 8 (y :: uint32)"
  by (simp_all add: take_bit_eq_mask mask_numeral)

lemma join16: "push_bit 8 (take_bit 8 (drop_bit 8 x)) OR take_bit 8 x = (x :: uint16)"
  by (rule bit_word_eqI) (auto simp: bit_simps)

lemma join32:
  "((push_bit 24 (take_bit 8 (drop_bit 24 x)) OR push_bit 16 (take_bit 8 (drop_bit 16 x)))
     OR push_bit 8 (take_bit 8 (drop_bit 8 x))) OR take_bit 8 x = (x :: uint32)"
proof (rule bit_word_eqI)
  fix n assume "n < LENGTH(32)"
  then consider "n < 8" | "8 \<le> n" "n < 16" | "16 \<le> n" "n < 24" | "24 \<le> n" "n < 32" by fastforce
  then show "bit (((push_bit 24 (take_bit 8 (drop_bit 24 x)) OR push_bit 16 (take_bit 8 (drop_bit 16 x)))
     OR push_bit 8 (take_bit 8 (drop_bit 8 x))) OR take_bit 8 x) n = bit x n"
    by cases (auto simp: bit_simps)
qed

lemma ucast8 [simp]:
  "ucast (ucast x :: uint8) = take_bit 8 (x :: uint16)" "ucast (ucast y :: uint8) = take_bit 8 (y :: uint32)"
  by (rule bit_word_eqI; auto simp: bit_simps)+

interpretation u8: codec WriteU8 ReadU8 1
  by unfold_locales (simp_all add: WriteU8_def)

interpretation u16: codec WriteU16 ReadU16 2
  by unfold_locales (simp_all add: WriteU16_def ReadU16_def join16)

interpretation n16: codec WriteHtonU16 ReadNtohU16 2
  by unfold_locales (simp_all add: WriteHtonU16_def ReadNtohU16_def join16)

interpretation n32: codec WriteHtonU32 ReadNtohU32 4
  by unfold_locales (simp_all add: WriteHtonU32_def ReadNtohU32_def join32)

lemma ReadBytes_append: "ReadBytes (length c) (c @ rest) = Some (c, rest)"
  by (induction c) simp_all

lemmas codec_read = u8.dec_enc u16.dec_enc n16.dec_enc n32.dec_enc ReadBytes_append
lemmas codec_width = u8.width u16.width n16.width n32.width

end
