(* ===== verification/TcpOptions.thy ===== *)
theory TcpOptions
  imports SeqNum Wire
begin

text \<open>
  The TCP options (\<open>internet/model/tcp-option*.cc\<close>). An option object is a value of \<open>tcp_option\<close>, one
  constructor per class; the virtual methods dispatch on it. \<open>Deserialize\<close> fills an object created
  with default values and returns the number of bytes, zero for a malformed option; a read beyond
  the buffer and the \<open>NS_ABORT_IF\<close> of the MSS option are \<open>None\<close>. A result is paired with the object
  as \<open>Deserialize\<close> leaves it.
\<close>

section \<open>Kinds and objects\<close>

type_synonym sack_range = "seq32 \<times> seq32"

datatype tcp_option =
    TcpOptionEnd
  | TcpOptionNOP
  | TcpOptionMSS uint16
  | TcpOptionWinScale uint8
  | TcpOptionSackPermitted
  | TcpOptionSack "sack_range list"
  | TcpOptionTS uint32 uint32
  | TcpOptionUnknown uint8 uint32 "uint8 list"

definition CreateOption :: "uint8 \<Rightarrow> tcp_option" where
  "CreateOption kind =
     (if kind = 0 then TcpOptionEnd
      else if kind = 2 then TcpOptionMSS 1460
      else if kind = 1 then TcpOptionNOP
      else if kind = 8 then TcpOptionTS 0 0
      else if kind = 3 then TcpOptionWinScale 0
      else if kind = 4 then TcpOptionSackPermitted
      else if kind = 5 then TcpOptionSack []
      else TcpOptionUnknown 255 0 [])"

definition IsKindKnown :: "uint8 \<Rightarrow> bool" where
  "IsKindKnown kind \<longleftrightarrow> kind \<in> {0, 1, 2, 3, 4, 5, 8}"

fun GetKind :: "tcp_option \<Rightarrow> uint8" where
  "GetKind TcpOptionEnd = 0"
| "GetKind TcpOptionNOP = 1"
| "GetKind (TcpOptionMSS _) = 2"
| "GetKind (TcpOptionWinScale _) = 3"
| "GetKind TcpOptionSackPermitted = 4"
| "GetKind (TcpOptionSack _) = 5"
| "GetKind (TcpOptionTS _ _) = 8"
| "GetKind (TcpOptionUnknown kind _ _) = kind"

section \<open>The classes\<close>

definition End_Serialize :: "uint8 list" where
  "End_Serialize = WriteU8 0"

definition End_Deserialize :: "uint8 list \<Rightarrow> (uint32 \<times> tcp_option) option" where
  "End_Deserialize i =
     do { (readKind, i) \<leftarrow> ReadU8 i; Some (if readKind \<noteq> 0 then 0 else 1, TcpOptionEnd) }"

definition NOP_Serialize :: "uint8 list" where
  "NOP_Serialize = WriteU8 1"

definition NOP_Deserialize :: "uint8 list \<Rightarrow> (uint32 \<times> tcp_option) option" where
  "NOP_Deserialize i =
     do { (readKind, i) \<leftarrow> ReadU8 i; Some (if readKind \<noteq> 1 then 0 else 1, TcpOptionNOP) }"

definition MSS_Serialize :: "uint16 \<Rightarrow> uint8 list" where
  "MSS_Serialize mss = WriteU8 2 @ WriteU8 4 @ WriteHtonU16 mss"

definition MSS_Deserialize :: "uint16 \<Rightarrow> uint8 list \<Rightarrow> (uint32 \<times> tcp_option) option" where
  "MSS_Deserialize m_mss i =
     do {
       (readKind, i) \<leftarrow> ReadU8 i;
       if readKind \<noteq> 2 then Some (0, TcpOptionMSS m_mss)
       else do {
         (sz, i) \<leftarrow> ReadU8 i;
         ns_assert (sz = 4);
         (mss, i) \<leftarrow> ReadNtohU16 i;
         Some (4, TcpOptionMSS mss)
       }
     }"

definition WinScale_Serialize :: "uint8 \<Rightarrow> uint8 list" where
  "WinScale_Serialize scale = WriteU8 3 @ WriteU8 3 @ WriteU8 scale"

definition WinScale_Deserialize :: "uint8 \<Rightarrow> uint8 list \<Rightarrow> (uint32 \<times> tcp_option) option" where
  "WinScale_Deserialize m_scale i =
     do {
       (readKind, i) \<leftarrow> ReadU8 i;
       if readKind \<noteq> 3 then Some (0, TcpOptionWinScale m_scale)
       else do {
         (sz, i) \<leftarrow> ReadU8 i;
         if sz \<noteq> 3 then Some (0, TcpOptionWinScale m_scale)
         else do { (scale, i) \<leftarrow> ReadU8 i; Some (3, TcpOptionWinScale scale) }
       }
     }"

definition GetScale :: "uint8 \<Rightarrow> uint8 option" where
  "GetScale m_scale = do { ns_assert (m_scale \<le> 14); Some m_scale }"

definition SetScale :: "uint8 \<Rightarrow> tcp_option option" where
  "SetScale scale = do { ns_assert (scale \<le> 14); Some (TcpOptionWinScale scale) }"

definition SackPermitted_Serialize :: "uint8 list" where
  "SackPermitted_Serialize = WriteU8 4 @ WriteU8 2"

definition SackPermitted_Deserialize :: "uint8 list \<Rightarrow> (uint32 \<times> tcp_option) option" where
  "SackPermitted_Deserialize i =
     do {
       (readKind, i) \<leftarrow> ReadU8 i;
       if readKind \<noteq> 4 then Some (0, TcpOptionSackPermitted)
       else do { (sz, i) \<leftarrow> ReadU8 i; Some (if sz \<noteq> 2 then 0 else 2, TcpOptionSackPermitted) }
     }"

definition GetNumSackBlocks :: "sack_range list \<Rightarrow> uint32" where
  "GetNumSackBlocks l = of_nat (length l)"

definition AddSackBlock :: "sack_range \<Rightarrow> sack_range list \<Rightarrow> sack_range list" where
  "AddSackBlock s l = l @ [s]"

definition Sack_GetSerializedSize :: "sack_range list \<Rightarrow> uint32" where
  "Sack_GetSerializedSize l = 2 + GetNumSackBlocks l * 8"

fun write_blocks :: "sack_range list \<Rightarrow> uint8 list" where
  "write_blocks [] = []"
| "write_blocks (s # l) = WriteHtonU32 (fst s) @ WriteHtonU32 (snd s) @ write_blocks l"

definition Sack_Serialize :: "sack_range list \<Rightarrow> uint8 list" where
  "Sack_Serialize l = WriteU8 5 @ WriteU8 (ucast (GetNumSackBlocks l * 8 + 2)) @ write_blocks l"

text \<open>The loop over the \<open>sackCount\<close> blocks; the count is computed with signed integers.\<close>

fun read_blocks :: "nat \<Rightarrow> sack_range list \<Rightarrow> uint8 list \<Rightarrow> sack_range list option" where
  "read_blocks 0 l i = Some l"
| "read_blocks (Suc n) l i =
     do {
       (leftEdge, i) \<leftarrow> ReadNtohU32 i;
       (rightEdge, i) \<leftarrow> ReadNtohU32 i;
       read_blocks n (AddSackBlock (leftEdge, rightEdge) l) i
     }"

definition Sack_Deserialize :: "sack_range list \<Rightarrow> uint8 list \<Rightarrow> (uint32 \<times> tcp_option) option" where
  "Sack_Deserialize m_sackList i =
     do {
       (readKind, i) \<leftarrow> ReadU8 i;
       if readKind \<noteq> 5 then Some (0, TcpOptionSack m_sackList)
       else do {
         (sz, i) \<leftarrow> ReadU8 i;
         let sackCount = (if unat sz < 2 then 0 else (unat sz - 2) div 8);
         l \<leftarrow> read_blocks sackCount [] i;
         Some (Sack_GetSerializedSize l, TcpOptionSack l)
       }
     }"

definition TS_Serialize :: "uint32 \<Rightarrow> uint32 \<Rightarrow> uint8 list" where
  "TS_Serialize timestamp echo = WriteU8 8 @ WriteU8 10 @ WriteHtonU32 timestamp @ WriteHtonU32 echo"

definition TS_Deserialize :: "uint32 \<Rightarrow> uint32 \<Rightarrow> uint8 list \<Rightarrow> (uint32 \<times> tcp_option) option" where
  "TS_Deserialize m_timestamp m_echo i =
     do {
       (readKind, i) \<leftarrow> ReadU8 i;
       if readKind \<noteq> 8 then Some (0, TcpOptionTS m_timestamp m_echo)
       else do {
         (sz, i) \<leftarrow> ReadU8 i;
         if sz \<noteq> 10 then Some (0, TcpOptionTS m_timestamp m_echo)
         else do {
           (timestamp, i) \<leftarrow> ReadNtohU32 i;
           (echo, i) \<leftarrow> ReadNtohU32 i;
           Some (10, TcpOptionTS timestamp echo)
         }
       }
     }"

text \<open>Both take the clock in milliseconds.\<close>

definition NowToTsValue :: "uint64 \<Rightarrow> uint32" where
  "NowToTsValue now = ucast now"

definition ElapsedTimeFromTsValue :: "uint64 \<Rightarrow> uint32 \<Rightarrow> uint32" where
  "ElapsedTimeFromTsValue now64 echoTime =
     (let now32 = ucast now64 in if now32 > echoTime then now32 - echoTime else 0)"

definition Unknown_Serialize :: "uint8 \<Rightarrow> uint32 \<Rightarrow> uint8 list \<Rightarrow> uint8 list" where
  "Unknown_Serialize kind m_size m_content =
     (if m_size = 0 then []
      else WriteU8 kind @ WriteU8 (ucast m_size) @ take (unat (m_size - 2)) m_content)"

definition Unknown_Deserialize :: "uint8 list \<Rightarrow> uint8 list \<Rightarrow> (uint32 \<times> tcp_option) option" where
  "Unknown_Deserialize m_content i =
     do {
       (kind, i) \<leftarrow> ReadU8 i;
       (sz, i) \<leftarrow> ReadU8 i;
       if sz < 2 \<or> sz > 40 then Some (0, TcpOptionUnknown kind (ucast sz) m_content)
       else do {
         (content, i) \<leftarrow> ReadBytes (unat sz - 2) i;
         Some (ucast sz, TcpOptionUnknown kind (ucast sz) content)
       }
     }"

section \<open>The virtual methods\<close>

fun opt_GetSerializedSize :: "tcp_option \<Rightarrow> uint32" where
  "opt_GetSerializedSize TcpOptionEnd = 1"
| "opt_GetSerializedSize TcpOptionNOP = 1"
| "opt_GetSerializedSize (TcpOptionMSS _) = 4"
| "opt_GetSerializedSize (TcpOptionWinScale _) = 3"
| "opt_GetSerializedSize TcpOptionSackPermitted = 2"
| "opt_GetSerializedSize (TcpOptionSack l) = Sack_GetSerializedSize l"
| "opt_GetSerializedSize (TcpOptionTS _ _) = 10"
| "opt_GetSerializedSize (TcpOptionUnknown _ m_size _) = m_size"

fun opt_Serialize :: "tcp_option \<Rightarrow> uint8 list" where
  "opt_Serialize TcpOptionEnd = End_Serialize"
| "opt_Serialize TcpOptionNOP = NOP_Serialize"
| "opt_Serialize (TcpOptionMSS mss) = MSS_Serialize mss"
| "opt_Serialize (TcpOptionWinScale scale) = WinScale_Serialize scale"
| "opt_Serialize TcpOptionSackPermitted = SackPermitted_Serialize"
| "opt_Serialize (TcpOptionSack l) = Sack_Serialize l"
| "opt_Serialize (TcpOptionTS timestamp echo) = TS_Serialize timestamp echo"
| "opt_Serialize (TcpOptionUnknown kind m_size m_content) = Unknown_Serialize kind m_size m_content"

fun opt_Deserialize :: "tcp_option \<Rightarrow> uint8 list \<Rightarrow> (uint32 \<times> tcp_option) option" where
  "opt_Deserialize TcpOptionEnd i = End_Deserialize i"
| "opt_Deserialize TcpOptionNOP i = NOP_Deserialize i"
| "opt_Deserialize (TcpOptionMSS mss) i = MSS_Deserialize mss i"
| "opt_Deserialize (TcpOptionWinScale scale) i = WinScale_Deserialize scale i"
| "opt_Deserialize TcpOptionSackPermitted i = SackPermitted_Deserialize i"
| "opt_Deserialize (TcpOptionSack l) i = Sack_Deserialize l i"
| "opt_Deserialize (TcpOptionTS timestamp echo) i = TS_Deserialize timestamp echo i"
| "opt_Deserialize (TcpOptionUnknown _ _ content) i = Unknown_Deserialize content i"

section \<open>Round trip\<close>

text \<open>Options that have an encoding: at most 31 SACK blocks, and unknown options with their contents.\<close>

fun wire_ok :: "tcp_option \<Rightarrow> bool" where
  "wire_ok (TcpOptionSack l) \<longleftrightarrow> length l \<le> 31"
| "wire_ok (TcpOptionUnknown kind m_size content) \<longleftrightarrow>
     \<not> IsKindKnown kind \<and> 2 \<le> unat m_size \<and> unat m_size \<le> 40 \<and> length content = unat m_size - 2"
| "wire_ok _ \<longleftrightarrow> True"

definition option_object :: "uint8 \<Rightarrow> tcp_option" where
  "option_object kind = (if IsKindKnown kind then CreateOption kind else CreateOption 255)"

lemma option_object_simps [simp]:
  "option_object 0 = TcpOptionEnd" "option_object 1 = TcpOptionNOP" "option_object 2 = TcpOptionMSS 1460"
  "option_object 3 = TcpOptionWinScale 0" "option_object 4 = TcpOptionSackPermitted"
  "option_object 5 = TcpOptionSack []" "option_object 8 = TcpOptionTS 0 0"
  "\<not> IsKindKnown k \<Longrightarrow> option_object k = TcpOptionUnknown 255 0 []"
  by (simp_all add: option_object_def CreateOption_def IsKindKnown_def)

lemma read_write_blocks: "read_blocks (length l) acc (write_blocks l @ rest) = Some (acc @ l)"
  by (induction l arbitrary: acc) (simp_all add: codec_read AddSackBlock_def)

lemma length_write_blocks [simp]: "length (write_blocks l) = 8 * length l"
  by (induction l) (simp_all add: codec_width)

lemmas opt_defs = End_Serialize_def End_Deserialize_def NOP_Serialize_def NOP_Deserialize_def
  MSS_Serialize_def MSS_Deserialize_def WinScale_Serialize_def WinScale_Deserialize_def
  SackPermitted_Serialize_def SackPermitted_Deserialize_def TS_Serialize_def TS_Deserialize_def

lemma sack_size:
  assumes "length l \<le> 31" shows "unat (GetNumSackBlocks l * 8 + 2) = 8 * length l + 2"
proof -
  have "GetNumSackBlocks l * 8 + 2 = of_nat (8 * length l + 2)" by (simp add: GetNumSackBlocks_def)
  moreover have "unat (of_nat (8 * length l + 2) :: uint32) = 8 * length l + 2"
    using assms by (intro unat_of_nat32) simp
  ultimately show ?thesis by (simp only:)
qed

lemma unat_take8: "unat (x :: uint32) < 256 \<Longrightarrow> take_bit 8 x = x"
  by (simp add: word_unat_eq_iff unsigned_take_bit_eq take_bit_nat_eq_self)

lemma sack_length_byte:
  assumes "length l \<le> 31"
  shows "unat (ucast (GetNumSackBlocks l * 8 + 2) :: uint8) = 8 * length l + 2"
proof -
  have "unat (GetNumSackBlocks l * 8 + 2) = 8 * length l + 2" by (rule sack_size [OF assms])
  with assms show ?thesis by (simp add: unsigned_ucast_eq take_bit_nat_eq_self)
qed

lemma option_roundtrip:
  assumes "wire_ok op"
  shows "opt_Deserialize (option_object (GetKind op)) (opt_Serialize op @ rest) = Some (opt_GetSerializedSize op, op) \<and>
    PeekU8 (opt_Serialize op @ rest) = Some (GetKind op)"
proof (cases op)
  case (TcpOptionSack l)
  then have "length l \<le> 31" using assms by simp
  with TcpOptionSack show ?thesis
    by (simp add: Sack_Serialize_def Sack_Deserialize_def codec_read sack_length_byte read_write_blocks
        PeekU8_def)
next
  case (TcpOptionUnknown kind m_size content)
  then have u: "\<not> IsKindKnown kind" "2 \<le> unat m_size" "unat m_size \<le> 40" "length content = unat m_size - 2"
    using assms by simp_all
  define sz :: uint8 where "sz = ucast m_size"
  have s: "unat sz = unat m_size" "(ucast sz :: uint32) = m_size"
    using u(3) by (simp_all add: sz_def unsigned_ucast_eq take_bit_nat_eq_self) (simp add: unat_take8)
  have t: "unat (m_size - 2) = length content" using u(2,4) by (simp add: unat_sub word_le_nat_alt)
  have "m_size \<noteq> 0" using u(2) by auto
  moreover have "\<not> (sz < 2 \<or> sz > 40)" using u(2,3) s(1) by (simp add: word_less_nat_alt)
  ultimately show ?thesis
    using TcpOptionUnknown u s t ReadBytes_append [of content rest]
    by (simp add: Unknown_Serialize_def Unknown_Deserialize_def codec_read PeekU8_def sz_def [symmetric])
qed (simp_all add: opt_defs codec_read PeekU8_def)

lemma opt_size_length: "wire_ok op \<Longrightarrow> length (opt_Serialize op) = unat (opt_GetSerializedSize op)"
proof (cases op)
  case (TcpOptionSack l)
  assume "wire_ok op"
  with TcpOptionSack show ?thesis
    using sack_size [of l] by (simp add: Sack_Serialize_def Sack_GetSerializedSize_def codec_width add.commute)
next
  case (TcpOptionUnknown kind m_size content)
  assume "wire_ok op"
  with TcpOptionUnknown have "2 \<le> unat m_size" "length content = unat m_size - 2" "m_size \<noteq> 0" by auto
  with TcpOptionUnknown show ?thesis
    by (simp add: Unknown_Serialize_def codec_width unat_sub word_le_nat_alt)
qed (simp_all add: opt_defs codec_width)

lemma opt_size_bounds:
  assumes "wire_ok op"
  shows "1 \<le> unat (opt_GetSerializedSize op)" "unat (opt_GetSerializedSize op) \<le> 250"
proof -
  have "1 \<le> length (opt_Serialize op) \<and> length (opt_Serialize op) \<le> 250"
  proof (cases op)
    case (TcpOptionUnknown kind m_size content)
    with assms opt_size_length [OF assms] show ?thesis by simp
  qed (use assms in \<open>simp_all add: opt_defs Sack_Serialize_def codec_width\<close>)
  with opt_size_length [OF assms] show "1 \<le> unat (opt_GetSerializedSize op)" "unat (opt_GetSerializedSize op) \<le> 250"
    by simp_all
qed

end
