(* ===== verification/Checksum.thy ===== *)
theory Checksum
  imports Wire
begin

text \<open>
  The Internet checksum: the 32-bit accumulator with the folding loop computes the one's complement
  sum, and a buffer into which the checksum was written at an even position has checksum zero.
\<close>

unbundle bit_operations_syntax

lemma fold_step:
  fixes s :: uint32
  assumes "drop_bit 16 s \<noteq> 0"
  shows "unat ((s AND 0xffff) + drop_bit 16 s) = unat s mod 65536 + unat s div 65536"
proof -
  have m: "s AND 0xffff = take_bit 16 s" by (simp add: take_bit_eq_mask mask_numeral)
  have d: "unat (drop_bit 16 s) = unat s div 65536" "unat (take_bit 16 s) = unat s mod 65536"
    by (simp_all add: drop_bit_eq_div take_bit_eq_mod unat_div unat_mod)
  have "unat s div 65536 < 65536" using unsigned_less [of s, where 'a = nat] by (simp add: div_less_iff_less_mult)
  moreover have "unat s mod 65536 < 65536" by simp
  ultimately have "unat s mod 65536 + unat s div 65536 < 4294967296" by linarith
  with d m show ?thesis by (simp add: unat_word_ariths)
qed

lemma fold_carries_spec:
  "unat (fold_carries s) \<le> 65535 \<and> unat (fold_carries s) mod 65535 = unat s mod 65535 \<and>
   (fold_carries s = 0 \<longleftrightarrow> s = 0)"
proof (induction s rule: fold_carries.induct)
  case (1 s)
  show ?case
  proof (cases "drop_bit 16 s = 0")
    case True
    have "unat (drop_bit 16 s) = unat s div 65536" by (simp add: drop_bit_eq_div unat_div)
    then have "unat s div 65536 = 0" using True by simp
    then have "unat s < 65536" by (simp add: div_eq_0_iff)
    with True show ?thesis by (simp add: fold_carries.simps [of s])
  next
    case False
    let ?t = "(s AND 0xffff) + drop_bit 16 s"
    have f: "fold_carries s = fold_carries ?t" using False by (simp add: fold_carries.simps [of s])
    have t: "unat ?t = unat s mod 65536 + unat s div 65536" by (rule fold_step [OF False])
    have "unat s = unat s mod 65536 + unat s div 65536 * 65536" by simp
    also have "\<dots> = unat ?t + 65535 * (unat s div 65536)" using t by simp
    finally have "unat s mod 65535 = unat ?t mod 65535" by (metis mod_mult_self2)
    moreover have "?t = 0 \<longleftrightarrow> s = 0"
    proof -
      have "unat ?t = 0 \<longleftrightarrow> unat s = 0" using t by (metis add_is_0 div_mult_mod_eq mult_0 div_0 mod_0)
      then show ?thesis by (simp only: unat_eq_0)
    qed
    ultimately show ?thesis using "1.IH" [OF False] f by simp
  qed
qed

text \<open>The sum of the words of a buffer, without a bound.\<close>

fun words_sum :: "uint8 list \<Rightarrow> nat" where
  "words_sum [] = 0"
| "words_sum [b] = unat b"
| "words_sum (a # b # bs) = unat a + 256 * unat b + words_sum bs"

lemma byte_bound: "unat (b :: uint8) < 256"
  using unsigned_less [of b, where 'a = nat] by simp

lemma words_sum_bound: "words_sum bs \<le> 65535 * ((length bs + 1) div 2)"
proof (induction bs rule: words_sum.induct)
  case (2 b)
  then show ?case using byte_bound [of b] by simp
next
  case (3 a b bs)
  then show ?case using byte_bound [of a] byte_bound [of b] by simp
qed simp

lemma words_sum_append: "even (length p) \<Longrightarrow> words_sum (p @ q) = words_sum p + words_sum q"
  by (induction p rule: words_sum.induct) simp_all

lemma unat_upcast:
  "unat (ucast (b :: uint8) :: uint16) = unat b" "unat (ucast (b :: uint8) :: uint32) = unat b"
  "unat (ucast (x :: uint16) :: uint32) = unat x"
  using byte_bound [of b] unsigned_less [of x, where 'a = nat]
  by (simp_all add: unsigned_ucast_eq take_bit_nat_eq_self)

lemma unat_word16:
  "unat (ucast (push_bit 8 (ucast b) OR ucast a :: uint16) :: uint32) = unat (a :: uint8) + 256 * unat (b :: uint8)"
proof -
  have "(push_bit 8 (ucast b) OR ucast a :: uint16) = push_bit 8 (ucast b) + ucast a"
    by (rule disjunctive_add_eq_or [symmetric]) (auto simp: bit_eq_iff bit_simps dest: bit_imp_le_length)
  moreover have "unat (push_bit 8 (ucast b) + ucast a :: uint16) = 256 * unat b + unat a"
    using byte_bound [of a] byte_bound [of b]
    by (simp add: push_bit_eq_mult unat_word_ariths unat_upcast)
  ultimately show ?thesis by (simp add: unat_upcast)
qed

lemma sum_words_spec:
  "2 * n \<le> length bs \<Longrightarrow> sum_words n bs acc = Some (acc + of_nat (words_sum (take (2 * n) bs)), drop (2 * n) bs)"
proof (induction n arbitrary: bs acc)
  case (Suc n)
  then obtain a b r where bs: "bs = a # b # r" by (cases bs; cases "tl bs") auto
  let ?w = "push_bit 8 (ucast b) OR ucast a :: uint16"
  have w: "(ucast ?w :: uint32) = of_nat (unat a + 256 * unat b)"
    using unat_word16 [of b a] by (metis of_nat_unat ucast_id)
  have "sum_words (Suc n) bs acc = sum_words n r (acc + ucast ?w)"
    by (simp add: bs ReadU16_def)
  also have "\<dots> = Some (acc + ucast ?w + of_nat (words_sum (take (2 * n) r)), drop (2 * n) r)"
    using Suc bs by simp
  also have "acc + ucast ?w + of_nat (words_sum (take (2 * n) r)) = acc + of_nat (words_sum (take (2 * Suc n) bs))"
    by (simp only: w) (simp add: bs)
  finally show ?case by (simp add: bs)
qed simp

lemma checksum_spec:
  assumes "length bs < 65536"
  shows "CalculateIpChecksum (of_nat (length bs)) init bs =
    Some (ucast (NOT (fold_carries (init + of_nat (words_sum bs)))))"
proof -
  let ?n = "length bs div 2"
  have u: "unat (of_nat (length bs) :: uint16) = length bs"
    using assms by (simp add: unat_of_nat take_bit_nat_eq_self)
  have o: "(of_nat (length bs) AND 1 \<noteq> (0 :: uint16)) \<longleftrightarrow> odd (length bs)"
  proof -
    have "odd (of_nat (length bs) :: uint16) \<longleftrightarrow> bit (of_nat (length bs) :: uint16) 0" by (simp only: bit_0)
    also have "\<dots> \<longleftrightarrow> odd (length bs)" by (simp add: bit_simps del: bit_0) (simp add: bit_0)
    finally show ?thesis by (simp add: and_one_eq mod_2_eq_odd)
  qed
  show ?thesis
  proof (cases "even (length bs)")
    case True
    then have "2 * ?n = length bs" by simp
    then show ?thesis
      using sum_words_spec [of ?n bs init] u o True by (simp add: CalculateIpChecksum_def)
  next
    case False
    then have n: "Suc (2 * ?n) = length bs" by simp
    then obtain p b where bs: "bs = p @ [b]" by (cases bs rule: rev_cases) auto
    have "length p = 2 * ?n" using n bs by simp
    moreover have "(ucast b :: uint32) = of_nat (unat b)" by simp
    ultimately show ?thesis
      using sum_words_spec [of ?n bs init] u o False bs words_sum_append [of p "[b]"]
      by (simp add: CalculateIpChecksum_def add.assoc)
  qed
qed

lemma unat_not16:
  assumes "unat (f :: uint32) \<le> 65535"
  shows "unat (ucast (NOT f) :: uint16) = 65535 - unat f"
proof -
  have g: "unat (ucast f :: uint16) = unat f"
    using assms by (simp add: unsigned_ucast_eq take_bit_nat_eq_self)
  have "(ucast (NOT f) :: uint16) = NOT (ucast f)" by (rule bit_word_eqI) (simp add: bit_simps)
  also have "\<dots> = - 1 - ucast f" by (simp add: not_eq_complement)
  finally have "unat (ucast (NOT f) :: uint16) = unat (- 1 - ucast f :: uint16)" by simp
  also have "\<dots> = unat (- 1 :: uint16) - unat (ucast f :: uint16)" by (rule unat_sub) simp
  also have "unat (- 1 :: uint16) = 65535"
    by (simp add: unsigned_minus_1_eq_mask mask_eq_exp_minus_1)
  finally show ?thesis using g by simp
qed

lemma words_sum_write: "words_sum (WriteU16 c) = unat c"
proof -
  let ?l = "ucast (take_bit 8 c) :: uint8" and ?h = "ucast (take_bit 8 (drop_bit 8 c)) :: uint8"
  have "ucast ?h = take_bit 8 (drop_bit 8 c)" "ucast ?l = take_bit 8 c" by simp_all
  with unat_word16 [of ?h ?l] join16 [of c] have "unat c = unat ?l + 256 * unat ?h"
    by (simp add: unat_upcast)
  then show ?thesis by (simp add: WriteU16_def)
qed

lemma checksum_verifies:
  assumes ev: "even (length pre)" and len: "length pre + 2 + length post < 65536" and i: "unat (init :: uint32) \<le> 65535"
    and c: "CalculateIpChecksum (of_nat (length pre + 2 + length post)) init (pre @ WriteU16 0 @ post) = Some c"
  shows "CalculateIpChecksum (of_nat (length pre + 2 + length post)) init (pre @ WriteU16 c @ post) = Some 0"
proof -
  let ?bs = "\<lambda>x. pre @ WriteU16 x @ post"
  define T where "T = words_sum pre + words_sum post"
  have l: "length (?bs x) = length pre + 2 + length post" for x by (simp add: u16.width)
  have s: "words_sum (?bs x) = T + unat x" for x
    using words_sum_append [OF ev, of "WriteU16 x @ post"] words_sum_append [of "WriteU16 x" post]
    by (simp add: words_sum_write u16.width T_def)
  let ?f = "\<lambda>x :: uint16. fold_carries (init + of_nat (T + unat x))"
  have cs: "CalculateIpChecksum (of_nat (length pre + 2 + length post)) init (?bs x) = Some (ucast (NOT (?f x)))" for x
    using checksum_spec [of "?bs x" init, unfolded l s] len by blast
  have c': "unat c = 65535 - unat (?f 0)"
    using c cs [of 0] unat_not16 [of "?f 0"] fold_carries_spec by auto
  have small: "unat (init + of_nat (T + unat x)) = unat init + T + unat x" for x :: uint16
  proof -
    have "T + unat x \<le> 65535 * 32768"
      using words_sum_bound [of "?bs x"] s [of x] l [of x] len by simp
    then have "unat (of_nat (T + unat x) :: uint32) = T + unat x" by (intro unat_of_nat32) simp
    moreover have "unat (init + w) = unat init + unat w" if "unat w \<le> 65535 * 32768" for w
      using unat_plus32 [of init w] that i by simp
    ultimately show ?thesis using \<open>T + unat x \<le> 65535 * 32768\<close> by (metis add.assoc)
  qed
  note f0 = fold_carries_spec [of "init + of_nat (T + unat (0 :: uint16))"]
  note fc = fold_carries_spec [of "init + of_nat (T + unat c)"]
  have "(unat init + T) mod 65535 = unat (?f 0) mod 65535" using f0 small [of 0] by simp
  then have "(unat init + T + unat c) mod 65535 = (unat (?f 0) + unat c) mod 65535"
    by (rule mod_add_cong) simp
  also have "unat (?f 0) + unat c = 65535" using c' f0 by simp
  finally have "unat (?f c) mod 65535 = 0" using fc small [of c] by simp
  moreover have "unat (?f c) \<noteq> 0"
  proof -
    have "unat init + T + unat c \<noteq> 0"
    proof
      assume z: "unat init + T + unat c = 0"
      then have "init + of_nat (T + unat (0 :: uint16)) = 0" by (simp add: unat_eq_zero)
      then have "?f 0 = 0" using f0 by blast
      then have "unat c = 65535" using c' by (simp only: unat_0 diff_zero)
      with z show False by linarith
    qed
    then have "init + of_nat (T + unat c) \<noteq> 0" using small [of c] by (metis unat_0)
    then show ?thesis using fc by (simp add: unat_eq_zero)
  qed
  ultimately have "unat (?f c) = 65535" using fc by (auto elim!: dvdE simp: mod_eq_0_iff_dvd)
  then have "unat (ucast (NOT (?f c)) :: uint16) = 0" using unat_not16 [of "?f c"] by simp
  then show ?thesis using cs [of c] by (simp add: unat_eq_zero)
qed

end
