(* ===== verification/TcpHdr.thy ===== *)
theory TcpHdr
  imports TcpOptions Checksum
begin

text \<open>
  \<open>TcpHeader\<close> (\<open>internet/model/tcp-header.cc\<close>): the record, the list of options, and the encoding into
  the first bytes of a packet buffer. \<open>Serialize\<close> maps the bytes of the buffer from the position of
  the iterator on to the bytes after the call; \<open>Deserialize\<close> returns the header object with the size.
\<close>

unbundle bit_operations_syntax

section \<open>The header object\<close>

text \<open>An address of either family; \<open>NoAddress\<close> is the default \<open>Address\<close>, of length zero.\<close>

datatype net_address = NoAddress | Ipv4Address uint32 | Ipv6Address "uint8 list"

record tcp_header =
  m_sourcePort :: uint16
  m_destinationPort :: uint16
  m_sequenceNumber :: seq32
  m_ackNumber :: seq32
  m_length :: uint8
  m_flags :: uint8
  m_windowSize :: uint16
  m_urgentPointer :: uint16
  m_source :: net_address
  m_destination :: net_address
  m_protocol :: uint8
  m_calcChecksum :: bool
  m_goodChecksum :: bool
  m_options :: "tcp_option list"
  m_optionsLen :: uint8

definition new_tcp_header :: tcp_header where
  "new_tcp_header =
     \<lparr>m_sourcePort = 0, m_destinationPort = 0, m_sequenceNumber = 0, m_ackNumber = 0, m_length = 5, m_flags = 0,
      m_windowSize = 0xffff, m_urgentPointer = 0, m_source = NoAddress, m_destination = NoAddress, m_protocol = 6,
      m_calcChecksum = False, m_goodChecksum = True, m_options = [], m_optionsLen = 0\<rparr>"

definition m_maxOptionsLen :: uint8 where
  "m_maxOptionsLen = 40"

definition EnableChecksums :: "tcp_header \<Rightarrow> tcp_header" where
  "EnableChecksums h = h\<lparr>m_calcChecksum := True\<rparr>"

definition SetSourcePort :: "uint16 \<Rightarrow> tcp_header \<Rightarrow> tcp_header" where
  "SetSourcePort port h = h\<lparr>m_sourcePort := port\<rparr>"

definition SetDestinationPort :: "uint16 \<Rightarrow> tcp_header \<Rightarrow> tcp_header" where
  "SetDestinationPort port h = h\<lparr>m_destinationPort := port\<rparr>"

definition SetSequenceNumber :: "seq32 \<Rightarrow> tcp_header \<Rightarrow> tcp_header" where
  "SetSequenceNumber s h = h\<lparr>m_sequenceNumber := s\<rparr>"

definition SetAckNumber :: "seq32 \<Rightarrow> tcp_header \<Rightarrow> tcp_header" where
  "SetAckNumber s h = h\<lparr>m_ackNumber := s\<rparr>"

definition SetFlags :: "uint8 \<Rightarrow> tcp_header \<Rightarrow> tcp_header" where
  "SetFlags flags h = h\<lparr>m_flags := flags\<rparr>"

definition SetWindowSize :: "uint16 \<Rightarrow> tcp_header \<Rightarrow> tcp_header" where
  "SetWindowSize w h = h\<lparr>m_windowSize := w\<rparr>"

definition SetUrgentPointer :: "uint16 \<Rightarrow> tcp_header \<Rightarrow> tcp_header" where
  "SetUrgentPointer p h = h\<lparr>m_urgentPointer := p\<rparr>"

definition InitializeChecksum :: "net_address \<Rightarrow> net_address \<Rightarrow> uint8 \<Rightarrow> tcp_header \<Rightarrow> tcp_header" where
  "InitializeChecksum source destination protocol h =
     h\<lparr>m_source := source, m_destination := destination, m_protocol := protocol\<rparr>"

section \<open>Options\<close>

text \<open>The sum of the sizes of the options is accumulated in a 32-bit integer.\<close>

definition options_size :: "uint32 \<Rightarrow> tcp_option list \<Rightarrow> uint32" where
  "options_size n ops = foldl (\<lambda>len op. len + opt_GetSerializedSize op) n ops"

definition CalculateHeaderLength :: "tcp_header \<Rightarrow> uint8" where
  "CalculateHeaderLength h =
     (let len = options_size 20 (m_options h);
          len = (if len mod 4 \<noteq> 0 then len + (4 - len mod 4) else len)
      in ucast (drop_bit 2 len))"

definition GetSerializedSize :: "tcp_header \<Rightarrow> uint32" where
  "GetSerializedSize h = ucast (CalculateHeaderLength h) * 4"

definition AppendOption :: "tcp_option \<Rightarrow> tcp_header \<Rightarrow> bool \<times> tcp_header" where
  "AppendOption op h =
     (if ucast (m_optionsLen h) + opt_GetSerializedSize op \<le> ucast m_maxOptionsLen
      then if \<not> IsKindKnown (GetKind op) then (False, h)
        else if GetKind op \<noteq> 0
        then let optionsLen = m_optionsLen h + ucast (opt_GetSerializedSize op);
                 totalLen = 20 + 3 + ucast optionsLen :: uint32
             in (True, h\<lparr>m_options := m_options h @ [op], m_optionsLen := optionsLen,
                         m_length := ucast (drop_bit 2 totalLen)\<rparr>)
        else (True, h)
      else (False, h))"

fun find_kind :: "uint8 \<Rightarrow> tcp_option list \<Rightarrow> tcp_option option" where
  "find_kind kind [] = None"
| "find_kind kind (op # ops) = (if GetKind op = kind then Some op else find_kind kind ops)"

definition GetOption :: "uint8 \<Rightarrow> tcp_header \<Rightarrow> tcp_option option" where
  "GetOption kind h = find_kind kind (m_options h)"

definition HasOption :: "uint8 \<Rightarrow> tcp_header \<Rightarrow> bool" where
  "HasOption kind h \<longleftrightarrow> find_kind kind (m_options h) \<noteq> None"

section \<open>Checksum\<close>

fun address_bytes :: "net_address \<Rightarrow> uint8 list" where
  "address_bytes NoAddress = []"
| "address_bytes (Ipv4Address a) = WriteHtonU32 a"
| "address_bytes (Ipv6Address b) = b"

fun IsIpv4 :: "net_address \<Rightarrow> bool" where
  "IsIpv4 (Ipv4Address _) = True"
| "IsIpv4 _ = False"

text \<open>The bytes of the scratch buffer beyond those written are not defined; reading them is \<open>None\<close>.\<close>

definition CalculateHeaderChecksum :: "uint16 \<Rightarrow> tcp_header \<Rightarrow> uint16 option" where
  "CalculateHeaderChecksum sz h =
     (let addresses = address_bytes (m_source h) @ address_bytes (m_destination h);
          (buf, hdrSize) =
            (if IsIpv4 (m_source h)
             then (addresses @ WriteU8 0 @ WriteU8 (m_protocol h) @ WriteU8 (ucast (drop_bit 8 sz)) @
                     WriteU8 (ucast (sz AND 0xff)), 12)
             else (addresses @ WriteU16 0 @ WriteU8 (ucast (drop_bit 8 sz)) @ WriteU8 (ucast (sz AND 0xff)) @
                     WriteU16 0 @ WriteU8 0 @ WriteU8 (m_protocol h), 40))
      in do { c \<leftarrow> CalculateIpChecksum hdrSize 0 buf; Some (NOT c) })"

section \<open>Encoding\<close>

definition fixed_fields :: "tcp_header \<Rightarrow> uint8 list" where
  "fixed_fields h =
     WriteHtonU16 (m_sourcePort h) @ WriteHtonU16 (m_destinationPort h) @ WriteHtonU32 (m_sequenceNumber h) @
     WriteHtonU32 (m_ackNumber h) @ WriteHtonU16 (push_bit 12 (ucast (m_length h)) OR ucast (m_flags h)) @
     WriteHtonU16 (m_windowSize h)"

fun write_options :: "tcp_option list \<Rightarrow> uint8 list" where
  "write_options [] = []"
| "write_options (op # ops) = opt_Serialize op @ write_options ops"

text \<open>The padding loop runs until the length of the options is a multiple of four.\<close>

definition padding :: "uint32 \<Rightarrow> uint8 list" where
  "padding optionLen = replicate (unat (- optionLen) mod 4) 0"

definition Serialize :: "tcp_header \<Rightarrow> uint8 list \<Rightarrow> uint8 list option" where
  "Serialize h buf =
     (let optionLen = options_size 0 (m_options h);
          tail = WriteHtonU16 (m_urgentPointer h) @ write_options (m_options h) @ padding optionLen;
          written = fixed_fields h @ WriteHtonU16 0 @ tail;
          sz = of_nat (length buf)
      in do {
        ns_assert (length written \<le> length buf);
        let rest = drop (length written) buf;
        if m_calcChecksum h
        then do {
          headerChecksum \<leftarrow> CalculateHeaderChecksum sz h;
          checksum \<leftarrow> CalculateIpChecksum sz (ucast headerChecksum) (written @ rest);
          Some (fixed_fields h @ WriteU16 checksum @ tail @ rest)
        }
        else Some (written @ rest)
      })"

section \<open>Decoding\<close>

text \<open>\<open>skip_padding\<close>: the loop that discards what follows an END option.\<close>

fun skip_padding :: "nat \<Rightarrow> uint8 list \<Rightarrow> uint8 \<Rightarrow> (uint8 list \<times> uint8) option" where
  "skip_padding 0 i optionsLen = Some (i, optionsLen)"
| "skip_padding (Suc n) i optionsLen = do { i \<leftarrow> it_Next 1 i; skip_padding n i (optionsLen + 1) }"

text \<open>One round of the loop over the options: leave the loop, or go on from a new position.\<close>

datatype round = Leave "tcp_option list" uint8 | GoOn "uint8 list" uint32 "tcp_option list" uint8

definition read_option :: "uint8 list \<Rightarrow> uint32 \<Rightarrow> tcp_option list \<Rightarrow> uint8 \<Rightarrow> round option" where
  "read_option i optionLen ops optionsLen =
     do {
       kind \<leftarrow> PeekU8 i;
       (optionSize, op) \<leftarrow> opt_Deserialize (option_object kind) i;
       if optionSize \<noteq> opt_GetSerializedSize op then Some (Leave ops optionsLen)
       else if optionLen \<ge> optionSize
       then do {
         i \<leftarrow> it_Next (unat optionSize) i;
         let optionLen = optionLen - optionSize;
         let ops = ops @ [op];
         let optionsLen = optionsLen + ucast optionSize;
         if GetKind op = 0
         then do {
           (i, optionsLen) \<leftarrow> skip_padding (unat optionLen) i optionsLen;
           Some (GoOn i 0 ops optionsLen)
         }
         else Some (GoOn i optionLen ops optionsLen)
       }
       else Some (Leave ops optionsLen)
     }"

partial_function (option) read_options ::
  "uint8 list \<Rightarrow> uint32 \<Rightarrow> tcp_option list \<Rightarrow> uint8 \<Rightarrow> (tcp_option list \<times> uint8) option" where
  "read_options i optionLen ops optionsLen =
     (if optionLen = 0 then Some (ops, optionsLen)
      else do {
        r \<leftarrow> read_option i optionLen ops optionsLen;
        case r of
          Leave ops optionsLen \<Rightarrow> Some (ops, optionsLen)
        | GoOn i optionLen ops optionsLen \<Rightarrow> read_options i optionLen ops optionsLen
      })"

text \<open>The fixed fields; the options of the object are cleared.\<close>

definition read_fields :: "uint8 list \<Rightarrow> tcp_header \<Rightarrow> (tcp_header \<times> uint8 list) option" where
  "read_fields i h =
     do {
       (sourcePort, i) \<leftarrow> ReadNtohU16 i;
       (destinationPort, i) \<leftarrow> ReadNtohU16 i;
       (sequenceNumber, i) \<leftarrow> ReadNtohU32 i;
       (ackNumber, i) \<leftarrow> ReadNtohU32 i;
       (field, i) \<leftarrow> ReadNtohU16 i;
       (windowSize, i) \<leftarrow> ReadNtohU16 i;
       i \<leftarrow> it_Next 2 i;
       (urgentPointer, i) \<leftarrow> ReadNtohU16 i;
       Some (h\<lparr>m_sourcePort := sourcePort, m_destinationPort := destinationPort,
               m_sequenceNumber := sequenceNumber, m_ackNumber := ackNumber,
               m_length := ucast (drop_bit 12 field), m_flags := ucast (field AND 0xff),
               m_windowSize := windowSize, m_urgentPointer := urgentPointer,
               m_options := [], m_optionsLen := 0\<rparr>, i)
     }"

definition verify_checksum :: "uint8 list \<Rightarrow> tcp_header \<Rightarrow> bool option" where
  "verify_checksum start h =
     (if m_calcChecksum h
      then do {
        headerChecksum \<leftarrow> CalculateHeaderChecksum (of_nat (length start)) h;
        checksum \<leftarrow> CalculateIpChecksum (of_nat (length start)) (ucast headerChecksum) start;
        Some (checksum = 0)
      }
      else Some (m_goodChecksum h))"

definition Deserialize :: "uint8 list \<Rightarrow> tcp_header \<Rightarrow> (uint32 \<times> tcp_header) option" where
  "Deserialize start h =
     do {
       (h, i) \<leftarrow> read_fields start h;
       let optionLen = (ucast (m_length h) - 5) * 4;
       if optionLen > ucast m_maxOptionsLen then Some (20, h)
       else do {
         (ops, optionsLen) \<leftarrow> read_options i optionLen [] 0;
         let h = h\<lparr>m_options := ops, m_optionsLen := optionsLen\<rparr>;
         good \<leftarrow> verify_checksum start h;
         let h = h\<lparr>m_goodChecksum := good\<rparr>;
         Some (GetSerializedSize h, h)
       }
     }"

end
