(* ===== verification/TcpHdrProps.thy ===== *)
theory TcpHdrProps
  imports TcpHdr
begin

text \<open>
  Properties of the TCP header: the lengths that \<open>AppendOption\<close> maintains, the round trip through the
  wire format with the checksum, bounds on what \<open>Deserialize\<close> accepts, and its behaviour on a
  malformed option.
\<close>

unbundle bit_operations_syntax

section \<open>Lengths\<close>

definition osize :: "tcp_option list \<Rightarrow> nat" where
  "osize ops = sum_list (map (unat \<circ> opt_GetSerializedSize) ops)"

lemma osize_simps [simp]:
  "osize [] = 0" "osize (op # ops) = unat (opt_GetSerializedSize op) + osize ops"
  "osize (ops @ ops') = osize ops + osize ops'"
  by (simp_all add: osize_def)

lemma options_size_eq: "options_size n ops = n + of_nat (osize ops)"
  unfolding options_size_def by (induction ops arbitrary: n) (simp_all add: add.assoc)

text \<open>What a header built with \<open>AppendOption\<close> satisfies.\<close>

definition sendable :: "tcp_option \<Rightarrow> bool" where
  "sendable op \<longleftrightarrow> wire_ok op \<and> IsKindKnown (GetKind op) \<and> GetKind op \<noteq> 0"

definition hdr_ok :: "tcp_header \<Rightarrow> bool" where
  "hdr_ok h \<longleftrightarrow> (\<forall>op \<in> set (m_options h). sendable op) \<and> osize (m_options h) \<le> 40 \<and>
     m_optionsLen h = of_nat (osize (m_options h)) \<and> m_length h = of_nat ((23 + osize (m_options h)) div 4)"

lemma u32_small: "n < 4294967296 \<Longrightarrow> unat (of_nat n :: uint32) = n"
  by (simp add: unat_of_nat take_bit_nat_eq_self)

lemma u32_nonzero: "0 < n \<Longrightarrow> n < 4294967296 \<Longrightarrow> (of_nat n :: uint32) \<noteq> 0"
  by (metis u32_small unat_0 less_irrefl)

lemma u8_small: "n < 256 \<Longrightarrow> unat (of_nat n :: uint8) = n"
  by (simp add: unat_of_nat take_bit_nat_eq_self)

lemma ucast_of_nat8: "n < 256 \<Longrightarrow> ucast (of_nat n :: uint8) = (of_nat n :: uint32)"
  by (simp add: word_unat_eq_iff unsigned_ucast_eq unsigned_of_nat take_bit_nat_eq_self)

lemma quarter: "n < 256 \<Longrightarrow> ucast (drop_bit 2 (of_nat n :: uint32)) = (of_nat (n div 4) :: uint8)"
proof -
  assume n: "n < 256"
  have "unat (drop_bit 2 (of_nat n :: uint32)) = n div 4"
    using n by (simp add: drop_bit_eq_div unat_div u32_small)
  moreover have "unat (of_nat (n div 4) :: uint8) = n div 4" using n by (intro u8_small) auto
  ultimately show ?thesis using n by (simp add: word_unat_eq_iff unsigned_ucast_eq take_bit_nat_eq_self)
qed

lemma new_header_ok: "hdr_ok new_tcp_header"
  by (simp add: hdr_ok_def new_tcp_header_def)

lemma append_ok:
  assumes h: "hdr_ok h" and op: "wire_ok op" "AppendOption op h = (True, h')" "GetKind op \<noteq> 0"
  shows "hdr_ok h' \<and> m_options h' = m_options h @ [op]"
proof -
  let ?n = "osize (m_options h)" and ?k = "unat (opt_GetSerializedSize op)"
  have n: "?n \<le> 40" "ucast (m_optionsLen h) = (of_nat ?n :: uint32)" "m_optionsLen h = of_nat ?n"
    using h ucast_of_nat8 [of ?n] by (simp_all add: hdr_ok_def)
  have k: "ucast (m_optionsLen h) + opt_GetSerializedSize op \<le> ucast m_maxOptionsLen" and known: "IsKindKnown (GetKind op)"
    using op(2) by (auto simp: AppendOption_def split: if_splits)
  have "opt_GetSerializedSize op = of_nat ?k" by simp
  have "?k \<le> 250" by (rule opt_size_bounds(2) [OF op(1)])
  then have "unat (of_nat ?n + opt_GetSerializedSize op) = ?n + ?k"
    using n(1) by (simp add: unat_word_ariths u32_small)
  moreover have "unat (ucast m_maxOptionsLen :: uint32) = 40" by (simp add: m_maxOptionsLen_def)
  ultimately have le: "?n + ?k \<le> 40" using k n(2) by (simp add: word_le_nat_alt)
  have u: "(ucast (opt_GetSerializedSize op) :: uint8) = of_nat ?k"
    using \<open>?k \<le> 250\<close> by (simp add: word_unat_eq_iff unsigned_ucast_eq u8_small take_bit_nat_eq_self)
  have ol: "m_optionsLen h + ucast (opt_GetSerializedSize op) = of_nat (?n + ?k)" using n(3) u by simp
  have tl: "(20 + 3 + ucast (m_optionsLen h + ucast (opt_GetSerializedSize op)) :: uint32) = of_nat (23 + (?n + ?k))"
    unfolding ol using ucast_of_nat8 [of "?n + ?k"] le by simp
  have e: "h' = h\<lparr>m_options := m_options h @ [op],
      m_optionsLen := m_optionsLen h + ucast (opt_GetSerializedSize op),
      m_length := ucast (drop_bit 2 (20 + 3 + ucast (m_optionsLen h + ucast (opt_GetSerializedSize op)) :: uint32))\<rparr>"
    using op(2,3) k known by (simp add: AppendOption_def Let_def)
  have q: "ucast (drop_bit 2 (of_nat (23 + (?n + ?k)) :: uint32)) = (of_nat ((23 + (?n + ?k)) div 4) :: uint8)"
    using le by (intro quarter) simp
  have "h' = h\<lparr>m_options := m_options h @ [op], m_optionsLen := of_nat (?n + ?k),
      m_length := of_nat ((23 + (?n + ?k)) div 4)\<rparr>"
    unfolding e tl unfolding ol q ..
  then show ?thesis using h le op(1,3) known by (simp add: hdr_ok_def sendable_def)
qed

lemma header_length:
  assumes "osize (m_options h) \<le> 40"
  shows "CalculateHeaderLength h = of_nat ((23 + osize (m_options h)) div 4)"
    and "unat (GetSerializedSize h) = 4 * ((23 + osize (m_options h)) div 4)"
proof -
  define n where "n = 20 + osize (m_options h)"
  let ?m = "4 * ((n + 3) div 4)"
  have n: "n \<le> 60" using assms by (simp add: n_def)
  have s: "options_size 20 (m_options h) = of_nat n" by (simp add: options_size_eq n_def)
  have md: "(of_nat n :: uint32) mod 4 = of_nat (n mod 4)"
    using n by (simp add: word_unat_eq_iff unat_mod u32_small)
  have "(if (of_nat n :: uint32) mod 4 \<noteq> 0 then of_nat n + (4 - of_nat n mod 4) else of_nat n) = (of_nat ?m :: uint32)"
  proof (cases "n mod 4 = 0")
    case True
    then have "?m = n" by presburger
    with True show ?thesis unfolding md by simp
  next
    case False
    have "unat (of_nat (n mod 4) :: uint32) = n mod 4" by (intro u32_small) (simp add: less_trans [of _ 4])
    then have "(of_nat (n mod 4) :: uint32) \<noteq> 0" using False by (metis unat_0)
    moreover have "(4 :: uint32) - of_nat (n mod 4) = of_nat (4 - n mod 4)" by (simp add: of_nat_diff)
    moreover have "n + (4 - n mod 4) = ?m" using False by presburger
    ultimately show ?thesis unfolding md by (metis of_nat_add)
  qed
  then have "CalculateHeaderLength h = ucast (drop_bit 2 (of_nat ?m :: uint32))"
    unfolding CalculateHeaderLength_def Let_def s by simp
  also have "\<dots> = of_nat (?m div 4)" using n by (intro quarter) linarith
  finally show c: "CalculateHeaderLength h = of_nat ((23 + osize (m_options h)) div 4)" by (simp add: n_def add.commute)
  have "(23 + osize (m_options h)) div 4 < 256" using assms by linarith
  then show "unat (GetSerializedSize h) = 4 * ((23 + osize (m_options h)) div 4)"
    unfolding GetSerializedSize_def c using ucast_of_nat8 assms by (simp add: unat_word_ariths u32_small)
qed

section \<open>Reading the options back\<close>

lemma read_option_written:
  assumes "sendable op" "unat (opt_GetSerializedSize op) + n \<le> 40"
  shows "read_option (opt_Serialize op @ i) (of_nat (unat (opt_GetSerializedSize op) + n)) ops k =
    Some (GoOn i (of_nat n) (ops @ [op]) (k + ucast (opt_GetSerializedSize op)))"
proof -
  have ok: "wire_ok op" "GetKind op \<noteq> 0" using assms(1) by (simp_all add: sendable_def)
  have "opt_GetSerializedSize op \<le> of_nat (unat (opt_GetSerializedSize op) + n)"
    using assms(2) by (simp only: word_le_nat_alt u32_small)
  moreover have "it_Next (unat (opt_GetSerializedSize op)) (opt_Serialize op @ i) = Some i"
    using opt_size_length [OF ok(1)] by (simp add: it_Next_def)
  ultimately show ?thesis
    using option_roundtrip [OF ok(1), of i] ok(2) by (simp add: read_option_def Let_def)
qed

lemma read_options_written:
  assumes "\<forall>op \<in> set ops. sendable op" "osize ops + n \<le> 40"
  shows "read_options (write_options ops @ i) (of_nat (osize ops + n)) acc k =
    read_options i (of_nat n) (acc @ ops) (k + of_nat (osize ops))"
  using assms
proof (induction ops arbitrary: acc k)
  case (Cons op ops)
  let ?s = "opt_GetSerializedSize op"
  have "1 \<le> unat ?s" using opt_size_bounds(1) Cons.prems(1) by (simp add: sendable_def)
  have nz: "(of_nat (osize (op # ops) + n) :: uint32) \<noteq> 0"
    using Cons.prems(2) \<open>1 \<le> unat ?s\<close> by (intro u32_nonzero) simp_all
  have r: "read_option (write_options (op # ops) @ i) (of_nat (osize (op # ops) + n)) acc k =
      Some (GoOn (write_options ops @ i) (of_nat (osize ops + n)) (acc @ [op]) (k + ucast ?s))"
    using read_option_written [of op "osize ops + n" "write_options ops @ i" acc k] Cons.prems by (simp add: add.assoc)
  have "read_options (write_options (op # ops) @ i) (of_nat (osize (op # ops) + n)) acc k =
      read_options (write_options ops @ i) (of_nat (osize ops + n)) (acc @ [op]) (k + ucast ?s)"
    by (subst read_options.simps) (simp only: nz r if_False Option.bind_lunit round.case)
  also have "\<dots> = read_options i (of_nat n) ((acc @ [op]) @ ops) (k + ucast ?s + of_nat (osize ops))"
    using Cons.prems by (intro Cons.IH) auto
  also have "k + ucast ?s + of_nat (osize ops) = k + of_nat (osize (op # ops))"
    by (simp add: add.assoc)
  finally show ?case by simp
qed simp

lemma skip_padding_ok: "n \<le> length i \<Longrightarrow> skip_padding n i k = Some (drop n i, k + of_nat n)"
  by (induction n arbitrary: i k) (auto simp: it_Next_def drop_Suc drop_tl Suc_le_eq add.assoc)

lemma read_padding:
  assumes "n < 4"
  shows "read_options (replicate n 0 @ i) (of_nat n) ops k =
    Some (ops @ (if n = 0 then [] else [TcpOptionEnd]), k + of_nat n)"
proof (cases n)
  case (Suc m)
  have nz: "(of_nat n :: uint32) \<noteq> 0" using Suc assms by (intro u32_nonzero) simp_all
  have "(1 :: uint32) \<le> of_nat n" using Suc assms u32_small [of n] by (simp add: word_le_nat_alt)
  moreover have "skip_padding (unat ((of_nat n :: uint32) - 1)) (replicate m 0 @ i) (k + 1) = Some (i, k + of_nat n)"
    using Suc assms u32_small [of m] by (simp add: skip_padding_ok)
  ultimately have "read_option (replicate n 0 @ i) (of_nat n) ops k = Some (GoOn i 0 (ops @ [TcpOptionEnd]) (k + of_nat n))"
    using Suc by (simp add: read_option_def PeekU8_def End_Deserialize_def it_Next_def Let_def)
  then show ?thesis
    using Suc nz by (subst read_options.simps) (simp add: read_options.simps [of _ 0])
qed (simp add: read_options.simps)

lemma padding_length:
  assumes "n \<le> 40" shows "padding (of_nat n) = replicate (4 * ((n + 3) div 4) - n) 0"
proof -
  have "unat (- (of_nat n :: uint32)) mod 4 = 4 * ((n + 3) div 4) - n"
  proof (cases "n = 0")
    case False
    have "(of_nat (4294967296 - n) :: uint32) = of_nat 4294967296 - of_nat n" using assms by (intro of_nat_diff) simp
    also have "\<dots> = - of_nat n" by simp
    finally have e: "(of_nat (4294967296 - n) :: uint32) = - of_nat n" .
    have "unat (of_nat (4294967296 - n) :: uint32) = 4294967296 - n"
      using False by (intro u32_small) simp
    then have "unat (- (of_nat n :: uint32)) = 4294967296 - n" unfolding e .
    moreover have "(4294967296 - n) mod 4 = 4 * ((n + 3) div 4) - n"
    proof -
      obtain k where k: "k = (n + 3) div 4" by simp
      then have b: "n \<le> 4 * k" "4 * k - n < 4" "k \<le> 11" using assms by linarith+
      then have "4294967296 - n = (4 * k - n) + 4 * (1073741824 - k)" by linarith
      then have "(4294967296 - n) mod 4 = (4 * k - n) mod 4" by (simp only: mod_mult_self2)
      then show ?thesis using b(2) k by simp
    qed
    ultimately show ?thesis by simp
  qed simp
  then show ?thesis by (simp add: padding_def)
qed

section \<open>Round trip\<close>

lemma length_write_options: "\<forall>op \<in> set ops. sendable op \<Longrightarrow> length (write_options ops) = osize ops"
  by (induction ops) (simp_all add: opt_size_length sendable_def)

lemma fixed_length: "length (fixed_fields h) = 16"
  by (simp add: fixed_fields_def codec_width)

text \<open>The bytes of a header with a given checksum field.\<close>

definition wire_image :: "tcp_header \<Rightarrow> uint8 list \<Rightarrow> uint8 list" where
  "wire_image h c = fixed_fields h @ c @ WriteHtonU16 (m_urgentPointer h) @ write_options (m_options h) @
     padding (options_size 0 (m_options h))"

lemma wire_image_length:
  assumes "hdr_ok h" "length c = 2" shows "length (wire_image h c) = unat (GetSerializedSize h)"
proof -
  have o: "osize (m_options h) \<le> 40" "\<forall>op \<in> set (m_options h). sendable op" using assms(1) by (simp_all add: hdr_ok_def)
  have p: "length (padding (options_size 0 (m_options h))) = 4 * ((osize (m_options h) + 3) div 4) - osize (m_options h)"
    using padding_length [OF o(1)] by (simp add: options_size_eq)
  have "16 + 2 + 2 + osize (m_options h) + (4 * ((osize (m_options h) + 3) div 4) - osize (m_options h)) =
      4 * ((23 + osize (m_options h)) div 4)" by presburger
  then show ?thesis
    using header_length(2) [OF o(1)] length_write_options [OF o(2)] assms(2)
    by (simp add: wire_image_def fixed_length p codec_width)
qed

text \<open>A packet whose checksum can be computed: addresses of one family, less than 64 kilobytes.\<close>

definition checkable :: "tcp_header \<Rightarrow> uint8 list \<Rightarrow> bool" where
  "checkable h payload \<longleftrightarrow> unat (GetSerializedSize h) + length payload < 65536 \<and>
     (case (m_source h, m_destination h) of
        (Ipv4Address _, Ipv4Address _) \<Rightarrow> True
      | (Ipv6Address a, Ipv6Address b) \<Rightarrow> length a = 16 \<and> length b = 16
      | _ \<Rightarrow> False)"

lemma pseudo_header_checksum:
  assumes "checkable h payload" shows "\<exists>c. CalculateHeaderChecksum n h = Some c"
proof (cases "m_source h")
  case (Ipv4Address a)
    then obtain b where "m_destination h = Ipv4Address b"
      using assms by (auto simp: checkable_def split: net_address.splits)
    with Ipv4Address show ?thesis
      using checksum_spec [of "WriteHtonU32 a @ WriteHtonU32 b @ [0, m_protocol h, ucast (drop_bit 8 n), ucast (take_bit 8 n)]" 0]
      by (simp add: CalculateHeaderChecksum_def Let_def WriteU8_def codec_width)
  next
  case (Ipv6Address a)
    then obtain b where "m_destination h = Ipv6Address b" "length a = 16" "length b = 16"
      using assms by (auto simp: checkable_def split: net_address.splits)
    with Ipv6Address show ?thesis
      using checksum_spec [of "a @ b @ WriteU16 0 @ [ucast (drop_bit 8 n), ucast (take_bit 8 n)] @ WriteU16 0 @ [0, m_protocol h]" 0]
      by (simp add: CalculateHeaderChecksum_def Let_def WriteU8_def codec_width)
qed (use assms in \<open>auto simp: checkable_def split: net_address.splits\<close>)

lemma Serialize_ok:
  assumes ok: "hdr_ok h" and junk: "length junk = unat (GetSerializedSize h)"
    and cs: "m_calcChecksum h \<longrightarrow> checkable h payload"
  shows "\<exists>c. length c = 2 \<and> Serialize h (junk @ payload) = Some (wire_image h c @ payload) \<and>
    (m_calcChecksum h \<longrightarrow> (\<exists>hc. CalculateHeaderChecksum (of_nat (length (wire_image h c @ payload))) h = Some hc \<and>
       CalculateIpChecksum (of_nat (length (wire_image h c @ payload))) (ucast hc) (wire_image h c @ payload) = Some 0))"
proof -
  let ?n = "unat (GetSerializedSize h)"
  let ?t = "WriteHtonU16 (m_urgentPointer h) @ write_options (m_options h) @ padding (options_size 0 (m_options h))"
  have l: "length (wire_image h c) = ?n" if "length c = 2" for c using wire_image_length [OF ok that] .
  have w: "fixed_fields h @ WriteHtonU16 0 @ ?t = wire_image h (WriteHtonU16 0)" by (simp add: wire_image_def)
  have s: "Serialize h (junk @ payload) = (if m_calcChecksum h
        then do {
          headerChecksum \<leftarrow> CalculateHeaderChecksum (of_nat (?n + length payload)) h;
          checksum \<leftarrow> CalculateIpChecksum (of_nat (?n + length payload)) (ucast headerChecksum) (wire_image h (WriteHtonU16 0) @ payload);
          Some (wire_image h (WriteU16 checksum) @ payload)
        }
        else Some (wire_image h (WriteHtonU16 0) @ payload))"
    unfolding Serialize_def Let_def w using l [of "WriteHtonU16 0"] junk by (simp add: codec_width wire_image_def)
  show ?thesis
  proof (cases "m_calcChecksum h")
    case False
    with s show ?thesis by (intro exI [of _ "WriteHtonU16 0"]) (simp add: codec_width)
  next
    case True
    with cs have ch: "checkable h payload" by simp
    obtain hc where hc: "CalculateHeaderChecksum (of_nat (?n + length payload)) h = Some hc"
      using pseudo_header_checksum [OF ch] by blast
    have b: "?n + length payload < 65536" using ch by (simp add: checkable_def)
    have lw: "length (wire_image h (WriteHtonU16 0) @ payload) = ?n + length payload" by (simp add: l codec_width)
    obtain c where c: "CalculateIpChecksum (of_nat (?n + length payload)) (ucast hc) (wire_image h (WriteHtonU16 0) @ payload) = Some c"
      using checksum_spec [of "wire_image h (WriteHtonU16 0) @ payload" "ucast hc", unfolded lw, OF b] by blast
    have z: "WriteHtonU16 0 = WriteU16 0" by (simp add: WriteHtonU16_def WriteU16_def)
    have im: "wire_image h x @ payload = fixed_fields h @ x @ (?t @ payload)" for x by (simp add: wire_image_def)
    have len: "length (fixed_fields h) + 2 + length (?t @ payload) = ?n + length payload"
      using l [of "WriteU16 0"] by (simp add: wire_image_def codec_width)
    have "CalculateIpChecksum (of_nat (?n + length payload)) (ucast hc) (wire_image h (WriteU16 c) @ payload) = Some 0"
    proof -
      have ev: "even (length (fixed_fields h))" by (simp add: fixed_length)
      have u: "unat (ucast hc :: uint32) \<le> 65535"
        unfolding unat_upcast(3) using unsigned_less [of hc, where 'a = nat] by simp
      have c': "CalculateIpChecksum (of_nat (length (fixed_fields h) + 2 + length (?t @ payload))) (ucast hc)
          (fixed_fields h @ WriteU16 0 @ (?t @ payload)) = Some c"
        unfolding len using c unfolding z im .
      show ?thesis
        using checksum_verifies [OF ev b [folded len] u c'] unfolding len im .
    qed
    then show ?thesis
      using s True hc c by (intro exI [of _ "WriteU16 c"]) (simp add: codec_width l)
  qed
qed

text \<open>The header that is read back: an END option stands for the padding, if there is any.\<close>

definition received :: "tcp_header \<Rightarrow> tcp_header \<Rightarrow> tcp_header" where
  "received h h0 =
     (let n = osize (m_options h) in
      h\<lparr>m_options := m_options h @ (if 4 dvd n then [] else [TcpOptionEnd]),
        m_optionsLen := of_nat (4 * ((n + 3) div 4)),
        m_goodChecksum := (m_calcChecksum h \<or> m_goodChecksum h0)\<rparr>)"

lemma length_field:
  assumes "unat (l :: uint8) < 16"
  shows "ucast (drop_bit 12 (push_bit 12 (ucast l) OR ucast (f :: uint8) :: uint16)) = l"
    and "ucast ((push_bit 12 (ucast l) OR ucast f :: uint16) AND 0xff) = f"
proof -
  have hi: "\<not> bit l n" if "4 \<le> n" for n
  proof -
    have "l = take_bit 4 l" using assms by (simp add: word_unat_eq_iff unsigned_take_bit_eq take_bit_nat_eq_self)
    then show ?thesis using that by (metis bit_take_bit_iff not_le)
  qed
  show "ucast (drop_bit 12 (push_bit 12 (ucast l) OR ucast (f :: uint8) :: uint16)) = l"
    using hi not_le by (intro bit_word_eqI) (auto simp: bit_simps dest: bit_imp_le_length)
  show "ucast ((push_bit 12 (ucast l) OR ucast f :: uint16) AND 0xff) = f"
    by (rule bit_word_eqI) (auto simp: bit_simps)
qed

lemma checksum_cong:
  "m_source h = m_source h' \<Longrightarrow> m_destination h = m_destination h' \<Longrightarrow> m_protocol h = m_protocol h' \<Longrightarrow>
    CalculateHeaderChecksum k h = CalculateHeaderChecksum k h'"
  by (simp add: CalculateHeaderChecksum_def cong: if_cong)

lemma Deserialize_image:
  assumes ok: "hdr_ok h" and c: "length c = 2"
    and same: "m_source h0 = m_source h" "m_destination h0 = m_destination h" "m_protocol h0 = m_protocol h"
      "m_calcChecksum h0 = m_calcChecksum h"
    and cs: "m_calcChecksum h \<longrightarrow> (\<exists>hc. CalculateHeaderChecksum (of_nat (length (wire_image h c @ payload))) h = Some hc \<and>
       CalculateIpChecksum (of_nat (length (wire_image h c @ payload))) (ucast hc) (wire_image h c @ payload) = Some 0)"
  shows "Deserialize (wire_image h c @ payload) h0 = Some (GetSerializedSize h, received h h0)"
proof -
  define n where "n = osize (m_options h)"
  define N where "N = 4 * ((n + 3) div 4)"
  have o: "n \<le> 40" "\<forall>op \<in> set (m_options h). sendable op" "m_length h = of_nat ((23 + n) div 4)"
    using ok by (simp_all add: hdr_ok_def n_def)
  have N: "n \<le> N" "N \<le> 40" "N - n < 4" "N - n = 0 \<longleftrightarrow> 4 dvd n" "(23 + n) div 4 = N div 4 + 5" "4 dvd N"
  proof -
    have "(n + 3) div 4 \<le> 43 div 4" using o(1) by (intro div_le_mono) simp
    then show "N \<le> 40" by (simp add: N_def)
    show "n \<le> N" "N - n < 4" unfolding N_def by linarith+
    show "N - n = 0 \<longleftrightarrow> 4 dvd n" unfolding N_def by presburger
    have "(23 + n) div 4 = (n + 3) div 4 + 5" by linarith
    then show "(23 + n) div 4 = N div 4 + 5" "4 dvd N" by (simp_all add: N_def)
  qed
  define ops where "ops = m_options h @ (if 4 dvd n then [] else [TcpOptionEnd])"
  have parsed: "read_options (write_options (m_options h) @ padding (options_size 0 (m_options h)) @ payload)
      (of_nat N) [] 0 = Some (ops, of_nat N)"
  proof -
    have "padding (options_size 0 (m_options h)) = replicate (N - n) 0"
      using padding_length [OF o(1)] by (simp add: options_size_eq n_def N_def)
    then show ?thesis
      using read_options_written [OF o(2), of "N - n" "replicate (N - n) 0 @ payload" "[]" 0]
        read_padding [OF N(3), of payload "m_options h" "of_nat n"] N(1,2,4)
      by (simp add: n_def [symmetric] ops_def of_nat_diff)
  qed
  have len16: "unat (m_length h) < 16"
  proof -
    have "(23 + n) div 4 < 16" using o(1) by linarith
    then show ?thesis unfolding o(3) using u8_small [of "(23 + n) div 4"] by simp
  qed
  have opl: "(ucast (m_length h) - 5) * 4 = (of_nat N :: uint32)"
  proof -
    have "(ucast (m_length h) :: uint32) = of_nat (N div 4) + 5"
      unfolding o(3) N(5) using N(2) ucast_of_nat8 [of "N div 4 + 5"] by simp
    then show ?thesis using N(6) by (metis add_diff_cancel_right' of_nat_mult of_nat_numeral dvd_div_mult_self)
  qed
  have le: "\<not> (ucast m_maxOptionsLen < (of_nat N :: uint32))"
    using N(2) by (simp add: word_less_nat_alt u32_small m_maxOptionsLen_def)
  let ?h = "h0\<lparr>m_sourcePort := m_sourcePort h, m_destinationPort := m_destinationPort h,
      m_sequenceNumber := m_sequenceNumber h, m_ackNumber := m_ackNumber h, m_length := m_length h,
      m_flags := m_flags h, m_windowSize := m_windowSize h, m_urgentPointer := m_urgentPointer h,
      m_options := ops, m_optionsLen := of_nat N\<rparr>"
  have dbl: "h0\<lparr>m_sourcePort := m_sourcePort h, m_destinationPort := m_destinationPort h,
      m_sequenceNumber := m_sequenceNumber h, m_ackNumber := m_ackNumber h, m_length := m_length h,
      m_flags := m_flags h, m_windowSize := m_windowSize h, m_urgentPointer := m_urgentPointer h,
      m_options := [], m_optionsLen := 0, m_options := ops, m_optionsLen := of_nat N\<rparr> = ?h" by simp
  have hc: "CalculateHeaderChecksum k ?h = CalculateHeaderChecksum k h" for k
    by (rule checksum_cong) (simp_all add: same)
  have r: "?h\<lparr>m_goodChecksum := (m_calcChecksum h \<or> m_goodChecksum h0)\<rparr> = received h h0"
    using same by (cases h, cases h0) (simp add: received_def n_def ops_def N_def Let_def)
  have sz: "GetSerializedSize (received h h0) = GetSerializedSize h"
  proof -
    have "osize ops \<le> 40" "(23 + osize ops) div 4 = (23 + n) div 4"
    proof -
      have "osize ops = (if 4 dvd n then n else n + 1)" by (simp add: ops_def n_def)
      moreover have "n + 1 \<le> 40" if "\<not> 4 dvd n" using that o(1) by (cases "n = 40") simp_all
      moreover have "(23 + (n + 1)) div 4 = (23 + n) div 4" if "\<not> 4 dvd n" using that by presburger
      ultimately show "osize ops \<le> 40" "(23 + osize ops) div 4 = (23 + n) div 4" using o(1) by auto
    qed
    then have "unat (GetSerializedSize (received h h0)) = unat (GetSerializedSize h)"
      using header_length(2) [of "received h h0"] header_length(2) [of h] o(1)
      by (simp add: received_def n_def [symmetric] ops_def [symmetric] Let_def)
    then show ?thesis by (simp only: word_unat_eq_iff)
  qed
  have sk: "it_Next 2 (c @ x) = Some x" for x using c by (simp add: it_Next_def)
  have im: "wire_image h c @ payload = WriteHtonU16 (m_sourcePort h) @ WriteHtonU16 (m_destinationPort h) @
      WriteHtonU32 (m_sequenceNumber h) @ WriteHtonU32 (m_ackNumber h) @
      WriteHtonU16 (push_bit 12 (ucast (m_length h)) OR ucast (m_flags h)) @ WriteHtonU16 (m_windowSize h) @
      c @ WriteHtonU16 (m_urgentPointer h) @
      write_options (m_options h) @ padding (options_size 0 (m_options h)) @ payload"
    by (simp add: wire_image_def fixed_fields_def)
  have good: "verify_checksum (wire_image h c @ payload) ?h = Some (m_calcChecksum h \<or> m_goodChecksum h0)"
    unfolding verify_checksum_def hc using cs same by auto
  let ?h1 = "h0\<lparr>m_sourcePort := m_sourcePort h, m_destinationPort := m_destinationPort h,
      m_sequenceNumber := m_sequenceNumber h, m_ackNumber := m_ackNumber h, m_length := m_length h,
      m_flags := m_flags h, m_windowSize := m_windowSize h, m_urgentPointer := m_urgentPointer h,
      m_options := [], m_optionsLen := 0\<rparr>"
  have fields: "read_fields (wire_image h c @ payload) h0 =
      Some (?h1, write_options (m_options h) @ padding (options_size 0 (m_options h)) @ payload)"
    unfolding read_fields_def im
    by (simp only: codec_read Option.bind_lunit prod.case sk length_field [OF len16])
  have l1: "m_length ?h1 = m_length h" by simp
  show ?thesis
    unfolding Deserialize_def fields
    by (simp only: Option.bind_lunit prod.case Let_def l1 opl le if_False parsed dbl good r sz)
qed

section \<open>Properties\<close>

text \<open>Headers as the sockets build them: a new header, the setters and \<open>AppendOption\<close>.\<close>

inductive built :: "tcp_header \<Rightarrow> bool" where
  "built new_tcp_header"
| "built h \<Longrightarrow> built (EnableChecksums h)"
| "built h \<Longrightarrow> built (SetSourcePort p (SetDestinationPort q h))"
| "built h \<Longrightarrow> built (SetSequenceNumber s (SetAckNumber a h))"
| "built h \<Longrightarrow> built (SetFlags f (SetWindowSize w (SetUrgentPointer u h)))"
| "built h \<Longrightarrow> built (InitializeChecksum src dst p h)"
| "built h \<Longrightarrow> wire_ok op \<Longrightarrow> built (snd (AppendOption op h))"

lemma AppendOption_cases:
  "AppendOption op h = (False, h) \<or> GetKind op = 0 \<and> AppendOption op h = (True, h) \<or>
   GetKind op \<noteq> 0 \<and> (\<exists>h'. AppendOption op h = (True, h'))"
  by (simp add: AppendOption_def Let_def)

lemma built_ok: "built h \<Longrightarrow> hdr_ok h"
proof (induction rule: built.induct)
  case (7 h op)
  then show ?case using AppendOption_cases [of op h] append_ok [OF "7.IH" "7.hyps"(2)] by auto
qed (simp_all add: hdr_ok_def new_tcp_header_def EnableChecksums_def SetSourcePort_def SetDestinationPort_def
    SetSequenceNumber_def SetAckNumber_def SetFlags_def SetWindowSize_def SetUrgentPointer_def InitializeChecksum_def)

text \<open>C25. The length field of a header that is built with \<open>AppendOption\<close> is the length that
  \<open>CalculateHeaderLength\<close> finds, it is at most 15 words, \<open>m_optionsLen\<close> is the size of the options,
  at most 40, and the size that is reserved for the header is four times the length field.\<close>

theorem header_lengths_agree:
  assumes "built h"
  shows "m_length h = CalculateHeaderLength h \<and> unat (m_length h) \<le> 15 \<and>
    unat (m_optionsLen h) = sum_list (map (unat \<circ> opt_GetSerializedSize) (m_options h)) \<and>
    unat (m_optionsLen h) \<le> 40 \<and> unat (GetSerializedSize h) = 4 * unat (m_length h)"
proof -
  let ?n = "osize (m_options h)"
  have h: "?n \<le> 40" "m_optionsLen h = of_nat ?n" "m_length h = of_nat ((23 + ?n) div 4)"
    using built_ok [OF assms] by (simp_all add: hdr_ok_def)
  have l: "(23 + ?n) div 4 \<le> 15" using h(1) by linarith
  have "unat (m_length h) = (23 + ?n) div 4" unfolding h(3) using l by (intro u8_small) simp
  moreover have "unat (m_optionsLen h) = ?n" unfolding h(2) using h(1) by (intro u8_small) simp
  ultimately show ?thesis using h l header_length [of h] by (simp add: osize_def)
qed

text \<open>C24. Round trip: a header built with options, serialized in front of any payload, is read back
  with all its fields and its options, followed by an END option when there is padding; the size
  returned is the size reserved, and with checksums enabled the checksum is found to be good.\<close>

theorem header_roundtrip:
  assumes "built h" "length junk = unat (GetSerializedSize h)" "m_calcChecksum h \<longrightarrow> checkable h payload"
    and "m_source h0 = m_source h" "m_destination h0 = m_destination h" "m_protocol h0 = m_protocol h"
      "m_calcChecksum h0 = m_calcChecksum h"
  shows "\<exists>bs. Serialize h (junk @ payload) = Some bs \<and> length bs = length junk + length payload \<and>
    drop (length junk) bs = payload \<and> Deserialize bs h0 = Some (GetSerializedSize h, received h h0)"
proof -
  note ok = built_ok [OF assms(1)]
  from Serialize_ok [OF ok assms(2,3)] obtain c where c: "length c = 2"
    "Serialize h (junk @ payload) = Some (wire_image h c @ payload)"
    "m_calcChecksum h \<longrightarrow> (\<exists>hc. CalculateHeaderChecksum (of_nat (length (wire_image h c @ payload))) h = Some hc \<and>
       CalculateIpChecksum (of_nat (length (wire_image h c @ payload))) (ucast hc) (wire_image h c @ payload) = Some 0)"
    by blast
  from Deserialize_image [OF ok c(1) assms(4-7) c(3)] c(2) wire_image_length [OF ok c(1)] assms(2)
  show ?thesis by simp
qed

section \<open>Malformed headers\<close>

lemma skip_padding_count:
  "skip_padding n i k = Some (i', k') \<Longrightarrow> k' = k + of_nat n"
proof (induction n arbitrary: i k)
  case (Suc n)
  then have "skip_padding n (drop 1 i) (k + 1) = Some (i', k')" by (auto simp: it_Next_def split: if_splits)
  from Suc.IH [OF this] show ?case by (simp add: add.assoc)
qed simp

lemma read_option_GoOn:
  assumes "read_option i ol ops k = Some (GoOn i' ol' ops' k')"
  obtains op where "ops' = ops @ [op]" "unat (opt_GetSerializedSize op) + unat ol' \<le> unat ol"
    "k' = k + of_nat (unat ol - unat ol')"
proof -
  from assms obtain kind sz op where d: "PeekU8 i = Some kind" "opt_Deserialize (option_object kind) i = Some (sz, op)"
    by (auto simp: read_option_def bind_eq_Some_conv)
  have e: "sz = opt_GetSerializedSize op" "sz \<le> ol"
    using assms d by (auto simp: read_option_def split: if_splits)
  then have u: "unat (ol - sz) = unat ol - unat sz" "unat sz \<le> unat ol" by (simp_all add: unat_sub word_le_nat_alt)
  have o: "ops' = ops @ [op]" and
    r: "GetKind op \<noteq> 0 \<and> ol' = ol - sz \<and> k' = k + ucast sz \<or>
        ol' = 0 \<and> (\<exists>j. skip_padding (unat (ol - sz)) j (k + ucast sz) = Some (i', k'))"
    using assms d e by (auto simp: read_option_def Let_def it_Next_def bind_eq_Some_conv split: if_splits)
  have w: "(ucast sz :: uint8) = of_nat (unat sz)" by (simp add: word_unat_eq_iff unsigned_ucast_eq unsigned_of_nat)
  from r show ?thesis
  proof
    assume "GetKind op \<noteq> 0 \<and> ol' = ol - sz \<and> k' = k + ucast sz"
    moreover from this have "unat ol - unat ol' = unat sz" using u by simp
    ultimately show ?thesis using that [OF o] e(1) u w by simp
  next
    assume "ol' = 0 \<and> (\<exists>j. skip_padding (unat (ol - sz)) j (k + ucast sz) = Some (i', k'))"
    then have z: "ol' = 0" "k' = k + ucast sz + of_nat (unat (ol - sz))" using skip_padding_count by blast+
    have "unat sz + unat (ol - sz) = unat ol" using u by simp
    then have "k' = k + of_nat (unat ol)" unfolding z(2) w by (metis add.assoc of_nat_add)
    then show ?thesis using that [OF o] e(1) u(2) z(1) by simp
  qed
qed

definition within :: "uint32 \<Rightarrow> tcp_option list \<Rightarrow> uint8 \<Rightarrow> tcp_option list \<times> uint8 \<Rightarrow> bool" where
  "within ol ops k r \<longleftrightarrow> osize (fst r) \<le> osize ops + unat ol \<and>
     (unat k + unat ol < 256 \<longrightarrow> unat (snd r) \<le> unat k + unat ol)"

lemma within_round:
  assumes "read_option i ol ops k = Some (GoOn i2 ol2 ops2 k2)" "within ol2 ops2 k2 r"
  shows "within ol ops k r"
proof -
  from read_option_GoOn [OF assms(1)] obtain op where
    g: "ops2 = ops @ [op]" "unat (opt_GetSerializedSize op) + unat ol2 \<le> unat ol" "k2 = k + of_nat (unat ol - unat ol2)"
    by metis
  have "unat k2 = unat k + (unat ol - unat ol2)" if "unat k + unat ol < 256"
    using that g(3) u8_small [of "unat ol - unat ol2"] by (simp only: unat_word_ariths) simp
  with assms(2) g(1,2) show ?thesis by (auto simp: within_def)
qed

lemma read_options_within:
  assumes "read_options i ol ops k = Some r" shows "within ol ops k r"
proof (rule read_options.raw_induct [where P = "\<lambda>i ol ops k r. within ol ops k r", OF _ assms])
  fix f i ol ops k r
  assume IH: "\<And>i ol ops k r. f i ol ops k = Some r \<Longrightarrow> within ol ops k r"
    and body: "(if ol = 0 then Some (ops, k)
      else do { rd \<leftarrow> read_option i ol ops k;
             case rd of Leave ops k \<Rightarrow> Some (ops, k) | GoOn i ol ops k \<Rightarrow> f i ol ops k }) = Some r"
  show "within ol ops k r"
  proof (cases "ol = 0")
    case True
    with body show ?thesis by (auto simp: within_def)
  next
    case False
    with body obtain rd where rd: "read_option i ol ops k = Some rd" by (auto simp: bind_eq_Some_conv)
    show ?thesis
    proof (cases rd)
      case (Leave ops2 k2)
      then have "ops2 = ops \<and> k2 = k"
        using rd by (auto simp: read_option_def Let_def bind_eq_Some_conv split: if_splits)
      with body False rd Leave show ?thesis by (auto simp: within_def)
    next
      case (GoOn i2 ol2 ops2 k2)
      with body False rd have "f i2 ol2 ops2 k2 = Some r" by simp
      from within_round [OF rd [unfolded GoOn] IH [OF this]] show ?thesis .
    qed
  qed
qed

text \<open>C26. Whatever bytes arrive: if \<open>Deserialize\<close> returns, the options it keeps take at most 40 bytes
  and it claims at most 60 bytes of the packet.\<close>

theorem deserialize_bounds:
  assumes "Deserialize bs h0 = Some (n, h)"
  shows "sum_list (map (unat \<circ> opt_GetSerializedSize) (m_options h)) \<le> 40 \<and> unat (m_optionsLen h) \<le> 40 \<and> unat n \<le> 60"
proof -
  consider "m_options h = []" "m_optionsLen h = 0" "n = 20"
    | i ol ops k where "ol \<le> ucast m_maxOptionsLen" "read_options i ol [] 0 = Some (ops, k)" "m_options h = ops"
      "m_optionsLen h = k" "n = GetSerializedSize h"
  proof -
    from assms obtain h1 i where f: "read_fields bs h0 = Some (h1, i)"
      by (auto simp: Deserialize_def bind_eq_Some_conv)
    then have "m_options h1 = []" "m_optionsLen h1 = 0" by (auto simp: read_fields_def bind_eq_Some_conv)
    with assms f that show ?thesis by (auto simp: Deserialize_def Let_def bind_eq_Some_conv not_less split: if_splits)
  qed
  then show ?thesis
  proof cases
    case 2
    have "unat ol \<le> 40" using 2(1) by (simp add: word_le_nat_alt m_maxOptionsLen_def)
    then have o: "osize (m_options h) \<le> 40" "unat (m_optionsLen h) \<le> 40"
      using read_options_within [OF 2(2)] 2(3,4) by (simp_all add: within_def)
    have "(23 + osize (m_options h)) div 4 \<le> 63 div 4" using o(1) by (intro div_le_mono) simp
    with o header_length(2) [OF o(1)] 2(5) show ?thesis by (simp add: osize_def)
  qed simp
qed

text \<open>A header of 24 bytes whose single option has an unknown kind and the length zero.\<close>

definition malformed :: "uint8 list" where
  "malformed = [0, 80, 0, 80, 0, 0, 0, 1, 0, 0, 0, 0, 0x60, 0, 255, 255, 0, 0, 0, 0, 9, 0, 0, 0]"

lemma zero_length_round:
  "\<not> IsKindKnown k \<Longrightarrow> read_option (k # 0 # r) ol ops n = Some (GoOn (k # 0 # r) ol (ops @ [TcpOptionUnknown k 0 []]) n)"
  by (auto simp: read_option_def PeekU8_def Unknown_Deserialize_def it_Next_def Let_def IsKindKnown_def)

lemma zero_length_diverges:
  assumes "\<not> IsKindKnown k" "ol \<noteq> 0"
  shows "read_options (k # 0 # r) ol ops n = None"
proof -
  have "\<not> (\<exists>k r. \<not> IsKindKnown k \<and> i = k # 0 # r \<and> ol \<noteq> 0)" if o: "read_options i ol ops n = Some y" for i ol ops n y
  proof (rule read_options.raw_induct [where P = "\<lambda>i ol ops n y. \<not> (\<exists>k r. \<not> IsKindKnown k \<and> i = k # 0 # r \<and> ol \<noteq> 0)", OF _ o])
    fix f i ol ops n and y :: "tcp_option list \<times> uint8"
    assume IH: "\<And>i ol ops n y. f i ol ops n = Some y \<Longrightarrow> \<not> (\<exists>k r. \<not> IsKindKnown k \<and> i = k # 0 # r \<and> ol \<noteq> 0)"
      and body: "(if ol = 0 then Some (ops, n)
        else do { rd \<leftarrow> read_option i ol ops n;
               case rd of Leave ops k \<Rightarrow> Some (ops, k) | GoOn i ol ops k \<Rightarrow> f i ol ops k }) = Some y"
    show "\<not> (\<exists>k r. \<not> IsKindKnown k \<and> i = k # 0 # r \<and> ol \<noteq> 0)"
    proof
      assume "\<exists>k r. \<not> IsKindKnown k \<and> i = k # 0 # r \<and> ol \<noteq> 0"
      then obtain k r where a: "\<not> IsKindKnown k" "i = k # 0 # r" "ol \<noteq> 0" by blast
      with body zero_length_round [OF a(1)] have "f i ol (ops @ [TcpOptionUnknown k 0 []]) n = Some y" by simp
      from IH [OF this] a show False by blast
    qed
  qed
  then show ?thesis using assms by (cases "read_options (k # 0 # r) ol ops n") blast+
qed

text \<open>C27. An option of unknown kind with length zero passes the checks of \<open>Deserialize\<close> with the size
  zero: each round of the loop succeeds, appends one more option and stays at the same place, so
  that \<open>Deserialize\<close> never returns.\<close>

theorem zero_length_option_never_returns:
  "(\<forall>ol ops n. read_option [9, 0, 0, 0] ol ops n = Some (GoOn [9, 0, 0, 0] ol (ops @ [TcpOptionUnknown 9 0 []]) n)) \<and>
   Deserialize malformed new_tcp_header = None"
proof -
  have k: "\<not> IsKindKnown 9" by (simp add: IsKindKnown_def)
  show ?thesis
    using zero_length_round [OF k, of "[0, 0]"] zero_length_diverges [OF k, of 4 "[0, 0]" "[]" 0]
    by (simp add: Deserialize_def read_fields_def malformed_def ReadNtohU16_def ReadNtohU32_def it_Next_def Let_def m_maxOptionsLen_def)
qed

section \<open>Runs\<close>

declare read_options.simps [code]

definition demo_header :: tcp_header where
  "demo_header =
     snd (AppendOption (TcpOptionSack [(100, 200)]) (snd (AppendOption (TcpOptionTS 1 2)
       (snd (AppendOption (TcpOptionWinScale 7)
         (EnableChecksums (InitializeChecksum (Ipv4Address 0x0a000001) (Ipv4Address 0x0a000002) 6
           (SetSourcePort 80 (SetDestinationPort 49152 new_tcp_header)))))))))"

lemma demo_built: "built demo_header"
  unfolding demo_header_def by (intro built.intros) simp_all

lemma demo_fields:
  "m_options demo_header = [TcpOptionWinScale 7, TcpOptionTS 1 2, TcpOptionSack [(100, 200)]]"
  "m_source demo_header = Ipv4Address 0x0a000001" "m_destination demo_header = Ipv4Address 0x0a000002"
  by (simp_all add: demo_header_def AppendOption_def Let_def IsKindKnown_def Sack_GetSerializedSize_def
      GetNumSackBlocks_def m_maxOptionsLen_def EnableChecksums_def InitializeChecksum_def SetSourcePort_def
      SetDestinationPort_def new_tcp_header_def)

lemma demo_checkable: "unat (GetSerializedSize demo_header) = 44" "checkable demo_header [1, 2, 3]"
proof -
  have "osize (m_options demo_header) = 23"
    by (simp add: demo_fields Sack_GetSerializedSize_def GetNumSackBlocks_def)
  then show s: "unat (GetSerializedSize demo_header) = 44" using header_length(2) [of demo_header] by simp
  then show "checkable demo_header [1, 2, 3]" by (simp add: checkable_def demo_fields)
qed

theorem header_lengths_agree_witness: "built demo_header \<and> m_length demo_header = CalculateHeaderLength demo_header"
  using header_lengths_agree [OF demo_built] demo_built by blast

theorem header_roundtrip_witness:
  "built demo_header \<and> checkable demo_header [1, 2, 3] \<and>
   (\<exists>bs. Serialize demo_header (replicate 44 0 @ [1, 2, 3]) = Some bs \<and>
     Deserialize bs demo_header = Some (GetSerializedSize demo_header, received demo_header demo_header))"
  using header_roundtrip [OF demo_built, of "replicate 44 0" "[1, 2, 3]" demo_header] demo_built demo_checkable
  by auto

lemma bare_header: "Deserialize (replicate 12 0 @ [0x50, 0] @ replicate 6 0) new_tcp_header \<noteq> None"
  by code_simp

theorem deserialize_bounds_witness:
  "\<exists>n h. Deserialize (replicate 12 0 @ [0x50, 0] @ replicate 6 0) new_tcp_header = Some (n, h) \<and>
     unat (m_optionsLen h) \<le> 40 \<and> unat n \<le> 60"
proof -
  obtain n h where d: "Deserialize (replicate 12 0 @ [0x50, 0] @ replicate 6 0) new_tcp_header = Some (n, h)"
    using bare_header by auto
  with deserialize_bounds [OF d] show ?thesis by blast
qed

end
