(* ===== verification/Double.thy ===== *)
theory Double
  imports NsPrelude Complex_Main "HOL-Library.Log_Nat"
begin

text \<open>
  The \<open>double\<close> of C++ on IEEE 754 hardware, as far as the congestion control uses it: binary64 with
  rounding to nearest, ties to even, gradual underflow, overflow to infinity. A finite double is
  the rational number it stands for; the sign of zero is not represented, which only matters for
  quotients with a divisor that is zero. A conversion to an unsigned integer whose value does not
  fit is undefined in C++ and is \<open>None\<close> here.
\<close>

section \<open>Rounding\<close>

definition pow2 :: "int \<Rightarrow> rat" where
  "pow2 k = (if 0 \<le> k then 2 ^ nat k else 1 / 2 ^ nat (- k))"

text \<open>The binary exponent of a positive number.\<close>

definition exponent :: "rat \<Rightarrow> int" where
  "exponent x =
     (let (p, q) = quotient_of x; k = int (floorlog 2 (nat p)) - int (floorlog 2 (nat q))
      in if pow2 k \<le> x then k else k - 1)"

definition round_even :: "rat \<Rightarrow> int" where
  "round_even r =
     (let f = \<lfloor>r\<rfloor>; d = r - of_int f
      in if d < 1 / 2 then f else if 1 / 2 < d then f + 1 else if even f then f else f + 1)"

text \<open>The exponent of the last place of 53 significant bits, not below that of the subnormal numbers.\<close>

definition qexp :: "rat \<Rightarrow> int" where
  "qexp x = max (exponent x - 52) (- 1074)"

definition rnd :: "rat \<Rightarrow> rat" where
  "rnd x =
     (if x = 0 then 0
      else of_int (round_even (x / pow2 (qexp \<bar>x\<bar>))) * pow2 (qexp \<bar>x\<bar>))"

section \<open>Operations\<close>

datatype double = Fin rat | Inf bool | NaN

definition fl :: "rat \<Rightarrow> double" where
  "fl x = (let r = rnd x in if \<bar>r\<bar> < pow2 1024 then Fin r else Inf (0 < r))"

fun d_add :: "double \<Rightarrow> double \<Rightarrow> double" where
  "d_add (Fin a) (Fin b) = fl (a + b)"
| "d_add (Fin a) (Inf s) = Inf s"
| "d_add (Inf s) (Fin b) = Inf s"
| "d_add (Inf s) (Inf t) = (if s = t then Inf s else NaN)"
| "d_add NaN _ = NaN"
| "d_add _ NaN = NaN"

fun d_neg :: "double \<Rightarrow> double" where
  "d_neg (Fin a) = Fin (- a)"
| "d_neg (Inf s) = Inf (\<not> s)"
| "d_neg NaN = NaN"

definition d_sub :: "double \<Rightarrow> double \<Rightarrow> double" where
  "d_sub a b = d_add a (d_neg b)"

fun d_mul :: "double \<Rightarrow> double \<Rightarrow> double" where
  "d_mul (Fin a) (Fin b) = fl (a * b)"
| "d_mul (Fin a) (Inf s) = (if a = 0 then NaN else Inf (s = (0 < a)))"
| "d_mul (Inf s) (Fin b) = (if b = 0 then NaN else Inf (s = (0 < b)))"
| "d_mul (Inf s) (Inf t) = Inf (s = t)"
| "d_mul NaN _ = NaN"
| "d_mul _ NaN = NaN"

fun d_div :: "double \<Rightarrow> double \<Rightarrow> double" where
  "d_div (Fin a) (Fin b) = (if b = 0 then if a = 0 then NaN else Inf (0 < a) else fl (a / b))"
| "d_div (Fin a) (Inf s) = Fin 0"
| "d_div (Inf s) (Fin b) = Inf (s = (0 \<le> b))"
| "d_div (Inf s) (Inf t) = NaN"
| "d_div NaN _ = NaN"
| "d_div _ NaN = NaN"

fun d_less :: "double \<Rightarrow> double \<Rightarrow> bool" where
  "d_less (Fin a) (Fin b) \<longleftrightarrow> a < b"
| "d_less (Fin a) (Inf s) \<longleftrightarrow> s"
| "d_less (Inf s) (Fin b) \<longleftrightarrow> \<not> s"
| "d_less (Inf s) (Inf t) \<longleftrightarrow> \<not> s \<and> t"
| "d_less NaN _ \<longleftrightarrow> False"
| "d_less _ NaN \<longleftrightarrow> False"

text \<open>\<open>std::max\<close>, \<open>std::ceil\<close>, and the conversions from and to \<open>uint32_t\<close>, and to \<open>int\<close>.\<close>

definition d_max :: "double \<Rightarrow> double \<Rightarrow> double" where
  "d_max a b = (if d_less a b then b else a)"

fun d_ceil :: "double \<Rightarrow> double" where
  "d_ceil (Fin a) = Fin (of_int \<lceil>a\<rceil>)"
| "d_ceil (Inf s) = Inf s"
| "d_ceil NaN = NaN"

definition of_u32 :: "uint32 \<Rightarrow> double" where
  "of_u32 w = Fin (of_nat (unat w))"

fun to_u32 :: "double \<Rightarrow> uint32 option" where
  "to_u32 (Fin a) = (if - 1 < a \<and> a < 4294967296 then Some (of_int (if 0 \<le> a then \<lfloor>a\<rfloor> else 0)) else None)"
| "to_u32 _ = None"

fun to_i32 :: "double \<Rightarrow> int option" where
  "to_i32 (Fin a) =
     (let t = (if 0 \<le> a then \<lfloor>a\<rfloor> else \<lceil>a\<rceil>)
      in if - (2 ^ 31) \<le> t \<and> t < 2 ^ 31 then Some t else None)"
| "to_i32 _ = None"

section \<open>Facts on the rounding\<close>

lemma pow2_pos [simp]: "0 < pow2 k"
  by (simp add: pow2_def)

lemma pow2_nonzero [simp]: "pow2 k \<noteq> 0"
  by (simp add: pow2_def)

lemma pow2_int: "pow2 (int n) = 2 ^ n" and pow2_neg: "pow2 (- int n) = 1 / 2 ^ n"
  by (simp_all add: pow2_def)

lemma pow2_eq_powi: "pow2 k = 2 powi k"
  by (simp add: pow2_def power_int_def power_one_over inverse_eq_divide)

lemma pow2_add: "pow2 (a + b) = pow2 a * pow2 b"
  by (simp add: pow2_eq_powi power_int_add)

lemma pow2_mono: "a \<le> b \<Longrightarrow> pow2 a \<le> pow2 b"
  by (simp add: pow2_eq_powi power_int_increasing)

lemma pow2_less: "pow2 a < pow2 b \<longleftrightarrow> a < b"
  by (metis linorder_not_less pow2_mono pow2_eq_powi power_int_strict_increasing one_less_numeral_iff semiring_norm(76))

lemma pow2_diff: "pow2 (a - b) = pow2 a / pow2 b"
  by (simp add: pow2_eq_powi power_int_diff)

lemma floorlog_bounds:
  assumes "0 < n" shows "2 ^ (floorlog 2 n - 1) \<le> n" "n < 2 ^ floorlog 2 n"
  using floorlog_bounds [of n 2] assms by simp_all

lemma exponent_bounds:
  assumes "0 < x" shows "pow2 (exponent x) \<le> x \<and> x < pow2 (exponent x + 1)"
proof -
  obtain p q where pq: "quotient_of x = (p, q)" by (cases "quotient_of x")
  have q: "0 < q" and x: "x = of_int p / of_int q"
    using quotient_of_denom_pos [OF pq] quotient_of_div [OF pq] by simp_all
  then have p: "0 < p" using assms by (simp add: zero_less_divide_iff)
  define a where "a = floorlog 2 (nat p)"
  define b where "b = floorlog 2 (nat q)"
  have a: "1 \<le> a" "1 \<le> b" using p q by (simp_all add: a_def b_def floorlog_def)
  have "2 ^ (a - 1) \<le> nat p" "nat p < 2 ^ a" "2 ^ (b - 1) \<le> nat q" "nat q < 2 ^ b"
    using floorlog_bounds [of "nat p"] floorlog_bounds [of "nat q"] p q by (simp_all add: a_def b_def)
  then have "2 ^ (a - 1) \<le> p" "p < 2 ^ a" "2 ^ (b - 1) \<le> q" "q < 2 ^ b"
    using p q by (simp_all add: nat_less_iff le_nat_iff)
  then have "of_int (2 ^ (a - 1)) \<le> (of_int p :: rat)" "of_int p < (of_int (2 ^ a) :: rat)"
    "of_int (2 ^ (b - 1)) \<le> (of_int q :: rat)" "of_int q < (of_int (2 ^ b) :: rat)"
    by (simp_all only: of_int_le_iff of_int_less_iff)
  moreover have "of_int (2 ^ n) = pow2 (int n)" for n by (simp add: pow2_def)
  ultimately have r: "pow2 (int (a - 1)) \<le> of_int p" "of_int p < pow2 (int a)"
    "pow2 (int (b - 1)) \<le> of_int q" "of_int q < pow2 (int b)" by (simp_all only:)
  have i: "int (a - 1) = int a - 1" "int (b - 1) = int b - 1" using a by (simp_all add: of_nat_diff)
  have lo: "pow2 (int a - int b - 1) \<le> x"
  proof -
    have "int a - int b - 1 = int (a - 1) - int b" using i by simp
    moreover have "pow2 (int (a - 1) - int b) \<le> x"
      unfolding x pow2_diff
      by (rule frac_le [OF _ r(1) _ less_imp_le [OF r(4)]]) (simp_all only: of_int_0_le_iff of_int_0_less_iff p q less_imp_le)
    ultimately show ?thesis by (simp only:)
  qed
  have hi: "x < pow2 (int a - int b + 1)"
  proof -
    have "int a - int b + 1 = int a - int (b - 1)" using i by simp
    moreover have "x < pow2 (int a - int (b - 1))"
      unfolding x pow2_diff
      by (rule frac_less [OF _ r(2) pow2_pos r(3)]) (simp only: of_int_0_le_iff p less_imp_le)
    ultimately show ?thesis by (simp only:)
  qed
  have e: "exponent x = (if pow2 (int a - int b) \<le> x then int a - int b else int a - int b - 1)"
    unfolding exponent_def pq a_def b_def by (simp only: Let_def prod.case)
  show ?thesis
  proof (cases "pow2 (int a - int b) \<le> x")
    case True
    with hi show ?thesis by (simp only: e if_True simp_thms)
  next
    case False
    have "int a - int b - 1 + 1 = int a - int b" by simp
    moreover have "exponent x = int a - int b - 1" using False by (simp only: e if_False)
    ultimately show ?thesis using False lo by (simp only: not_le simp_thms)
  qed
qed

lemma exponent_mono: "0 < x \<Longrightarrow> x \<le> y \<Longrightarrow> exponent x \<le> exponent y"
  using exponent_bounds [of x] exponent_bounds [of y]
  by (metis le_less_trans less_le_trans pow2_less zle_iff_zadd add_le_cancel_right zless_add1_eq order_le_less not_le)

lemma exponent_le: "0 < x \<Longrightarrow> x < pow2 k \<Longrightarrow> exponent x < k"
  using exponent_bounds [of x] by (meson le_less_trans pow2_less)

lemma qexp_mono: "0 < x \<Longrightarrow> x \<le> y \<Longrightarrow> qexp x \<le> qexp y"
  using exponent_mono [of x y] by (auto simp: qexp_def max_def)

lemma round_even_int [simp]: "round_even (of_int n) = n"
  by (simp add: round_even_def)

lemma round_even_mono: "x \<le> y \<Longrightarrow> round_even x \<le> round_even y"
proof -
  assume xy: "x \<le> y"
  have f: "\<lfloor>x\<rfloor> \<le> \<lfloor>y\<rfloor>" using xy by (rule floor_mono)
  have b: "\<lfloor>z\<rfloor> \<le> round_even z" "round_even z \<le> \<lfloor>z\<rfloor> + 1" for z by (simp_all add: round_even_def Let_def)
  show ?thesis
  proof (cases "\<lfloor>x\<rfloor> = \<lfloor>y\<rfloor>")
    case True
    then have "x - of_int \<lfloor>x\<rfloor> \<le> y - of_int \<lfloor>y\<rfloor>" using xy by simp
    with True show ?thesis by (auto simp: round_even_def Let_def)
  next
    case False
    with f b [of x] b [of y] show ?thesis by linarith
  qed
qed

lemma rnd_pos: "0 < x \<Longrightarrow> rnd x = of_int (round_even (x / pow2 (qexp x))) * pow2 (qexp x)"
  by (simp add: rnd_def)

text \<open>Multiples of the last place are not changed.\<close>

lemma rnd_multiple:
  assumes "0 < x" "x = of_int m * pow2 k" "qexp x \<le> k" shows "rnd x = x"
proof -
  let ?N = "m * 2 ^ nat (k - qexp x)"
  have "x / pow2 (qexp x) = of_int m * (pow2 k / pow2 (qexp x))" using assms(2) by simp
  also have "pow2 k / pow2 (qexp x) = pow2 (int (nat (k - qexp x)))" using assms(3) by (simp add: pow2_diff)
  also have "of_int m * pow2 (int (nat (k - qexp x))) = of_int ?N" by (simp only: pow2_int) simp
  finally have xe: "x / pow2 (qexp x) = of_int ?N" .
  have "rnd x = x / pow2 (qexp x) * pow2 (qexp x)" unfolding rnd_pos [OF assms(1)] xe round_even_int ..
  then show ?thesis by simp
qed

lemma rnd_exact:
  assumes "x = of_nat m / 2 ^ j" "m < 2 ^ 53" "j \<le> 1074" shows "rnd x = x"
proof (cases "m = 0")
  case False
  have p: "(2 ^ j :: rat) = pow2 (int j)" by (simp only: pow2_int)
  have x: "x = of_int (int m) * pow2 (- int j)" unfolding pow2_neg assms(1) by simp
  have "(of_nat m :: rat) < of_nat (2 ^ 53)" using assms(2) by (simp only: of_nat_less_iff)
  then have "(of_nat m :: rat) < pow2 53" using pow2_int [of 53] by simp
  then have "x < pow2 (53 - int j)" unfolding assms(1) p pow2_diff by (simp add: divide_strict_right_mono)
  moreover have pos: "0 < x" using assms(1) False by simp
  ultimately have "exponent x - 52 \<le> - int j" using exponent_le [of x "53 - int j"] by simp
  then have "qexp x \<le> - int j" using assms(3) by (simp add: qexp_def)
  from rnd_multiple [OF pos x this] show ?thesis .
qed (use assms in \<open>simp add: rnd_def\<close>)

lemma rnd_mono:
  assumes "0 \<le> x" "x \<le> y" shows "rnd x \<le> rnd y"
proof -
  have nonneg: "0 \<le> rnd z" if "0 < z" for z
  proof -
    have "round_even 0 \<le> round_even (z / pow2 (qexp z))" using that by (intro round_even_mono divide_nonneg_pos) simp_all
    then have "0 \<le> round_even (z / pow2 (qexp z))" using round_even_int [of 0] by (simp only: of_int_0)
    then show ?thesis unfolding rnd_pos [OF that]
      by (intro mult_nonneg_nonneg) (simp_all only: of_int_0_le_iff less_imp_le [OF pow2_pos])
  qed
  consider "x = 0" | "0 < x" "qexp x = qexp y" | "0 < x" "qexp x < qexp y"
    using assms qexp_mono [of x y] by linarith
  then show ?thesis
  proof cases
    case 1
    then show ?thesis using nonneg [of y] assms by (cases "y = 0") (simp_all add: rnd_def)
  next
    case 2
    have "x / pow2 (qexp y) \<le> y / pow2 (qexp y)" using assms(2) by (simp add: divide_right_mono less_imp_le)
    then show ?thesis using 2 assms round_even_mono by (simp add: rnd_pos)
  next
    case 3
    let ?e = "qexp y + 52"
    have y: "0 < y" using 3 assms by simp
    have e: "exponent y = ?e" "exponent x < ?e" using 3(2) by (auto simp: qexp_def max_def split: if_splits)
    have b: "rnd z \<le> of_int m * pow2 (qexp z)" if "0 < z" "z \<le> of_int m * pow2 (qexp z)" for z m
    proof -
      have "z / pow2 (qexp z) \<le> of_int m" using that(2) by (simp add: divide_le_eq)
      then have "round_even (z / pow2 (qexp z)) \<le> m" using round_even_mono [of _ "of_int m"] by simp
      then show ?thesis using that(1) by (simp add: rnd_pos)
    qed
    have c: "of_int m * pow2 (qexp z) \<le> rnd z" if "0 < z" "of_int m * pow2 (qexp z) \<le> z" for z m
    proof -
      have "of_int m \<le> z / pow2 (qexp z)" using that(2) by (simp add: le_divide_eq)
      then have "m \<le> round_even (z / pow2 (qexp z))" using round_even_mono [of "of_int m"] by simp
      then show ?thesis using that(1) by (simp add: rnd_pos)
    qed
    have q: "pow2 (exponent z') = of_int (2 ^ nat (exponent z' - qexp z)) * pow2 (qexp z)" if "qexp z \<le> exponent z'" for z z'
      using that pow2_add [of "exponent z' - qexp z" "qexp z"] by (simp add: pow2_def)
    have "rnd x \<le> pow2 (exponent y)"
      using b [OF 3(1), of "2 ^ nat (exponent y - qexp x)"] q [of x y] e 3(2) exponent_bounds [OF 3(1)]
        pow2_mono [of "exponent x + 1" "exponent y"] by simp
    also have "\<dots> \<le> rnd y"
      using c [OF y, of "2 ^ nat (exponent y - qexp y)"] q [of y y] e(1) exponent_bounds [OF y] by simp
    finally show ?thesis .
  qed
qed

section \<open>Exact results\<close>

text \<open>Dyadic numbers of at most 53 bits are not changed; integers below \<open>2 ^ 53\<close> are a special case.\<close>

lemma pow2_53_1024: "(2 ^ 53 :: rat) < pow2 1024"
  using pow2_less [of 53 1024] pow2_int [of 53] by simp

lemma fl_exact:
  assumes "x = of_nat m / 2 ^ j" "m < 2 ^ 53" "j \<le> 1074" shows "fl x = Fin x"
proof -
  have "x \<le> of_nat m" unfolding assms(1) using divide_left_mono [of 1 "2 ^ j :: rat" "of_nat m"] by simp
  also have "\<dots> < of_nat (2 ^ 53)" using assms(2) by (simp only: of_nat_less_iff)
  also have "\<dots> < pow2 1024" using pow2_53_1024 by (simp only: of_nat_power of_nat_numeral)
  finally have "x < pow2 1024" .
  moreover have "0 \<le> x" unfolding assms(1) by simp
  ultimately show ?thesis by (simp add: fl_def rnd_exact [OF assms])
qed

lemma fl_nat: "n < 2 ^ 53 \<Longrightarrow> fl (of_nat n) = Fin (of_nat n)"
  by (rule fl_exact [of _ n 0]) simp_all

lemma to_u32_nat: "n < 2 ^ 32 \<Longrightarrow> to_u32 (Fin (of_nat n)) = Some (of_nat n)"
  using of_nat_less_iff [of n "2 ^ 32", where 'a = rat] by (simp del: of_nat_less_iff)

section \<open>Quotients of 32-bit integers\<close>

text \<open>
  The quotient is rounded, and the nearest double may lie above it. For 32-bit operands it never
  reaches the next integer, so cutting it off gives the quotient of the integer division.
\<close>

lemma rnd_below_next:
  assumes "y \<le> of_nat (Suc n) - 1 / 2 ^ j" "0 \<le> y" "Suc n * 2 ^ j \<le> 2 ^ 53" "j \<le> 1074"
  shows "rnd y < of_nat (Suc n)"
proof -
  let ?m = "Suc n * 2 ^ j - 1" and ?z = "of_nat (Suc n) - 1 / 2 ^ j :: rat"
  have m: "1 \<le> Suc n * 2 ^ j" using mult_le_mono [of 1 "Suc n" 1 "2 ^ j"] by simp
  then have "(of_nat ?m :: rat) = of_nat (Suc n) * 2 ^ j - 1" by (simp only: of_nat_diff of_nat_mult of_nat_power of_nat_numeral of_nat_1)
  then have "?z = of_nat ?m / 2 ^ j" by (simp add: field_simps)
  moreover have "?m < 2 ^ 53" using assms(3) m by linarith
  ultimately have "rnd ?z = ?z" by (rule rnd_exact [OF _ _ assms(4)])
  moreover have "rnd y \<le> rnd ?z" by (rule rnd_mono [OF assms(2,1)])
  moreover have "?z < of_nat (Suc n)" by (simp only: diff_less_eq less_add_same_cancel1) simp
  ultimately show ?thesis by (simp only: le_less_trans)
qed

lemma rat_div_bounds:
  assumes "0 < b"
  shows "of_nat (a div b) \<le> (of_nat a / of_nat b :: rat)"
    "of_nat a / of_nat b \<le> (of_nat (Suc (a div b)) - 1 / of_nat b :: rat)"
proof -
  have "a div b * b \<le> a" by (rule div_times_less_eq_dividend)
  then have "of_nat (a div b) * of_nat b \<le> (of_nat a :: rat)" by (simp only: of_nat_mult [symmetric] of_nat_le_iff)
  then show "of_nat (a div b) \<le> (of_nat a / of_nat b :: rat)" using assms by (simp add: pos_le_divide_eq)
  have "a + 1 \<le> Suc (a div b) * b" using dividend_less_div_times [OF assms, of a] by simp
  then have "(of_nat (a + 1) :: rat) \<le> of_nat (Suc (a div b) * b)" by (simp only: of_nat_le_iff)
  then have "of_nat a + 1 \<le> (of_nat (Suc (a div b)) * of_nat b :: rat)"
    by (simp only: of_nat_mult of_nat_1 of_nat_add)
  then have "(of_nat a + 1) / of_nat b \<le> (of_nat (Suc (a div b)) :: rat)"
    using assms by (simp only: pos_divide_le_eq of_nat_0_less_iff)
  then show "of_nat a / of_nat b \<le> (of_nat (Suc (a div b)) - 1 / of_nat b :: rat)"
    by (simp only: add_divide_distrib le_diff_eq)
qed

lemma floor_rnd_div:
  assumes "a < 2 ^ 32" "0 < b" "b < 2 ^ 32"
  shows "of_nat (a div b) \<le> rnd (of_nat a / of_nat b) \<and> rnd (of_nat a / of_nat b) < of_nat (Suc (a div b))"
proof
  let ?q = "of_nat a / of_nat b :: rat" and ?n = "a div b"
  have n: "?n < 2 ^ 32" using assms(1) div_le_dividend [of a b] by linarith
  have "rnd (of_nat ?n) = of_nat ?n" using n by (intro rnd_exact [of _ ?n 0]) simp_all
  then show "of_nat ?n \<le> rnd ?q" using rnd_mono [OF of_nat_0_le_iff rat_div_bounds(1) [OF assms(2)], of a] by simp
  have bound: "?q \<le> of_nat (Suc ?n) - 1 / 2 ^ j" if "b \<le> 2 ^ j" for j
  proof -
    have "(of_nat b :: rat) \<le> of_nat (2 ^ j)" using that by (simp only: of_nat_le_iff)
    then have "1 / 2 ^ j \<le> (1 / of_nat b :: rat)" using assms(2) by (intro divide_left_mono) simp_all
    then show ?thesis using rat_div_bounds(2) [OF assms(2), of a] by linarith
  qed
  show "rnd ?q < of_nat (Suc ?n)"
  proof (cases "b \<le> 2 ^ 20")
    case True
    have "Suc ?n * 2 ^ 20 \<le> 2 ^ 53" using n by simp
    with bound [OF True] show ?thesis by (intro rnd_below_next [of _ _ 20]) simp_all
  next
    case False
    have "a div b \<le> a div 2 ^ 20" using False by (intro div_le_mono2) simp_all
    also have "\<dots> \<le> 2 ^ 32 div 2 ^ 20" using assms(1) by (intro div_le_mono) simp
    finally have "Suc ?n * 2 ^ 32 \<le> 2 ^ 53" by simp
    with bound [of 32] assms(3) show ?thesis by (intro rnd_below_next [of _ _ 32]) simp_all
  qed
qed

lemma d_div_nat:
  assumes "a < 2 ^ 32" "0 < b" "b < 2 ^ 32"
  obtains r where "d_div (Fin (of_nat a)) (Fin (of_nat b)) = Fin r"
    "of_nat (a div b) \<le> r" "r < of_nat (Suc (a div b))"
proof -
  let ?r = "rnd (of_nat a / of_nat b)"
  have r: "of_nat (a div b) \<le> ?r" "?r < of_nat (Suc (a div b))" using floor_rnd_div [OF assms] by simp_all
  have "Suc (a div b) \<le> 2 ^ 32" using assms(1) div_le_dividend [of a b] by linarith
  also have "\<dots> \<le> 2 ^ 53" by simp
  finally have "Suc (a div b) \<le> 2 ^ 53" .
  then have "of_nat (Suc (a div b)) \<le> (of_nat (2 ^ 53) :: rat)" by (simp only: of_nat_le_iff)
  then have "?r < pow2 1024" using r(2) pow2_53_1024 by (simp only: of_nat_power of_nat_numeral)
  moreover have "0 \<le> ?r" using r(1) by (meson of_nat_0_le_iff order_trans)
  ultimately have "d_div (Fin (of_nat a)) (Fin (of_nat b)) = Fin ?r" using assms(2) by (simp add: fl_def)
  with r show ?thesis using that by blast
qed

lemma to_u32_floor:
  assumes "of_nat n \<le> r" "r < of_nat (Suc n)" "n < 2 ^ 32" shows "to_u32 (Fin r) = Some (of_nat n)"
proof -
  have "of_nat (Suc n) \<le> (of_nat (2 ^ 32) :: rat)" using assms(3) by (simp only: of_nat_le_iff Suc_le_eq)
  then have "r < 4294967296" using assms(2) by simp
  moreover have "0 \<le> r" using assms(1) by (meson of_nat_0_le_iff order_trans)
  moreover have "\<lfloor>r\<rfloor> = int n" using assms by (intro floor_unique) simp_all
  ultimately show ?thesis by simp
qed

section \<open>Rounding up\<close>

definition ceil_div :: "nat \<Rightarrow> nat \<Rightarrow> nat" where
  "ceil_div a b = (a + b - 1) div b"

lemma rnd_above:
  assumes "of_nat n + 1 / 2 ^ j \<le> y" "n * 2 ^ j + 1 < 2 ^ 53" "j \<le> 1074"
  shows "of_nat n < rnd y"
proof -
  let ?z = "of_nat n + 1 / 2 ^ j :: rat"
  have "?z = of_nat (n * 2 ^ j + 1) / 2 ^ j" by (simp add: field_simps)
  then have "rnd ?z = ?z" by (rule rnd_exact [OF _ assms(2,3)])
  moreover have "rnd ?z \<le> rnd y" by (rule rnd_mono [OF _ assms(1)]) simp
  moreover have "of_nat n < ?z" by simp
  ultimately show ?thesis by (simp only: less_le_trans)
qed

lemma rnd_div_above:
  assumes "a < 2 ^ 32" "0 < b" "b < 2 ^ 32" "n * b < a"
  shows "of_nat n < rnd (of_nat a / of_nat b)"
proof -
  have "of_nat (n * b + 1) \<le> (of_nat a :: rat)" using assms(4) by (simp only: of_nat_le_iff)
  then have "of_nat n * of_nat b + 1 \<le> (of_nat a :: rat)" by (simp only: of_nat_add of_nat_mult of_nat_1)
  then have "(of_nat n * of_nat b + 1) / of_nat b \<le> (of_nat a / of_nat b :: rat)" by (rule divide_right_mono) simp
  then have q: "of_nat n + 1 / of_nat b \<le> (of_nat a / of_nat b :: rat)" using assms(2) by (simp add: add_divide_distrib)
  have bound: "of_nat n + 1 / 2 ^ j \<le> (of_nat a / of_nat b :: rat)" if "b \<le> 2 ^ j" for j
  proof -
    have "(of_nat b :: rat) \<le> of_nat (2 ^ j)" using that by (simp only: of_nat_le_iff)
    then have "1 / 2 ^ j \<le> (1 / of_nat b :: rat)" using assms(2) by (intro divide_left_mono) simp_all
    then show ?thesis using q by linarith
  qed
  have "n * 1 \<le> n * b" using assms(2) by (intro mult_le_mono2) simp
  then have n: "n < 2 ^ 32" using assms(1,4) by linarith
  show ?thesis
  proof (cases "b \<le> 2 ^ 20")
    case True
    show ?thesis using bound [OF True] n by (intro rnd_above [of _ 20]) simp_all
  next
    case False
    have "n * 2 ^ 20 \<le> n * b" using False by (intro mult_le_mono2) simp
    then have "n * 2 ^ 20 < 2 ^ 32" using assms(1,4) by linarith
    then have "n < 2 ^ 12" by simp
    then show ?thesis using bound [of 32] assms(3) by (intro rnd_above [of _ 32]) simp_all
  qed
qed

lemma ceil_div_bounds:
  assumes "0 < b" shows "a \<le> ceil_div a b * b" "0 < a \<Longrightarrow> (ceil_div a b - 1) * b < a" "ceil_div a b \<le> a"
proof -
  have b: "a + b - 1 < Suc (ceil_div a b) * b" "ceil_div a b * b \<le> a + b - 1"
    using dividend_less_div_times [OF assms, of "a + b - 1"] div_times_less_eq_dividend [of "a + b - 1" b]
    by (simp_all add: ceil_div_def)
  then show "a \<le> ceil_div a b * b" using assms by simp
  show "(ceil_div a b - 1) * b < a" if "0 < a" using b(2) assms that by (simp add: diff_mult_distrib)
  show "ceil_div a b \<le> a"
  proof (cases a)
    case (Suc k)
    then have "a + b - 1 \<le> a * b" using assms by (cases b) simp_all
    then have "(a + b - 1) div b \<le> a * b div b" by (rule div_le_mono)
    then show ?thesis using assms by (simp add: ceil_div_def)
  qed (use assms in \<open>simp add: ceil_div_def\<close>)
qed

lemma ceil_d_div:
  assumes "a < 2 ^ 32" "0 < b" "b < 2 ^ 32"
  shows "d_ceil (d_div (Fin (of_nat a)) (Fin (of_nat b))) = Fin (of_nat (ceil_div a b))"
proof -
  let ?r = "rnd (of_nat a / of_nat b)" and ?n = "ceil_div a b"
  have n: "?n < 2 ^ 32" using ceil_div_bounds(3) [OF assms(2), of a] assms(1) by linarith
  have "of_nat a \<le> (of_nat (?n * b) :: rat)" using ceil_div_bounds(1) [OF assms(2), of a] by (simp only: of_nat_le_iff)
  then have "of_nat a / of_nat b \<le> (of_nat ?n :: rat)" using assms(2) by (simp add: pos_divide_le_eq)
  then have "?r \<le> rnd (of_nat ?n)" by (intro rnd_mono) simp_all
  moreover have "rnd (of_nat ?n) = of_nat ?n" using n by (intro rnd_exact [of _ ?n 0]) simp_all
  ultimately have hi: "?r \<le> of_nat ?n" by simp
  have lo: "of_nat ?n - 1 < ?r"
  proof (cases "a = 0")
    case False
    then have "of_nat (?n - 1) < ?r" using ceil_div_bounds(2) [OF assms(2)] by (intro rnd_div_above assms) simp_all
    moreover have "1 \<le> ?n" using False assms(2) by (simp add: ceil_div_def div_greater_zero_iff Suc_le_eq)
    ultimately show ?thesis by (simp add: of_nat_diff)
  qed (use assms(2) in \<open>simp add: ceil_div_def rnd_def\<close>)
  obtain r where "d_div (Fin (of_nat a)) (Fin (of_nat b)) = Fin r" using d_div_nat [OF assms] by blast
  then have "d_div (Fin (of_nat a)) (Fin (of_nat b)) = Fin ?r"
    using assms(2) by (simp add: fl_def Let_def split: if_splits)
  moreover have "\<lceil>?r\<rceil> = int ?n" using hi lo by (intro ceiling_unique) simp_all
  ultimately show ?thesis by simp
qed

section \<open>Integers with a sign\<close>

lemma rnd_neg_exact:
  assumes "0 < x" "rnd x = x" shows "rnd (- x) = - x"
proof -
  let ?p = "pow2 (qexp x)" and ?N = "round_even (x / pow2 (qexp x))"
  have "x = of_int ?N * ?p" using assms rnd_pos [OF assms(1)] by (simp only:)
  then have "x / ?p = of_int ?N" by (metis nonzero_mult_div_cancel_right pow2_nonzero)
  then have "- x / ?p = of_int (- ?N)" by (simp only: minus_divide_left [symmetric] of_int_minus)
  then have "round_even (- x / ?p) = - ?N" by (simp only: round_even_int)
  then have "rnd (- x) = of_int (- ?N) * ?p" using assms(1) by (simp add: rnd_def)
  then show ?thesis using \<open>x = of_int ?N * ?p\<close> by (simp only: of_int_minus mult_minus_left)
qed

lemma fl_int:
  assumes "\<bar>k\<bar> < 2 ^ 53" shows "fl (of_int k) = Fin (of_int k)"
proof (cases "0 \<le> k")
  case True
  then show ?thesis using fl_nat [of "nat k"] assms by (simp add: nat_less_iff)
next
  case False
  let ?x = "of_int (- k) :: rat"
  have "?x = of_nat (nat (- k)) / 2 ^ 0" using False by simp
  moreover have "nat (- k) < 2 ^ 53" using assms False by (simp add: nat_less_iff)
  ultimately have r: "rnd ?x = ?x" by (rule rnd_exact) simp
  have "rnd (- ?x) = - ?x" using False by (intro rnd_neg_exact r) simp
  moreover have "?x < of_int (2 ^ 53)" using assms False by (simp only: of_int_less_iff)
  then have "?x < pow2 1024" using pow2_53_1024 by (simp only: of_int_power of_int_numeral)
  ultimately show ?thesis using False by (simp add: fl_def)
qed

lemma d_sub_nat:
  assumes "m < 2 ^ 52" "n < 2 ^ 52"
  shows "d_sub (Fin (of_nat m)) (Fin (of_nat n)) = Fin (of_int (int m - int n))"
proof -
  have "int m < 2 ^ 52" "int n < 2 ^ 52" using assms by (simp_all add: zless_nat_eq_int_zless [symmetric] nat_power_eq)
  then have "\<bar>int m - int n\<bar> < 2 ^ 53" by simp
  then show ?thesis using fl_int [of "int m - int n"] by (simp add: d_sub_def)
qed

lemma to_i32_int: "- (2 ^ 31) \<le> k \<Longrightarrow> k < 2 ^ 31 \<Longrightarrow> to_i32 (Fin (of_int k)) = Some k"
  by simp

lemma to_i32_diff:
  fixes m n :: nat
  assumes "m < 2 ^ 31" "n < 2 ^ 31"
  shows "to_i32 (Fin (of_int (int m - int n))) = Some (int m - int n)"
  using assms by (intro to_i32_int) (simp_all del: to_i32.simps)

end
