(* ===== verification/CongState.thy ===== *)
theory CongState
  imports Double SeqNum
begin

text \<open>
  The part of \<open>TcpSocketState\<close> (\<open>tcp-socket-state.h\<close>) that the congestion control and the
  recovery algorithms read and write, the assignment \<open>+=\<close> of a double to a traced 32-bit value,
  and \<open>Time\<close> values. Every operation of the congestion control returns \<open>None\<close> where the C++
  execution has no defined result: a division by zero, a conversion of a double that does not fit
  the target, an overflow of signed integers, a loop that does not end.
\<close>

section \<open>The socket state\<close>

datatype TcpCongState = CA_OPEN | CA_DISORDER | CA_CWR | CA_RECOVERY | CA_LOSS

datatype EcnState = ECN_DISABLED | ECN_IDLE | ECN_CE_RCVD | ECN_SENDING_ECE | ECN_ECE_RCVD | ECN_CWR_SENT

text \<open>A \<open>Time\<close> is its 64-bit tick count.\<close>

type_synonym time = int

record tcb =
  m_cWnd :: uint32
  m_cWndInfl :: uint32
  m_ssThresh :: uint32
  m_isRetransDataAcked :: bool
  m_segmentSize :: uint32
  m_lastAckedSeq :: seq32
  m_congState :: TcpCongState
  m_highTxMark :: seq32
  m_bytesInFlight :: uint32
  m_ecnState :: EcnState
  m_nextTxSequence :: seq32
  m_lastRtt :: time
  m_lastAckedSackedBytes :: uint32

definition udiv32 :: "uint32 \<Rightarrow> uint32 \<Rightarrow> uint32 option" where
  "udiv32 a b = (if b = 0 then None else Some (a div b))"

definition GetCwndInSegments :: "tcb \<Rightarrow> uint32 option" where
  "GetCwndInSegments tcb = udiv32 (m_cWnd tcb) (m_segmentSize tcb)"

definition GetSsThreshInSegments :: "tcb \<Rightarrow> uint32 option" where
  "GetSsThreshInSegments tcb = udiv32 (m_ssThresh tcb) (m_segmentSize tcb)"

text \<open>\<open>tcb->m_cWnd += x\<close> for a double: the sum is a double, which is converted back.\<close>

definition cWnd_plus :: "tcb \<Rightarrow> double \<Rightarrow> tcb option" where
  "cWnd_plus tcb x = do {
     w \<leftarrow> to_u32 (d_add (of_u32 (m_cWnd tcb)) x);
     Some (tcb\<lparr>m_cWnd := w\<rparr>)
   }"

section \<open>Time\<close>

text \<open>The overflow of the tick count is undefined.\<close>

definition Time_Min :: time where
  "Time_Min = - (2 ^ 63)"

definition t_Max :: time where
  "t_Max = 2 ^ 63 - 1"

definition int64 :: "int \<Rightarrow> time option" where
  "int64 x = (if - (2 ^ 63) \<le> x \<and> x < 2 ^ 63 then Some x else None)"

definition t_add :: "time \<Rightarrow> time \<Rightarrow> time option" where
  "t_add a b = int64 (a + b)"

definition t_sub :: "time \<Rightarrow> time \<Rightarrow> time option" where
  "t_sub a b = int64 (a - b)"

text \<open>The division of 64-bit integers cuts towards zero.\<close>

definition t_quot :: "time \<Rightarrow> int \<Rightarrow> time option" where
  "t_quot a b = (if b = 0 then None else Some (sgn a * sgn b * (\<bar>a\<bar> div \<bar>b\<bar>)))"

definition GetMilliSeconds :: "time \<Rightarrow> int" where
  "GetMilliSeconds t = sgn t * (\<bar>t\<bar> div 10 ^ 6)"

section \<open>Facts\<close>

lemma udiv32_eq_Some [simp]: "udiv32 a b = Some q \<longleftrightarrow> b \<noteq> 0 \<and> q = a div b"
  by (auto simp: udiv32_def)

lemma of_u32_nat: "of_u32 w = Fin (of_nat (unat w))"
  by (simp add: of_u32_def)

lemma unat_lt32: "unat (w :: uint32) < 4294967296"
  using unsigned_less [of w, where 'a = nat] by simp

text \<open>Adding an integral double is the addition of integers, and undefined when that overflows.\<close>

lemma cWnd_plus_nat:
  assumes "n < 2 ^ 52"
  shows "cWnd_plus tcb (Fin (of_nat n)) =
     (if unat (m_cWnd tcb) + n < 2 ^ 32 then Some (tcb\<lparr>m_cWnd := of_nat (unat (m_cWnd tcb) + n)\<rparr>) else None)"
proof -
  let ?s = "unat (m_cWnd tcb) + n"
  have "?s < 2 ^ 53" using assms unat_lt32 [of "m_cWnd tcb"] by simp
  then have "d_add (of_u32 (m_cWnd tcb)) (Fin (of_nat n)) = Fin (of_nat ?s)"
    using fl_nat [of ?s] by (simp only: of_u32_nat d_add.simps of_nat_add)
  moreover have "to_u32 (Fin (of_nat ?s)) = (if ?s < 2 ^ 32 then Some (of_nat ?s) else None)"
  proof (cases "?s < 2 ^ 32")
    case False
    then have "(of_nat (2 ^ 32) :: rat) \<le> of_nat ?s" by (simp only: of_nat_le_iff not_less)
    then have "\<not> (of_nat ?s :: rat) < 4294967296" by (simp only: of_nat_power of_nat_numeral) simp
    with False show ?thesis by (simp only: to_u32.simps if_False simp_thms)
  qed (simp only: to_u32_nat if_True)
  ultimately show ?thesis by (simp add: cWnd_plus_def del: to_u32.simps)
qed

end
