(* ===== verification/DoubleFrac.thy ===== *)
theory DoubleFrac
  imports CongState
begin

text \<open>
  Arithmetic of doubles with a factor between 0 and 1: what the congestion controls compute when they
  give up a part of the window, or scale it by the quotient of two delays. Rounding never leaves the
  interval, so these conversions to integers have a result.
\<close>

text \<open>\<open>a <= b\<close>, false when one of them is not a number.\<close>

definition d_le :: "double \<Rightarrow> double \<Rightarrow> bool" where
  "d_le a b \<longleftrightarrow> d_less a b \<or> (a = b \<and> a \<noteq> NaN)"

definition unit_frac :: "double \<Rightarrow> bool" where
  "unit_frac d \<longleftrightarrow> (\<exists>r. d = Fin r \<and> 0 \<le> r \<and> r \<le> 1)"

lemma rnd_nonneg: "0 \<le> x \<Longrightarrow> 0 \<le> rnd x"
  using rnd_mono [of 0 x] by (simp add: rnd_def)

lemma rnd_nat: "n < 2 ^ 53 \<Longrightarrow> rnd (of_nat n) = of_nat n"
  using rnd_exact [of "of_nat n" n 0] by simp

lemma fl_below:
  assumes "0 \<le> x" "x \<le> of_nat n" "n < 2 ^ 53"
  shows "fl x = Fin (rnd x) \<and> 0 \<le> rnd x \<and> rnd x \<le> of_nat n"
proof -
  have r: "0 \<le> rnd x" "rnd x \<le> of_nat n"
    using rnd_nonneg [OF assms(1)] rnd_mono [OF assms(1,2)] rnd_nat [OF assms(3)] by simp_all
  have "(of_nat n :: rat) < 2 ^ 53" using assms(3) by (metis of_nat_less_iff of_nat_numeral of_nat_power)
  then have "rnd x < pow2 1024" using r(2) pow2_53_1024 by linarith
  then show ?thesis using r by (simp add: fl_def Let_def)
qed

lemma unit_frac_fl: "0 \<le> x \<Longrightarrow> x \<le> 1 \<Longrightarrow> unit_frac (fl x)"
  using fl_below [of x 1] by (simp add: unit_frac_def)

lemma unit_frac_complement: "unit_frac d \<Longrightarrow> unit_frac (d_sub (Fin 1) d)"
  using unit_frac_fl by (fastforce simp: unit_frac_def [of d] d_sub_def)

lemma unit_frac_div:
  assumes "0 \<le> a" "a \<le> b" "0 < b" shows "unit_frac (d_div (Fin a) (Fin b))"
  using assms by (simp add: unit_frac_fl)

lemma unit_frac_mul:
  assumes "unit_frac d" "n < 2 ^ 53"
  obtains x where "d_mul (Fin (of_nat n)) d = Fin x" "0 \<le> x" "x \<le> of_nat n"
proof -
  obtain r where r: "d = Fin r" "0 \<le> r" "r \<le> 1" using assms(1) by (auto simp: unit_frac_def)
  have "of_nat n * r \<le> of_nat n" using r by (intro mult_left_le) simp_all
  then show ?thesis using fl_below [of "of_nat n * r" n] r assms(2) that by simp
qed

lemma to_u32_below:
  assumes "0 \<le> x" "x \<le> of_nat n" "n < 2 ^ 32"
  shows "\<exists>v. to_u32 (Fin x) = Some v \<and> unat v = nat \<lfloor>x\<rfloor> \<and> unat v \<le> n"
proof -
  have f: "nat \<lfloor>x\<rfloor> \<le> n" "0 \<le> \<lfloor>x\<rfloor>" using assms(1,2) by (simp_all add: floor_le_iff nat_le_iff)
  have "(of_nat n :: rat) < of_nat 4294967296" using assms(3) by (simp only: of_nat_less_iff) simp
  then have "x < 4294967296" using assms(2) by simp
  then have "to_u32 (Fin x) = Some (of_nat (nat \<lfloor>x\<rfloor>))" using assms(1) f(2) by simp
  then show ?thesis using f(1) assms(3) by (simp add: unat_of_nat32)
qed

text \<open>The scaled window, converted back.\<close>

lemma scale_down:
  assumes "unit_frac d"
  shows "\<exists>v. to_u32 (d_mul (of_u32 q) d) = Some v \<and> unat v \<le> unat q"
proof -
  have n: "unat q < 2 ^ 53" "unat q < 2 ^ 32" using unat_lt32 [of q] by simp_all
  obtain x where "d_mul (Fin (of_nat (unat q))) d = Fin x" "0 \<le> x" "x \<le> of_nat (unat q)"
    using unit_frac_mul [OF assms n(1)] .
  with to_u32_below [OF _ _ n(2)] show ?thesis unfolding of_u32_nat by fastforce
qed

text \<open>The part that is left of the data in flight, at least two segments.\<close>

lemma cut_segments:
  assumes "unit_frac d"
  shows "\<exists>v. to_u32 (d_max (Fin 2) (d_mul (of_u32 q) d)) = Some v \<and> 2 \<le> unat v \<and> unat v \<le> max 2 (unat q)"
proof -
  define n where "n = unat q"
  have n: "n < 2 ^ 53" "max 2 n < 2 ^ 32" using unat_lt32 [of q] by (simp_all add: n_def)
  obtain x where x: "d_mul (Fin (of_nat n)) d = Fin x" "0 \<le> x" "x \<le> of_nat n" using unit_frac_mul [OF assms n(1)] .
  let ?y = "max 2 x"
  have y: "d_max (Fin 2) (Fin x) = Fin ?y" by (simp add: d_max_def max_def)
  have "(of_nat n :: rat) \<le> of_nat (max 2 n)" "(of_nat 2 :: rat) \<le> of_nat (max 2 n)" by (simp_all only: of_nat_le_iff max.cobounded1 max.cobounded2)
  then have "?y \<le> of_nat (max 2 n)" using x(3) by simp
  then obtain v where v: "to_u32 (Fin ?y) = Some v" "unat v = nat \<lfloor>?y\<rfloor>" "unat v \<le> max 2 n"
    using to_u32_below [OF _ _ n(2), of ?y] by (auto simp: le_max_iff_disj)
  have "2 \<le> \<lfloor>?y\<rfloor>" by (simp add: le_floor_iff)
  then have "2 \<le> unat v" using v(2) by linarith
  then show ?thesis unfolding of_u32_nat n_def [symmetric] x(1) y using v(1,3) by blast
qed

end
