(* ===== verification/Reno.thy ===== *)
theory Reno
  imports DoubleFrac
begin

text \<open>
  \<open>TcpNewReno\<close> (\<open>tcp-congestion-ops.cc\<close>), with the floating-point arithmetic the code uses, and
  \<open>TcpLinuxReno\<close> (\<open>tcp-linux-reno.cc\<close>), which counts in integers.
\<close>

section \<open>NewReno\<close>

record tcp_newreno =
  m_renoAlpha :: double
  m_renoBeta :: uint32

definition newreno_SlowStart :: "tcp_newreno \<Rightarrow> tcb \<Rightarrow> uint32 \<Rightarrow> (tcb \<times> uint32) option" where
  "newreno_SlowStart nr tcb segmentsAcked =
     (if segmentsAcked \<ge> 1 then do {
        tcb \<leftarrow> cWnd_plus tcb (d_mul (m_renoAlpha nr) (of_u32 (m_segmentSize tcb)));
        Some (tcb, segmentsAcked - 1)
      } else Some (tcb, 0))"

definition newreno_CongestionAvoidance :: "tcp_newreno \<Rightarrow> tcb \<Rightarrow> uint32 \<Rightarrow> tcb option" where
  "newreno_CongestionAvoidance nr tcb segmentsAcked =
     (if segmentsAcked > 0 then do {
        let adder = d_div (of_u32 (m_segmentSize tcb * m_segmentSize tcb)) (of_u32 (m_cWnd tcb));
        let adder = d_max (Fin 1) adder;
        n \<leftarrow> to_u32 adder;
        cWnd_plus tcb (d_mul (m_renoAlpha nr) (of_u32 n))
      } else Some tcb)"

definition newreno_IncreaseWindow :: "tcp_newreno \<Rightarrow> tcb \<Rightarrow> uint32 \<Rightarrow> tcb option" where
  "newreno_IncreaseWindow nr tcb segmentsAcked = do {
     (tcb, segmentsAcked) \<leftarrow>
       (if m_cWnd tcb < m_ssThresh tcb then newreno_SlowStart nr tcb segmentsAcked
        else Some (tcb, segmentsAcked));
     (if m_cWnd tcb \<ge> m_ssThresh tcb then newreno_CongestionAvoidance nr tcb segmentsAcked
      else Some tcb)
   }"

definition newreno_GetSsThresh :: "tcp_newreno \<Rightarrow> tcb \<Rightarrow> uint32 \<Rightarrow> uint32 option" where
  "newreno_GetSsThresh nr tcb bytesInFlight = do {
     half \<leftarrow> udiv32 bytesInFlight (m_renoBeta nr);
     Some (max (2 * m_segmentSize tcb) half)
   }"

text \<open>The copy constructor, called by \<open>Fork\<close>, names no member: both keep what the memory holds (\<open>raw\<close>).\<close>

definition newreno_copy :: "tcp_newreno \<Rightarrow> tcp_newreno \<Rightarrow> tcp_newreno" where
  "newreno_copy raw sock = sock\<lparr>m_renoAlpha := m_renoAlpha raw, m_renoBeta := m_renoBeta raw\<rparr>"

section \<open>Linux Reno\<close>

type_synonym linux_reno = uint32   \<comment> \<open>\<open>m_cWndCnt\<close>\<close>

definition linuxreno_SlowStart :: "tcb \<Rightarrow> uint32 \<Rightarrow> (tcb \<times> uint32) option" where
  "linuxreno_SlowStart tcb segmentsAcked =
     (if segmentsAcked \<ge> 1 then do {
        let sndCwnd = m_cWnd tcb;
        let tcb = tcb\<lparr>m_cWnd := min (sndCwnd + segmentsAcked * m_segmentSize tcb) (m_ssThresh tcb)\<rparr>;
        q \<leftarrow> udiv32 (m_cWnd tcb - sndCwnd) (m_segmentSize tcb);
        Some (tcb, segmentsAcked - q)
      } else Some (tcb, 0))"

definition linuxreno_CongestionAvoidance ::
    "linux_reno \<Rightarrow> tcb \<Rightarrow> uint32 \<Rightarrow> (linux_reno \<times> tcb) option" where
  "linuxreno_CongestionAvoidance cnt tcb segmentsAcked = do {
     w \<leftarrow> udiv32 (m_cWnd tcb) (m_segmentSize tcb);
     let w = (if w = 0 then 1 else w);
     let (cnt, tcb) =
       (if cnt \<ge> w then (0, tcb\<lparr>m_cWnd := m_cWnd tcb + m_segmentSize tcb\<rparr>) else (cnt, tcb));
     let cnt = cnt + segmentsAcked;
     Some (if cnt \<ge> w then
             let delta = cnt div w
             in (cnt - delta * w, tcb\<lparr>m_cWnd := m_cWnd tcb + delta * m_segmentSize tcb\<rparr>)
           else (cnt, tcb))
   }"

definition linuxreno_IncreaseWindow ::
    "linux_reno \<Rightarrow> tcb \<Rightarrow> uint32 \<Rightarrow> (linux_reno \<times> tcb) option" where
  "linuxreno_IncreaseWindow cnt tcb segmentsAcked =
     (if m_cWnd tcb < m_ssThresh tcb then do {
        (tcb, segmentsAcked) \<leftarrow> linuxreno_SlowStart tcb segmentsAcked;
        Some (cnt, tcb)
      } else linuxreno_CongestionAvoidance cnt tcb segmentsAcked)"

definition linuxreno_GetSsThresh :: "tcb \<Rightarrow> uint32 \<Rightarrow> uint32" where
  "linuxreno_GetSsThresh tcb bytesInFlight = max (2 * m_segmentSize tcb) (m_cWnd tcb div 2)"

section \<open>NewReno computes with integers\<close>

text \<open>
  With a scale factor of a few binary places, such as 1, 3/2, 2 and 5, every double of NewReno is an
  integer or a multiple of a small power of two, and the conversions cut off the fraction.
\<close>

definition newreno_adder :: "nat \<Rightarrow> nat \<Rightarrow> nat" where
  "newreno_adder mss cwnd = max 1 (mss * mss mod 2 ^ 32 div cwnd)"

lemma newreno_adder_bounds: "1 \<le> newreno_adder mss cwnd" "mss \<le> cwnd \<Longrightarrow> 1 \<le> mss \<Longrightarrow> newreno_adder mss cwnd \<le> mss"
proof -
  show "1 \<le> newreno_adder mss cwnd" by (simp add: newreno_adder_def)
  assume mss: "mss \<le> cwnd" "1 \<le> mss"
  have "mss * mss mod 2 ^ 32 div cwnd \<le> mss * mss div mss"
    using mss div_le_mono [of "mss * mss mod 2 ^ 32" "mss * mss" cwnd] div_le_mono2 [of mss cwnd "mss * mss"]
      mod_less_eq_dividend [of "mss * mss" "2 ^ 32"] by linarith
  then show "newreno_adder mss cwnd \<le> mss" using mss by (simp add: newreno_adder_def)
qed

lemma to_u32_max_div:
  assumes "a < 2 ^ 32" "0 < b" "b < 2 ^ 32"
  shows "to_u32 (d_max (Fin 1) (d_div (Fin (of_nat a)) (Fin (of_nat b)))) = Some (of_nat (max 1 (a div b)))"
proof -
  obtain r where r: "d_div (Fin (of_nat a)) (Fin (of_nat b)) = Fin r" "of_nat (a div b) \<le> r" "r < of_nat (Suc (a div b))"
    using d_div_nat [OF assms] .
  have n: "a div b < 2 ^ 32" using assms(1) div_le_dividend [of a b] by linarith
  show ?thesis
  proof (cases "1 < r")
    case True
    then have "1 \<le> a div b" using r(3) by (cases "a div b") simp_all
    then have "max 1 (a div b) = a div b" by simp
    moreover have "d_max (Fin 1) (Fin r) = Fin r" using True by (simp add: d_max_def)
    ultimately show ?thesis using to_u32_floor [OF r(2,3) n] by (simp only: r(1))
  next
    case False
    then have "(of_nat (a div b) :: rat) \<le> of_nat 1" using r(2) by (simp only: of_nat_1 not_less order_trans)
    then have "a div b \<le> 1" by (simp only: of_nat_le_iff)
    then have "max 1 (a div b) = 1" by simp
    moreover have "d_max (Fin 1) (Fin r) = Fin (of_nat 1)" using False by (simp add: d_max_def)
    ultimately show ?thesis using to_u32_nat [of 1] by (simp only: r(1)) simp
  qed
qed

lemma newreno_adder_u32:
  assumes "m_cWnd tcb \<noteq> 0"
  defines "n \<equiv> newreno_adder (unat (m_segmentSize tcb)) (unat (m_cWnd tcb))"
  shows "n < 2 ^ 32"
    "to_u32 (d_max (Fin 1) (d_div (of_u32 (m_segmentSize tcb * m_segmentSize tcb)) (of_u32 (m_cWnd tcb)))) = Some (of_nat n)"
proof -
  let ?sq = "m_segmentSize tcb * m_segmentSize tcb"
  have c: "0 < unat (m_cWnd tcb)" using assms(1) by (simp add: unat_gt_0)
  have sq: "unat ?sq = unat (m_segmentSize tcb) * unat (m_segmentSize tcb) mod 2 ^ 32"
    by (simp add: unat_word_ariths)
  show "n < 2 ^ 32" unfolding n_def newreno_adder_def sq [symmetric]
    using le_less_trans [OF div_le_dividend unat_lt32, of ?sq "unat (m_cWnd tcb)"] by simp
  show "to_u32 (d_max (Fin 1) (d_div (of_u32 ?sq) (of_u32 (m_cWnd tcb)))) = Some (of_nat n)"
    unfolding of_u32_nat n_def newreno_adder_def sq [symmetric] using c by (intro to_u32_max_div) (simp_all add: unat_lt32)
qed

definition scale_is :: "nat \<Rightarrow> nat \<Rightarrow> tcp_newreno \<Rightarrow> bool" where
  "scale_is p e nr \<longleftrightarrow> m_renoAlpha nr = Fin (of_nat p / 2 ^ e) \<and> p < 2 ^ 20 \<and> e \<le> 20"

definition scaled :: "nat \<Rightarrow> nat \<Rightarrow> nat \<Rightarrow> nat" where
  "scaled p e n = p * n div 2 ^ e"

lemma add_scaled:
  assumes "p < 2 ^ 20" "e \<le> 20" "n < 2 ^ 32" "w < 2 ^ 32"
  shows "d_add (Fin (of_nat w)) (d_mul (Fin (of_nat p / 2 ^ e)) (Fin (of_nat n))) =
    Fin (of_nat (w * 2 ^ e + p * n) / 2 ^ e)"
proof -
  have pn: "p * n < 2 ^ 52" using mult_strict_mono [of p "2 ^ 20" n "2 ^ 32"] assms(1,3) by simp
  have "(2 :: nat) ^ e \<le> 2 ^ 20" using assms(2) by (intro power_increasing) simp_all
  then have "w * 2 ^ e \<le> w * 2 ^ 20" by (rule mult_le_mono2)
  moreover have "w * 2 ^ 20 < 2 ^ 52" using assms(4) by simp
  ultimately have "w * 2 ^ e < 2 ^ 52" by (rule le_less_trans)
  then have sum: "w * 2 ^ e + p * n < 2 ^ 53" using pn by simp
  have "d_mul (Fin (of_nat p / 2 ^ e)) (Fin (of_nat n)) = Fin (of_nat (p * n) / 2 ^ e)"
    using fl_exact [of "of_nat (p * n) / 2 ^ e" "p * n" e] pn assms(2) by simp
  moreover have "of_nat w + of_nat (p * n) / 2 ^ e = (of_nat (w * 2 ^ e + p * n) / 2 ^ e :: rat)"
    by (simp add: add_divide_distrib)
  ultimately show ?thesis using fl_exact [OF refl sum, of e] assms(2) by (simp only: d_add.simps)
qed

lemma to_u32_quotient:
  assumes "0 < b"
  shows "to_u32 (Fin (of_nat a / of_nat b)) = (if a div b < 2 ^ 32 then Some (of_nat (a div b)) else None)"
proof (cases "a div b < 2 ^ 32")
  case True
  have "of_nat (a div b) \<le> (of_nat a / of_nat b :: rat)" "of_nat a / of_nat b < (of_nat (Suc (a div b)) :: rat)"
    using rat_div_bounds [OF assms, of a] assms by (simp_all add: less_le_trans le_less_trans)
  with True to_u32_floor show ?thesis by simp
next
  case False
  then have "of_nat (2 ^ 32) \<le> (of_nat (a div b) :: rat)" by (simp only: of_nat_le_iff not_less)
  also have "\<dots> \<le> of_nat a / of_nat b" by (rule rat_div_bounds [OF assms])
  finally have "\<not> (of_nat a / of_nat b :: rat) < 4294967296" by simp
  with False show ?thesis by (simp only: to_u32.simps if_False simp_thms)
qed

lemma cWnd_plus_scaled:
  assumes "p < 2 ^ 20" "e \<le> 20" "n < 2 ^ 32"
  shows "cWnd_plus tcb (d_mul (Fin (of_nat p / 2 ^ e)) (Fin (of_nat n))) =
     (if unat (m_cWnd tcb) + scaled p e n < 2 ^ 32
      then Some (tcb\<lparr>m_cWnd := of_nat (unat (m_cWnd tcb) + scaled p e n)\<rparr>) else None)"
proof -
  let ?w = "unat (m_cWnd tcb)"
  have "?w < 2 ^ 32" using unat_lt32 by simp
  note a = add_scaled [OF assms this]
  have "(?w * 2 ^ e + p * n) div 2 ^ e = ?w + scaled p e n" by (simp add: scaled_def)
  then have "to_u32 (Fin (of_nat (?w * 2 ^ e + p * n) / 2 ^ e)) =
      (if ?w + scaled p e n < 2 ^ 32 then Some (of_nat (?w + scaled p e n)) else None)"
    using to_u32_quotient [of "2 ^ e" "?w * 2 ^ e + p * n"] by (simp only: of_nat_power of_nat_numeral) simp
  then show ?thesis unfolding cWnd_plus_def of_u32_nat a by simp
qed

lemma newreno_SlowStart_int:
  assumes "scale_is p e nr"
  shows "newreno_SlowStart nr tcb acked =
    (if acked = 0 then Some (tcb, 0)
     else let w = unat (m_cWnd tcb) + scaled p e (unat (m_segmentSize tcb)) in
       if w < 2 ^ 32 then Some (tcb\<lparr>m_cWnd := of_nat w\<rparr>, acked - 1) else None)"
proof -
  have a: "m_renoAlpha nr = Fin (of_nat p / 2 ^ e)" "p < 2 ^ 20" "e \<le> 20" using assms by (simp_all add: scale_is_def)
  have mss: "unat (m_segmentSize tcb) < 2 ^ 32" using unat_lt32 by simp
  show ?thesis unfolding newreno_SlowStart_def a(1) of_u32_nat cWnd_plus_scaled [OF a(2,3) mss]
    by (simp add: word_le_nat_alt unat_eq_zero [symmetric] Let_def del: d_mul.simps)
qed

lemma newreno_CongestionAvoidance_int:
  assumes "scale_is p e nr" "m_cWnd tcb \<noteq> 0"
  shows "newreno_CongestionAvoidance nr tcb acked =
    (if acked = 0 then Some tcb
     else let w = unat (m_cWnd tcb) + scaled p e (newreno_adder (unat (m_segmentSize tcb)) (unat (m_cWnd tcb))) in
       if w < 2 ^ 32 then Some (tcb\<lparr>m_cWnd := of_nat w\<rparr>) else None)"
proof -
  have a: "m_renoAlpha nr = Fin (of_nat p / 2 ^ e)" "p < 2 ^ 20" "e \<le> 20" using assms by (simp_all add: scale_is_def)
  let ?n = "newreno_adder (unat (m_segmentSize tcb)) (unat (m_cWnd tcb))"
  note n = newreno_adder_u32 [OF assms(2)]
  have u: "of_u32 (of_nat ?n) = Fin (of_nat ?n)" unfolding of_u32_nat unat_of_nat32 [OF n(1)] ..
  show ?thesis
    unfolding newreno_CongestionAvoidance_def Let_def n(2) Option.bind_lunit a(1) u cWnd_plus_scaled [OF a(2,3) n(1)]
    by (simp add: word_less_nat_alt unat_eq_zero [symmetric])
qed

section \<open>Any scale factor\<close>

text \<open>Whatever the rounding, an increment scaled by at most \<open>f\<close> adds at most \<open>f\<close> times the increment.\<close>

lemma cWnd_plus_factor:
  assumes "0 \<le> r" "r \<le> of_nat f" "unat (m_cWnd tcb) + f * n < 2 ^ 32"
  shows "\<exists>w. cWnd_plus tcb (d_mul (Fin r) (Fin (of_nat n))) = Some (tcb\<lparr>m_cWnd := of_nat w\<rparr>) \<and>
    unat (m_cWnd tcb) \<le> w \<and> w \<le> unat (m_cWnd tcb) + f * n"
proof -
  define c where "c = unat (m_cWnd tcb)"
  have fits: "c + f * n < 2 ^ 32" using assms(3) by (simp add: c_def)
  then have c: "c < 2 ^ 53" "f * n < 2 ^ 53" "c + f * n < 2 ^ 53" by simp_all
  have "0 \<le> r * of_nat n" "r * of_nat n \<le> of_nat (f * n)" using assms(1,2) by (simp_all add: mult_right_mono)
  from fl_below [OF this c(2)] obtain x where
    x: "d_mul (Fin r) (Fin (of_nat n)) = Fin x" "0 \<le> x" "x \<le> of_nat (f * n)" by auto
  let ?s = "of_nat c + x"
  have s0: "0 \<le> ?s" using x(2) by simp
  have s1: "?s \<le> of_nat (c + f * n)" unfolding of_nat_add using x(3) by (rule add_left_mono)
  from fl_below [OF s0 s1 c(3)] have s: "fl ?s = Fin (rnd ?s)" "0 \<le> rnd ?s" "rnd ?s \<le> of_nat (c + f * n)" by simp_all
  have "rnd (of_nat c) \<le> rnd ?s" using x(2) by (intro rnd_mono) simp_all
  then have low: "of_nat c \<le> rnd ?s" by (simp only: rnd_nat [OF c(1)])
  obtain v where v: "to_u32 (Fin (rnd ?s)) = Some v" "unat v = nat \<lfloor>rnd ?s\<rfloor>" "unat v \<le> c + f * n"
    using to_u32_below [OF s(2,3) fits] by blast
  have "int c \<le> \<lfloor>rnd ?s\<rfloor>" using low by (simp add: le_floor_iff)
  then have "c \<le> unat v" using v(2) by linarith
  moreover have "cWnd_plus tcb (Fin x) = Some (tcb\<lparr>m_cWnd := of_nat (unat v)\<rparr>)"
    by (simp add: cWnd_plus_def of_u32_nat c_def [symmetric] s(1) v(1) del: to_u32.simps)
  ultimately show ?thesis using v(3) unfolding x(1) c_def [symmetric] by blast
qed

end
