(* ===== verification/CongOps.thy ===== *)
theory CongOps
  imports Reno
begin

text \<open>
  What the socket relies on when it calls \<open>IncreaseWindow\<close> of a congestion control
  (\<open>TcpCongestionOps\<close>, \<open>tcp-congestion-ops.h\<close>): only the congestion window of the socket state is
  written, it does not shrink, and it grows by at most \<open>f\<close> times one segment more than the number of
  segments that were acknowledged. The factor \<open>f\<close> is 1 but for NewReno and the classes derived from it,
  where it bounds \<open>m_renoAlpha\<close>. The contract is a locale; the facts on a sequence of acknowledgements
  follow from it for every algorithm, and Linux Reno is an instance.
\<close>

section \<open>The contract\<close>

type_synonym 's increase = "'s \<Rightarrow> tcb \<Rightarrow> uint32 \<Rightarrow> ('s \<times> tcb) option"

abbreviation mss :: "tcb \<Rightarrow> nat" where
  "mss tcb \<equiv> unat (m_segmentSize tcb)"

abbreviation cwnd :: "tcb \<Rightarrow> nat" where
  "cwnd tcb \<equiv> unat (m_cWnd tcb)"

definition room :: "tcb \<Rightarrow> uint32 \<Rightarrow> bool" where
  "room tcb acked \<longleftrightarrow>
     1 \<le> mss tcb \<and> mss tcb \<le> cwnd tcb \<and> cwnd tcb + (unat acked + 1) * mss tcb < 2 ^ 32"

definition grown :: "tcb \<Rightarrow> nat \<Rightarrow> tcb \<Rightarrow> bool" where
  "grown tcb n tcb' \<longleftrightarrow>
     tcb' = tcb\<lparr>m_cWnd := m_cWnd tcb'\<rparr> \<and> cwnd tcb \<le> cwnd tcb' \<and> cwnd tcb' \<le> cwnd tcb + n * mss tcb"

text \<open>Room for the increase, with a factor.\<close>

definition ample :: "nat \<Rightarrow> tcb \<Rightarrow> uint32 \<Rightarrow> bool" where
  "ample f tcb acked \<longleftrightarrow>
     1 \<le> f \<and> 1 \<le> mss tcb \<and> mss tcb \<le> cwnd tcb \<and> cwnd tcb + f * (unat acked + 1) * mss tcb < 2 ^ 32"

lemma ample_room: "ample f tcb acked \<Longrightarrow> room tcb acked"
proof -
  assume a: "ample f tcb acked"
  then have "1 * (unat acked + 1) \<le> f * (unat acked + 1)" by (intro mult_le_mono1) (simp add: ample_def)
  then have "(unat acked + 1) * mss tcb \<le> f * (unat acked + 1) * mss tcb" by (intro mult_le_mono1) simp
  with a show "room tcb acked" unfolding ample_def room_def by linarith
qed

locale window_increase =
  fixes f :: nat and inc :: "'s increase" and ok :: "'s \<Rightarrow> bool"
  assumes inc_grown: "\<lbrakk>ok s; ample f tcb acked; inc s tcb acked = Some (s', tcb')\<rbrakk> \<Longrightarrow> grown tcb (f * (unat acked + 1)) tcb'"
    and inc_ok: "\<lbrakk>ok s; inc s tcb acked = Some (s', tcb')\<rbrakk> \<Longrightarrow> ok s'"

locale window_increase_total = window_increase +
  assumes inc_returns: "\<lbrakk>ok s; ample f tcb acked\<rbrakk> \<Longrightarrow> \<exists>s' tcb'. inc s tcb acked = Some (s', tcb')"

section \<open>Sequences of acknowledgements\<close>

primrec run_acks :: "'s increase \<Rightarrow> 's \<Rightarrow> tcb \<Rightarrow> uint32 list \<Rightarrow> ('s \<times> tcb) option" where
  "run_acks inc s tcb [] = Some (s, tcb)"
| "run_acks inc s tcb (a # as) = do { (s, tcb) \<leftarrow> inc s tcb a; run_acks inc s tcb as }"

definition budget :: "uint32 list \<Rightarrow> nat" where
  "budget as = (\<Sum>a\<leftarrow>as. unat a + 1)"

lemma budget_simps [simp]: "budget [] = 0" "budget (a # as) = unat a + 1 + budget as"
  by (simp_all add: budget_def)

definition room_for :: "nat \<Rightarrow> tcb \<Rightarrow> uint32 list \<Rightarrow> bool" where
  "room_for f tcb as \<longleftrightarrow>
     1 \<le> f \<and> 1 \<le> mss tcb \<and> mss tcb \<le> cwnd tcb \<and> cwnd tcb + f * budget as * mss tcb < 2 ^ 32"

lemma room_for_one: "room_for f tcb as \<Longrightarrow> room_for 1 tcb as"
proof -
  assume r: "room_for f tcb as"
  then have "1 * budget as \<le> f * budget as" by (intro mult_le_mono1) (simp add: room_for_def)
  then have "budget as * mss tcb \<le> f * budget as * mss tcb" by (intro mult_le_mono1) simp
  with r show "room_for 1 tcb as" unfolding room_for_def by linarith
qed

lemma grown_mss: "grown tcb n tcb' \<Longrightarrow> m_segmentSize tcb' = m_segmentSize tcb"
  by (cases tcb; cases tcb') (simp add: grown_def)

lemma grown_refl: "grown tcb 0 tcb"
  by (simp add: grown_def)

lemma grown_trans:
  assumes "grown tcb m tcb'" "grown tcb' n tcb''" shows "grown tcb (m + n) tcb''"
proof -
  have "tcb'' = tcb\<lparr>m_cWnd := m_cWnd tcb''\<rparr>"
    using assms by (cases tcb; cases tcb'; cases tcb'') (simp add: grown_def)
  then show ?thesis using assms grown_mss [OF assms(1)] by (auto simp: grown_def algebra_simps)
qed

lemma room_for_Cons:
  assumes "room_for f tcb (a # as)"
  shows "ample f tcb a" "grown tcb (f * (unat a + 1)) tcb' \<Longrightarrow> room_for f tcb' as"
proof -
  show "ample f tcb a" using assms by (auto simp: room_for_def ample_def algebra_simps)
  assume "grown tcb (f * (unat a + 1)) tcb'"
  then show "room_for f tcb' as" using assms grown_mss [of tcb "f * (unat a + 1)" tcb']
    by (auto simp: room_for_def grown_def algebra_simps)
qed

context window_increase begin

lemma run_grown:
  assumes "ok s" "room_for f tcb as" "run_acks inc s tcb as = Some (s', tcb')"
  shows "grown tcb (f * budget as) tcb' \<and> ok s'"
  using assms
proof (induction as arbitrary: s tcb)
  case (Cons a as)
  then obtain s1 tcb1 where step: "inc s tcb a = Some (s1, tcb1)" and rest: "run_acks inc s1 tcb1 as = Some (s', tcb')"
    by (auto simp: bind_eq_Some_conv)
  note r = room_for_Cons [OF Cons.prems(2)]
  have g: "grown tcb (f * (unat a + 1)) tcb1" using Cons.prems(1) r(1) step by (rule inc_grown)
  then have "grown tcb1 (f * budget as) tcb' \<and> ok s'"
    using Cons.IH rest r(2) inc_ok [OF Cons.prems(1) step] by blast
  with grown_trans [OF g, of "f * budget as" tcb'] show ?case by (simp add: add_mult_distrib2 add.assoc)
qed (simp add: grown_refl)

end

context window_increase_total begin

lemma run_returns:
  assumes "ok s" "room_for f tcb as"
  shows "\<exists>s' tcb'. run_acks inc s tcb as = Some (s', tcb') \<and> grown tcb (f * budget as) tcb'"
proof -
  have "\<exists>s' tcb'. run_acks inc s tcb as = Some (s', tcb')" using assms
  proof (induction as arbitrary: s tcb)
    case (Cons a as)
    note r = room_for_Cons [OF Cons.prems(2)]
    obtain s1 tcb1 where step: "inc s tcb a = Some (s1, tcb1)" using inc_returns [OF Cons.prems(1) r(1)] by blast
    show ?case using Cons.IH [OF inc_ok [OF Cons.prems(1) step] r(2) [OF inc_grown [OF Cons.prems(1) r(1) step]]] step
      by simp
  qed simp
  with run_grown [OF assms] show ?thesis by blast
qed

end

section \<open>NewReno\<close>

text \<open>A scale factor between 0 and \<open>f\<close>.\<close>

definition newreno_ok :: "nat \<Rightarrow> tcp_newreno \<Rightarrow> bool" where
  "newreno_ok f nr \<longleftrightarrow> (\<exists>r. m_renoAlpha nr = Fin r \<and> 0 \<le> r \<and> r \<le> of_nat f)"

definition newreno_inc :: "tcp_newreno increase" where
  "newreno_inc nr tcb acked = map_option (Pair nr) (newreno_IncreaseWindow nr tcb acked)"

text \<open>The integer arithmetic NewReno stands for, with the scale factor \<open>p / 2 ^ e\<close>: slow start, then congestion avoidance.\<close>

definition reno_window :: "nat \<Rightarrow> nat \<Rightarrow> nat \<Rightarrow> nat \<Rightarrow> nat \<Rightarrow> nat \<Rightarrow> nat" where
  "reno_window p e m w ss acked =
     (let (w, acked) = (if w < ss then if acked = 0 then (w, 0) else (w + scaled p e m, acked - 1) else (w, acked))
      in if ss \<le> w \<and> 0 < acked then w + scaled p e (newreno_adder m w) else w)"

lemma reno_window_cases:
  "reno_window p e m w ss 0 = w"
  "ss \<le> w \<Longrightarrow> 0 < acked \<Longrightarrow> reno_window p e m w ss acked = w + scaled p e (newreno_adder m w)"
  "w < ss \<Longrightarrow> 0 < acked \<Longrightarrow> reno_window p e m w ss acked =
     (let v = w + scaled p e m in if ss \<le> v \<and> 0 < acked - 1 then v + scaled p e (newreno_adder m v) else v)"
  by (auto simp: reno_window_def Let_def)

lemma newreno_IncreaseWindow_avoid:
  assumes "scale_is p e nr" "m_cWnd tcb \<noteq> 0" "acked \<noteq> 0" "m_ssThresh tcb \<le> m_cWnd tcb"
  shows "newreno_IncreaseWindow nr tcb acked =
    (let w = cwnd tcb + scaled p e (newreno_adder (mss tcb) (cwnd tcb))
     in if w < 2 ^ 32 then Some (tcb\<lparr>m_cWnd := of_nat w\<rparr>) else None)"
proof -
  have "\<not> m_cWnd tcb < m_ssThresh tcb" using assms(4) by simp
  then show ?thesis using newreno_CongestionAvoidance_int [OF assms(1,2), of acked] assms(3,4)
    by (simp add: newreno_IncreaseWindow_def Let_def)
qed

lemma newreno_IncreaseWindow_slow:
  assumes "scale_is p e nr" "m_cWnd tcb \<noteq> 0" "acked \<noteq> 0" "m_cWnd tcb < m_ssThresh tcb"
  shows "newreno_IncreaseWindow nr tcb acked =
    (let v = cwnd tcb + scaled p e (mss tcb);
         w = (if unat (m_ssThresh tcb) \<le> v \<and> 0 < unat acked - 1 then v + scaled p e (newreno_adder (mss tcb) v) else v)
     in if w < 2 ^ 32 then Some (tcb\<lparr>m_cWnd := of_nat w\<rparr>) else None)"
proof -
  define v where "v = cwnd tcb + scaled p e (mss tcb)"
  note slow = newreno_SlowStart_int [OF assms(1), of tcb acked, folded v_def]
  have a: "unat (acked - 1) = unat acked - 1" using assms(3) by (simp add: unat_minus_one)
  have a0: "acked - 1 = 0 \<longleftrightarrow> \<not> 0 < unat acked - 1" using a by (metis gr0I less_irrefl unat_eq_zero)
  show ?thesis
  proof (cases "v < 2 ^ 32")
    case True
    let ?t = "tcb\<lparr>m_cWnd := of_nat v\<rparr>"
    have u: "unat (of_nat v :: uint32) = v" using True by (rule unat_of_nat32)
    have "0 < unat (m_cWnd tcb)" using assms(2) by (simp add: unat_gt_0)
    then have nz: "m_cWnd ?t \<noteq> 0" using u by (auto simp: v_def unat_eq_zero [symmetric] simp del: unat_eq_zero)
    have "newreno_IncreaseWindow nr tcb acked =
        (if m_ssThresh tcb \<le> of_nat v then newreno_CongestionAvoidance nr ?t (acked - 1) else Some ?t)"
      using True assms(3,4) by (simp add: newreno_IncreaseWindow_def slow Let_def)
    also have "newreno_CongestionAvoidance nr ?t (acked - 1) =
        (let w = (if 0 < unat acked - 1 then v + scaled p e (newreno_adder (mss tcb) v) else v)
         in if w < 2 ^ 32 then Some (tcb\<lparr>m_cWnd := of_nat w\<rparr>) else None)"
      unfolding newreno_CongestionAvoidance_int [OF assms(1) nz] a0 using True by (simp add: u Let_def)
    finally show ?thesis using True by (simp add: word_le_nat_alt u Let_def v_def [symmetric])
  next
    case False
    then show ?thesis using assms(3,4) by (simp add: newreno_IncreaseWindow_def slow Let_def v_def [symmetric])
  qed
qed

lemma newreno_IncreaseWindow_int:
  assumes "scale_is p e nr" "m_cWnd tcb \<noteq> 0"
  shows "newreno_IncreaseWindow nr tcb acked =
    (let w = reno_window p e (mss tcb) (cwnd tcb) (unat (m_ssThresh tcb)) (unat acked)
     in if w < 2 ^ 32 then Some (tcb\<lparr>m_cWnd := of_nat w\<rparr>) else None)"
proof (cases "acked = 0")
  case True
  then show ?thesis using unat_lt32 [of "m_cWnd tcb"]
    by (simp add: reno_window_cases(1) newreno_IncreaseWindow_def newreno_SlowStart_def newreno_CongestionAvoidance_def Let_def)
next
  case False
  then have a: "0 < unat acked" by (simp add: unat_gt_0)
  show ?thesis
  proof (cases "m_ssThresh tcb \<le> m_cWnd tcb")
    case True
    with newreno_IncreaseWindow_avoid [OF assms False] reno_window_cases(2) [OF _ a] show ?thesis
      by (simp only: word_le_nat_alt)
  next
    case slow: False
    then have "m_cWnd tcb < m_ssThresh tcb" by simp
    with newreno_IncreaseWindow_slow [OF assms False] reno_window_cases(3) [OF _ a] show ?thesis
      by (simp only: word_less_nat_alt Let_def)
  qed
qed

lemma grown_update:
  assumes "cwnd tcb \<le> w" "w \<le> cwnd tcb + n * mss tcb" "w < 2 ^ 32"
  shows "grown tcb n (tcb\<lparr>m_cWnd := of_nat w\<rparr>)"
  using assms by (simp add: grown_def unat_of_nat32)

lemma room_nonzero: "room tcb acked \<Longrightarrow> m_cWnd tcb \<noteq> 0 \<and> m_segmentSize tcb \<noteq> 0"
  by (auto simp: room_def)

section \<open>Linux Reno\<close>

text \<open>Slow start stops at the threshold; congestion avoidance adds a segment per window of acknowledgements.\<close>

lemma linuxreno_SlowStart_nat:
  assumes "room tcb acked" "m_cWnd tcb < m_ssThresh tcb"
  shows "\<exists>rest. linuxreno_SlowStart tcb acked =
     Some (tcb\<lparr>m_cWnd := of_nat (min (cwnd tcb + unat acked * mss tcb) (unat (m_ssThresh tcb)))\<rparr>, rest)"
proof (cases "acked = 0")
  case True
  have "min (cwnd tcb) (unat (m_ssThresh tcb)) = cwnd tcb" using assms(2) by (simp add: word_less_nat_alt)
  with True show ?thesis by (simp add: linuxreno_SlowStart_def)
next
  case False
  have p: "unat acked * mss tcb < 2 ^ 32" using assms(1) by (simp add: room_def algebra_simps)
  have m: "unat (acked * m_segmentSize tcb) = unat acked * mss tcb" using p by (simp add: unat_word_ariths)
  then have s: "unat (m_cWnd tcb + acked * m_segmentSize tcb) = cwnd tcb + unat acked * mss tcb"
    using assms(1) unat_plus32 [of "m_cWnd tcb" "acked * m_segmentSize tcb"] by (simp add: room_def algebra_simps)
  have "min (m_cWnd tcb + acked * m_segmentSize tcb) (m_ssThresh tcb) =
      of_nat (min (cwnd tcb + unat acked * mss tcb) (unat (m_ssThresh tcb)))"
    by (simp add: min_def word_le_nat_alt s)
  then show ?thesis using False room_nonzero [OF assms(1)]
    by (simp add: linuxreno_SlowStart_def Let_def udiv32_def word_le_nat_alt unat_eq_zero [symmetric] del: unat_eq_zero)
qed

lemma linuxreno_step_bound:
  assumes "cnt < w" "1 \<le> (w :: nat)" shows "(cnt + acked) div w \<le> acked"
proof -
  have "cnt + acked < Suc acked * w" using assms by (cases w) (auto simp: algebra_simps)
  then show ?thesis by (simp add: less_mult_imp_div_less less_Suc_eq_le [symmetric] del: less_Suc_eq_le)
qed

definition linuxreno_window :: "nat \<Rightarrow> nat \<Rightarrow> nat \<Rightarrow> nat \<Rightarrow> nat \<times> nat" where
  "linuxreno_window m c cnt acked =
     (let w = max 1 (c div m); (cnt, c) = (if w \<le> cnt then (0, c + m) else (cnt, c))
      in ((cnt + acked) mod w, c + (cnt + acked) div w * m))"

lemma linuxreno_window_bounds:
  "c \<le> snd (linuxreno_window m c cnt acked)"
  "snd (linuxreno_window m c cnt acked) \<le> c + (acked + 1) * m"
proof -
  show "c \<le> snd (linuxreno_window m c cnt acked)" by (simp add: linuxreno_window_def Let_def)
  let ?w = "max 1 (c div m)"
  have "acked div ?w * m \<le> acked * m" by (intro mult_right_mono) simp_all
  moreover have "(cnt + acked) div ?w * m \<le> acked * m" if "\<not> ?w \<le> cnt"
    using that by (intro mult_right_mono linuxreno_step_bound) (simp_all only: not_le max.cobounded1 le0)
  ultimately show "snd (linuxreno_window m c cnt acked) \<le> c + (acked + 1) * m"
    unfolding linuxreno_window_def Let_def by (cases "?w \<le> cnt") (simp_all only: if_True if_False prod.case snd_conv add_0, simp_all add: trans_le_add2)
qed

lemma word_nat_cancel: "(of_nat (unat w) :: uint32) = w"
  by simp

lemma linuxreno_segments:
  "(if (w :: uint32) \<le> cnt
    then (cnt - cnt div w * w, tcb\<lparr>m_cWnd := m_cWnd tcb + cnt div w * m_segmentSize tcb\<rparr>) else (cnt, tcb)) =
   (cnt mod w, tcb\<lparr>m_cWnd := m_cWnd tcb + cnt div w * m_segmentSize tcb\<rparr>)"
  by (simp add: minus_div_mult_eq_mod not_le div_word_less mod_word_less)

lemma linuxreno_CongestionAvoidance_nat:
  assumes r: "room tcb acked"
  shows "linuxreno_CongestionAvoidance cnt tcb acked =
    (let (cnt', c) = linuxreno_window (mss tcb) (cwnd tcb) (unat cnt) (unat acked)
     in Some (of_nat cnt', tcb\<lparr>m_cWnd := of_nat c\<rparr>))"
proof -
  define w where "w = (if m_cWnd tcb div m_segmentSize tcb = 0 then 1 else m_cWnd tcb div m_segmentSize tcb)"
  define c where "c = (if w \<le> cnt then 0 else cnt)"
  define t where "t = (if w \<le> cnt then tcb\<lparr>m_cWnd := m_cWnd tcb + m_segmentSize tcb\<rparr> else tcb)"
  have w: "max 1 (cwnd tcb div mss tcb) = unat w" unfolding w_def
    by (cases "m_cWnd tcb div m_segmentSize tcb = 0") (auto simp: unat_div unat_eq_zero [symmetric] simp del: unat_eq_zero)
  have wc: "unat w \<le> cwnd tcb" using r unfolding w [symmetric] by (auto simp: room_def intro: order_trans)
  have "unat c < unat w" using w unfolding c_def by (auto simp: word_le_nat_alt not_le)
  moreover have "cwnd tcb + unat acked \<le> cwnd tcb + (unat acked + 1) * mss tcb"
    using r mult_le_mono2 [of 1 "mss tcb" "unat acked"] by (simp add: room_def trans_le_add2)
  ultimately have sum: "unat (c + acked) = unat c + unat acked"
    using r wc by (intro unat_plus32) (simp add: room_def)
  have dm: "of_nat ((unat c + unat acked) div unat w) = (c + acked) div w"
    "of_nat ((unat c + unat acked) mod unat w) = (c + acked) mod w"
    unfolding sum [symmetric] by (simp_all only: unat_div [symmetric] unat_mod [symmetric] word_nat_cancel)
  have u: "udiv32 (m_cWnd tcb) (m_segmentSize tcb) = Some (m_cWnd tcb div m_segmentSize tcb)"
    using room_nonzero [OF r] by simp
  have p: "(if w \<le> cnt then (0, tcb\<lparr>m_cWnd := m_cWnd tcb + m_segmentSize tcb\<rparr>) else (cnt, tcb)) = (c, t)"
    by (simp add: c_def t_def)
  have "linuxreno_CongestionAvoidance cnt tcb acked =
      Some ((c + acked) mod w, t\<lparr>m_cWnd := m_cWnd t + (c + acked) div w * m_segmentSize t\<rparr>)"
    unfolding linuxreno_CongestionAvoidance_def u Option.bind_lunit Let_def w_def [symmetric] p prod.case
      linuxreno_segments ..
  moreover have "linuxreno_window (mss tcb) (cwnd tcb) (unat cnt) (unat acked) =
      ((unat c + unat acked) mod unat w, unat (m_cWnd tcb) + (if w \<le> cnt then mss tcb else 0) + (unat c + unat acked) div unat w * mss tcb)"
    unfolding linuxreno_window_def Let_def w c_def by (simp add: word_le_nat_alt)
  moreover have "t\<lparr>m_cWnd := m_cWnd t + (c + acked) div w * m_segmentSize t\<rparr> =
      tcb\<lparr>m_cWnd := of_nat (unat (m_cWnd tcb) + (if w \<le> cnt then mss tcb else 0) + (unat c + unat acked) div unat w * mss tcb)\<rparr>"
    unfolding of_nat_add of_nat_mult dm t_def by simp
  ultimately show ?thesis using dm(2) by (simp only: prod.case Let_def)
qed

definition linuxreno_ok :: "linux_reno \<Rightarrow> bool" where
  "linuxreno_ok cnt \<longleftrightarrow> True"

text \<open>The window after \<open>IncreaseWindow\<close>, in natural numbers.\<close>

definition linux_window :: "nat \<Rightarrow> nat \<Rightarrow> nat \<Rightarrow> nat \<Rightarrow> nat \<Rightarrow> nat" where
  "linux_window m c ss cnt acked =
     (if c < ss then min (c + acked * m) ss else snd (linuxreno_window m c cnt acked))"

lemma linux_window_bounds:
  "c \<le> linux_window m c ss cnt acked" "linux_window m c ss cnt acked \<le> c + (acked + 1) * m"
proof -
  note b = linuxreno_window_bounds(1) [of c m cnt acked] linuxreno_window_bounds(2) [of m c cnt acked]
  show "c \<le> linux_window m c ss cnt acked" using b(1) by (simp add: linux_window_def)
  show "linux_window m c ss cnt acked \<le> c + (acked + 1) * m"
    using b(2) by (cases "c < ss") (simp_all add: linux_window_def min_le_iff_disj)
qed

lemma linuxreno_IncreaseWindow_nat:
  assumes "room tcb acked"
  shows "\<exists>cnt'. linuxreno_IncreaseWindow cnt tcb acked =
     Some (cnt', tcb\<lparr>m_cWnd := of_nat (linux_window (mss tcb) (cwnd tcb) (unat (m_ssThresh tcb)) (unat cnt) (unat acked))\<rparr>)"
proof (cases "m_cWnd tcb < m_ssThresh tcb")
  case True
  with linuxreno_SlowStart_nat [OF assms True] show ?thesis
    by (auto simp: linuxreno_IncreaseWindow_def linux_window_def word_less_nat_alt)
next
  case False
  with linuxreno_CongestionAvoidance_nat [OF assms] show ?thesis
    by (auto simp: linuxreno_IncreaseWindow_def linux_window_def word_less_nat_alt split: prod.split)
qed

interpretation linuxreno: window_increase_total 1 linuxreno_IncreaseWindow linuxreno_ok
proof
  fix cnt cnt' :: linux_reno and tcb tcb' :: tcb and acked :: uint32
  let ?w = "linux_window (mss tcb) (cwnd tcb) (unat (m_ssThresh tcb)) (unat cnt) (unat acked)"
  show "linuxreno_ok cnt'" by (simp add: linuxreno_ok_def)
  assume "ample 1 tcb acked"
  then have r: "room tcb acked" by (rule ample_room)
  note inc = linuxreno_IncreaseWindow_nat [OF r, of cnt]
  then show "\<exists>cnt' tcb'. linuxreno_IncreaseWindow cnt tcb acked = Some (cnt', tcb')" by blast
  note w = linux_window_bounds(1) [of "cwnd tcb" "mss tcb" "unat (m_ssThresh tcb)" "unat cnt" "unat acked"]
    linux_window_bounds(2) [of "mss tcb" "cwnd tcb" "unat (m_ssThresh tcb)" "unat cnt" "unat acked"]
  have "?w < 2 ^ 32" using w(2) r by (simp add: room_def)
  then have "grown tcb (unat acked + 1) (tcb\<lparr>m_cWnd := of_nat ?w\<rparr>)" using w by (intro grown_update)
  moreover assume "linuxreno_IncreaseWindow cnt tcb acked = Some (cnt', tcb')"
  ultimately show "grown tcb (1 * (unat acked + 1)) tcb'" using inc by auto
qed

end
