(* ===== verification/RenoSub.thy ===== *)
theory RenoSub
  imports CongOps
begin

text \<open>
  \<open>TcpNewReno::IncreaseWindow\<close> for the classes derived from \<open>TcpNewReno\<close>, which override the virtual
  functions \<open>SlowStart\<close> and \<open>CongestionAvoidance\<close> that it calls. A locale says what the two functions
  have to keep, with a bound \<open>f\<close> on the scale factor of NewReno; then \<open>IncreaseWindow\<close> meets the contract of the congestion controls. \<open>TcpNewReno\<close> itself
  and \<open>TcpScalable\<close> (\<open>tcp-scalable.cc\<close>) are instances.
\<close>

section \<open>Virtual calls\<close>

type_synonym 's slow_start = "'s \<Rightarrow> tcb \<Rightarrow> uint32 \<Rightarrow> ('s \<times> tcb \<times> uint32) option"

definition virtual_IncreaseWindow :: "'s slow_start \<Rightarrow> 's increase \<Rightarrow> 's increase" where
  "virtual_IncreaseWindow ss ca s tcb segmentsAcked = do {
     (s, tcb, segmentsAcked) \<leftarrow>
       (if m_cWnd tcb < m_ssThresh tcb then ss s tcb segmentsAcked else Some (s, tcb, segmentsAcked));
     (if m_cWnd tcb \<ge> m_ssThresh tcb then ca s tcb segmentsAcked else Some (s, tcb))
   }"

locale reno_subclass =
  fixes f :: nat and ss :: "'s slow_start" and ca :: "'s increase" and ok :: "'s \<Rightarrow> bool"
  assumes ss_grown: "\<lbrakk>ok s; ample f tcb n; ss s tcb n = Some (s', tcb', n')\<rbrakk> \<Longrightarrow>
      \<exists>k. grown tcb (f * k) tcb' \<and> k + unat n' \<le> unat n"
    and ss_ok: "\<lbrakk>ok s; ss s tcb n = Some (s', tcb', n')\<rbrakk> \<Longrightarrow> ok s'"
    and ca_grown: "\<lbrakk>ok s; ample f tcb n; ca s tcb n = Some (s', tcb')\<rbrakk> \<Longrightarrow> grown tcb (f * (unat n + 1)) tcb'"
    and ca_ok: "\<lbrakk>ok s; ca s tcb n = Some (s', tcb')\<rbrakk> \<Longrightarrow> ok s'"

locale reno_subclass_total = reno_subclass +
  assumes ss_returns: "\<lbrakk>ok s; ample f tcb n\<rbrakk> \<Longrightarrow> \<exists>r. ss s tcb n = Some r"
    and ca_returns: "\<lbrakk>ok s; ample f tcb n\<rbrakk> \<Longrightarrow> \<exists>r. ca s tcb n = Some r"

lemma grown_weaken: "grown tcb m tcb' \<Longrightarrow> m \<le> n \<Longrightarrow> grown tcb n tcb'"
  unfolding grown_def by (meson add_left_mono mult_le_mono1 order_trans)

lemma ample_grown:
  assumes "ample f tcb n" "grown tcb (f * k) tcb'" "k + unat n' \<le> unat n" shows "ample f tcb' n'"
proof -
  have "f * (k + (unat n' + 1)) \<le> f * (unat n + 1)" using assms(3) by (intro mult_le_mono2) simp
  then have "f * (k + (unat n' + 1)) * mss tcb \<le> f * (unat n + 1) * mss tcb" by (rule mult_le_mono1)
  then have "f * k * mss tcb + f * (unat n' + 1) * mss tcb \<le> f * (unat n + 1) * mss tcb" by (simp only: distrib_left distrib_right)
  then have "cwnd tcb' + f * (unat n' + 1) * mss tcb < 2 ^ 32" using assms(1,2) unfolding ample_def grown_def by linarith
  moreover have "mss tcb \<le> cwnd tcb'" using assms(1,2) unfolding ample_def grown_def by linarith
  ultimately show ?thesis using assms(1) grown_mss [OF assms(2)] unfolding ample_def by metis
qed

lemma virtual_cases:
  assumes "virtual_IncreaseWindow ss ca s tcb n = Some (s', tcb')"
  obtains s1 tcb1 n1 where "m_cWnd tcb < m_ssThresh tcb \<and> ss s tcb n = Some (s1, tcb1, n1) \<or>
      \<not> m_cWnd tcb < m_ssThresh tcb \<and> (s1, tcb1, n1) = (s, tcb, n)"
    "ca s1 tcb1 n1 = Some (s', tcb') \<or> (s', tcb') = (s1, tcb1)"
  using assms by (fastforce simp: virtual_IncreaseWindow_def bind_eq_Some_conv split: if_splits)

lemma grown_ample: "\<exists>k. grown tcb (f * k) tcb \<and> k + unat n \<le> unat n"
  by (rule exI [of _ 0]) (simp add: grown_refl)

sublocale reno_subclass \<subseteq> window_increase f "virtual_IncreaseWindow ss ca" ok
proof
  fix s tcb n s' tcb'
  assume ok: "ok s" and r: "virtual_IncreaseWindow ss ca s tcb n = Some (s', tcb')"
  obtain s1 tcb1 n1 where first: "m_cWnd tcb < m_ssThresh tcb \<and> ss s tcb n = Some (s1, tcb1, n1) \<or>
      \<not> m_cWnd tcb < m_ssThresh tcb \<and> (s1, tcb1, n1) = (s, tcb, n)"
    and second: "ca s1 tcb1 n1 = Some (s', tcb') \<or> (s', tcb') = (s1, tcb1)" using r by (rule virtual_cases)
  have ok1: "ok s1" using first ss_ok [OF ok] ok by auto
  then show "ok s'" using second ca_ok by auto
  assume room: "ample f tcb n"
  obtain k where k: "grown tcb (f * k) tcb1" "k + unat n1 \<le> unat n"
    using first ss_grown [OF ok room] grown_ample by auto
  have "grown tcb1 (f * (unat n1 + 1)) tcb'"
    using second ca_grown [OF ok1 ample_grown [OF room k]] grown_weaken [OF grown_refl, of "f * (unat n1 + 1)"] by auto
  with k(1) show "grown tcb (f * (unat n + 1)) tcb'"
    by (rule grown_weaken [OF grown_trans]) (use k(2) in \<open>simp flip: distrib_left\<close>)
qed

sublocale reno_subclass_total \<subseteq> window_increase_total f "virtual_IncreaseWindow ss ca" ok
proof
  fix s tcb n
  assume ok: "ok s" and room: "ample f tcb n"
  obtain s1 tcb1 n1 where first: "(if m_cWnd tcb < m_ssThresh tcb then ss s tcb n else Some (s, tcb, n)) = Some (s1, tcb1, n1)"
    using ss_returns [OF ok room] by (metis prod_cases3)
  have ok1: "ok s1" using first ok ss_ok [OF ok] by (auto split: if_splits)
  have "\<exists>k. grown tcb (f * k) tcb1 \<and> k + unat n1 \<le> unat n"
    using first ss_grown [OF ok room] grown_ample by (auto split: if_splits)
  then have "\<exists>r. ca s1 tcb1 n1 = Some r" using ca_returns [OF ok1] ample_grown [OF room] by blast
  then show "\<exists>s' tcb'. virtual_IncreaseWindow ss ca s tcb n = Some (s', tcb')"
    by (auto simp: virtual_IncreaseWindow_def first)
qed

section \<open>NewReno\<close>

text \<open>The two functions of \<open>TcpNewReno\<close>, as members of the derived classes inherit them.\<close>

definition reno_ss :: "('s \<Rightarrow> tcp_newreno) \<Rightarrow> 's slow_start" where
  "reno_ss parent s tcb n = map_option (Pair s) (newreno_SlowStart (parent s) tcb n)"

definition reno_ca :: "('s \<Rightarrow> tcp_newreno) \<Rightarrow> 's increase" where
  "reno_ca parent s tcb n = map_option (Pair s) (newreno_CongestionAvoidance (parent s) tcb n)"

lemma newreno_is_virtual: "newreno_inc = virtual_IncreaseWindow (reno_ss id) (reno_ca id)"
  by (intro ext)
    (simp add: newreno_inc_def newreno_IncreaseWindow_def virtual_IncreaseWindow_def reno_ss_def reno_ca_def
      split: option.splits bind_splits)


lemma newreno_SlowStart_room:
  assumes "newreno_ok f nr" "ample f tcb n"
  shows "\<exists>tcb' n' k. newreno_SlowStart nr tcb n = Some (tcb', n') \<and> grown tcb (f * k) tcb' \<and> k + unat n' \<le> unat n"
proof (cases "n = 0")
  case True
  then show ?thesis by (auto simp: newreno_SlowStart_def intro!: exI [of _ 0] grown_refl)
next
  case False
  then have n: "unat (n - 1) = unat n - 1" "1 \<le> unat n" by (simp_all add: unat_minus_one unat_gt_0 Suc_le_eq)
  obtain r where r: "m_renoAlpha nr = Fin r" "0 \<le> r" "r \<le> of_nat f" using assms(1) by (auto simp: newreno_ok_def)
  have "f * mss tcb \<le> f * (unat n + 1) * mss tcb" by (intro mult_le_mono1) simp
  then have fits: "cwnd tcb + f * mss tcb < 2 ^ 32" using assms(2) unfolding ample_def by linarith
  obtain w where w: "newreno_SlowStart nr tcb n = Some (tcb\<lparr>m_cWnd := of_nat w\<rparr>, n - 1)"
      "cwnd tcb \<le> w" "w \<le> cwnd tcb + f * mss tcb"
    using cWnd_plus_factor [OF r(2,3) fits] n(2)
    by (auto simp: newreno_SlowStart_def r(1) of_u32_nat word_le_nat_alt simp del: d_mul.simps)
  have "grown tcb (f * 1) (tcb\<lparr>m_cWnd := of_nat w\<rparr>)" using w(2,3) fits by (intro grown_update) simp_all
  then show ?thesis using w(1) n by (intro exI [of _ "tcb\<lparr>m_cWnd := of_nat w\<rparr>"] exI [of _ "n - 1"] exI [of _ 1]) simp
qed

lemma newreno_CongestionAvoidance_room:
  assumes "newreno_ok f nr" "ample f tcb n"
  shows "\<exists>tcb'. newreno_CongestionAvoidance nr tcb n = Some tcb' \<and> grown tcb (f * (unat n + 1)) tcb'"
proof (cases "n = 0")
  case True
  then show ?thesis using grown_weaken [OF grown_refl] by (simp add: newreno_CongestionAvoidance_def)
next
  case False
  obtain r where r: "m_renoAlpha nr = Fin r" "0 \<le> r" "r \<le> of_nat f" using assms(1) by (auto simp: newreno_ok_def)
  let ?a = "newreno_adder (mss tcb) (cwnd tcb)"
  have nz: "m_cWnd tcb \<noteq> 0" using room_nonzero [OF ample_room [OF assms(2)]] by blast
  note a = newreno_adder_u32 [OF nz]
  have "?a \<le> mss tcb" using assms(2) by (intro newreno_adder_bounds(2)) (simp_all add: ample_def)
  then have "f * ?a \<le> f * mss tcb" by (rule mult_le_mono2)
  also have "\<dots> \<le> f * (unat n + 1) * mss tcb" by (intro mult_le_mono1) simp
  finally have le: "f * ?a \<le> f * (unat n + 1) * mss tcb" .
  then have fits: "cwnd tcb + f * ?a < 2 ^ 32" using assms(2) unfolding ample_def by linarith
  have u: "of_u32 (of_nat ?a) = Fin (of_nat ?a)" unfolding of_u32_nat unat_of_nat32 [OF a(1)] ..
  obtain w where w: "newreno_CongestionAvoidance nr tcb n = Some (tcb\<lparr>m_cWnd := of_nat w\<rparr>)"
      "cwnd tcb \<le> w" "w \<le> cwnd tcb + f * ?a"
    using cWnd_plus_factor [OF r(2,3) fits] False
    unfolding newreno_CongestionAvoidance_def Let_def a(2) Option.bind_lunit r(1) u by (auto simp: word_neq_0_conv)
  have "grown tcb (f * (unat n + 1)) (tcb\<lparr>m_cWnd := of_nat w\<rparr>)"
    using w(2,3) le fits by (intro grown_update) linarith+
  then show ?thesis using w(1) by blast
qed

text \<open>A derived class that overrides neither function behaves like \<open>TcpNewReno\<close>.\<close>

interpretation plain: reno_subclass_total f "reno_ss id" "reno_ca id" "newreno_ok f" for f
proof
  fix s s' :: tcp_newreno and tcb n tcb' n'
  show "newreno_ok f s \<Longrightarrow> reno_ss id s tcb n = Some (s', tcb', n') \<Longrightarrow> newreno_ok f s'"
    and "newreno_ok f s \<Longrightarrow> reno_ca id s tcb n = Some (s', tcb') \<Longrightarrow> newreno_ok f s'"
    by (auto simp: reno_ss_def reno_ca_def)
  assume ok: "newreno_ok f s" and r: "ample f tcb n"
  show "\<exists>r. reno_ss id s tcb n = Some r" "\<exists>r. reno_ca id s tcb n = Some r"
    using newreno_SlowStart_room [OF ok r] newreno_CongestionAvoidance_room [OF ok r] by (auto simp: reno_ss_def reno_ca_def)
  show "reno_ss id s tcb n = Some (s', tcb', n') \<Longrightarrow> \<exists>k. grown tcb (f * k) tcb' \<and> k + unat n' \<le> unat n"
    using newreno_SlowStart_room [OF ok r] by (auto simp: reno_ss_def)
  show "reno_ca id s tcb n = Some (s', tcb') \<Longrightarrow> grown tcb (f * (unat n + 1)) tcb'"
    using newreno_CongestionAvoidance_room [OF ok r] by (auto simp: reno_ca_def)
qed

interpretation newreno: window_increase_total f newreno_inc "newreno_ok f" for f
  unfolding newreno_is_virtual by (rule plain.window_increase_total_axioms)

lemma newreno_IncreaseWindow_room:
  assumes "newreno_ok f nr" "ample f tcb n"
  shows "\<exists>tcb'. newreno_IncreaseWindow nr tcb n = Some tcb' \<and> grown tcb (f * (unat n + 1)) tcb'"
  using newreno.inc_returns [OF assms] newreno.inc_grown [OF assms] by (auto simp: newreno_inc_def)

section \<open>Scalable\<close>

record tcp_scalable =
  sc_newreno :: tcp_newreno
  m_ackCnt :: uint32
  m_aiFactor :: uint32
  m_mdFactor :: double

text \<open>The default attributes.\<close>

definition new_scalable :: "tcp_newreno \<Rightarrow> tcp_scalable" where
  "new_scalable nr = \<lparr>sc_newreno = nr, m_ackCnt = 0, m_aiFactor = 50, m_mdFactor = Fin (1 / 8)\<rparr>"

definition scalable_copy :: "tcp_newreno \<Rightarrow> tcp_scalable \<Rightarrow> tcp_scalable" where
  "scalable_copy raw sock = sock\<lparr>sc_newreno := newreno_copy raw (sc_newreno sock)\<rparr>"

text \<open>\<open>if (segCwnd != oldCwnd) { tcb->m_cWnd = segCwnd * tcb->m_segmentSize; }\<close>\<close>

definition set_segments :: "uint32 \<Rightarrow> uint32 \<Rightarrow> tcb \<Rightarrow> tcb" where
  "set_segments oldCwnd segCwnd tcb =
     (if segCwnd \<noteq> oldCwnd then tcb\<lparr>m_cWnd := segCwnd * m_segmentSize tcb\<rparr> else tcb)"

definition scalable_CongestionAvoidance :: "tcp_scalable increase" where
  "scalable_CongestionAvoidance s tcb segmentsAcked = do {
     segCwnd \<leftarrow> GetCwndInSegments tcb;
     ns_assert (segCwnd \<ge> 1);
     let oldCwnd = segCwnd;
     let w = min segCwnd (m_aiFactor s);
     let (s, segCwnd) = (if m_ackCnt s \<ge> w then (s\<lparr>m_ackCnt := 0\<rparr>, segCwnd + 1) else (s, segCwnd));
     let s = s\<lparr>m_ackCnt := m_ackCnt s + segmentsAcked\<rparr>;
     (s, segCwnd) \<leftarrow>
       (if m_ackCnt s \<ge> w then do {
          delta \<leftarrow> udiv32 (m_ackCnt s) w;
          Some (s\<lparr>m_ackCnt := 0\<rparr>, segCwnd + delta)
        } else Some (s, segCwnd));
     Some (s, set_segments oldCwnd segCwnd tcb)
   }"

definition scalable_IncreaseWindow :: "tcp_scalable increase" where
  "scalable_IncreaseWindow = virtual_IncreaseWindow (reno_ss sc_newreno) scalable_CongestionAvoidance"

definition scalable_GetSsThresh :: "tcp_scalable \<Rightarrow> tcb \<Rightarrow> uint32 \<Rightarrow> uint32 option" where
  "scalable_GetSsThresh s tcb bytesInFlight = do {
     segCwnd \<leftarrow> udiv32 bytesInFlight (m_segmentSize tcb);
     let b = d_sub (Fin 1) (m_mdFactor s);
     ssThresh \<leftarrow> to_u32 (d_max (Fin 2) (d_mul (of_u32 segCwnd) b));
     Some (ssThresh * m_segmentSize tcb)
   }"

definition scalable_ok :: "nat \<Rightarrow> tcp_scalable \<Rightarrow> bool" where
  "scalable_ok f s \<longleftrightarrow> newreno_ok f (sc_newreno s) \<and> m_aiFactor s \<noteq> 0"

text \<open>The segments that congestion avoidance adds.\<close>

definition scalable_steps :: "nat \<Rightarrow> nat \<Rightarrow> nat \<Rightarrow> nat" where
  "scalable_steps w cnt n = (if w \<le> cnt then 1 + n div w else (cnt + n) div w)"

lemma scalable_steps_bound: "1 \<le> w \<Longrightarrow> scalable_steps w cnt n \<le> n + 1"
  using linuxreno_step_bound [of cnt w n] by (auto simp: scalable_steps_def intro: le_SucI)

lemma set_segments_grown:
  assumes "1 \<le> mss tcb" "cwnd tcb + k * mss tcb < 2 ^ 32"
  shows "grown tcb k (set_segments (m_cWnd tcb div m_segmentSize tcb) (m_cWnd tcb div m_segmentSize tcb + of_nat k) tcb)"
proof (cases "k = 0")
  case False
  have le: "cwnd tcb div mss tcb * mss tcb \<le> cwnd tcb" by simp
  have lt: "cwnd tcb < (cwnd tcb div mss tcb + 1) * mss tcb" using assms(1) dividend_less_div_times [of "mss tcb" "cwnd tcb"] by simp
  have k: "mss tcb \<le> k * mss tcb" using False mult_le_mono1 [of 1 k "mss tcb"] by simp
  let ?w = "(cwnd tcb div mss tcb + k) * mss tcb"
  have b: "cwnd tcb \<le> ?w" "?w \<le> cwnd tcb + k * mss tcb" using le lt k unfolding add_mult_distrib by linarith+
  have kb: "k < 2 ^ 32" using assms(2) mult_le_mono2 [OF assms(1), of k] by linarith
  then have ne: "m_cWnd tcb div m_segmentSize tcb + of_nat k \<noteq> m_cWnd tcb div m_segmentSize tcb"
    using False unat_of_nat32 [of k] by (metis add_cancel_right_right unat_0)
  have "(m_cWnd tcb div m_segmentSize tcb + of_nat k) * m_segmentSize tcb = of_nat ?w"
    by (simp add: unat_div [symmetric])
  then have "set_segments (m_cWnd tcb div m_segmentSize tcb) (m_cWnd tcb div m_segmentSize tcb + of_nat k) tcb
      = tcb\<lparr>m_cWnd := of_nat ?w\<rparr>" using ne by (simp add: set_segments_def)
  then show ?thesis using b assms(2) by (simp only: grown_update)
qed (simp add: set_segments_def grown_refl)

lemma room_segments: "room tcb n \<Longrightarrow> 1 \<le> unat (m_cWnd tcb div m_segmentSize tcb)"
  using div_le_mono [of "mss tcb" "cwnd tcb" "mss tcb"] by (simp add: room_def unat_div)

lemma grown_factor: "ample f tcb n \<Longrightarrow> grown tcb (1 * (unat m + 1)) tcb' \<Longrightarrow> grown tcb (f * (unat m + 1)) tcb'"
  by (rule grown_weaken, assumption, intro mult_le_mono1) (simp add: ample_def)

lemma scalable_CongestionAvoidance_steps:
  assumes "scalable_ok f s" "room tcb n"
  defines "q \<equiv> m_cWnd tcb div m_segmentSize tcb"
  defines "w \<equiv> min q (m_aiFactor s)"
  shows "\<exists>s'. scalable_CongestionAvoidance s tcb n =
      Some (s', set_segments q (q + of_nat (scalable_steps (unat w) (unat (m_ackCnt s)) (unat n))) tcb) \<and> scalable_ok f s'"
proof -
  note nz = room_nonzero [OF assms(2)]
  have qn: "unat q = cwnd tcb div mss tcb" by (simp add: q_def unat_div)
  have q: "1 \<le> unat q" unfolding q_def by (rule room_segments [OF assms(2)])
  have q1: "1 \<le> q" using q by (simp add: word_le_nat_alt)
  have w0: "w \<noteq> 0" using q assms(1) by (auto simp: w_def min_def scalable_ok_def)
  have w: "1 \<le> unat w" using w0 by (simp add: unat_gt_0 Suc_le_eq)
  have "w \<le> q" by (simp add: w_def)
  then have wc: "unat w \<le> cwnd tcb" by (metis div_le_dividend order_trans qn word_le_nat_alt)
  define c where "c = (if w \<le> m_ackCnt s then 0 else m_ackCnt s)"
  have cw: "unat c < unat w" using w by (auto simp: c_def word_le_nat_alt not_le)
  have "cwnd tcb + unat n \<le> cwnd tcb + (unat n + 1) * mss tcb"
    using assms(2) mult_le_mono2 [of 1 "mss tcb" "unat n"] by (simp add: room_def trans_le_add2)
  then have sum: "unat (c + n) = unat c + unat n"
    using assms(2) wc cw by (intro unat_plus32) (simp add: room_def)
  define k :: uint32 where "k = (if w \<le> m_ackCnt s then 1 else 0) + (if w \<le> c + n then (c + n) div w else 0)"
  have d: "(if w \<le> c + n then (c + n) div w else 0) = of_nat ((unat c + unat n) div unat w)"
    using sum by (simp add: unat_div [symmetric] sum [symmetric] div_word_less not_le)
  have k: "k = of_nat (scalable_steps (unat w) (unat (m_ackCnt s)) (unat n))"
    unfolding k_def d by (simp add: c_def scalable_steps_def word_le_nat_alt)
  have "\<exists>s'. scalable_CongestionAvoidance s tcb n = Some (s', set_segments q (q + k) tcb) \<and> scalable_ok f s'"
    using nz q1 w0 assms(1)
    by (simp add: scalable_CongestionAvoidance_def GetCwndInSegments_def udiv32_def q_def [symmetric] w_def [symmetric]
        k_def c_def scalable_ok_def Let_def add_ac)
  then show ?thesis by (simp only: k)
qed

interpretation scalable: reno_subclass_total f "reno_ss sc_newreno" scalable_CongestionAvoidance "scalable_ok f" for f
proof
  fix s s' :: tcp_scalable and tcb tcb' :: tcb and n n' :: uint32
  let ?q = "m_cWnd tcb div m_segmentSize tcb" and ?ai = "m_aiFactor s"
  let ?k = "scalable_steps (unat (min ?q ?ai)) (unat (m_ackCnt s)) (unat n)"
  show "scalable_ok f s \<Longrightarrow> reno_ss sc_newreno s tcb n = Some (s', tcb', n') \<Longrightarrow> scalable_ok f s'"
    by (auto simp: reno_ss_def)
  show "scalable_ok f s \<Longrightarrow> scalable_CongestionAvoidance s tcb n = Some (s', tcb') \<Longrightarrow> scalable_ok f s'"
    by (auto simp: scalable_CongestionAvoidance_def bind_eq_Some_conv scalable_ok_def Let_def split: if_splits)
  assume ok: "scalable_ok f s" and a: "ample f tcb n"
  note r = ample_room [OF a]
  have ok0: "newreno_ok f (sc_newreno s)" using ok by (simp add: scalable_ok_def)
  note ca = scalable_CongestionAvoidance_steps [OF ok r]
  show "\<exists>r. reno_ss sc_newreno s tcb n = Some r" "\<exists>r. scalable_CongestionAvoidance s tcb n = Some r"
    using newreno_SlowStart_room [OF ok0 a] ca by (auto simp: reno_ss_def)
  show "reno_ss sc_newreno s tcb n = Some (s', tcb', n') \<Longrightarrow> \<exists>k. grown tcb (f * k) tcb' \<and> k + unat n' \<le> unat n"
    using newreno_SlowStart_room [OF ok0 a] by (auto simp: reno_ss_def)
  have "min ?q ?ai \<noteq> 0" using ok room_segments [OF r] by (auto simp: min_def scalable_ok_def)
  then have "?k \<le> unat n + 1" by (intro scalable_steps_bound) (simp add: unat_gt_0 Suc_le_eq)
  moreover from this have "?k * mss tcb \<le> (unat n + 1) * mss tcb" by (rule mult_le_mono1)
  ultimately have "grown tcb (1 * (unat n + 1)) (set_segments ?q (?q + of_nat ?k) tcb)"
    using r by (intro grown_weaken [OF set_segments_grown]) (simp_all add: room_def)
  then show "scalable_CongestionAvoidance s tcb n = Some (s', tcb') \<Longrightarrow> grown tcb (f * (unat n + 1)) tcb'"
    using ca grown_factor [OF a] by auto
qed

end
