(* ===== verification/Cubic.thy ===== *)
theory Cubic
  imports CongOps
begin

text \<open>
  \<open>TcpCubic\<close> (\<open>tcp-cubic.cc\<close>), with its hybrid slow start. \<open>std::pow\<close>, whose rounding C++ leaves to
  the platform, and \<open>Time::GetSeconds\<close> are the parameters \<open>pw\<close> and \<open>secs\<close>; \<open>now\<close> is
  \<open>Simulator::Now()\<close>. The members that \<open>TcpCubic\<close> shares with \<open>TcpComposite\<close> are a record of their
  own, which the two classes extend.
\<close>

section \<open>State\<close>

datatype HybridSSDetectionMode = PACKET_TRAIN | DELAY | BOTH

record cubic_base =
  m_fastConvergence :: bool
  m_tcpFriendliness :: bool
  m_hystart :: bool
  m_hystartDetect :: HybridSSDetectionMode
  m_hystartLowWindow :: uint32
  m_hystartAckDelta :: time
  m_hystartDelayMin :: time
  m_hystartDelayMax :: time
  m_hystartMinSamples :: uint8
  m_cntClamp :: uint8
  m_cWndCnt :: uint32
  m_lastMaxCwnd :: uint32
  m_bicOriginPoint :: uint32
  m_bicK :: double
  m_delayMin :: time
  m_epochStart :: time
  m_found :: bool
  m_roundStart :: time
  m_endSeq :: seq32
  m_lastAck :: time
  m_cubicDelta :: time
  m_currRtt :: time
  m_sampleCnt :: uint32
  m_ackCnt :: uint32
  m_tcpCwnd :: uint32

record tcp_cubic = cubic_base +
  m_beta :: double
  m_c :: double

section \<open>Operations\<close>

definition cubic_HystartReset :: "time \<Rightarrow> tcp_cubic \<Rightarrow> tcb \<Rightarrow> tcp_cubic" where
  "cubic_HystartReset now c tcb =
     c\<lparr>m_roundStart := now, m_lastAck := now, m_endSeq := m_highTxMark tcb,
       m_currRtt := Time_Min, m_sampleCnt := 0\<rparr>"

definition cubic_epoch :: "(double \<Rightarrow> double \<Rightarrow> double) \<Rightarrow> time \<Rightarrow> tcp_cubic \<Rightarrow> uint32 \<Rightarrow> uint32 \<Rightarrow> tcp_cubic" where
  "cubic_epoch pw now c segCwnd segmentsAcked =
     (let c = c\<lparr>m_epochStart := now, m_ackCnt := segmentsAcked, m_tcpCwnd := segCwnd\<rparr>
      in if m_lastMaxCwnd c \<le> segCwnd
         then c\<lparr>m_bicK := Fin 0, m_bicOriginPoint := segCwnd\<rparr>
         else c\<lparr>m_bicK := pw (d_div (of_u32 (m_lastMaxCwnd c - segCwnd)) (m_c c)) (d_div (Fin 1) (Fin 3)),
                m_bicOriginPoint := m_lastMaxCwnd c\<rparr>)"

text \<open>\<open>while (m_ackCnt > delta) { m_ackCnt -= delta; m_tcpCwnd++; }\<close>\<close>

partial_function (option) friendly_loop :: "uint32 \<Rightarrow> uint32 \<Rightarrow> uint32 \<Rightarrow> (uint32 \<times> uint32) option" where
  "friendly_loop delta ackCnt tcpCwnd =
     (if ackCnt > delta then friendly_loop delta (ackCnt - delta) (tcpCwnd + 1) else Some (ackCnt, tcpCwnd))"

declare friendly_loop.simps [code]

definition cubic_scale :: "double \<Rightarrow> uint32 option" where
  "cubic_scale beta =
     to_u32 (d_div (d_div (d_mul (Fin 8) (d_add (Fin 1024) (d_mul beta (Fin 1024)))) (Fin 3))
       (d_sub (Fin 1024) (d_mul beta (Fin 1024))))"

definition cubic_friendly :: "tcp_cubic \<Rightarrow> uint32 \<Rightarrow> uint32 \<Rightarrow> (tcp_cubic \<times> uint32) option" where
  "cubic_friendly c segCwnd cnt = do {
     scale \<leftarrow> cubic_scale (m_beta c);
     let delta = drop_bit 3 (segCwnd * scale);
     (ackCnt, tcpCwnd) \<leftarrow> friendly_loop delta (m_ackCnt c) (m_tcpCwnd c);
     let c = c\<lparr>m_ackCnt := ackCnt, m_tcpCwnd := tcpCwnd\<rparr>;
     Some (c, if m_tcpCwnd c > segCwnd then
                let maxCnt = segCwnd div (m_tcpCwnd c - segCwnd) in if cnt > maxCnt then maxCnt else cnt
              else cnt)
   }"

definition cubic_Update :: "(double \<Rightarrow> double \<Rightarrow> double) \<Rightarrow> (time \<Rightarrow> double) \<Rightarrow> time \<Rightarrow>
    tcp_cubic \<Rightarrow> tcb \<Rightarrow> uint32 \<Rightarrow> (tcp_cubic \<times> uint32) option" where
  "cubic_Update pw secs now c tcb segmentsAcked = do {
     segCwnd \<leftarrow> GetCwndInSegments tcb;
     let c = c\<lparr>m_ackCnt := m_ackCnt c + segmentsAcked\<rparr>;
     let c = (if m_epochStart c = Time_Min then cubic_epoch pw now c segCwnd segmentsAcked else c);
     t \<leftarrow> t_add now (m_delayMin c);
     t \<leftarrow> t_sub t (m_epochStart c);
     let offs = (if d_less (secs t) (m_bicK c) then d_sub (m_bicK c) (secs t) else d_sub (secs t) (m_bicK c));
     delta \<leftarrow> to_u32 (d_mul (m_c c) (pw offs (Fin 3)));
     let bicTarget = (if d_less (secs t) (m_bicK c) then m_bicOriginPoint c - delta else m_bicOriginPoint c + delta);
     let cnt = (if bicTarget > segCwnd then segCwnd div (bicTarget - segCwnd) else 100 * segCwnd);
     let cnt = (if m_lastMaxCwnd c = 0 \<and> cnt > ucast (m_cntClamp c) then ucast (m_cntClamp c) else cnt);
     (c, cnt) \<leftarrow> (if m_tcpFriendliness c then cubic_friendly c segCwnd cnt else Some (c, cnt));
     Some (c, max cnt 2)
   }"

definition cubic_IncreaseWindow :: "(double \<Rightarrow> double \<Rightarrow> double) \<Rightarrow> (time \<Rightarrow> double) \<Rightarrow> time \<Rightarrow>
    tcp_cubic \<Rightarrow> tcb \<Rightarrow> uint32 \<Rightarrow> (tcp_cubic \<times> tcb) option" where
  "cubic_IncreaseWindow pw secs now c tcb segmentsAcked = do {
     let (c, tcb, segmentsAcked) =
       (if m_cWnd tcb < m_ssThresh tcb then
          (if m_hystart c \<and> seq_gt (m_lastAckedSeq tcb) (m_endSeq c) then cubic_HystartReset now c tcb else c,
           tcb\<lparr>m_cWnd := m_cWnd tcb + segmentsAcked * m_segmentSize tcb\<rparr>, 0)
        else (c, tcb, segmentsAcked));
     (if m_cWnd tcb \<ge> m_ssThresh tcb \<and> segmentsAcked > 0 then do {
        let c = c\<lparr>m_cWndCnt := m_cWndCnt c + segmentsAcked\<rparr>;
        (c, cnt) \<leftarrow> cubic_Update pw secs now c tcb segmentsAcked;
        Some (if m_cWndCnt c \<ge> cnt
              then (c\<lparr>m_cWndCnt := m_cWndCnt c - cnt\<rparr>, tcb\<lparr>m_cWnd := m_cWnd tcb + m_segmentSize tcb\<rparr>)
              else (c, tcb))
      } else Some (c, tcb))
   }"

definition cubic_HystartDelayThresh :: "tcp_cubic \<Rightarrow> time \<Rightarrow> time" where
  "cubic_HystartDelayThresh c t =
     (if t > m_hystartDelayMax c then m_hystartDelayMax c
      else if t < m_hystartDelayMin c then m_hystartDelayMin c else t)"

definition cubic_HystartUpdate :: "time \<Rightarrow> tcp_cubic \<Rightarrow> tcb \<Rightarrow> time \<Rightarrow> (tcp_cubic \<times> tcb) option" where
  "cubic_HystartUpdate now c tcb delay =
     (if \<not> m_found c then do {
        gap \<leftarrow> t_sub now (m_lastAck c);
        c \<leftarrow> (if gap \<le> m_hystartAckDelta c then do {
               let c = c\<lparr>m_lastAck := now\<rparr>;
               len \<leftarrow> t_sub now (m_roundStart c);
               Some (if len > m_delayMin c \<and> (m_hystartDetect c = PACKET_TRAIN \<or> m_hystartDetect c = BOTH)
                     then c\<lparr>m_found := True\<rparr> else c)
             } else Some c);
        c \<leftarrow> (if m_sampleCnt c < ucast (m_hystartMinSamples c) then
               let c = (if m_currRtt c = Time_Min \<or> m_currRtt c > delay then c\<lparr>m_currRtt := delay\<rparr> else c)
               in Some (c\<lparr>m_sampleCnt := m_sampleCnt c + 1\<rparr>)
             else do {
               bound \<leftarrow> t_add (m_delayMin c) (cubic_HystartDelayThresh c (m_delayMin c));
               Some (if m_currRtt c > bound \<and> (m_hystartDetect c = DELAY \<or> m_hystartDetect c = BOTH)
                     then c\<lparr>m_found := True\<rparr> else c)
             });
        Some (c, if m_found c then tcb\<lparr>m_ssThresh := m_cWnd tcb\<rparr> else tcb)
      } else Some (c, tcb))"

definition cubic_PktsAcked :: "time \<Rightarrow> tcp_cubic \<Rightarrow> tcb \<Rightarrow> time \<Rightarrow> (tcp_cubic \<times> tcb) option" where
  "cubic_PktsAcked now c tcb rtt = do {
     discard \<leftarrow> (if m_epochStart c \<noteq> Time_Min
                 then do { age \<leftarrow> t_sub now (m_epochStart c); Some (age < m_cubicDelta c) } else Some False);
     (if discard then Some (c, tcb)
      else let c = (if m_delayMin c = Time_Min \<or> m_delayMin c > rtt then c\<lparr>m_delayMin := rtt\<rparr> else c)
           in if m_hystart c \<and> m_cWnd tcb \<le> m_ssThresh tcb \<and> m_cWnd tcb \<ge> m_hystartLowWindow c * m_segmentSize tcb
              then cubic_HystartUpdate now c tcb rtt
              else Some (c, tcb))
   }"

definition cubic_GetSsThresh :: "tcp_cubic \<Rightarrow> tcb \<Rightarrow> uint32 \<Rightarrow> (tcp_cubic \<times> uint32) option" where
  "cubic_GetSsThresh c tcb bytesInFlight = do {
     segCwnd \<leftarrow> GetCwndInSegments tcb;
     lastMax \<leftarrow> (if segCwnd < m_lastMaxCwnd c \<and> m_fastConvergence c
                 then to_u32 (d_div (d_mul (of_u32 segCwnd) (d_add (Fin 1) (m_beta c))) (Fin 2))
                 else Some segCwnd);
     let c = c\<lparr>m_lastMaxCwnd := lastMax, m_epochStart := Time_Min\<rparr>;
     n \<leftarrow> to_u32 (d_mul (of_u32 segCwnd) (m_beta c));
     Some (c, max n 2 * m_segmentSize tcb)
   }"

definition cubic_CubicReset :: "tcp_cubic \<Rightarrow> tcp_cubic" where
  "cubic_CubicReset c =
     c\<lparr>m_lastMaxCwnd := 0, m_bicOriginPoint := 0, m_bicK := Fin 0, m_ackCnt := 0, m_tcpCwnd := 0,
       m_delayMin := Time_Min, m_found := False\<rparr>"

definition cubic_CongestionStateSet :: "time \<Rightarrow> tcp_cubic \<Rightarrow> tcb \<Rightarrow> TcpCongState \<Rightarrow> tcp_cubic" where
  "cubic_CongestionStateSet now c tcb newState =
     (if newState = CA_LOSS then cubic_HystartReset now (cubic_CubicReset c) tcb else c)"

text \<open>
  The copy constructor, called by \<open>Fork\<close>. The members it does not name keep what the memory holds,
  which is the argument \<open>raw\<close>.
\<close>

definition cubic_copy :: "tcp_cubic \<Rightarrow> tcp_cubic \<Rightarrow> tcp_cubic" where
  "cubic_copy raw sock =
     sock\<lparr>m_tcpFriendliness := m_tcpFriendliness raw, m_ackCnt := m_ackCnt raw, m_tcpCwnd := m_tcpCwnd raw\<rparr>"

section \<open>The loop of the friendliness heuristic\<close>

lemma friendly_loop_steps:
  assumes "0 < delta"
  shows "friendly_loop delta ackCnt tcpCwnd =
    (let k = (unat ackCnt - 1) div unat delta in Some (ackCnt - of_nat k * delta, tcpCwnd + of_nat k))"
  using assms
proof (induction "unat ackCnt" arbitrary: ackCnt tcpCwnd rule: less_induct)
  case less
  have d: "0 < unat delta" using less.prems by (simp add: word_less_nat_alt)
  show ?case
  proof (cases "delta < ackCnt")
    case True
    then have u: "unat delta < unat ackCnt" "unat (ackCnt - delta) = unat ackCnt - unat delta"
      by (simp_all add: word_less_nat_alt unat_minus32)
    then have "unat ackCnt - 1 = unat (ackCnt - delta) - 1 + unat delta" by simp
    then have k: "(unat ackCnt - 1) div unat delta = Suc ((unat (ackCnt - delta) - 1) div unat delta)"
      using d by (simp del: diff_is_0_eq)
    have "friendly_loop delta ackCnt tcpCwnd = friendly_loop delta (ackCnt - delta) (tcpCwnd + 1)"
      using True by (subst friendly_loop.simps) simp
    also have "\<dots> = (let k = (unat (ackCnt - delta) - 1) div unat delta in Some (ackCnt - delta - of_nat k * delta, tcpCwnd + 1 + of_nat k))"
      using less.hyps [of "ackCnt - delta"] u d less.prems by simp
    finally show ?thesis unfolding k Let_def of_nat_Suc by (simp add: algebra_simps)
  next
    case False
    then have "(unat ackCnt - 1) div unat delta = 0" using d by (auto simp: word_less_nat_alt not_less)
    then show ?thesis using False by (subst friendly_loop.simps) (simp add: Let_def)
  qed
qed

lemma friendly_loop_stuck:
  assumes "0 < ackCnt" shows "friendly_loop 0 ackCnt tcpCwnd = None"
proof -
  have "delta = 0 \<longrightarrow> a = 0" if "friendly_loop delta a w = Some r" for delta a w r
  proof (rule friendly_loop.raw_induct [where P = "\<lambda>delta a w r. delta = 0 \<longrightarrow> a = 0", OF _ that])
    fix f and delta a w :: uint32 and r :: "uint32 \<times> uint32"
    assume IH: "\<And>delta a w r. f delta a w = Some r \<Longrightarrow> delta = 0 \<longrightarrow> a = 0"
      and body: "(if delta < a then f delta (a - delta) (w + 1) else Some (a, w)) = Some r"
    show "delta = 0 \<longrightarrow> a = 0"
    proof
      assume "delta = 0"
      with body IH [of 0 a "w + 1" r] show "a = 0" by (cases "0 < a") (simp_all add: word_neq_0_conv [symmetric] del: word_neq_0_conv)
    qed
  qed
  with assms show ?thesis by (metis not_None_eq word_neq_0_conv)
qed

section \<open>The contract of the window\<close>

text \<open>The calls of a run are made at the times \<open>clk 0\<close>, \<open>clk 1\<close>, \<open>\<dots>\<close>; the run carries its position.\<close>

definition cubic_timed :: "(double \<Rightarrow> double \<Rightarrow> double) \<Rightarrow> (time \<Rightarrow> double) \<Rightarrow> (nat \<Rightarrow> time) \<Rightarrow> (tcp_cubic \<times> nat) increase" where
  "cubic_timed pw secs clk s tcb acked =
     map_option (\<lambda>(c, tcb). ((c, Suc (snd s)), tcb)) (cubic_IncreaseWindow pw secs (clk (snd s)) (fst s) tcb acked)"

definition cubic_ok :: "tcp_cubic \<times> nat \<Rightarrow> bool" where
  "cubic_ok s \<longleftrightarrow> True"

lemma grown_slow_start:
  assumes "room tcb acked"
  shows "grown tcb (unat acked + 1) (tcb\<lparr>m_cWnd := m_cWnd tcb + acked * m_segmentSize tcb\<rparr>)"
proof -
  have "grown tcb (unat acked + 1) (tcb\<lparr>m_cWnd := of_nat (cwnd tcb + unat acked * mss tcb)\<rparr>)"
    using assms by (intro grown_update) (simp_all add: room_def)
  then show ?thesis by simp
qed

lemma grown_one:
  assumes "room tcb acked"
  shows "grown tcb (unat acked + 1) (tcb\<lparr>m_cWnd := m_cWnd tcb + m_segmentSize tcb\<rparr>)"
proof -
  have "grown tcb (unat acked + 1) (tcb\<lparr>m_cWnd := of_nat (cwnd tcb + mss tcb)\<rparr>)"
    using assms by (intro grown_update) (simp_all add: room_def)
  then show ?thesis by simp
qed

lemma grown_same: "grown tcb n tcb"
  by (simp add: grown_def)

lemma cubic_IncreaseWindow_cases:
  assumes "cubic_IncreaseWindow pw secs now c tcb acked = Some (c', tcb')"
  shows "tcb' = tcb \<or> tcb' = tcb\<lparr>m_cWnd := m_cWnd tcb + acked * m_segmentSize tcb\<rparr> \<or>
    tcb' = tcb\<lparr>m_cWnd := m_cWnd tcb + m_segmentSize tcb\<rparr>"
  using assms unfolding cubic_IncreaseWindow_def Let_def
  by (cases "m_cWnd tcb < m_ssThresh tcb") (auto simp: bind_eq_Some_conv split: if_splits)

interpretation cubic: window_increase 1 "cubic_timed pw secs clk" cubic_ok for pw secs clk
proof
  fix s s' :: "tcp_cubic \<times> nat" and tcb tcb' :: tcb and acked :: uint32
  show "cubic_ok s'" by (simp add: cubic_ok_def)
  assume "ample 1 tcb acked" and "cubic_timed pw secs clk s tcb acked = Some (s', tcb')"
  then have r: "room tcb acked" and "cubic_IncreaseWindow pw secs (clk (snd s)) (fst s) tcb acked = Some (fst s', tcb')"
    by (auto simp: cubic_timed_def ample_room)
  then show "grown tcb (1 * (unat acked + 1)) tcb'"
    using cubic_IncreaseWindow_cases [of pw secs "clk (snd s)" "fst s" tcb acked "fst s'" tcb']
      grown_slow_start [OF r] grown_one [OF r] grown_same by auto
qed

end
