(* ===== verification/Composite.thy ===== *)
theory Composite
  imports Cubic
begin

text \<open>
  \<open>TcpComposite\<close> (\<open>tcp-composite.cc\<close>), the congestion control of this repository: one object
  that runs NewReno or Cubic, chosen by name, and switches to a second policy at a given time. The
  class repeats the code of the two algorithms with the two parameters of the policy in the place
  of their attributes; the definitions follow it statement by statement.
\<close>

section \<open>State\<close>

record tcp_composite = cubic_base +
  m_policyFirst :: string
  m_firstParFirst :: double
  m_secondParFirst :: double
  m_policySecond :: string
  m_firstParSecond :: double
  m_secondParSecond :: double
  m_switchTime :: uint32
  m_policy :: string
  m_firstPar :: double
  m_secondPar :: double
  m_secondCwndDiff :: int

section \<open>Switching the policy\<close>

definition composite_SetPolicy :: "tcp_composite \<Rightarrow> string \<Rightarrow> tcp_composite" where
  "composite_SetPolicy c policy = c\<lparr>m_policy := policy\<rparr>"

definition composite_SetFirstPar :: "tcp_composite \<Rightarrow> double \<Rightarrow> tcp_composite" where
  "composite_SetFirstPar c firstPar = c\<lparr>m_firstPar := firstPar\<rparr>"

definition composite_SetSecondPar :: "tcp_composite \<Rightarrow> double \<Rightarrow> tcp_composite" where
  "composite_SetSecondPar c secondPar = c\<lparr>m_secondPar := secondPar\<rparr>"

text \<open>\<open>diff * tcb->m_segmentSize\<close> is an unsigned product: a negative difference wraps.\<close>

definition composite_ChangeCwnd :: "tcb \<Rightarrow> int \<Rightarrow> tcb" where
  "composite_ChangeCwnd tcb diff = tcb\<lparr>m_cWnd := m_cWnd tcb + of_int diff * m_segmentSize tcb\<rparr>"

definition composite_GetName :: "tcp_composite \<Rightarrow> string" where
  "composite_GetName c = m_policy c"

text \<open>The calls \<open>Init\<close> schedules, all with the delay \<open>m_switchTime\<close> in seconds, in the order it schedules them.\<close>

datatype switch_call = SetPolicy string | SetFirstPar double | SetSecondPar double | ChangeCwnd int

definition composite_Init :: "tcp_composite \<Rightarrow> tcp_composite \<times> (uint32 \<times> switch_call) list" where
  "composite_Init c =
     (let c = composite_SetPolicy c (m_policyFirst c);
          c = composite_SetFirstPar c (m_firstParFirst c);
          c = composite_SetSecondPar c (m_secondParFirst c)
      in (c, [(m_switchTime c, SetPolicy (m_policySecond c)),
              (m_switchTime c, SetFirstPar (m_firstParSecond c)),
              (m_switchTime c, SetSecondPar (m_secondParSecond c)),
              (m_switchTime c, ChangeCwnd (m_secondCwndDiff c))]))"

fun invoke :: "switch_call \<Rightarrow> tcp_composite \<times> tcb \<Rightarrow> tcp_composite \<times> tcb" where
  "invoke (SetPolicy p) (c, tcb) = (composite_SetPolicy c p, tcb)"
| "invoke (SetFirstPar x) (c, tcb) = (composite_SetFirstPar c x, tcb)"
| "invoke (SetSecondPar x) (c, tcb) = (composite_SetSecondPar c x, tcb)"
| "invoke (ChangeCwnd d) (c, tcb) = (c, composite_ChangeCwnd tcb d)"

section \<open>The NewReno part\<close>

definition composite_SlowStart :: "tcp_composite \<Rightarrow> tcb \<Rightarrow> uint32 \<Rightarrow> (tcb \<times> uint32) option" where
  "composite_SlowStart c tcb segmentsAcked =
     (if segmentsAcked \<ge> 1 then do {
        tcb \<leftarrow> cWnd_plus tcb (d_mul (m_firstPar c) (of_u32 (m_segmentSize tcb)));
        Some (tcb, segmentsAcked - 1)
      } else Some (tcb, 0))"

definition composite_CongestionAvoidance :: "tcp_composite \<Rightarrow> tcb \<Rightarrow> uint32 \<Rightarrow> tcb option" where
  "composite_CongestionAvoidance c tcb segmentsAcked =
     (if segmentsAcked > 0 then do {
        let adder = d_div (of_u32 (m_segmentSize tcb * m_segmentSize tcb)) (of_u32 (m_cWnd tcb));
        let adder = d_max (Fin 1) adder;
        n \<leftarrow> to_u32 adder;
        cWnd_plus tcb (d_mul (m_firstPar c) (of_u32 n))
      } else Some tcb)"

section \<open>The Cubic part\<close>

definition composite_HystartReset :: "time \<Rightarrow> tcp_composite \<Rightarrow> tcb \<Rightarrow> tcp_composite" where
  "composite_HystartReset now c tcb =
     c\<lparr>m_roundStart := now, m_lastAck := now, m_endSeq := m_highTxMark tcb,
       m_currRtt := Time_Min, m_sampleCnt := 0\<rparr>"

definition composite_epoch :: "(double \<Rightarrow> double \<Rightarrow> double) \<Rightarrow> time \<Rightarrow> tcp_composite \<Rightarrow> uint32 \<Rightarrow> uint32 \<Rightarrow> tcp_composite" where
  "composite_epoch pw now c segCwnd segmentsAcked =
     (let c = c\<lparr>m_epochStart := now, m_ackCnt := segmentsAcked, m_tcpCwnd := segCwnd\<rparr>
      in if m_lastMaxCwnd c \<le> segCwnd
         then c\<lparr>m_bicK := Fin 0, m_bicOriginPoint := segCwnd\<rparr>
         else c\<lparr>m_bicK := pw (d_div (of_u32 (m_lastMaxCwnd c - segCwnd)) (m_secondPar c)) (d_div (Fin 1) (Fin 3)),
                m_bicOriginPoint := m_lastMaxCwnd c\<rparr>)"

partial_function (option) composite_loop :: "uint32 \<Rightarrow> uint32 \<Rightarrow> uint32 \<Rightarrow> (uint32 \<times> uint32) option" where
  "composite_loop delta ackCnt tcpCwnd =
     (if ackCnt > delta then composite_loop delta (ackCnt - delta) (tcpCwnd + 1) else Some (ackCnt, tcpCwnd))"

declare composite_loop.simps [code]

definition composite_scale :: "double \<Rightarrow> uint32 option" where
  "composite_scale beta =
     to_u32 (d_div (d_div (d_mul (Fin 8) (d_add (Fin 1024) (d_mul beta (Fin 1024)))) (Fin 3))
       (d_sub (Fin 1024) (d_mul beta (Fin 1024))))"

definition composite_friendly :: "tcp_composite \<Rightarrow> uint32 \<Rightarrow> uint32 \<Rightarrow> (tcp_composite \<times> uint32) option" where
  "composite_friendly c segCwnd cnt = do {
     scale \<leftarrow> composite_scale (m_firstPar c);
     let delta = drop_bit 3 (segCwnd * scale);
     (ackCnt, tcpCwnd) \<leftarrow> composite_loop delta (m_ackCnt c) (m_tcpCwnd c);
     let c = c\<lparr>m_ackCnt := ackCnt, m_tcpCwnd := tcpCwnd\<rparr>;
     Some (c, if m_tcpCwnd c > segCwnd then
                let maxCnt = segCwnd div (m_tcpCwnd c - segCwnd) in if cnt > maxCnt then maxCnt else cnt
              else cnt)
   }"

definition composite_Update :: "(double \<Rightarrow> double \<Rightarrow> double) \<Rightarrow> (time \<Rightarrow> double) \<Rightarrow> time \<Rightarrow>
    tcp_composite \<Rightarrow> tcb \<Rightarrow> uint32 \<Rightarrow> (tcp_composite \<times> uint32) option" where
  "composite_Update pw secs now c tcb segmentsAcked = do {
     segCwnd \<leftarrow> GetCwndInSegments tcb;
     let c = c\<lparr>m_ackCnt := m_ackCnt c + segmentsAcked\<rparr>;
     let c = (if m_epochStart c = Time_Min then composite_epoch pw now c segCwnd segmentsAcked else c);
     t \<leftarrow> t_add now (m_delayMin c);
     t \<leftarrow> t_sub t (m_epochStart c);
     let offs = (if d_less (secs t) (m_bicK c) then d_sub (m_bicK c) (secs t) else d_sub (secs t) (m_bicK c));
     delta \<leftarrow> to_u32 (d_mul (m_secondPar c) (pw offs (Fin 3)));
     let bicTarget = (if d_less (secs t) (m_bicK c) then m_bicOriginPoint c - delta else m_bicOriginPoint c + delta);
     let cnt = (if bicTarget > segCwnd then segCwnd div (bicTarget - segCwnd) else 100 * segCwnd);
     let cnt = (if m_lastMaxCwnd c = 0 \<and> cnt > ucast (m_cntClamp c) then ucast (m_cntClamp c) else cnt);
     (c, cnt) \<leftarrow> (if m_tcpFriendliness c then composite_friendly c segCwnd cnt else Some (c, cnt));
     Some (c, max cnt 2)
   }"

section \<open>The operations of the interface\<close>

definition composite_IncreaseWindow :: "(double \<Rightarrow> double \<Rightarrow> double) \<Rightarrow> (time \<Rightarrow> double) \<Rightarrow> time \<Rightarrow>
    tcp_composite \<Rightarrow> tcb \<Rightarrow> uint32 \<Rightarrow> (tcp_composite \<times> tcb) option" where
  "composite_IncreaseWindow pw secs now c tcb segmentsAcked = do {
     let c = (if m_cWnd tcb < m_ssThresh tcb \<and> m_hystart c \<and> seq_gt (m_lastAckedSeq tcb) (m_endSeq c)
              then composite_HystartReset now c tcb else c);
     (tcb, segmentsAcked) \<leftarrow>
       (if m_policy c = ''TcpNewReno'' then do {
          (tcb, segmentsAcked) \<leftarrow>
            (if m_cWnd tcb < m_ssThresh tcb then composite_SlowStart c tcb segmentsAcked
             else Some (tcb, segmentsAcked));
          tcb \<leftarrow> (if m_cWnd tcb \<ge> m_ssThresh tcb then composite_CongestionAvoidance c tcb segmentsAcked else Some tcb);
          Some (tcb, segmentsAcked)
        } else Some (tcb, segmentsAcked));
     (if m_policy c = ''TcpCubic'' then do {
        let (tcb, segmentsAcked) =
          (if m_cWnd tcb < m_ssThresh tcb
           then (tcb\<lparr>m_cWnd := m_cWnd tcb + segmentsAcked * m_segmentSize tcb\<rparr>, 0)
           else (tcb, segmentsAcked));
        (if m_cWnd tcb \<ge> m_ssThresh tcb \<and> segmentsAcked > 0 then do {
           let c = c\<lparr>m_cWndCnt := m_cWndCnt c + segmentsAcked\<rparr>;
           (c, cnt) \<leftarrow> composite_Update pw secs now c tcb segmentsAcked;
           Some (if m_cWndCnt c \<ge> cnt
                 then (c\<lparr>m_cWndCnt := m_cWndCnt c - cnt\<rparr>, tcb\<lparr>m_cWnd := m_cWnd tcb + m_segmentSize tcb\<rparr>)
                 else (c, tcb))
         } else Some (c, tcb))
      } else Some (c, tcb))
   }"

definition composite_HystartDelayThresh :: "tcp_composite \<Rightarrow> time \<Rightarrow> time" where
  "composite_HystartDelayThresh c t =
     (if t > m_hystartDelayMax c then m_hystartDelayMax c
      else if t < m_hystartDelayMin c then m_hystartDelayMin c else t)"

definition composite_HystartUpdate :: "time \<Rightarrow> tcp_composite \<Rightarrow> tcb \<Rightarrow> time \<Rightarrow> (tcp_composite \<times> tcb) option" where
  "composite_HystartUpdate now c tcb delay =
     (if \<not> m_found c then do {
        gap \<leftarrow> t_sub now (m_lastAck c);
        c \<leftarrow> (if gap \<le> m_hystartAckDelta c then do {
               let c = c\<lparr>m_lastAck := now\<rparr>;
               len \<leftarrow> t_sub now (m_roundStart c);
               Some (if len > m_delayMin c \<and> (m_hystartDetect c = PACKET_TRAIN \<or> m_hystartDetect c = BOTH)
                     then c\<lparr>m_found := True\<rparr> else c)
             } else Some c);
        c \<leftarrow> (if m_sampleCnt c < ucast (m_hystartMinSamples c) then
               let c = (if m_currRtt c = Time_Min \<or> m_currRtt c > delay then c\<lparr>m_currRtt := delay\<rparr> else c)
               in Some (c\<lparr>m_sampleCnt := m_sampleCnt c + 1\<rparr>)
             else do {
               bound \<leftarrow> t_add (m_delayMin c) (composite_HystartDelayThresh c (m_delayMin c));
               Some (if m_currRtt c > bound \<and> (m_hystartDetect c = DELAY \<or> m_hystartDetect c = BOTH)
                     then c\<lparr>m_found := True\<rparr> else c)
             });
        Some (c, if m_found c \<and> m_policy c = ''TcpCubic'' then tcb\<lparr>m_ssThresh := m_cWnd tcb\<rparr> else tcb)
      } else Some (c, tcb))"

definition composite_PktsAcked :: "time \<Rightarrow> tcp_composite \<Rightarrow> tcb \<Rightarrow> time \<Rightarrow> (tcp_composite \<times> tcb) option" where
  "composite_PktsAcked now c tcb rtt = do {
     discard \<leftarrow> (if m_epochStart c \<noteq> Time_Min
                 then do { age \<leftarrow> t_sub now (m_epochStart c); Some (age < m_cubicDelta c) } else Some False);
     (if discard then Some (c, tcb)
      else let c = (if m_delayMin c = Time_Min \<or> m_delayMin c > rtt then c\<lparr>m_delayMin := rtt\<rparr> else c)
           in if m_hystart c \<and> m_cWnd tcb \<le> m_ssThresh tcb \<and> m_cWnd tcb \<ge> m_hystartLowWindow c * m_segmentSize tcb
              then composite_HystartUpdate now c tcb rtt
              else Some (c, tcb))
   }"

definition composite_GetSsThresh :: "tcp_composite \<Rightarrow> tcb \<Rightarrow> uint32 \<Rightarrow> (tcp_composite \<times> uint32) option" where
  "composite_GetSsThresh c tcb bytesInFlight = do {
     segCwnd \<leftarrow> GetCwndInSegments tcb;
     lastMax \<leftarrow> (if segCwnd < m_lastMaxCwnd c \<and> m_fastConvergence c
                 then to_u32 (d_div (d_mul (of_u32 segCwnd) (d_add (Fin 1) (m_firstPar c))) (Fin 2))
                 else Some segCwnd);
     let c = c\<lparr>m_lastMaxCwnd := lastMax, m_epochStart := Time_Min\<rparr>;
     (if m_policy c = ''TcpNewReno'' then do {
        beta \<leftarrow> to_u32 (m_secondPar c);
        half \<leftarrow> udiv32 bytesInFlight beta;
        Some (c, max (2 * m_segmentSize tcb) half)
      }
      else if m_policy c = ''TcpCubic'' then do {
        n \<leftarrow> to_u32 (d_mul (of_u32 segCwnd) (m_firstPar c));
        Some (c, max n 2 * m_segmentSize tcb)
      }
      else Some (c, - 1))
   }"

definition composite_CubicReset :: "tcp_composite \<Rightarrow> tcp_composite" where
  "composite_CubicReset c =
     c\<lparr>m_lastMaxCwnd := 0, m_bicOriginPoint := 0, m_bicK := Fin 0, m_ackCnt := 0, m_tcpCwnd := 0,
       m_delayMin := Time_Min, m_found := False\<rparr>"

definition composite_CongestionStateSet :: "time \<Rightarrow> tcp_composite \<Rightarrow> tcb \<Rightarrow> TcpCongState \<Rightarrow> tcp_composite" where
  "composite_CongestionStateSet now c tcb newState =
     (if newState = CA_LOSS then composite_HystartReset now (composite_CubicReset c) tcb else c)"

text \<open>
  The copy constructor, called by \<open>Fork\<close>. Strings it does not name are empty, the other members it
  does not name keep what the memory holds (\<open>raw\<close>).
\<close>

definition composite_copy :: "tcp_composite \<Rightarrow> tcp_composite \<Rightarrow> tcp_composite" where
  "composite_copy raw sock =
     sock\<lparr>m_tcpFriendliness := m_tcpFriendliness raw, m_ackCnt := m_ackCnt raw, m_tcpCwnd := m_tcpCwnd raw,
       m_policyFirst := [], m_policySecond := [], m_policy := [],
       m_firstParFirst := m_firstParFirst raw, m_secondParFirst := m_secondParFirst raw,
       m_firstParSecond := m_firstParSecond raw, m_secondParSecond := m_secondParSecond raw,
       m_firstPar := m_firstPar raw, m_secondPar := m_secondPar raw,
       m_switchTime := m_switchTime raw, m_secondCwndDiff := m_secondCwndDiff raw\<rparr>"

end
