(* ===== verification/CompositeEq.thy ===== *)
theory CompositeEq
  imports Composite
begin

text \<open>
  \<open>TcpComposite\<close> runs the algorithm its policy names: with the policy \<open>TcpCubic\<close> every operation
  does what \<open>TcpCubic\<close> does with \<open>Beta\<close> and \<open>C\<close> set to the two parameters, and with the policy
  \<open>TcpNewReno\<close> it does to the socket what \<open>TcpNewReno\<close> does.
\<close>

section \<open>The Cubic object inside a composite\<close>

definition cubic_of :: "tcp_composite \<Rightarrow> tcp_cubic" where
  "cubic_of c = cubic_base.extend (cubic_base.truncate c) (tcp_cubic.fields (m_firstPar c) (m_secondPar c))"

lemma cubic_of_select [simp]:
  "m_fastConvergence (cubic_of c) = m_fastConvergence c"
  "m_tcpFriendliness (cubic_of c) = m_tcpFriendliness c"
  "m_hystart (cubic_of c) = m_hystart c"
  "m_hystartDetect (cubic_of c) = m_hystartDetect c"
  "m_hystartLowWindow (cubic_of c) = m_hystartLowWindow c"
  "m_hystartAckDelta (cubic_of c) = m_hystartAckDelta c"
  "m_hystartDelayMin (cubic_of c) = m_hystartDelayMin c"
  "m_hystartDelayMax (cubic_of c) = m_hystartDelayMax c"
  "m_hystartMinSamples (cubic_of c) = m_hystartMinSamples c"
  "m_cntClamp (cubic_of c) = m_cntClamp c"
  "m_cWndCnt (cubic_of c) = m_cWndCnt c"
  "m_lastMaxCwnd (cubic_of c) = m_lastMaxCwnd c"
  "m_bicOriginPoint (cubic_of c) = m_bicOriginPoint c"
  "m_bicK (cubic_of c) = m_bicK c"
  "m_delayMin (cubic_of c) = m_delayMin c"
  "m_epochStart (cubic_of c) = m_epochStart c"
  "m_found (cubic_of c) = m_found c"
  "m_roundStart (cubic_of c) = m_roundStart c"
  "m_endSeq (cubic_of c) = m_endSeq c"
  "m_lastAck (cubic_of c) = m_lastAck c"
  "m_cubicDelta (cubic_of c) = m_cubicDelta c"
  "m_currRtt (cubic_of c) = m_currRtt c"
  "m_sampleCnt (cubic_of c) = m_sampleCnt c"
  "m_ackCnt (cubic_of c) = m_ackCnt c"
  "m_tcpCwnd (cubic_of c) = m_tcpCwnd c"
  "m_beta (cubic_of c) = m_firstPar c"
  "m_c (cubic_of c) = m_secondPar c"
  by (simp_all add: cubic_of_def cubic_base.defs tcp_cubic.defs)

lemma cubic_of_update [simp]:
  "(cubic_of c)\<lparr>m_cWndCnt := x0\<rparr> = cubic_of (c\<lparr>m_cWndCnt := x0\<rparr>)"
  "(cubic_of c)\<lparr>m_lastMaxCwnd := x1\<rparr> = cubic_of (c\<lparr>m_lastMaxCwnd := x1\<rparr>)"
  "(cubic_of c)\<lparr>m_bicOriginPoint := x2\<rparr> = cubic_of (c\<lparr>m_bicOriginPoint := x2\<rparr>)"
  "(cubic_of c)\<lparr>m_bicK := x3\<rparr> = cubic_of (c\<lparr>m_bicK := x3\<rparr>)"
  "(cubic_of c)\<lparr>m_delayMin := x4\<rparr> = cubic_of (c\<lparr>m_delayMin := x4\<rparr>)"
  "(cubic_of c)\<lparr>m_epochStart := x5\<rparr> = cubic_of (c\<lparr>m_epochStart := x5\<rparr>)"
  "(cubic_of c)\<lparr>m_found := x6\<rparr> = cubic_of (c\<lparr>m_found := x6\<rparr>)"
  "(cubic_of c)\<lparr>m_roundStart := x7\<rparr> = cubic_of (c\<lparr>m_roundStart := x7\<rparr>)"
  "(cubic_of c)\<lparr>m_endSeq := x8\<rparr> = cubic_of (c\<lparr>m_endSeq := x8\<rparr>)"
  "(cubic_of c)\<lparr>m_lastAck := x9\<rparr> = cubic_of (c\<lparr>m_lastAck := x9\<rparr>)"
  "(cubic_of c)\<lparr>m_currRtt := x10\<rparr> = cubic_of (c\<lparr>m_currRtt := x10\<rparr>)"
  "(cubic_of c)\<lparr>m_sampleCnt := x11\<rparr> = cubic_of (c\<lparr>m_sampleCnt := x11\<rparr>)"
  "(cubic_of c)\<lparr>m_ackCnt := x12\<rparr> = cubic_of (c\<lparr>m_ackCnt := x12\<rparr>)"
  "(cubic_of c)\<lparr>m_tcpCwnd := x13\<rparr> = cubic_of (c\<lparr>m_tcpCwnd := x13\<rparr>)"
  by (simp_all add: cubic_of_def cubic_base.defs tcp_cubic.defs)

lemma composite_loop_eq: "composite_loop delta a w = friendly_loop delta a w"
proof -
  have 1: "composite_loop delta a w = Some r" if "friendly_loop delta a w = Some r" for delta a w r
    by (rule friendly_loop.raw_induct [where P = "\<lambda>delta a w r. composite_loop delta a w = Some r", OF _ that],
        subst composite_loop.simps) (simp split: if_splits)
  have 2: "friendly_loop delta a w = Some r" if "composite_loop delta a w = Some r" for delta a w r
    by (rule composite_loop.raw_induct [where P = "\<lambda>delta a w r. friendly_loop delta a w = Some r", OF _ that],
        subst friendly_loop.simps) (simp split: if_splits)
  show ?thesis using 1 2 by (metis not_None_eq)
qed

lemma composite_scale_eq: "composite_scale beta = cubic_scale beta"
  by (simp add: composite_scale_def cubic_scale_def)

lemma HystartReset_eq [simp]: "cubic_HystartReset now (cubic_of c) tcb = cubic_of (composite_HystartReset now c tcb)"
  by (simp add: cubic_HystartReset_def composite_HystartReset_def)

lemma CubicReset_eq [simp]: "cubic_CubicReset (cubic_of c) = cubic_of (composite_CubicReset c)"
  by (simp add: cubic_CubicReset_def composite_CubicReset_def)

lemma epoch_eq [simp]: "cubic_epoch pw now (cubic_of c) s a = cubic_of (composite_epoch pw now c s a)"
  by (simp add: cubic_epoch_def composite_epoch_def Let_def)

lemma DelayThresh_eq [simp]: "cubic_HystartDelayThresh (cubic_of c) t = composite_HystartDelayThresh c t"
  by (simp add: cubic_HystartDelayThresh_def composite_HystartDelayThresh_def)

abbreviation on_fst :: "('a \<Rightarrow> 'b) \<Rightarrow> ('a \<times> 'c) option \<Rightarrow> ('b \<times> 'c) option" where
  "on_fst f \<equiv> map_option (map_prod f id)"

text \<open>
  The bodies of the two classes are compared statement by statement: \<open>let\<close> and \<open>bind\<close> of both sides
  are taken off together, with \<open>cubic_of\<close> between the objects.
\<close>

lemma map_option_Let: "map_option f (Let x g) = Let x (\<lambda>x. map_option f (g x))"
  by (simp add: Let_def)

lemma map_option_case_prod: "map_option f (case x of (a, b) \<Rightarrow> g a b) = (case x of (a, b) \<Rightarrow> map_option f (g a b))"
  by (simp split: prod.split)

lemma map_option_if: "map_option f (if b then x else y) = (if b then map_option f x else map_option f y)"
  by simp

lemmas push_on_fst = map_option_Let map_option_case_prod map_option_if Option.map_option_bind comp_def

lemma let_of: "x = cubic_of y \<Longrightarrow> (\<And>z. f (cubic_of z) = g z) \<Longrightarrow> Let x f = Let y g"
  by (simp add: Let_def)

lemma let_same: "x = y \<Longrightarrow> (\<And>z. f z = g z) \<Longrightarrow> Let x f = Let y g"
  by (simp add: Let_def)

lemma bind_of: "x = map_option cubic_of y \<Longrightarrow> (\<And>c. f (cubic_of c) = g c) \<Longrightarrow> x \<bind> f = y \<bind> g"
  by (cases y) simp_all

lemma bind_pair_of: "x = on_fst cubic_of y \<Longrightarrow> (\<And>c n. f (cubic_of c, n) = g (c, n)) \<Longrightarrow> x \<bind> f = y \<bind> g"
  by (cases y) auto

lemma bind_same: "x = y \<Longrightarrow> (\<And>z. f z = g z) \<Longrightarrow> Option.bind x f = Option.bind y g"
  by (cases y) simp_all

lemma if_of: "b = b' \<Longrightarrow> x = x' \<Longrightarrow> y = y' \<Longrightarrow> (if b then x else y) = (if b' then x' else y')"
  by simp

lemma friendly_eq: "cubic_friendly (cubic_of c) s n = on_fst cubic_of (composite_friendly c s n)"
  unfolding cubic_friendly_def composite_friendly_def composite_loop_eq composite_scale_eq push_on_fst
  by (intro let_of let_same bind_same; simp add: Let_def split: prod.split)

lemma Update_eq: "cubic_Update pw secs now (cubic_of c) tcb a = on_fst cubic_of (composite_Update pw secs now c tcb a)"
  unfolding cubic_Update_def composite_Update_def push_on_fst
  by (intro let_of let_same bind_pair_of bind_same; simp add: friendly_eq)

section \<open>Cubic\<close>

lemma composite_IncreaseWindow_cubic:
  assumes "m_policy c = ''TcpCubic''"
  shows "cubic_IncreaseWindow pw secs now (cubic_of c) tcb acked =
    on_fst cubic_of (composite_IncreaseWindow pw secs now c tcb acked)"
proof (cases "m_cWnd tcb < m_ssThresh tcb")
  case True
  then show ?thesis using assms
    by (simp add: cubic_IncreaseWindow_def composite_IncreaseWindow_def composite_HystartReset_def)
next
  case False
  then have le: "m_ssThresh tcb \<le> m_cWnd tcb" by simp
  have "cubic_IncreaseWindow pw secs now (cubic_of c) tcb acked =
      (if acked > 0 then do {
         let c = (cubic_of c)\<lparr>m_cWndCnt := m_cWndCnt (cubic_of c) + acked\<rparr>;
         (c, cnt) \<leftarrow> cubic_Update pw secs now c tcb acked;
         Some (if m_cWndCnt c \<ge> cnt
               then (c\<lparr>m_cWndCnt := m_cWndCnt c - cnt\<rparr>, tcb\<lparr>m_cWnd := m_cWnd tcb + m_segmentSize tcb\<rparr>)
               else (c, tcb))
       } else Some (cubic_of c, tcb))"
    using False le by (simp add: cubic_IncreaseWindow_def)
  also have "\<dots> = on_fst cubic_of (if acked > 0 then do {
         let c = c\<lparr>m_cWndCnt := m_cWndCnt c + acked\<rparr>;
         (c, cnt) \<leftarrow> composite_Update pw secs now c tcb acked;
         Some (if m_cWndCnt c \<ge> cnt
               then (c\<lparr>m_cWndCnt := m_cWndCnt c - cnt\<rparr>, tcb\<lparr>m_cWnd := m_cWnd tcb + m_segmentSize tcb\<rparr>)
               else (c, tcb))
       } else Some (c, tcb))"
    unfolding push_on_fst by (intro if_of let_of bind_pair_of; simp add: Update_eq)
  also have "\<dots> = on_fst cubic_of (composite_IncreaseWindow pw secs now c tcb acked)"
    using False le assms by (simp add: composite_IncreaseWindow_def)
  finally show ?thesis .
qed

text \<open>The hybrid slow start of the composite acts on the threshold only under the policy \<open>TcpCubic\<close>, which its steps keep.\<close>

lemma let_policy:
  "\<lbrakk>x = cubic_of y; m_policy y = p; \<And>z. m_policy z = p \<Longrightarrow> f (cubic_of z) = g z\<rbrakk> \<Longrightarrow> Let x f = Let y g"
  by (simp add: Let_def)

lemma bind_policy:
  "\<lbrakk>x = map_option cubic_of y; pred_option (\<lambda>z. m_policy z = p) y; \<And>z. m_policy z = p \<Longrightarrow> f (cubic_of z) = g z\<rbrakk>
   \<Longrightarrow> x \<bind> f = y \<bind> g"
  by (cases y) simp_all

lemma pred_option_bind: "pred_option P (Option.bind x f) \<longleftrightarrow> pred_option (\<lambda>a. pred_option P (f a)) x"
  by (cases x) simp_all

lemma composite_HystartUpdate_cubic:
  assumes "m_policy c = ''TcpCubic''"
  shows "cubic_HystartUpdate now (cubic_of c) tcb rtt = on_fst cubic_of (composite_HystartUpdate now c tcb rtt)"
  unfolding cubic_HystartUpdate_def composite_HystartUpdate_def push_on_fst using assms
  by (intro if_of bind_same bind_policy [where p = "''TcpCubic''"];
      simp add: Let_def push_on_fst pred_option_bind pred_option_def if_distrib [of cubic_of] cong: if_cong)

lemma composite_PktsAcked_cubic:
  assumes "m_policy c = ''TcpCubic''"
  shows "cubic_PktsAcked now (cubic_of c) tcb rtt = on_fst cubic_of (composite_PktsAcked now c tcb rtt)"
  unfolding cubic_PktsAcked_def composite_PktsAcked_def push_on_fst using assms
  by (intro let_policy [where p = "''TcpCubic''"] bind_same if_of; simp add: composite_HystartUpdate_cubic)

lemma composite_GetSsThresh_cubic:
  assumes "m_policy c = ''TcpCubic''"
  shows "cubic_GetSsThresh (cubic_of c) tcb bif = on_fst cubic_of (composite_GetSsThresh c tcb bif)"
  unfolding cubic_GetSsThresh_def composite_GetSsThresh_def push_on_fst
  using assms by (intro bind_same; simp add: Let_def Option.map_option_bind comp_def)

lemma composite_CongestionStateSet_cubic:
  "cubic_CongestionStateSet now (cubic_of c) tcb st = cubic_of (composite_CongestionStateSet now c tcb st)"
  by (simp add: cubic_CongestionStateSet_def composite_CongestionStateSet_def)

section \<open>NewReno\<close>

definition newreno_of :: "tcp_composite \<Rightarrow> uint32 \<Rightarrow> tcp_newreno" where
  "newreno_of c beta = \<lparr>m_renoAlpha = m_firstPar c, m_renoBeta = beta\<rparr>"

lemma composite_SlowStart_newreno: "composite_SlowStart c tcb a = newreno_SlowStart (newreno_of c beta) tcb a"
  by (simp add: composite_SlowStart_def newreno_SlowStart_def newreno_of_def)

lemma composite_CongestionAvoidance_newreno:
  "composite_CongestionAvoidance c tcb a = newreno_CongestionAvoidance (newreno_of c beta) tcb a"
  by (simp add: composite_CongestionAvoidance_def newreno_CongestionAvoidance_def newreno_of_def)

lemma composite_IncreaseWindow_newreno:
  assumes "m_policy c = ''TcpNewReno''"
  shows "map_option snd (composite_IncreaseWindow pw secs now c tcb acked) =
    newreno_IncreaseWindow (newreno_of c beta) tcb acked"
proof -
  let ?c = "if m_cWnd tcb < m_ssThresh tcb \<and> m_hystart c \<and> seq_gt (m_lastAckedSeq tcb) (m_endSeq c)
            then composite_HystartReset now c tcb else c"
  have c: "m_policy ?c = ''TcpNewReno''" "newreno_of ?c beta = newreno_of c beta"
    using assms by (simp_all add: composite_HystartReset_def newreno_of_def)
  show ?thesis
    unfolding composite_IncreaseWindow_def newreno_IncreaseWindow_def Let_def [of ?c] c(1)
      composite_SlowStart_newreno [of ?c _ _ beta] composite_CongestionAvoidance_newreno [of ?c _ _ beta] c(2)
    by (auto simp: Option.map_option_bind comp_def intro!: bind_same split: prod.split)
qed

text \<open>
  Whole runs of a congestion control: the socket calls its operations in any order, at any times,
  and changes the socket state between the calls. A composite under the policy \<open>TcpCubic\<close> runs
  like the Cubic object it contains.
\<close>

section \<open>Events\<close>

datatype cc_event =
    Ack uint32                  \<comment> \<open>\<open>IncreaseWindow\<close>\<close>
  | Sample time                 \<comment> \<open>\<open>PktsAcked\<close>\<close>
  | Loss uint32                 \<comment> \<open>\<open>GetSsThresh\<close>, stored in the socket state\<close>
  | State TcpCongState          \<comment> \<open>\<open>CongestionStateSet\<close>\<close>
  | Socket "tcb \<Rightarrow> tcb"         \<comment> \<open>what the socket itself does to its state\<close>

fun cubic_step :: "(double \<Rightarrow> double \<Rightarrow> double) \<Rightarrow> (time \<Rightarrow> double) \<Rightarrow> time \<times> cc_event \<Rightarrow>
    tcp_cubic \<times> tcb \<Rightarrow> (tcp_cubic \<times> tcb) option" where
  "cubic_step pw secs (now, Ack n) (c, tcb) = cubic_IncreaseWindow pw secs now c tcb n"
| "cubic_step pw secs (now, Sample rtt) (c, tcb) = cubic_PktsAcked now c tcb rtt"
| "cubic_step pw secs (now, Loss bif) (c, tcb) =
     do { (c, v) \<leftarrow> cubic_GetSsThresh c tcb bif; Some (c, tcb\<lparr>m_ssThresh := v\<rparr>) }"
| "cubic_step pw secs (now, State st) (c, tcb) =
     Some (cubic_CongestionStateSet now c tcb st, tcb\<lparr>m_congState := st\<rparr>)"
| "cubic_step pw secs (now, Socket f) (c, tcb) = Some (c, f tcb)"

fun composite_step :: "(double \<Rightarrow> double \<Rightarrow> double) \<Rightarrow> (time \<Rightarrow> double) \<Rightarrow> time \<times> cc_event \<Rightarrow>
    tcp_composite \<times> tcb \<Rightarrow> (tcp_composite \<times> tcb) option" where
  "composite_step pw secs (now, Ack n) (c, tcb) = composite_IncreaseWindow pw secs now c tcb n"
| "composite_step pw secs (now, Sample rtt) (c, tcb) = composite_PktsAcked now c tcb rtt"
| "composite_step pw secs (now, Loss bif) (c, tcb) =
     do { (c, v) \<leftarrow> composite_GetSsThresh c tcb bif; Some (c, tcb\<lparr>m_ssThresh := v\<rparr>) }"
| "composite_step pw secs (now, State st) (c, tcb) =
     Some (composite_CongestionStateSet now c tcb st, tcb\<lparr>m_congState := st\<rparr>)"
| "composite_step pw secs (now, Socket f) (c, tcb) = Some (c, f tcb)"

primrec run_cc :: "('e \<Rightarrow> 's \<Rightarrow> 's option) \<Rightarrow> 'e list \<Rightarrow> 's \<Rightarrow> 's option" where
  "run_cc step [] s = Some s"
| "run_cc step (e # es) s = step e s \<bind> run_cc step es"

section \<open>The policy is only changed by the scheduled calls\<close>

definition same_policy :: "tcp_composite \<Rightarrow> tcp_composite \<Rightarrow> bool" where
  "same_policy c c' \<longleftrightarrow> m_policy c' = m_policy c \<and> m_firstPar c' = m_firstPar c \<and> m_secondPar c' = m_secondPar c"

abbreviation keeps :: "tcp_composite \<Rightarrow> (tcp_composite \<times> 'a) option \<Rightarrow> bool" where
  "keeps c \<equiv> pred_option (\<lambda>(c', _). same_policy c c')"

text \<open>Rules that follow a body statement by statement: a bound object has the policy of the first one.\<close>

lemma keeps_let_object:
  fixes x :: tcp_composite
  shows "same_policy c x \<Longrightarrow> (\<And>z. same_policy c z \<Longrightarrow> keeps c (f z)) \<Longrightarrow> keeps c (Let x f)"
  by (simp add: Let_def)

lemma keeps_let: "(\<And>z. keeps c (f z)) \<Longrightarrow> keeps c (Let x f)"
  by (simp add: Let_def)

lemma keeps_bind_pair: "keeps c x \<Longrightarrow> (\<And>z n. same_policy c z \<Longrightarrow> keeps c (f (z, n))) \<Longrightarrow> keeps c (x \<bind> f)"
  by (cases x) auto

lemma keeps_bind_object:
  fixes x :: "tcp_composite option"
  shows "pred_option (same_policy c) x \<Longrightarrow> (\<And>z. same_policy c z \<Longrightarrow> keeps c (f z)) \<Longrightarrow> keeps c (x \<bind> f)"
  by (cases x) auto

lemma keeps_bind: "(\<And>z. keeps c (f z)) \<Longrightarrow> keeps c (Option.bind x f)"
  by (cases x) auto

lemma keeps_if: "keeps c x \<Longrightarrow> keeps c y \<Longrightarrow> keeps c (if b then x else y)"
  by simp

lemma keeps_pair: "keeps c (f a b) \<Longrightarrow> keeps c (case (a, b) of (a, b) \<Rightarrow> f a b)"
  by simp

lemma keeps_case: "(\<And>a b. keeps c (f a b)) \<Longrightarrow> keeps c (case x of (a, b) \<Rightarrow> f a b)"
  by (cases x) simp

lemma object_bind: "(\<And>z. pred_option P (f z)) \<Longrightarrow> pred_option P (Option.bind x f)"
  by (cases x) auto

lemmas keeps_intros = keeps_let_object keeps_let keeps_bind_pair keeps_bind_object keeps_bind keeps_if
  keeps_pair keeps_case

lemma keeps_Update: "same_policy c0 c \<Longrightarrow> keeps c0 (composite_Update pw secs now c tcb a)"
  unfolding composite_Update_def
  by (intro keeps_intros; (unfold composite_friendly_def, intro keeps_intros)?;
      simp add: same_policy_def composite_epoch_def Let_def split: prod.split)

lemma keeps_Ack: "same_policy c0 c \<Longrightarrow> keeps c0 (composite_IncreaseWindow pw secs now c tcb a)"
  unfolding composite_IncreaseWindow_def
  by (intro keeps_intros; (rule keeps_Update)?; simp add: same_policy_def composite_HystartReset_def)

lemma keeps_Hystart: "same_policy c0 c \<Longrightarrow> keeps c0 (composite_HystartUpdate now c tcb rtt)"
  unfolding composite_HystartUpdate_def
  by (intro keeps_intros; simp add: same_policy_def Let_def object_bind)

lemma keeps_Sample: "same_policy c0 c \<Longrightarrow> keeps c0 (composite_PktsAcked now c tcb rtt)"
  unfolding composite_PktsAcked_def
  by (intro keeps_intros; (rule keeps_Hystart)?; simp add: same_policy_def)

lemma keeps_Loss: "same_policy c0 c \<Longrightarrow> keeps c0 (composite_GetSsThresh c tcb bif)"
  unfolding composite_GetSsThresh_def
  by (intro keeps_intros; simp add: same_policy_def)

lemma keeps_D: "keeps c x \<Longrightarrow> x = Some (c', n) \<Longrightarrow> same_policy c c'"
  by simp

lemma same_policy_refl: "same_policy c c"
  by (simp add: same_policy_def)

lemma same_policy_step:
  assumes "composite_step pw secs (now, e) (c, tcb) = Some (c', tcb')" shows "same_policy c c'"
proof (cases e)
  case (State st)
  then show ?thesis using assms
    by (auto simp: composite_CongestionStateSet_def composite_CubicReset_def composite_HystartReset_def same_policy_def
        split: if_splits)
next
  case (Socket f)
  then show ?thesis using assms by (simp add: same_policy_def)
qed (use assms in \<open>auto simp: bind_eq_Some_conv intro: keeps_D [OF keeps_Ack [OF same_policy_refl]]
      keeps_D [OF keeps_Sample [OF same_policy_refl]] keeps_D [OF keeps_Loss [OF same_policy_refl]]\<close>)

end
