(* ===== verification/Recovery.thy ===== *)
theory Recovery
  imports CongOps
begin

text \<open>
  The recovery algorithms: \<open>TcpClassicRecovery\<close> (\<open>tcp-recovery-ops.cc\<close>) and \<open>TcpPrrRecovery\<close>
  (\<open>tcp-prr-recovery.cc\<close>), the proportional rate reduction of RFC 6937. The code mixes unsigned,
  signed and floating-point arithmetic; a conversion of an unsigned value to \<open>int\<close> is the signed
  reading of its bits.
\<close>

section \<open>Classic recovery\<close>

definition classic_EnterRecovery :: "tcb \<Rightarrow> uint32 \<Rightarrow> tcb" where
  "classic_EnterRecovery tcb dupAckCount =
     tcb\<lparr>m_cWnd := m_ssThresh tcb, m_cWndInfl := m_ssThresh tcb + dupAckCount * m_segmentSize tcb\<rparr>"

definition classic_DoRecovery :: "tcb \<Rightarrow> tcb" where
  "classic_DoRecovery tcb = tcb\<lparr>m_cWndInfl := m_cWndInfl tcb + m_segmentSize tcb\<rparr>"

definition classic_ExitRecovery :: "tcb \<Rightarrow> tcb" where
  "classic_ExitRecovery tcb = tcb\<lparr>m_cWndInfl := m_ssThresh tcb\<rparr>"

section \<open>Proportional rate reduction\<close>

datatype ReductionBound = CRB | SSRB

record tcp_prr =
  m_prrDelivered :: uint32
  m_prrOut :: uint32
  m_recoveryFlightSize :: uint32
  m_reductionBoundMode :: ReductionBound

definition prr_limit :: "tcp_prr \<Rightarrow> tcb \<Rightarrow> uint32 \<Rightarrow> int" where
  "prr_limit p tcb deliveredBytes =
     (case m_reductionBoundMode p of
        CRB \<Rightarrow> sint (m_prrDelivered p - m_prrOut p)
      | SSRB \<Rightarrow>
          if m_isRetransDataAcked tcb
          then sint (max (m_prrDelivered p - m_prrOut p) deliveredBytes + m_segmentSize tcb)
          else sint deliveredBytes)"

definition prr_sendCount :: "tcp_prr \<Rightarrow> tcb \<Rightarrow> uint32 \<Rightarrow> int option" where
  "prr_sendCount p tcb deliveredBytes =
     (if m_bytesInFlight tcb > m_ssThresh tcb
      then to_i32 (d_sub (d_ceil (d_div (d_mul (of_u32 (m_prrDelivered p * m_ssThresh tcb)) (Fin 1))
             (of_u32 (m_recoveryFlightSize p)))) (of_u32 (m_prrOut p)))
      else Some (min (prr_limit p tcb deliveredBytes) (sint (m_ssThresh tcb - m_bytesInFlight tcb))))"

definition prr_DoRecovery :: "tcp_prr \<Rightarrow> tcb \<Rightarrow> uint32 \<Rightarrow> (tcp_prr \<times> tcb) option" where
  "prr_DoRecovery p tcb deliveredBytes = do {
     let p = p\<lparr>m_prrDelivered := m_prrDelivered p + deliveredBytes\<rparr>;
     sendCount \<leftarrow> prr_sendCount p tcb deliveredBytes;
     let sendCount = max sendCount (sint (if m_prrOut p > 0 then 0 else m_segmentSize tcb));
     let w = m_bytesInFlight tcb + of_int sendCount;
     Some (p, tcb\<lparr>m_cWnd := w, m_cWndInfl := w\<rparr>)
   }"

definition prr_EnterRecovery :: "tcp_prr \<Rightarrow> tcb \<Rightarrow> uint32 \<Rightarrow> uint32 \<Rightarrow> (tcp_prr \<times> tcb) option" where
  "prr_EnterRecovery p tcb unAckDataCount deliveredBytes =
     prr_DoRecovery (p\<lparr>m_prrOut := 0, m_prrDelivered := 0, m_recoveryFlightSize := unAckDataCount\<rparr>)
       tcb deliveredBytes"

definition prr_ExitRecovery :: "tcb \<Rightarrow> tcb" where
  "prr_ExitRecovery tcb = tcb\<lparr>m_cWndInfl := m_cWnd tcb\<rparr>"

definition prr_UpdateBytesSent :: "tcp_prr \<Rightarrow> uint32 \<Rightarrow> tcp_prr" where
  "prr_UpdateBytesSent p bytesSent = p\<lparr>m_prrOut := m_prrOut p + bytesSent\<rparr>"

section \<open>The interface of a recovery algorithm\<close>

text \<open>
  The socket calls \<open>EnterRecovery\<close>, then \<open>DoRecovery\<close> on every acknowledgement and
  \<open>UpdateBytesSent\<close> on every transmission, and \<open>ExitRecovery\<close>. Only the two windows of the
  socket state may change.
\<close>

datatype rec_event = Enter uint32 uint32 uint32 | Do uint32 | Sent uint32 | Exit

definition only_windows :: "tcb \<Rightarrow> tcb \<Rightarrow> bool" where
  "only_windows tcb tcb' \<longleftrightarrow> tcb' = tcb\<lparr>m_cWnd := m_cWnd tcb', m_cWndInfl := m_cWndInfl tcb'\<rparr>"

fun classic_event :: "unit \<Rightarrow> tcb \<Rightarrow> rec_event \<Rightarrow> (unit \<times> tcb) option" where
  "classic_event u tcb (Enter dup unacked delivered) = Some (u, classic_EnterRecovery tcb dup)"
| "classic_event u tcb (Do delivered) = Some (u, classic_DoRecovery tcb)"
| "classic_event u tcb (Sent n) = Some (u, tcb)"
| "classic_event u tcb Exit = Some (u, classic_ExitRecovery tcb)"

fun prr_event :: "tcp_prr \<Rightarrow> tcb \<Rightarrow> rec_event \<Rightarrow> (tcp_prr \<times> tcb) option" where
  "prr_event p tcb (Enter dup unacked delivered) = prr_EnterRecovery p tcb unacked delivered"
| "prr_event p tcb (Do delivered) = prr_DoRecovery p tcb delivered"
| "prr_event p tcb (Sent n) = Some (prr_UpdateBytesSent p n, tcb)"
| "prr_event p tcb Exit = Some (p, prr_ExitRecovery tcb)"

primrec run_recovery ::
    "('s \<Rightarrow> tcb \<Rightarrow> rec_event \<Rightarrow> ('s \<times> tcb) option) \<Rightarrow> 's \<Rightarrow> tcb \<Rightarrow> rec_event list \<Rightarrow> ('s \<times> tcb) option" where
  "run_recovery step s tcb [] = Some (s, tcb)"
| "run_recovery step s tcb (e # es) = do { (s, tcb) \<leftarrow> step s tcb e; run_recovery step s tcb es }"

lemma only_windows_refl: "only_windows tcb tcb"
  by (simp add: only_windows_def)

lemma only_windows_trans: "only_windows a b \<Longrightarrow> only_windows b c \<Longrightarrow> only_windows a c"
  by (cases a; cases b; cases c) (simp add: only_windows_def)

locale recovery_ops =
  fixes step :: "'s \<Rightarrow> tcb \<Rightarrow> rec_event \<Rightarrow> ('s \<times> tcb) option"
  assumes step_frame: "step s tcb e = Some (s', tcb') \<Longrightarrow> only_windows tcb tcb'"
begin

lemma run_frame: "run_recovery step s tcb es = Some (s', tcb') \<Longrightarrow> only_windows tcb tcb'"
proof (induction es arbitrary: s tcb)
  case (Cons e es)
  then show ?case by (auto simp: bind_eq_Some_conv intro: only_windows_trans dest: step_frame)
qed (simp add: only_windows_refl)

end

interpretation classic: recovery_ops classic_event
proof
  show "only_windows tcb tcb'" if "classic_event s tcb e = Some (s', tcb')" for s tcb e s' tcb'
    using that by (cases e) (auto simp: only_windows_def classic_EnterRecovery_def classic_DoRecovery_def classic_ExitRecovery_def)
qed

lemma prr_DoRecovery_frame: "prr_DoRecovery p tcb d = Some (p', tcb') \<Longrightarrow> only_windows tcb tcb'"
  by (auto simp: prr_DoRecovery_def Let_def only_windows_def bind_eq_Some_conv)

interpretation prr: recovery_ops prr_event
proof
  show "only_windows tcb tcb'" if "prr_event s tcb e = Some (s', tcb')" for s tcb e s' tcb'
    using that by (cases e) (auto simp: only_windows_refl prr_EnterRecovery_def prr_ExitRecovery_def
        only_windows_def [of tcb "tcb\<lparr>m_cWndInfl := m_cWnd tcb\<rparr>"] dest: prr_DoRecovery_frame)
qed

section \<open>The send quota\<close>

lemma sint_small:
  assumes "unat (w :: uint32) < 2 ^ 31" shows "sint w = int (unat w)"
proof -
  have "int (unat w) < int (2 ^ 31)" using assms by (simp only: of_nat_less_iff)
  then have "uint w < 2 ^ 31" by simp
  then have "signed_take_bit 31 (uint w) = uint w"
    using order_trans [of "- (2 ^ 31)" 0 "uint w"] by (intro signed_take_bit_int_eq_self) simp_all
  then show ?thesis by (simp add: sint_uint)
qed

abbreviation prr_floor :: "tcp_prr \<Rightarrow> tcb \<Rightarrow> nat" where
  "prr_floor p tcb \<equiv> (if m_prrOut p > 0 then 0 else mss tcb)"

text \<open>The last steps of \<open>DoRecovery\<close> for a send count that fits: the window is the data in flight plus the quota.\<close>

lemma prr_DoRecovery_window:
  assumes "prr_sendCount (p\<lparr>m_prrDelivered := m_prrDelivered p + d\<rparr>) tcb d = Some k"
    and "mss tcb < 2 ^ 31" "unat (m_bytesInFlight tcb) + max (nat k) (prr_floor p tcb) < 2 ^ 32"
  shows "\<exists>tcb'. prr_DoRecovery p tcb d = Some (p\<lparr>m_prrDelivered := m_prrDelivered p + d\<rparr>, tcb') \<and>
     cwnd tcb' = unat (m_bytesInFlight tcb) + max (nat k) (prr_floor p tcb) \<and> m_cWndInfl tcb' = m_cWnd tcb'"
proof -
  have f: "sint (if m_prrOut p > 0 then 0 else m_segmentSize tcb) = int (prr_floor p tcb)"
    using sint_small [OF assms(2)] by simp
  have n: "max k (int (prr_floor p tcb)) = int (max (nat k) (prr_floor p tcb))" by linarith
  have "(of_int (max k (int (prr_floor p tcb))) :: uint32) = of_nat (max (nat k) (prr_floor p tcb))"
    unfolding n of_int_of_nat_eq ..
  moreover have "unat (m_bytesInFlight tcb + of_nat (max (nat k) (prr_floor p tcb))) =
      unat (m_bytesInFlight tcb) + max (nat k) (prr_floor p tcb)"
    using assms(3) by (subst unat_plus32) (simp_all only: unat_of_nat32)
  moreover have "m_prrOut (p\<lparr>m_prrDelivered := m_prrDelivered p + d\<rparr>) = m_prrOut p" by simp
  ultimately show ?thesis unfolding prr_DoRecovery_def Let_def assms(1) Option.bind_lunit
    by (simp only: f) simp
qed

text \<open>The product is a 32-bit one, the rest is exact.\<close>

lemma prr_sendCount_proportional:
  assumes "m_ssThresh tcb < m_bytesInFlight tcb" "m_recoveryFlightSize p \<noteq> 0"
    and "ceil_div (unat (m_prrDelivered p * m_ssThresh tcb)) (unat (m_recoveryFlightSize p)) < 2 ^ 31"
    and "unat (m_prrOut p) < 2 ^ 31"
  shows "prr_sendCount p tcb d =
    Some (int (ceil_div (unat (m_prrDelivered p * m_ssThresh tcb)) (unat (m_recoveryFlightSize p))) - int (unat (m_prrOut p)))"
proof -
  let ?a = "unat (m_prrDelivered p * m_ssThresh tcb)" and ?b = "unat (m_recoveryFlightSize p)"
  have a: "?a < 2 ^ 32" using unat_lt32 [of "m_prrDelivered p * m_ssThresh tcb"] by simp
  have b: "0 < ?b" using assms(2) by (simp add: unat_gt_0)
  have "d_mul (Fin (of_nat ?a)) (Fin 1) = Fin (of_nat ?a)" using a fl_nat [of ?a] by simp
  then have "prr_sendCount p tcb d = to_i32 (d_sub (d_ceil (d_div (Fin (of_nat ?a)) (Fin (of_nat ?b)))) (Fin (of_nat (unat (m_prrOut p)))))"
    using assms(1) by (simp only: prr_sendCount_def if_True of_u32_nat)
  also have "\<dots> = to_i32 (d_sub (Fin (of_nat (ceil_div ?a ?b))) (Fin (of_nat (unat (m_prrOut p)))))"
    using a b unat_lt32 [of "m_recoveryFlightSize p"] by (subst ceil_d_div) simp_all
  also have "\<dots> = to_i32 (Fin (of_int (int (ceil_div ?a ?b) - int (unat (m_prrOut p)))))"
    using assms(3,4) by (subst d_sub_nat) simp_all
  also have "\<dots> = Some (int (ceil_div ?a ?b) - int (unat (m_prrOut p)))"
    by (rule to_i32_diff [OF assms(3,4)])
  finally show ?thesis .
qed

text \<open>Below the threshold the quota never takes the window above it.\<close>

lemma prr_sendCount_bound:
  assumes "m_bytesInFlight tcb \<le> m_ssThresh tcb" "unat (m_ssThresh tcb) - unat (m_bytesInFlight tcb) < 2 ^ 31"
  shows "\<exists>k. prr_sendCount p tcb d = Some k \<and> nat k \<le> unat (m_ssThresh tcb) - unat (m_bytesInFlight tcb)"
proof -
  have u: "unat (m_ssThresh tcb - m_bytesInFlight tcb) = unat (m_ssThresh tcb) - unat (m_bytesInFlight tcb)"
    using assms(1) by (intro unat_minus32) (simp only: word_le_nat_alt)
  then have "sint (m_ssThresh tcb - m_bytesInFlight tcb) = int (unat (m_ssThresh tcb) - unat (m_bytesInFlight tcb))"
    using sint_small [of "m_ssThresh tcb - m_bytesInFlight tcb"] assms(2) by simp
  then show ?thesis using assms(1) by (auto simp: prr_sendCount_def not_less)
qed

end
