(* ===== verification/CongProps.thy ===== *)
theory CongProps
  imports RenoSub CompositeEq Recovery
begin

text \<open>
  The properties of the congestion control and recovery algorithms: NewReno's floating-point
  arithmetic is integer arithmetic, the windows of NewReno, Linux Reno and Cubic grow within the
  bounds of the contract over any sequence of acknowledgements, proportional rate reduction computes
  the quota of RFC 6937 as long as its product fits, and \<open>TcpComposite\<close> is the algorithm its
  policy names until it is copied.
\<close>

section \<open>Sample objects\<close>

definition sample_tcb :: "uint32 \<Rightarrow> uint32 \<Rightarrow> tcb" where
  "sample_tcb w ss =
     \<lparr>m_cWnd = w, m_cWndInfl = w, m_ssThresh = ss, m_isRetransDataAcked = False, m_segmentSize = 1000,
      m_lastAckedSeq = 0, m_congState = CA_OPEN, m_highTxMark = 0, m_bytesInFlight = w, m_ecnState = ECN_DISABLED, m_nextTxSequence = 0, m_lastRtt = 0,
      m_lastAckedSackedBytes = 0\<rparr>"

definition sample_composite :: "string \<Rightarrow> double \<Rightarrow> double \<Rightarrow> tcp_composite" where
  "sample_composite policy par1 par2 =
     \<lparr>m_fastConvergence = True, m_tcpFriendliness = True, m_hystart = True, m_hystartDetect = BOTH, m_hystartLowWindow = 16,
      m_hystartAckDelta = 2000000, m_hystartDelayMin = 4000000, m_hystartDelayMax = 1000000000, m_hystartMinSamples = 8,
      m_cntClamp = 20, m_cWndCnt = 0, m_lastMaxCwnd = 0, m_bicOriginPoint = 0, m_bicK = Fin 0, m_delayMin = Time_Min,
      m_epochStart = Time_Min, m_found = False, m_roundStart = Time_Min, m_endSeq = 0, m_lastAck = Time_Min,
      m_cubicDelta = 10000000, m_currRtt = Time_Min, m_sampleCnt = 0, m_ackCnt = 0, m_tcpCwnd = 0,
      m_policyFirst = policy, m_firstParFirst = par1, m_secondParFirst = par2, m_policySecond = ''TcpCubic'',
      m_firstParSecond = Fin (1 / 2), m_secondParSecond = Fin (1 / 2), m_switchTime = 5, m_policy = policy,
      m_firstPar = par1, m_secondPar = par2, m_secondCwndDiff = - 3\<rparr>"

section \<open>Runs of the composite\<close>

lemma composite_step_cubic:
  assumes "m_policy c = ''TcpCubic''"
  shows "cubic_step pw secs (now, e) (cubic_of c, tcb) = on_fst cubic_of (composite_step pw secs (now, e) (c, tcb))"
proof (cases e)
  case (Loss bif)
  then show ?thesis using composite_GetSsThresh_cubic [OF assms, of tcb bif]
    by (cases "composite_GetSsThresh c tcb bif") (auto split: prod.split)
qed (use assms in \<open>simp_all add: composite_IncreaseWindow_cubic composite_PktsAcked_cubic composite_CongestionStateSet_cubic\<close>)

lemma composite_run_cubic:
  assumes "m_policy c = ''TcpCubic''"
  shows "run_cc (cubic_step pw secs) es (cubic_of c, tcb) = on_fst cubic_of (run_cc (composite_step pw secs) es (c, tcb))"
  using assms
proof (induction es arbitrary: c tcb)
  case (Cons e es)
  obtain now ev where e: "e = (now, ev)" by (cases e)
  show ?case
  proof (cases "composite_step pw secs e (c, tcb)")
    case None
    then show ?thesis using composite_step_cubic [OF Cons.prems, of pw secs now ev tcb] e by simp
  next
    case (Some r)
    obtain c' tcb' where r: "r = (c', tcb')" by (cases r)
    have "m_policy c' = ''TcpCubic''"
      using same_policy_step [of pw secs now ev c tcb c' tcb'] Some Cons.prems by (simp add: e r same_policy_def)
    then show ?thesis using composite_step_cubic [OF Cons.prems, of pw secs now ev tcb] Some Cons.IH by (simp add: e r)
  qed
qed simp

text \<open>
  C5. Under the policy \<open>TcpCubic\<close> a composite is a Cubic: for every sequence of calls of the
  operations of the interface, at any times and with any changes of the socket state between them,
  the Cubic object with \<open>Beta\<close> and \<open>C\<close> set to the two parameters of the policy ends in the same
  socket state and in the corresponding object, and has no defined result exactly when the
  composite has none.
\<close>

theorem composite_refines_cubic:
  assumes "m_policy c = ''TcpCubic''"
  shows "run_cc (cubic_step pw secs) es (cubic_of c, tcb) =
    map_option (map_prod cubic_of id) (run_cc (composite_step pw secs) es (c, tcb))"
  using assms by (rule composite_run_cubic)

theorem composite_refines_cubic_witness:
  "run_cc (cubic_step (\<lambda>x y. x) (\<lambda>t. Fin 0)) [(1, Ack 2), (2, State CA_LOSS)]
     (cubic_of (sample_composite ''TcpCubic'' (Fin (1 / 2)) (Fin (1 / 2))), sample_tcb 3000 9000) =
   map_option (map_prod cubic_of id) (run_cc (composite_step (\<lambda>x y. x) (\<lambda>t. Fin 0)) [(1, Ack 2), (2, State CA_LOSS)]
     (sample_composite ''TcpCubic'' (Fin (1 / 2)) (Fin (1 / 2)), sample_tcb 3000 9000)) \<and>
   map_option (\<lambda>(c, tcb). m_cWnd tcb) (run_cc (composite_step (\<lambda>x y. x) (\<lambda>t. Fin 0)) [(1, Ack 2), (2, State CA_LOSS)]
     (sample_composite ''TcpCubic'' (Fin (1 / 2)) (Fin (1 / 2)), sample_tcb 3000 9000)) = Some 5000"
  using composite_refines_cubic [of "sample_composite ''TcpCubic'' (Fin (1 / 2)) (Fin (1 / 2))" "\<lambda>x y. x" "\<lambda>t. Fin 0"
      "[(1, Ack 2), (2, State CA_LOSS)]" "sample_tcb 3000 9000"]
  by (simp add: sample_composite_def sample_tcb_def composite_IncreaseWindow_def seq_gt_def)

section \<open>NewReno\<close>

text \<open>
  C30. NewReno computes with integers although the code uses doubles, for every scale factor \<open>m_renoAlpha\<close>
  of the form \<open>p / 2 ^ e\<close> with \<open>p < 2 ^ 20\<close> and \<open>e \<le> 20\<close>: 1, which is the default, and also 3/2, 2 and 5,
  which the scripts of the repository use. From a window that is not 0, \<open>IncreaseWindow\<close> sets the
  congestion window to the value of slow start followed by congestion avoidance in natural numbers. Slow
  start adds \<open>p * mss div 2 ^ e\<close>; congestion avoidance scales the integer quotient of the squared segment
  size (which wraps at 32 bits) and the window, at least 1, in the same way. When the value does not fit
  32 bits the conversion back to an integer is undefined.
\<close>

theorem newreno_integer_window:
  assumes "m_renoAlpha nr = Fin (of_nat p / 2 ^ e)" "p < 2 ^ 20" "e \<le> 20" "m_cWnd tcb \<noteq> 0"
  shows "newreno_IncreaseWindow nr tcb acked =
    (let w = reno_window p e (unat (m_segmentSize tcb)) (unat (m_cWnd tcb)) (unat (m_ssThresh tcb)) (unat acked)
     in if w < 2 ^ 32 then Some (tcb\<lparr>m_cWnd := of_nat w\<rparr>) else None)"
  using newreno_IncreaseWindow_int [of p e nr tcb acked] assms by (simp add: scale_is_def)

theorem newreno_integer_window_witness:
  "newreno_IncreaseWindow \<lparr>m_renoAlpha = Fin (3 / 2), m_renoBeta = 2\<rparr> (sample_tcb 3000 2000) 1 = Some (sample_tcb 3000 2000\<lparr>m_cWnd := 3499\<rparr>)"
  using newreno_integer_window [of "\<lparr>m_renoAlpha = Fin (3 / 2), m_renoBeta = 2\<rparr>" 3 1 "sample_tcb 3000 2000" 1]
  by (simp add: sample_tcb_def reno_window_def newreno_adder_def scaled_def)

text \<open>
  C31. Let the scale factor \<open>m_renoAlpha\<close> of NewReno be a number between 0 and \<open>f\<close>, for a natural number
  \<open>f\<close> (1 for the default, 5 for the largest value in the scripts of the repository). Over any sequence of
  acknowledgements NewReno always returns, changes nothing but the congestion window, never shrinks it,
  and adds at most \<open>f\<close> segments for each segment acknowledged and for each call, provided that much fits
  32 bits and the window is at least a segment. This holds with all roundings of the doubles.
\<close>

theorem newreno_run:
  assumes "m_renoAlpha nr = Fin r" "0 \<le> r" "r \<le> of_nat f" "room_for f tcb acks"
  shows "\<exists>nr' tcb'. run_acks newreno_inc nr tcb acks = Some (nr', tcb') \<and>
    tcb' = tcb\<lparr>m_cWnd := m_cWnd tcb'\<rparr> \<and> unat (m_cWnd tcb) \<le> unat (m_cWnd tcb') \<and>
    unat (m_cWnd tcb') \<le> unat (m_cWnd tcb) + f * budget acks * unat (m_segmentSize tcb)"
  using newreno.run_returns [of f nr tcb acks] assms by (simp add: newreno_ok_def grown_def)

theorem newreno_run_witness:
  "\<exists>nr' tcb'. run_acks newreno_inc \<lparr>m_renoAlpha = Fin 5, m_renoBeta = 2\<rparr> (sample_tcb 3000 4000) [1, 2] = Some (nr', tcb') \<and>
    tcb' = sample_tcb 3000 4000\<lparr>m_cWnd := m_cWnd tcb'\<rparr> \<and> 3000 \<le> unat (m_cWnd tcb') \<and> unat (m_cWnd tcb') \<le> 28000"
  using newreno_run [of "\<lparr>m_renoAlpha = Fin 5, m_renoBeta = 2\<rparr>" 5 5 "sample_tcb 3000 4000" "[1, 2]"]
  by (simp add: sample_tcb_def room_for_def)

lemma newreno_zero_alpha:
  assumes "m_renoAlpha nr = Fin 0" "m_cWnd tcb \<noteq> 0"
  shows "newreno_IncreaseWindow nr tcb acked = Some tcb"
proof -
  have "fl 0 = Fin 0" using fl_nat [of 0] by simp
  then have z: "d_mul (Fin 0) (of_u32 n) = Fin (of_nat 0)" for n by (simp add: of_u32_def)
  have add: "cWnd_plus tcb (Fin (of_nat 0)) = Some tcb"
    using cWnd_plus_nat [of 0 tcb] unat_lt32 [of "m_cWnd tcb"] by simp
  have "0 < unat (m_cWnd tcb)" using assms(2) by (simp add: unat_gt_0)
  then have "\<exists>n. to_u32 (d_max (Fin 1) (d_div (of_u32 (m_segmentSize tcb * m_segmentSize tcb)) (of_u32 (m_cWnd tcb)))) = Some n"
    using to_u32_max_div unat_lt32 [of "m_segmentSize tcb * m_segmentSize tcb"] unat_lt32 [of "m_cWnd tcb"]
    by (simp add: of_u32_nat del: of_nat_unat)
  then obtain n where n: "to_u32 (d_max (Fin 1) (d_div (of_u32 (m_segmentSize tcb * m_segmentSize tcb)) (of_u32 (m_cWnd tcb)))) = Some n" ..
  have "newreno_SlowStart nr tcb acked = Some (tcb, if 1 \<le> acked then acked - 1 else 0)"
    unfolding newreno_SlowStart_def assms(1) z add by simp
  moreover have "newreno_CongestionAvoidance nr tcb a = Some tcb" for a
    unfolding newreno_CongestionAvoidance_def Let_def n assms(1) Option.bind_lunit z add by simp
  ultimately show ?thesis by (simp add: newreno_IncreaseWindow_def)
qed

text \<open>
  A copy of a NewReno object, which is what an accepted connection gets from \<open>Fork\<close>, does not
  have the parameters of the original but what the memory holds. Over zeroed memory no
  acknowledgement opens the window, and the threshold after a loss is a division by zero.
\<close>

theorem newreno_copy_loses_parameters:
  assumes "m_renoAlpha raw = Fin 0" "m_renoBeta raw = 0" "m_cWnd tcb \<noteq> 0"
  shows "newreno_IncreaseWindow (newreno_copy raw sock) tcb acked = Some tcb \<and>
    newreno_GetSsThresh (newreno_copy raw sock) tcb bif = None"
  using assms newreno_zero_alpha [of "newreno_copy raw sock" tcb acked]
  by (simp add: newreno_copy_def newreno_GetSsThresh_def udiv32_def)

theorem newreno_copy_loses_parameters_witness:
  "newreno_IncreaseWindow (newreno_copy \<lparr>m_renoAlpha = Fin 0, m_renoBeta = 0\<rparr> \<lparr>m_renoAlpha = Fin 1, m_renoBeta = 2\<rparr>) (sample_tcb 3000 9000) 2 =
     Some (sample_tcb 3000 9000) \<and>
   newreno_GetSsThresh (newreno_copy \<lparr>m_renoAlpha = Fin 0, m_renoBeta = 0\<rparr> \<lparr>m_renoAlpha = Fin 1, m_renoBeta = 2\<rparr>) (sample_tcb 3000 9000) 5000 = None"
  using newreno_copy_loses_parameters [of "\<lparr>m_renoAlpha = Fin 0, m_renoBeta = 0\<rparr>" "sample_tcb 3000 9000"] by (simp add: sample_tcb_def)

section \<open>Linux Reno\<close>

text \<open>
  The same holds of Linux Reno, whose counters are integers.
\<close>

theorem linuxreno_run:
  assumes "room_for 1 tcb acks"
  shows "\<exists>cnt' tcb'. run_acks linuxreno_IncreaseWindow cnt tcb acks = Some (cnt', tcb') \<and>
    tcb' = tcb\<lparr>m_cWnd := m_cWnd tcb'\<rparr> \<and> unat (m_cWnd tcb) \<le> unat (m_cWnd tcb') \<and>
    unat (m_cWnd tcb') \<le> unat (m_cWnd tcb) + budget acks * unat (m_segmentSize tcb)"
  using linuxreno.run_returns [of cnt tcb acks] assms by (simp add: linuxreno_ok_def grown_def)

theorem linuxreno_run_witness:
  "\<exists>cnt' tcb'. run_acks linuxreno_IncreaseWindow 0 (sample_tcb 3000 4000) [1, 2] = Some (cnt', tcb') \<and>
    tcb' = sample_tcb 3000 4000\<lparr>m_cWnd := m_cWnd tcb'\<rparr> \<and> 3000 \<le> unat (m_cWnd tcb') \<and> unat (m_cWnd tcb') \<le> 8000"
  using linuxreno_run [of "sample_tcb 3000 4000" "[1, 2]" 0] by (simp add: sample_tcb_def room_for_def)

section \<open>Cubic\<close>

text \<open>
  Whatever the times of the calls, the power function of the platform and the state of the
  object, a run of Cubic that is defined keeps to the same bounds.
\<close>

theorem cubic_run:
  assumes "room_for 1 tcb acks" "run_acks (cubic_timed pw secs clk) s tcb acks = Some (s', tcb')"
  shows "tcb' = tcb\<lparr>m_cWnd := m_cWnd tcb'\<rparr> \<and> unat (m_cWnd tcb) \<le> unat (m_cWnd tcb') \<and>
    unat (m_cWnd tcb') \<le> unat (m_cWnd tcb) + budget acks * unat (m_segmentSize tcb)"
  using cubic.run_grown [OF _ assms] by (simp add: cubic_ok_def grown_def)

theorem cubic_run_witness:
  "\<exists>s' tcb'. run_acks (cubic_timed (\<lambda>x y. x) (\<lambda>t. Fin 0) int) (cubic_of (sample_composite ''TcpCubic'' (Fin (1 / 2)) (Fin (1 / 2))), 0)
     (sample_tcb 3000 9000) [1, 2] = Some (s', tcb') \<and> 3000 \<le> unat (m_cWnd tcb') \<and> unat (m_cWnd tcb') \<le> 8000"
proof -
  have "\<exists>s' tcb'. run_acks (cubic_timed (\<lambda>x y. x) (\<lambda>t. Fin 0) int) (cubic_of (sample_composite ''TcpCubic'' (Fin (1 / 2)) (Fin (1 / 2))), 0)
     (sample_tcb 3000 9000) [1, 2] = Some (s', tcb')"
    by (simp add: sample_composite_def sample_tcb_def cubic_timed_def cubic_IncreaseWindow_def)
  moreover have "room_for 1 (sample_tcb 3000 9000) [1, 2]" by (simp add: sample_tcb_def room_for_def)
  ultimately show ?thesis using cubic_run [of "sample_tcb 3000 9000" "[1, 2]"] by (fastforce simp: sample_tcb_def)
qed

text \<open>
  The loop of the friendliness heuristic ends whenever its step is not zero, with the estimate
  of the Reno window increased by the number of whole steps in the acknowledgements counted before
  the last one, and the rest left in the counter.
\<close>

theorem friendly_loop_result:
  assumes "0 < delta"
  shows "friendly_loop delta ackCnt tcpCwnd =
    (let k = (unat ackCnt - 1) div unat delta in Some (ackCnt - of_nat k * delta, tcpCwnd + of_nat k))"
  using assms by (rule friendly_loop_steps)

theorem friendly_loop_result_witness: "friendly_loop 3 10 5 = Some (1, 8)"
  using friendly_loop_result [of 3 10 5] by simp

lemma cubic_scale_eighth: "cubic_scale (Fin (1 / 8)) = Some 3"
proof -
  have "d_mul (Fin (1 / 8)) (Fin 1024) = Fin 128" using fl_nat [of 128] by simp
  moreover have "d_add (Fin 1024) (Fin 128) = Fin 1152" using fl_nat [of 1152] by simp
  moreover have "d_mul (Fin 8) (Fin 1152) = Fin 9216" using fl_nat [of 9216] by simp
  moreover have "d_div (Fin 9216) (Fin 3) = Fin 3072" using fl_nat [of 3072] by simp
  moreover have "d_sub (Fin 1024) (Fin 128) = Fin 896" using d_sub_nat [of 1024 128] by simp
  moreover have "to_u32 (d_div (Fin 3072) (Fin 896)) = Some 3"
  proof -
    obtain r where r: "d_div (Fin (of_nat 3072)) (Fin (of_nat 896)) = Fin r" "of_nat (3072 div 896) \<le> r" "r < of_nat (Suc (3072 div 896))"
      using d_div_nat [of 3072 896] by auto
    have "to_u32 (Fin r) = Some (of_nat (3072 div 896))" by (rule to_u32_floor [OF r(2,3)]) simp
    then show ?thesis using r(1) by (simp del: d_div.simps to_u32.simps)
  qed
  ultimately show ?thesis unfolding cubic_scale_def by (simp only:)
qed

text \<open>
  The heuristic does not return for every value of the attribute \<open>Beta\<close> that its checker
  admits: with 1/8 and a window of at most two segments the step is zero and the loop runs forever.
\<close>

theorem cubic_small_beta_hangs:
  assumes "m_beta c = Fin (1 / 8)" "segCwnd \<le> 2" "0 < m_ackCnt c"
  shows "cubic_scale (m_beta c) = Some 3 \<and> cubic_friendly c segCwnd cnt = None"
proof -
  have "unat segCwnd \<le> 2" using assms(2) by (simp add: word_le_nat_alt)
  then have "unat segCwnd = 0 \<or> unat segCwnd = 1 \<or> unat segCwnd = 2" by linarith
  then have "segCwnd = of_nat 0 \<or> segCwnd = of_nat 1 \<or> segCwnd = of_nat 2" by (metis word_nat_cancel)
  then have "drop_bit 3 (segCwnd * 3) = 0" by auto
  then show ?thesis using friendly_loop_stuck [OF assms(3)] assms(1)
    by (simp add: cubic_scale_eighth cubic_friendly_def Let_def)
qed

theorem cubic_small_beta_hangs_witness:
  "cubic_friendly (cubic_of (sample_composite ''TcpCubic'' (Fin (1 / 8)) (Fin (1 / 2)))\<lparr>m_ackCnt := 1\<rparr>) 2 100 = None"
  using cubic_small_beta_hangs [of "cubic_of (sample_composite ''TcpCubic'' (Fin (1 / 8)) (Fin (1 / 2)))\<lparr>m_ackCnt := 1\<rparr>" 2 100]
  by (simp add: sample_composite_def)

section \<open>The composite\<close>

lemma composite_scale_one: "composite_scale (Fin 1) = None"
proof -
  have "d_mul (Fin 1) (Fin 1024) = Fin 1024" using fl_nat [of 1024] by simp
  moreover have "d_sub (Fin 1024) (Fin 1024) = Fin 0" using d_sub_nat [of 1024 1024] by simp
  moreover have "to_u32 (d_div x (Fin 0)) = None" for x by (cases x) simp_all
  ultimately show ?thesis unfolding composite_scale_def by (simp only:)
qed

text \<open>Rules that follow a body whose last call has no result.\<close>

lemma none_let_object:
  fixes x :: tcp_composite
  shows "P x \<Longrightarrow> (\<And>z. P z \<Longrightarrow> f z = None) \<Longrightarrow> Let x f = None"
  by (simp add: Let_def)

lemma none_let: "(\<And>z. f z = None) \<Longrightarrow> Let x f = None"
  by (simp add: Let_def)

lemma none_last:
  fixes x :: "(tcp_composite \<times> uint32) option"
  shows "x = None \<Longrightarrow> x \<bind> f = None"
  by simp

lemma none_bind: "(\<And>z. f z = None) \<Longrightarrow> Option.bind x f = None"
  by (cases x) simp_all

lemma composite_Update_undefined:
  assumes "m_tcpFriendliness c" "m_firstPar c = Fin 1"
  shows "composite_Update pw secs now c tcb acked = None"
  unfolding composite_Update_def using assms
  by (intro none_let_object [where P = "\<lambda>c. m_tcpFriendliness c \<and> m_firstPar c = Fin 1"] none_let none_last none_bind;
      simp add: composite_friendly_def composite_scale_one composite_epoch_def Let_def)

text \<open>
  C34. The default of the parameter \<open>FirstPolicyFirstParameter\<close> is 1, a scale factor for NewReno.
  Under the policy \<open>TcpCubic\<close> it is the multiplicative decrease, and the friendliness heuristic,
  which is on by default, divides by zero: congestion avoidance has no defined result.
\<close>

theorem composite_default_parameter_undefined:
  assumes "m_policy c = ''TcpCubic''" "m_firstPar c = Fin 1" "m_tcpFriendliness c"
    and "m_ssThresh tcb \<le> m_cWnd tcb" "0 < acked"
  shows "composite_IncreaseWindow pw secs now c tcb acked = None"
proof -
  have "\<not> m_cWnd tcb < m_ssThresh tcb" using assms(4) by simp
  then show ?thesis using assms by (simp add: composite_IncreaseWindow_def composite_Update_undefined)
qed

theorem composite_default_parameter_undefined_witness:
  "composite_IncreaseWindow (\<lambda>x y. x) (\<lambda>t. Fin 0) 7 (sample_composite ''TcpCubic'' (Fin 1) (Fin 2)) (sample_tcb 3000 2000) 1 = None"
  using composite_default_parameter_undefined [of "sample_composite ''TcpCubic'' (Fin 1) (Fin 2)" "sample_tcb 3000 2000" 1]
  by (simp add: sample_composite_def sample_tcb_def)

lemma uint_of_int32:
  assumes "0 \<le> k" "k < 2 ^ 32" shows "uint (of_int k :: uint32) = k"
proof -
  have "uint (of_int k :: uint32) = take_bit 32 k" by (simp only: unsigned_of_int) simp
  also have "\<dots> = k" using assms by (intro take_bit_int_eq_self)
  finally show ?thesis .
qed

text \<open>
  C29. \<open>Init\<close> starts the first policy, and once the calls it has scheduled are made, in their order,
  the object runs the second policy with the parameters of the second policy; nothing else of it has
  changed. The window has changed by \<open>SecondCwndDiff\<close> segments whenever that is a 32-bit value.
\<close>

theorem composite_switch:
  assumes "composite_Init c = (c0, calls)" "fold invoke (map snd calls) (c1, tcb) = (c2, tcb')"
    and "0 \<le> int (unat (m_cWnd tcb)) + m_secondCwndDiff c * int (unat (m_segmentSize tcb))"
    and "int (unat (m_cWnd tcb)) + m_secondCwndDiff c * int (unat (m_segmentSize tcb)) < 2 ^ 32"
  shows "m_policy c0 = m_policyFirst c \<and> m_firstPar c0 = m_firstParFirst c \<and> m_secondPar c0 = m_secondParFirst c \<and>
    map fst calls = replicate 4 (m_switchTime c) \<and>
    c2 = c1\<lparr>m_policy := m_policySecond c, m_firstPar := m_firstParSecond c, m_secondPar := m_secondParSecond c\<rparr> \<and>
    int (unat (m_cWnd tcb')) = int (unat (m_cWnd tcb)) + m_secondCwndDiff c * int (unat (m_segmentSize tcb))"
proof -
  let ?w = "int (unat (m_cWnd tcb)) + m_secondCwndDiff c * int (unat (m_segmentSize tcb))"
  have "m_cWnd tcb + of_int (m_secondCwndDiff c) * m_segmentSize tcb = of_int ?w" by simp
  moreover have "uint (of_int ?w :: uint32) = ?w" by (rule uint_of_int32 [OF assms(3,4)])
  moreover have t: "m_cWnd tcb' = m_cWnd tcb + of_int (m_secondCwndDiff c) * m_segmentSize tcb"
    using assms(1,2) by (auto simp: composite_Init_def composite_SetPolicy_def composite_SetFirstPar_def
        composite_SetSecondPar_def composite_ChangeCwnd_def Let_def)
  ultimately have "int (unat (m_cWnd tcb')) = ?w" by simp
  then show ?thesis using assms(1,2)
    by (auto simp: composite_Init_def composite_SetPolicy_def composite_SetFirstPar_def
        composite_SetSecondPar_def Let_def numeral_eq_Suc)
qed

theorem composite_switch_witness:
  "case fold invoke (map snd (snd (composite_Init (sample_composite ''TcpNewReno'' (Fin 1) (Fin 2)))))
      (fst (composite_Init (sample_composite ''TcpNewReno'' (Fin 1) (Fin 2))), sample_tcb 9000 2000) of
     (c, tcb) \<Rightarrow> m_policy c = ''TcpCubic'' \<and> int (unat (m_cWnd tcb)) = 6000"
proof -
  obtain c0 calls where i: "composite_Init (sample_composite ''TcpNewReno'' (Fin 1) (Fin 2)) = (c0, calls)" by fastforce
  obtain c tcb where r: "fold invoke (map snd calls) (c0, sample_tcb 9000 2000) = (c, tcb)" by fastforce
  show ?thesis using composite_switch [OF i r] i r by (simp add: sample_composite_def sample_tcb_def)
qed

lemma policyless_init:
  assumes "composite_Init (composite_copy raw sock) = (c0, calls)"
  shows "m_policy c0 = []" "m_policy c = [] \<Longrightarrow> m_policy (fst (fold invoke (map snd calls) (c, tcb))) = []"
  using assms by (auto simp: composite_Init_def composite_copy_def composite_SetPolicy_def composite_SetFirstPar_def
      composite_SetSecondPar_def composite_ChangeCwnd_def Let_def)

lemma policyless_run:
  "run_cc (composite_step pw secs) es (c, tcb) = Some (c', tcb') \<Longrightarrow> m_policy c = [] \<Longrightarrow> m_policy c' = []"
proof (induction es arbitrary: c tcb)
  case (Cons e es)
  obtain now ev where e: "e = (now, ev)" by (cases e)
  obtain c1 t1 where s: "composite_step pw secs (now, ev) (c, tcb) = Some (c1, t1)"
      "run_cc (composite_step pw secs) es (c1, t1) = Some (c', tcb')"
    using Cons.prems(1) by (auto simp: e bind_eq_Some_conv)
  have "m_policy c1 = []" using same_policy_step [OF s(1)] Cons.prems(2) by (simp add: same_policy_def)
  with Cons.IH [OF s(2)] show ?case .
qed simp

text \<open>
  C33. A copy of a composite, which is what an accepted connection gets from \<open>Fork\<close>, has lost its
  policies, whatever was configured and whatever memory the copy is made in. After \<open>Init\<close>, in every state
  that any sequence of calls leads to, before the scheduled switch of the policy and after it, no
  acknowledgement changes the socket, and \<open>GetSsThresh\<close> returns the largest value there is whenever it
  returns. It returns but for one case: with a window below \<open>m_lastMaxCwnd\<close>, fast convergence converts
  a multiple of the window by the uninitialised \<open>m_firstPar\<close> to an integer first, which can be undefined.
\<close>

theorem composite_copy_loses_policy:
  assumes "composite_Init (composite_copy raw sock) = (c0, calls)"
    and "run_cc (composite_step pw secs) es (c0, t0) = Some (c1, t1)"
    and "run_cc (composite_step pw secs) es' (fold invoke (map snd calls) (c1, t1)) = Some (c2, t2)"
    and "(c, tcb) \<in> {(c1, t1), (c2, t2)}" "m_segmentSize tcb \<noteq> 0"
  shows "map_option snd (composite_IncreaseWindow pw' secs' now c tcb acked) = Some tcb \<and>
    map_option snd (composite_GetSsThresh c tcb bif) \<in> {None, Some 0xFFFFFFFF} \<and>
    (\<not> (m_cWnd tcb div m_segmentSize tcb < m_lastMaxCwnd c \<and> m_fastConvergence c) \<longrightarrow>
      map_option snd (composite_GetSsThresh c tcb bif) = Some 0xFFFFFFFF)"
proof -
  have p1: "m_policy c1 = []" using policyless_run [OF assms(2)] policyless_init(1) [OF assms(1)] .
  obtain c1' t1' where s: "fold invoke (map snd calls) (c1, t1) = (c1', t1')" by fastforce
  have "m_policy c1' = []" using policyless_init(2) [OF assms(1) p1, of t1] s by simp
  then have "m_policy c2 = []" using policyless_run assms(3) unfolding s by blast
  with p1 assms(4) have p: "m_policy c = []" by auto
  have max: "(- 1 :: uint32) = 0xFFFFFFFF" by simp
  from p have g: "composite_GetSsThresh c tcb bif =
      Option.bind (if m_cWnd tcb div m_segmentSize tcb < m_lastMaxCwnd c \<and> m_fastConvergence c
        then to_u32 (d_div (d_mul (of_u32 (m_cWnd tcb div m_segmentSize tcb)) (d_add (Fin 1) (m_firstPar c))) (Fin 2))
        else Some (m_cWnd tcb div m_segmentSize tcb))
      (\<lambda>n. Some (c\<lparr>m_lastMaxCwnd := n, m_epochStart := Time_Min\<rparr>, 0xFFFFFFFF))"
    using assms(5) by (simp add: max composite_GetSsThresh_def GetCwndInSegments_def udiv32_def Let_def)
  have "map_option snd (composite_IncreaseWindow pw' secs' now c tcb acked) = Some tcb"
    using p by (auto simp: composite_IncreaseWindow_def composite_HystartReset_def Let_def)
  then show ?thesis unfolding g by (auto simp: map_option_case split: bind_splits option.splits)
qed

text \<open>
  A copy whose memory holds a first parameter of 1 opens no window on an acknowledgement, a loss follows at
  a smaller window than \<open>m_lastMaxCwnd\<close>, and after the switch it still answers with the largest threshold.
\<close>

definition copied_composite :: tcp_composite where
  "copied_composite = composite_copy (sample_composite ''TcpCubic'' (Fin 0) (Fin 0)) (sample_composite ''TcpNewReno'' (Fin 1) (Fin 2))"

theorem composite_copy_loses_policy_witness:
  "\<exists>c0 calls c1 t1 c2 t2. composite_Init copied_composite = (c0, calls) \<and>
     run_cc (composite_step (\<lambda>x y. x) (\<lambda>t. Fin 0)) [(7, Ack 2), (8, Loss 3000)] (c0, sample_tcb 3000 9000) = Some (c1, t1) \<and>
     run_cc (composite_step (\<lambda>x y. x) (\<lambda>t. Fin 0)) [(9, Socket (\<lambda>t. sample_tcb 5000 1000)), (9, Ack 2)]
       (fold invoke (map snd calls) (c1, t1)) = Some (c2, t2) \<and> m_lastMaxCwnd c2 = 3 \<and> m_cWnd t2 = 5000 \<and>
     map_option snd (composite_IncreaseWindow (\<lambda>x y. x) (\<lambda>t. Fin 0) 10 c2 t2 2) = Some t2 \<and>
     map_option snd (composite_GetSsThresh c2 t2 3000) = Some 0xFFFFFFFF"
proof -
  obtain c0 calls where i: "composite_Init copied_composite = (c0, calls)" by fastforce
  have cs: "fst (composite_Init copied_composite) = c0" "snd (composite_Init copied_composite) = calls" using i by simp_all
  have "\<exists>c1 t1 c2 t2.
     run_cc (composite_step (\<lambda>x y. x) (\<lambda>t. Fin 0)) [(7, Ack 2), (8, Loss 3000)] (c0, sample_tcb 3000 9000) = Some (c1, t1) \<and>
     run_cc (composite_step (\<lambda>x y. x) (\<lambda>t. Fin 0)) [(9, Socket (\<lambda>t. sample_tcb 5000 1000)), (9, Ack 2)]
       (fold invoke (map snd calls) (c1, t1)) = Some (c2, t2) \<and> m_lastMaxCwnd c2 = 3 \<and> t2 = sample_tcb 5000 1000"
    unfolding cs [symmetric]
    by (simp add: copied_composite_def composite_Init_def composite_copy_def composite_SetPolicy_def composite_SetFirstPar_def
        composite_SetSecondPar_def composite_ChangeCwnd_def sample_composite_def sample_tcb_def composite_IncreaseWindow_def
        composite_GetSsThresh_def composite_HystartReset_def GetCwndInSegments_def udiv32_def seq_gt_def Let_def)
  then obtain c1 t1 c2 t2 where r:
     "run_cc (composite_step (\<lambda>x y. x) (\<lambda>t. Fin 0)) [(7, Ack 2), (8, Loss 3000)] (c0, sample_tcb 3000 9000) = Some (c1, t1)"
     "run_cc (composite_step (\<lambda>x y. x) (\<lambda>t. Fin 0)) [(9, Socket (\<lambda>t. sample_tcb 5000 1000)), (9, Ack 2)]
       (fold invoke (map snd calls) (c1, t1)) = Some (c2, t2)" "m_lastMaxCwnd c2 = 3" "t2 = sample_tcb 5000 1000" by blast
  have "\<not> (m_cWnd t2 div m_segmentSize t2 < m_lastMaxCwnd c2 \<and> m_fastConvergence c2)" "m_segmentSize t2 \<noteq> 0"
    using r(3,4) by (simp_all add: sample_tcb_def)
  with composite_copy_loses_policy [OF i [unfolded copied_composite_def] r(1,2), of c2 t2] i r show ?thesis
    by (fastforce simp: sample_tcb_def)
qed

section \<open>The composite under NewReno\<close>

fun newreno_step :: "tcp_newreno \<Rightarrow> time \<times> cc_event \<Rightarrow> tcb \<Rightarrow> tcb option" where
  "newreno_step nr (now, Ack n) tcb = newreno_IncreaseWindow nr tcb n"
| "newreno_step nr (now, Sample rtt) tcb = Some tcb"
| "newreno_step nr (now, Loss bif) tcb =
     do { v \<leftarrow> newreno_GetSsThresh nr tcb bif; Some (tcb\<lparr>m_ssThresh := v\<rparr>) }"
| "newreno_step nr (now, State st) tcb = Some (tcb\<lparr>m_congState := st\<rparr>)"
| "newreno_step nr (now, Socket f) tcb = Some (f tcb)"

text \<open>Hybrid slow start leaves the socket alone under NewReno.\<close>

lemma composite_Hystart_newreno:
  assumes "composite_HystartUpdate now c tcb rtt = Some (c', tcb')" "m_policy c = ''TcpNewReno''"
  shows "tcb' = tcb"
proof -
  have "pred_option (\<lambda>(c', t). same_policy c c' \<and> t = tcb) (composite_HystartUpdate now c tcb rtt)"
  proof -
    have "keeps c (composite_HystartUpdate now c tcb rtt)" by (rule keeps_Hystart [OF same_policy_refl])
    moreover have "pred_option (\<lambda>(c', t). m_policy c' = ''TcpNewReno'' \<longrightarrow> t = tcb) (composite_HystartUpdate now c tcb rtt)"
      unfolding composite_HystartUpdate_def by (auto simp: pred_option_bind pred_option_def bind_eq_Some_conv)
    ultimately show ?thesis using assms(2) by (cases "composite_HystartUpdate now c tcb rtt") (auto simp: same_policy_def)
  qed
  with assms(1) show ?thesis by simp
qed

lemma half_double: "to_u32 (d_div (d_mul (of_u32 s) (d_add (Fin 1) (Fin 1))) (Fin 2)) = Some s"
proof -
  have n: "unat s * 2 < 2 ^ 53" "unat s < 2 ^ 53" using unat_lt32 [of s] by simp_all
  have "d_add (Fin 1) (Fin 1) = Fin 2" using fl_nat [of 2] by simp
  moreover have "d_mul (Fin (of_nat (unat s))) (Fin 2) = Fin (of_nat (unat s * 2))"
    using fl_nat [OF n(1)] by (simp only: d_mul.simps of_nat_mult of_nat_numeral)
  moreover have "d_div (Fin (of_nat (unat s * 2))) (Fin 2) = Fin (of_nat (unat s))"
    using fl_nat [OF n(2)] by (simp only: d_div.simps of_nat_mult of_nat_numeral) simp
  moreover have "to_u32 (Fin (of_nat (unat s))) = Some s"
    using to_u32_nat [of "unat s"] unat_lt32 [of s] by (simp only: word_nat_cancel) simp
  ultimately show ?thesis by (simp only: of_u32_nat)
qed

lemma composite_GetSsThresh_newreno:
  assumes "m_policy c = ''TcpNewReno''" "to_u32 (m_secondPar c) = Some beta"
    and "composite_GetSsThresh c tcb bif = Some (c', v)"
  shows "newreno_GetSsThresh (newreno_of c beta) tcb bif = Some v"
  using assms by (auto simp: composite_GetSsThresh_def newreno_GetSsThresh_def newreno_of_def Let_def bind_eq_Some_conv)

text \<open>
  Under the policy \<open>TcpNewReno\<close> the composite's \<open>IncreaseWindow\<close> does to the socket exactly
  what NewReno's does with the first parameter as its scale factor, whatever the parameter is, and
  with the default scale factor 1 and the divisor given by the second parameter \<open>GetSsThresh\<close> gives
  NewReno's threshold.
\<close>

theorem composite_is_newreno:
  assumes "m_policy c = ''TcpNewReno''" "to_u32 (m_secondPar c) = Some beta"
  shows "map_option snd (composite_IncreaseWindow pw secs now c tcb acked) =
      newreno_IncreaseWindow \<lparr>m_renoAlpha = m_firstPar c, m_renoBeta = beta\<rparr> tcb acked \<and>
    (m_firstPar c = Fin 1 \<longrightarrow> m_segmentSize tcb \<noteq> 0 \<longrightarrow>
      map_option snd (composite_GetSsThresh c tcb bif) =
      newreno_GetSsThresh \<lparr>m_renoAlpha = m_firstPar c, m_renoBeta = beta\<rparr> tcb bif)"
proof -
  have "map_option snd (composite_GetSsThresh c tcb bif) = newreno_GetSsThresh (newreno_of c beta) tcb bif"
    if "m_firstPar c = Fin 1" "m_segmentSize tcb \<noteq> 0"
  proof -
    have g: "GetCwndInSegments tcb = Some (m_cWnd tcb div m_segmentSize tcb)"
      using that(2) by (simp add: GetCwndInSegments_def)
    show ?thesis using assms that(1)
      by (simp add: composite_GetSsThresh_def newreno_GetSsThresh_def newreno_of_def g half_double Let_def
          Option.map_option_bind comp_def del: d_add.simps)
  qed
  then show ?thesis
    using composite_IncreaseWindow_newreno [OF assms(1), of pw secs now tcb acked beta] by (simp add: newreno_of_def)
qed

theorem composite_is_newreno_witness:
  "map_option snd (composite_GetSsThresh (sample_composite ''TcpNewReno'' (Fin 1) (Fin 2)) (sample_tcb 9000 2000) 9000) =
   newreno_GetSsThresh \<lparr>m_renoAlpha = Fin 1, m_renoBeta = 2\<rparr> (sample_tcb 9000 2000) 9000"
proof -
  have "to_u32 (Fin 2) = Some 2" using to_u32_nat [of 2] by simp
  then show ?thesis using composite_is_newreno [of "sample_composite ''TcpNewReno'' (Fin 1) (Fin 2)" 2]
    by (simp add: sample_composite_def sample_tcb_def)
qed

section \<open>Recovery\<close>

text \<open>
  C32. While more data is in flight than the threshold, proportional rate reduction opens the window
  by the quota of RFC 6937: the data in flight plus the excess of
  \<open>ceil (prr_delivered * ssthresh / RecoverFS)\<close> over what was sent, but at least one segment while
  nothing has been sent. The code computes this with a 32-bit product and doubles; it is exact as
  long as the product fits.
\<close>

theorem prr_quota:
  assumes "m_ssThresh tcb < m_bytesInFlight tcb" "m_recoveryFlightSize p \<noteq> 0"
    and "D = unat (m_prrDelivered p + delivered)" "D * unat (m_ssThresh tcb) < 2 ^ 32"
    and "quota = ceil_div (D * unat (m_ssThresh tcb)) (unat (m_recoveryFlightSize p))" "quota < 2 ^ 31"
    and "unat (m_prrOut p) < 2 ^ 31" "unat (m_segmentSize tcb) < 2 ^ 31"
    and "window = unat (m_bytesInFlight tcb) +
           max (quota - unat (m_prrOut p)) (if m_prrOut p = 0 then unat (m_segmentSize tcb) else 0)" "window < 2 ^ 32"
  shows "\<exists>p' tcb'. prr_DoRecovery p tcb delivered = Some (p', tcb') \<and>
    unat (m_cWnd tcb') = window \<and> m_cWndInfl tcb' = m_cWnd tcb'"
proof -
  let ?p = "p\<lparr>m_prrDelivered := m_prrDelivered p + delivered\<rparr>"
  have "unat ((m_prrDelivered p + delivered) * m_ssThresh tcb) = D * unat (m_ssThresh tcb)"
    using assms(3,4) by (simp add: unat_word_ariths)
  then have k: "prr_sendCount ?p tcb delivered = Some (int quota - int (unat (m_prrOut p)))"
    using prr_sendCount_proportional [of tcb ?p delivered] assms(1,2,5-7) by simp
  have n: "nat (int quota - int (unat (m_prrOut p))) = quota - unat (m_prrOut p)" by linarith
  have f: "(if m_prrOut p > 0 then 0 else unat (m_segmentSize tcb)) = (if m_prrOut p = 0 then unat (m_segmentSize tcb) else 0)"
    by (simp add: word_neq_0_conv [symmetric] del: word_neq_0_conv)
  show ?thesis using prr_DoRecovery_window [OF k assms(8)] assms(9,10) by (simp only: n f) blast
qed

theorem prr_quota_witness:
  "\<exists>p' tcb'. prr_DoRecovery \<lparr>m_prrDelivered = 0, m_prrOut = 1, m_recoveryFlightSize = 20000, m_reductionBoundMode = SSRB\<rparr>
     (sample_tcb 15000 10000) 3000 = Some (p', tcb') \<and> unat (m_cWnd tcb') = 15000 + 1499 \<and> m_cWndInfl tcb' = m_cWnd tcb'"
  using prr_quota [of "sample_tcb 15000 10000" "\<lparr>m_prrDelivered = 0, m_prrOut = 1, m_recoveryFlightSize = 20000, m_reductionBoundMode = SSRB\<rparr>"
      3000 3000 1500 16499] by (simp add: sample_tcb_def ceil_div_def)

text \<open>
  At or below the threshold the window never exceeds it: it lies between the data in flight and
  the larger of the threshold and one segment more than the data in flight.
\<close>

theorem prr_bound:
  assumes "m_bytesInFlight tcb \<le> m_ssThresh tcb" "unat (m_ssThresh tcb) - unat (m_bytesInFlight tcb) < 2 ^ 31"
    and "unat (m_segmentSize tcb) < 2 ^ 31" "unat (m_bytesInFlight tcb) + unat (m_segmentSize tcb) < 2 ^ 32"
  shows "\<exists>p' tcb'. prr_DoRecovery p tcb delivered = Some (p', tcb') \<and>
    unat (m_bytesInFlight tcb) \<le> unat (m_cWnd tcb') \<and>
    unat (m_cWnd tcb') \<le> max (unat (m_ssThresh tcb)) (unat (m_bytesInFlight tcb) + unat (m_segmentSize tcb))"
proof -
  obtain k where k: "prr_sendCount (p\<lparr>m_prrDelivered := m_prrDelivered p + delivered\<rparr>) tcb delivered = Some k"
    and b: "nat k \<le> unat (m_ssThresh tcb) - unat (m_bytesInFlight tcb)"
    using prr_sendCount_bound [OF assms(1,2)] by blast
  have le: "unat (m_bytesInFlight tcb) \<le> unat (m_ssThresh tcb)" using assms(1) by (simp only: word_le_nat_alt)
  have "unat (m_bytesInFlight tcb) + max (nat k) (prr_floor p tcb)
      \<le> max (unat (m_ssThresh tcb)) (unat (m_bytesInFlight tcb) + unat (m_segmentSize tcb))"
    using b le by auto
  moreover from this have "unat (m_bytesInFlight tcb) + max (nat k) (prr_floor p tcb) < 2 ^ 32"
    using assms(4) unat_lt32 [of "m_ssThresh tcb"] by simp
  ultimately show ?thesis using prr_DoRecovery_window [OF k assms(3)] by fastforce
qed

theorem prr_bound_witness:
  "\<exists>p' tcb'. prr_DoRecovery \<lparr>m_prrDelivered = 0, m_prrOut = 1, m_recoveryFlightSize = 20000, m_reductionBoundMode = CRB\<rparr>
     (sample_tcb 8000 10000) 3000 = Some (p', tcb') \<and> 8000 \<le> unat (m_cWnd tcb') \<and> unat (m_cWnd tcb') \<le> 10000"
  using prr_bound [of "sample_tcb 8000 10000" "\<lparr>m_prrDelivered = 0, m_prrOut = 1, m_recoveryFlightSize = 20000, m_reductionBoundMode = CRB\<rparr>" 3000]
  by (simp add: sample_tcb_def)

text \<open>
  The product does not always fit. With 100000 bytes delivered, a threshold of 100000 bytes and
  200000 bytes in flight at the start, the quota is 50000 bytes, and 49999 when one byte was sent;
  the code lets 7050 bytes go.
\<close>

theorem prr_product_wraps:
  "map_option (\<lambda>(p, tcb). m_cWnd tcb)
     (prr_DoRecovery \<lparr>m_prrDelivered = 0, m_prrOut = 1, m_recoveryFlightSize = 200000, m_reductionBoundMode = SSRB\<rparr>
       \<lparr>m_cWnd = 150000, m_cWndInfl = 150000, m_ssThresh = 100000, m_isRetransDataAcked = False, m_segmentSize = 536,
        m_lastAckedSeq = 0, m_congState = CA_RECOVERY, m_highTxMark = 0, m_bytesInFlight = 150000,
        m_ecnState = ECN_DISABLED, m_nextTxSequence = 0, m_lastRtt = 0, m_lastAckedSackedBytes = 0\<rparr> 100000) =
     Some (150000 + 7050) \<and>
   ceil_div (100000 * 100000) 200000 - 1 = 49999"
proof -
  let ?p = "\<lparr>m_prrDelivered = 0, m_prrOut = 1, m_recoveryFlightSize = 200000, m_reductionBoundMode = SSRB\<rparr>"
  let ?t = "\<lparr>m_cWnd = 150000, m_cWndInfl = 150000, m_ssThresh = 100000, m_isRetransDataAcked = False, m_segmentSize = 536,
        m_lastAckedSeq = 0, m_congState = CA_RECOVERY, m_highTxMark = 0, m_bytesInFlight = 150000,
        m_ecnState = ECN_DISABLED, m_nextTxSequence = 0, m_lastRtt = 0, m_lastAckedSackedBytes = 0\<rparr> :: tcb"
  have c: "ceil_div 1410065408 200000 = 7051" "ceil_div (100000 * 100000) 200000 = 50000" by (simp_all add: ceil_div_def)
  have "prr_sendCount (?p\<lparr>m_prrDelivered := m_prrDelivered ?p + 100000\<rparr>) ?t 100000 = Some 7050"
    by (subst prr_sendCount_proportional) (simp_all add: c)
  then have "map_option (\<lambda>(p, tcb). m_cWnd tcb) (prr_DoRecovery ?p ?t 100000) = Some (150000 + 7050)"
    unfolding prr_DoRecovery_def Let_def by simp
  then show ?thesis by (simp only: c(2)) simp
qed

section \<open>Runs of the composite under NewReno\<close>

lemma composite_PktsAcked_newreno:
  assumes "composite_PktsAcked now c tcb rtt = Some (c', tcb')" "m_policy c = ''TcpNewReno''"
  shows "tcb' = tcb"
  using assms unfolding composite_PktsAcked_def Let_def
  by (auto simp: bind_eq_Some_conv split: if_splits dest: composite_Hystart_newreno)

lemma composite_step_newreno:
  assumes "m_policy c = ''TcpNewReno''" "to_u32 (m_secondPar c) = Some beta"
    and "composite_step pw secs (now, e) (c, tcb) = Some (c', tcb')"
  shows "newreno_step (newreno_of c beta) (now, e) tcb = Some tcb'"
proof (cases e)
  case (Ack n)
  then show ?thesis using composite_IncreaseWindow_newreno [OF assms(1), of pw secs now tcb n beta] assms(3) by simp
next
  case (Loss bif)
  then show ?thesis using composite_GetSsThresh_newreno [OF assms(1,2), of tcb bif] assms(3)
    by (auto simp: bind_eq_Some_conv)
next
  case (Sample rtt)
  then show ?thesis using composite_PktsAcked_newreno [of now c tcb rtt c' tcb'] assms(1,3) by simp
qed (use assms in auto)

text \<open>
  C28. For every sequence of calls, at any times and with any changes of the socket state between
  them, a run of the composite under the policy \<open>TcpNewReno\<close> that is defined leaves the socket in
  the state in which NewReno leaves it.
\<close>

theorem composite_refines_newreno:
  assumes "m_policy c = ''TcpNewReno''" "to_u32 (m_secondPar c) = Some beta"
    and "run_cc (composite_step pw secs) es (c, tcb) = Some (c', tcb')"
  shows "run_cc (newreno_step \<lparr>m_renoAlpha = m_firstPar c, m_renoBeta = beta\<rparr>) es tcb = Some tcb'"
  using assms
proof (induction es arbitrary: c tcb)
  case (Cons e es)
  obtain now ev where e: "e = (now, ev)" by (cases e)
  obtain c1 tcb1 where step: "composite_step pw secs (now, ev) (c, tcb) = Some (c1, tcb1)"
    and rest: "run_cc (composite_step pw secs) es (c1, tcb1) = Some (c', tcb')"
    using Cons.prems(3) e by (auto simp: bind_eq_Some_conv)
  have "same_policy c c1" using step by (rule same_policy_step)
  then show ?case using Cons.IH [OF _ _ rest] Cons.prems(1,2) composite_step_newreno [OF Cons.prems(1,2) step]
    by (simp add: e same_policy_def newreno_of_def)
qed simp

theorem composite_refines_newreno_witness:
  "run_cc (newreno_step \<lparr>m_renoAlpha = Fin 1, m_renoBeta = 2\<rparr>) [(1, Ack 1), (2, State CA_LOSS)] (sample_tcb 3000 9000) =
   Some (sample_tcb 3000 9000\<lparr>m_cWnd := 4000, m_congState := CA_LOSS\<rparr>)"
proof -
  let ?c = "sample_composite ''TcpNewReno'' (Fin 1) (Fin 2)"
  let ?nr = "\<lparr>m_renoAlpha = Fin 1, m_renoBeta = 2\<rparr>"
  have p: "m_policy ?c = ''TcpNewReno''" "newreno_of ?c 2 = ?nr" by (simp_all add: sample_composite_def newreno_of_def)
  have "newreno_IncreaseWindow ?nr (sample_tcb 3000 9000) 1 = Some (sample_tcb 3000 9000\<lparr>m_cWnd := 4000\<rparr>)"
    using newreno_IncreaseWindow_int [of 1 0 ?nr "sample_tcb 3000 9000" 1]
    by (simp add: scale_is_def sample_tcb_def reno_window_def scaled_def)
  then obtain c1 where "composite_IncreaseWindow (\<lambda>x y. x) (\<lambda>t. Fin 0) 1 ?c (sample_tcb 3000 9000) 1 =
      Some (c1, sample_tcb 3000 9000\<lparr>m_cWnd := 4000\<rparr>)"
    using composite_IncreaseWindow_newreno [OF p(1), of "\<lambda>x y. x" "\<lambda>t. Fin 0" 1 "sample_tcb 3000 9000" 1 2, unfolded p(2)]
    by auto
  then have "\<exists>c'. run_cc (composite_step (\<lambda>x y. x) (\<lambda>t. Fin 0)) [(1, Ack 1), (2, State CA_LOSS)] (?c, sample_tcb 3000 9000) =
      Some (c', sample_tcb 3000 9000\<lparr>m_cWnd := 4000, m_congState := CA_LOSS\<rparr>)"
    by simp
  moreover have "to_u32 (Fin 2) = Some 2" using to_u32_nat [of 2] by simp
  ultimately show ?thesis using composite_refines_newreno [of ?c 2] by (fastforce simp: sample_composite_def)
qed

end
