(* ===== verification/TxBuffer.thy ===== *)
theory TxBuffer
  imports SeqNum
begin

text \<open>
  \<open>TcpTxBuffer\<close> and \<open>TcpTxItem\<close> (\<open>internet/model/tcp-tx-buffer.cc\<close>, \<open>tcp-tx-item.cc\<close>), the
  send buffer with its scoreboard. A packet is the list of its bytes. Both lists are
  \<open>std::list\<close>s of items: the field \<open>node\<close> names the list node an item occupies, a fresh one with
  every insertion, so that the iterator in \<open>m_highestSack\<close> can be tested for the item it points
  to. Reading through an iterator that points nowhere is undefined and gives \<open>None\<close>, like a failed
  assertion. \<open>Simulator::Now\<close> and the receiver window callback are arguments; the items a callback
  would be called with are returned. \<open>RateInformation\<close> is not read by the buffer and left out.
\<close>

section \<open>Items and the buffer\<close>

type_synonym packet = "uint8 list"

record tx_item =
  node :: nat
  m_packet :: packet
  m_startSeq :: seq32
  m_lost :: bool
  m_retrans :: bool
  m_sacked :: bool
  m_lastSent :: int

definition GetSize :: "packet \<Rightarrow> uint32" where
  "GetSize p = of_nat (length p)"

definition Time_Max :: int where
  "Time_Max = 9223372036854775807"

definition new_item :: "nat \<Rightarrow> packet \<Rightarrow> tx_item" where
  "new_item n p = \<lparr>node = n, m_packet = p, m_startSeq = 0, m_lost = False, m_retrans = False,
     m_sacked = False, m_lastSent = Time_Max\<rparr>"

definition GetSeqSize :: "tx_item \<Rightarrow> uint32" where
  "GetSeqSize i = (if GetSize (m_packet i) > 0 then GetSize (m_packet i) else 1)"

datatype item_it = Singular | EndIt | AtNode nat

record tx_buffer =
  m_appList :: "tx_item list"
  m_sentList :: "tx_item list"
  m_maxBuffer :: uint32
  m_size :: uint32
  m_sentSize :: uint32
  m_firstByteSeq :: seq32
  m_highestSack :: "item_it \<times> seq32"
  m_lostOut :: uint32
  m_sackedOut :: uint32
  m_retransOut :: uint32
  m_dupAckThresh :: uint32
  m_segmentSize :: uint32
  m_renoSack :: bool
  m_sackEnabled :: bool
  next_node :: nat

definition new_tx_buffer :: "uint32 \<Rightarrow> tx_buffer" where
  "new_tx_buffer n =
     \<lparr>m_appList = [], m_sentList = [], m_maxBuffer = 32768, m_size = 0, m_sentSize = 0,
      m_firstByteSeq = n, m_highestSack = (Singular, 0), m_lostOut = 0, m_sackedOut = 0,
      m_retransOut = 0, m_dupAckThresh = 0, m_segmentSize = 0, m_renoSack = False,
      m_sackEnabled = True, next_node = 0\<rparr>"

section \<open>Accessors\<close>

definition HeadSequence :: "tx_buffer \<Rightarrow> seq32" where
  "HeadSequence b = m_firstByteSeq b"

definition TailSequence :: "tx_buffer \<Rightarrow> seq32" where
  "TailSequence b = m_firstByteSeq b + m_size b"

definition Size :: "tx_buffer \<Rightarrow> uint32" where
  "Size b = m_size b"

definition MaxBufferSize :: "tx_buffer \<Rightarrow> uint32" where
  "MaxBufferSize b = m_maxBuffer b"

definition SetMaxBufferSize :: "uint32 \<Rightarrow> tx_buffer \<Rightarrow> tx_buffer" where
  "SetMaxBufferSize n b = b\<lparr>m_maxBuffer := n\<rparr>"

definition IsSackEnabled :: "tx_buffer \<Rightarrow> bool" where
  "IsSackEnabled b = m_sackEnabled b"

definition SetSackEnabled :: "bool \<Rightarrow> tx_buffer \<Rightarrow> tx_buffer" where
  "SetSackEnabled enabled b = b\<lparr>m_sackEnabled := enabled\<rparr>"

definition Available :: "tx_buffer \<Rightarrow> uint32" where
  "Available b = m_maxBuffer b - m_size b"

definition SetDupAckThresh :: "uint32 \<Rightarrow> tx_buffer \<Rightarrow> tx_buffer" where
  "SetDupAckThresh n b = b\<lparr>m_dupAckThresh := n\<rparr>"

definition SetSegmentSize :: "uint32 \<Rightarrow> tx_buffer \<Rightarrow> tx_buffer" where
  "SetSegmentSize n b = b\<lparr>m_segmentSize := n\<rparr>"

definition GetRetransmitsCount :: "tx_buffer \<Rightarrow> uint32" where
  "GetRetransmitsCount b = m_retransOut b"

definition GetLost :: "tx_buffer \<Rightarrow> uint32" where
  "GetLost b = m_lostOut b"

definition GetSacked :: "tx_buffer \<Rightarrow> uint32" where
  "GetSacked b = m_sackedOut b"

definition SetHeadSequence :: "seq32 \<Rightarrow> tx_buffer \<Rightarrow> tx_buffer option" where
  "SetHeadSequence s b =
     do {
       ns_assert (m_sentList b = []);
       Some (b\<lparr>m_firstByteSeq := s, m_highestSack := (EndIt, 0)\<rparr>)
     }"

section \<open>Application data\<close>

definition Add :: "packet \<Rightarrow> tx_buffer \<Rightarrow> bool \<times> tx_buffer" where
  "Add p b =
     (if GetSize p \<le> Available b
      then if GetSize p > 0
        then (True, b\<lparr>m_appList := m_appList b @ [new_item (next_node b) p],
                      m_size := m_size b + GetSize p, next_node := next_node b + 1\<rparr>)
        else (True, b)
      else (False, b))"

definition SizeFromSequence :: "seq32 \<Rightarrow> tx_buffer \<Rightarrow> uint32" where
  "SizeFromSequence s b =
     (let lastSeq = TailSequence b in
      if seq_ge lastSeq s then of_int (seq_diff lastSeq s) else 0)"

section \<open>Splitting and merging\<close>

text \<open>\<open>SplitItems\<close> returns \<open>t1\<close>, the new item (its node is the argument), and what is left of \<open>t2\<close>.\<close>

definition SplitItems :: "nat \<Rightarrow> tx_item \<Rightarrow> uint32 \<Rightarrow> (tx_item \<times> tx_item) option" where
  "SplitItems n t2 s =
     do {
       ns_assert (s \<le> GetSize (m_packet t2));
       Some (t2\<lparr>node := n, m_packet := take (unat s) (m_packet t2)\<rparr>,
             t2\<lparr>m_packet := drop (unat s) (m_packet t2), m_startSeq := m_startSeq t2 + s\<rparr>)
     }"

definition MergeItems :: "tx_item \<Rightarrow> tx_item \<Rightarrow> tx_buffer \<Rightarrow> (tx_item \<times> tx_buffer) option" where
  "MergeItems t1 t2 b =
     do {
       ns_assert (m_sacked t1 = m_sacked t2);
       ns_assert (m_lost t1 = m_lost t2);
       let (t1r, b1) =
         (if m_retrans t1 \<noteq> m_retrans t2
          then if m_retrans t1
            then (False, b\<lparr>m_retransOut := m_retransOut b - GetSize (m_packet t1)\<rparr>)
            else (False, b\<lparr>m_retransOut := m_retransOut b - GetSize (m_packet t2)\<rparr>)
          else (m_retrans t1, b));
       Some (t1\<lparr>m_retrans := t1r,
                m_lastSent := (if m_lastSent t1 < m_lastSent t2 then m_lastSent t2 else m_lastSent t1),
                m_packet := m_packet t1 @ m_packet t2\<rparr>, b1)
     }"

text \<open>
  One pass of \<open>GetPacketFromList\<close> over its list: the items before the current one, the sequence
  where the current one begins, and the rest. A pass ends with the item that is asked for, or with
  an edited list on which the function is called again. \<open>outItem\<close> is the current item whenever it
  is set, so the branch that would merge the current item into the one before it cannot be
  reached. \<open>is_sent\<close> is the test \<open>list != m_sentList\<close>.
\<close>

datatype pass = Found "tx_item list" tx_item | Again "tx_item list"

fun list_pass ::
  "bool \<Rightarrow> uint32 \<Rightarrow> seq32 \<Rightarrow> tx_item list \<Rightarrow> seq32 \<Rightarrow> tx_item list \<Rightarrow> tx_buffer \<Rightarrow>
    (pass \<times> tx_buffer) option" where
  "list_pass is_sent numBytes s pre begin [] b = None"
| "list_pass is_sent numBytes s pre begin (cur # rest) b =
     do {
       ns_assert (\<not> is_sent \<or> seq_ge (m_startSeq cur) (m_firstByteSeq b));
       if seq_lt s (begin + GetSize (m_packet cur))
       then if s = begin
         then if seq_le (s + numBytes) (begin + GetSize (m_packet cur))
           then if numBytes = GetSize (m_packet cur) then Some (Found (pre @ cur # rest) cur, b)
             else if numBytes < GetSize (m_packet cur)
             then do {
               (firstPart, cur') \<leftarrow> SplitItems (next_node b) cur numBytes;
               Some (Found (pre @ firstPart # cur' # rest) firstPart,
                     b\<lparr>next_node := next_node b + 1\<rparr>)
             }
             else None
           else (case rest of
               [] \<Rightarrow> Some (Found (pre @ [cur]) cur, b)
             | next_item # rest' \<Rightarrow>
                 do {
                   (cur', b') \<leftarrow> MergeItems cur next_item b;
                   Some (Again (pre @ cur' # rest'), b')
                 })
         else if seq_gt s begin
         then do {
           (firstPart, cur') \<leftarrow> SplitItems (next_node b) cur (of_int (seq_diff s begin));
           Some (Again (pre @ firstPart # cur' # rest), b\<lparr>next_node := next_node b + 1\<rparr>)
         }
         else None
       else list_pass is_sent numBytes s (pre @ [cur]) (begin + GetSize (m_packet cur)) rest b
     }"

partial_function (option) GetPacketFromList ::
  "bool \<Rightarrow> tx_item list \<Rightarrow> seq32 \<Rightarrow> uint32 \<Rightarrow> seq32 \<Rightarrow> tx_buffer \<Rightarrow>
    (tx_item list \<times> tx_item \<times> tx_buffer) option" where
  "GetPacketFromList is_sent items listStartFrom numBytes s b =
     do {
       (r, b') \<leftarrow> list_pass is_sent numBytes s [] listStartFrom items b;
       case r of
         Found l i \<Rightarrow> Some (l, i, b')
       | Again l \<Rightarrow> GetPacketFromList is_sent l listStartFrom numBytes s b'
     }"

section \<open>Segments\<close>

text \<open>\<open>set_item\<close> writes the fields of an item through its pointer.\<close>

definition set_item :: "tx_item \<Rightarrow> tx_item list \<Rightarrow> tx_item list" where
  "set_item i = map (\<lambda>j. if node j = node i then i else j)"

definition without_node :: "nat \<Rightarrow> tx_item list \<Rightarrow> tx_item list" where
  "without_node n = filter (\<lambda>j. node j \<noteq> n)"

definition GetNewSegment :: "uint32 \<Rightarrow> tx_buffer \<Rightarrow> (tx_item \<times> tx_buffer) option" where
  "GetNewSegment numBytes b =
     (let startOfAppList = m_firstByteSeq b + m_sentSize b in
      do {
        (l, item, b1) \<leftarrow> GetPacketFromList False (m_appList b) startOfAppList numBytes startOfAppList b;
        ns_assert (node item \<in> set (map node l));
        let item' = item\<lparr>m_startSeq := startOfAppList, node := next_node b1\<rparr>;
        Some (item', b1\<lparr>m_appList := without_node (node item) l,
                        m_sentList := m_sentList b1 @ [item'],
                        m_sentSize := m_sentSize b1 + GetSize (m_packet item'),
                        next_node := next_node b1 + 1\<rparr>)
      })"

text \<open>The loop of \<open>GetTransmittedSegment\<close> that bounds the size: merge at most with the next item.\<close>

fun retransmit_size :: "seq32 \<Rightarrow> uint32 \<Rightarrow> tx_item list \<Rightarrow> uint32" where
  "retransmit_size s n [] = n"
| "retransmit_size s n (i # is) =
     (if m_startSeq i = s
      then (case is of
          [] \<Rightarrow> min n (GetSize (m_packet i))
        | j # _ \<Rightarrow>
            if \<not> m_sacked j \<and> m_lost i = m_lost j
            then min n (GetSize (m_packet i) + GetSize (m_packet j))
            else min n (GetSize (m_packet i)))
      else retransmit_size s n is)"

definition GetTransmittedSegment :: "uint32 \<Rightarrow> seq32 \<Rightarrow> tx_buffer \<Rightarrow> (tx_item \<times> tx_buffer) option" where
  "GetTransmittedSegment numBytes s b =
     do {
       ns_assert (seq_ge s (m_firstByteSeq b));
       ns_assert (numBytes \<le> m_sentSize b);
       ns_assert (m_sentList b \<noteq> []);
       (l, item, b1) \<leftarrow> GetPacketFromList True (m_sentList b) (m_firstByteSeq b)
           (retransmit_size s numBytes (m_sentList b)) s b;
       let b2 = b1\<lparr>m_sentList := l\<rparr>;
       if \<not> m_retrans item
       then (let item' = item\<lparr>m_retrans := True\<rparr> in
             Some (item', b2\<lparr>m_retransOut := m_retransOut b2 + GetSize (m_packet item),
                             m_sentList := set_item item' l\<rparr>))
       else Some (item, b2)
     }"

text \<open>
  \<open>CopyFromSequence\<close>: \<open>None\<close> inside \<open>Some\<close> is the null pointer returned when there is nothing to
  copy. The third test compares the raw values of the sequence numbers; when all three fail,
  \<open>outItem\<close> is null and is dereferenced.
\<close>

partial_function (option) CopyFromSequence ::
  "int \<Rightarrow> uint32 \<Rightarrow> seq32 \<Rightarrow> tx_buffer \<Rightarrow> (tx_item option \<times> tx_buffer) option" where
  "CopyFromSequence now numBytes sq b =
     do {
       ns_assert (\<not> seq_gt (m_firstByteSeq b) sq);
       let s = min numBytes (SizeFromSequence sq b);
       if s = 0 then Some (None, b)
       else
         let sentEnd = m_firstByteSeq b + m_sentSize b;
             finish = (\<lambda>(item, b1).
               let item' = item\<lparr>m_lastSent := now\<rparr> in
               do {
                 ns_assert (seq_ge (m_startSeq item') (m_firstByteSeq b1));
                 Some (Some item', b1\<lparr>m_sentList := set_item item' (m_sentList b1)\<rparr>)
               })
         in
           if seq_ge sentEnd (sq + s)
           then do {
             (item, b1) \<leftarrow> GetTransmittedSegment s sq b;
             ns_assert (\<not> m_sacked item);
             finish (item, b1)
           }
           else if seq_le sentEnd sq
           then do {
             ns_assert (sentEnd = sq);
             (item, b1) \<leftarrow> GetNewSegment s b;
             ns_assert (\<not> m_retrans item);
             finish (item, b1)
           }
           else if sentEnd > sq \<and> sentEnd < sq + s
           then CopyFromSequence now (sentEnd - sq) sq b
           else None
     }"

end
