(* ===== verification/TxScore.thy ===== *)
theory TxScore
  imports TxBuffer
begin

text \<open>
  The scoreboard of \<open>TcpTxBuffer\<close> (\<open>internet/model/tcp-tx-buffer.cc\<close>): discarding acknowledged
  data, the SACK update, the loss marks, the choice of the next segment and the counts of
  RFC 6675.
\<close>

section \<open>Discarding\<close>

definition RemoveFromCounts :: "tx_item \<Rightarrow> uint32 \<Rightarrow> tx_buffer \<Rightarrow> tx_buffer option" where
  "RemoveFromCounts item s b =
     do {
       ns_assert (m_sacked item \<longrightarrow> m_sackedOut b \<ge> s);
       let b1 = (if m_sacked item then b\<lparr>m_sackedOut := m_sackedOut b - s\<rparr> else b);
       ns_assert (m_retrans item \<longrightarrow> m_retransOut b1 \<ge> s);
       let b2 = (if m_retrans item then b1\<lparr>m_retransOut := m_retransOut b1 - s\<rparr> else b1);
       ns_assert (m_lost item \<longrightarrow> m_lostOut b2 \<ge> s);
       Some (if m_lost item then b2\<lparr>m_lostOut := m_lostOut b2 - s\<rparr> else b2)
     }"

definition IsRetransmittedDataAcked :: "seq32 \<Rightarrow> tx_buffer \<Rightarrow> bool" where
  "IsRetransmittedDataAcked ack b =
     list_ex (\<lambda>i. m_startSeq i + GetSize (m_packet i) = ack \<and> \<not> m_sacked i \<and> m_retrans i) (m_sentList b)"

definition MarkHeadAsLost :: "tx_buffer \<Rightarrow> tx_buffer" where
  "MarkHeadAsLost b =
     (case m_sentList b of
        [] \<Rightarrow> b
      | h # t \<Rightarrow>
          let n = GetSize (m_packet h);
              b1 = (if m_sacked h then b\<lparr>m_sackedOut := m_sackedOut b - n\<rparr> else b);
              b2 = (if m_retrans h then b1\<lparr>m_retransOut := m_retransOut b1 - n\<rparr> else b1);
              b3 = (if \<not> m_lost h then b2\<lparr>m_lostOut := m_lostOut b2 + n\<rparr> else b2)
          in b3\<lparr>m_sentList := h\<lparr>m_sacked := False, m_retrans := False, m_lost := True\<rparr> # t\<rparr>)"

text \<open>\<open>reno_walk\<close> marks the first item that is not sacked; the item, if any, is returned.\<close>

fun reno_walk :: "tx_item list \<Rightarrow> tx_item list \<times> tx_item option" where
  "reno_walk [] = ([], None)"
| "reno_walk (i # is) =
     (if m_sacked i then (case reno_walk is of (is', r) \<Rightarrow> (i # is', r))
      else (i\<lparr>m_sacked := True\<rparr> # is, Some (i\<lparr>m_sacked := True\<rparr>)))"

definition AddRenoSack :: "tx_buffer \<Rightarrow> tx_buffer option" where
  "AddRenoSack b =
     do {
       ns_assert (if m_sackEnabled b then length (m_sentList b) > 1 else m_sentList b \<noteq> []);
       let b1 = b\<lparr>m_renoSack := True\<rparr>;
       Some (case m_sentList b1 of
           [] \<Rightarrow> b1
         | h # t \<Rightarrow>
             (case reno_walk t of
                (_, None) \<Rightarrow> b1
              | (t', Some i) \<Rightarrow>
                  b1\<lparr>m_sentList := h # t', m_sackedOut := m_sackedOut b1 + GetSize (m_packet i),
                     m_highestSack := (AtNode (node i), m_startSeq i)\<rparr>))
     }"

text \<open>
  The loop of \<open>DiscardUpTo\<close>. The iterator always stands at the first item sent: the loop removes
  items from the front, or fragments the first one and leaves. The items deleted are collected for
  the callback.
\<close>

partial_function (option) discard_loop ::
  "int \<Rightarrow> uint32 \<Rightarrow> tx_item list \<Rightarrow> tx_buffer \<Rightarrow> (tx_item list \<times> tx_buffer) option" where
  "discard_loop now offset gone b =
     (if m_size b > 0 \<and> offset > 0
      then do {
        b0 \<leftarrow> (if m_sentList b = []
               then do {
                 (copied, b') \<leftarrow> CopyFromSequence now offset (m_firstByteSeq b) b;
                 ns_assert (copied \<noteq> None);
                 Some b'
               }
               else Some b);
        case m_sentList b0 of
          [] \<Rightarrow> None
        | item # rest \<Rightarrow>
            do {
              ns_assert (m_startSeq item = m_firstByteSeq b0);
              let pktSize = GetSize (m_packet item);
              if offset \<ge> pktSize
              then do {
                b1 \<leftarrow> RemoveFromCounts item pktSize
                       (b0\<lparr>m_size := m_size b0 - pktSize, m_sentSize := m_sentSize b0 - pktSize,
                           m_firstByteSeq := m_firstByteSeq b0 + pktSize\<rparr>);
                discard_loop now (offset - pktSize) (gone @ [item]) (b1\<lparr>m_sentList := rest\<rparr>)
              }
              else do {
                b1 \<leftarrow> RemoveFromCounts item offset
                       (b0\<lparr>m_sentList := item\<lparr>m_packet := drop (unat offset) (m_packet item),
                                              m_startSeq := m_startSeq item + offset\<rparr> # rest,
                           m_size := m_size b0 - offset, m_sentSize := m_sentSize b0 - offset,
                           m_firstByteSeq := m_firstByteSeq b0 + offset\<rparr>);
                Some (gone, b1)
              }
            }
      }
      else Some (gone, b))"

text \<open>What follows the loop: the FIN case, a head that is sacked, the highest SACK that fell behind.\<close>

definition unsack_head :: "tx_buffer \<Rightarrow> tx_buffer option" where
  "unsack_head b =
     (case m_sentList b of
        [] \<Rightarrow> Some b
      | h # t \<Rightarrow>
          if m_sacked h
          then do {
            ns_assert (\<not> m_lost h);
            b1 \<leftarrow> AddRenoSack (b\<lparr>m_sentList := h\<lparr>m_sacked := False\<rparr> # t,
                                m_sackedOut := m_sackedOut b - GetSize (m_packet h)\<rparr>);
            Some (MarkHeadAsLost b1)
          }
          else Some b)"

definition DiscardUpTo :: "int \<Rightarrow> seq32 \<Rightarrow> tx_buffer \<Rightarrow> (tx_item list \<times> tx_buffer) option" where
  "DiscardUpTo now sq b =
     (if seq_ge (m_firstByteSeq b) sq then Some ([], b)
      else do {
        (gone, b1) \<leftarrow> discard_loop now (of_int (seq_diff sq (m_firstByteSeq b))) [] b;
        let b2 = (if m_size b1 = 0 then b1\<lparr>m_firstByteSeq := sq\<rparr> else b1);
        b3 \<leftarrow> unsack_head b2;
        ns_assert (m_sentList b3 \<noteq> [] \<longrightarrow> m_startSeq (hd (m_sentList b3)) = sq);
        let b4 = (if seq_le (snd (m_highestSack b3)) (m_firstByteSeq b3)
                  then b3\<lparr>m_highestSack := (EndIt, 0)\<rparr> else b3);
        ns_assert (seq_ge (m_firstByteSeq b4) sq);
        ns_assert (m_sentSize b4 \<ge> m_sackedOut b4 + m_lostOut b4);
        Some (gone, b4)
      })"

section \<open>The SACK update\<close>

definition it_is_end :: "item_it \<Rightarrow> bool option" where
  "it_is_end i = (case i of Singular \<Rightarrow> None | EndIt \<Rightarrow> Some True | AtNode _ \<Rightarrow> Some False)"

text \<open>
  The inner loop of \<open>Update\<close> for one block: the items from the current one on, those that were
  sacked, how many bytes they hold, and the counters.
\<close>

fun sack_block ::
  "seq32 \<times> seq32 \<Rightarrow> seq32 \<Rightarrow> tx_item list \<Rightarrow> tx_buffer \<Rightarrow>
    (tx_item list \<times> tx_item list \<times> uint32 \<times> tx_buffer) option" where
  "sack_block blk begin [] b = Some ([], [], 0, b)"
| "sack_block blk begin (i # is) b =
     (let pktSize = GetSize (m_packet i) in
      if seq_ge begin (fst blk) \<and> seq_le (begin + pktSize) (snd blk)
      then if m_sacked i
        then do {
          ns_assert (\<not> m_lost i);
          (is', cbs, n, b') \<leftarrow> sack_block blk (begin + pktSize) is b;
          Some (i # is', cbs, n, b')
        }
        else do {
          let b1 = (if m_lost i then b\<lparr>m_lostOut := m_lostOut b - pktSize\<rparr> else b);
          let b2 = b1\<lparr>m_sackedOut := m_sackedOut b1 + pktSize\<rparr>;
          at_end \<leftarrow> it_is_end (fst (m_highestSack b2));
          let b3 = (if at_end \<or> seq_le (snd (m_highestSack b2)) (begin + pktSize)
                    then b2\<lparr>m_highestSack := (AtNode (node i), begin)\<rparr> else b2);
          let i' = i\<lparr>m_lost := False, m_sacked := True\<rparr>;
          (is', cbs, n, b') \<leftarrow> sack_block blk (begin + pktSize) is b3;
          Some (i' # is', i' # cbs, pktSize + n, b')
        }
      else if seq_gt (begin + pktSize) (snd blk) then Some (i # is, [], 0, b)
      else do {
        (is', cbs, n, b') \<leftarrow> sack_block blk (begin + pktSize) is b;
        Some (i # is', cbs, n, b')
      })"

text \<open>The outer loop; the flag tells that a block beyond the sent data made the function return.\<close>

fun sack_blocks ::
  "(seq32 \<times> seq32) list \<Rightarrow> tx_buffer \<Rightarrow> (tx_item list \<times> uint32 \<times> bool \<times> tx_buffer) option" where
  "sack_blocks [] b = Some ([], 0, False, b)"
| "sack_blocks (blk # blks) b =
     (if seq_lt (m_firstByteSeq b + m_sentSize b) (fst blk) then Some ([], 0, True, b)
      else do {
        (is', cbs, n, b1) \<leftarrow> sack_block blk (m_firstByteSeq b) (m_sentList b) b;
        (cbs', n', early, b2) \<leftarrow> sack_blocks blks (b1\<lparr>m_sentList := is'\<rparr>);
        Some (cbs @ cbs', n + n', early, b2)
      })"

text \<open>
  \<open>UpdateLostCount\<close> walks down from the highest SACK to the item after the head, then looks at the
  head. \<open>lost_walk\<close> is the walk over the items in that order.
\<close>

fun lost_walk :: "uint32 \<Rightarrow> tx_item list \<Rightarrow> uint32 \<Rightarrow> uint32 \<Rightarrow> tx_item list \<times> uint32 \<times> uint32" where
  "lost_walk thresh [] sacked lostOut = ([], sacked, lostOut)"
| "lost_walk thresh (i # is) sacked lostOut =
     (let sacked' = (if m_sacked i then sacked + 1 else sacked) in
      if sacked' \<ge> thresh \<and> \<not> m_sacked i \<and> \<not> m_lost i
      then (case lost_walk thresh is sacked' (lostOut + GetSize (m_packet i)) of
              (is', r) \<Rightarrow> (i\<lparr>m_lost := True\<rparr> # is', r))
      else (case lost_walk thresh is sacked' lostOut of (is', r) \<Rightarrow> (i # is', r)))"

definition upto_node :: "nat \<Rightarrow> tx_item list \<Rightarrow> tx_item list \<times> tx_item list" where
  "upto_node n is =
     (let pre = takeWhile (\<lambda>i. node i \<noteq> n) is; post = dropWhile (\<lambda>i. node i \<noteq> n) is
      in (pre @ take 1 post, drop 1 post))"

definition UpdateLostCount :: "tx_buffer \<Rightarrow> tx_buffer option" where
  "UpdateLostCount b =
     (case (fst (m_highestSack b), m_sentList b) of
        (AtNode n, h # t) \<Rightarrow>
          if n \<notin> node ` set (h # t) then None
          else
            let (low, high) = upto_node n (h # t);
                (walked, sacked, lostOut) = lost_walk (m_dupAckThresh b) (rev (tl low)) 0 (m_lostOut b);
                (h', lostOut') =
                  (if sacked \<ge> m_dupAckThresh b \<and> \<not> m_lost h
                   then (h\<lparr>m_lost := True\<rparr>, lostOut + GetSize (m_packet h)) else (h, lostOut))
            in Some (b\<lparr>m_sentList := h' # rev walked @ high, m_lostOut := lostOut'\<rparr>)
      | (EndIt, []) \<Rightarrow> if 0 \<ge> m_dupAckThresh b then None else Some b
      | _ \<Rightarrow> None)"

text \<open>\<open>Update\<close> returns the bytes sacked, the items the callback is called with, and the buffer.\<close>

definition Update ::
  "(seq32 \<times> seq32) list \<Rightarrow> tx_buffer \<Rightarrow> (uint32 \<times> tx_item list \<times> tx_buffer) option" where
  "Update blks b =
     do {
       (cbs, bytesSacked, early, b1) \<leftarrow> sack_blocks blks b;
       if early then Some (bytesSacked, cbs, b1)
       else do {
         b2 \<leftarrow> (if bytesSacked > 0
                then do {
                  at_end \<leftarrow> it_is_end (fst (m_highestSack b1));
                  ns_assert (\<not> at_end);
                  UpdateLostCount b1
                }
                else Some b1);
         ns_assert (m_sentList b2 \<noteq> []);
         ns_assert (\<not> m_sacked (hd (m_sentList b2)));
         ns_assert (m_sentSize b2 \<ge> m_sackedOut b2 + m_lostOut b2);
         Some (bytesSacked, cbs, b2)
       }
     }"

section \<open>Queries\<close>

fun lost_at :: "seq32 \<Rightarrow> tx_item list \<Rightarrow> bool" where
  "lost_at s [] = False"
| "lost_at s (i # is) =
     (if seq_le (m_startSeq i) s \<and> seq_lt s (m_startSeq i + GetSize (m_packet i))
      then if m_lost i then True else if m_sacked i then False else lost_at s is
      else lost_at s is)"

definition IsLost :: "seq32 \<Rightarrow> tx_buffer \<Rightarrow> bool" where
  "IsLost s b = (if seq_ge s (snd (m_highestSack b)) then False else lost_at s (m_sentList b))"

fun FindHighestSacked_from :: "seq32 \<Rightarrow> tx_item list \<Rightarrow> item_it \<times> seq32 \<Rightarrow> item_it \<times> seq32" where
  "FindHighestSacked_from begin [] r = r"
| "FindHighestSacked_from begin (i # is) r =
     FindHighestSacked_from (begin + GetSize (m_packet i)) is
       (if m_sacked i then (AtNode (node i), begin) else r)"

definition FindHighestSacked :: "tx_buffer \<Rightarrow> item_it \<times> seq32" where
  "FindHighestSacked b = FindHighestSacked_from (m_firstByteSeq b) (m_sentList b) (EndIt, 0)"

text \<open>The loop of \<open>NextSeg\<close>: the first lost item, or what is saved for rule 3.\<close>

fun next_lost :: "bool \<Rightarrow> seq32 \<Rightarrow> tx_item list \<Rightarrow> seq32 \<times> bool \<Rightarrow> seq32 + (seq32 \<times> bool)" where
  "next_lost isRecovery begin [] rule3 = Inr rule3"
| "next_lost isRecovery begin (i # is) rule3 =
     (if \<not> m_retrans i \<and> \<not> m_sacked i
      then if m_lost i then Inl begin
        else if fst rule3 = 0 \<and> isRecovery
        then next_lost isRecovery (begin + GetSize (m_packet i)) is (begin, True)
        else next_lost isRecovery (begin + GetSize (m_packet i)) is rule3
      else next_lost isRecovery (begin + GetSize (m_packet i)) is rule3)"

definition NextSeg :: "uint32 \<Rightarrow> bool \<Rightarrow> tx_buffer \<Rightarrow> (seq32 \<times> seq32) option" where
  "NextSeg rWnd isRecovery b =
     (case next_lost isRecovery (m_firstByteSeq b) (m_sentList b) (0, False) of
        Inl s \<Rightarrow> Some (s, s + m_segmentSize b)
      | Inr (seqPerRule3, isSeqPerRule3Valid) \<Rightarrow>
          let s = m_firstByteSeq b + m_sentSize b in
          if SizeFromSequence s b > 0
          then if m_sentSize b < rWnd
            then Some (s, s + min (m_segmentSize b) (rWnd - m_sentSize b))
            else None
          else if isSeqPerRule3Valid then Some (seqPerRule3, seqPerRule3 + m_segmentSize b)
          else None)"

definition BytesInFlight :: "tx_buffer \<Rightarrow> uint32 option" where
  "BytesInFlight b =
     do {
       ns_assert (m_sackedOut b + m_lostOut b \<le> m_sentSize b);
       Some (m_sentSize b - (m_sackedOut b + m_lostOut b) + m_retransOut b)
     }"

text \<open>\<open>IsLostRFC\<close>: the items from \<open>segment\<close> on, with the counts of the loop as arguments.\<close>

fun lost_rfc_loop :: "tx_buffer \<Rightarrow> seq32 \<Rightarrow> tx_item list \<Rightarrow> uint32 \<Rightarrow> uint32 \<Rightarrow> bool" where
  "lost_rfc_loop b begin [] cnt bytes = False"
| "lost_rfc_loop b begin (i # is) cnt bytes =
     (let n = GetSize (m_packet i);
          cnt' = (if m_sacked i then cnt + 1 else cnt);
          bytes' = (if m_sacked i then bytes + n else bytes) in
      if m_sacked i \<and> (cnt' \<ge> m_dupAckThresh b \<or> bytes' > (m_dupAckThresh b - 1) * m_segmentSize b)
      then True
      else if seq_ge begin (snd (m_highestSack b)) then m_lost i \<and> \<not> m_retrans i
      else lost_rfc_loop b (begin + n) is cnt' bytes')"

definition IsLostRFC :: "tx_buffer \<Rightarrow> seq32 \<Rightarrow> tx_item list \<Rightarrow> bool" where
  "IsLostRFC b s segment =
     (case segment of
        [] \<Rightarrow> False
      | i # _ \<Rightarrow> if m_sacked i then False else lost_rfc_loop b s segment 0 0)"

text \<open>The loop of \<open>BytesInFlightRFC\<close>: pipe, sacked, lost, retransmitted and total bytes.\<close>

fun rfc_counts ::
  "tx_buffer \<Rightarrow> seq32 \<Rightarrow> tx_item list \<Rightarrow> uint32 \<times> uint32 \<times> uint32 \<times> uint32 \<times> uint32" where
  "rfc_counts b begin [] = (0, 0, 0, 0, 0)"
| "rfc_counts b begin (i # is) =
     (let n = GetSize (m_packet i);
          (pipe, sacked, lost, retrans, total) = rfc_counts b (begin + n) is;
          isLost = IsLostRFC b begin (i # is) in
      ((if \<not> m_sacked i \<and> (\<not> isLost \<or> m_retrans i) then pipe + n else pipe),
       (if m_sacked i then sacked + n else sacked),
       (if \<not> m_sacked i \<and> isLost then lost + n else lost),
       (if m_retrans i then retrans + n else retrans),
       total + n))"

definition BytesInFlightRFC :: "tx_buffer \<Rightarrow> uint32 option" where
  "BytesInFlightRFC b =
     (let (pipe, sacked, lost, retrans, total) = rfc_counts b (m_firstByteSeq b) (m_sentList b) in
      do {
        ns_assert (lost = m_lostOut b);
        ns_assert (retrans = m_retransOut b);
        ns_assert (sacked = m_sackedOut b);
        ns_assert (total = m_sentSize b);
        Some pipe
      })"

section \<open>Resetting\<close>

definition ResetRenoSack :: "tx_buffer \<Rightarrow> tx_buffer" where
  "ResetRenoSack b =
     b\<lparr>m_sackedOut := 0, m_sentList := map (\<lambda>i. i\<lparr>m_sacked := False\<rparr>) (m_sentList b),
       m_highestSack := (EndIt, 0)\<rparr>"

text \<open>The items move to nodes of their own in the list of application data.\<close>

fun renode :: "nat \<Rightarrow> tx_item list \<Rightarrow> tx_item list" where
  "renode n [] = []"
| "renode n (i # is) = i\<lparr>node := n\<rparr> # renode (n + 1) is"

definition ResetSentList :: "tx_buffer \<Rightarrow> tx_buffer" where
  "ResetSentList b =
     b\<lparr>m_appList := renode (next_node b)
          (map (\<lambda>i. i\<lparr>m_retrans := False, m_sacked := False, m_lost := False\<rparr>) (m_sentList b)) @ m_appList b,
       m_sentList := [], m_sentSize := 0, m_lostOut := 0, m_retransOut := 0, m_sackedOut := 0,
       m_highestSack := (EndIt, 0), next_node := next_node b + length (m_sentList b)\<rparr>"

definition ResetLastSegmentSent :: "tx_buffer \<Rightarrow> tx_buffer" where
  "ResetLastSegmentSent b =
     (if m_sentList b \<noteq> []
      then let item = last (m_sentList b); n = GetSize (m_packet item) in
        b\<lparr>m_sentList := butlast (m_sentList b), m_sentSize := m_sentSize b - n,
          m_retransOut := (if m_retrans item then m_retransOut b - n else m_retransOut b),
          m_appList := item\<lparr>node := next_node b\<rparr> # m_appList b, next_node := next_node b + 1\<rparr>
      else b)"

fun lose_items :: "bool \<Rightarrow> tx_item list \<Rightarrow> uint32 \<Rightarrow> tx_item list \<times> uint32" where
  "lose_items resetSack [] lostOut = ([], lostOut)"
| "lose_items resetSack (i # is) lostOut =
     (if resetSack
      then (case lose_items resetSack is lostOut of
              (is', n) \<Rightarrow> (i\<lparr>m_sacked := False, m_lost := True, m_retrans := False\<rparr> # is', n))
      else if m_lost i
      then (case lose_items resetSack is (lostOut + GetSize (m_packet i)) of
              (is', n) \<Rightarrow> (i\<lparr>m_retrans := False\<rparr> # is', n))
      else if \<not> m_sacked i
      then (case lose_items resetSack is (lostOut + GetSize (m_packet i)) of
              (is', n) \<Rightarrow> (i\<lparr>m_lost := True, m_retrans := False\<rparr> # is', n))
      else (case lose_items resetSack is lostOut of
              (is', n) \<Rightarrow> (i\<lparr>m_retrans := False\<rparr> # is', n)))"

definition SetSentListLost :: "bool \<Rightarrow> tx_buffer \<Rightarrow> tx_buffer option" where
  "SetSentListLost resetSack b =
     (let b1 = b\<lparr>m_retransOut := 0\<rparr>;
          b2 = (if resetSack
                then b1\<lparr>m_sackedOut := 0, m_lostOut := m_sentSize b1, m_highestSack := (EndIt, 0)\<rparr>
                else b1\<lparr>m_lostOut := 0\<rparr>);
          (is', n) = lose_items resetSack (m_sentList b2) (m_lostOut b2);
          b3 = b2\<lparr>m_sentList := is', m_lostOut := n\<rparr>
      in do {
        ns_assert (m_sentSize b3 \<ge> m_sackedOut b3 + m_lostOut b3);
        Some b3
      })"

definition IsHeadRetransmitted :: "tx_buffer \<Rightarrow> bool option" where
  "IsHeadRetransmitted b =
     (if m_sentSize b = 0 then Some False
      else case m_sentList b of [] \<Rightarrow> None | h # _ \<Rightarrow> Some (m_retrans h))"

definition DeleteRetransmittedFlagFromHead :: "tx_buffer \<Rightarrow> tx_buffer option" where
  "DeleteRetransmittedFlagFromHead b =
     (if m_sentSize b = 0 then Some b
      else case m_sentList b of
          [] \<Rightarrow> None
        | h # t \<Rightarrow>
            Some (if m_retrans h
                  then b\<lparr>m_sentList := h\<lparr>m_retrans := False\<rparr> # t,
                         m_retransOut := m_retransOut b - GetSize (m_packet h)\<rparr>
                  else b))"

text \<open>The sums that \<open>ConsistencyCheck\<close> compares with the counters when it is enabled.\<close>

definition flag_bytes :: "(tx_item \<Rightarrow> bool) \<Rightarrow> tx_item list \<Rightarrow> uint32" where
  "flag_bytes P is = sum_list (map (GetSize \<circ> m_packet) (filter P is))"

definition ConsistencyCheck :: "tx_buffer \<Rightarrow> bool" where
  "ConsistencyCheck b \<longleftrightarrow>
     flag_bytes m_sacked (m_sentList b) = m_sackedOut b \<and>
     flag_bytes m_lost (m_sentList b) = m_lostOut b \<and>
     flag_bytes m_retrans (m_sentList b) = m_retransOut b"

end
