(* ===== verification/Rtt.thy ===== *)
theory Rtt
  imports CongState
begin

text \<open>
  \<open>RttEstimator\<close> and \<open>RttMeanDeviation\<close> (\<open>internet/model/rtt-estimator.cc\<close>). With gains that are
  reciprocals of powers of two, as the default ones, the update is the integer arithmetic of
  Jacobson and Karels; the update with other gains goes through \<open>int64x64_t\<close> and is a parameter.
\<close>

section \<open>State\<close>

record rtt_estimator =
  m_initialEstimatedRtt :: time
  m_estimatedRtt :: time
  m_estimatedVariation :: time
  m_nSamples :: uint32
  m_alpha :: double
  m_beta :: double

definition new_rtt :: "time \<Rightarrow> double \<Rightarrow> double \<Rightarrow> rtt_estimator" where
  "new_rtt initial alpha beta =
     \<lparr>m_initialEstimatedRtt = initial, m_estimatedRtt = initial, m_estimatedVariation = 0, m_nSamples = 0,
      m_alpha = alpha, m_beta = beta\<rparr>"

definition GetEstimate :: "rtt_estimator \<Rightarrow> time" where
  "GetEstimate r = m_estimatedRtt r"

definition GetVariation :: "rtt_estimator \<Rightarrow> time" where
  "GetVariation r = m_estimatedVariation r"

definition GetNSamples :: "rtt_estimator \<Rightarrow> uint32" where
  "GetNSamples r = m_nSamples r"

definition rtt_Reset :: "rtt_estimator \<Rightarrow> rtt_estimator" where
  "rtt_Reset r = r\<lparr>m_estimatedRtt := m_initialEstimatedRtt r, m_estimatedVariation := 0, m_nSamples := 0\<rparr>"

section \<open>Updating\<close>

fun d_abs :: "double \<Rightarrow> double" where
  "d_abs (Fin a) = Fin \<bar>a\<bar>"
| "d_abs (Inf s) = Inf True"
| "d_abs NaN = NaN"

text \<open>The literal \<open>1e-6\<close> is the double nearest to it.\<close>

definition TOLERANCE :: double where
  "TOLERANCE = fl (1 / 10 ^ 6)"

definition is_reciprocal :: "double \<Rightarrow> rat \<Rightarrow> bool" where
  "is_reciprocal v n \<longleftrightarrow> d_less (d_abs (d_sub (d_div (Fin 1) v) (Fin n))) TOLERANCE"

definition CheckForReciprocalPowerOfTwo :: "double \<Rightarrow> nat" where
  "CheckForReciprocalPowerOfTwo v =
     (if d_less v TOLERANCE then 0
      else if is_reciprocal v 8 then 3
      else if is_reciprocal v 4 then 2
      else if is_reciprocal v 32 then 5
      else if is_reciprocal v 16 then 4
      else if is_reciprocal v 2 then 1
      else 0)"

text \<open>
  The left shift of a signed 64-bit integer: undefined for a negative value and when a one is
  shifted out of the 64 bits.
\<close>

definition shl64 :: "int \<Rightarrow> nat \<Rightarrow> int option" where
  "shl64 x k = (if x < 0 \<or> x * 2 ^ k \<ge> 2 ^ 64 then None else Some (signed_take_bit 63 (x * 2 ^ k)))"

definition IntegerUpdate :: "time \<Rightarrow> nat \<Rightarrow> nat \<Rightarrow> rtt_estimator \<Rightarrow> rtt_estimator option" where
  "IntegerUpdate meas rttShift variationShift r = do {
     delta \<leftarrow> t_sub meas (m_estimatedRtt r);
     scaled \<leftarrow> shl64 (m_estimatedRtt r) rttShift;
     srtt \<leftarrow> t_add scaled delta;
     delta \<leftarrow> (if delta < 0 then int64 (- delta) else Some delta);
     delta \<leftarrow> t_sub delta (m_estimatedVariation r);
     rttvar \<leftarrow> shl64 (m_estimatedVariation r) variationShift;
     rttvar \<leftarrow> t_add rttvar delta;
     Some (r\<lparr>m_estimatedRtt := srtt div 2 ^ rttShift, m_estimatedVariation := rttvar div 2 ^ variationShift\<rparr>)
   }"

definition half_time :: "time \<Rightarrow> time" where
  "half_time m = (if m < 0 then - ((- m) div 2) else m div 2)"

definition Measurement ::
    "(time \<Rightarrow> rtt_estimator \<Rightarrow> rtt_estimator option) \<Rightarrow> time \<Rightarrow> rtt_estimator \<Rightarrow> rtt_estimator option" where
  "Measurement fp_update m r = do {
     r \<leftarrow> (if m_nSamples r \<noteq> 0
          then let rttShift = CheckForReciprocalPowerOfTwo (m_alpha r);
                   variationShift = CheckForReciprocalPowerOfTwo (m_beta r)
               in if rttShift \<noteq> 0 \<and> variationShift \<noteq> 0 then IntegerUpdate m rttShift variationShift r
                  else fp_update m r
          else Some (r\<lparr>m_estimatedRtt := m, m_estimatedVariation := half_time m\<rparr>));
     Some (r\<lparr>m_nSamples := m_nSamples r + 1\<rparr>)
   }"

section \<open>The integer update is the exponential average\<close>

lemma shl64_small: "0 \<le> x \<Longrightarrow> x * 2 ^ k < 2 ^ 63 \<Longrightarrow> shl64 x k = Some (x * 2 ^ k)"
  using order_trans [of "- (2 ^ 63)" 0 "x * 2 ^ k"] by (simp add: shl64_def signed_take_bit_int_eq_self)

lemma int64_small: "\<bar>x\<bar> < 2 ^ 63 \<Longrightarrow> int64 x = Some x"
  by (auto simp: int64_def abs_less_iff)

text \<open>The tolerance lies between 2 to the -20 and 2 to the -4, which is all the default gains need.\<close>

lemma TOLERANCE_bounds: obtains r where "TOLERANCE = Fin r" "0 < r" "r \<le> 1 / 2 ^ 4"
proof -
  let ?x = "1 / 10 ^ 6 :: rat"
  have "rnd (1 / 2 ^ 20) \<le> rnd ?x" "rnd ?x \<le> rnd (1 / 2 ^ 4)" by (intro rnd_mono; simp)+
  moreover have "rnd (1 / 2 ^ 20) = 1 / 2 ^ 20" by (rule rnd_exact [of _ 1 20]) simp_all
  moreover have "rnd (1 / 2 ^ 4) = 1 / 2 ^ 4" by (rule rnd_exact [of _ 1 4]) simp_all
  ultimately have b: "1 / 2 ^ 20 \<le> rnd ?x" "rnd ?x \<le> 1 / 2 ^ 4" by simp_all
  have "(1 :: rat) < pow2 1024" using pow2_less [of 0 1024] by (simp add: pow2_def)
  with b have "TOLERANCE = Fin (rnd ?x)" by (simp add: TOLERANCE_def fl_def Let_def abs_if)
  with b show thesis by (intro that) (simp_all add: less_le_trans [of 0 "1 / 2 ^ 20"])
qed

lemma is_reciprocal_nat:
  assumes "n \<noteq> 0" "n \<le> 32" "k \<le> 32"
  shows "is_reciprocal (Fin (1 / of_nat n)) (of_nat k) \<longleftrightarrow> n = k"
proof -
  obtain r where r: "TOLERANCE = Fin r" "0 < r" "r \<le> 1 / 2 ^ 4" by (rule TOLERANCE_bounds)
  have "d_div (Fin 1) (Fin (1 / of_nat n)) = Fin (of_nat n)" using assms fl_nat [of n] by simp
  moreover have "d_sub (Fin (of_nat n)) (Fin (of_nat k)) = Fin (of_int (int n - int k))"
    using assms by (intro d_sub_nat) simp_all
  ultimately have "is_reciprocal (Fin (1 / of_nat n)) (of_nat k) \<longleftrightarrow> of_int \<bar>int n - int k\<bar> < r"
    by (simp add: is_reciprocal_def r of_int_abs)
  also have "\<dots> \<longleftrightarrow> n = k"
  proof (cases "n = k")
    case False
    then have "1 \<le> \<bar>int n - int k\<bar>" by arith
    then have "(1 :: rat) \<le> of_int \<bar>int n - int k\<bar>" by (simp only: of_int_1_le_iff)
    with r False show ?thesis by simp
  qed (simp add: r)
  finally show ?thesis .
qed

lemma default_gains: "CheckForReciprocalPowerOfTwo (Fin (1 / 8)) = 3" "CheckForReciprocalPowerOfTwo (Fin (1 / 4)) = 2"
proof -
  obtain r where r: "TOLERANCE = Fin r" "0 < r" "r \<le> 1 / 2 ^ 4" by (rule TOLERANCE_bounds)
  from r(3) have "\<not> d_less (Fin (1 / 8)) TOLERANCE" "\<not> d_less (Fin (1 / 4)) TOLERANCE" by (simp_all add: r(1))
  moreover have "is_reciprocal (Fin (1 / 8)) 8" "\<not> is_reciprocal (Fin (1 / 4)) 8" "is_reciprocal (Fin (1 / 4)) 4"
    using is_reciprocal_nat [of 8 8] is_reciprocal_nat [of 4 8] is_reciprocal_nat [of 4 4] by simp_all
  ultimately show "CheckForReciprocalPowerOfTwo (Fin (1 / 8)) = 3" "CheckForReciprocalPowerOfTwo (Fin (1 / 4)) = 2"
    by (simp_all add: CheckForReciprocalPowerOfTwo_def)
qed

text \<open>Within 2 to the 59 ticks, eighteen years at a nanosecond, nothing overflows.\<close>

lemma IntegerUpdate_value:
  assumes m: "0 \<le> m" "m < 2 ^ 59" and r: "0 \<le> m_estimatedRtt r" "m_estimatedRtt r < 2 ^ 59"
    and v: "0 \<le> m_estimatedVariation r" "m_estimatedVariation r < 2 ^ 59"
  shows "IntegerUpdate m 3 2 r =
     Some (r\<lparr>m_estimatedRtt := (7 * m_estimatedRtt r + m) div 8,
             m_estimatedVariation := (3 * m_estimatedVariation r + \<bar>m - m_estimatedRtt r\<bar>) div 4\<rparr>)"
proof -
  let ?e = "m_estimatedRtt r" and ?v = "m_estimatedVariation r"
  have "?e * 8 + (m - ?e) = 7 * ?e + m" "?v * 4 + (\<bar>m - ?e\<bar> - ?v) = 3 * ?v + \<bar>m - ?e\<bar>" by simp_all
  moreover have "shl64 ?e 3 = Some (?e * 8)" "shl64 ?v 2 = Some (?v * 4)"
    using r v shl64_small [of ?e 3] shl64_small [of ?v 2] by simp_all
  moreover have "t_sub m ?e = Some (m - ?e)" "t_add (?e * 8) (m - ?e) = Some (?e * 8 + (m - ?e))"
    "(if m - ?e < 0 then int64 (- (m - ?e)) else Some (m - ?e)) = Some \<bar>m - ?e\<bar>"
    "t_sub \<bar>m - ?e\<bar> ?v = Some (\<bar>m - ?e\<bar> - ?v)"
    "t_add (?v * 4) (\<bar>m - ?e\<bar> - ?v) = Some (?v * 4 + (\<bar>m - ?e\<bar> - ?v))"
    using m r v by (simp_all add: t_sub_def t_add_def int64_def abs_if)
  ultimately show ?thesis by (simp add: IntegerUpdate_def)
qed

section \<open>Runs\<close>

primrec measure_all ::
    "(time \<Rightarrow> rtt_estimator \<Rightarrow> rtt_estimator option) \<Rightarrow> time list \<Rightarrow> rtt_estimator \<Rightarrow> rtt_estimator option" where
  "measure_all fp [] r = Some r"
| "measure_all fp (m # ms) r = do { r \<leftarrow> Measurement fp m r; measure_all fp ms r }"

definition default_gain :: "rtt_estimator \<Rightarrow> bool" where
  "default_gain r \<longleftrightarrow> m_alpha r = Fin (1 / 8) \<and> m_beta r = Fin (1 / 4)"

definition estimate_in :: "time \<Rightarrow> time \<Rightarrow> rtt_estimator \<Rightarrow> bool" where
  "estimate_in lo hi r \<longleftrightarrow>
     lo \<le> GetEstimate r \<and> GetEstimate r \<le> hi \<and> 0 \<le> GetVariation r \<and> GetVariation r \<le> max (hi - lo) (hi div 2)"

lemma Measurement_step:
  assumes "default_gain r" "0 \<le> lo" "lo \<le> m" "m \<le> hi" "hi < 2 ^ 59" "m_nSamples r = 0 \<or> estimate_in lo hi r"
  obtains r' where "Measurement fp m r = Some r'" "default_gain r'" "estimate_in lo hi r'"
proof (cases "m_nSamples r = 0")
  case True
  show thesis
    by (rule that [of "r\<lparr>m_estimatedRtt := m, m_estimatedVariation := half_time m, m_nSamples := 1\<rparr>"])
       (use True assms zdiv_mono1 [of m hi 2] in \<open>simp_all add: Measurement_def default_gain_def estimate_in_def GetEstimate_def
          GetVariation_def half_time_def\<close>)
next
  case False
  with assms have e: "lo \<le> m_estimatedRtt r" "m_estimatedRtt r \<le> hi"
    and v: "0 \<le> m_estimatedVariation r" "m_estimatedVariation r \<le> max (hi - lo) (hi div 2)"
    by (simp_all add: estimate_in_def GetEstimate_def GetVariation_def)
  have "\<bar>m - m_estimatedRtt r\<bar> \<le> hi - lo" using assms e by simp
  then have "lo \<le> (7 * m_estimatedRtt r + m) div 8" "(7 * m_estimatedRtt r + m) div 8 \<le> hi"
    "0 \<le> (3 * m_estimatedVariation r + \<bar>m - m_estimatedRtt r\<bar>) div 4"
    "(3 * m_estimatedVariation r + \<bar>m - m_estimatedRtt r\<bar>) div 4 \<le> max (hi - lo) (hi div 2)"
    using assms e v by linarith+
  moreover let ?r = "r\<lparr>m_estimatedRtt := (7 * m_estimatedRtt r + m) div 8,
      m_estimatedVariation := (3 * m_estimatedVariation r + \<bar>m - m_estimatedRtt r\<bar>) div 4\<rparr>"
  have "IntegerUpdate m 3 2 r = Some ?r"
    using assms e v by (intro IntegerUpdate_value) linarith+
  ultimately show thesis using False assms(1)
    by (intro that [of "?r\<lparr>m_nSamples := m_nSamples r + 1\<rparr>"]) (simp_all add: Measurement_def default_gain_def default_gains estimate_in_def GetEstimate_def GetVariation_def)
qed

lemma measure_all_in:
  assumes "default_gain r" "0 \<le> lo" "hi < 2 ^ 59" "\<forall>m \<in> set ms. lo \<le> m \<and> m \<le> hi" "estimate_in lo hi r"
  shows "\<exists>r'. measure_all fp ms r = Some r' \<and> estimate_in lo hi r'"
  using assms
proof (induction ms arbitrary: r)
  case (Cons m ms)
  then have "lo \<le> m" "m \<le> hi" "m_nSamples r = 0 \<or> estimate_in lo hi r" by simp_all
  from Measurement_step [OF Cons.prems(1,2) this(1,2) Cons.prems(3) this(3), of fp] obtain r' where
    "Measurement fp m r = Some r'" "default_gain r'" "estimate_in lo hi r'" .
  with Cons show ?case by simp
qed simp

text \<open>
  C35. With the default gains the estimator returns on every sequence of samples between \<open>lo\<close> and
  \<open>hi\<close>, however long, without an overflow; the estimate stays between the bounds and the variation is
  at most the larger of their distance and half of \<open>hi\<close>.
\<close>

theorem rtt_estimate_bounded:
  assumes "0 \<le> lo" "hi < 2 ^ 59" "ms \<noteq> []" "\<forall>m \<in> set ms. lo \<le> m \<and> m \<le> hi"
  shows "\<exists>r. measure_all fp ms (new_rtt initial (Fin (1 / 8)) (Fin (1 / 4))) = Some r \<and>
     lo \<le> GetEstimate r \<and> GetEstimate r \<le> hi \<and> 0 \<le> GetVariation r \<and> GetVariation r \<le> max (hi - lo) (hi div 2)"
proof -
  let ?r = "new_rtt initial (Fin (1 / 8)) (Fin (1 / 4))"
  have r: "default_gain ?r" "m_nSamples ?r = 0" by (simp_all add: new_rtt_def default_gain_def)
  obtain m ms' where ms: "ms = m # ms'" using assms(3) by (cases ms) auto
  then have "lo \<le> m" "m \<le> hi" "m_nSamples ?r = 0 \<or> estimate_in lo hi ?r" using assms(4) r(2) by simp_all
  from Measurement_step [OF r(1) assms(1) this(1,2) assms(2) this(3), of fp] obtain r' where
    "Measurement fp m ?r = Some r'" "default_gain r'" "estimate_in lo hi r'" .
  with measure_all_in [of r' lo hi ms' fp] assms ms show ?thesis by (auto simp: estimate_in_def)
qed

lemma rtt_estimate_bounded_witness:
  "\<exists>r. measure_all (\<lambda>m r. None) [10 ^ 8, 3 * 10 ^ 8] (new_rtt (10 ^ 9) (Fin (1 / 8)) (Fin (1 / 4))) = Some r \<and>
     10 ^ 8 \<le> GetEstimate r \<and> GetEstimate r \<le> 3 * 10 ^ 8 \<and> 0 \<le> GetVariation r \<and> GetVariation r \<le> 2 * 10 ^ 8"
  using rtt_estimate_bounded [of "10 ^ 8" "3 * 10 ^ 8" "[10 ^ 8, 3 * 10 ^ 8]" "\<lambda>m r. None" "10 ^ 9"] by simp

end
