(* ===== verification/SockState.thy ===== *)
theory SockState
  imports TxScore RxBuffer TcpHdr Recovery Rtt
begin

text \<open>
  The state of \<open>TcpSocketBase\<close> (\<open>internet/model/tcp-socket-base.h\<close>), the interfaces it calls and the
  segments that carry no data. A congestion control and a recovery algorithm are records of
  operations. Both end points of a connection are one record, whatever the address family. An
  \<open>EventId\<close> is the time when the event is due, \<open>None\<close> when it has run or was cancelled. The segments
  handed to \<open>TcpL4Protocol::SendPacket\<close> go to a log, the bytes that \<open>Send\<close> puts into the send buffer to
  another one, and calls under \<open>ScheduleNow\<close> to a third one.
\<close>

section \<open>The interfaces the socket calls\<close>

datatype TcpCAEvent =
  CA_EVENT_TX_START | CA_EVENT_CWND_RESTART | CA_EVENT_COMPLETE_CWR | CA_EVENT_LOSS | CA_EVENT_ECN_NO_CE
  | CA_EVENT_ECN_IS_CE | CA_EVENT_DELAYED_ACK | CA_EVENT_NON_DELAYED_ACK

record 'c cong_ops =
  GetSsThresh :: "time \<Rightarrow> 'c \<Rightarrow> tcb \<Rightarrow> uint32 \<Rightarrow> ('c \<times> uint32) option"
  IncreaseWindow :: "time \<Rightarrow> 'c \<Rightarrow> tcb \<Rightarrow> uint32 \<Rightarrow> ('c \<times> tcb) option"
  PktsAcked :: "time \<Rightarrow> 'c \<Rightarrow> tcb \<Rightarrow> uint32 \<Rightarrow> time \<Rightarrow> ('c \<times> tcb) option"
  CongestionStateSet :: "time \<Rightarrow> 'c \<Rightarrow> tcb \<Rightarrow> TcpCongState \<Rightarrow> ('c \<times> tcb) option"
  CwndEvent :: "time \<Rightarrow> 'c \<Rightarrow> tcb \<Rightarrow> TcpCAEvent \<Rightarrow> ('c \<times> tcb) option"
  cc_Fork :: "'c \<Rightarrow> 'c"
  cc_Init :: "time \<Rightarrow> 'c \<Rightarrow> tcb \<Rightarrow> ('c \<times> tcb) option"

record 'r recovery_if =
  EnterRecovery :: "'r \<Rightarrow> tcb \<Rightarrow> uint32 \<Rightarrow> uint32 \<Rightarrow> uint32 \<Rightarrow> ('r \<times> tcb) option"
  DoRecovery :: "'r \<Rightarrow> tcb \<Rightarrow> uint32 \<Rightarrow> ('r \<times> tcb) option"
  ExitRecovery :: "'r \<Rightarrow> tcb \<Rightarrow> ('r \<times> tcb) option"
  UpdateBytesSent :: "'r \<Rightarrow> uint32 \<Rightarrow> 'r"
  rec_Fork :: "'r \<Rightarrow> 'r"

text \<open>What the socket tells the application, and what it schedules for now.\<close>

datatype app_event =
  DataRecv | NormalClose | ErrorClose | ConnectionFailed | ConnectionSucceeded_note | NewConnectionCreated | SendSpace uint32

datatype deferred = CallConnectionSucceeded | CallDataSent uint32

section \<open>State\<close>

datatype TcpStates =
  CLOSED | LISTEN | SYN_SENT | SYN_RCVD | ESTABLISHED | CLOSE_WAIT | LAST_ACK | FIN_WAIT_1 | FIN_WAIT_2 | CLOSING | TIME_WAIT

datatype SocketErrno = ERROR_NOTERROR | ERROR_NOTCONN | ERROR_MSGSIZE | ERROR_SHUTDOWN | ERROR_INVAL

datatype UseEcn = EcnOff | EcnOn | EcnAcceptOnly

record rtt_history =
  h_seq :: seq32
  h_count :: uint32
  h_time :: time
  h_retx :: bool

record end_point =
  local_address :: net_address
  local_port :: uint16
  peer_address :: net_address
  peer_port :: uint16

record segment =
  seg_source :: net_address
  seg_destination :: net_address
  seg_header :: tcp_header
  seg_data :: "uint8 list"

datatype retx_call = CallReTxTimeout | CallSendEmptyPacket uint8

record ('c, 'r) sock =
  m_retxEvent :: "(time \<times> retx_call) option"
  m_lastAckEvent :: "time option"
  m_delAckEvent :: "time option"
  m_persistEvent :: "time option"
  m_timewaitEvent :: "time option"
  m_sendPendingDataEvent :: "time option"
  m_dupAckCount :: uint32
  m_delAckCount :: uint32
  m_delAckMaxCount :: uint32
  m_noDelay :: bool
  m_synCount :: uint32
  m_synRetries :: uint32
  m_dataRetrCount :: uint32
  m_dataRetries :: uint32
  m_rto :: time
  m_minRto :: time
  m_clockGranularity :: time
  m_delAckTimeout :: time
  m_persistTimeout :: time
  m_cnTimeout :: time
  m_history :: "rtt_history list"
  m_endPoint :: "end_point option"
  m_rtt :: rtt_estimator
  m_txBuffer :: tx_buffer
  m_state :: TcpStates
  m_errno :: SocketErrno
  m_closeNotified :: bool
  m_closeOnEmpty :: bool
  m_shutdownSend :: bool
  m_shutdownRecv :: bool
  m_connected :: bool
  m_msl2 :: time       \<comment> \<open>\<open>Seconds(2 * m_msl)\<close>\<close>
  m_maxWinSize :: uint16
  m_bytesAckedNotProcessed :: uint32
  m_highTxAck :: seq32
  m_rWnd :: uint32
  m_advWnd :: uint32
  m_highRxMark :: seq32
  m_highRxAckMark :: seq32
  so_sackEnabled :: bool
  m_winScalingEnabled :: bool
  m_rcvWindShift :: uint8
  m_sndWindShift :: uint8
  m_timestampEnabled :: bool
  m_timestampToEcho :: uint32
  m_recover :: seq32
  m_recoverActive :: bool
  m_retxThresh :: uint32
  m_limitedTx :: bool
  m_isFirstPartialAck :: bool
  m_ecnEchoSeq :: seq32
  m_ecnCESeq :: seq32
  m_ecnCWRSeq :: seq32
  m_congestionControl :: 'c
  m_recoveryOps :: 'r
  m_tcb :: tcb
  \<comment> \<open>the members of \<open>TcpSocketState\<close> that only the socket uses\<close>
  m_rxBuffer :: rx_buffer
  m_initialCWnd :: uint32
  m_initialSsThresh :: uint32
  m_rcvTimestampValue :: uint32
  m_rcvTimestampEchoReply :: uint32
  m_minRtt :: time
  m_useEcn :: UseEcn
  \<comment> \<open>outputs\<close>
  sent_log :: "segment list"
  written_log :: "uint8 list"
  deferred_calls :: "deferred list"

text \<open>
  What is outside the socket: the time, the two algorithms, the reaction of the application to a
  callback (it may call the socket again), its answer to a connection request, the bytes that
  \<open>TcpRateOps\<close> counts as delivered for a list of items, whether the throughput file could be opened,
  and the update of the round-trip estimator for gains that are no powers of two.
\<close>

record ('c, 'r) env =
  Now :: time
  cops :: "'c cong_ops"
  rops :: "'r recovery_if"
  Notify :: "app_event \<Rightarrow> ('c, 'r) sock \<Rightarrow> ('c, 'r) sock option"
  AcceptRequest :: bool
  SkbDelivered :: "tx_item list \<Rightarrow> uint32"
  file_open :: bool
  FloatingPointUpdate :: "time \<Rightarrow> rtt_estimator \<Rightarrow> rtt_estimator option"

abbreviation seg_size :: "('c, 'r) sock \<Rightarrow> uint32" where
  "seg_size s \<equiv> tcb.m_segmentSize (m_tcb s)"

abbreviation cong_state :: "('c, 'r) sock \<Rightarrow> TcpCongState" where
  "cong_state s \<equiv> m_congState (m_tcb s)"

abbreviation ecn_state :: "('c, 'r) sock \<Rightarrow> EcnState" where
  "ecn_state s \<equiv> m_ecnState (m_tcb s)"

text \<open>The bits of the header flags.\<close>

abbreviation F_FIN :: uint8 where "F_FIN \<equiv> 1"
abbreviation F_SYN :: uint8 where "F_SYN \<equiv> 2"
abbreviation F_RST :: uint8 where "F_RST \<equiv> 4"
abbreviation F_PSH :: uint8 where "F_PSH \<equiv> 8"
abbreviation F_ACK :: uint8 where "F_ACK \<equiv> 16"
abbreviation F_URG :: uint8 where "F_URG \<equiv> 32"
abbreviation F_ECE :: uint8 where "F_ECE \<equiv> 64"
abbreviation F_CWR :: uint8 where "F_CWR \<equiv> 128"

text \<open>A bit is set.\<close>

definition has_flag :: "uint8 \<Rightarrow> uint8 \<Rightarrow> bool" where
  "has_flag flags f \<longleftrightarrow> flags AND f \<noteq> 0"

section \<open>Calls of the algorithms\<close>

definition on_cc :: "('c \<Rightarrow> tcb \<Rightarrow> ('c \<times> tcb) option) \<Rightarrow> ('c, 'r) sock \<Rightarrow> ('c, 'r) sock option" where
  "on_cc f s = do { (c, t) \<leftarrow> f (m_congestionControl s) (m_tcb s); Some (s\<lparr>m_congestionControl := c, m_tcb := t\<rparr>) }"

definition on_rec :: "('r \<Rightarrow> tcb \<Rightarrow> ('r \<times> tcb) option) \<Rightarrow> ('c, 'r) sock \<Rightarrow> ('c, 'r) sock option" where
  "on_rec f s = do { (r, t) \<leftarrow> f (m_recoveryOps s) (m_tcb s); Some (s\<lparr>m_recoveryOps := r, m_tcb := t\<rparr>) }"

definition call_PktsAcked :: "('c, 'r) env \<Rightarrow> uint32 \<Rightarrow> ('c, 'r) sock \<Rightarrow> ('c, 'r) sock option" where
  "call_PktsAcked e n s = on_cc (\<lambda>c t. PktsAcked (cops e) (Now e) c t n (m_lastRtt t)) s"

definition call_IncreaseWindow :: "('c, 'r) env \<Rightarrow> uint32 \<Rightarrow> ('c, 'r) sock \<Rightarrow> ('c, 'r) sock option" where
  "call_IncreaseWindow e n s = on_cc (\<lambda>c t. IncreaseWindow (cops e) (Now e) c t n) s"

definition call_CwndEvent :: "('c, 'r) env \<Rightarrow> TcpCAEvent \<Rightarrow> ('c, 'r) sock \<Rightarrow> ('c, 'r) sock option" where
  "call_CwndEvent e ev s = on_cc (\<lambda>c t. CwndEvent (cops e) (Now e) c t ev) s"

definition set_CongState :: "('c, 'r) env \<Rightarrow> TcpCongState \<Rightarrow> ('c, 'r) sock \<Rightarrow> ('c, 'r) sock option" where
  "set_CongState e st s = do {
     s \<leftarrow> on_cc (\<lambda>c t. CongestionStateSet (cops e) (Now e) c t st) s;
     Some (s\<lparr>m_tcb := (m_tcb s)\<lparr>m_congState := st\<rparr>\<rparr>)
   }"

definition reduce_SsThresh :: "('c, 'r) env \<Rightarrow> uint32 \<Rightarrow> ('c, 'r) sock \<Rightarrow> ('c, 'r) sock option" where
  "reduce_SsThresh e n s = do {
     (c, v) \<leftarrow> GetSsThresh (cops e) (Now e) (m_congestionControl s) (m_tcb s) n;
     Some (s\<lparr>m_congestionControl := c, m_tcb := (m_tcb s)\<lparr>m_ssThresh := v\<rparr>\<rparr>)
   }"

definition set_EcnState :: "EcnState \<Rightarrow> ('c, 'r) sock \<Rightarrow> ('c, 'r) sock" where
  "set_EcnState st s = s\<lparr>m_tcb := (m_tcb s)\<lparr>m_ecnState := st\<rparr>\<rparr>"

section \<open>Timers and closing\<close>

text \<open>\<open>Simulator::Schedule\<close> asserts that the delay is not negative; the time at which the event is due.\<close>

definition schedule :: "('c, 'r) env \<Rightarrow> time \<Rightarrow> time option" where
  "schedule e delay = do { ns_assert (0 \<le> delay); t_add (Now e) delay }"

definition CancelAllTimers :: "('c, 'r) sock \<Rightarrow> ('c, 'r) sock" where
  "CancelAllTimers s =
     s\<lparr>m_retxEvent := None, m_persistEvent := None, m_delAckEvent := None, m_lastAckEvent := None,
       m_timewaitEvent := None, m_sendPendingDataEvent := None\<rparr>"

definition DeallocateEndPoint :: "('c, 'r) sock \<Rightarrow> ('c, 'r) sock" where
  "DeallocateEndPoint s = (if m_endPoint s \<noteq> None then (CancelAllTimers s)\<lparr>m_endPoint := None\<rparr> else s)"

definition notify_close :: "('c, 'r) env \<Rightarrow> ('c, 'r) sock \<Rightarrow> ('c, 'r) sock option" where
  "notify_close e s =
     (if \<not> m_closeNotified s
      then do { s \<leftarrow> Notify e NormalClose s; Some (s\<lparr>m_closeNotified := True\<rparr>) }
      else Some s)"

definition CloseAndNotify :: "('c, 'r) env \<Rightarrow> ('c, 'r) sock \<Rightarrow> ('c, 'r) sock option" where
  "CloseAndNotify e s = do {
     s \<leftarrow> notify_close e s;
     Some (DeallocateEndPoint (s\<lparr>m_lastAckEvent := None, m_state := CLOSED\<rparr>))
   }"

definition TimeWait :: "('c, 'r) env \<Rightarrow> ('c, 'r) sock \<Rightarrow> ('c, 'r) sock option" where
  "TimeWait e s = do {
     s \<leftarrow> notify_close e (CancelAllTimers (s\<lparr>m_state := TIME_WAIT\<rparr>));
     due \<leftarrow> schedule e (m_msl2 s);
     Some (s\<lparr>m_timewaitEvent := Some due\<rparr>)
   }"

end
