(* ===== verification/SockSend.thy ===== *)
theory SockSend
  imports SockState
begin

text \<open>
  What \<open>TcpSocketBase\<close> sends: the header options, the advertised window, segments without data
  (\<open>SendEmptyPacket\<close>), data segments (\<open>SendDataPacket\<close>) and the loop that sends while the window allows it
  (\<open>SendPendingData\<close>). Pacing is off (the attribute \<open>EnablePacing\<close> is false by default). The packet
  tags that set bits of the IP header are left out.
\<close>

section \<open>Options\<close>

text \<open>\<open>Simulator::Now().GetMilliSeconds()\<close>, for the resolution of a nanosecond.\<close>

definition milliseconds :: "time \<Rightarrow> uint64" where
  "milliseconds t = of_int (t div 10 ^ 6)"

definition AddOptionTimestamp :: "('c, 'r) env \<Rightarrow> tcp_header \<Rightarrow> ('c, 'r) sock \<Rightarrow> tcp_header" where
  "AddOptionTimestamp e h s =
     snd (AppendOption (TcpOptionTS (NowToTsValue (milliseconds (Now e))) (m_timestampToEcho s)) h)"

definition AddOptions :: "('c, 'r) env \<Rightarrow> tcp_header \<Rightarrow> ('c, 'r) sock \<Rightarrow> tcp_header" where
  "AddOptions e h s = (if m_timestampEnabled s then AddOptionTimestamp e h s else h)"

function wscale_loop :: "uint32 \<Rightarrow> uint32 \<Rightarrow> uint8 \<Rightarrow> uint8" where
  "wscale_loop maxWinSize maxSpace scale =
     (if maxSpace > maxWinSize then wscale_loop maxWinSize (drop_bit 1 maxSpace) (scale + 1) else scale)"
  by pat_completeness auto
termination
proof (relation "measure (\<lambda>(_, maxSpace, _). unat maxSpace)")
  fix maxWinSize maxSpace :: uint32 and scale :: uint8
  assume "maxWinSize < maxSpace"
  then have "0 < unat maxSpace" by (metis word_coorder.not_eq_extremum unat_gt_0 not_less_zero word_not_simps(1))
  then show "((maxWinSize, drop_bit 1 maxSpace, scale + 1), maxWinSize, maxSpace, scale)
      \<in> measure (\<lambda>(_, maxSpace, _). unat maxSpace)"
    by (simp add: drop_bit_Suc unat_div)
qed simp

definition CalculateWScale :: "('c, 'r) sock \<Rightarrow> uint8" where
  "CalculateWScale s = min 14 (wscale_loop (ucast (m_maxWinSize s)) (rx_MaxBufferSize (m_rxBuffer s)) 0)"

definition AddOptionWScale :: "tcp_header \<Rightarrow> ('c, 'r) sock \<Rightarrow> (tcp_header \<times> ('c, 'r) sock) option" where
  "AddOptionWScale h s = do {
     ns_assert (has_flag (m_flags h) F_SYN);
     let s = s\<lparr>m_rcvWindShift := CalculateWScale s\<rparr>;
     op \<leftarrow> SetScale (m_rcvWindShift s);
     Some (snd (AppendOption op h), s)
   }"

definition AddOptionSackPermitted :: "tcp_header \<Rightarrow> tcp_header option" where
  "AddOptionSackPermitted h = do {
     ns_assert (has_flag (m_flags h) F_SYN);
     Some (snd (AppendOption TcpOptionSackPermitted h))
   }"

text \<open>The subtraction of two is in \<open>int\<close> and its quotient by eight is cut to zero.\<close>

definition AddOptionSack :: "tcp_header \<Rightarrow> ('c, 'r) sock \<Rightarrow> tcp_header" where
  "AddOptionSack h s =
     (let optionLenAvail = m_maxOptionsLen - m_optionsLen h;
          allowedSackBlocks = (unat optionLenAvail - 2) div 8;
          sackList = GetSackList (m_rxBuffer s)
      in if allowedSackBlocks = 0 \<or> sackList = [] then h
         else snd (AppendOption (TcpOptionSack (foldl (\<lambda>l b. AddSackBlock b l) [] (take allowedSackBlocks sackList))) h))"

section \<open>Segments without data\<close>

definition AdvertisedWindowSize :: "bool \<Rightarrow> ('c, 'r) sock \<Rightarrow> (uint16 \<times> ('c, 'r) sock) option" where
  "AdvertisedWindowSize scale s = do {
     let b = m_rxBuffer s;
     w \<leftarrow> (if GotFin b then Some (m_advWnd s)
          else do {
            ns_assert (seq_diff (MaxRxSequence b) (NextRxSequence b) \<ge> 0);
            Some (of_int (seq_diff (MaxRxSequence b) (NextRxSequence b)))
          });
     let s = s\<lparr>m_advWnd := w\<rparr>;
     let w = (if scale then drop_bit (unat (m_rcvWindShift s)) w else w);
     Some (ucast (min w (ucast (m_maxWinSize s))), s)
   }"

text \<open>The RTO of RFC 6298, and the timeout of the last acknowledgement, without the minimum.\<close>

definition last_rto :: "('c, 'r) sock \<Rightarrow> time option" where
  "last_rto s = do {
     v4 \<leftarrow> int64 (GetVariation (m_rtt s) * 4);
     t_add (GetEstimate (m_rtt s)) (max (m_clockGranularity s) v4)
   }"

definition computed_rto :: "('c, 'r) sock \<Rightarrow> time option" where
  "computed_rto s = do { t \<leftarrow> last_rto s; Some (max t (m_minRto s)) }"

fun mark_history :: "seq32 \<Rightarrow> uint32 \<Rightarrow> rtt_history list \<Rightarrow> rtt_history list" where
  "mark_history sq sz [] = []"
| "mark_history sq sz (i # is) =
     (if seq_ge sq (h_seq i) \<and> seq_lt sq (h_seq i + h_count i)
      then i\<lparr>h_retx := True, h_count := of_int (seq_diff (sq + sz) (h_seq i))\<rparr> # is
      else i # mark_history sq sz is)"

definition UpdateRttHistory :: "time \<Rightarrow> seq32 \<Rightarrow> uint32 \<Rightarrow> bool \<Rightarrow> rtt_history list \<Rightarrow> rtt_history list" where
  "UpdateRttHistory now sq sz isRetransmission h =
     (if \<not> isRetransmission then h @ [\<lparr>h_seq = sq, h_count = sz, h_time = now, h_retx = False\<rparr>]
      else mark_history sq sz h)"

definition SendPacket :: "end_point \<Rightarrow> tcp_header \<Rightarrow> uint8 list \<Rightarrow> ('c, 'r) sock \<Rightarrow> ('c, 'r) sock" where
  "SendPacket ep h p s =
     s\<lparr>sent_log := sent_log s @
        [\<lparr>seg_source = local_address ep, seg_destination = peer_address ep, seg_header = h, seg_data = p\<rparr>]\<rparr>"

definition base_header :: "end_point \<Rightarrow> uint8 \<Rightarrow> seq32 \<Rightarrow> ('c, 'r) sock \<Rightarrow> tcp_header" where
  "base_header ep flags sq s =
     SetDestinationPort (peer_port ep) (SetSourcePort (local_port ep)
       (SetAckNumber (NextRxSequence (m_rxBuffer s)) (SetSequenceNumber sq (SetFlags flags new_tcp_header))))"

text \<open>The options and the retry count of a SYN; \<open>Inr\<close> is the socket that gives up.\<close>

definition syn_fields ::
    "('c, 'r) env \<Rightarrow> seq32 \<Rightarrow> tcp_header \<Rightarrow> ('c, 'r) sock \<Rightarrow> ((tcp_header \<times> uint16 \<times> ('c, 'r) sock) + ('c, 'r) sock) option" where
  "syn_fields e sq h s = do {
     (h, s) \<leftarrow> (if m_winScalingEnabled s then AddOptionWScale h s else Some (h, s));
     h \<leftarrow> (if so_sackEnabled s then AddOptionSackPermitted h else Some h);
     if m_synCount s = 0
     then do {
       s \<leftarrow> Notify e ConnectionFailed (s\<lparr>m_rtt := rtt_Reset (m_rtt s)\<rparr>);
       Some (Inr (DeallocateEndPoint (s\<lparr>m_state := CLOSED\<rparr>)))
     }
     else do {
       ns_assert (unat (m_synRetries s - m_synCount s) < 31);
       rto \<leftarrow> int64 (m_cnTimeout s * 2 ^ unat (m_synRetries s - m_synCount s));
       let s = s\<lparr>m_rto := rto, m_synCount := m_synCount s - 1\<rparr>;
       let s = s\<lparr>m_history := UpdateRttHistory (Now e) sq 0 (m_synRetries s - 1 \<noteq> m_synCount s) (m_history s)\<rparr>;
       (w, s) \<leftarrow> AdvertisedWindowSize False s;
       Some (Inl (h, w, s))
     }
   }"

definition ack_fields :: "tcp_header \<Rightarrow> ('c, 'r) sock \<Rightarrow> tcp_header \<times> ('c, 'r) sock" where
  "ack_fields h s =
     (let s = s\<lparr>m_delAckEvent := None, m_delAckCount := 0,
                m_highTxAck := (if seq_lt (m_highTxAck s) (m_ackNumber h) then m_ackNumber h else m_highTxAck s)\<rparr>
      in (if so_sackEnabled s \<and> GetSackListSize (m_rxBuffer s) > 0 then AddOptionSack h s else h, s))"

definition SendEmptyPacket :: "('c, 'r) env \<Rightarrow> uint8 \<Rightarrow> ('c, 'r) sock \<Rightarrow> ('c, 'r) sock option" where
  "SendEmptyPacket e flags s =
     (case m_endPoint s of
        None \<Rightarrow> Some s
      | Some ep \<Rightarrow> do {
          let nxt = m_nextTxSequence (m_tcb s);
          let (flags, sq) =
            (if has_flag flags F_FIN then (flags OR F_ACK, nxt)
             else if m_state s \<in> {FIN_WAIT_1, LAST_ACK, CLOSING} then (flags, nxt + 1) else (flags, nxt));
          let h = AddOptions e (base_header ep flags sq s) s;
          rto \<leftarrow> computed_rto s;
          (windowSize, s) \<leftarrow> AdvertisedWindowSize True (s\<lparr>m_rto := rto\<rparr>);
          let hasSyn = has_flag flags F_SYN;
          let hasFin = has_flag flags F_FIN;
          r \<leftarrow> (if hasSyn then syn_fields e sq h s else Some (Inl (h, windowSize, s)));
          (case r of
             Inr s \<Rightarrow> Some s
           | Inl (h, windowSize, s) \<Rightarrow> do {
               let h = SetWindowSize windowSize h;
               let (h, s) = (if has_flag flags F_ACK then ack_fields h s else (h, s));
               let s = SendPacket ep h [] s;
               if m_retxEvent s = None \<and> (hasSyn \<or> hasFin) \<and> flags \<noteq> F_ACK
               then do { due \<leftarrow> schedule e (m_rto s); Some (s\<lparr>m_retxEvent := Some (due, CallSendEmptyPacket flags)\<rparr>) }
               else Some s
             })
        })"

definition SendRST :: "('c, 'r) env \<Rightarrow> ('c, 'r) sock \<Rightarrow> ('c, 'r) sock option" where
  "SendRST e s = do {
     s \<leftarrow> SendEmptyPacket e F_RST s;
     s \<leftarrow> Notify e ErrorClose s;
     Some (DeallocateEndPoint s)
   }"

text \<open>The acknowledgement that echoes a congestion mark, as five functions of the socket send it.\<close>

definition send_ack :: "('c, 'r) env \<Rightarrow> ('c, 'r) sock \<Rightarrow> ('c, 'r) sock option" where
  "send_ack e s =
     (if ecn_state s = ECN_CE_RCVD \<or> ecn_state s = ECN_SENDING_ECE
      then do { s \<leftarrow> SendEmptyPacket e (F_ACK OR F_ECE) s; Some (set_EcnState ECN_SENDING_ECE s) }
      else SendEmptyPacket e F_ACK s)"

section \<open>Windows\<close>

definition sock_BytesInFlight :: "('c, 'r) sock \<Rightarrow> (uint32 \<times> ('c, 'r) sock) option" where
  "sock_BytesInFlight s = do {
     n \<leftarrow> BytesInFlight (m_txBuffer s);
     Some (n, s\<lparr>m_tcb := (m_tcb s)\<lparr>m_bytesInFlight := n\<rparr>\<rparr>)
   }"

definition UnAckDataCount :: "('c, 'r) sock \<Rightarrow> uint32" where
  "UnAckDataCount s = of_int (seq_diff (m_highTxMark (m_tcb s)) (HeadSequence (m_txBuffer s)))"

definition Window :: "('c, 'r) sock \<Rightarrow> uint32" where
  "Window s = min (m_rWnd s) (m_cWnd (m_tcb s))"

definition AvailableWindow :: "('c, 'r) sock \<Rightarrow> (uint32 \<times> ('c, 'r) sock) option" where
  "AvailableWindow s = do {
     let win = Window s;
     (inflight, s) \<leftarrow> sock_BytesInFlight s;
     Some (if inflight > win then 0 else win - inflight, s)
   }"

definition SafeSubtraction :: "uint32 \<Rightarrow> uint32 \<Rightarrow> uint32" where
  "SafeSubtraction a b = (if a > b then a - b else 0)"

definition UpdateWindowSize :: "tcp_header \<Rightarrow> ('c, 'r) sock \<Rightarrow> ('c, 'r) sock" where
  "UpdateWindowSize h s =
     (let receivedWindow = push_bit (unat (m_sndWindShift s)) (ucast (m_windowSize h)) :: uint32
      in if m_state s \<in> {CLOSED, LISTEN, SYN_SENT, SYN_RCVD} then s\<lparr>m_rWnd := receivedWindow\<rparr>
         else
           let update = (m_ackNumber h = m_highRxAckMark s \<and> receivedWindow > m_rWnd s);
               (s, update) = (if seq_gt (m_ackNumber h) (m_highRxAckMark s)
                              then (s\<lparr>m_highRxAckMark := m_ackNumber h\<rparr>, True) else (s, update));
               (s, update) = (if seq_gt (m_sequenceNumber h) (m_highRxMark s)
                              then (s\<lparr>m_highRxMark := m_sequenceNumber h\<rparr>, True) else (s, update))
           in if update then s\<lparr>m_rWnd := receivedWindow\<rparr> else s)"

section \<open>Data segments\<close>

definition close_flags :: "bool \<Rightarrow> TcpStates \<Rightarrow> uint8 \<times> TcpStates" where
  "close_flags fin st =
     (if fin then (F_FIN, if st = ESTABLISHED then FIN_WAIT_1 else if st = CLOSE_WAIT then LAST_ACK else st) else (0, st))"

definition SendDataPacket ::
    "('c, 'r) env \<Rightarrow> seq32 \<Rightarrow> uint32 \<Rightarrow> bool \<Rightarrow> ('c, 'r) sock \<Rightarrow> (uint32 \<times> ('c, 'r) sock) option" where
  "SendDataPacket e sq maxSize withAck s = do {
     (n, s) \<leftarrow> sock_BytesInFlight s;
     (outItem, b) \<leftarrow> CopyFromSequence (Now e) maxSize sq (m_txBuffer s);
     item \<leftarrow> outItem;
     let s = s\<lparr>m_txBuffer := b\<rparr>;
     let isRetransmission = m_retrans item;
     let sz = GetSize (m_packet item);
     let flags = (if withAck then F_ACK else 0);
     let remainingData = SizeFromSequence (sq + sz) b;
     ns_assert (isRetransmission \<or> seq_ge (m_highRxAckMark s + m_rWnd s) (sq + maxSize));
     let s = (if withAck then s\<lparr>m_delAckEvent := None, m_delAckCount := 0\<rparr> else s);
     let cwr = (ecn_state s = ECN_ECE_RCVD \<and> seq_gt (m_ecnEchoSeq s) (m_ecnCWRSeq s) \<and> \<not> isRetransmission);
     let s = (if cwr then (set_EcnState ECN_CWR_SENT s)\<lparr>m_ecnCWRSeq := sq\<rparr> else s);
     let flags = (if cwr then flags OR F_CWR else flags);
     let (fin, st) = close_flags (m_closeOnEmpty s \<and> remainingData = 0) (m_state s);
     let s = s\<lparr>m_state := st\<rparr>;
     ep \<leftarrow> m_endPoint s;
     (windowSize, s) \<leftarrow> AdvertisedWindowSize True s;
     let h = AddOptions e (SetWindowSize windowSize (base_header ep (flags OR fin) sq s)) s;
     s \<leftarrow> (if m_retxEvent s = None
          then do { due \<leftarrow> schedule e (m_rto s); Some (s\<lparr>m_retxEvent := Some (due, CallReTxTimeout)\<rparr>) } else Some s);
     let s = SendPacket ep h (m_packet item) s;
     let s = s\<lparr>m_history := UpdateRttHistory (Now e) sq sz isRetransmission (m_history s)\<rparr>;
     let s = (if cong_state s = CA_RECOVERY \<or> cong_state s = CA_CWR
              then s\<lparr>m_recoveryOps := UpdateBytesSent (rops e) (m_recoveryOps s) sz\<rparr> else s);
     let high = m_highTxMark (m_tcb s);
     let s = (if \<not> isRetransmission
              then s\<lparr>deferred_calls := deferred_calls s @ [CallDataSent (of_int (seq_diff (sq + sz) high))]\<rparr> else s);
     Some (sz, s\<lparr>m_tcb := (m_tcb s)\<lparr>m_highTxMark := (if seq_lt (sq + sz) high then high else sq + sz)\<rparr>\<rparr>)
   }"

definition notify_send :: "('c, 'r) env \<Rightarrow> ('c, 'r) sock \<Rightarrow> ('c, 'r) sock option" where
  "notify_send e s = Notify e (SendSpace (Available (m_txBuffer s))) s"

text \<open>The loop of \<open>SendPendingData\<close>, with the number of packets sent.\<close>

partial_function (option) send_loop ::
    "('c, 'r) env \<Rightarrow> bool \<Rightarrow> uint32 \<Rightarrow> ('c, 'r) sock \<Rightarrow> (uint32 \<times> ('c, 'r) sock) option" where
  "send_loop e withAck nPacketsSent s = do {
     (availableWindow, s) \<leftarrow> AvailableWindow s;
     if availableWindow = 0 then Some (nPacketsSent, s)
     else if cong_state s = CA_OPEN \<and> m_state s = FIN_WAIT_1 then Some (nPacketsSent, s)
     else case NextSeg (m_rWnd s) (so_sackEnabled s \<and> cong_state s = CA_RECOVERY) (m_txBuffer s) of
       None \<Rightarrow> Some (nPacketsSent, s)
     | Some (nxt, nextHigh) \<Rightarrow> do {
         let availableData = SizeFromSequence nxt (m_txBuffer s);
         s \<leftarrow> (if availableData < availableWindow then notify_send e s else Some s);
         if availableWindow < seg_size s \<and> availableData > availableWindow then Some (nPacketsSent, s)
         else if \<not> m_noDelay s \<and> UnAckDataCount s > 0 \<and> availableData < seg_size s then Some (nPacketsSent, s)
         else do {
           let n = min (min availableWindow (seg_size s)) (of_int (seq_diff nextHigh nxt));
           let s = s\<lparr>m_tcb := (m_tcb s)\<lparr>m_nextTxSequence := nxt\<rparr>\<rparr>;
           s \<leftarrow> (if m_bytesInFlight (m_tcb s) = 0 then call_CwndEvent e CA_EVENT_TX_START s else Some s);
           (sz, s) \<leftarrow> SendDataPacket e (m_nextTxSequence (m_tcb s)) n withAck s;
           send_loop e withAck (nPacketsSent + 1)
             (s\<lparr>m_tcb := (m_tcb s)\<lparr>m_nextTxSequence := m_nextTxSequence (m_tcb s) + sz\<rparr>\<rparr>)
         }
       }
   }"

declare send_loop.simps [code]

definition SendPendingData ::
    "('c, 'r) env \<Rightarrow> bool \<Rightarrow> ('c, 'r) sock \<Rightarrow> (uint32 \<times> ('c, 'r) sock) option" where
  "SendPendingData e withAck s =
     (if Size (m_txBuffer s) = 0 then Some (0, s)
      else if m_endPoint s = None then Some (0, s)
      else do {
        (n, s) \<leftarrow> send_loop e withAck 0 s;
        ns_assert (n > 0 \<and> \<not> so_sackEnabled s \<and> \<not> m_limitedTx s \<longrightarrow> cong_state s \<noteq> CA_DISORDER);
        Some (n, s)
      })"

definition DoRetransmit :: "('c, 'r) env \<Rightarrow> ('c, 'r) sock \<Rightarrow> ('c, 'r) sock option" where
  "DoRetransmit e s = do {
     let (sq, maxSizeToSend) = (case NextSeg (m_rWnd s) False (m_txBuffer s) of
            None \<Rightarrow> (HeadSequence (m_txBuffer s), seg_size s)
          | Some (sq, seqHigh) \<Rightarrow> (sq, of_int (seq_diff seqHigh sq)));
     ns_assert (so_sackEnabled s \<or> sq = HeadSequence (m_txBuffer s));
     let s = s\<lparr>m_tcb := (m_tcb s)\<lparr>m_nextTxSequence := sq\<rparr>\<rparr>;
     (sz, s) \<leftarrow> SendDataPacket e (m_nextTxSequence (m_tcb s)) maxSizeToSend True s;
     ns_assert (sz > 0);
     Some s
   }"

end
