(* ===== verification/SockAck.thy ===== *)
theory SockAck
  imports SockSend
begin

text \<open>
  How \<open>TcpSocketBase\<close> reacts to an acknowledgement: the duplicate, partial and full acknowledgements
  of \<open>ProcessAck\<close> over the congestion states open, disorder, recovery, loss and congestion window reduced,
  and the retransmission timeout. \<open>HasCongControl\<close> is false (it is true of \<open>TcpBbr\<close> only).
\<close>

section \<open>Acknowledgements\<close>

definition NewAck :: "('c, 'r) env \<Rightarrow> seq32 \<Rightarrow> bool \<Rightarrow> ('c, 'r) sock \<Rightarrow> ('c, 'r) sock option" where
  "NewAck e ack resetRTO s = do {
     let s = s\<lparr>m_dataRetrCount := m_dataRetries s\<rparr>;
     s \<leftarrow> (if m_state s \<noteq> SYN_RCVD \<and> resetRTO
           then do {
             rto \<leftarrow> computed_rto s;
             due \<leftarrow> schedule e rto;
             Some (s\<lparr>m_rto := rto, m_retxEvent := Some (due, CallReTxTimeout)\<rparr>)
           } else Some s);
     s \<leftarrow> (if Available (m_txBuffer s) > 0 then notify_send e s else Some s);
     let s = (if seq_gt ack (m_nextTxSequence (m_tcb s)) then s\<lparr>m_tcb := (m_tcb s)\<lparr>m_nextTxSequence := ack\<rparr>\<rparr> else s);
     Some (if Size (m_txBuffer s) = 0 \<and> m_state s \<noteq> FIN_WAIT_1 \<and> m_state s \<noteq> CLOSING
           then s\<lparr>m_retxEvent := None\<rparr> else s)
   }"

definition sock_EnterCwr :: "('c, 'r) env \<Rightarrow> uint32 \<Rightarrow> ('c, 'r) sock \<Rightarrow> ('c, 'r) sock option" where
  "sock_EnterCwr e currentDelivered s = do {
     (n, s) \<leftarrow> sock_BytesInFlight s;
     s \<leftarrow> reduce_SsThresh e n s;
     let s = s\<lparr>m_tcb := (m_tcb s)\<lparr>m_cWndInfl := m_ssThresh (m_tcb s)\<rparr>\<rparr>;
     ns_assert (cong_state s \<noteq> CA_CWR);
     let s = s\<lparr>m_tcb := (m_tcb s)\<lparr>m_congState := CA_CWR\<rparr>, m_recover := m_highTxMark (m_tcb s)\<rparr>;
     on_rec (\<lambda>r t. EnterRecovery (rops e) r t (m_dupAckCount s) (UnAckDataCount s) currentDelivered) s
   }"

definition sock_EnterRecovery :: "('c, 'r) env \<Rightarrow> uint32 \<Rightarrow> ('c, 'r) sock \<Rightarrow> ('c, 'r) sock option" where
  "sock_EnterRecovery e currentDelivered s = do {
     ns_assert (cong_state s \<noteq> CA_RECOVERY);
     b \<leftarrow> (if \<not> so_sackEnabled s then map_option MarkHeadAsLost (AddRenoSack (m_txBuffer s))
           else Some (if \<not> IsLost (HeadSequence (m_txBuffer s)) (m_txBuffer s)
                      then MarkHeadAsLost (m_txBuffer s) else m_txBuffer s));
     let s = s\<lparr>m_txBuffer := b, m_recover := m_highTxMark (m_tcb s), m_recoverActive := True\<rparr>;
     s \<leftarrow> set_CongState e CA_RECOVERY s;
     (n, s) \<leftarrow> sock_BytesInFlight s;
     let bytesInFlight = (if so_sackEnabled s then n else n + seg_size s);
     s \<leftarrow> reduce_SsThresh e bytesInFlight s;
     s \<leftarrow> on_rec (\<lambda>r t. EnterRecovery (rops e) r t (m_dupAckCount s) (UnAckDataCount s) currentDelivered) s;
     (sz, s) \<leftarrow> SendDataPacket e (m_highRxAckMark s) (seg_size s) True s;
     ns_assert (sz > 0);
     Some s
   }"

definition DupAck :: "('c, 'r) env \<Rightarrow> uint32 \<Rightarrow> ('c, 'r) sock \<Rightarrow> ('c, 'r) sock option" where
  "DupAck e currentDelivered s =
     (if cong_state s = CA_LOSS then Some s
      else do {
        let s = (if cong_state s \<noteq> CA_RECOVERY then s\<lparr>m_dupAckCount := m_dupAckCount s + 1\<rparr> else s);
        s \<leftarrow> (if cong_state s = CA_OPEN
              then do { ns_assert (m_dupAckCount s = 1); set_CongState e CA_DISORDER s } else Some s);
        if cong_state s = CA_RECOVERY then do {
          b \<leftarrow> (if \<not> so_sackEnabled s then AddRenoSack (m_txBuffer s) else Some (m_txBuffer s));
          on_rec (\<lambda>r t. DoRecovery (rops e) r t currentDelivered) (s\<lparr>m_txBuffer := b\<rparr>)
        }
        else if cong_state s = CA_DISORDER then do {
          ns_assert (m_dupAckCount s \<le> m_retxThresh s \<or> m_recoverActive s);
          if m_dupAckCount s = m_retxThresh s \<and> (seq_ge (m_highRxAckMark s) (m_recover s) \<or> \<not> m_recoverActive s)
          then do {
            s \<leftarrow> sock_EnterRecovery e currentDelivered s;
            ns_assert (cong_state s = CA_RECOVERY);
            Some s
          }
          else if IsLost (m_highRxAckMark s) (m_txBuffer s)
          then do {
            s \<leftarrow> sock_EnterRecovery e currentDelivered s;
            ns_assert (cong_state s = CA_RECOVERY);
            Some s
          }
          else do {
            b \<leftarrow> (if \<not> so_sackEnabled s \<and> m_limitedTx s then AddRenoSack (m_txBuffer s) else Some (m_txBuffer s));
            Some (s\<lparr>m_txBuffer := b\<rparr>)
          }
        }
        else Some s
      })"

text \<open>
  A cumulative acknowledgement in \<open>ProcessAck\<close>: the whole segments it covers, with the bytes left over
  from earlier ones.
\<close>

definition count_segments :: "uint32 \<Rightarrow> ('c, 'r) sock \<Rightarrow> (uint32 \<times> uint32 \<times> ('c, 'r) sock) option" where
  "count_segments bytesAcked s = do {
     ns_assert (seg_size s \<noteq> 0);
     let segsAcked = bytesAcked div seg_size s;
     let s = s\<lparr>m_bytesAckedNotProcessed := m_bytesAckedNotProcessed s + bytesAcked mod seg_size s\<rparr>;
     let bytesAcked = bytesAcked - bytesAcked mod seg_size s;
     Some (if m_bytesAckedNotProcessed s \<ge> seg_size s
           then (segsAcked + 1, bytesAcked + seg_size s,
                 s\<lparr>m_bytesAckedNotProcessed := m_bytesAckedNotProcessed s - seg_size s\<rparr>)
           else (segsAcked, bytesAcked, s))
   }"

definition partial_ack :: "('c, 'r) env \<Rightarrow> seq32 \<Rightarrow> uint32 \<Rightarrow> uint32 \<Rightarrow> uint32 \<Rightarrow> ('c, 'r) sock \<Rightarrow> ('c, 'r) sock option" where
  "partial_ack e ackNumber currentDelivered segsAcked bytesAcked s = do {
     let s = (if \<not> so_sackEnabled s then s\<lparr>m_txBuffer := MarkHeadAsLost (m_txBuffer s)\<rparr> else s);
     s \<leftarrow> (if segsAcked \<ge> 1 then on_rec (\<lambda>r t. DoRecovery (rops e) r t currentDelivered) s else Some s);
     s \<leftarrow> (if \<not> IsRetransmittedDataAcked (ackNumber + seg_size s) (m_txBuffer s)
           then do {
             s \<leftarrow> DoRetransmit e s;
             Some (s\<lparr>m_tcb := (m_tcb s)\<lparr>m_cWndInfl := SafeSubtraction (m_cWndInfl (m_tcb s)) bytesAcked\<rparr>\<rparr>)
           } else Some s);
     s \<leftarrow> call_PktsAcked e 1 s;
     s \<leftarrow> NewAck e ackNumber (m_isFirstPartialAck s) s;
     Some (s\<lparr>m_isFirstPartialAck := False\<rparr>)
   }"

text \<open>The states that leave recovery or loss, or are in none; the flag says that fast recovery was left.\<close>

definition leave_episode ::
    "('c, 'r) env \<Rightarrow> seq32 \<Rightarrow> seq32 \<Rightarrow> uint32 \<Rightarrow> uint32 \<Rightarrow> bool \<Rightarrow> ('c, 'r) sock \<Rightarrow> (bool \<times> uint32 \<times> ('c, 'r) sock) option" where
  "leave_episode e ackNumber oldHeadSequence segsAcked oldDupAckCount isDupack s =
     (case cong_state s of
        CA_OPEN \<Rightarrow> do { s \<leftarrow> call_PktsAcked e segsAcked s; Some (False, segsAcked, s) }
      | CA_DISORDER \<Rightarrow> do {
          s \<leftarrow> (if segsAcked \<ge> oldDupAckCount then call_PktsAcked e (segsAcked - oldDupAckCount) s else Some s);
          s \<leftarrow> (if \<not> isDupack then set_CongState e CA_OPEN s else Some s);
          Some (False, segsAcked, s)
        }
      | CA_RECOVERY \<Rightarrow> do {
          let s = s\<lparr>m_isFirstPartialAck := True\<rparr>;
          let segsAcked = of_int (seq_diff ackNumber oldHeadSequence) div seg_size s;
          s \<leftarrow> call_PktsAcked e segsAcked s;
          s \<leftarrow> call_CwndEvent e CA_EVENT_COMPLETE_CWR s;
          s \<leftarrow> set_CongState e CA_OPEN s;
          Some (True, segsAcked, s\<lparr>m_dupAckCount := 0\<rparr>)
        }
      | CA_LOSS \<Rightarrow> do {
          let s = s\<lparr>m_isFirstPartialAck := True\<rparr>;
          let segsAcked = of_int (seq_diff ackNumber (m_recover s)) div seg_size s;
          s \<leftarrow> call_PktsAcked e segsAcked s;
          s \<leftarrow> set_CongState e CA_OPEN s;
          Some (False, segsAcked, s)
        }
      | CA_CWR \<Rightarrow> Some (False, segsAcked, s))"

definition full_ack ::
    "('c, 'r) env \<Rightarrow> seq32 \<Rightarrow> seq32 \<Rightarrow> uint32 \<Rightarrow> uint32 \<Rightarrow> bool \<Rightarrow> ('c, 'r) sock \<Rightarrow> ('c, 'r) sock option" where
  "full_ack e ackNumber oldHeadSequence segsAcked oldDupAckCount isDupack s = do {
     (exitedFastRecovery, segsAcked, s) \<leftarrow> leave_episode e ackNumber oldHeadSequence segsAcked oldDupAckCount isDupack s;
     let s = (if seq_ge ackNumber (m_recover s) then s\<lparr>m_recoverActive := False\<rparr> else s);
     s \<leftarrow> (if exitedFastRecovery
           then do {
             s \<leftarrow> NewAck e ackNumber True s;
             on_rec (\<lambda>r t. ExitRecovery (rops e) r t) (s\<lparr>m_tcb := (m_tcb s)\<lparr>m_cWnd := m_ssThresh (m_tcb s)\<rparr>\<rparr>)
           } else Some s);
     if cong_state s = CA_OPEN
     then do {
       s \<leftarrow> call_IncreaseWindow e segsAcked s;
       NewAck e ackNumber True (s\<lparr>m_tcb := (m_tcb s)\<lparr>m_cWndInfl := m_cWnd (m_tcb s)\<rparr>\<rparr>)
     }
     else Some s
   }"

definition new_data_acked ::
    "('c, 'r) env \<Rightarrow> seq32 \<Rightarrow> seq32 \<Rightarrow> uint32 \<Rightarrow> uint32 \<Rightarrow> bool \<Rightarrow> ('c, 'r) sock \<Rightarrow> ('c, 'r) sock option" where
  "new_data_acked e ackNumber oldHeadSequence currentDelivered oldDupAckCount isDupack s = do {
     (segsAcked, bytesAcked, s) \<leftarrow> count_segments (of_int (seq_diff ackNumber oldHeadSequence)) s;
     let s = (if \<not> isDupack then s\<lparr>m_dupAckCount := 0\<rparr> else s);
     if seq_lt ackNumber (m_recover s) \<and> cong_state s = CA_RECOVERY
     then partial_ack e ackNumber currentDelivered segsAcked bytesAcked s
     else if seq_lt ackNumber (m_recover s) \<and> cong_state s = CA_LOSS
     then do {
       s \<leftarrow> call_PktsAcked e segsAcked s;
       s \<leftarrow> call_IncreaseWindow e segsAcked s;
       ns_assert (so_sackEnabled s \<or> GetSacked (m_txBuffer s) = 0);
       NewAck e ackNumber True s
     }
     else if cong_state s = CA_CWR
     then do {
       s \<leftarrow> call_PktsAcked e segsAcked s;
       s \<leftarrow> (if segsAcked \<ge> 1 then on_rec (\<lambda>r t. DoRecovery (rops e) r t currentDelivered) s else Some s);
       NewAck e ackNumber True s
     }
     else full_ack e ackNumber oldHeadSequence segsAcked oldDupAckCount isDupack s
   }"

definition ProcessAck ::
    "('c, 'r) env \<Rightarrow> seq32 \<Rightarrow> bool \<Rightarrow> uint32 \<Rightarrow> seq32 \<Rightarrow> ('c, 'r) sock \<Rightarrow> ('c, 'r) sock option" where
  "ProcessAck e ackNumber scoreboardUpdated currentDelivered oldHeadSequence s = do {
     let oldDupAckCount = m_dupAckCount s;
     let s = s\<lparr>m_tcb := (m_tcb s)\<lparr>m_lastAckedSeq := ackNumber\<rparr>\<rparr>;
     let isDupack = (if so_sackEnabled s then scoreboardUpdated
                     else ackNumber = oldHeadSequence \<and> seq_lt ackNumber (m_highTxMark (m_tcb s)));
     s \<leftarrow> (if isDupack then DupAck e currentDelivered s else Some s);
     if ackNumber = oldHeadSequence \<and> ackNumber = m_highTxMark (m_tcb s) then Some s
     else if ackNumber = oldHeadSequence \<and> seq_gt ackNumber (m_highTxMark (m_tcb s))
     then Some (s\<lparr>m_tcb := (m_tcb s)\<lparr>m_nextTxSequence := ackNumber\<rparr>\<rparr>)
     else if ackNumber = oldHeadSequence then call_PktsAcked e 1 s
     else if seq_gt ackNumber oldHeadSequence
     then new_data_acked e ackNumber oldHeadSequence currentDelivered oldDupAckCount isDupack s
     else Some s
   }"

text \<open>\<open>ReadOptions\<close>: the last SACK option decides whether the scoreboard was updated.\<close>

fun ReadOptions :: "tcp_option list \<Rightarrow> uint32 \<Rightarrow> tx_item list \<Rightarrow> tx_buffer \<Rightarrow> (uint32 \<times> tx_item list \<times> tx_buffer) option" where
  "ReadOptions [] bytesSacked delivered b = Some (bytesSacked, delivered, b)"
| "ReadOptions (op # ops) bytesSacked delivered b =
     (case op of
        TcpOptionSack blks \<Rightarrow> do { (n, items, b) \<leftarrow> Update blks b; ReadOptions ops n (delivered @ items) b }
      | _ \<Rightarrow> ReadOptions ops bytesSacked delivered b)"

text \<open>The loop of \<open>ReceivedAck\<close> that looks for acknowledged retransmissions.\<close>

definition retrans_acked :: "seq32 \<Rightarrow> seq32 \<Rightarrow> ('c, 'r) sock \<Rightarrow> bool" where
  "retrans_acked ackNumber oldHeadSequence s \<longleftrightarrow>
     (\<exists>i \<in> set [0..<unat (of_int (seq_diff ackNumber oldHeadSequence) div seg_size s)].
        IsRetransmittedDataAcked (ackNumber - of_nat i * seg_size s) (m_txBuffer s))"

definition complete_cwr :: "('c, 'r) env \<Rightarrow> seq32 \<Rightarrow> ('c, 'r) sock \<Rightarrow> ('c, 'r) sock option" where
  "complete_cwr e ackNumber s =
     (if cong_state s = CA_CWR \<and> seq_gt ackNumber (m_recover s)
      then do {
        s \<leftarrow> on_rec (\<lambda>r t. ExitRecovery (rops e) r t)
              (s\<lparr>m_tcb := (m_tcb s)\<lparr>m_congState := CA_OPEN, m_cWnd := m_ssThresh (m_tcb s)\<rparr>\<rparr>);
        call_CwndEvent e CA_EVENT_COMPLETE_CWR s
      } else Some s)"

definition ecn_echo :: "('c, 'r) env \<Rightarrow> bool \<Rightarrow> seq32 \<Rightarrow> seq32 \<Rightarrow> uint32 \<Rightarrow> ('c, 'r) sock \<Rightarrow> ('c, 'r) sock option" where
  "ecn_echo e ece ackNumber oldHeadSequence currentDelivered s =
     (if seq_gt ackNumber oldHeadSequence \<and> m_ecnState (m_tcb s) \<noteq> ECN_DISABLED \<and> ece
      then if seq_lt (m_ecnEchoSeq s) ackNumber
        then let s = s\<lparr>m_ecnEchoSeq := ackNumber, m_tcb := (m_tcb s)\<lparr>m_ecnState := ECN_ECE_RCVD\<rparr>\<rparr>
             in if cong_state s \<noteq> CA_CWR then sock_EnterCwr e currentDelivered s else Some s
        else Some s
      else if m_ecnState (m_tcb s) = ECN_ECE_RCVD \<and> \<not> ece
      then Some (s\<lparr>m_tcb := (m_tcb s)\<lparr>m_ecnState := ECN_IDLE\<rparr>\<rparr>)
      else Some s)"

section \<open>The retransmission timeout\<close>

definition rto_max :: time where
  "rto_max = 60 * 10 ^ 9"

definition loss_reset :: "('c, 'r) env \<Rightarrow> ('c, 'r) sock \<Rightarrow> ('c, 'r) sock option" where
  "loss_reset e s = do {
     (inFlightBeforeRto, s) \<leftarrow> sock_BytesInFlight s;
     let s = s\<lparr>m_dupAckCount := 0\<rparr>;
     let b = (if \<not> so_sackEnabled s then ResetRenoSack (m_txBuffer s) else m_txBuffer s);
     b \<leftarrow> SetSentListLost (\<not> so_sackEnabled s) b;
     let s = s\<lparr>m_txBuffer := b, m_recover := m_highTxMark (m_tcb s), m_recoverActive := True\<rparr>;
     doubledRto \<leftarrow> t_add (m_rto s) (m_rto s);
     let s = s\<lparr>m_rto := min doubledRto rto_max, m_history := []\<rparr>;
     again \<leftarrow> (if cong_state s \<noteq> CA_LOSS then Some False else IsHeadRetransmitted (m_txBuffer s));
     s \<leftarrow> (if \<not> again then reduce_SsThresh e inFlightBeforeRto s else Some s);
     s \<leftarrow> call_CwndEvent e CA_EVENT_LOSS s;
     s \<leftarrow> set_CongState e CA_LOSS s;
     let s = s\<lparr>m_tcb := (m_tcb s)\<lparr>m_cWnd := seg_size s, m_cWndInfl := seg_size s\<rparr>\<rparr>;
     (n, s) \<leftarrow> sock_BytesInFlight s;
     ns_assert (n = 0);
     Some s
   }"

text \<open>The test for a buffer without data comes twice in the code; the second one is never reached.\<close>

definition ReTxTimeout :: "('c, 'r) env \<Rightarrow> ('c, 'r) sock \<Rightarrow> ('c, 'r) sock option" where
  "ReTxTimeout e s0 =
     (let s = s0\<lparr>m_retxEvent := None\<rparr> in
      if m_state s = CLOSED \<or> m_state s = TIME_WAIT then Some s
      else if m_state s = SYN_SENT
      then do {
        ns_assert (m_synCount s > 0);
        SendEmptyPacket e (if m_useEcn s = EcnOn then F_SYN OR F_ECE OR F_CWR else F_SYN) s
      }
      else if Size (m_txBuffer s) = 0
      then if m_state s = FIN_WAIT_1 \<or> m_state s = CLOSING then SendEmptyPacket e F_FIN s else Some s
      else if m_dataRetrCount s = 0
      then do { s \<leftarrow> Notify e ErrorClose s; Some (DeallocateEndPoint s) }
      else do {
        s \<leftarrow> loss_reset e (s\<lparr>m_dataRetrCount := m_dataRetrCount s - 1\<rparr>);
        (n, s) \<leftarrow> SendPendingData e (m_connected s) s;
        (n, s) \<leftarrow> sock_BytesInFlight s;
        ns_assert (n \<le> seg_size s);
        Some s
      })"

end
