(* ===== verification/SockRecv.thy ===== *)
theory SockRecv
  imports SockAck
begin

text \<open>
  The receiving side of \<open>TcpSocketBase\<close> and the calls of the application: \<open>ReceivedData\<close> with the
  delayed acknowledgements, \<open>ReceivedAck\<close>, the FIN of the peer, and \<open>Send\<close>, \<open>Recv\<close>, \<open>Close\<close> and the
  shutdown calls.
\<close>

section \<open>Closing\<close>

definition DoClose :: "('c, 'r) env \<Rightarrow> ('c, 'r) sock \<Rightarrow> ('c, 'r) sock option" where
  "DoClose e s =
     (if m_state s = SYN_RCVD \<or> m_state s = ESTABLISHED
      then do { s \<leftarrow> SendEmptyPacket e F_FIN s; Some (s\<lparr>m_state := FIN_WAIT_1\<rparr>) }
      else if m_state s = CLOSE_WAIT
      then do { s \<leftarrow> SendEmptyPacket e (F_FIN OR F_ACK) s; Some (s\<lparr>m_state := LAST_ACK\<rparr>) }
      else if m_state s = SYN_SENT \<or> m_state s = CLOSING
      then do { s \<leftarrow> SendRST e s; CloseAndNotify e s }
      else if m_state s = LISTEN then CloseAndNotify e s
      else Some s)"

definition sock_Close :: "('c, 'r) env \<Rightarrow> ('c, 'r) sock \<Rightarrow> ('c, 'r) sock option" where
  "sock_Close e s =
     (if rx_Size (m_rxBuffer s) \<noteq> 0 then SendRST e s
      else if SizeFromSequence (m_nextTxSequence (m_tcb s)) (m_txBuffer s) > 0 then Some (s\<lparr>m_closeOnEmpty := True\<rparr>)
      else DoClose e s)"

definition ShutdownSend :: "('c, 'r) env \<Rightarrow> ('c, 'r) sock \<Rightarrow> ('c, 'r) sock option" where
  "ShutdownSend e s =
     (let s = s\<lparr>m_shutdownSend := True, m_closeOnEmpty := True\<rparr> in
      if Size (m_txBuffer s) = 0 \<and> (m_state s = ESTABLISHED \<or> m_state s = CLOSE_WAIT)
      then do {
        s \<leftarrow> SendEmptyPacket e F_FIN s;
        Some (s\<lparr>m_state := (if m_state s = ESTABLISHED then FIN_WAIT_1 else LAST_ACK)\<rparr>)
      }
      else Some s)"

definition ShutdownRecv :: "('c, 'r) sock \<Rightarrow> ('c, 'r) sock" where
  "ShutdownRecv s = s\<lparr>m_shutdownRecv := True\<rparr>"

section \<open>The FIN of the peer\<close>

definition schedule_last_ack :: "('c, 'r) env \<Rightarrow> ('c, 'r) sock \<Rightarrow> ('c, 'r) sock option" where
  "schedule_last_ack e s = do {
     lastRto \<leftarrow> last_rto s;
     due \<leftarrow> schedule e lastRto;
     Some (s\<lparr>m_lastAckEvent := Some due\<rparr>)
   }"

definition DoPeerClose :: "('c, 'r) env \<Rightarrow> ('c, 'r) sock \<Rightarrow> ('c, 'r) sock option" where
  "DoPeerClose e s = do {
     ns_assert (m_state s \<in> {ESTABLISHED, SYN_RCVD, FIN_WAIT_1, FIN_WAIT_2});
     s \<leftarrow> notify_close e (s\<lparr>m_state := CLOSE_WAIT\<rparr>);
     s \<leftarrow> (if m_shutdownSend s then sock_Close e s else SendEmptyPacket e F_ACK s);
     if m_state s = LAST_ACK then schedule_last_ack e (s\<lparr>m_dataRetrCount := m_dataRetries s\<rparr>) else Some s
   }"

section \<open>Data\<close>

text \<open>The delayed acknowledgement of a segment in sequence.\<close>

definition delayed_ack :: "('c, 'r) env \<Rightarrow> ('c, 'r) sock \<Rightarrow> ('c, 'r) sock option" where
  "delayed_ack e s =
     (let s = s\<lparr>m_delAckCount := m_delAckCount s + 1\<rparr> in
      if m_delAckCount s \<ge> m_delAckMaxCount s
      then do {
        s \<leftarrow> call_CwndEvent e CA_EVENT_NON_DELAYED_ACK (s\<lparr>m_delAckEvent := None, m_delAckCount := 0\<rparr>);
        send_ack e s
      }
      else if m_delAckEvent s \<noteq> None then call_CwndEvent e CA_EVENT_DELAYED_ACK s
      else do {
        s \<leftarrow> call_CwndEvent e CA_EVENT_DELAYED_ACK s;
        due \<leftarrow> schedule e (m_delAckTimeout s);
        Some (s\<lparr>m_delAckEvent := Some due\<rparr>)
      })"

definition acknowledge_data :: "('c, 'r) env \<Rightarrow> uint8 list \<Rightarrow> seq32 \<Rightarrow> ('c, 'r) sock \<Rightarrow> ('c, 'r) sock option" where
  "acknowledge_data e p expectedSeq s =
     (if rx_Size (m_rxBuffer s) > rx_Available (m_rxBuffer s)
         \<or> seq_gt (NextRxSequence (m_rxBuffer s)) (expectedSeq + rx_len p)
      then do { s \<leftarrow> call_CwndEvent e CA_EVENT_NON_DELAYED_ACK s; send_ack e s }
      else delayed_ack e s)"

definition ReceivedData :: "('c, 'r) env \<Rightarrow> uint8 list \<Rightarrow> tcp_header \<Rightarrow> ('c, 'r) sock \<Rightarrow> ('c, 'r) sock option" where
  "ReceivedData e p h s = do {
     let expectedSeq = NextRxSequence (m_rxBuffer s);
     (added, b) \<leftarrow> rx_Add (Now e) (file_open e) p (m_sequenceNumber h) (m_rxBuffer s);
     let s = s\<lparr>m_rxBuffer := b\<rparr>;
     if \<not> added then send_ack e s
     else if seq_lt expectedSeq (NextRxSequence (m_rxBuffer s))
     then do {
       s \<leftarrow> (if \<not> m_shutdownRecv s then Notify e DataRecv s else Some s);
       if Finished (m_rxBuffer s) \<and> \<not> has_flag (m_flags h) F_FIN then DoPeerClose e s
       else acknowledge_data e p expectedSeq s
     }
     else acknowledge_data e p expectedSeq s
   }"

definition PeerClose :: "('c, 'r) env \<Rightarrow> uint8 list \<Rightarrow> tcp_header \<Rightarrow> ('c, 'r) sock \<Rightarrow> ('c, 'r) sock option" where
  "PeerClose e p h s =
     (if seq_lt (m_sequenceNumber h) (NextRxSequence (m_rxBuffer s))
         \<or> seq_gt (m_sequenceNumber h) (MaxRxSequence (m_rxBuffer s)) then Some s
      else do {
        let s = s\<lparr>m_rxBuffer := SetFinSequence (m_sequenceNumber h + rx_len p) (m_rxBuffer s)\<rparr>;
        s \<leftarrow> (if p \<noteq> [] then ReceivedData e p h s else Some s);
        if \<not> Finished (m_rxBuffer s) then Some s
        else if m_state s = FIN_WAIT_1 then Some (s\<lparr>m_state := CLOSING\<rparr>)
        else DoPeerClose e s
      })"

section \<open>Acknowledgements\<close>

definition ReceivedAck :: "('c, 'r) env \<Rightarrow> uint8 list \<Rightarrow> tcp_header \<Rightarrow> ('c, 'r) sock \<Rightarrow> ('c, 'r) sock option" where
  "ReceivedAck e p h s = do {
     ns_assert (has_flag (m_flags h) F_ACK);
     ns_assert (seg_size s > 0);
     (bytesSacked, sacked, b) \<leftarrow> ReadOptions (m_options h) 0 [] (m_txBuffer s);
     let s = s\<lparr>m_txBuffer := b\<rparr>;
     let ackNumber = m_ackNumber h;
     let oldHeadSequence = HeadSequence b;
     if seq_lt ackNumber oldHeadSequence
     then if p \<noteq> [] then ReceivedData e p h s else Some s
     else do {
       let s = (if seq_gt ackNumber oldHeadSequence \<and> seq_lt ackNumber (m_recover s) \<and> cong_state s = CA_RECOVERY
                  \<and> retrans_acked ackNumber oldHeadSequence s
                then s\<lparr>m_tcb := (m_tcb s)\<lparr>m_isRetransDataAcked := True\<rparr>\<rparr> else s);
       (gone, b) \<leftarrow> DiscardUpTo (Now e) ackNumber (m_txBuffer s);
       let currentDelivered = SkbDelivered e (sacked @ gone);
       let s = s\<lparr>m_txBuffer := b, m_tcb := (m_tcb s)\<lparr>m_lastAckedSackedBytes := currentDelivered\<rparr>\<rparr>;
       s \<leftarrow> complete_cwr e ackNumber s;
       s \<leftarrow> ecn_echo e (has_flag (m_flags h) F_ECE) ackNumber oldHeadSequence currentDelivered s;
       (n, s) \<leftarrow> sock_BytesInFlight s;
       s \<leftarrow> ProcessAck e ackNumber (bytesSacked > 0) currentDelivered oldHeadSequence s;
       let s = s\<lparr>m_tcb := (m_tcb s)\<lparr>m_isRetransDataAcked := False\<rparr>\<rparr>;
       s \<leftarrow> (if p \<noteq> [] then ReceivedData e p h s else Some s);
       (n, s) \<leftarrow> SendPendingData e (m_connected s) s;
       Some s
     }
   }"

section \<open>Calls of the application\<close>

text \<open>\<open>Send\<close> returns the size of the packet, \<open>None\<close> for -1.\<close>

definition sock_Send :: "('c, 'r) env \<Rightarrow> uint8 list \<Rightarrow> ('c, 'r) sock \<Rightarrow> (uint32 option \<times> ('c, 'r) sock) option" where
  "sock_Send e p s =
     (if m_state s = ESTABLISHED \<or> m_state s = SYN_SENT \<or> m_state s = CLOSE_WAIT
      then case Add p (m_txBuffer s) of
          (False, b) \<Rightarrow> Some (None, s\<lparr>m_txBuffer := b, m_errno := ERROR_MSGSIZE\<rparr>)
        | (True, b) \<Rightarrow>
            let s = s\<lparr>m_txBuffer := b, written_log := written_log s @ p\<rparr> in
            if m_shutdownSend s then Some (None, s\<lparr>m_errno := ERROR_SHUTDOWN\<rparr>)
            else do {
              (w, s) \<leftarrow> (if m_state s = ESTABLISHED \<or> m_state s = CLOSE_WAIT then AvailableWindow s else Some (0, s));
              s \<leftarrow> (if w > 0 \<and> m_sendPendingDataEvent s = None
                    then do { due \<leftarrow> schedule e 1; Some (s\<lparr>m_sendPendingDataEvent := Some due\<rparr>) } else Some s);
              Some (Some (GetSize p), s)
            }
      else Some (None, s\<lparr>m_errno := ERROR_NOTCONN\<rparr>))"

text \<open>\<open>Recv\<close> returns the null pointer (\<open>None\<close>) when there is nothing to read, an empty packet at the end.\<close>

definition sock_Recv :: "uint32 \<Rightarrow> ('c, 'r) sock \<Rightarrow> (uint8 list option \<times> ('c, 'r) sock) option" where
  "sock_Recv maxSize s =
     (if rx_Size (m_rxBuffer s) = 0 \<and> m_state s = CLOSE_WAIT then Some (Some [], s)
      else do {
        (p, b) \<leftarrow> Extract maxSize (m_rxBuffer s);
        Some (p, s\<lparr>m_rxBuffer := b\<rparr>)
      })"

definition sock_Listen :: "('c, 'r) sock \<Rightarrow> bool \<times> ('c, 'r) sock" where
  "sock_Listen s =
     (if m_state s \<noteq> CLOSED then (False, s\<lparr>m_errno := ERROR_INVAL\<rparr>) else (True, s\<lparr>m_state := LISTEN\<rparr>))"

definition DoConnect :: "('c, 'r) env \<Rightarrow> ('c, 'r) sock \<Rightarrow> ('c, 'r) sock option" where
  "DoConnect e s =
     (if m_state s \<in> {CLOSED, LISTEN, SYN_SENT, LAST_ACK, CLOSE_WAIT}
      then do {
        s \<leftarrow> SendEmptyPacket e (if m_useEcn s = EcnOn then F_SYN OR F_ECE OR F_CWR else F_SYN) s;
        Some (set_EcnState ECN_DISABLED (s\<lparr>m_state := SYN_SENT\<rparr>))
      }
      else if m_state s \<noteq> TIME_WAIT then do { s \<leftarrow> SendRST e s; CloseAndNotify e s }
      else Some s)"

text \<open>\<open>Connect\<close> after the end point was bound and its route found.\<close>

definition sock_Connect :: "('c, 'r) env \<Rightarrow> ('c, 'r) sock \<Rightarrow> ('c, 'r) sock option" where
  "sock_Connect e s =
     DoConnect e (s\<lparr>m_rtt := rtt_Reset (m_rtt s), m_synCount := m_synRetries s, m_dataRetrCount := m_dataRetries s\<rparr>)"

definition SetRcvBufSize :: "('c, 'r) env \<Rightarrow> uint32 \<Rightarrow> ('c, 'r) sock \<Rightarrow> ('c, 'r) sock option" where
  "SetRcvBufSize e sz s =
     (let oldSize = rx_MaxBufferSize (m_rxBuffer s);
          s = s\<lparr>m_rxBuffer := rx_SetMaxBufferSize sz (m_rxBuffer s)\<rparr>
      in if oldSize < sz \<and> m_connected s then send_ack e s else Some s)"

definition SetSegSize :: "uint32 \<Rightarrow> ('c, 'r) sock \<Rightarrow> ('c, 'r) sock option" where
  "SetSegSize sz s = do {
     let s = s\<lparr>m_tcb := (m_tcb s)\<lparr>tcb.m_segmentSize := sz\<rparr>, m_txBuffer := SetSegmentSize sz (m_txBuffer s)\<rparr>;
     ns_assert (m_state s = CLOSED);
     Some s
   }"

definition SetInitialCwnd :: "uint32 \<Rightarrow> ('c, 'r) sock \<Rightarrow> ('c, 'r) sock option" where
  "SetInitialCwnd w s = do {
     ns_assert (m_state s = CLOSED \<or> w = m_initialCWnd s);
     Some (s\<lparr>m_initialCWnd := w\<rparr>)
   }"

definition SetInitialSSThresh :: "uint32 \<Rightarrow> ('c, 'r) sock \<Rightarrow> ('c, 'r) sock option" where
  "SetInitialSSThresh threshold s = do {
     ns_assert (m_state s = CLOSED \<or> threshold = m_initialSsThresh s);
     Some (s\<lparr>m_initialSsThresh := threshold\<rparr>)
   }"

end
