(* ===== verification/SockConn.thy ===== *)
theory SockConn
  imports SockRecv
begin

text \<open>
  The connection of \<open>TcpSocketBase\<close>: \<open>ForwardUp\<close> and \<open>DoForwardUp\<close> for an arriving segment, one function
  per connection state, the fork of a listening socket, and the timers.
\<close>

section \<open>Options of an arriving segment\<close>

fun WinScale_of :: "tcp_option \<Rightarrow> uint8 option" where
  "WinScale_of (TcpOptionWinScale n) = Some n"
| "WinScale_of _ = None"

fun TS_of :: "tcp_option \<Rightarrow> (uint32 \<times> uint32) option" where
  "TS_of (TcpOptionTS t echo) = Some (t, echo)"
| "TS_of _ = None"

definition ProcessOptionWScale :: "tcp_option \<Rightarrow> ('c, 'r) sock \<Rightarrow> ('c, 'r) sock option" where
  "ProcessOptionWScale op s = do {
     n \<leftarrow> WinScale_of op;
     scale \<leftarrow> GetScale n;
     Some (s\<lparr>m_sndWindShift := (if scale > 14 then 14 else scale)\<rparr>)
   }"

definition ProcessOptionTimestamp :: "tcp_option \<Rightarrow> seq32 \<Rightarrow> ('c, 'r) sock \<Rightarrow> ('c, 'r) sock option" where
  "ProcessOptionTimestamp op sq s = do {
     (t, echo) \<leftarrow> TS_of op;
     Some (if m_rcvTimestampValue s > t then s
           else
             let s = s\<lparr>m_rcvTimestampValue := t, m_rcvTimestampEchoReply := echo\<rparr> in
             if sq = NextRxSequence (m_rxBuffer s) \<and> seq_le sq (m_highTxAck s) then s\<lparr>m_timestampToEcho := t\<rparr> else s)
   }"

text \<open>The sample of \<open>EstimateRtt\<close>, zero when there is none; a timestamp counts milliseconds.\<close>

definition rtt_sample :: "('c, 'r) env \<Rightarrow> tcp_header \<Rightarrow> ('c, 'r) sock \<Rightarrow> time option" where
  "rtt_sample e h s =
     (case m_history s of
        [] \<Rightarrow> Some 0
      | x # _ \<Rightarrow>
          if \<not> h_retx x \<and> seq_ge (m_ackNumber h) (h_seq x + h_count x)
          then if m_timestampEnabled s \<and> HasOption 8 h
            then do {
              op \<leftarrow> GetOption 8 h;
              (t, echo) \<leftarrow> TS_of op;
              let ms = uint (ElapsedTimeFromTsValue (milliseconds (Now e)) echo);
              Some (if ms = 0 then 1000 else ms * 10 ^ 6)
            }
            else t_sub (Now e) (h_time x)
          else Some 0)"

definition EstimateRtt :: "('c, 'r) env \<Rightarrow> tcp_header \<Rightarrow> ('c, 'r) sock \<Rightarrow> ('c, 'r) sock option" where
  "EstimateRtt e h s = do {
     m \<leftarrow> rtt_sample e h s;
     let s = s\<lparr>m_history := dropWhile (\<lambda>x. \<not> seq_gt (h_seq x + h_count x) (m_ackNumber h)) (m_history s)\<rparr>;
     if m \<noteq> 0
     then do {
       r \<leftarrow> Measurement (FloatingPointUpdate e) m (m_rtt s);
       let s = s\<lparr>m_rtt := r\<rparr>;
       rto \<leftarrow> computed_rto s;
       Some (s\<lparr>m_rto := rto, m_tcb := (m_tcb s)\<lparr>m_lastRtt := GetEstimate r\<rparr>,
               m_minRtt := min (GetEstimate r) (m_minRtt s)\<rparr>)
     }
     else Some s
   }"

section \<open>The connection states\<close>

text \<open>The flags without PSH and URG, and without CWR and ECE as well.\<close>

definition base_flags :: "tcp_header \<Rightarrow> uint8" where
  "base_flags h = m_flags h AND NOT (F_PSH OR F_URG)"

definition core_flags :: "tcp_header \<Rightarrow> uint8" where
  "core_flags h = m_flags h AND NOT (F_PSH OR F_URG OR F_CWR OR F_ECE)"

definition ProcessEstablished :: "('c, 'r) env \<Rightarrow> uint8 list \<Rightarrow> tcp_header \<Rightarrow> ('c, 'r) sock \<Rightarrow> ('c, 'r) sock option" where
  "ProcessEstablished e p h s =
     (let tcpflags = core_flags h in
      if tcpflags = F_ACK
      then if seq_lt (m_ackNumber h) (HeadSequence (m_txBuffer s)) then Some s
        else if seq_gt (m_ackNumber h) (m_highTxMark (m_tcb s)) then send_ack e s
        else ReceivedAck e p h s
      else if tcpflags = F_SYN then Some s
      else if tcpflags = F_SYN OR F_ACK then Some s
      else if tcpflags = F_FIN \<or> tcpflags = F_FIN OR F_ACK then PeerClose e p h s
      else if tcpflags = 0
      then do {
        s \<leftarrow> ReceivedData e p h s;
        if Finished (m_rxBuffer s) then PeerClose e p h s else Some s
      }
      else do {
        s \<leftarrow> (if tcpflags \<noteq> F_RST then SendRST e s else Some s);
        CloseAndNotify e s
      })"

text \<open>The answer to a SYN: SYN and ACK, with ECE when both ends use ECN.\<close>

definition ecn_syn :: "uint8 \<Rightarrow> ('c, 'r) sock \<Rightarrow> bool" where
  "ecn_syn flags s \<longleftrightarrow> m_useEcn s \<noteq> EcnOff \<and> flags AND (F_CWR OR F_ECE) = F_CWR OR F_ECE"

definition answer_syn :: "('c, 'r) env \<Rightarrow> uint8 \<Rightarrow> ('c, 'r) sock \<Rightarrow> ('c, 'r) sock option" where
  "answer_syn e flags s =
     (if ecn_syn flags s
      then do { s \<leftarrow> SendEmptyPacket e (F_SYN OR F_ACK OR F_ECE) s; Some (set_EcnState ECN_IDLE s) }
      else SendEmptyPacket e (F_SYN OR F_ACK) (set_EcnState ECN_DISABLED s))"

text \<open>The handshake is complete: the SYN takes one sequence number.\<close>

definition advance_head :: "('c, 'r) sock \<Rightarrow> ('c, 'r) sock option" where
  "advance_head s = do {
     let nxt = m_nextTxSequence (m_tcb s) + 1;
     let s = s\<lparr>m_tcb := (m_tcb s)\<lparr>m_nextTxSequence := nxt, m_highTxMark := nxt\<rparr>\<rparr>;
     b \<leftarrow> SetHeadSequence nxt (m_txBuffer s);
     Some (s\<lparr>m_txBuffer := b\<rparr>)
   }"

definition ProcessSynSent :: "('c, 'r) env \<Rightarrow> uint8 list \<Rightarrow> tcp_header \<Rightarrow> ('c, 'r) sock \<Rightarrow> ('c, 'r) sock option" where
  "ProcessSynSent e p h s =
     (let tcpflags = base_flags h in
      if tcpflags = 0
      then do {
        s \<leftarrow> set_CongState e CA_OPEN s;
        let s = s\<lparr>m_state := ESTABLISHED, m_connected := True, m_retxEvent := None, m_delAckCount := m_delAckMaxCount s\<rparr>;
        s \<leftarrow> ReceivedData e p h s;
        Some (s\<lparr>deferred_calls := deferred_calls s @ [CallConnectionSucceeded]\<rparr>)
      }
      else if has_flag tcpflags F_ACK \<and> \<not> has_flag tcpflags F_SYN then Some s
      else if has_flag tcpflags F_SYN \<and> \<not> has_flag tcpflags F_ACK
      then answer_syn e tcpflags
             (s\<lparr>m_state := SYN_RCVD, m_synCount := m_synRetries s,
                m_rxBuffer := SetNextRxSequence (m_sequenceNumber h + 1) (m_rxBuffer s)\<rparr>)
      else if has_flag tcpflags (F_SYN OR F_ACK) \<and> m_nextTxSequence (m_tcb s) + 1 = m_ackNumber h
      then do {
        s \<leftarrow> set_CongState e CA_OPEN s;
        let s = s\<lparr>m_state := ESTABLISHED, m_connected := True, m_retxEvent := None,
                  m_rxBuffer := SetNextRxSequence (m_sequenceNumber h + 1) (m_rxBuffer s)\<rparr>;
        s \<leftarrow> advance_head s;
        s \<leftarrow> SendEmptyPacket e F_ACK s;
        let s = set_EcnState (if m_useEcn s \<noteq> EcnOff \<and> tcpflags AND (F_CWR OR F_ECE) = F_ECE
                              then ECN_IDLE else ECN_DISABLED) s;
        (n, s) \<leftarrow> SendPendingData e (m_connected s) s;
        Some (s\<lparr>deferred_calls := deferred_calls s @ [CallConnectionSucceeded], m_delAckCount := m_delAckMaxCount s\<rparr>)
      }
      else do {
        s \<leftarrow> (if \<not> has_flag tcpflags F_RST then SendRST e s else Some s);
        CloseAndNotify e s
      })"

definition SetPeer :: "net_address \<times> uint16 \<Rightarrow> ('c, 'r) sock \<Rightarrow> ('c, 'r) sock" where
  "SetPeer from s = s\<lparr>m_endPoint := map_option (\<lambda>ep. ep\<lparr>peer_address := fst from, peer_port := snd from\<rparr>) (m_endPoint s)\<rparr>"

definition ProcessSynRcvd ::
    "('c, 'r) env \<Rightarrow> uint8 list \<Rightarrow> tcp_header \<Rightarrow> net_address \<times> uint16 \<Rightarrow> ('c, 'r) sock \<Rightarrow> ('c, 'r) sock option" where
  "ProcessSynRcvd e p h from s =
     (let tcpflags = core_flags h in
      if tcpflags = 0 \<or> tcpflags = F_ACK \<and> m_nextTxSequence (m_tcb s) + 1 = m_ackNumber h
      then do {
        s \<leftarrow> set_CongState e CA_OPEN s;
        s \<leftarrow> advance_head (s\<lparr>m_state := ESTABLISHED, m_connected := True, m_retxEvent := None\<rparr>);
        s \<leftarrow> Notify e NewConnectionCreated ((SetPeer from s)\<lparr>m_delAckCount := m_delAckMaxCount s\<rparr>);
        s \<leftarrow> ReceivedAck e p h s;
        if Available (m_txBuffer s) > 0 then notify_send e s else Some s
      }
      else if tcpflags = F_SYN
      then answer_syn e (m_flags h) (s\<lparr>m_rxBuffer := SetNextRxSequence (m_sequenceNumber h + 1) (m_rxBuffer s)\<rparr>)
      else if tcpflags = F_FIN OR F_ACK
      then if m_sequenceNumber h = NextRxSequence (m_rxBuffer s)
        then do {
          s \<leftarrow> advance_head (s\<lparr>m_connected := True, m_retxEvent := None\<rparr>);
          s \<leftarrow> Notify e NewConnectionCreated (SetPeer from s);
          PeerClose e p h s
        }
        else Some s
      else do {
        s \<leftarrow> (if tcpflags \<noteq> F_RST then SendRST e (SetPeer from s) else Some s);
        CloseAndNotify e s
      })"

text \<open>The end of \<open>ProcessWait\<close>: the peer's FIN is in sequence.\<close>

definition wait_finished :: "('c, 'r) env \<Rightarrow> tcp_header \<Rightarrow> ('c, 'r) sock \<Rightarrow> ('c, 'r) sock option" where
  "wait_finished e h s =
     (if (m_state s = FIN_WAIT_1 \<or> m_state s = FIN_WAIT_2) \<and> Finished (m_rxBuffer s)
      then do {
        s \<leftarrow> (if m_state s = FIN_WAIT_1
              then let s = s\<lparr>m_state := CLOSING\<rparr> in
                if Size (m_txBuffer s) = 0 \<and> m_ackNumber h = m_highTxMark (m_tcb s) + 1 then TimeWait e s else Some s
              else TimeWait e s);
        s \<leftarrow> SendEmptyPacket e F_ACK s;
        if \<not> m_shutdownRecv s then Notify e DataRecv s else Some s
      }
      else Some s)"

definition ProcessWait :: "('c, 'r) env \<Rightarrow> uint8 list \<Rightarrow> tcp_header \<Rightarrow> ('c, 'r) sock \<Rightarrow> ('c, 'r) sock option" where
  "ProcessWait e p h s =
     (let tcpflags = core_flags h in
      if p \<noteq> [] \<and> \<not> has_flag tcpflags F_ACK
      then do { s \<leftarrow> ReceivedData e p h s; wait_finished e h s }
      else if tcpflags = F_ACK
      then do {
        s \<leftarrow> ReceivedAck e p h s;
        wait_finished e h
          (if m_state s = FIN_WAIT_1 \<and> Size (m_txBuffer s) = 0 \<and> m_ackNumber h = m_highTxMark (m_tcb s) + 1
           then s\<lparr>m_state := FIN_WAIT_2\<rparr> else s)
      }
      else if tcpflags = F_FIN \<or> tcpflags = F_FIN OR F_ACK
      then do {
        s \<leftarrow> (if has_flag tcpflags F_ACK then ReceivedAck e p h s else Some s);
        wait_finished e h (s\<lparr>m_rxBuffer := SetFinSequence (m_sequenceNumber h) (m_rxBuffer s)\<rparr>)
      }
      else if tcpflags = F_SYN \<or> tcpflags = F_SYN OR F_ACK then Some s
      else do {
        s \<leftarrow> (if tcpflags \<noteq> F_RST then SendRST e s else Some s);
        CloseAndNotify e s
      })"

definition ProcessClosing :: "('c, 'r) env \<Rightarrow> tcp_header \<Rightarrow> ('c, 'r) sock \<Rightarrow> ('c, 'r) sock option" where
  "ProcessClosing e h s =
     (let tcpflags = base_flags h in
      if tcpflags = F_ACK
      then if m_sequenceNumber h = NextRxSequence (m_rxBuffer s) then TimeWait e s else Some s
      else do {
        s \<leftarrow> (if tcpflags = F_FIN \<or> tcpflags = F_FIN OR F_ACK then SendEmptyPacket e F_ACK s
              else if tcpflags \<noteq> F_RST then SendRST e s else Some s);
        CloseAndNotify e s
      })"

definition ProcessLastAck :: "('c, 'r) env \<Rightarrow> uint8 list \<Rightarrow> tcp_header \<Rightarrow> ('c, 'r) sock \<Rightarrow> ('c, 'r) sock option" where
  "ProcessLastAck e p h s =
     (let tcpflags = base_flags h in
      if tcpflags = 0 then ReceivedData e p h s
      else if tcpflags = F_ACK
      then if m_sequenceNumber h = NextRxSequence (m_rxBuffer s) then CloseAndNotify e s else Some s
      else if tcpflags = F_FIN then SendEmptyPacket e (F_FIN OR F_ACK) s
      else if tcpflags = F_FIN OR F_ACK \<or> tcpflags = F_RST then CloseAndNotify e s
      else do { s \<leftarrow> SendRST e s; CloseAndNotify e s })"

section \<open>Listening\<close>

text \<open>
  The copy constructors of the socket and of \<open>TcpSocketState\<close>: what they do not copy has its initial
  value. The callbacks of the copy are null; the logs are those of the new socket.
\<close>

definition Fork :: "('c, 'r) env \<Rightarrow> ('c, 'r) sock \<Rightarrow> ('c, 'r) sock option" where
  "Fork e s = do {
     let t = (m_tcb s)\<lparr>m_cWndInfl := 0, m_isRetransDataAcked := False\<rparr>;
     (c, t) \<leftarrow> cc_Init (cops e) (Now e) (cc_Fork (cops e) (m_congestionControl s)) t;
     Some ((CancelAllTimers s)\<lparr>m_delAckCount := 0, m_history := [], m_endPoint := None, m_highTxAck := 0,
             m_advWnd := 0, m_congestionControl := c, m_recoveryOps := rec_Fork (rops e) (m_recoveryOps s),
             m_tcb := t, sent_log := [], written_log := [], deferred_calls := []\<rparr>)
   }"

text \<open>\<open>ProcessListen\<close> returns the forked socket, on which \<open>CompleteFork\<close> is scheduled.\<close>

definition ProcessListen :: "('c, 'r) env \<Rightarrow> tcp_header \<Rightarrow> ('c, 'r) sock \<Rightarrow> ('c, 'r) sock option option" where
  "ProcessListen e h s =
     (if core_flags h \<noteq> F_SYN then Some None
      else if \<not> AcceptRequest e then Some None
      else map_option Some (Fork e s))"

definition CompleteFork :: "('c, 'r) env \<Rightarrow> end_point \<Rightarrow> tcp_header \<Rightarrow> ('c, 'r) sock \<Rightarrow> ('c, 'r) sock option" where
  "CompleteFork e ep h s =
     (let s = s\<lparr>m_endPoint := Some ep, m_state := SYN_RCVD, m_synCount := m_synRetries s, m_dataRetrCount := m_dataRetries s,
                m_rxBuffer := SetNextRxSequence (m_sequenceNumber h + 1) (m_rxBuffer s)\<rparr>
      in do {
        s' \<leftarrow> SendEmptyPacket e (if ecn_syn (m_flags h) s then F_SYN OR F_ACK OR F_ECE else F_SYN OR F_ACK) s;
        Some (set_EcnState (if ecn_syn (m_flags h) s then ECN_IDLE else ECN_DISABLED) s')
      })"

definition ConnectionSucceeded :: "('c, 'r) env \<Rightarrow> ('c, 'r) sock \<Rightarrow> ('c, 'r) sock option" where
  "ConnectionSucceeded e s = do {
     s \<leftarrow> Notify e ConnectionSucceeded_note s;
     if Available (m_txBuffer s) > 0 then notify_send e s else Some s
   }"

end
