(* ===== verification/SockFwd.thy ===== *)
theory SockFwd
  imports SockConn
begin

text \<open>
  The events of a socket of \<open>TcpSocketBase\<close>: an arriving segment (\<open>ForwardUp\<close>), the calls of the
  application, the timers and the deferred calls, and the step relation they make.
\<close>

section \<open>Arriving segments\<close>

definition OutOfRange :: "seq32 \<Rightarrow> seq32 \<Rightarrow> ('c, 'r) sock \<Rightarrow> bool" where
  "OutOfRange head tail s =
     (if m_state s \<in> {LISTEN, SYN_SENT, SYN_RCVD} then False
      else if m_state s \<in> {LAST_ACK, CLOSING, CLOSE_WAIT} then NextRxSequence (m_rxBuffer s) \<noteq> head
      else seq_lt tail (NextRxSequence (m_rxBuffer s)) \<or> seq_le (MaxRxSequence (m_rxBuffer s)) head)"

definition IsValidTcpSegment ::
    "('c, 'r) env \<Rightarrow> seq32 \<Rightarrow> uint32 \<Rightarrow> uint32 \<Rightarrow> ('c, 'r) sock \<Rightarrow> (bool \<times> ('c, 'r) sock) option" where
  "IsValidTcpSegment e sq tcpHeaderSize tcpPayloadSize s =
     (if tcpHeaderSize = 0 \<or> tcpHeaderSize > 60 then Some (False, s)
      else if tcpPayloadSize > 0 \<and> OutOfRange sq (sq + tcpPayloadSize) s
      then do { s \<leftarrow> SendEmptyPacket e F_ACK s; Some (False, s) }
      else Some (True, s))"

text \<open>The options and the windows of a SYN.\<close>

definition receive_syn :: "('c, 'r) env \<Rightarrow> tcp_header \<Rightarrow> ('c, 'r) sock \<Rightarrow> ('c, 'r) sock option" where
  "receive_syn e h s = do {
     let s = s\<lparr>m_rWnd := ucast (m_windowSize h)\<rparr>;
     s \<leftarrow> (if HasOption 3 h \<and> m_winScalingEnabled s
           then do { op \<leftarrow> GetOption 3 h; ProcessOptionWScale op s }
           else Some (s\<lparr>m_winScalingEnabled := False\<rparr>));
     let s = (if HasOption 4 h \<and> so_sackEnabled s then s
              else s\<lparr>so_sackEnabled := False, m_txBuffer := SetSackEnabled False (m_txBuffer s)\<rparr>);
     s \<leftarrow> (if HasOption 8 h \<and> m_timestampEnabled s
           then do { op \<leftarrow> GetOption 8 h; ProcessOptionTimestamp op (m_sequenceNumber h) s }
           else Some (s\<lparr>m_timestampEnabled := False\<rparr>));
     let w = m_initialCWnd s * seg_size s;
     let s = s\<lparr>m_tcb := (m_tcb s)\<lparr>m_cWnd := w, m_cWndInfl := w, m_ssThresh := m_initialSsThresh s\<rparr>\<rparr>;
     if has_flag (m_flags h) F_ACK
     then do { s \<leftarrow> EstimateRtt e h s; Some (s\<lparr>m_highRxAckMark := m_ackNumber h\<rparr>) }
     else Some s
   }"

text \<open>\<open>None\<close> inside \<open>Some\<close>: a segment without the timestamp that was agreed on is discarded.\<close>

definition receive_ack_fields :: "('c, 'r) env \<Rightarrow> tcp_header \<Rightarrow> ('c, 'r) sock \<Rightarrow> ('c, 'r) sock option option" where
  "receive_ack_fields e h s =
     (if m_timestampEnabled s \<and> \<not> HasOption 8 h then Some None
      else do {
        s \<leftarrow> (if m_timestampEnabled s
              then do { op \<leftarrow> GetOption 8 h; ProcessOptionTimestamp op (m_sequenceNumber h) s } else Some s);
        s \<leftarrow> EstimateRtt e h s;
        Some (Some (UpdateWindowSize h s))
      })"

text \<open>The answer of a closed socket, to the addresses of the segment.\<close>

definition reset_closed :: "('c, 'r) env \<Rightarrow> tcp_header \<Rightarrow> end_point \<Rightarrow> ('c, 'r) sock \<Rightarrow> ('c, 'r) sock option" where
  "reset_closed e h ep s =
     (if base_flags h \<noteq> F_RST
      then do {
        let ep = ep\<lparr>local_port := m_destinationPort h, peer_port := m_sourcePort h\<rparr>;
        (w, s) \<leftarrow> AdvertisedWindowSize True s;
        Some (SendPacket ep (AddOptions e (SetWindowSize w (base_header ep F_RST (m_nextTxSequence (m_tcb s)) s)) s) [] s)
      }
      else Some s)"

text \<open>One function per state; the second component is the socket that a listening socket forks.\<close>

definition dispatch ::
    "('c, 'r) env \<Rightarrow> uint8 list \<Rightarrow> tcp_header \<Rightarrow> end_point \<Rightarrow> ('c, 'r) sock \<Rightarrow> (('c, 'r) sock \<times> ('c, 'r) sock option) option" where
  "dispatch e p h ep s =
     (case m_state s of
        ESTABLISHED \<Rightarrow> do { s \<leftarrow> ProcessEstablished e p h s; Some (s, None) }
      | LISTEN \<Rightarrow> do { r \<leftarrow> ProcessListen e h s; Some (s, r) }
      | TIME_WAIT \<Rightarrow> Some (s, None)
      | CLOSED \<Rightarrow> do { s \<leftarrow> reset_closed e h ep s; Some (s, None) }
      | SYN_SENT \<Rightarrow> do { s \<leftarrow> ProcessSynSent e p h s; Some (s, None) }
      | SYN_RCVD \<Rightarrow> do { s \<leftarrow> ProcessSynRcvd e p h (peer_address ep, peer_port ep) s; Some (s, None) }
      | FIN_WAIT_1 \<Rightarrow> do { s \<leftarrow> ProcessWait e p h s; Some (s, None) }
      | FIN_WAIT_2 \<Rightarrow> do { s \<leftarrow> ProcessWait e p h s; Some (s, None) }
      | CLOSE_WAIT \<Rightarrow> do { s \<leftarrow> ProcessWait e p h s; Some (s, None) }
      | CLOSING \<Rightarrow> do { s \<leftarrow> ProcessClosing e h s; Some (s, None) }
      | LAST_ACK \<Rightarrow> do { s \<leftarrow> ProcessLastAck e p h s; Some (s, None) })"

definition enter_persist :: "('c, 'r) env \<Rightarrow> ('c, 'r) sock \<Rightarrow> ('c, 'r) sock option" where
  "enter_persist e s =
     (if m_rWnd s = 0 \<and> m_persistEvent s = None
      then do {
        due \<leftarrow> schedule e (m_persistTimeout s);
        Some (s\<lparr>m_retxEvent := None, m_persistEvent := Some due\<rparr>)
      }
      else Some s)"

definition leave_persist :: "('c, 'r) env \<Rightarrow> ('c, 'r) sock \<Rightarrow> ('c, 'r) sock option" where
  "leave_persist e s =
     (if m_rWnd s \<noteq> 0 \<and> m_persistEvent s \<noteq> None
      then do {
        ns_assert (m_connected s);
        (n, s) \<leftarrow> SendPendingData e (m_connected s) (s\<lparr>m_persistEvent := None\<rparr>);
        Some s
      }
      else Some s)"

definition DoForwardUp ::
    "('c, 'r) env \<Rightarrow> uint8 list \<Rightarrow> tcp_header \<Rightarrow> end_point \<Rightarrow> ('c, 'r) sock \<Rightarrow> (('c, 'r) sock \<times> ('c, 'r) sock option) option" where
  "DoForwardUp e p h ep s = do {
     let s = (if m_state s = ESTABLISHED \<and> \<not> has_flag (m_flags h) F_RST \<and> has_flag (m_flags h) F_CWR
                 \<and> ecn_state s \<noteq> ECN_CE_RCVD
              then set_EcnState ECN_IDLE s else s);
     r \<leftarrow> (if has_flag (m_flags h) F_SYN then do { s \<leftarrow> receive_syn e h s; Some (Some s) }
           else if has_flag (m_flags h) F_ACK then receive_ack_fields e h s
           else Some (Some s));
     (case r of
        None \<Rightarrow> Some (s, None)
      | Some s \<Rightarrow> do {
          s \<leftarrow> enter_persist e s;
          (s, forked) \<leftarrow> dispatch e p h ep s;
          s \<leftarrow> leave_persist e s;
          Some (s, forked)
        })
   }"

text \<open>The ECN field of the IP header.\<close>

datatype EcnType = ECN_NotECT | ECN_ECT1 | ECN_ECT0 | ECN_CE

text \<open>\<open>bytesRemoved\<close> is what decoding the header returned, \<open>p\<close> the bytes after it.\<close>

definition ForwardUp ::
    "('c, 'r) env \<Rightarrow> EcnType \<Rightarrow> uint32 \<Rightarrow> uint8 list \<Rightarrow> tcp_header \<Rightarrow> end_point \<Rightarrow> ('c, 'r) sock \<Rightarrow>
     (('c, 'r) sock \<times> ('c, 'r) sock option) option" where
  "ForwardUp e ecn bytesRemoved p h ep s = do {
     (valid, s) \<leftarrow> IsValidTcpSegment e (m_sequenceNumber h) bytesRemoved (rx_len p) s;
     if \<not> valid then Some (s, None)
     else do {
       s \<leftarrow> (if ecn = ECN_CE \<and> seq_lt (m_ecnCESeq s) (m_sequenceNumber h)
             then call_CwndEvent e CA_EVENT_ECN_IS_CE (set_EcnState ECN_CE_RCVD (s\<lparr>m_ecnCESeq := m_sequenceNumber h\<rparr>))
             else if ecn \<noteq> ECN_NotECT \<and> ecn_state s \<noteq> ECN_DISABLED then call_CwndEvent e CA_EVENT_ECN_NO_CE s
             else Some s);
       DoForwardUp e p h ep s
     }
   }"

section \<open>Timers\<close>

text \<open>An event has expired when its function runs.\<close>

definition DelAckTimeout :: "('c, 'r) env \<Rightarrow> ('c, 'r) sock \<Rightarrow> ('c, 'r) sock option" where
  "DelAckTimeout e s = do {
     s \<leftarrow> call_CwndEvent e CA_EVENT_DELAYED_ACK (s\<lparr>m_delAckEvent := None, m_delAckCount := 0\<rparr>);
     send_ack e s
   }"

definition LastAckTimeout :: "('c, 'r) env \<Rightarrow> ('c, 'r) sock \<Rightarrow> ('c, 'r) sock option" where
  "LastAckTimeout e s0 =
     (let s = s0\<lparr>m_lastAckEvent := None\<rparr> in
      if m_state s = LAST_ACK
      then if m_dataRetrCount s = 0
        then do { s \<leftarrow> Notify e ErrorClose s; Some (DeallocateEndPoint s) }
        else do {
          s \<leftarrow> SendEmptyPacket e (F_FIN OR F_ACK) (s\<lparr>m_dataRetrCount := m_dataRetrCount s - 1\<rparr>);
          schedule_last_ack e s
        }
      else Some s)"

text \<open>The header of a probe has the flags of a new header; the end point is used without a test.\<close>

definition PersistTimeout :: "('c, 'r) env \<Rightarrow> ('c, 'r) sock \<Rightarrow> ('c, 'r) sock option" where
  "PersistTimeout e s = do {
     doubled \<leftarrow> int64 (2 * m_persistTimeout s);
     let s = s\<lparr>m_persistEvent := None, m_persistTimeout := min (60 * 10 ^ 9) doubled\<rparr>;
     (outItem, b) \<leftarrow> CopyFromSequence (Now e) 1 (m_nextTxSequence (m_tcb s)) (m_txBuffer s);
     item \<leftarrow> outItem;
     let s = s\<lparr>m_txBuffer := ResetLastSegmentSent b\<rparr>;
     (w, s) \<leftarrow> AdvertisedWindowSize True s;
     ep \<leftarrow> m_endPoint s;
     let h = AddOptions e (SetWindowSize w (base_header ep 0 (m_nextTxSequence (m_tcb s)) s)) s;
     due \<leftarrow> schedule e (m_persistTimeout s);
     Some ((SendPacket ep h (m_packet item) s)\<lparr>m_persistEvent := Some due\<rparr>)
   }"

section \<open>Steps\<close>

datatype sock_event =
    Arrival EcnType uint32 "uint8 list" tcp_header end_point
  | AppSend "uint8 list" | AppRecv uint32 | AppClose | AppShutdownSend | AppShutdownRecv | AppListen
  | AppConnect end_point | AppSetRcvBufSize uint32
  | RetxTimer | DelAckTimer | LastAckTimer | PersistTimer | TimeWaitTimer | SendPendingTimer
  | Forked end_point tcp_header | DeferredConnectionSucceeded

text \<open>
  The call of an event; a timer runs only when it is set. \<open>Connect\<close> is called with the end point
  that was bound, and \<open>Forked\<close> is the deferred call of \<open>CompleteFork\<close>.
\<close>

definition run_retx :: "('c, 'r) env \<Rightarrow> ('c, 'r) sock \<Rightarrow> ('c, 'r) sock option" where
  "run_retx e s =
     (case m_retxEvent s of
        None \<Rightarrow> None
      | Some (_, CallReTxTimeout) \<Rightarrow> ReTxTimeout e s
      | Some (_, CallSendEmptyPacket flags) \<Rightarrow> SendEmptyPacket e flags (s\<lparr>m_retxEvent := None\<rparr>))"

definition when_set :: "'a option \<Rightarrow> 'b option \<Rightarrow> 'b option" where
  "when_set t m = (case t of None \<Rightarrow> None | Some _ \<Rightarrow> m)"

fun sock_step :: "('c, 'r) env \<Rightarrow> sock_event \<Rightarrow> ('c, 'r) sock \<Rightarrow> ('c, 'r) sock option" where
  "sock_step e (Arrival ecn n p h ep) s = map_option fst (ForwardUp e ecn n p h ep s)"
| "sock_step e (AppSend p) s = map_option snd (sock_Send e p s)"
| "sock_step e (AppRecv n) s = map_option snd (sock_Recv n s)"
| "sock_step e AppClose s = sock_Close e s"
| "sock_step e AppShutdownSend s = ShutdownSend e s"
| "sock_step e AppShutdownRecv s = Some (ShutdownRecv s)"
| "sock_step e AppListen s = Some (snd (sock_Listen s))"
| "sock_step e (AppConnect ep) s = sock_Connect e (s\<lparr>m_endPoint := Some ep\<rparr>)"
| "sock_step e (AppSetRcvBufSize n) s = SetRcvBufSize e n s"
| "sock_step e RetxTimer s = run_retx e s"
| "sock_step e DelAckTimer s = when_set (m_delAckEvent s) (DelAckTimeout e s)"
| "sock_step e LastAckTimer s = when_set (m_lastAckEvent s) (LastAckTimeout e s)"
| "sock_step e PersistTimer s = when_set (m_persistEvent s) (PersistTimeout e s)"
| "sock_step e TimeWaitTimer s = when_set (m_timewaitEvent s) (CloseAndNotify e (s\<lparr>m_timewaitEvent := None\<rparr>))"
| "sock_step e SendPendingTimer s =
     when_set (m_sendPendingDataEvent s)
       (map_option snd (SendPendingData e (m_connected s) (s\<lparr>m_sendPendingDataEvent := None\<rparr>)))"
| "sock_step e (Forked ep h) s = CompleteFork e ep h s"
| "sock_step e DeferredConnectionSucceeded s = ConnectionSucceeded e s"

end
