(* ===== verification/TxEdit.thy ===== *)
theory TxEdit
  imports TxScore
begin

text \<open>
  How \<open>GetPacketFromList\<close> edits its list. The edits are an inductive relation: an item is split in
  two, or two neighbours with the same flags are merged. What the buffer relies on is preserved by
  each edit, hence by every call.
\<close>

section \<open>Bytes and offsets\<close>

abbreviation sz :: "tx_item \<Rightarrow> nat" where
  "sz i \<equiv> length (m_packet i)"

definition bytes_of :: "tx_item list \<Rightarrow> uint8 list" where
  "bytes_of is = concat (map m_packet is)"

definition nbytes :: "tx_item list \<Rightarrow> nat" where
  "nbytes is = sum_list (map sz is)"

definition flagged :: "(tx_item \<Rightarrow> bool) \<Rightarrow> tx_item list \<Rightarrow> nat" where
  "flagged P is = nbytes (filter P is)"

lemma nbytes_simps [simp]:
  "nbytes [] = 0" "nbytes (i # is) = sz i + nbytes is" "nbytes (is @ js) = nbytes is + nbytes js"
  by (simp_all add: nbytes_def)

lemma nbytes_rev [simp]: "nbytes (rev is) = nbytes is"
  by (simp add: nbytes_def sum_list_rev flip: rev_map)

lemma bytes_of_simps [simp]:
  "bytes_of [] = []" "bytes_of (i # is) = m_packet i @ bytes_of is"
  "bytes_of (is @ js) = bytes_of is @ bytes_of js"
  by (simp_all add: bytes_of_def)

lemma length_bytes_of [simp]: "length (bytes_of is) = nbytes is"
  by (induction "is") simp_all

lemma flagged_simps [simp]:
  "flagged P [] = 0" "flagged P (i # is) = (if P i then sz i else 0) + flagged P is"
  "flagged P (is @ js) = flagged P is + flagged P js"
  by (simp_all add: flagged_def)

lemma flagged_rev [simp]: "flagged P (rev is) = flagged P is"
  by (simp add: flagged_def flip: rev_filter)

lemma flagged_le: "flagged P is \<le> nbytes is"
  by (induction "is") auto

lemma flagged_disjoint:
  "\<forall>i \<in> set is. \<not> (P i \<and> Q i) \<Longrightarrow> flagged P is + flagged Q is \<le> nbytes is"
  by (induction "is") auto

lemma flag_bytes_flagged: "flag_bytes P is = of_nat (flagged P is)"
  by (induction "is") (simp_all add: flag_bytes_def GetSize_def)

fun contiguous :: "seq32 \<Rightarrow> tx_item list \<Rightarrow> bool" where
  "contiguous s [] \<longleftrightarrow> True"
| "contiguous s (i # is) \<longleftrightarrow> m_startSeq i = s \<and> contiguous (s + of_nat (sz i)) is"

lemma contiguous_append [simp]:
  "contiguous s (is @ js) \<longleftrightarrow> contiguous s is \<and> contiguous (s + of_nat (nbytes is)) js"
  by (induction "is" arbitrary: s) (simp_all add: add.assoc)

definition item_ok :: "tx_item \<Rightarrow> bool" where
  "item_ok i \<longleftrightarrow> m_packet i \<noteq> [] \<and> \<not> (m_lost i \<and> m_sacked i)"

text \<open>The item at node \<open>n\<close> is sacked and begins at offset \<open>k\<close> or later.\<close>

definition sacked_from :: "nat \<Rightarrow> nat \<Rightarrow> tx_item list \<Rightarrow> bool" where
  "sacked_from n k is \<longleftrightarrow>
     (\<exists>pre i post. is = pre @ i # post \<and> node i = n \<and> m_sacked i \<and> k \<le> nbytes pre)"

lemma sacked_from_Nil [simp]: "\<not> sacked_from n k []"
  by (simp add: sacked_from_def)

lemma sacked_from_Cons [simp]:
  "sacked_from n k (i # is) \<longleftrightarrow> (node i = n \<and> m_sacked i \<and> k = 0) \<or> sacked_from n (k - sz i) is"
proof
  assume "sacked_from n k (i # is)"
  then obtain pre j post where e: "i # is = pre @ j # post" "node j = n" "m_sacked j" "k \<le> nbytes pre"
    by (auto simp: sacked_from_def)
  show "(node i = n \<and> m_sacked i \<and> k = 0) \<or> sacked_from n (k - sz i) is"
  proof (cases pre)
    case Nil
    with e show ?thesis by simp
  next
    case (Cons p ps)
    with e have "is = ps @ j # post" "k - sz i \<le> nbytes ps" by simp_all
    with e show ?thesis by (auto simp: sacked_from_def)
  qed
next
  assume "(node i = n \<and> m_sacked i \<and> k = 0) \<or> sacked_from n (k - sz i) is"
  then show "sacked_from n k (i # is)"
  proof
    assume "node i = n \<and> m_sacked i \<and> k = 0"
    then show ?thesis unfolding sacked_from_def
      by (intro exI [of _ "[]"] exI [of _ i] exI [of _ "is"]) simp
  next
    assume "sacked_from n (k - sz i) is"
    then obtain pre j post where "is = pre @ j # post" "node j = n" "m_sacked j" "k - sz i \<le> nbytes pre"
      by (auto simp: sacked_from_def)
    then show ?thesis unfolding sacked_from_def
      by (intro exI [of _ "i # pre"] exI [of _ j] exI [of _ post]) auto
  qed
qed

lemma sacked_from_append:
  "sacked_from n k (is @ js) \<longleftrightarrow> sacked_from n k is \<or> sacked_from n (k - nbytes is) js"
  by (induction "is" arbitrary: k) auto

lemma sacked_from_mono: "sacked_from n k is \<Longrightarrow> l \<le> k \<Longrightarrow> sacked_from n l is"
  unfolding sacked_from_def by (blast intro: le_trans)

section \<open>The edits\<close>

type_synonym edit_state = "tx_item list \<times> nat \<times> uint32"

definition merged :: "tx_item \<Rightarrow> tx_item \<Rightarrow> tx_item" where
  "merged i j = i\<lparr>m_retrans := m_retrans i \<and> m_retrans j, m_lastSent := max (m_lastSent i) (m_lastSent j),
     m_packet := m_packet i @ m_packet j\<rparr>"

definition merged_retrans :: "tx_item \<Rightarrow> tx_item \<Rightarrow> uint32 \<Rightarrow> uint32" where
  "merged_retrans i j r =
     (if m_retrans i = m_retrans j then r
      else r - of_nat (if m_retrans i then sz i else sz j))"

text \<open>The argument tells whether items that are sacked may be merged.\<close>

inductive edit :: "bool \<Rightarrow> edit_state \<Rightarrow> edit_state \<Rightarrow> bool" for sk where
  split: "0 < s \<Longrightarrow> s < sz i \<Longrightarrow>
    edit sk (pre @ i # post, n, r)
      (pre @ i\<lparr>node := n, m_packet := take s (m_packet i)\<rparr> #
        i\<lparr>m_packet := drop s (m_packet i), m_startSeq := m_startSeq i + of_nat s\<rparr> # post, Suc n, r)"
| merge: "m_sacked i = m_sacked j \<Longrightarrow> m_lost i = m_lost j \<Longrightarrow> (m_sacked i \<Longrightarrow> sk) \<Longrightarrow>
    edit sk (pre @ i # j # post, n, r) (pre @ merged i j # post, n, merged_retrans i j r)"

inductive_cases edit_cases: "edit sk (is, n, r) (is', n', r')"

text \<open>The facts that every edit preserves, and how it moves the counters.\<close>

lemma edit_bytes: "edit sk (is, n, r) (is', n', r') \<Longrightarrow> bytes_of is' = bytes_of is"
  by (erule edit_cases) (simp_all add: merged_def flip: append_assoc)

lemma edit_flagged:
  "edit sk (is, n, r) (is', n', r') \<Longrightarrow> flagged m_sacked is' = flagged m_sacked is \<and>
    flagged m_lost is' = flagged m_lost is"
  by (erule edit_cases) (simp_all add: merged_def)

lemma edit_retrans:
  "edit sk (is, n, r) (is', n', r') \<Longrightarrow> r = of_nat (flagged m_retrans is) \<Longrightarrow>
    r' = of_nat (flagged m_retrans is')"
  by (erule edit_cases) (auto simp: merged_def merged_retrans_def of_nat_diff)

lemma edit_contiguous:
  "edit sk (is, n, r) (is', n', r') \<Longrightarrow> contiguous s is \<Longrightarrow> contiguous s is'"
  by (erule edit_cases) (auto simp: merged_def add.assoc of_nat_diff)

lemma edit_item_ok:
  "edit sk (is, n, r) (is', n', r') \<Longrightarrow> list_all item_ok is \<Longrightarrow> list_all item_ok is'"
  by (erule edit_cases) (auto simp: merged_def item_ok_def)

lemma edit_nodes:
  "edit sk (is, n, r) (is', n', r') \<Longrightarrow>
    n \<le> n' \<and> node ` set is' \<subseteq> node ` set is \<union> {n..<n'}"
  by (erule edit_cases) (auto simp: merged_def)

lemma edit_distinct:
  "edit sk (is, n, r) (is', n', r') \<Longrightarrow> distinct (map node is) \<Longrightarrow> \<forall>i \<in> set is. node i < n \<Longrightarrow>
    distinct (map node is') \<and> (\<forall>i \<in> set is'. node i < n')"
  by (erule edit_cases) (auto simp: merged_def less_Suc_eq)

lemma edit_sacked_from:
  "edit False (is, n, r) (is', n', r') \<Longrightarrow> sacked_from m k is \<Longrightarrow> sacked_from m k is'"
  by (erule edit_cases)
    (auto simp: merged_def sacked_from_append add.assoc elim: sacked_from_mono)

lemma edit_flags_clear:
  "edit sk (is, n, r) (is', n', r') \<Longrightarrow> \<forall>i \<in> set is. \<not> m_lost i \<and> \<not> m_sacked i \<Longrightarrow>
    \<forall>i \<in> set is'. \<not> m_lost i \<and> \<not> m_sacked i"
  by (erule edit_cases) (auto simp: merged_def)

lemma edit_retrans_clear:
  "edit sk (is, n, r) (is', n', r') \<Longrightarrow> \<forall>i \<in> set is. \<not> m_retrans i \<Longrightarrow>
    r' = r \<and> (\<forall>i \<in> set is'. \<not> m_retrans i)"
  by (erule edit_cases) (auto simp: merged_def merged_retrans_def)

abbreviation edits :: "bool \<Rightarrow> edit_state \<Rightarrow> edit_state \<Rightarrow> bool" where
  "edits sk \<equiv> (edit sk)\<^sup>*\<^sup>*"

lemma edits_induct [consumes 1, case_names refl step]:
  assumes "edits sk (is, n, r) (is', n', r')" "P is n r"
    and "\<And>is1 n1 r1 is2 n2 r2. edits sk (is, n, r) (is1, n1, r1) \<Longrightarrow> P is1 n1 r1 \<Longrightarrow>
      edit sk (is1, n1, r1) (is2, n2, r2) \<Longrightarrow> P is2 n2 r2"
  shows "P is' n' r'"
proof -
  define Q where "Q = (\<lambda>(a, b, c). P a b c)"
  have "Q (is', n', r')"
    using assms(1)
  proof (induction rule: rtranclp_induct)
    case base
    with assms(2) show ?case by (simp add: Q_def)
  next
    case (step y z)
    with assms(3) show ?case by (cases y; cases z) (simp add: Q_def)
  qed
  then show ?thesis by (simp add: Q_def)
qed

lemma edits_bytes: "edits sk (is, n, r) (is', n', r') \<Longrightarrow> bytes_of is' = bytes_of is"
  by (induction rule: edits_induct) (auto dest: edit_bytes)

lemma edits_nbytes: "edits sk (is, n, r) (is', n', r') \<Longrightarrow> nbytes is' = nbytes is"
  by (metis edits_bytes length_bytes_of)

lemma edits_flagged:
  "edits sk (is, n, r) (is', n', r') \<Longrightarrow> flagged m_sacked is' = flagged m_sacked is \<and>
    flagged m_lost is' = flagged m_lost is"
  by (induction rule: edits_induct) (auto dest: edit_flagged)

lemma edits_retrans:
  "edits sk (is, n, r) (is', n', r') \<Longrightarrow> r = of_nat (flagged m_retrans is) \<Longrightarrow>
    r' = of_nat (flagged m_retrans is')"
  by (induction rule: edits_induct) (auto dest: edit_retrans)

lemma edits_contiguous:
  "edits sk (is, n, r) (is', n', r') \<Longrightarrow> contiguous s is \<Longrightarrow> contiguous s is'"
  by (induction rule: edits_induct) (auto dest: edit_contiguous)

lemma edits_item_ok:
  "edits sk (is, n, r) (is', n', r') \<Longrightarrow> list_all item_ok is \<Longrightarrow> list_all item_ok is'"
  by (induction rule: edits_induct) (auto dest: edit_item_ok)

lemma subset_Un_trans:
  "B \<subseteq> A \<union> X \<Longrightarrow> C \<subseteq> B \<union> Y \<Longrightarrow> X \<subseteq> Z \<Longrightarrow> Y \<subseteq> Z \<Longrightarrow> C \<subseteq> A \<union> Z"
  by blast

lemma edits_nodes:
  "edits sk (is, n, r) (is', n', r') \<Longrightarrow>
    n \<le> n' \<and> node ` set is' \<subseteq> node ` set is \<union> {n..<n'}"
proof (induction rule: edits_induct)
  case (step is1 n1 r1 is2 n2 r2)
  have h: "n \<le> n1" "node ` set is1 \<subseteq> node ` set is \<union> {n..<n1}"
    using step.IH by blast+
  have e: "n1 \<le> n2" "node ` set is2 \<subseteq> node ` set is1 \<union> {n1..<n2}"
    using edit_nodes [OF step.hyps(2)] by blast+
  have m: "{n..<n1} \<subseteq> {n..<n2}" "{n1..<n2} \<subseteq> {n..<n2}"
    using h(1) e(1) by auto
  from h(2) e(2) m have "node ` set is2 \<subseteq> node ` set is \<union> {n..<n2}"
    by (rule subset_Un_trans)
  with h(1) e(1) show ?case by simp
qed simp

lemma edits_distinct:
  "edits sk (is, n, r) (is', n', r') \<Longrightarrow> distinct (map node is) \<Longrightarrow> \<forall>i \<in> set is. node i < n \<Longrightarrow>
    distinct (map node is') \<and> (\<forall>i \<in> set is'. node i < n')"
proof (induction rule: edits_induct)
  case (step is1 n1 r1 is2 n2 r2)
  from edit_distinct [OF step.hyps(2)] step.IH [OF step.prems] show ?case by blast
qed simp

lemma edits_sacked_from:
  "edits False (is, n, r) (is', n', r') \<Longrightarrow> sacked_from m k is \<Longrightarrow> sacked_from m k is'"
  by (induction rule: edits_induct) (auto dest: edit_sacked_from)

lemma edits_flags_clear:
  "edits sk (is, n, r) (is', n', r') \<Longrightarrow> \<forall>i \<in> set is. \<not> m_lost i \<and> \<not> m_sacked i \<Longrightarrow>
    \<forall>i \<in> set is'. \<not> m_lost i \<and> \<not> m_sacked i"
proof (induction rule: edits_induct)
  case (step is1 n1 r1 is2 n2 r2)
  from edit_flags_clear [OF step.hyps(2) step.IH [OF step.prems]] show ?case .
qed simp

lemma edits_retrans_clear:
  "edits sk (is, n, r) (is', n', r') \<Longrightarrow> \<forall>i \<in> set is. \<not> m_retrans i \<Longrightarrow>
    r' = r \<and> (\<forall>i \<in> set is'. \<not> m_retrans i)"
proof (induction rule: edits_induct)
  case (step is1 n1 r1 is2 n2 r2)
  from edit_retrans_clear [OF step.hyps(2)] step.IH [OF step.prems] show ?case by blast
qed simp

end
