(* ===== verification/TxCopy.thy ===== *)
theory TxCopy
  imports TxEdit
begin

text \<open>
  What \<open>GetPacketFromList\<close>, \<open>GetNewSegment\<close>, \<open>GetTransmittedSegment\<close> and \<open>CopyFromSequence\<close> return.
  The requested sequence is \<open>base + k\<close> for an offset \<open>k\<close> into a list that begins at \<open>base\<close> and holds
  less than \<open>2 ^ 31\<close> bytes.
\<close>

lemma GetSize_of_nat: "GetSize (m_packet i) = of_nat (sz i)"
  by (simp add: GetSize_def)

text \<open>The assertion of the walk holds for the sent list, which begins at \<open>SND.UNA\<close>.\<close>

definition list_at :: "bool \<Rightarrow> seq32 \<Rightarrow> tx_item list \<Rightarrow> tx_buffer \<Rightarrow> bool" where
  "list_at is_sent base is b \<longleftrightarrow>
     nbytes is < 2147483648 \<and> (is_sent \<longrightarrow> m_firstByteSeq b = base \<and> contiguous base is)"

lemma pass_walk:
  assumes "list_at is_sent base (acc @ pre @ rest) b" "nbytes acc + nbytes pre \<le> k" "k < 2147483648"
  shows "list_pass is_sent n (base + of_nat k) acc (base + of_nat (nbytes acc)) (pre @ rest) b =
    list_pass is_sent n (base + of_nat k) (acc @ pre) (base + of_nat (nbytes (acc @ pre))) rest b"
  using assms
proof (induction pre arbitrary: acc)
  case Nil
  then show ?case by simp
next
  case (Cons p pre)
  have b: "base + of_nat (nbytes acc) + GetSize (m_packet p) = base + of_nat (nbytes acc + sz p)"
    by (simp add: GetSize_of_nat)
  have "\<not> seq_lt (base + of_nat k) (base + of_nat (nbytes acc + sz p))"
    using Cons.prems by (subst seq_lt_window) simp_all
  moreover have "is_sent \<longrightarrow> seq_ge (m_startSeq p) (m_firstByteSeq b)"
    using Cons.prems by (auto simp: list_at_def ns_seq)
  moreover have "list_pass is_sent n (base + of_nat k) (acc @ [p]) (base + of_nat (nbytes (acc @ [p]))) (pre @ rest) b =
      list_pass is_sent n (base + of_nat k) ((acc @ [p]) @ pre) (base + of_nat (nbytes ((acc @ [p]) @ pre))) rest b"
    using Cons.prems by (intro Cons.IH) simp_all
  ultimately show ?case
    using b by (simp add: add.assoc)
qed

text \<open>The pass at the item that holds the requested sequence.\<close>

lemma pass_at:
  assumes "list_at is_sent base (pre @ i # post) b" "nbytes pre \<le> k" "k < nbytes pre + sz i"
  shows "list_pass is_sent n (base + of_nat k) [] base (pre @ i # post) b =
    list_pass is_sent n (base + of_nat k) pre (base + of_nat (nbytes pre)) (i # post) b"
    and "is_sent \<longrightarrow> seq_ge (m_startSeq i) (m_firstByteSeq b)"
    and "seq_lt (base + of_nat k) (base + of_nat (nbytes pre) + GetSize (m_packet i))"
proof -
  have l: "list_at is_sent base ([] @ pre @ i # post) b" and k: "k < 2147483648"
    using assms by (simp_all add: list_at_def)
  show "list_pass is_sent n (base + of_nat k) [] base (pre @ i # post) b =
      list_pass is_sent n (base + of_nat k) pre (base + of_nat (nbytes pre)) (i # post) b"
    using pass_walk [OF l _ k] assms(2) by simp
  show "is_sent \<longrightarrow> seq_ge (m_startSeq i) (m_firstByteSeq b)"
    using assms(1) by (auto simp: list_at_def ns_seq)
  have "base + of_nat (nbytes pre) + GetSize (m_packet i) = base + of_nat (nbytes pre + sz i)"
    by (simp add: GetSize_of_nat)
  then show "seq_lt (base + of_nat k) (base + of_nat (nbytes pre) + GetSize (m_packet i))"
    using assms(1,3) k by (simp only: ns_seq list_at_def) (subst seq_lt_window; simp)
qed

lemma SplitItems_ok:
  "s \<le> sz i \<Longrightarrow> sz i < 4294967296 \<Longrightarrow> SplitItems n i (of_nat s) = Some
    (i\<lparr>node := n, m_packet := take s (m_packet i)\<rparr>,
     i\<lparr>m_packet := drop s (m_packet i), m_startSeq := m_startSeq i + of_nat s\<rparr>)"
  by (simp add: SplitItems_def GetSize_def of_nat32_le unat_of_nat32)

lemma MergeItems_ok:
  "m_sacked i = m_sacked j \<Longrightarrow> m_lost i = m_lost j \<Longrightarrow> MergeItems i j b =
    Some (merged i j, b\<lparr>m_retransOut := merged_retrans i j (m_retransOut b)\<rparr>)"
  by (auto simp: MergeItems_def merged_def merged_retrans_def GetSize_def max_def Let_def)

lemma MergeItems_Some:
  "MergeItems i j b = Some r \<Longrightarrow> m_sacked i = m_sacked j \<and> m_lost i = m_lost j"
  by (auto simp: MergeItems_def split: if_splits)

section \<open>The four cases of a call\<close>

lemma get_split:
  assumes "list_at is_sent base (pre @ i # post) b" "nbytes pre < k" "k < nbytes pre + sz i"
  shows "GetPacketFromList is_sent (pre @ i # post) base n (base + of_nat k) b =
    GetPacketFromList is_sent
      (pre @ i\<lparr>node := next_node b, m_packet := take (k - nbytes pre) (m_packet i)\<rparr> #
       i\<lparr>m_packet := drop (k - nbytes pre) (m_packet i),
         m_startSeq := m_startSeq i + of_nat (k - nbytes pre)\<rparr> # post)
      base n (base + of_nat k) (b\<lparr>next_node := next_node b + 1\<rparr>)"
proof -
  have w: "nbytes pre < 2147483648" "k < 2147483648" "sz i < 4294967296"
    using assms by (simp_all add: list_at_def)
  have g: "base + of_nat k \<noteq> base + of_nat (nbytes pre)"
      "seq_gt (base + of_nat k) (base + of_nat (nbytes pre))"
    using assms(2) w by (simp_all only: ns_seq)
  have d: "of_int (seq_diff (base + of_nat k) (base + of_nat (nbytes pre))) = (of_nat (k - nbytes pre) :: uint32)"
    using assms(2) by (simp add: seq_diff_window [OF w(2,1)] of_nat_diff)
  have s: "k - nbytes pre \<le> sz i"
    using assms(3) by simp
  show ?thesis
    apply (subst GetPacketFromList.simps)
    unfolding pass_at(1) [OF assms(1) less_imp_le [OF assms(2)] assms(3)]
    using pass_at(2,3) [OF assms(1) less_imp_le [OF assms(2)] assms(3)] g
    by (simp add: d SplitItems_ok [OF s w(3)])
qed

lemma get_exact:
  assumes "list_at is_sent base (pre @ i # post) b" "0 < sz i"
  shows "GetPacketFromList is_sent (pre @ i # post) base (of_nat (sz i)) (base + of_nat (nbytes pre)) b =
    Some (pre @ i # post, i, b)"
proof -
  have w: "nbytes pre + sz i < 2147483648"
    using assms by (simp add: list_at_def)
  have "seq_le (base + of_nat (nbytes pre) + of_nat (sz i)) (base + of_nat (nbytes pre) + GetSize (m_packet i))"
    by (simp add: GetSize_of_nat seq_le_def seq_gt_def)
  then show ?thesis
    using assms pass_at(2,3) [OF assms(1) order_refl]
    by (subst GetPacketFromList.simps) (simp add: pass_at(1) GetSize_of_nat)
qed

lemma get_front:
  assumes "list_at is_sent base (pre @ i # post) b" "0 < n" "n < sz i"
  shows "GetPacketFromList is_sent (pre @ i # post) base (of_nat n) (base + of_nat (nbytes pre)) b =
    Some (pre @ i\<lparr>node := next_node b, m_packet := take n (m_packet i)\<rparr> #
            i\<lparr>m_packet := drop n (m_packet i), m_startSeq := m_startSeq i + of_nat n\<rparr> # post,
          i\<lparr>node := next_node b, m_packet := take n (m_packet i)\<rparr>, b\<lparr>next_node := next_node b + 1\<rparr>)"
proof -
  have w: "nbytes pre + sz i < 2147483648"
    using assms by (simp add: list_at_def)
  have "seq_le (base + of_nat (nbytes pre + n)) (base + of_nat (nbytes pre + sz i))"
    using assms(3) w by (subst seq_le_window) simp_all
  then have l: "seq_le (base + of_nat (nbytes pre) + of_nat n) (base + of_nat (nbytes pre) + GetSize (m_packet i))"
    by (simp add: GetSize_of_nat add.assoc)
  have c: "(of_nat n :: uint32) \<noteq> GetSize (m_packet i)" "(of_nat n :: uint32) < GetSize (m_packet i)"
    using assms(3) w by (simp_all add: GetSize_of_nat of_nat32_eq of_nat32_less)
  have p: "nbytes pre < nbytes pre + sz i" and e: "m_packet i \<noteq> []" using assms(3) by auto
  show ?thesis
    using e l c assms pass_at(2,3) [OF assms(1) order_refl p] w
    by (subst GetPacketFromList.simps) (simp add: pass_at(1) SplitItems_ok)
qed

lemma get_merge:
  assumes "list_at is_sent base (pre @ i # j # post) b" "0 < sz i" "sz i < n"
    and "nbytes pre + n < 2147483648"
  shows "GetPacketFromList is_sent (pre @ i # j # post) base (of_nat n) (base + of_nat (nbytes pre)) b =
    (if m_sacked i = m_sacked j \<and> m_lost i = m_lost j
     then GetPacketFromList is_sent (pre @ merged i j # post) base (of_nat n) (base + of_nat (nbytes pre))
            (b\<lparr>m_retransOut := merged_retrans i j (m_retransOut b)\<rparr>)
     else None)"
proof -
  have "\<not> seq_le (base + of_nat (nbytes pre + n)) (base + of_nat (nbytes pre + sz i))"
    using assms by (subst seq_le_window) (simp_all add: list_at_def)
  then have l: "\<not> seq_le (base + of_nat (nbytes pre) + of_nat n) (base + of_nat (nbytes pre) + GetSize (m_packet i))"
    by (simp add: GetSize_of_nat add.assoc)
  have p: "nbytes pre < nbytes pre + sz i" using assms(2) by simp
  have m: "MergeItems i j b = (if m_sacked i = m_sacked j \<and> m_lost i = m_lost j
      then Some (merged i j, b\<lparr>m_retransOut := merged_retrans i j (m_retransOut b)\<rparr>) else None)"
    using MergeItems_ok [of i j b] MergeItems_Some [of i j b] by (cases "MergeItems i j b") auto
  show ?thesis
    apply (subst GetPacketFromList.simps)
    using l assms pass_at(2,3) [OF assms(1) order_refl p]
    by (simp add: pass_at(1) m)
qed


section \<open>What a call returns\<close>

text \<open>The parts of the buffer that a call leaves alone.\<close>

definition same_frame :: "tx_buffer \<Rightarrow> tx_buffer \<Rightarrow> bool" where
  "same_frame b b' \<longleftrightarrow> b' = b\<lparr>next_node := next_node b', m_retransOut := m_retransOut b'\<rparr>"

lemma same_frame_refl [simp]: "same_frame b b"
  by (simp add: same_frame_def)

lemma same_frame_upd [simp]:
  "same_frame (b\<lparr>next_node := x\<rparr>) b' \<longleftrightarrow> same_frame b b'"
  "same_frame (b\<lparr>m_retransOut := y\<rparr>) b' \<longleftrightarrow> same_frame b b'"
  "same_frame b (b\<lparr>next_node := x\<rparr>)"
  by (auto simp: same_frame_def)

lemma list_at_frame [simp]:
  "list_at is_sent base is (b\<lparr>next_node := x\<rparr>) \<longleftrightarrow> list_at is_sent base is b"
  "list_at is_sent base is (b\<lparr>m_retransOut := y\<rparr>) \<longleftrightarrow> list_at is_sent base is b"
  by (simp_all add: list_at_def)

abbreviation edit_state_of :: "tx_item list \<Rightarrow> tx_buffer \<Rightarrow> edit_state" where
  "edit_state_of is b \<equiv> (is, next_node b, m_retransOut b)"

lemma list_at_edit:
  "edit sk (is, n, r) (is', n', r') \<Longrightarrow> list_at is_sent base is b \<Longrightarrow> list_at is_sent base is' b"
  unfolding list_at_def using edit_bytes edit_contiguous by (metis length_bytes_of)

text \<open>A call for \<open>n\<close> bytes at the start of item \<open>i\<close>, all of them in the list.\<close>

definition got :: "tx_item list \<Rightarrow> tx_item \<Rightarrow> tx_item list \<Rightarrow> nat \<Rightarrow> tx_buffer \<Rightarrow>
    tx_item list \<Rightarrow> tx_item \<Rightarrow> tx_buffer \<Rightarrow> bool" where
  "got pre i post n b l it b' \<longleftrightarrow>
     edits (m_sacked i) (edit_state_of (pre @ i # post) b) (edit_state_of l b') \<and> same_frame b b' \<and>
     (\<exists>rest. l = pre @ it # rest) \<and> sz it = n \<and> m_startSeq it = m_startSeq i \<and>
     m_lost it = m_lost i \<and> m_sacked it = m_sacked i"

lemma get_got:
  assumes "list_at is_sent base (pre @ i # post) b" "0 < n" "n \<le> sz i + nbytes post" "0 < sz i"
    and "list_all (\<lambda>j. m_packet j \<noteq> []) post"
    and "GetPacketFromList is_sent (pre @ i # post) base (of_nat n) (base + of_nat (nbytes pre)) b =
      Some (l, it, b')"
  shows "got pre i post n b l it b'"
  using assms
proof (induction post arbitrary: i b)
  case Nil
  consider "n = sz i" | "n < sz i" using Nil.prems by fastforce
  then show ?case
  proof cases
    case 1
    with Nil.prems get_exact [of is_sent base pre i "[]" b] show ?thesis
      by (auto simp: got_def)
  next
    case 2
    from get_front [OF Nil.prems(1,2) 2] Nil.prems(6) 2
      edit.split [OF Nil.prems(2) 2, of "m_sacked i" pre "[]" "next_node b" "m_retransOut b"]
    show ?thesis by (auto simp: got_def)
  qed
next
  case (Cons j post)
  consider "n = sz i" | "n < sz i" | "sz i < n" by linarith
  then show ?case
  proof cases
    case 1
    with Cons.prems get_exact [of is_sent base pre i "j # post" b] show ?thesis
      by (auto simp: got_def)
  next
    case 2
    from get_front [OF Cons.prems(1,2) 2] Cons.prems(6) 2
      edit.split [OF Cons.prems(2) 2, of "m_sacked i" pre "j # post" "next_node b" "m_retransOut b"]
    show ?thesis by (auto simp: got_def)
  next
    case 3
    have w: "nbytes pre + n < 2147483648"
      using Cons.prems(1,3) by (simp add: list_at_def)
    let ?b = "b\<lparr>m_retransOut := merged_retrans i j (m_retransOut b)\<rparr>"
    have f: "m_sacked i = m_sacked j" "m_lost i = m_lost j"
      using get_merge [OF Cons.prems(1,4) 3 w] Cons.prems(6) by (auto split: if_splits)
    have e: "edit (m_sacked i) (edit_state_of (pre @ i # j # post) b) (edit_state_of (pre @ merged i j # post) ?b)"
      using edit.merge [OF f, of "m_sacked i"] by simp
    have "got pre (merged i j) post n ?b l it b'"
    proof (rule Cons.IH)
      show "list_at is_sent base (pre @ merged i j # post) ?b"
        using list_at_edit [OF e Cons.prems(1)] by simp
      show "GetPacketFromList is_sent (pre @ merged i j # post) base (of_nat n)
          (base + of_nat (nbytes pre)) ?b = Some (l, it, b')"
        using get_merge [OF Cons.prems(1,4) 3 w] Cons.prems(6) f by simp
    qed (use Cons.prems in \<open>simp_all add: merged_def\<close>)
    with e show ?thesis
      by (simp add: got_def merged_def converse_rtranclp_into_rtranclp)
  qed
qed

text \<open>When the flags of the items agree, the call returns.\<close>

lemma get_returns:
  assumes "list_at is_sent base (pre @ i # post) b" "0 < n" "n \<le> sz i + nbytes post" "0 < sz i"
    and "list_all (\<lambda>j. m_packet j \<noteq> []) post"
    and "\<forall>j \<in> set post. m_sacked j = m_sacked i \<and> m_lost j = m_lost i"
  shows "\<exists>l it b'. GetPacketFromList is_sent (pre @ i # post) base (of_nat n) (base + of_nat (nbytes pre)) b =
      Some (l, it, b')"
  using assms
proof (induction post arbitrary: i b)
  case Nil
  consider "n = sz i" | "n < sz i" using Nil.prems by fastforce
  then show ?case
    using get_exact [OF Nil.prems(1,4)] get_front [OF Nil.prems(1,2)] by cases blast+
next
  case (Cons j post)
  consider "n = sz i" | "n < sz i" | "sz i < n" by linarith
  then show ?case
  proof cases
    case 3
    have w: "nbytes pre + n < 2147483648"
      using Cons.prems(1,3) by (simp add: list_at_def)
    let ?b = "b\<lparr>m_retransOut := merged_retrans i j (m_retransOut b)\<rparr>"
    have f: "m_sacked i = m_sacked j" "m_lost i = m_lost j"
      using Cons.prems(6) by simp_all
    have e: "edit (m_sacked i) (edit_state_of (pre @ i # j # post) b) (edit_state_of (pre @ merged i j # post) ?b)"
      using edit.merge [OF f, of "m_sacked i"] by simp
    have "\<exists>l it b'. GetPacketFromList is_sent (pre @ merged i j # post) base (of_nat n)
        (base + of_nat (nbytes pre)) ?b = Some (l, it, b')"
      using Cons.prems list_at_edit [OF e Cons.prems(1)] f
      by (intro Cons.IH) (simp_all add: merged_def)
    then show ?thesis
      using get_merge [OF Cons.prems(1,4) 3 w] f by simp
  qed (use get_exact [OF Cons.prems(1,4)] get_front [OF Cons.prems(1,2)] in blast)+
qed

end
