(* ===== verification/TxInv.thy ===== *)
theory TxInv
  imports TxCopy
begin

text \<open>
  The invariant of \<open>TcpTxBuffer\<close> and the proof that handing out segments keeps it: the sent list
  is a gapless run of segments from \<open>SND.UNA\<close>, every counter is the sum it stands for, and the
  iterator to the highest SACK, unless \<open>SND.UNA\<close> has passed it, points to an item that is sacked
  and is not the head.
\<close>

section \<open>The invariant\<close>

definition fresh_item :: "tx_item \<Rightarrow> bool" where
  "fresh_item i \<longleftrightarrow> m_packet i \<noteq> [] \<and> \<not> m_lost i \<and> \<not> m_sacked i \<and> \<not> m_retrans i"

text \<open>The second case, a recorded sequence that \<open>SND.UNA\<close> has passed, occurs while \<open>DiscardUpTo\<close> runs.\<close>

definition highest_ok :: "item_it \<times> seq32 \<Rightarrow> seq32 \<Rightarrow> tx_item list \<Rightarrow> bool" where
  "highest_ok hs first is \<longleftrightarrow>
     (case hs of
        (Singular, s) \<Rightarrow> False
      | (EndIt, s) \<Rightarrow> True
      | (AtNode n, s) \<Rightarrow> seq_le s first \<or>
          (\<exists>k. 0 < k \<and> k \<le> nbytes is \<and> s = first + of_nat k \<and> sacked_from n k is))"

definition nodes_ok :: "tx_item list \<Rightarrow> nat \<Rightarrow> bool" where
  "nodes_ok is n \<longleftrightarrow> distinct (map node is) \<and> (\<forall>i \<in> set is. node i < n)"

definition tx_inv :: "tx_buffer \<Rightarrow> bool" where
  "tx_inv b \<longleftrightarrow>
     list_all item_ok (m_sentList b) \<and> list_all fresh_item (m_appList b) \<and>
     contiguous (m_firstByteSeq b) (m_sentList b) \<and>
     m_size b = of_nat (nbytes (m_sentList b) + nbytes (m_appList b)) \<and>
     m_sentSize b = of_nat (nbytes (m_sentList b)) \<and>
     m_lostOut b = of_nat (flagged m_lost (m_sentList b)) \<and>
     m_sackedOut b = of_nat (flagged m_sacked (m_sentList b)) \<and>
     m_retransOut b = of_nat (flagged m_retrans (m_sentList b)) \<and>
     nbytes (m_sentList b) + nbytes (m_appList b) \<le> unat (m_maxBuffer b) \<and>
     unat (m_maxBuffer b) < 2147483648 \<and>
     nodes_ok (m_sentList b @ m_appList b) (next_node b) \<and>
     highest_ok (m_highestSack b) (m_firstByteSeq b) (m_sentList b)"

text \<open>
  What the invariant says of the data alone: no flag and no counter of the scoreboard. It also holds
  where a call has left the scoreboard inconsistent.
\<close>

abbreviation nonempty :: "tx_item list \<Rightarrow> bool" where
  "nonempty is \<equiv> list_all (\<lambda>i. m_packet i \<noteq> []) is"

definition tx_data :: "tx_buffer \<Rightarrow> bool" where
  "tx_data b \<longleftrightarrow>
     nonempty (m_sentList b) \<and> nonempty (m_appList b) \<and> contiguous (m_firstByteSeq b) (m_sentList b) \<and>
     m_size b = of_nat (nbytes (m_sentList b) + nbytes (m_appList b)) \<and>
     m_sentSize b = of_nat (nbytes (m_sentList b)) \<and>
     nbytes (m_sentList b) + nbytes (m_appList b) \<le> unat (m_maxBuffer b) \<and>
     unat (m_maxBuffer b) < 2147483648 \<and>
     nodes_ok (m_sentList b @ m_appList b) (next_node b)"

lemma tx_inv_data: "tx_inv b \<Longrightarrow> tx_data b"
  by (auto simp: tx_inv_def tx_data_def list_all_iff item_ok_def fresh_item_def)

lemma tx_data_bound: "tx_data b \<Longrightarrow> nbytes (m_sentList b) + nbytes (m_appList b) < 2147483648"
  by (auto simp: tx_data_def)

text \<open>The bytes of the connection that are in the buffer, from \<open>SND.UNA\<close> on.\<close>

definition stream :: "tx_buffer \<Rightarrow> uint8 list" where
  "stream b = bytes_of (m_sentList b @ m_appList b)"

lemma tx_inv_bound: "tx_inv b \<Longrightarrow> nbytes (m_sentList b) + nbytes (m_appList b) < 2147483648"
  by (auto simp: tx_inv_def)

lemma tx_inv_counters:
  assumes "tx_inv b"
  shows "m_sackedOut b + m_lostOut b \<le> m_sentSize b"
proof -
  have "flagged m_sacked (m_sentList b) + flagged m_lost (m_sentList b) \<le> nbytes (m_sentList b)"
    using assms by (intro flagged_disjoint) (auto simp: tx_inv_def list_all_iff item_ok_def)
  with tx_inv_bound [OF assms] assms show ?thesis
    by (simp add: tx_inv_def of_nat32_le flip: of_nat_add)
qed

lemma item_ok_sz: "item_ok i \<Longrightarrow> 0 < sz i"
  by (simp add: item_ok_def)

lemma fresh_item_sz: "fresh_item i \<Longrightarrow> 0 < sz i"
  by (simp add: fresh_item_def)

lemma fresh_item_ok: "fresh_item i \<Longrightarrow> item_ok i"
  by (simp add: fresh_item_def item_ok_def)

lemma highest_ok_append:
  "highest_ok hs first is \<Longrightarrow> highest_ok hs first (is @ js)"
  by (auto simp: highest_ok_def sacked_from_append split: prod.splits item_it.splits intro: trans_le_add1)

lemma highest_ok_edits:
  assumes "edits False (is, n, r) (is', n', r')" "highest_ok hs first is"
  shows "highest_ok hs first is'"
  using assms edits_sacked_from [OF assms(1)] edits_nbytes [OF assms(1)]
  by (auto simp: highest_ok_def split: prod.splits item_it.splits)

lemma nodes_ok_edits:
  assumes e: "edits sk (is, n, r) (is', n', r')" and "nodes_ok (pre @ is @ post) n"
  shows "nodes_ok (pre @ is' @ post) n'"
proof -
  have d: "distinct (map node is')" "\<forall>i \<in> set is'. node i < n'"
    using edits_distinct [OF e] assms(2) by (auto simp: nodes_ok_def)
  have n: "n \<le> n'" "node ` set is' \<subseteq> node ` set is \<union> {n..<n'}"
    using edits_nodes [OF e] by blast+
  have o: "\<forall>i \<in> set (pre @ post). node i < n \<and> node i \<notin> node ` set is"
  proof
    fix i assume i: "i \<in> set (pre @ post)"
    have "node ` set (pre @ post) \<inter> node ` set is = {}"
      using assms(2) by (auto simp: nodes_ok_def)
    with i have "node i \<notin> node ` set is" by (meson disjoint_iff imageI)
    with i assms(2) show "node i < n \<and> node i \<notin> node ` set is" by (auto simp: nodes_ok_def)
  qed
  have i: "\<forall>i \<in> set (pre @ post). node i < n' \<and> node i \<notin> node ` set is'"
  proof
    fix i assume "i \<in> set (pre @ post)"
    with o have "node i < n" "node i \<notin> node ` set is" by blast+
    then have "node i \<notin> node ` set is \<union> {n..<n'}" by simp
    with n \<open>node i < n\<close> show "node i < n' \<and> node i \<notin> node ` set is'"
      by (meson less_le_trans subsetD)
  qed
  then have "node ` set pre \<inter> node ` set is' = {}" "node ` set is' \<inter> node ` set post = {}"
    unfolding disjoint_iff by (metis UnCI imageE set_append)+
  with d i assms(2) show ?thesis
    unfolding nodes_ok_def by auto
qed

section \<open>New segments\<close>

lemma GetNewSegment_ok:
  assumes inv: "tx_inv b" and n: "0 < n" "n \<le> nbytes (m_appList b)"
  shows "\<exists>it app b'. GetNewSegment (of_nat n) b = Some (it, b') \<and> tx_inv b' \<and> sz it = n \<and>
    fresh_item it \<and> m_startSeq it = m_firstByteSeq b + of_nat (nbytes (m_sentList b)) \<and>
    bytes_of (m_appList b) = m_packet it @ bytes_of app \<and>
    b' = b\<lparr>m_appList := app, m_sentList := m_sentList b @ [it],
      m_sentSize := m_sentSize b + of_nat n, next_node := next_node b'\<rparr>"
proof -
  define base where "base = m_firstByteSeq b + m_sentSize b"
  obtain i post where app: "m_appList b = i # post"
    using n by (cases "m_appList b") auto
  have fresh: "\<forall>j \<in> set (i # post). fresh_item j"
    using inv app by (simp add: tx_inv_def list_all_iff)
  have at: "list_at False base ([] @ i # post) b"
    using tx_inv_bound [OF inv] app by (simp add: list_at_def)
  have i: "0 < sz i" "list_all (\<lambda>j. m_packet j \<noteq> []) post"
    using fresh by (auto simp: fresh_item_def list_all_iff)
  obtain l it b1 where g: "GetPacketFromList False (i # post) base (of_nat n) base b = Some (l, it, b1)"
    using get_returns [OF at n(1) _ i] n(2) app fresh by (auto simp: fresh_item_def)
  then have got: "got [] i post n b l it b1"
    using get_got [OF at n(1) _ i] n(2) app by simp
  then obtain rest where l: "l = it # rest" and
      e: "edits (m_sacked i) (edit_state_of (i # post) b) (edit_state_of l b1)"
    by (auto simp: got_def)
  have nodes: "nodes_ok (m_sentList b @ l @ []) (next_node b1)"
    using nodes_ok_edits [OF e, of "m_sentList b" "[]"] inv app by (simp add: tx_inv_def)
  have "\<forall>j \<in> set (i # post). \<not> m_lost j \<and> \<not> m_sacked j" "\<forall>j \<in> set (i # post). \<not> m_retrans j"
      "list_all item_ok (i # post)"
    using fresh by (auto simp: fresh_item_def list_all_iff item_ok_def)
  note c = edits_flags_clear [OF e this(1)] edits_retrans_clear [OF e this(2)] edits_item_ok [OF e this(3)]
  then have r: "m_retransOut b1 = m_retransOut b" by blast
  from c have fl: "\<forall>j \<in> set l. fresh_item j"
    by (simp add: fresh_item_def list_all_iff item_ok_def)
  have w: "without_node (node it) l = rest"
  proof -
    have "node it \<notin> node ` set rest" using nodes by (simp add: l nodes_ok_def)
    then have "\<forall>j \<in> set rest. node j \<noteq> node it" by (metis imageI)
    then show ?thesis by (simp add: l without_node_def)
  qed
  define it' where "it' = it\<lparr>m_startSeq := base, node := next_node b1\<rparr>"
  define b' where "b' = b\<lparr>m_appList := rest, m_sentList := m_sentList b @ [it'],
      m_sentSize := m_sentSize b + of_nat n, next_node := next_node b1 + 1\<rparr>"
  have sz: "sz it = n" and b1: "b1 = b\<lparr>next_node := next_node b1\<rparr>"
    using got r by (simp_all add: got_def same_frame_def)
  obtain nn where nn: "b1 = b\<lparr>next_node := nn\<rparr>" using b1 by blast
  have "GetNewSegment (of_nat n) b = Some (it', b')"
    using g app w sz l
    by (simp add: GetNewSegment_def base_def [symmetric] b'_def it'_def GetSize_def Let_def nn)
  note new = this
  have st: "m_startSeq it' = m_firstByteSeq b + of_nat (nbytes (m_sentList b))"
    using inv by (simp add: it'_def base_def tx_inv_def)
  have f': "fresh_item it'" "sz it' = n" "m_packet it' = m_packet it"
    using fl sz by (auto simp: it'_def l fresh_item_def)
  have bs: "bytes_of (m_appList b) = m_packet it' @ bytes_of rest"
    using edits_bytes [OF e] app by (simp add: l f')
  have "tx_inv b'"
  proof -
    have "nbytes (m_appList b) = n + nbytes rest"
      using arg_cong [OF bs, of length] f' by simp
    moreover have "nodes_ok ((m_sentList b @ [it']) @ rest) (next_node b1 + 1)"
      using nodes by (auto simp: nodes_ok_def l it'_def less_SucI)
    ultimately show ?thesis
      using inv fl f' st highest_ok_append [of "m_highestSack b" "m_firstByteSeq b" "m_sentList b" "[it']"]
      by (simp add: tx_inv_def b'_def l list_all_iff fresh_item_ok fresh_item_def add.assoc)
  qed
  with new st f' bs show ?thesis
    by (intro exI [of _ it'] exI [of _ rest] exI [of _ b']) (simp add: b'_def)
qed


section \<open>Segments that were sent before\<close>

lemma item_at:
  "k < nbytes is \<Longrightarrow> \<exists>pre i post. is = pre @ i # post \<and> nbytes pre \<le> k \<and> k < nbytes pre + sz i"
proof (induction "is" arbitrary: k)
  case (Cons i "is")
  show ?case
  proof (cases "k < sz i")
    case True
    then show ?thesis by (intro exI [of _ "[]"] exI [of _ i] exI [of _ "is"]) simp
  next
    case False
    with Cons.prems have "k - sz i < nbytes is" by simp
    then obtain pre j post where "is = pre @ j # post" "nbytes pre \<le> k - sz i" "k - sz i < nbytes pre + sz j"
      using Cons.IH by blast
    with False show ?thesis
      by (intro exI [of _ "i # pre"] exI [of _ j] exI [of _ post]) auto
  qed
qed simp

lemma get_at:
  assumes at: "list_at is_sent base is b" and ok: "nonempty is" and n: "0 < n" "k + n \<le> nbytes is"
    and g: "GetPacketFromList is_sent is base (of_nat n) (base + of_nat k) b = Some (l, it, b')"
  shows "edits (m_sacked it) (edit_state_of is b) (edit_state_of l b') \<and> same_frame b b' \<and> sz it = n \<and>
    (\<exists>pre rest. l = pre @ it # rest \<and> nbytes pre = k)"
proof -
  obtain pre i post where i: "is = pre @ i # post" "nbytes pre \<le> k" "k < nbytes pre + sz i"
    using item_at [of k "is"] n by auto
  have post: "list_all (\<lambda>j. m_packet j \<noteq> []) post"
    using ok i by (auto simp: list_all_iff)
  show ?thesis
  proof (cases "k = nbytes pre")
    case True
    with get_got [OF at [unfolded i] n(1) _ _ post] g n i show ?thesis
      by (auto simp: got_def)
  next
    case False
    with i have k: "nbytes pre < k" by simp
    define d where "d = k - nbytes pre"
    define i1 where "i1 = i\<lparr>node := next_node b, m_packet := take d (m_packet i)\<rparr>"
    define i2 where "i2 = i\<lparr>m_packet := drop d (m_packet i), m_startSeq := m_startSeq i + of_nat d\<rparr>"
    let ?b = "b\<lparr>next_node := next_node b + 1\<rparr>"
    have d: "0 < d" "d < sz i" "nbytes (pre @ [i1]) = k" "sz i2 = sz i - d" "sz i1 = d"
      using k i by (auto simp: d_def i1_def i2_def)
    have e: "edit (m_sacked i) (edit_state_of is b) (edit_state_of ((pre @ [i1]) @ i2 # post) ?b)"
      using edit.split [OF d(1,2)] by (simp add: i i1_def i2_def)
    have at2: "list_at is_sent base ((pre @ [i1]) @ i2 # post) ?b"
      using list_at_edit [OF e at] by simp
    have g2: "GetPacketFromList is_sent ((pre @ [i1]) @ i2 # post) base (of_nat n)
        (base + of_nat (nbytes (pre @ [i1]))) ?b = Some (l, it, b')"
      using get_split [OF at [unfolded i] k i(3)] g d(3) by (simp add: i d_def i1_def i2_def)
    have got: "got (pre @ [i1]) i2 post n ?b l it b'"
      by (rule get_got [OF at2 n(1) _ _ post g2]) (use n(2) d i in auto)
    then have "m_sacked it = m_sacked i" "m_sacked i2 = m_sacked i"
      by (simp_all add: got_def i2_def)
    moreover have "\<exists>pre rest. l = pre @ it # rest \<and> nbytes pre = k"
      using got d(3) unfolding got_def by blast
    ultimately show ?thesis
      using got e by (simp add: got_def converse_rtranclp_into_rtranclp)
  qed
qed

lemma retransmit_size_le:
  assumes "nonempty is" "nbytes is < 2147483648" "0 < n" "n < 2147483648"
  shows "\<exists>m. retransmit_size s (of_nat n) is = of_nat m \<and> 0 < m \<and> m \<le> n"
  using assms(1,2)
proof (induction "is")
  case Nil
  with assms(3) show ?case by auto
next
  case (Cons i "is")
  have mn: "\<exists>m. min (of_nat n) (of_nat x :: uint32) = of_nat m \<and> 0 < m \<and> m \<le> n"
    if "0 < x" "x < 2147483648" for x
    using that assms(3,4) by (intro exI [of _ "min n x"]) (auto simp: min_def of_nat32_le)
  have i: "0 < sz i" "sz i < 2147483648" using Cons.prems by auto
  show ?case
  proof (cases "m_startSeq i = s")
    case False
    with Cons show ?thesis by simp
  next
    case True
    show ?thesis
    proof (cases "is")
      case Nil
      with True mn [OF i] show ?thesis by (simp add: GetSize_of_nat)
    next
      case (Cons j js)
      have "0 < sz i + sz j" "sz i + sz j < 2147483648"
        using \<open>nbytes (i # is) < _\<close> i Cons by simp_all
      from mn [OF this] mn [OF i] True Cons show ?thesis
        by (simp add: GetSize_of_nat)
    qed
  qed
qed

lemma nodes_ok_swap: "nodes_ok (is @ i # js) n \<Longrightarrow> node i' = node i \<Longrightarrow> nodes_ok (is @ i' # js) n"
  by (simp add: nodes_ok_def)

lemma set_item_at:
  assumes "nodes_ok (pre @ it # rest @ app) n" "node it' = node it"
  shows "set_item it' (pre @ it # rest) = pre @ it' # rest"
proof -
  have "\<forall>j \<in> set (pre @ rest). node j \<noteq> node it"
    using assms(1) unfolding nodes_ok_def by (auto simp: image_iff)
  then show ?thesis
    using assms(2) by (auto simp: set_item_def intro!: map_idI)
qed

text \<open>Changing the fields of an item that the invariant does not constrain, or the retransmission flag.\<close>

lemma sacked_from_swap:
  "sz i' = sz i \<Longrightarrow> node i' = node i \<Longrightarrow> m_sacked i' = m_sacked i \<Longrightarrow>
    sacked_from n k (pre @ i' # post) \<longleftrightarrow> sacked_from n k (pre @ i # post)"
  by (simp add: sacked_from_append)

lemma highest_ok_swap:
  assumes "sz i' = sz i" "node i' = node i" "m_sacked i' = m_sacked i"
  shows "highest_ok hs f (pre @ i' # post) \<longleftrightarrow> highest_ok hs f (pre @ i # post)"
proof -
  have "sacked_from n k (pre @ i' # post) = sacked_from n k (pre @ i # post)" for n k
    by (rule sacked_from_swap [OF assms])
  moreover have "nbytes (pre @ i' # post) = nbytes (pre @ i # post)"
    using assms by simp
  ultimately show ?thesis unfolding highest_ok_def by (simp only:)
qed

definition tx_frame :: "tx_buffer \<Rightarrow> tx_buffer \<Rightarrow> bool" where
  "tx_frame b b' \<longleftrightarrow> b' = b\<lparr>m_appList := m_appList b', m_sentList := m_sentList b',
     m_sentSize := m_sentSize b', m_retransOut := m_retransOut b', next_node := next_node b'\<rparr>"

text \<open>A segment as the buffer hands it out: its place and its bytes.\<close>

definition segment_at :: "nat \<Rightarrow> nat \<Rightarrow> tx_buffer \<Rightarrow> tx_item \<Rightarrow> tx_buffer \<Rightarrow> bool" where
  "segment_at k n b it b' \<longleftrightarrow>
     (\<exists>pre rest. m_sentList b' = pre @ it # rest \<and> nbytes pre = k) \<and>
     m_startSeq it = m_firstByteSeq b + of_nat k \<and> 0 < sz it \<and> sz it \<le> n \<and>
     m_packet it = take (sz it) (drop k (stream b))"

lemma GetTransmittedSegment_ok:
  assumes inv: "tx_inv b" and n: "0 < n" "k + n \<le> nbytes (m_sentList b)"
    and g: "GetTransmittedSegment (of_nat n) (m_firstByteSeq b + of_nat k) b = Some (it, b')"
    and s: "\<not> m_sacked it"
  shows "tx_inv b' \<and> tx_frame b b' \<and> stream b' = stream b \<and> m_retrans it \<and> segment_at k n b it b' \<and>
    m_appList b' = m_appList b \<and> m_sentSize b' = m_sentSize b"
proof -
  have w: "nbytes (m_sentList b) < 2147483648" using tx_inv_bound [OF inv] by simp
  have ne: "nonempty (m_sentList b)" and ok: "list_all item_ok (m_sentList b)" and at: "list_at True (m_firstByteSeq b) (m_sentList b) b"
    using inv w tx_inv_data [OF inv] by (simp_all add: tx_inv_def list_at_def tx_data_def)
  obtain m where m: "retransmit_size (m_firstByteSeq b + of_nat k) (of_nat n) (m_sentList b) = of_nat m"
      "0 < m" "m \<le> n"
    using retransmit_size_le [OF ne w n(1), of "m_firstByteSeq b + of_nat k"] n(2) w by auto
  obtain l jt b1 where j: "GetPacketFromList True (m_sentList b) (m_firstByteSeq b) (of_nat m)
        (m_firstByteSeq b + of_nat k) b = Some (l, jt, b1)"
      and r: "it = jt\<lparr>m_retrans := True\<rparr>"
      "b' = b1\<lparr>m_retransOut := (if m_retrans jt then m_retransOut b1 else m_retransOut b1 + GetSize (m_packet jt)),
               m_sentList := (if m_retrans jt then l else set_item it l)\<rparr>"
    using g m(1) by (auto simp: GetTransmittedSegment_def Let_def split: Option.bind_splits if_splits)
  note q = get_at [OF at ne m(2) _ j] m(3) n(2)
  then obtain pre rest where l: "l = pre @ jt # rest" "nbytes pre = k" and sz: "sz jt = m"
      and e: "edits (m_sacked jt) (edit_state_of (m_sentList b) b) (edit_state_of l b1)"
      and f: "same_frame b b1"
    by auto
  have e': "edits False (edit_state_of (m_sentList b) b) (edit_state_of l b1)"
    using e s r by simp
  have nodes: "nodes_ok (l @ m_appList b) (next_node b1)"
    using nodes_ok_edits [OF e, of "[]" "m_appList b"] inv by (simp add: tx_inv_def)
  have sent: "m_sentList b' = pre @ it # rest"
    using set_item_at [of pre jt rest "m_appList b" "next_node b1" it] nodes r l by simp
  have ct: "contiguous (m_firstByteSeq b) l" and bs: "bytes_of l = bytes_of (m_sentList b)"
    using edits_contiguous [OF e] edits_bytes [OF e] inv by (simp_all add: tx_inv_def)
  obtain nn rr where b1: "b1 = b\<lparr>next_node := nn, m_retransOut := rr\<rparr>"
    using f unfolding same_frame_def by blast
  have it: "sz it = sz jt" "node it = node jt" "m_sacked it = m_sacked jt" "m_lost it = m_lost jt"
      "m_packet it = m_packet jt" "m_startSeq it = m_startSeq jt" "m_retrans it"
    by (simp_all add: r(1))
  define L where "L = pre @ it # rest"
  have r1: "rr = of_nat (flagged m_retrans l)"
    using edits_retrans [OF e] inv b1 by (simp add: tx_inv_def)
  then have b': "b' = b\<lparr>next_node := nn, m_sentList := L, m_retransOut := of_nat (flagged m_retrans L)\<rparr>"
    using sent r(2) b1 it by (auto simp: L_def l GetSize_of_nat add.commute)
  have L: "list_all item_ok L" "contiguous (m_firstByteSeq b) L" "nbytes L = nbytes l"
      "flagged m_sacked L = flagged m_sacked l" "flagged m_lost L = flagged m_lost l"
      "nodes_ok (L @ m_appList b) nn" "highest_ok hs f L \<longleftrightarrow> highest_ok hs f l" for hs f
    using edits_item_ok [OF e ok] ct nodes it highest_ok_swap [of it jt] b1
    by (simp_all add: L_def l item_ok_def nodes_ok_def)
  have "tx_inv b'"
    using inv L edits_flagged [OF e] edits_nbytes [OF e]
      highest_ok_edits [OF e', of "m_highestSack b" "m_firstByteSeq b"]
    by (simp add: tx_inv_def b')
  moreover have "stream b' = stream b"
    using bs it by (simp add: stream_def b' L_def l)
  moreover have "m_packet it = take (sz it) (drop k (stream b))"
  proof -
    have "stream b = bytes_of pre @ m_packet it @ bytes_of rest @ bytes_of (m_appList b)"
      using bs it by (simp add: stream_def l(1) flip: bs)
    then show ?thesis by (simp flip: l(2))
  qed
  moreover have "m_startSeq it = m_firstByteSeq b + of_nat k"
    using ct it l by simp
  ultimately show ?thesis
    using sent l m sz it by (auto simp: segment_at_def tx_frame_def b')
qed

end
