(* ===== verification/TxCopySpec.thy ===== *)
theory TxCopySpec
  imports TxInv
begin

text \<open>
  \<open>CopyFromSequence\<close> on a buffer that satisfies the invariant: which of its branches is taken in
  terms of the offset asked for, what it returns, and that the stream of bytes never changes.
\<close>

definition copy_finish :: "int \<Rightarrow> tx_item \<times> tx_buffer \<Rightarrow> (tx_item option \<times> tx_buffer) option" where
  "copy_finish now r =
     (let item' = (fst r)\<lparr>m_lastSent := now\<rparr> in
      if seq_ge (m_startSeq item') (m_firstByteSeq (snd r))
      then Some (Some item', (snd r)\<lparr>m_sentList := set_item item' (m_sentList (snd r))\<rparr>)
      else None)"

lemma seq_size:
  assumes "tx_data b" "k \<le> nbytes (m_sentList b) + nbytes (m_appList b)"
  shows "SizeFromSequence (m_firstByteSeq b + of_nat k) b =
    of_nat (nbytes (m_sentList b) + nbytes (m_appList b) - k)"
proof -
  let ?t = "nbytes (m_sentList b) + nbytes (m_appList b)"
  have w: "?t < 2147483648" "k < 2147483648" using tx_data_bound [OF assms(1)] assms(2) by simp_all
  have t: "TailSequence b = m_firstByteSeq b + of_nat ?t"
    using assms(1) by (simp add: TailSequence_def tx_data_def)
  show ?thesis
    unfolding SizeFromSequence_def Let_def t seq_ge_window [OF w] seq_diff_window [OF w]
    using assms(2) by (simp add: of_nat_diff)
qed

lemma min_of_nat: "n < 4294967296 \<Longrightarrow> min (x :: uint32) (of_nat n) = of_nat (min (unat x) n)"
  by (auto simp: min_def word_le_nat_alt unat_of_nat32)

text \<open>The branches, by offset.\<close>

lemma copy_branches_data:
  assumes inv: "tx_data b" and k: "k \<le> nbytes (m_sentList b) + nbytes (m_appList b)"
    and m: "m = min (unat numBytes) (nbytes (m_sentList b) + nbytes (m_appList b) - k)"
  defines "s \<equiv> nbytes (m_sentList b)" and "sq \<equiv> m_firstByteSeq b + of_nat k"
    and "sentEnd \<equiv> m_firstByteSeq b + m_sentSize b"
  shows "CopyFromSequence now numBytes sq b =
    (if m = 0 then Some (None, b)
     else if k + m \<le> s
     then do {
       r \<leftarrow> GetTransmittedSegment (of_nat m) sq b;
       if \<not> m_sacked (fst r) then copy_finish now r else None
     }
     else if s \<le> k
     then if s = k
       then do {
         r \<leftarrow> GetNewSegment (of_nat m) b;
         if \<not> m_retrans (fst r) then copy_finish now r else None
       }
       else None
     else if sq < sentEnd \<and> sentEnd < sq + of_nat m then CopyFromSequence now (of_nat (s - k)) sq b
     else None)"
proof -
  have w: "nbytes (m_sentList b) + nbytes (m_appList b) < 2147483648" using tx_data_bound [OF inv] .
  then have "m < 2147483648" "k + m < 2147483648" "s < 2147483648" "k < 2147483648"
    using m k by (simp_all add: s_def)
  note b = this
  have mn: "min numBytes (SizeFromSequence sq b) = of_nat m"
    unfolding sq_def seq_size [OF inv k] using min_of_nat w m by simp
  have z: "(of_nat m :: uint32) = 0 \<longleftrightarrow> m = 0"
    using b of_nat32_eq [of m 0] by simp
  have e: "sentEnd = m_firstByteSeq b + of_nat s"
    using inv by (simp add: sentEnd_def s_def tx_data_def)
  have sm: "sq + of_nat m = m_firstByteSeq b + of_nat (k + m)"
    by (simp add: sq_def)
  have c: "\<not> seq_gt (m_firstByteSeq b) sq" "seq_ge sentEnd (sq + of_nat m) \<longleftrightarrow> k + m \<le> s"
      "seq_le sentEnd sq \<longleftrightarrow> s \<le> k" "sentEnd = sq \<longleftrightarrow> s = k"
    unfolding sm e using b by (simp_all only: sq_def ns_seq not_less_zero not_False_eq_True)
  have d: "sentEnd - sq = of_nat (s - k)" if "k < s"
    using that by (simp add: e sq_def of_nat_diff)
  show ?thesis
    apply (subst CopyFromSequence.simps)
    unfolding mn sentEnd_def [symmetric]
    using c z d
    by (auto simp: copy_finish_def Let_def not_le split: prod.split intro!: Option.bind_cong)
qed

lemmas copy_branches = copy_branches_data [OF tx_inv_data]

section \<open>What is handed out\<close>

lemma copy_finish_ok:
  assumes inv: "tx_inv b1" and r: "copy_finish now (it, b1) = Some (r, b2)"
    and l: "m_sentList b1 = pre @ it # rest"
  shows "r = Some (it\<lparr>m_lastSent := now\<rparr>) \<and> b2 = b1\<lparr>m_sentList := pre @ it\<lparr>m_lastSent := now\<rparr> # rest\<rparr> \<and> tx_inv b2"
proof -
  have n: "nodes_ok (pre @ it # rest @ m_appList b1) (next_node b1)"
    using inv l by (simp add: tx_inv_def)
  let ?it = "it\<lparr>m_lastSent := now\<rparr>"
  have b2: "r = Some ?it" "b2 = b1\<lparr>m_sentList := pre @ ?it # rest\<rparr>"
    using r set_item_at [OF n, of ?it] l by (auto simp: copy_finish_def Let_def split: if_splits)
  have "highest_ok hs f (pre @ ?it # rest) \<longleftrightarrow> highest_ok hs f (pre @ it # rest)" for hs f
    by (rule highest_ok_swap) simp_all
  moreover have "nodes_ok (pre @ ?it # rest @ m_appList b1) (next_node b1)"
    by (rule nodes_ok_swap [OF n]) simp
  ultimately have "tx_inv b2"
    using inv l unfolding b2 by (simp add: tx_inv_def item_ok_def)
  with b2 show ?thesis by simp
qed

lemma copy_finish_returns:
  assumes "tx_inv b1" "m_sentList b1 = pre @ it # rest"
  shows "\<exists>r. copy_finish now (it, b1) = Some r"
proof -
  have "nbytes pre < 2147483648"
    using tx_inv_bound [OF assms(1)] assms(2) by simp
  moreover have "m_startSeq it = m_firstByteSeq b1 + of_nat (nbytes pre)"
    using assms by (simp add: tx_inv_def)
  ultimately show ?thesis
    by (simp add: copy_finish_def Let_def ns_seq)
qed

definition copied :: "int \<Rightarrow> nat \<Rightarrow> nat \<Rightarrow> tx_buffer \<Rightarrow> tx_item \<Rightarrow> tx_buffer \<Rightarrow> bool" where
  "copied now k n b it b' \<longleftrightarrow>
     tx_inv b' \<and> tx_frame b b' \<and> stream b' = stream b \<and> segment_at k n b it b' \<and> \<not> m_sacked it \<and>
     m_lastSent it = now"

lemma tx_frame_sent: "tx_frame b b1 \<Longrightarrow> tx_frame b (b1\<lparr>m_sentList := l\<rparr>)"
  by (cases b; cases b1) (simp add: tx_frame_def)

lemma tx_frame_fields:
  "tx_frame b b' \<Longrightarrow> m_size b' = m_size b \<and> m_firstByteSeq b' = m_firstByteSeq b \<and>
    m_sackEnabled b' = m_sackEnabled b \<and> m_highestSack b' = m_highestSack b \<and>
    m_maxBuffer b' = m_maxBuffer b \<and> m_lostOut b' = m_lostOut b \<and> m_sackedOut b' = m_sackedOut b"
  by (cases b; cases b') (simp add: tx_frame_def)

lemma segment_touch:
  assumes seg: "segment_at k n b it b1" and fin: "copy_finish now (it, b1) = Some (r, b2)"
    and inv: "tx_inv b1" and fr: "tx_frame b b1" "stream b1 = stream b" "\<not> m_sacked it"
  shows "\<exists>it'. r = Some it' \<and> copied now k n b it' b2 \<and> sz it' = sz it \<and> m_retrans it' = m_retrans it \<and>
    m_sentSize b2 = m_sentSize b1 \<and> m_appList b2 = m_appList b1 \<and> length (m_sentList b2) = length (m_sentList b1)"
proof -
  obtain pre rest where l: "m_sentList b1 = pre @ it # rest" "nbytes pre = k"
    using seg by (auto simp: segment_at_def)
  let ?it = "it\<lparr>m_lastSent := now\<rparr>"
  have c: "r = Some ?it" "b2 = b1\<lparr>m_sentList := pre @ ?it # rest\<rparr>" "tx_inv b2"
    using copy_finish_ok [OF inv fin l(1)] by blast+
  have "tx_frame b b2"
    using fr(1) unfolding c(2) by (rule tx_frame_sent)
  moreover have "stream b2 = stream b"
    using fr(2) l(1) by (simp add: stream_def c(2))
  moreover have "segment_at k n b ?it b2"
    using seg l by (auto simp: segment_at_def c(2))
  ultimately have "copied now k n b ?it b2"
    using c(3) fr(3) by (simp add: copied_def)
  then show ?thesis
    using l(1) by (intro exI [of _ ?it]) (simp add: c(1,2))
qed


lemma new_segment_at:
  assumes inv: "tx_inv b" and n: "0 < n" "n \<le> nbytes (m_appList b)"
  shows "\<exists>it b'. GetNewSegment (of_nat n) b = Some (it, b') \<and> tx_inv b' \<and> tx_frame b b' \<and>
    stream b' = stream b \<and> segment_at (nbytes (m_sentList b)) n b it b' \<and> fresh_item it \<and> sz it = n \<and>
    m_sentList b' = m_sentList b @ [it] \<and> bytes_of (m_appList b) = m_packet it @ bytes_of (m_appList b') \<and>
    m_sentSize b' = m_sentSize b + of_nat n"
proof -
  obtain it app b' where g: "GetNewSegment (of_nat n) b = Some (it, b')" "tx_inv b'" "sz it = n"
      "fresh_item it" "m_startSeq it = m_firstByteSeq b + of_nat (nbytes (m_sentList b))"
      "bytes_of (m_appList b) = m_packet it @ bytes_of app"
      and b': "b' = b\<lparr>m_appList := app, m_sentList := m_sentList b @ [it],
        m_sentSize := m_sentSize b + of_nat n, next_node := next_node b'\<rparr>"
    using GetNewSegment_ok [OF inv n] by blast
  then obtain nn where b'': "b' = b\<lparr>m_appList := app, m_sentList := m_sentList b @ [it],
        m_sentSize := m_sentSize b + of_nat n, next_node := nn\<rparr>" by blast
  have st: "stream b = bytes_of (m_sentList b) @ m_packet it @ bytes_of app"
    by (simp add: stream_def g(6))
  have "segment_at (nbytes (m_sentList b)) n b it b'"
    using g n(1) by (auto simp: segment_at_def b'' st)
  moreover have "stream b' = stream b" by (simp add: st) (simp add: stream_def b'')
  moreover have "tx_frame b b'" by (simp add: tx_frame_def b'')
  ultimately show ?thesis
    using g by (auto simp: b'')
qed

lemma copied_mono: "copied now k m b it b' \<Longrightarrow> m \<le> n \<Longrightarrow> copied now k n b it b'"
  by (auto simp: copied_def segment_at_def)

lemma copy_old:
  assumes inv: "tx_inv b" and m: "0 < m" "k + m \<le> nbytes (m_sentList b)"
    and c: "(do {
       r \<leftarrow> GetTransmittedSegment (of_nat m) (m_firstByteSeq b + of_nat k) b;
       if \<not> m_sacked (fst r) then copy_finish now r else None
     }) = Some (r, b')"
  shows "\<exists>it. r = Some it \<and> copied now k m b it b' \<and> m_retrans it \<and>
    m_appList b' = m_appList b \<and> m_sentSize b' = m_sentSize b"
proof -
  from c obtain it b1 where t: "GetTransmittedSegment (of_nat m) (m_firstByteSeq b + of_nat k) b = Some (it, b1)"
      "\<not> m_sacked it" "copy_finish now (it, b1) = Some (r, b')"
    by (auto split: Option.bind_splits if_splits)
  note ok = GetTransmittedSegment_ok [OF inv m t(1,2)]
  have "\<exists>it'. r = Some it' \<and> copied now k m b it' b' \<and> sz it' = sz it \<and> m_retrans it' = m_retrans it \<and>
      m_sentSize b' = m_sentSize b1 \<and> m_appList b' = m_appList b1 \<and> length (m_sentList b') = length (m_sentList b1)"
    using ok t by (intro segment_touch) simp_all
  with ok show ?thesis by auto
qed

lemma copy_new:
  assumes inv: "tx_inv b" and m: "0 < m" "m \<le> nbytes (m_appList b)"
  shows "\<exists>it b'. (do {
       r \<leftarrow> GetNewSegment (of_nat m) b;
       if \<not> m_retrans (fst r) then copy_finish now r else None
     }) = Some (Some it, b') \<and> copied now (nbytes (m_sentList b)) m b it b' \<and> sz it = m \<and>
     length (m_sentList b') = Suc (length (m_sentList b)) \<and>
     bytes_of (m_appList b) = m_packet it @ bytes_of (m_appList b') \<and> m_sentSize b' = m_sentSize b + of_nat m"
proof -
  obtain it b1 where g: "GetNewSegment (of_nat m) b = Some (it, b1)" "tx_inv b1" "tx_frame b b1"
      "stream b1 = stream b" "segment_at (nbytes (m_sentList b)) m b it b1" "fresh_item it" "sz it = m"
      "m_sentList b1 = m_sentList b @ [it]" "bytes_of (m_appList b) = m_packet it @ bytes_of (m_appList b1)"
      "m_sentSize b1 = m_sentSize b + of_nat m"
    using new_segment_at [OF inv m] by blast
  have f: "\<not> m_sacked it" "\<not> m_retrans it" using g(6) by (simp_all add: fresh_item_def)
  obtain r b2 where c: "copy_finish now (it, b1) = Some (r, b2)"
    using copy_finish_returns [OF g(2,8)] by fastforce
  obtain it' where i: "r = Some it'" "copied now (nbytes (m_sentList b)) m b it' b2" "sz it' = sz it"
      "m_sentSize b2 = m_sentSize b1" "m_appList b2 = m_appList b1"
      "length (m_sentList b2) = length (m_sentList b1)"
    using segment_touch [OF g(5) c g(2,3,4) f(1)] by blast
  have "m_packet it' = m_packet it"
    using i(2,3) g(5) by (simp add: copied_def segment_at_def)
  with g f c i show ?thesis by (intro exI [of _ it'] exI [of _ b2]) simp
qed

text \<open>Whatever a call returns, the invariant and the stream are kept.\<close>

theorem copy_returns_copied:
  assumes inv: "tx_inv b" and k: "k \<le> nbytes (m_sentList b) + nbytes (m_appList b)"
    and c: "CopyFromSequence now numBytes (m_firstByteSeq b + of_nat k) b = Some (r, b')"
  shows "case r of
      None \<Rightarrow> b' = b \<and> (numBytes = 0 \<or> k = nbytes (m_sentList b) + nbytes (m_appList b))
    | Some it \<Rightarrow> copied now k (unat numBytes) b it b'"
proof -
  let ?s = "nbytes (m_sentList b)" and ?t = "nbytes (m_sentList b) + nbytes (m_appList b)"
  have straight: "case r of None \<Rightarrow> b' = b \<and> (numBytes = 0 \<or> k = ?t)
    | Some it \<Rightarrow> copied now k (unat numBytes) b it b'"
    if c: "CopyFromSequence now numBytes (m_firstByteSeq b + of_nat k) b = Some (r, b')"
      and p: "\<not> (k < ?s \<and> ?s < k + min (unat numBytes) (?t - k))" for numBytes
  proof -
    let ?m = "min (unat numBytes) (?t - k)"
    consider "?m = 0" | "0 < ?m" "k + ?m \<le> ?s" | "0 < ?m" "\<not> k + ?m \<le> ?s" "?s \<le> k"
      using p by linarith
    then show ?thesis
    proof cases
      case 1
      with c copy_branches [OF inv k refl, of now numBytes] k show ?thesis
        by (auto simp: min_def unat_eq_0 split: if_splits)
    next
      case 2
      with c copy_branches [OF inv k refl, of now numBytes]
      have "(do {
          r \<leftarrow> GetTransmittedSegment (of_nat ?m) (m_firstByteSeq b + of_nat k) b;
          if \<not> m_sacked (fst r) then copy_finish now r else None
        }) = Some (r, b')" by simp
      from copy_old [OF inv 2 this] show ?thesis
        by (auto elim!: copied_mono)
    next
      case 3
      with c copy_branches [OF inv k refl, of now numBytes]
      have e: "?s = k" and "(do {
          r \<leftarrow> GetNewSegment (of_nat ?m) b;
          if \<not> m_retrans (fst r) then copy_finish now r else None
        }) = Some (r, b')" by (auto split: if_splits)
      with copy_new [OF inv 3(1), of now] show ?thesis
        by (auto elim!: copied_mono)
    qed
  qed
  show ?thesis
  proof (cases "k < ?s \<and> ?s < k + min (unat numBytes) (?t - k)")
    case False
    with straight [OF c] show ?thesis .
  next
    case True
    then have n0: "numBytes \<noteq> 0" "?s - k \<le> unat numBytes" by (auto simp: min_def split: if_splits)
    have c': "CopyFromSequence now (of_nat (?s - k)) (m_firstByteSeq b + of_nat k) b = Some (r, b')"
      using c copy_branches [OF inv k refl, of now numBytes] True by (auto split: if_splits)
    have u: "unat (of_nat (?s - k) :: uint32) = ?s - k"
      using tx_inv_bound [OF inv] by (intro unat_of_nat32) simp
    have "case r of None \<Rightarrow> b' = b \<and> (of_nat (?s - k) = (0 :: uint32) \<or> k = ?t)
        | Some it \<Rightarrow> copied now k (unat (of_nat (?s - k) :: uint32)) b it b'"
      by (rule straight [OF c']) (simp add: u)
    moreover have "of_nat (?s - k) \<noteq> (0 :: uint32)" "k \<noteq> ?t"
      using True u by auto
    ultimately show ?thesis
      unfolding u using n0(2) by (auto split: option.splits elim: copied_mono)
  qed
qed

end
