(* ===== verification/TxOps.thy ===== *)
theory TxOps
  imports TxCopySpec
begin

text \<open>
  The operations of \<open>TcpTxBuffer\<close> that change flags and counters, and \<open>Add\<close>: each keeps the
  invariant and the stream of bytes.
\<close>

section \<open>Application data\<close>

lemma Add_ok:
  assumes inv: "tx_inv b" and p: "length p < 4294967296"
  shows "if nbytes (m_sentList b) + nbytes (m_appList b) + length p \<le> unat (m_maxBuffer b)
    then fst (Add p b) \<and> tx_inv (snd (Add p b)) \<and> stream (snd (Add p b)) = stream b @ p \<and>
      m_sentList (snd (Add p b)) = m_sentList b
    else Add p b = (False, b)"
proof -
  let ?t = "nbytes (m_sentList b) + nbytes (m_appList b)"
  have t: "?t \<le> unat (m_maxBuffer b)" "m_size b = of_nat ?t" "?t < 2147483648"
    using inv tx_inv_bound [OF inv] by (simp_all add: tx_inv_def)
  have "unat (m_size b) = ?t"
    unfolding t(2) using t(3) by (intro unat_of_nat32) simp
  then have av: "unat (Available b) = unat (m_maxBuffer b) - ?t"
    unfolding Available_def using t(1) by (simp add: unat_minus32)
  have sz: "unat (GetSize p) = length p"
    unfolding GetSize_def using p by (intro unat_of_nat32) simp
  then have pos: "GetSize p > 0 \<longleftrightarrow> p \<noteq> []"
    by (auto simp: word_less_nat_alt)
  have le: "GetSize p \<le> Available b \<longleftrightarrow> ?t + length p \<le> unat (m_maxBuffer b)"
    unfolding word_le_nat_alt av sz using t(1) by auto
  show ?thesis
  proof (cases "?t + length p \<le> unat (m_maxBuffer b)")
    case False
    then show ?thesis unfolding le [symmetric] by (simp add: Add_def)
  next
    case True
    then have a: "Add p b = (True, if p \<noteq> [] then b\<lparr>m_appList := m_appList b @ [new_item (next_node b) p],
        m_size := m_size b + GetSize p, next_node := next_node b + 1\<rparr> else b)"
      unfolding le [symmetric] using pos by (simp add: Add_def)
    have "tx_inv (snd (Add p b))"
    proof (cases "p = []")
      case False
      have "\<forall>i \<in> set (m_sentList b) \<union> set (m_appList b). node i < next_node b"
        using inv by (simp add: tx_inv_def nodes_ok_def)
      then have "next_node b \<notin> node ` (set (m_sentList b) \<union> set (m_appList b))"
        by (metis imageE less_irrefl)
      then have "nodes_ok (m_sentList b @ m_appList b @ [new_item (next_node b) p]) (Suc (next_node b))"
        using inv by (auto simp: nodes_ok_def new_item_def tx_inv_def less_Suc_eq)
      with inv False True show ?thesis
        unfolding a by (simp add: tx_inv_def new_item_def fresh_item_def GetSize_def add.assoc)
    next
      case True
      with inv show ?thesis unfolding a by simp
    qed
    with a True show ?thesis by (simp add: stream_def new_item_def)
  qed
qed

section \<open>Operations that change flags only\<close>

text \<open>What such an operation leaves of an item: its node, its bytes and its place.\<close>

definition skel :: "tx_item list \<Rightarrow> (nat \<times> packet \<times> seq32) list" where
  "skel is = map (\<lambda>i. (node i, m_packet i, m_startSeq i)) is"

lemma skel_simps [simp]:
  "skel [] = []" "skel (i # is) = (node i, m_packet i, m_startSeq i) # skel is"
  "skel (is @ js) = skel is @ skel js"
  by (simp_all add: skel_def)

lemma skel_eq:
  assumes "skel is = skel js"
  shows "nbytes is = nbytes js" "bytes_of is = bytes_of js" "contiguous s is \<longleftrightarrow> contiguous s js"
    "nodes_ok (is @ app) n \<longleftrightarrow> nodes_ok (js @ app) n"
proof -
  have p: "map m_packet is = map m_packet js" "map node is = map node js"
    using arg_cong [OF assms, of "map (fst \<circ> snd)"] arg_cong [OF assms, of "map fst"]
    by (simp_all add: skel_def comp_def)
  show "nbytes is = nbytes js"
    using arg_cong [OF p(1), of "map length"] by (simp add: nbytes_def comp_def)
  show "bytes_of is = bytes_of js" by (simp add: bytes_of_def p)
  show "contiguous s is \<longleftrightarrow> contiguous s js"
    using assms
  proof (induction "is" arbitrary: js s)
    case (Cons i "is")
    then obtain j js' where "js = j # js'" "skel is = skel js'" "m_packet i = m_packet j"
        "m_startSeq i = m_startSeq j"
      by (cases js) auto
    with Cons.IH show ?case by simp
  qed (simp add: skel_def)
  have "(\<forall>i \<in> set is. node i < n) \<longleftrightarrow> (\<forall>x \<in> set (map node is). x < n)" for "is" by simp
  then show "nodes_ok (is @ app) n \<longleftrightarrow> nodes_ok (js @ app) n"
    unfolding nodes_ok_def by (metis map_append p(2))
qed

definition same_rest :: "tx_buffer \<Rightarrow> tx_buffer \<Rightarrow> bool" where
  "same_rest b b' \<longleftrightarrow> m_appList b' = m_appList b \<and> m_firstByteSeq b' = m_firstByteSeq b \<and>
     m_size b' = m_size b \<and> m_sentSize b' = m_sentSize b \<and> m_maxBuffer b' = m_maxBuffer b \<and>
     next_node b' = next_node b"

text \<open>The counters of a buffer are the sums over the items of a list.\<close>

definition counts :: "tx_buffer \<Rightarrow> tx_item list \<Rightarrow> bool" where
  "counts b is \<longleftrightarrow> m_lostOut b = of_nat (flagged m_lost is) \<and>
     m_sackedOut b = of_nat (flagged m_sacked is) \<and> m_retransOut b = of_nat (flagged m_retrans is)"

lemma tx_inv_counts: "tx_inv b \<Longrightarrow> counts b (m_sentList b)"
  by (simp add: tx_inv_def counts_def)

lemma tx_inv_flags:
  assumes "tx_inv b" "same_rest b b'" "skel (m_sentList b') = skel (m_sentList b)"
    and "list_all item_ok (m_sentList b')" "counts b' (m_sentList b')"
    and "highest_ok (m_highestSack b') (m_firstByteSeq b) (m_sentList b')"
  shows "tx_inv b'" "stream b' = stream b"
  using assms skel_eq [OF assms(3)] by (simp_all add: tx_inv_def same_rest_def stream_def counts_def)

text \<open>Changing the flags of the head: the iterator to the highest SACK never points to it.\<close>

lemma highest_ok_head:
  assumes "highest_ok hs f (h # t)" "sz h' = sz h"
  shows "highest_ok hs f (h' # t)"
proof -
  have "sacked_from n k (h' # t) \<longleftrightarrow> sacked_from n k (h # t)" if "0 < k" for n k
    using that assms(2) by simp
  with assms show ?thesis
    unfolding highest_ok_def by (simp split: prod.splits item_it.splits) blast
qed

lemma highest_ok_End [simp]: "highest_ok (EndIt, s) f is"
  by (simp add: highest_ok_def)

lemma highest_ok_at:
  "0 < k \<Longrightarrow> k \<le> nbytes is \<Longrightarrow> sacked_from n k is \<Longrightarrow> highest_ok (AtNode n, f + of_nat k) f is"
  by (auto simp: highest_ok_def)

lemma MarkHeadAsLost_ok:
  assumes inv: "tx_inv b"
  shows "tx_inv (MarkHeadAsLost b)" "stream (MarkHeadAsLost b) = stream b"
    "same_rest b (MarkHeadAsLost b)" "m_highestSack (MarkHeadAsLost b) = m_highestSack b"
    "m_sentList b = h # t \<Longrightarrow>
      m_sentList (MarkHeadAsLost b) = h\<lparr>m_sacked := False, m_retrans := False, m_lost := True\<rparr> # t"
proof -
  show rest: "same_rest b (MarkHeadAsLost b)" and hs: "m_highestSack (MarkHeadAsLost b) = m_highestSack b"
    by (auto simp: MarkHeadAsLost_def same_rest_def Let_def split: list.splits)
  show sent: "m_sentList b = h # t \<Longrightarrow>
      m_sentList (MarkHeadAsLost b) = h\<lparr>m_sacked := False, m_retrans := False, m_lost := True\<rparr> # t" for h t
    by (simp add: MarkHeadAsLost_def Let_def)
  have "tx_inv (MarkHeadAsLost b) \<and> stream (MarkHeadAsLost b) = stream b"
  proof (cases "m_sentList b")
    case Nil
    with inv show ?thesis by (simp add: MarkHeadAsLost_def)
  next
    case (Cons h t)
    have "counts (MarkHeadAsLost b) (m_sentList (MarkHeadAsLost b))"
      using tx_inv_counts [OF inv] Cons
      by (auto simp: counts_def MarkHeadAsLost_def Let_def GetSize_def)
    moreover have "highest_ok (m_highestSack b) (m_firstByteSeq b) (m_sentList (MarkHeadAsLost b))"
      using inv highest_ok_head [of _ _ h t] unfolding sent [OF Cons] by (simp add: tx_inv_def Cons)
    ultimately show ?thesis
      using tx_inv_flags [OF inv rest] hs sent [OF Cons] inv Cons
      by (simp add: tx_inv_def item_ok_def)
  qed
  then show "tx_inv (MarkHeadAsLost b)" "stream (MarkHeadAsLost b) = stream b" by blast+
qed

lemma reno_walk_None: "reno_walk is = (is', None) \<Longrightarrow> is' = is \<and> (\<forall>i \<in> set is. m_sacked i)"
  by (induction "is" arbitrary: is') (auto split: prod.splits if_splits)

lemma reno_walk_Some:
  "reno_walk is = (is', Some i) \<Longrightarrow>
    \<exists>pre j post. is = pre @ j # post \<and> \<not> m_sacked j \<and> i = j\<lparr>m_sacked := True\<rparr> \<and>
      is' = pre @ i # post \<and> (\<forall>x \<in> set pre. m_sacked x)"
proof (induction "is" arbitrary: is')
  case (Cons x xs)
  show ?case
  proof (cases "m_sacked x")
    case True
    then obtain ys where "reno_walk xs = (ys, Some i)" "is' = x # ys"
      using Cons.prems by (auto split: prod.splits)
    with Cons.IH obtain pre j post where "xs = pre @ j # post" "\<not> m_sacked j" "i = j\<lparr>m_sacked := True\<rparr>"
        "ys = pre @ i # post" "\<forall>x \<in> set pre. m_sacked x" by blast
    with True \<open>is' = x # ys\<close> show ?thesis by (intro exI [of _ "x # pre"]) auto
  next
    case False
    with Cons.prems show ?thesis by (intro exI [of _ "[]"]) auto
  qed
qed simp

text \<open>
  The first item that is not sacked, which is the one a duplicate acknowledgement marks, is not lost.
\<close>

definition reno_clean :: "tx_item list \<Rightarrow> bool" where
  "reno_clean is = (case dropWhile m_sacked is of [] \<Rightarrow> True | i # _ \<Rightarrow> \<not> m_lost i)"

lemma reno_clean_at: "reno_clean (pre @ j # post) \<longleftrightarrow> \<not> m_lost j" if "\<forall>x \<in> set pre. m_sacked x" "\<not> m_sacked j"
proof -
  have "dropWhile m_sacked (pre @ j # post) = dropWhile m_sacked (j # post)" using that(1) by (simp add: dropWhile_append2)
  with that(2) show ?thesis by (simp add: reno_clean_def)
qed

lemma AddRenoSack_cases:
  assumes "AddRenoSack b = Some b'"
  obtains h t where "m_sentList b = h # t" "b' = b\<lparr>m_renoSack := True\<rparr>" "reno_clean t"
  | h pre j post where "m_sentList b = h # pre @ j # post" "\<not> m_sacked j" "\<forall>x \<in> set pre. m_sacked x"
      "b' = b\<lparr>m_renoSack := True, m_sentList := h # pre @ j\<lparr>m_sacked := True\<rparr> # post,
        m_sackedOut := m_sackedOut b + GetSize (m_packet j), m_highestSack := (AtNode (node j), m_startSeq j)\<rparr>"
proof -
  obtain h t where l: "m_sentList b = h # t"
    using assms by (cases "m_sentList b") (auto simp: AddRenoSack_def split: if_splits)
  obtain t' q where w: "reno_walk t = (t', q)" by fastforce
  show ?thesis
  proof (cases q)
    case None
    then have "b' = b\<lparr>m_renoSack := True\<rparr>" using assms l w by (auto simp: AddRenoSack_def split: if_splits)
    moreover have "dropWhile m_sacked t = []" using w None reno_walk_None [of t t'] by simp
    then have "reno_clean t" unfolding reno_clean_def by (simp only: list.case)
    ultimately show ?thesis using that(1) l by blast
  next
    case (Some i)
    with w obtain pre j post where t: "t = pre @ j # post" "\<not> m_sacked j" "i = j\<lparr>m_sacked := True\<rparr>"
        "t' = pre @ i # post" "\<forall>x \<in> set pre. m_sacked x" using reno_walk_Some by blast
    have "b' = b\<lparr>m_renoSack := True, m_sentList := h # t', m_sackedOut := m_sackedOut b + GetSize (m_packet i),
        m_highestSack := (AtNode (node i), m_startSeq i)\<rparr>"
      using assms l w Some by (auto simp: AddRenoSack_def split: if_splits)
    with t l that(2) show ?thesis by simp
  qed
qed

text \<open>\<open>AddRenoSack\<close> marks the first item after the head that is not sacked.\<close>

lemma AddRenoSack_ok:
  assumes inv: "tx_inv b" and r: "AddRenoSack b = Some b'"
    and no_lost: "reno_clean (tl (m_sentList b))"
  shows "tx_inv b' \<and> stream b' = stream b \<and> same_rest b b' \<and> m_sentList b \<noteq> [] \<and>
    hd (m_sentList b') = hd (m_sentList b) \<and> length (m_sentList b') = length (m_sentList b)"
  using r
proof (cases rule: AddRenoSack_cases)
  case (1 h t)
  with inv show ?thesis by (simp add: tx_inv_def stream_def same_rest_def)
next
  case (2 h pre j post)
  let ?i = "j\<lparr>m_sacked := True\<rparr>"
  have ok: "item_ok h" "item_ok j" "\<not> m_lost j"
    using inv 2 no_lost reno_clean_at [of pre j post] by (auto simp: tx_inv_def)
  have "sacked_from (node j) (nbytes (h # pre)) (h # pre @ ?i # post)" by (simp add: sacked_from_append)
  moreover have st: "m_startSeq j = m_firstByteSeq b + of_nat (nbytes (h # pre))"
    using inv 2(1) by (simp add: tx_inv_def add.assoc)
  moreover have "0 < nbytes (h # pre)" "nbytes (h # pre) \<le> nbytes (h # pre @ ?i # post)"
    using ok by (auto simp: item_ok_def)
  ultimately have "highest_ok (AtNode (node j), m_startSeq j) (m_firstByteSeq b) (h # pre @ ?i # post)"
    unfolding st by (intro highest_ok_at)
  moreover have "counts b' (m_sentList b')"
    using tx_inv_counts [OF inv] 2(1,2) by (simp add: 2(4) counts_def GetSize_def)
  moreover have "same_rest b b'" by (simp add: 2(4) same_rest_def)
  moreover have "list_all item_ok (m_sentList b')" "skel (m_sentList b') = skel (m_sentList b)"
    using inv 2(1) ok by (simp_all add: 2(4) tx_inv_def item_ok_def)
  ultimately show ?thesis
    using tx_inv_flags [OF inv, of b'] 2(1) by (simp add: 2(4))
qed

section \<open>Resets\<close>

lemma ResetRenoSack_ok:
  assumes inv: "tx_inv b"
  shows "tx_inv (ResetRenoSack b)" "stream (ResetRenoSack b) = stream b"
proof -
  let ?f = "\<lambda>i. i\<lparr>m_sacked := False\<rparr>"
  have l: "list_all item_ok is \<Longrightarrow> list_all item_ok (map ?f is)" "skel (map ?f is) = skel is"
    "flagged m_lost (map ?f is) = flagged m_lost is" "flagged m_retrans (map ?f is) = flagged m_retrans is"
    "flagged m_sacked (map ?f is) = 0" for "is"
    by (induction "is") (auto simp: item_ok_def)
  have "counts (ResetRenoSack b) (m_sentList (ResetRenoSack b))"
    using tx_inv_counts [OF inv] by (simp add: counts_def ResetRenoSack_def l)
  then show "tx_inv (ResetRenoSack b)" "stream (ResetRenoSack b) = stream b"
    using tx_inv_flags [OF inv, of "ResetRenoSack b"] inv
    by (simp_all add: ResetRenoSack_def same_rest_def l tx_inv_def)
qed

lemma DeleteRetransmittedFlagFromHead_ok:
  assumes inv: "tx_inv b" and r: "DeleteRetransmittedFlagFromHead b = Some b'"
  shows "tx_inv b' \<and> stream b' = stream b"
proof (cases "b' = b")
  case True
  with inv show ?thesis by simp
next
  case False
  with r obtain h t where h: "m_sentList b = h # t" "m_retrans h"
      and b': "b' = b\<lparr>m_sentList := h\<lparr>m_retrans := False\<rparr> # t,
        m_retransOut := m_retransOut b - GetSize (m_packet h)\<rparr>"
    by (auto simp: DeleteRetransmittedFlagFromHead_def split: list.splits if_splits)
  have "highest_ok (m_highestSack b) (m_firstByteSeq b) (m_sentList b')"
    using inv highest_ok_head [of _ _ h t] by (simp add: tx_inv_def h b')
  moreover have "counts b' (m_sentList b')"
    using tx_inv_counts [OF inv] h by (simp add: b' counts_def GetSize_def)
  ultimately show ?thesis
    using tx_inv_flags [OF inv, of b'] inv h by (simp add: b' same_rest_def tx_inv_def item_ok_def)
qed

end
