(* ===== verification/TxSack.thy ===== *)
theory TxSack
  imports TxOps
begin

text \<open>
  The SACK update, the loss marks after it and the timeout's \<open>SetSentListLost\<close> keep the invariant;
  the reset of the sent list moves the items back without losing a byte.
\<close>

section \<open>Items up to the loss and retransmission flags\<close>

definition sskel :: "tx_item list \<Rightarrow> (nat \<times> packet \<times> seq32 \<times> bool) list" where
  "sskel is = map (\<lambda>i. (node i, m_packet i, m_startSeq i, m_sacked i)) is"

lemma sskel_simps [simp]:
  "sskel [] = []" "sskel (i # is) = (node i, m_packet i, m_startSeq i, m_sacked i) # sskel is"
  "sskel (is @ js) = sskel is @ sskel js" "sskel (rev is) = rev (sskel is)"
  by (simp_all add: sskel_def rev_map)

lemma sskel_skel: "sskel is = sskel js \<Longrightarrow> skel is = skel js"
proof (induction "is" arbitrary: js)
  case (Cons i "is")
  then obtain j js' where "js = j # js'" "sskel is = sskel js'" "node i = node j"
      "m_packet i = m_packet j" "m_startSeq i = m_startSeq j"
    by (cases js) auto
  with Cons.IH [of js'] show ?case by simp
qed (simp add: sskel_def)

lemma sskel_sacked:
  assumes "sskel is = sskel js"
  shows "sacked_from n k is \<longleftrightarrow> sacked_from n k js" "flagged m_sacked is = flagged m_sacked js"
proof -
  have "(sacked_from n k is \<longleftrightarrow> sacked_from n k js) \<and> flagged m_sacked is = flagged m_sacked js"
    using assms
  proof (induction "is" arbitrary: js k)
    case (Cons i "is")
    then obtain j js' where "js = j # js'" "sskel is = sskel js'" "m_packet i = m_packet j"
        "m_sacked i = m_sacked j" "node i = node j"
      by (cases js) auto
    with Cons.IH show ?case by simp
  qed (simp add: sskel_def)
  then show "sacked_from n k is \<longleftrightarrow> sacked_from n k js" "flagged m_sacked is = flagged m_sacked js"
    by blast+
qed

lemma highest_ok_sskel:
  assumes "sskel is = sskel js"
  shows "highest_ok hs f is \<longleftrightarrow> highest_ok hs f js"
  unfolding highest_ok_def sskel_sacked(1) [OF assms] skel_eq(1) [OF sskel_skel [OF assms]] ..

section \<open>Timeouts\<close>

lemma lose_items_reset:
  "lose_items True is n = (is', n') \<Longrightarrow> skel is' = skel is \<and> n' = n \<and> flagged m_sacked is' = 0 \<and>
    flagged m_lost is' = nbytes is \<and> flagged m_retrans is' = 0 \<and> (list_all item_ok is \<longrightarrow> list_all item_ok is')"
  by (induction "is" arbitrary: n is' n') (fastforce simp: item_ok_def split: prod.splits)+

lemma lose_items_keep:
  "lose_items False is n = (is', n') \<Longrightarrow> sskel is' = sskel is \<and> n' = n + of_nat (flagged m_lost is') \<and>
    flagged m_retrans is' = 0 \<and> (list_all item_ok is \<longrightarrow> list_all item_ok is') \<and>
    (\<forall>i \<in> set is'. m_lost i \<or> m_sacked i)"
proof (induction "is" arbitrary: n is' n')
  case (Cons i "is")
  define m where "m = (if m_lost i \<or> \<not> m_sacked i then n + GetSize (m_packet i) else n)"
  obtain js n2 where r: "lose_items False is m = (js, n2)" by fastforce
  have e: "is' = i\<lparr>m_lost := m_lost i \<or> \<not> m_sacked i, m_retrans := False\<rparr> # js" "n' = n2"
    using Cons.prems r by (cases i; auto simp: m_def split: if_splits prod.splits)+
  from Cons.IH [OF r] show ?case
    unfolding e m_def by (auto simp: item_ok_def GetSize_def)
qed simp

lemma SetSentListLost_ok:
  assumes inv: "tx_inv b"
  shows "\<exists>b'. SetSentListLost resetSack b = Some b' \<and> tx_inv b' \<and> stream b' = stream b \<and>
    m_retransOut b' = 0 \<and> (\<forall>i \<in> set (m_sentList b'). m_lost i \<or> m_sacked i) \<and>
    (resetSack \<longrightarrow> m_lostOut b' = m_sentSize b' \<and> m_sackedOut b' = 0)"
proof -
  define b' where "b' = (let (is', n) = lose_items resetSack (m_sentList b) (if resetSack then m_sentSize b else 0)
    in b\<lparr>m_retransOut := 0, m_sackedOut := (if resetSack then 0 else m_sackedOut b),
      m_highestSack := (if resetSack then (EndIt, 0) else m_highestSack b), m_sentList := is', m_lostOut := n\<rparr>)"
  obtain is' n where l: "lose_items resetSack (m_sentList b) (if resetSack then m_sentSize b else 0) = (is', n)"
    by fastforce
  have b': "m_sentList b' = is'" "m_lostOut b' = n" "same_rest b b'" "m_retransOut b' = 0"
      "m_sackedOut b' = (if resetSack then 0 else m_sackedOut b)"
      "m_highestSack b' = (if resetSack then (EndIt, 0) else m_highestSack b)"
    by (simp_all add: b'_def l same_rest_def)
  have ok: "list_all item_ok (m_sentList b)" "m_sentSize b = of_nat (nbytes (m_sentList b))"
    using inv by (simp_all add: tx_inv_def)
  have "tx_inv b' \<and> stream b' = stream b \<and> (\<forall>i \<in> set is'. m_lost i \<or> m_sacked i)"
  proof (cases resetSack)
    case True
    with l have "lose_items True (m_sentList b) (m_sentSize b) = (is', n)" by simp
    note i = lose_items_reset [OF this]
    have "\<forall>i \<in> set is'. m_lost i"
    proof (rule ccontr)
      assume "\<not> ?thesis"
      then obtain i where "i \<in> set is'" "\<not> m_lost i" by blast
      then obtain as bs where "is' = as @ i # bs" by (meson split_list)
      moreover have "0 < sz i" using i ok \<open>i \<in> set is'\<close> by (auto simp: list_all_iff item_ok_def)
      ultimately have "flagged m_lost is' < nbytes is'"
        using \<open>\<not> m_lost i\<close> flagged_le [of m_lost as] flagged_le [of m_lost bs] by (simp del: length_greater_0_conv)
      with i skel_eq(1) [of is' "m_sentList b"] show False by simp
    qed
    moreover have "counts b' is'" using i ok True by (simp add: counts_def b')
    ultimately show ?thesis
      using tx_inv_flags [OF inv b'(3)] i ok True by (simp add: b')
  next
    case False
    with l have "lose_items False (m_sentList b) 0 = (is', n)" by simp
    note i = lose_items_keep [OF this]
    then have s: "sskel is' = sskel (m_sentList b)" by blast
    have "counts b' is'"
      using i False tx_inv_counts [OF inv] sskel_sacked(2) [OF s] by (simp add: counts_def b')
    moreover have "highest_ok (m_highestSack b) (m_firstByteSeq b) is'"
      using inv highest_ok_sskel [OF s] by (simp add: tx_inv_def)
    ultimately show ?thesis
      using tx_inv_flags [OF inv b'(3)] i ok False sskel_skel [OF s] by (simp add: b')
  qed
  moreover have "SetSentListLost resetSack b = Some b'"
    using tx_inv_counters [of b'] calculation b' l
    by (auto simp: SetSentListLost_def Let_def b'_def same_rest_def)
  moreover have "resetSack \<longrightarrow> m_lostOut b' = m_sentSize b' \<and> m_sackedOut b' = 0"
    using b' l lose_items_reset by (auto simp: same_rest_def)
  ultimately show ?thesis using b' by auto
qed

lemma renode_facts:
  "nbytes (renode n is) = nbytes is" "bytes_of (renode n is) = bytes_of is"
  "map node (renode n is) = [n..<n + length is]"
  "list_all fresh_item (renode n is) \<longleftrightarrow> list_all fresh_item is"
  by (induction n "is" rule: renode.induct)
    (simp_all add: fresh_item_def upt_conv_Cons del: upt_Suc)

lemma ResetSentList_ok:
  assumes inv: "tx_inv b"
  shows "tx_inv (ResetSentList b)" "stream (ResetSentList b) = stream b"
proof -
  let ?f = "\<lambda>i. i\<lparr>m_retrans := False, m_sacked := False, m_lost := False\<rparr>"
  have f: "nbytes (map ?f is) = nbytes is" "bytes_of (map ?f is) = bytes_of is"
      "list_all item_ok is \<Longrightarrow> list_all fresh_item (map ?f is)" for "is"
    by (induction "is") (simp_all add: fresh_item_def item_ok_def)
  let ?new = "renode (next_node b) (map ?f (m_sentList b))"
  have s: "node ` set ?new = {next_node b..<next_node b + length (m_sentList b)}"
    using arg_cong [OF renode_facts(3), of set "next_node b" "map ?f (m_sentList b)"] by simp
  have a: "distinct (map node (m_appList b))" "\<forall>i \<in> set (m_appList b). node i < next_node b"
    using inv by (auto simp: tx_inv_def nodes_ok_def)
  have "nodes_ok (?new @ m_appList b) (next_node b + length (m_sentList b))"
    unfolding nodes_ok_def
  proof (intro conjI ballI)
    have "node ` set ?new \<inter> node ` set (m_appList b) = {}"
      unfolding s using a(2) by fastforce
    then show "distinct (map node (?new @ m_appList b))"
      using a(1) s by (simp add: renode_facts(3))
    fix i assume "i \<in> set (?new @ m_appList b)"
    then consider "node i \<in> node ` set ?new" | "i \<in> set (m_appList b)" by auto
    then show "node i < next_node b + length (m_sentList b)"
      using a(2) unfolding s by cases auto
  qed
  with inv show "tx_inv (ResetSentList b)" "stream (ResetSentList b) = stream b"
    by (simp_all add: ResetSentList_def tx_inv_def stream_def renode_facts f)
qed

end
