(* ===== verification/TxUpdate.thy ===== *)
theory TxUpdate
  imports TxSack
begin

text \<open>
  \<open>Update\<close>: the walk over one block marks exactly the items that lie inside it, the counters follow,
  and with blocks above \<open>SND.UNA\<close> no assertion of the function can fail.
\<close>

section \<open>One block\<close>

text \<open>The buffer fields that the walk does not touch.\<close>

definition score_frame :: "tx_buffer \<Rightarrow> tx_buffer \<Rightarrow> bool" where
  "score_frame b b' \<longleftrightarrow> b' = b\<lparr>m_lostOut := m_lostOut b', m_sackedOut := m_sackedOut b',
     m_highestSack := m_highestSack b'\<rparr>"

lemma score_frame_rest:
  "score_frame b b' \<Longrightarrow> same_rest b b' \<and> m_sentList b' = m_sentList b \<and> m_retransOut b' = m_retransOut b \<and>
    m_dupAckThresh b' = m_dupAckThresh b"
  unfolding score_frame_def same_rest_def by (cases b; cases b') simp

text \<open>The item that is marked, and the buffer after it.\<close>

definition sacked_item :: "tx_item \<Rightarrow> tx_item" where
  "sacked_item i = i\<lparr>m_lost := False, m_sacked := True\<rparr>"

definition sacked_buffer :: "seq32 \<Rightarrow> bool \<Rightarrow> tx_item \<Rightarrow> tx_buffer \<Rightarrow> tx_buffer" where
  "sacked_buffer begin at_end i b =
     b\<lparr>m_lostOut := (if m_lost i then m_lostOut b - GetSize (m_packet i) else m_lostOut b),
       m_sackedOut := m_sackedOut b + GetSize (m_packet i),
       m_highestSack := (if at_end \<or> seq_le (snd (m_highestSack b)) (begin + GetSize (m_packet i))
         then (AtNode (node i), begin) else m_highestSack b)\<rparr>"

definition in_block :: "seq32 \<times> seq32 \<Rightarrow> seq32 \<Rightarrow> tx_item \<Rightarrow> bool" where
  "in_block blk begin i \<longleftrightarrow> seq_ge begin (fst blk) \<and> seq_le (begin + GetSize (m_packet i)) (snd blk)"

lemma sack_block_Cons:
  "sack_block blk begin (i # is) b =
     (if in_block blk begin i
      then if m_sacked i
        then if m_lost i then None
          else map_option (\<lambda>(is', r). (i # is', r)) (sack_block blk (begin + GetSize (m_packet i)) is b)
        else (case it_is_end (fst (m_highestSack b)) of
            None \<Rightarrow> None
          | Some e \<Rightarrow>
              map_option (\<lambda>(is', cbs, n, b'). (sacked_item i # is', sacked_item i # cbs, GetSize (m_packet i) + n, b'))
                (sack_block blk (begin + GetSize (m_packet i)) is (sacked_buffer begin e i b)))
      else if seq_gt (begin + GetSize (m_packet i)) (snd blk) then Some (i # is, [], 0, b)
      else map_option (\<lambda>(is', r). (i # is', r)) (sack_block blk (begin + GetSize (m_packet i)) is b))"
proof -
  let ?g = "GetSize (m_packet i)"
  have keep: "(do { (is', cbs, n, b') \<leftarrow> x; Some (i # is', cbs, n, b') }) = map_option (\<lambda>(is', r). (i # is', r)) x" for x :: "(tx_item list \<times> tx_item list \<times> uint32 \<times> tx_buffer) option"
    by (cases x) auto
  have mark: "(do { (is', cbs, n, b') \<leftarrow> x; Some (j # is', j # cbs, ?g + n, b') }) =
      map_option (\<lambda>(is', cbs, n, b'). (j # is', j # cbs, ?g + n, b')) x" for j and x :: "(tx_item list \<times> tx_item list \<times> uint32 \<times> tx_buffer) option"
    by (cases x) auto
  show ?thesis
  proof (cases "in_block blk begin i \<and> \<not> m_sacked i")
    case True
    then have c: "seq_ge begin (fst blk) \<and> seq_le (begin + ?g) (snd blk)" "\<not> m_sacked i" "in_block blk begin i"
      by (simp_all add: in_block_def)
    show ?thesis
    proof (cases "it_is_end (fst (m_highestSack b))")
      case None
      with c show ?thesis by (cases "m_lost i") (simp_all add: Let_def)
    next
      case (Some e)
      with c show ?thesis
        by (cases "m_lost i") (simp_all add: Let_def mark sacked_item_def sacked_buffer_def)
    qed
  next
    case False
    then show ?thesis
      by (cases "m_sacked i") (auto simp: in_block_def keep Let_def)
  qed
qed

lemmas [simp del] = sack_block.simps(2)

text \<open>What the walk over the rest of the list does, after the items \<open>pre\<close>.\<close>

lemma highest_ok_mono:
  assumes "highest_ok hs f is" "nbytes is' = nbytes is"
    and "\<And>n k. sacked_from n k is \<Longrightarrow> sacked_from n k is'"
  shows "highest_ok hs f is'"
  using assms by (auto simp: highest_ok_def split: prod.splits item_it.splits)

lemma sacked_buffer_ok:
  assumes c: "counts b (pre @ i # is)" and "\<not> m_sacked i"
    and h: "highest_ok (m_highestSack b) f (pre @ i # is)"
  shows "counts (sacked_buffer (f + of_nat (nbytes pre)) e i b) (pre @ sacked_item i # is)"
    "highest_ok (m_highestSack (sacked_buffer (f + of_nat (nbytes pre)) e i b)) f (pre @ sacked_item i # is)"
proof -
  show "counts (sacked_buffer (f + of_nat (nbytes pre)) e i b) (pre @ sacked_item i # is)"
    using assms(1,2) by (auto simp: counts_def sacked_buffer_def sacked_item_def GetSize_def)
  have m: "sacked_from n k (pre @ i # is) \<Longrightarrow> sacked_from n k (pre @ sacked_item i # is)" for n k
    using assms(2) by (auto simp: sacked_from_append sacked_item_def)
  have new: "highest_ok (AtNode (node i), f + of_nat (nbytes pre)) f (pre @ sacked_item i # is)"
  proof (cases "nbytes pre = 0")
    case True
    then show ?thesis by (simp add: highest_ok_def seq_le_def seq_gt_def)
  next
    case False
    then show ?thesis
      by (intro highest_ok_at) (simp_all add: sacked_from_append sacked_item_def)
  qed
  have "highest_ok (m_highestSack b) f (pre @ sacked_item i # is)"
    by (rule highest_ok_mono [OF h _ m]) (simp_all add: sacked_item_def)
  with new show "highest_ok (m_highestSack (sacked_buffer (f + of_nat (nbytes pre)) e i b)) f (pre @ sacked_item i # is)"
    by (simp add: sacked_buffer_def)
qed

lemma score_frame_simps [simp]: "score_frame b b" "score_frame (sacked_buffer s e i b) b' \<longleftrightarrow> score_frame b b'"
  by (simp_all add: score_frame_def sacked_buffer_def)

lemma sack_block_ok:
  assumes "sack_block blk (f + of_nat (nbytes pre)) is b = Some (is', cbs, n, b')"
    and "counts b (pre @ is)" "highest_ok (m_highestSack b) f (pre @ is)" "list_all item_ok is"
  shows "skel is' = skel is \<and> list_all item_ok is' \<and> counts b' (pre @ is') \<and>
    highest_ok (m_highestSack b') f (pre @ is') \<and> score_frame b b'"
  using assms
proof (induction "is" arbitrary: pre is' cbs n b)
  case Nil
  then show ?case by simp
next
  case (Cons i "is")
  have next_begin: "f + of_nat (nbytes pre) + GetSize (m_packet i) = f + of_nat (nbytes (pre @ [i]))"
    by (simp add: GetSize_def)
  have i: "item_ok i" "list_all item_ok is" using Cons.prems(4) by simp_all
  have same: "skel (i # js) = skel (i # is) \<and> list_all item_ok (i # js) \<and> counts b' (pre @ i # js) \<and>
      highest_ok (m_highestSack b') f (pre @ i # js) \<and> score_frame b b'"
    if "sack_block blk (f + of_nat (nbytes (pre @ [i]))) is b = Some (js, cbs, n, b')" for js cbs n
    using Cons.IH [OF that] Cons.prems i by simp
  show ?case
  proof (cases "in_block blk (f + of_nat (nbytes pre)) i \<and> \<not> m_sacked i")
    case False
    then consider js where "is' = i # js"
        "sack_block blk (f + of_nat (nbytes (pre @ [i]))) is b = Some (js, cbs, n, b')"
      | "is' = i # is" "b' = b"
      using Cons.prems(1) unfolding sack_block_Cons next_begin by (auto split: if_splits)
    then show ?thesis
      using same Cons.prems i by cases auto
  next
    case True
    let ?j = "sacked_item i"
    have nb: "nbytes (pre @ [?j]) = nbytes (pre @ [i])" by (simp add: sacked_item_def)
    from True Cons.prems(1) obtain e js cs m where r: "is' = ?j # js"
        "sack_block blk (f + of_nat (nbytes (pre @ [?j]))) is
          (sacked_buffer (f + of_nat (nbytes pre)) e i b) = Some (js, cs, m, b')"
      unfolding sack_block_Cons next_begin nb by (auto split: option.splits)
    have "counts (sacked_buffer (f + of_nat (nbytes pre)) e i b) ((pre @ [?j]) @ is)"
        "highest_ok (m_highestSack (sacked_buffer (f + of_nat (nbytes pre)) e i b)) f ((pre @ [?j]) @ is)"
      using sacked_buffer_ok [OF Cons.prems(2) _ Cons.prems(3)] True by simp_all
    from Cons.IH [OF r(2) this i(2)] i(1) r(1) show ?thesis
      by (simp add: sacked_item_def item_ok_def)
  qed
qed


lemma sack_block_inv:
  assumes inv: "tx_inv b" and r: "sack_block blk (m_firstByteSeq b) (m_sentList b) b = Some (is', cbs, n, b1)"
  shows "tx_inv (b1\<lparr>m_sentList := is'\<rparr>)" "stream (b1\<lparr>m_sentList := is'\<rparr>) = stream b"
    "same_rest b (b1\<lparr>m_sentList := is'\<rparr>)" "m_dupAckThresh b1 = m_dupAckThresh b"
proof -
  have k: "skel is' = skel (m_sentList b)" "list_all item_ok is'" "counts b1 is'"
      "highest_ok (m_highestSack b1) (m_firstByteSeq b) is'" "score_frame b b1"
    using sack_block_ok [of blk "m_firstByteSeq b" "[]" "m_sentList b" b is' cbs n b1] r
      tx_inv_counts [OF inv] inv by (simp_all add: tx_inv_def)
  show same: "same_rest b (b1\<lparr>m_sentList := is'\<rparr>)" and "m_dupAckThresh b1 = m_dupAckThresh b"
    using score_frame_rest [OF k(5)] by (simp_all add: same_rest_def)
  show "tx_inv (b1\<lparr>m_sentList := is'\<rparr>)" "stream (b1\<lparr>m_sentList := is'\<rparr>) = stream b"
    using tx_inv_flags [OF inv same] k by (simp_all add: counts_def)
qed

lemma same_rest_trans: "same_rest a b \<Longrightarrow> same_rest b c \<Longrightarrow> same_rest a c"
  by (simp add: same_rest_def)

lemma sack_blocks_inv:
  assumes "sack_blocks blks b = Some (cbs, n, early, b')" "tx_inv b"
  shows "tx_inv b' \<and> stream b' = stream b \<and> same_rest b b'"
  using assms
proof (induction blks arbitrary: b cbs n)
  case Nil
  then show ?case by (simp add: same_rest_def)
next
  case (Cons blk blks)
  show ?case
  proof (cases "seq_lt (m_firstByteSeq b + m_sentSize b) (fst blk)")
    case True
    with Cons.prems show ?thesis by (simp add: same_rest_def)
  next
    case False
    with Cons.prems(1) obtain is' c1 n1 b1 c2 n2 where
        r: "sack_block blk (m_firstByteSeq b) (m_sentList b) b = Some (is', c1, n1, b1)"
        "sack_blocks blks (b1\<lparr>m_sentList := is'\<rparr>) = Some (c2, n2, early, b')"
      by (auto split: Option.bind_splits)
    note i = sack_block_inv [OF Cons.prems(2) r(1)]
    from Cons.IH [OF r(2) i(1)] i(2) same_rest_trans [OF i(3)] show ?thesis by simp
  qed
qed

section \<open>The loss marks\<close>

lemma lost_walk_ok:
  "lost_walk th is s l = (is', s', l') \<Longrightarrow> sskel is' = sskel is \<and>
    flagged m_retrans is' = flagged m_retrans is \<and>
    l' + of_nat (flagged m_lost is) = l + of_nat (flagged m_lost is') \<and>
    (list_all item_ok is \<longrightarrow> list_all item_ok is')"
proof (induction "is" arbitrary: s l is' s' l')
  case (Cons i "is")
  define s1 where "s1 = (if m_sacked i then s + 1 else s)"
  define c where "c \<longleftrightarrow> s1 \<ge> th \<and> \<not> m_sacked i \<and> \<not> m_lost i"
  define l1 where "l1 = (if c then l + GetSize (m_packet i) else l)"
  obtain js s2 l2 where r: "lost_walk th is s1 l1 = (js, s2, l2)" by (metis prod_cases3)
  have e: "is' = (if c then i\<lparr>m_lost := True\<rparr> else i) # js" "l' = l2"
    using Cons.prems r by (auto simp: s1_def [symmetric] c_def [symmetric] l1_def Let_def split: if_splits)
  from Cons.IH [OF r] show ?case
    unfolding e l1_def by (auto simp: c_def item_ok_def GetSize_def algebra_simps)
qed simp

lemma upto_node_split:
  assumes "upto_node n (h # t) = (low, high)"
  shows "low = h # tl low \<and> (h # t) = low @ high"
proof -
  let ?d = "dropWhile (\<lambda>i. node i \<noteq> n) (h # t)"
  have "(takeWhile (\<lambda>i. node i \<noteq> n) (h # t) @ take 1 ?d) @ drop 1 ?d = h # t"
    by (metis append.assoc append_take_drop_id takeWhile_dropWhile_id)
  with assms show ?thesis by (auto simp: upto_node_def Let_def split: if_splits)
qed

lemma UpdateLostCount_cases:
  assumes "UpdateLostCount b = Some b'"
  obtains "m_sentList b = []" "b' = b"
  | h low high w s l c where "m_sentList b = h # low @ high"
    "lost_walk (m_dupAckThresh b) (rev low) 0 (m_lostOut b) = (w, s, l)" "c \<longrightarrow> \<not> m_lost h"
    "b' = b\<lparr>m_sentList := (if c then h\<lparr>m_lost := True\<rparr> else h) # rev w @ high,
       m_lostOut := (if c then l + GetSize (m_packet h) else l)\<rparr>"
proof (cases "m_sentList b")
  case Nil
  with assms have "b' = b" by (auto simp: UpdateLostCount_def split: item_it.splits if_splits)
  with Nil that(1) show ?thesis by blast
next
  case (Cons h t)
  then obtain n where n: "fst (m_highestSack b) = AtNode n"
    using assms by (auto simp: UpdateLostCount_def split: item_it.splits)
  obtain low high where u: "upto_node n (h # t) = (low, high)" by fastforce
  obtain w s l where lw: "lost_walk (m_dupAckThresh b) (rev (tl low)) 0 (m_lostOut b) = (w, s, l)"
    by (metis prod_cases3)
  have t: "m_sentList b = h # tl low @ high"
    using upto_node_split [OF u] Cons by (metis append_Cons)
  show ?thesis
  proof (rule that(2) [OF t lw])
    show "s \<ge> m_dupAckThresh b \<and> \<not> m_lost h \<longrightarrow> \<not> m_lost h" by blast
    show "b' = b\<lparr>m_sentList := (if s \<ge> m_dupAckThresh b \<and> \<not> m_lost h then h\<lparr>m_lost := True\<rparr> else h) # rev w @ high,
        m_lostOut := (if s \<ge> m_dupAckThresh b \<and> \<not> m_lost h then l + GetSize (m_packet h) else l)\<rparr>"
      using assms by (auto simp: UpdateLostCount_def Cons n u lw split: if_splits)
  qed
qed

lemma UpdateLostCount_sskel:
  assumes "UpdateLostCount b = Some b'"
  shows "sskel (m_sentList b') = sskel (m_sentList b)"
  using assms
proof (cases rule: UpdateLostCount_cases)
  case (2 h low high w s l c)
  have "sskel (rev w) = sskel low"
    using lost_walk_ok [OF 2(2)] by (metis rev_rev_ident sskel_simps(4))
  then show ?thesis by (simp add: 2)
qed simp

lemma UpdateLostCount_ok:
  assumes inv: "tx_inv b" and r: "UpdateLostCount b = Some b'"
    and unsacked: "\<not> m_sacked (hd (m_sentList b))"
  shows "tx_inv b' \<and> stream b' = stream b \<and> same_rest b b' \<and> m_highestSack b' = m_highestSack b"
  using r
proof (cases rule: UpdateLostCount_cases)
  case 1
  with inv show ?thesis by (simp add: same_rest_def)
next
  case (2 h low high w s l c)
  note sk = UpdateLostCount_sskel [OF r] and wk = lost_walk_ok [OF 2(2)]
  have "l = m_lostOut b + of_nat (flagged m_lost w) - of_nat (flagged m_lost low)"
    using wk by (simp add: eq_diff_eq)
  moreover have "flagged m_sacked w = flagged m_sacked low"
    using sskel_sacked(2) [of w "rev low"] wk by simp
  ultimately have "counts b' (m_sentList b')"
    using tx_inv_counts [OF inv] wk 2 by (auto simp: counts_def GetSize_def)
  moreover have "list_all item_ok (m_sentList b')"
    using inv wk unsacked by (auto simp: 2 tx_inv_def item_ok_def)
  moreover have "same_rest b b'" "m_highestSack b' = m_highestSack b"
    by (simp_all add: 2 same_rest_def)
  ultimately show ?thesis
    using tx_inv_flags [OF inv, of b'] sskel_skel [OF sk] highest_ok_sskel [OF sk] inv
    by (simp add: tx_inv_def)
qed

lemma sskel_hd: "sskel is = sskel js \<Longrightarrow> is \<noteq> [] \<Longrightarrow> m_sacked (hd is) = m_sacked (hd js)"
  by (cases "is"; cases js) auto

lemma Update_ok:
  assumes inv: "tx_inv b" and r: "Update blks b = Some (n, cbs, b')"
  shows "tx_inv b' \<and> stream b' = stream b \<and> same_rest b b'"
proof -
  obtain early b1 where s: "sack_blocks blks b = Some (cbs, n, early, b1)"
    using r by (auto simp: Update_def split: Option.bind_splits if_splits)
  note i = sack_blocks_inv [OF s inv]
  show ?thesis
  proof (cases "early \<or> n = 0")
    case True
    with r s have "b' = b1" by (auto simp: Update_def split: if_splits Option.bind_splits)
    with i show ?thesis by simp
  next
    case False
    then have u: "UpdateLostCount b1 = Some b'" "m_sentList b' \<noteq> []" "\<not> m_sacked (hd (m_sentList b'))"
      using r s by (auto simp: Update_def word_neq_0_conv split: if_splits Option.bind_splits)
    then have "\<not> m_sacked (hd (m_sentList b1))"
      using sskel_hd [OF UpdateLostCount_sskel [OF u(1)]] by simp
    with UpdateLostCount_ok [OF _ u(1)] i show ?thesis
      by (auto intro: same_rest_trans)
  qed
qed

end
