(* ===== verification/TxDiscard.thy ===== *)
theory TxDiscard
  imports TxUpdate
begin

text \<open>
  \<open>DiscardUpTo\<close> drops exactly the acknowledged bytes. Its loop is followed with the sequence number
  \<open>f0\<close> at which the call began and the number \<open>e\<close> of bytes dropped so far.
\<close>

section \<open>The highest SACK lies ahead\<close>

definition ahead :: "item_it \<times> seq32 \<Rightarrow> seq32 \<Rightarrow> bool" where
  "ahead hs f \<longleftrightarrow> (case hs of (AtNode n, s) \<Rightarrow> \<not> seq_le s f | _ \<Rightarrow> True)"

lemma ahead_End [simp]: "ahead (EndIt, s) f"
  by (simp add: ahead_def)

definition tracked :: "seq32 \<Rightarrow> nat \<Rightarrow> tx_buffer \<Rightarrow> bool" where
  "tracked f0 e b \<longleftrightarrow>
     m_firstByteSeq b = f0 + of_nat e \<and> e + nbytes (m_sentList b) + nbytes (m_appList b) < 2147483648 \<and>
     (\<forall>n s. m_highestSack b = (AtNode n, s) \<longrightarrow>
       (\<exists>k < 2147483648. s = f0 + of_nat k \<and>
         (e < k \<longrightarrow> k - e \<le> nbytes (m_sentList b) \<and> sacked_from n (k - e) (m_sentList b))))"

lemma tracked_start:
  assumes inv: "tx_inv b" and a: "ahead (m_highestSack b) (m_firstByteSeq b)"
  shows "tracked (m_firstByteSeq b) 0 b"
proof -
  have "\<exists>k < 2147483648. s = m_firstByteSeq b + of_nat k \<and>
      (0 < k \<longrightarrow> k \<le> nbytes (m_sentList b) \<and> sacked_from n k (m_sentList b))"
    if hs: "m_highestSack b = (AtNode n, s)" for n s
  proof -
    have "highest_ok (AtNode n, s) (m_firstByteSeq b) (m_sentList b)"
      using inv hs by (simp add: tx_inv_def)
    then obtain k where k: "k \<le> nbytes (m_sentList b)" "s = m_firstByteSeq b + of_nat k"
        "sacked_from n k (m_sentList b)"
      using a hs by (auto simp: highest_ok_def ahead_def)
    moreover from k(1) have "k < 2147483648" using tx_inv_bound [OF inv] by simp
    ultimately show ?thesis by blast
  qed
  with tx_inv_bound [OF inv] show ?thesis by (simp add: tracked_def)
qed

lemma tracked_highest:
  assumes t: "tracked f0 e b" and "fst (m_highestSack b) \<noteq> Singular"
  shows "highest_ok (m_highestSack b) (m_firstByteSeq b) (m_sentList b)"
proof (cases "m_highestSack b")
  case (Pair i s)
  show ?thesis
  proof (cases i)
    case (AtNode n)
    with t Pair obtain k where k: "k < 2147483648" "s = f0 + of_nat k"
        "e < k \<longrightarrow> k - e \<le> nbytes (m_sentList b) \<and> sacked_from n (k - e) (m_sentList b)"
      by (auto simp: tracked_def)
    have e: "e < 2147483648" "m_firstByteSeq b = f0 + of_nat e"
      using t by (simp_all add: tracked_def)
    show ?thesis
    proof (cases "e < k")
      case True
      then have "s = m_firstByteSeq b + of_nat (k - e)"
        by (simp add: k e of_nat_diff)
      moreover have "0 < k - e" using True by simp
      ultimately show ?thesis
        using True k(3) highest_ok_at [of "k - e" "m_sentList b" n] Pair AtNode by simp
    next
      case False
      then have "seq_le s (m_firstByteSeq b)"
        unfolding k(2) e(2) using k(1) e(1) by (simp add: seq_le_window)
      then show ?thesis using Pair AtNode by (simp add: highest_ok_def)
    qed
  qed (use assms Pair in \<open>auto simp: highest_ok_def\<close>)
qed

section \<open>Dropping bytes from the head\<close>

definition uncount :: "tx_item \<Rightarrow> nat \<Rightarrow> tx_buffer \<Rightarrow> tx_buffer" where
  "uncount i d b =
     b\<lparr>m_sackedOut := m_sackedOut b - (if m_sacked i then of_nat d else 0),
       m_retransOut := m_retransOut b - (if m_retrans i then of_nat d else 0),
       m_lostOut := m_lostOut b - (if m_lost i then of_nat d else 0)\<rparr>"

lemma RemoveFromCounts_ok:
  assumes c: "counts b (i # rest)" and d: "d \<le> sz i" "sz i + nbytes rest < 2147483648"
  shows "RemoveFromCounts i (of_nat d) b = Some (uncount i d b)"
proof -
  have le: "of_nat d \<le> (of_nat (flagged P (i # rest)) :: uint32)" if "P i" for P
    using that d flagged_le [of P rest] by (subst of_nat32_le) auto
  have "m_sacked i \<Longrightarrow> of_nat d \<le> m_sackedOut b" "m_retrans i \<Longrightarrow> of_nat d \<le> m_retransOut b"
      "m_lost i \<Longrightarrow> of_nat d \<le> m_lostOut b"
    using c le [of m_sacked] le [of m_retrans] le [of m_lost] unfolding counts_def by auto
  then show ?thesis
    by (auto simp: RemoveFromCounts_def uncount_def)
qed

text \<open>The first item without its first \<open>d\<close> bytes.\<close>

definition trim :: "nat \<Rightarrow> tx_item \<Rightarrow> tx_item list" where
  "trim d i = (if sz i \<le> d then []
     else [i\<lparr>m_packet := drop d (m_packet i), m_startSeq := m_startSeq i + of_nat d\<rparr>])"

definition drop_head :: "nat \<Rightarrow> tx_item \<Rightarrow> tx_item list \<Rightarrow> tx_buffer \<Rightarrow> tx_buffer" where
  "drop_head d i rest b =
     uncount i d (b\<lparr>m_sentList := trim d i @ rest, m_size := m_size b - of_nat d,
       m_sentSize := m_sentSize b - of_nat d, m_firstByteSeq := m_firstByteSeq b + of_nat d\<rparr>)"

lemma drop_head_ok:
  assumes inv: "tx_inv b" and l: "m_sentList b = i # rest" and d: "d \<le> sz i" and t: "tracked f0 e b"
  shows "tx_inv (drop_head d i rest b)" "tracked f0 (e + d) (drop_head d i rest b)"
    "stream (drop_head d i rest b) = drop d (stream b)"
proof -
  let ?b = "drop_head d i rest b"
  have nb: "nbytes (trim d i @ rest) = sz i + nbytes rest - d"
    using d by (auto simp: trim_def)
  have f: "flagged P (trim d i @ rest) = flagged P (i # rest) - (if P i then d else 0)"
    if "\<And>x y. P (i\<lparr>m_packet := x, m_startSeq := y\<rparr>) = P i" for P
    using d that by (auto simp: trim_def)
  have fl: "(if P i then d else 0) \<le> flagged P (i # rest)" for P using d by auto
  have c: "counts ?b (trim d i @ rest)"
    using tx_inv_counts [OF inv] f [of m_sacked] f [of m_lost] f [of m_retrans]
      fl [of m_sacked] fl [of m_lost] fl [of m_retrans]
    by (simp add: counts_def drop_head_def uncount_def l of_nat_diff del: flagged_simps)
  show tr: "tracked f0 (e + d) ?b"
  proof -
    have "\<exists>k < 2147483648. s = f0 + of_nat k \<and> (e + d < k \<longrightarrow>
        k - (e + d) \<le> nbytes (trim d i @ rest) \<and> sacked_from n (k - (e + d)) (trim d i @ rest))"
      if hs: "m_highestSack b = (AtNode n, s)" for n s
    proof -
      obtain k where k: "k < 2147483648" "s = f0 + of_nat k"
          "e < k \<longrightarrow> k - e \<le> sz i + nbytes rest \<and> sacked_from n (k - e) (i # rest)"
        using t hs l by (auto simp: tracked_def)
      have "k - (e + d) \<le> nbytes (trim d i @ rest) \<and> sacked_from n (k - (e + d)) (trim d i @ rest)"
        if "e + d < k"
      proof
        have "k - e \<le> sz i + nbytes rest" using k(3) that by simp
        then show "k - (e + d) \<le> nbytes (trim d i @ rest)"
          unfolding nb using d by linarith
        have "sacked_from n (k - e - sz i) rest" using that k(3) by auto
        then show "sacked_from n (k - (e + d)) (trim d i @ rest)"
          using d by (auto simp: trim_def)
      qed
      with k(1,2) show ?thesis by blast
    qed
    then show ?thesis
      using t l d nb by (auto simp: tracked_def drop_head_def uncount_def add.assoc)
  qed
  have ok: "list_all item_ok (trim d i @ rest)" "contiguous (m_firstByteSeq b + of_nat d) (trim d i @ rest)"
    using inv l d by (auto simp: tx_inv_def trim_def item_ok_def of_nat_diff add.assoc)
  have "nodes_ok (i # rest @ m_appList b) (next_node b)"
    using inv l by (simp add: tx_inv_def)
  then have n: "nodes_ok ((trim d i @ rest) @ m_appList b) (next_node b)"
    by (auto simp: nodes_ok_def trim_def)
  have "fst (m_highestSack b) \<noteq> Singular"
    using inv by (auto simp: tx_inv_def highest_ok_def split: prod.splits)
  then have "highest_ok (m_highestSack ?b) (m_firstByteSeq ?b) (m_sentList ?b)"
    using tracked_highest [OF tr] by (simp add: drop_head_def uncount_def)
  moreover have "sz i + nbytes rest + nbytes (m_appList b) - d \<le> unat (m_maxBuffer b)"
    using inv l by (intro le_trans [OF diff_le_self]) (simp add: tx_inv_def)
  ultimately show "tx_inv ?b"
    using inv c ok n nb d l
    by (simp add: tx_inv_def drop_head_def uncount_def counts_def of_nat_diff)
  show "stream ?b = drop d (stream b)"
    using d by (auto simp: stream_def drop_head_def uncount_def l trim_def)
qed


section \<open>The loop\<close>

fun drop_bytes :: "nat \<Rightarrow> tx_item list \<Rightarrow> tx_item list" where
  "drop_bytes d [] = []"
| "drop_bytes d (i # is) =
     (if d = 0 then i # is else if sz i \<le> d then drop_bytes (d - sz i) is else trim d i @ is)"

lemma drop_bytes_all: "nbytes is \<le> d \<Longrightarrow> list_all item_ok is \<Longrightarrow> drop_bytes d is = []"
  by (induction "is" arbitrary: d)
    (auto simp: item_ok_def simp flip: length_greater_0_conv simp del: length_greater_0_conv)

lemma drop_bytes_0 [simp]: "drop_bytes 0 is = is"
  by (cases "is") simp_all

text \<open>One round with an item at the front.\<close>

lemma discard_round:
  assumes inv: "tx_inv b" and l: "m_sentList b = i # rest" and d: "0 < d" "d < 2147483648"
  shows "discard_loop now (of_nat d) gone b =
    (if sz i \<le> d then discard_loop now (of_nat (d - sz i)) (gone @ [i]) (drop_head (sz i) i rest b)
     else Some (gone, drop_head d i rest b))"
proof -
  have T: "sz i + nbytes rest + nbytes (m_appList b) < 2147483648" "0 < sz i"
    using tx_inv_bound [OF inv] inv l by (auto simp: tx_inv_def item_ok_def)
  have sz: "m_size b = of_nat (nbytes (m_sentList b) + nbytes (m_appList b))"
    using inv by (simp add: tx_inv_def)
  have "0 < m_size b"
    unfolding sz using T l of_nat32_less [of 0 "nbytes (m_sentList b) + nbytes (m_appList b)"] by simp
  moreover have "(0 :: uint32) < of_nat d"
    using d of_nat32_less [of 0 d] by simp
  moreover have "m_startSeq i = m_firstByteSeq b"
    using inv l by (simp add: tx_inv_def)
  moreover have ge: "GetSize (m_packet i) \<le> (of_nat d :: uint32) \<longleftrightarrow> sz i \<le> d"
    unfolding GetSize_def using T d by (subst of_nat32_le) simp_all
  moreover have u: "unat (of_nat d :: uint32) = d"
    using d by (intro unat_of_nat32) simp
  moreover have cn: "counts (b\<lparr>m_sentList := x, m_size := y, m_sentSize := z, m_firstByteSeq := w\<rparr>) (i # rest)" for x y z w
    using tx_inv_counts [OF inv] l by (simp add: counts_def)
  moreover have cn2: "counts (b\<lparr>m_size := y, m_sentSize := z, m_firstByteSeq := w\<rparr>) (i # rest)" for y z w
    using tx_inv_counts [OF inv] l by (simp add: counts_def)
  moreover have "of_nat d - GetSize (m_packet i) = (of_nat (d - sz i) :: uint32)" if "sz i \<le> d"
    using that by (simp add: GetSize_def of_nat_diff)
  moreover have "uncount i (sz i) (b\<lparr>m_size := m_size b - of_nat (sz i), m_sentSize := m_sentSize b - of_nat (sz i),
        m_firstByteSeq := m_firstByteSeq b + of_nat (sz i)\<rparr>)\<lparr>m_sentList := rest\<rparr> = drop_head (sz i) i rest b"
    by (cases b) (simp add: drop_head_def uncount_def trim_def)
  moreover have "uncount i d (b\<lparr>m_sentList := i\<lparr>m_packet := drop d (m_packet i), m_startSeq := m_startSeq i + of_nat d\<rparr> # rest,
        m_size := m_size b - of_nat d, m_sentSize := m_sentSize b - of_nat d,
        m_firstByteSeq := m_firstByteSeq b + of_nat d\<rparr>) = drop_head d i rest b" if "\<not> sz i \<le> d"
    using that by (simp add: drop_head_def trim_def)
  ultimately show ?thesis
    using RemoveFromCounts_ok [OF cn2, of "sz i"] RemoveFromCounts_ok [OF cn, of d] T(1)
    apply (subst discard_loop.simps)
    by (auto simp: l GetSize_def Let_def)
qed


abbreviation tx_total :: "tx_buffer \<Rightarrow> nat" where
  "tx_total b \<equiv> nbytes (m_sentList b) + nbytes (m_appList b)"

lemma size_pos: "tx_inv b \<Longrightarrow> 0 < m_size b \<longleftrightarrow> 0 < tx_total b"
  using tx_inv_bound [of b] of_nat32_less [of 0 "tx_total b"] by (auto simp: tx_inv_def)

text \<open>A round that begins with an empty sent list first moves application data there.\<close>

lemma discard_refill:
  assumes inv: "tx_inv b" and t: "tracked f0 e b" and l: "m_sentList b = []" "0 < tx_total b"
    and d: "0 < d" "d < 2147483648"
  shows "\<exists>it b1. discard_loop now (of_nat d) gone b = discard_loop now (of_nat d) gone b1 \<and>
    tx_inv b1 \<and> tracked f0 e b1 \<and> stream b1 = stream b \<and> m_sentList b1 = [it] \<and> sz it = min d (tx_total b) \<and>
    m_sackEnabled b1 = m_sackEnabled b \<and> m_highestSack b1 = m_highestSack b"
proof -
  let ?m = "min d (tx_total b)"
  have u: "unat (of_nat d :: uint32) = d" using d by (intro unat_of_nat32) simp
  have m: "0 < ?m" "?m \<le> nbytes (m_appList b)" using l d by simp_all
  have c: "CopyFromSequence now (of_nat d) (m_firstByteSeq b) b = (do {
       r \<leftarrow> GetNewSegment (of_nat ?m) b;
       if \<not> m_retrans (fst r) then copy_finish now r else None
     })"
  proof -
    define n where "n = ?m"
    have n: "n = min (unat (of_nat d :: uint32)) (tx_total b - 0)" "0 < n"
      using m(1) u by (simp_all add: n_def)
    show ?thesis
      unfolding n_def [symmetric] using copy_branches [OF inv le0 n(1), of now] n(2) l(1) by simp
  qed
  obtain it b1 where g: "CopyFromSequence now (of_nat d) (m_firstByteSeq b) b = Some (Some it, b1)"
      "copied now 0 ?m b it b1" "sz it = ?m" "length (m_sentList b1) = 1"
      "bytes_of (m_appList b) = m_packet it @ bytes_of (m_appList b1)"
    using copy_new [OF inv m, of now] unfolding c l by auto
  have i: "tx_inv b1" "tx_frame b b1" "stream b1 = stream b" "m_sentList b1 = [it]"
  proof -
    show "tx_inv b1" "tx_frame b b1" "stream b1 = stream b" using g(2) by (simp_all add: copied_def)
    obtain pre rest where "m_sentList b1 = pre @ it # rest"
      using g(2) by (auto simp: copied_def segment_at_def)
    with g(4) show "m_sentList b1 = [it]" by simp
  qed
  have f: "m_size b1 = m_size b" "m_firstByteSeq b1 = m_firstByteSeq b" "m_sackEnabled b1 = m_sackEnabled b"
      "m_highestSack b1 = m_highestSack b"
    using tx_frame_fields [OF i(2)] by simp_all
  have "nbytes (m_appList b) = sz it + nbytes (m_appList b1)"
    using arg_cong [OF g(5), of length] by simp
  then have "tracked f0 e b1"
    using t l i(4) f by (auto simp: tracked_def)
  moreover have "discard_loop now (of_nat d) gone b = discard_loop now (of_nat d) gone b1"
  proof -
    have p: "0 < m_size b" "(0 :: uint32) < of_nat d"
      using size_pos [OF inv] l(2) d of_nat32_less [of 0 d] by simp_all
    show ?thesis
      apply (subst discard_loop.simps)
      apply (subst (2) discard_loop.simps)
      using p l(1) g(1) i(4) f(1) by simp
  qed
  ultimately show ?thesis
    using i g(3) f by blast
qed

definition discarded :: "seq32 \<Rightarrow> nat \<Rightarrow> nat \<Rightarrow> tx_buffer \<Rightarrow> (tx_item list \<times> tx_buffer) option \<Rightarrow> bool" where
  "discarded f0 e d b r \<longleftrightarrow>
     (\<exists>gone b'. r = Some (gone, b') \<and> tx_inv b' \<and> tracked f0 (e + min d (tx_total b)) b' \<and>
       stream b' = drop d (stream b) \<and> m_sentList b' = drop_bytes d (m_sentList b) \<and>
       m_sackEnabled b' = m_sackEnabled b \<and> m_highestSack b' = m_highestSack b)"

lemma drop_head_fields [simp]:
  "m_sentList (drop_head d i rest b) = trim d i @ rest" "m_appList (drop_head d i rest b) = m_appList b"
  "m_sackEnabled (drop_head d i rest b) = m_sackEnabled b"
  "m_highestSack (drop_head d i rest b) = m_highestSack b"
  by (simp_all add: drop_head_def uncount_def)

lemma discarded_drop:
  assumes "discarded f0 (e + sz i) (d - sz i) (drop_head (sz i) i rest b) r"
    and "tx_inv b" "tracked f0 e b" "m_sentList b = i # rest" "sz i \<le> d" "0 < sz i"
  shows "discarded f0 e d b r"
proof -
  have "e + sz i + min (d - sz i) (nbytes rest + nbytes (m_appList b)) = e + min d (tx_total b)"
    using assms(4,5) by (simp add: min_def) linarith
  moreover have "trim (sz i) i = []" by (simp add: trim_def)
  moreover have "stream (drop_head (sz i) i rest b) = drop (sz i) (stream b)"
    by (rule drop_head_ok [OF assms(2,4) order_refl assms(3)])
  ultimately show ?thesis
    using assms(1,4,5,6) unfolding discarded_def by (auto simp: add.assoc)
qed

lemma discarded_trim:
  assumes "tx_inv b" "tracked f0 e b" "m_sentList b = i # rest" "d < sz i" "0 < d"
  shows "discarded f0 e d b (Some (gone, drop_head d i rest b))"
  using drop_head_ok [OF assms(1,3) less_imp_le [OF assms(4)] assms(2)] assms(3,4,5)
  by (simp add: discarded_def)

lemma discard_stop:
  assumes "tx_inv b" "tracked f0 e b" "d = 0 \<or> tx_total b = 0"
  shows "discarded f0 e d b (discard_loop now (of_nat d) gone b)"
proof -
  have "(0 < m_size b \<and> (0 :: uint32) < of_nat d) = False"
    using assms(3) size_pos [OF assms(1)] by auto
  then have r: "discard_loop now (of_nat d) gone b = Some (gone, b)"
    by (subst discard_loop.simps) (simp only: if_False)
  have "stream b = [] \<and> m_sentList b = []" if "tx_total b = 0"
  proof
    have "length (stream b) = 0" using that by (simp add: stream_def)
    then show "stream b = []" by simp
    show "m_sentList b = []"
      using that assms(1) by (cases "m_sentList b") (auto simp: tx_inv_def item_ok_def)
  qed
  with assms r show ?thesis by (auto simp: discarded_def)
qed

theorem discard_loop_ok:
  assumes "tx_inv b" "tracked f0 e b" "d < 2147483648"
  shows "discarded f0 e d b (discard_loop now (of_nat d) gone b)"
  using assms
proof (induction d arbitrary: b e gone rule: less_induct)
  case (less d)
  have front: "discarded f0 e d b (discard_loop now (of_nat d) gone b)"
    if l: "m_sentList b = i # rest" and d: "0 < d" and P: "tx_inv b" "tracked f0 e b" for b i rest gone
  proof (cases "sz i \<le> d")
    case True
    have z: "0 < sz i" using P(1) l by (auto simp: tx_inv_def item_ok_def)
    note dh = drop_head_ok [OF P(1) l order_refl P(2)]
    have "discarded f0 (e + sz i) (d - sz i) (drop_head (sz i) i rest b)
        (discard_loop now (of_nat (d - sz i)) (gone @ [i]) (drop_head (sz i) i rest b))"
      using z d less.prems(3) by (intro less.IH dh) simp_all
    from discarded_drop [OF this P l True z] True show ?thesis
      by (simp add: discard_round [OF P(1) l d less.prems(3)])
  next
    case False
    with discarded_trim [OF P l _ d] discard_round [OF P(1) l d less.prems(3)] show ?thesis by simp
  qed
  consider "d = 0 \<or> tx_total b = 0" | i rest where "0 < d" "m_sentList b = i # rest"
    | "0 < d" "0 < tx_total b" "m_sentList b = []"
    by (cases "m_sentList b") auto
  then show ?case
  proof cases
    case 1
    then show ?thesis by (rule discard_stop [OF less.prems(1,2)])
  next
    case 2
    then show ?thesis using front less.prems by blast
  next
    case 3
    then obtain it b1 where r: "discard_loop now (of_nat d) gone b = discard_loop now (of_nat d) gone b1"
        "tx_inv b1" "tracked f0 e b1" "stream b1 = stream b" "m_sentList b1 = [it]" "sz it = min d (tx_total b)"
        "m_sackEnabled b1 = m_sackEnabled b" "m_highestSack b1 = m_highestSack b"
      using discard_refill [OF less.prems(1,2) 3(3,2,1) less.prems(3), of now gone] by blast
    have "length (stream b1) = length (stream b)" using r(4) by simp
    then have "tx_total b1 = tx_total b" by (simp add: stream_def)
    moreover have "discarded f0 e d b1 (discard_loop now (of_nat d) gone b1)"
      by (rule front [OF r(5) 3(1) r(2,3)])
    moreover have "drop_bytes d [it] = []" using r(6) 3 by simp
    ultimately show ?thesis
      using r 3 unfolding discarded_def by simp
  qed
qed


section \<open>The whole call\<close>

text \<open>
  The item at which an acknowledgement of \<open>k\<close> bytes stops, if any, is not sacked; or it is, and the
  repair that follows, a duplicate acknowledgement in its place, is possible: the next item that is not
  sacked is not lost, and with SACK there is an item after it. A receiver that acknowledges everything it
  holds in order never stops at a sacked item; without SACK the sacked items are guesses from duplicate
  acknowledgements.
\<close>

definition ack_safe :: "nat \<Rightarrow> tx_buffer \<Rightarrow> bool" where
  "ack_safe k b \<longleftrightarrow>
     (case drop_bytes k (m_sentList b) of
        [] \<Rightarrow> True
      | h # t \<Rightarrow> m_sacked h \<longrightarrow> (m_sackEnabled b \<longrightarrow> t \<noteq> []) \<and> reno_clean t)"

lemma highest_ok_not_Singular: "highest_ok hs f is \<Longrightarrow> fst hs \<noteq> Singular"
  by (auto simp: highest_ok_def split: prod.splits)

text \<open>The flags of a head that is found sacked are repaired.\<close>

lemma unsack_head_ok:
  assumes inv: "tx_inv b"
    and safe: "m_sentList b \<noteq> [] \<Longrightarrow> m_sacked (hd (m_sentList b)) \<Longrightarrow>
      (m_sackEnabled b \<longrightarrow> tl (m_sentList b) \<noteq> []) \<and> reno_clean (tl (m_sentList b))"
  shows "\<exists>b'. unsack_head b = Some b' \<and> tx_inv b' \<and> stream b' = stream b \<and> same_rest b b' \<and>
    length (m_sentList b') = length (m_sentList b) \<and>
    (m_sentList b' \<noteq> [] \<longrightarrow> \<not> m_sacked (hd (m_sentList b')))"
proof (cases "m_sentList b = [] \<or> \<not> m_sacked (hd (m_sentList b))")
  case True
  with inv show ?thesis
    by (cases "m_sentList b") (auto simp: unsack_head_def same_rest_def)
next
  case False
  then obtain h t where l: "m_sentList b = h # t" "m_sacked h" by (cases "m_sentList b") auto
  let ?b = "b\<lparr>m_sentList := h\<lparr>m_sacked := False\<rparr> # t, m_sackedOut := m_sackedOut b - GetSize (m_packet h)\<rparr>"
  have s: "\<not> m_lost h" "m_sackEnabled b \<longrightarrow> t \<noteq> []" "reno_clean t"
    using inv l safe by (auto simp: tx_inv_def item_ok_def)
  have "counts ?b (m_sentList ?b)"
    using tx_inv_counts [OF inv] l by (simp add: counts_def GetSize_def)
  moreover have "highest_ok (m_highestSack b) (m_firstByteSeq b) (m_sentList ?b)"
    using inv highest_ok_head [of _ _ h t "h\<lparr>m_sacked := False\<rparr>"] l by (simp add: tx_inv_def)
  ultimately have i: "tx_inv ?b" "stream ?b = stream b"
    using tx_inv_flags [OF inv, of ?b] inv l by (simp_all add: same_rest_def tx_inv_def item_ok_def)
  obtain b1 where r: "AddRenoSack ?b = Some b1"
    using s(2) by (auto simp: AddRenoSack_def)
  have "reno_clean (tl (m_sentList ?b))" using s(3) by simp
  note a = AddRenoSack_ok [OF i(1) r this]
  then obtain t1 where t1: "m_sentList b1 = h\<lparr>m_sacked := False\<rparr> # t1" "length t1 = length t"
    by (cases "m_sentList b1") auto
  note m = MarkHeadAsLost_ok [of b1]
  have "unsack_head b = Some (MarkHeadAsLost b1)"
    using l s r by (simp add: unsack_head_def)
  moreover have "same_rest b (MarkHeadAsLost b1)"
    using a m(3) by (simp add: same_rest_def)
  ultimately show ?thesis
    using a m i(2) t1 l(1) by simp
qed

text \<open>After the loop \<open>SND.UNA\<close> is the acknowledged sequence, also when it lies beyond the data (a FIN).\<close>

lemma after_loop:
  assumes inv: "tx_inv b" and t: "tracked f (min k (tx_total b0)) b" and k: "k < 2147483648"
    and T: "tx_total b = tx_total b0 - k"
  defines "b2 \<equiv> (if m_size b = 0 then b\<lparr>m_firstByteSeq := f + of_nat k\<rparr> else b)"
  shows "tx_inv b2" "m_firstByteSeq b2 = f + of_nat k" "stream b2 = stream b" "m_sentList b2 = m_sentList b"
    "m_sackEnabled b2 = m_sackEnabled b"
proof -
  show "stream b2 = stream b" "m_sentList b2 = m_sentList b" "m_sackEnabled b2 = m_sackEnabled b"
    by (simp_all add: b2_def stream_def)
  have z: "m_size b = 0 \<longleftrightarrow> tx_total b = 0"
    using size_pos [OF inv] by (metis neq0_conv word_gt_0)
  show f: "m_firstByteSeq b2 = f + of_nat k"
    using t T z by (simp add: b2_def tracked_def min_def)
  show "tx_inv b2"
  proof (cases "m_size b = 0")
    case False
    with inv show ?thesis by (simp add: b2_def)
  next
    case True
    with z inv have e: "m_sentList b = []" "m_appList b = []"
      by (cases "m_sentList b"; cases "m_appList b"; auto simp: tx_inv_def item_ok_def fresh_item_def)+
    have le: "tx_total b0 \<le> k" using T z True by simp
    have "highest_ok (m_highestSack b) (f + of_nat k) []"
    proof (cases "m_highestSack b")
      case (Pair it s)
      show ?thesis
      proof (cases it)
        case (AtNode n)
        then obtain j where "j \<le> tx_total b0" "s = f + of_nat j"
          using t Pair e le by (auto simp: tracked_def not_less)
        with le k have "seq_le s (f + of_nat k)" by (simp add: seq_le_window)
        with Pair AtNode show ?thesis by (simp add: highest_ok_def)
      next
        case Singular
        with inv Pair highest_ok_not_Singular show ?thesis by (force simp: tx_inv_def)
      qed (simp add: Pair)
    qed
    with inv e True show ?thesis by (simp add: b2_def tx_inv_def)
  qed
qed

theorem DiscardUpTo_ok:
  assumes inv: "tx_inv b" and a: "ahead (m_highestSack b) (m_firstByteSeq b)" and k: "k < 2147483648"
    and safe: "ack_safe k b"
  shows "\<exists>gone b'. DiscardUpTo now (m_firstByteSeq b + of_nat k) b = Some (gone, b') \<and> tx_inv b' \<and>
    ahead (m_highestSack b') (m_firstByteSeq b') \<and> stream b' = drop k (stream b) \<and>
    m_firstByteSeq b' = m_firstByteSeq b + of_nat k \<and>
    length (m_sentList b') = length (drop_bytes k (m_sentList b))"
proof (cases "k = 0")
  case True
  then have "DiscardUpTo now (m_firstByteSeq b + of_nat k) b = Some ([], b)"
    by (simp add: DiscardUpTo_def seq_ge_def)
  with True inv a show ?thesis by simp
next
  case False
  let ?f = "m_firstByteSeq b"
  have g: "\<not> seq_ge ?f (?f + of_nat k)" using False k by (simp add: ns_seq)
  have d: "of_int (seq_diff (?f + of_nat k) ?f) = (of_nat k :: uint32)"
    using seq_diff_window [of k 0 ?f] k by simp
  obtain gone b1 where r: "discard_loop now (of_nat k) [] b = Some (gone, b1)" "tx_inv b1"
      "tracked ?f (min k (tx_total b)) b1" "stream b1 = drop k (stream b)"
      "m_sentList b1 = drop_bytes k (m_sentList b)" "m_sackEnabled b1 = m_sackEnabled b"
    using discard_loop_ok [OF inv tracked_start [OF inv a] k, of now "[]"] by (auto simp: discarded_def)
  define b2 where "b2 = (if m_size b1 = 0 then b1\<lparr>m_firstByteSeq := ?f + of_nat k\<rparr> else b1)"
  have "length (stream b1) = length (stream b) - k" using r(4) by simp
  then have "tx_total b1 = tx_total b - k" by (simp add: stream_def)
  note b2 = after_loop [OF r(2,3) k this, folded b2_def]
  obtain b3 where u: "unsack_head b2 = Some b3" "tx_inv b3" "stream b3 = stream b2" "same_rest b2 b3"
      "length (m_sentList b3) = length (m_sentList b2)"
    using unsack_head_ok [OF b2(1)] safe r(5,6) b2(4,5)
    by (cases "drop_bytes k (m_sentList b)") (auto simp: ack_safe_def)
  define b4 where "b4 = (if seq_le (snd (m_highestSack b3)) (m_firstByteSeq b3)
    then b3\<lparr>m_highestSack := (EndIt, 0)\<rparr> else b3)"
  have f3: "m_firstByteSeq b3 = ?f + of_nat k" using u(4) b2(2) by (simp add: same_rest_def)
  have i4: "tx_inv b4" using u(2) by (simp add: b4_def tx_inv_def)
  have e4: "stream b4 = drop k (stream b)" "m_firstByteSeq b4 = ?f + of_nat k"
      "length (m_sentList b4) = length (drop_bytes k (m_sentList b))"
      "ahead (m_highestSack b4) (m_firstByteSeq b4)"
    using u(3,5) b2(3,4) r(4,5) f3
    by (auto simp: b4_def stream_def ahead_def split: prod.splits item_it.splits)
  have h3: "m_sentList b3 \<noteq> [] \<longrightarrow> m_startSeq (hd (m_sentList b3)) = ?f + of_nat k"
    using u(2) f3 by (cases "m_sentList b3") (simp_all add: tx_inv_def)
  have "DiscardUpTo now (?f + of_nat k) b = Some (gone, b4)"
    using g d r(1) u(1) h3 e4(2) tx_inv_counters [OF i4]
    by (simp add: DiscardUpTo_def b2_def [symmetric] b4_def [symmetric] seq_ge_def Let_def)
  with i4 e4 show ?thesis by blast
qed

text \<open>
  With SACK, an acknowledgement that stops inside the last segment when that one is sacked fails: the
  repair asks for a second segment.
\<close>

lemma DiscardUpTo_fails:
  assumes inv: "tx_inv b" and a: "ahead (m_highestSack b) (m_firstByteSeq b)" and k: "0 < k" "k < 2147483648"
    and stop: "drop_bytes k (m_sentList b) = [h]" "m_sacked h" "m_sackEnabled b"
  shows "DiscardUpTo now (m_firstByteSeq b + of_nat k) b = None"
proof -
  let ?f = "m_firstByteSeq b"
  have g: "\<not> seq_ge ?f (?f + of_nat k)" using k by (simp add: ns_seq)
  have d: "of_int (seq_diff (?f + of_nat k) ?f) = (of_nat k :: uint32)"
    using seq_diff_window [of k 0 ?f] k by simp
  obtain gone b1 where r: "discard_loop now (of_nat k) [] b = Some (gone, b1)"
      "m_sentList b1 = [h]" "m_sackEnabled b1"
    using discard_loop_ok [OF inv tracked_start [OF inv a] k(2), of now "[]"] stop by (auto simp: discarded_def)
  define b2 where "b2 = (if m_size b1 = 0 then b1\<lparr>m_firstByteSeq := ?f + of_nat k\<rparr> else b1)"
  have "m_sentList b2 = [h]" "m_sackEnabled b2" using r(2,3) by (simp_all add: b2_def)
  then have "unsack_head b2 = None" using stop(2) by (simp add: unsack_head_def AddRenoSack_def)
  then show ?thesis using g d r(1) by (simp add: DiscardUpTo_def b2_def [symmetric])
qed

end
