(* ===== verification/TxData.thy ===== *)
theory TxData
  imports TxDiscard
begin

text \<open>
  The data of the send buffer, whatever the scoreboard is: every operation of the socket keeps \<open>tx_data\<close>
  and either leaves the stream alone or drops acknowledged bytes from its front, and every segment that is
  copied out is a slice of the stream. These are statements of partial correctness: they say nothing of
  the assertions on the counters.
\<close>

section \<open>Segments\<close>

lemma edit_nonempty: "edit sk (is, n, r) (is', n', r') \<Longrightarrow> nonempty is \<Longrightarrow> nonempty is'"
  by (erule edit_cases) (auto simp: merged_def)

lemma edits_nonempty: "edits sk (is, n, r) (is', n', r') \<Longrightarrow> nonempty is \<Longrightarrow> nonempty is'"
  by (induction rule: edits_induct) (auto dest: edit_nonempty)

text \<open>What is kept when the sent list is edited.\<close>

definition same_data :: "tx_buffer \<Rightarrow> tx_buffer \<Rightarrow> bool" where
  "same_data b b' \<longleftrightarrow> tx_data b' \<and> stream b' = stream b \<and> m_firstByteSeq b' = m_firstByteSeq b"

text \<open>An item of the sent list that holds the bytes of the stream from offset \<open>k\<close>.\<close>

definition holds :: "nat \<Rightarrow> nat \<Rightarrow> tx_buffer \<Rightarrow> tx_item \<Rightarrow> bool" where
  "holds k n b it \<longleftrightarrow> 0 < sz it \<and> sz it \<le> n \<and> (\<exists>pre rest. m_sentList b = pre @ it # rest \<and> nbytes pre = k)"

lemma holds_slice:
  assumes "holds k n b it"
  shows "m_packet it = take (sz it) (drop k (stream b))" "k + sz it \<le> length (stream b)" "0 < sz it"
  using assms by (auto simp: holds_def stream_def)

lemma GetNewSegment_data:
  assumes inv: "tx_data b" and n: "0 < n" "n \<le> nbytes (m_appList b)"
    and r: "GetNewSegment (of_nat n) b = Some (it, b')"
  shows "same_data b b' \<and> holds (nbytes (m_sentList b)) n b' it \<and> m_sentList b' = m_sentList b @ [it]"
proof -
  define base where "base = m_firstByteSeq b + m_sentSize b"
  obtain i post where app: "m_appList b = i # post"
    using n by (cases "m_appList b") auto
  have ne: "0 < sz i" "nonempty post"
    using inv app by (simp_all add: tx_data_def)
  have at: "list_at False base ([] @ i # post) b"
    using tx_data_bound [OF inv] app by (simp add: list_at_def)
  obtain l jt b1 where g: "GetPacketFromList False (i # post) base (of_nat n) base b = Some (l, jt, b1)"
      and it: "it = jt\<lparr>m_startSeq := base, node := next_node b1\<rparr>"
      and b': "b' = b1\<lparr>m_appList := without_node (node jt) l, m_sentList := m_sentList b1 @ [it],
        m_sentSize := m_sentSize b1 + GetSize (m_packet it), next_node := next_node b1 + 1\<rparr>"
    using r app by (auto simp: GetNewSegment_def base_def Let_def split: Option.bind_splits if_splits)
  have "got [] i post n b l jt b1"
    using get_got [OF at n(1) _ ne] g n(2) app by simp
  then obtain rest where l: "l = jt # rest" and sz: "sz jt = n" and f: "same_frame b b1" and
      e: "edits (m_sacked i) (edit_state_of (i # post) b) (edit_state_of l b1)"
    by (auto simp: got_def)
  obtain nn rr where b1: "b1 = b\<lparr>next_node := nn, m_retransOut := rr\<rparr>"
    using f unfolding same_frame_def by blast
  have nodes: "nodes_ok (m_sentList b @ l @ []) nn"
    using nodes_ok_edits [OF e, of "m_sentList b" "[]"] inv app b1 by (simp add: tx_data_def)
  have "node jt \<notin> node ` set rest" using nodes by (simp add: l nodes_ok_def)
  then have "\<forall>j \<in> set rest. node j \<noteq> node jt" by (metis imageI)
  then have w: "without_node (node jt) (jt # rest) = rest" by (simp add: without_node_def)
  have bs: "bytes_of (m_appList b) = m_packet jt @ bytes_of rest"
    using edits_bytes [OF e] app by (simp add: l)
  then have nb: "nbytes (m_appList b) = n + nbytes rest"
    using sz by (metis length_append length_bytes_of)
  have rest: "nonempty l" using edits_nonempty [OF e] inv app by (simp add: tx_data_def)
  have "nodes_ok ((m_sentList b @ [it]) @ rest) (nn + 1)"
    using nodes by (auto simp: nodes_ok_def l it b1 less_SucI)
  then have "tx_data b'"
    using inv rest nb sz n(1) by (auto simp: tx_data_def b' b1 w l it base_def GetSize_def add.assoc)
  moreover have "stream b' = stream b" by (simp add: stream_def b' b1 w l bs it)
  ultimately show ?thesis
    using sz n(1) by (auto simp: same_data_def holds_def b' b1 it)
qed

lemma GetTransmittedSegment_data:
  assumes inv: "tx_data b" and n: "0 < n" "k + n \<le> nbytes (m_sentList b)"
    and g: "GetTransmittedSegment (of_nat n) (m_firstByteSeq b + of_nat k) b = Some (it, b')"
  shows "same_data b b' \<and> holds k n b' it"
proof -
  have w: "nbytes (m_sentList b) < 2147483648" using tx_data_bound [OF inv] by simp
  have ne: "nonempty (m_sentList b)" and at: "list_at True (m_firstByteSeq b) (m_sentList b) b"
    using inv w by (simp_all add: tx_data_def list_at_def)
  obtain m where m: "retransmit_size (m_firstByteSeq b + of_nat k) (of_nat n) (m_sentList b) = of_nat m"
      "0 < m" "m \<le> n"
    using retransmit_size_le [OF ne w n(1), of "m_firstByteSeq b + of_nat k"] n(2) w by auto
  obtain l jt b1 where j: "GetPacketFromList True (m_sentList b) (m_firstByteSeq b) (of_nat m)
        (m_firstByteSeq b + of_nat k) b = Some (l, jt, b1)"
      and it: "it = jt\<lparr>m_retrans := True\<rparr>"
      and b': "b' = b1\<lparr>m_retransOut := (if m_retrans jt then m_retransOut b1 else m_retransOut b1 + GetSize (m_packet jt)),
               m_sentList := (if m_retrans jt then l else set_item it l)\<rparr>"
    using g m(1) by (auto simp: GetTransmittedSegment_def Let_def split: Option.bind_splits if_splits)
  note q = get_at [OF at ne m(2) _ j] m(3) n(2)
  then obtain pre rest where l: "l = pre @ jt # rest" "nbytes pre = k" and sz: "sz jt = m"
      and e: "edits (m_sacked jt) (edit_state_of (m_sentList b) b) (edit_state_of l b1)"
      and f: "same_frame b b1"
    by auto
  obtain nn rr where b1: "b1 = b\<lparr>next_node := nn, m_retransOut := rr\<rparr>"
    using f unfolding same_frame_def by blast
  have nodes: "nodes_ok (l @ m_appList b) nn"
    using nodes_ok_edits [OF e, of "[]" "m_appList b"] inv b1 by (simp add: tx_data_def)
  have sent: "m_sentList b' = pre @ it # rest"
    using set_item_at [of pre jt rest "m_appList b" nn it] nodes l it by (auto simp: b' b1)
  have ct: "contiguous (m_firstByteSeq b) l" "bytes_of l = bytes_of (m_sentList b)" "nonempty l"
      "nbytes l = nbytes (m_sentList b)"
    using edits_contiguous [OF e] edits_bytes [OF e] edits_nonempty [OF e ne] edits_nbytes [OF e] inv
    by (simp_all add: tx_data_def)
  have it': "sz it = sz jt" "node it = node jt" "m_packet it = m_packet jt" "m_startSeq it = m_startSeq jt"
    by (simp_all add: it)
  have fr: "m_appList b' = m_appList b" "m_firstByteSeq b' = m_firstByteSeq b" "m_size b' = m_size b"
      "m_sentSize b' = m_sentSize b" "m_maxBuffer b' = m_maxBuffer b" "next_node b' = nn"
    by (simp_all add: b' b1)
  have "nodes_ok (m_sentList b' @ m_appList b) nn"
    using nodes it'(2) by (simp add: sent l nodes_ok_def)
  then have "tx_data b'"
    using inv ct it' l unfolding tx_data_def fr sent by simp
  moreover have "stream b' = stream b" using ct(2) l it' by (simp add: stream_def sent fr(1))
  ultimately show ?thesis
    using fr(2) sz m(2,3) l(2) it'(1) sent unfolding same_data_def holds_def by auto
qed

lemma copy_finish_data:
  assumes inv: "tx_data b1" and h: "holds k n b1 it" and r: "copy_finish now (it, b1) = Some (r, b2)"
  shows "\<exists>it'. r = Some it' \<and> same_data b1 b2 \<and> holds k n b2 it'"
proof -
  obtain pre rest where l: "m_sentList b1 = pre @ it # rest" "nbytes pre = k" "0 < sz it" "sz it \<le> n"
    using h by (auto simp: holds_def)
  have nodes: "nodes_ok (pre @ it # rest @ m_appList b1) (next_node b1)"
    using inv l(1) by (simp add: tx_data_def)
  let ?it = "it\<lparr>m_lastSent := now\<rparr>"
  have b2: "r = Some ?it" "b2 = b1\<lparr>m_sentList := pre @ ?it # rest\<rparr>"
    using r set_item_at [OF nodes, of ?it] l(1) by (auto simp: copy_finish_def Let_def split: if_splits)
  have "nodes_ok (pre @ ?it # rest @ m_appList b1) (next_node b1)"
    by (rule nodes_ok_swap [OF nodes]) simp
  then have "tx_data b2" using inv l(1) by (simp add: tx_data_def b2(2))
  then show ?thesis
    using l b2(1) by (auto simp: same_data_def holds_def b2(2) stream_def)
qed

section \<open>CopyFromSequence\<close>

lemma same_data_trans: "same_data a b \<Longrightarrow> same_data b c \<Longrightarrow> same_data a c"
  by (simp add: same_data_def)

lemma same_data_refl: "tx_data b \<Longrightarrow> same_data b b"
  by (simp add: same_data_def)

definition copied_data :: "nat \<Rightarrow> tx_buffer \<Rightarrow> tx_item option \<times> tx_buffer \<Rightarrow> bool" where
  "copied_data k b r \<longleftrightarrow> same_data b (snd r) \<and> (case fst r of None \<Rightarrow> True | Some it \<Rightarrow> \<exists>n. holds k n (snd r) it)"

lemma copy_at_offset:
  assumes inv: "tx_data b" and k: "k \<le> nbytes (m_sentList b) + nbytes (m_appList b)"
    and c: "CopyFromSequence now numBytes (m_firstByteSeq b + of_nat k) b = Some r"
  shows "copied_data k b r"
proof -
  let ?s = "nbytes (m_sentList b)" and ?t = "nbytes (m_sentList b) + nbytes (m_appList b)"
  have old: "copied_data k b r"
    if m: "0 < m" "k + m \<le> ?s" and c: "(do {
       r \<leftarrow> GetTransmittedSegment (of_nat m) (m_firstByteSeq b + of_nat k) b;
       if \<not> m_sacked (fst r) then copy_finish now r else None
     }) = Some r" for m
  proof -
    from c obtain it b1 where t: "GetTransmittedSegment (of_nat m) (m_firstByteSeq b + of_nat k) b = Some (it, b1)"
        "copy_finish now (it, b1) = Some (fst r, snd r)"
      by (auto split: Option.bind_splits if_splits)
    note g = GetTransmittedSegment_data [OF inv m t(1)]
    then have "\<exists>it'. fst r = Some it' \<and> same_data b1 (snd r) \<and> holds k m (snd r) it'"
      by (intro copy_finish_data [OF _ _ t(2)]) (simp_all add: same_data_def)
    with g show ?thesis by (auto simp: copied_data_def same_data_def)
  qed
  have new: "copied_data k b r"
    if m: "0 < m" "m \<le> nbytes (m_appList b)" "?s = k" and c: "(do {
       r \<leftarrow> GetNewSegment (of_nat m) b;
       if \<not> m_retrans (fst r) then copy_finish now r else None
     }) = Some r" for m
  proof -
    from c obtain it b1 where t: "GetNewSegment (of_nat m) b = Some (it, b1)"
        "copy_finish now (it, b1) = Some (fst r, snd r)"
      by (auto split: Option.bind_splits if_splits)
    note g = GetNewSegment_data [OF inv m(1,2) t(1)]
    then have "\<exists>it'. fst r = Some it' \<and> same_data b1 (snd r) \<and> holds k m (snd r) it'"
      using m(3) by (intro copy_finish_data [OF _ _ t(2)]) (simp_all add: same_data_def)
    with g show ?thesis by (auto simp: copied_data_def same_data_def)
  qed
  have one: "copied_data k b r"
    if c: "CopyFromSequence now numBytes (m_firstByteSeq b + of_nat k) b = Some r"
      and p: "\<not> (k < ?s \<and> ?s < k + min (unat numBytes) (?t - k))" for numBytes
  proof -
    define m where "m = min (unat numBytes) (?t - k)"
    note br = copy_branches_data [OF inv k m_def, of now]
    have p': "m = 0 \<or> k + m \<le> ?s \<or> ?s \<le> k" using p unfolding m_def by linarith
    have le: "m \<le> nbytes (m_appList b)" if "?s = k" using that by (simp add: m_def)
    show ?thesis
    proof (cases "m = 0")
      case True
      with c br inv show ?thesis by (auto simp: copied_data_def same_data_refl)
    next
      case False
      with c br old [of m] new [of m] le p' show ?thesis by (auto split: if_splits)
    qed
  qed
  show ?thesis
  proof (cases "k < ?s \<and> ?s < k + min (unat numBytes) (?t - k)")
    case False
    with one [OF c] show ?thesis .
  next
    case True
    then have "min (unat numBytes) (?t - k) \<noteq> 0" by auto
    with True have c': "CopyFromSequence now (of_nat (?s - k)) (m_firstByteSeq b + of_nat k) b = Some r"
      using c copy_branches_data [OF inv k refl, of now numBytes] by (auto split: if_splits)
    have u: "unat (of_nat (?s - k) :: uint32) = ?s - k"
      using tx_data_bound [OF inv] by (intro unat_of_nat32) simp
    show ?thesis by (rule one [OF c']) (simp add: u)
  qed
qed

text \<open>A sequence number from which there is something to copy lies in the window of the buffer.\<close>

lemma copy_offset:
  assumes inv: "tx_data b" and c: "CopyFromSequence now numBytes sq b = Some r"
  shows "r = (None, b) \<or> (\<exists>k \<le> nbytes (m_sentList b) + nbytes (m_appList b). sq = m_firstByteSeq b + of_nat k)"
proof -
  let ?t = "nbytes (m_sentList b) + nbytes (m_appList b)" and ?f = "m_firstByteSeq b"
  define x where "x = unat (sq - ?f)"
  have t: "TailSequence b = ?f + of_nat ?t" "?t < 2147483648"
    using inv tx_data_bound [OF inv] by (simp_all add: TailSequence_def tx_data_def)
  have sq: "sq = ?f + of_nat x" by (simp add: x_def)
  have g: "\<not> seq_gt ?f sq" and z: "SizeFromSequence sq b = 0 \<longrightarrow> r = (None, b)"
    using c by (subst (asm) CopyFromSequence.simps; auto simp: ns_assert_def split: if_splits)+
  show ?thesis
  proof (cases "SizeFromSequence sq b = 0")
    case True
    with z show ?thesis by blast
  next
    case False
    then have ge: "seq_gt (TailSequence b) sq"
      by (auto simp: SizeFromSequence_def seq_ge_def Let_def split: if_splits) (simp add: seq_diff_def halfMaxValue_def)
    have "x < 2147483648"
    proof (rule ccontr)
      assume "\<not> x < 2147483648"
      then have x: "2147483648 \<le> x" "x < 4294967296"
        using unsigned_less [of "sq - ?f"] by (simp_all add: x_def)
      have u: "uint (?f - sq) = 4294967296 - int x"
        using x uint32_minus [of 0 "of_nat x"] uint_of_nat32 [of x] by (simp add: sq)
      with g x have x2: "x = 2147483648" "\<not> ?f < sq" by (auto simp: seq_gt_uint)
      have "uint (TailSequence b - sq) = int ?t + 2147483648"
        using t(2) uint32_minus [of "of_nat ?t" "of_nat x"] uint_of_nat32 [of x] uint_of_nat32 [of ?t]
        by (simp add: t(1) sq x2(1))
      with ge have "?t = 0" "TailSequence b < sq" by (auto simp: seq_gt_uint)
      with t(1) x2(2) show False by simp
    qed
    with ge t(2) have "x < ?t" unfolding t(1) sq by (subst (asm) seq_gt_window)
    then show ?thesis using sq by (intro disjI2 exI [of _ x]) simp
  qed
qed

theorem CopyFromSequence_data:
  assumes inv: "tx_data b" and c: "CopyFromSequence now numBytes sq b = Some (r, b')"
  shows "same_data b b'"
    and "r = Some it \<Longrightarrow> \<exists>k. sq = m_firstByteSeq b + of_nat k \<and> 0 < sz it \<and> k + sz it \<le> length (stream b) \<and>
      m_packet it = take (sz it) (drop k (stream b))"
proof -
  have *: "(r = None \<and> b' = b) \<or> (\<exists>k. sq = m_firstByteSeq b + of_nat k \<and> copied_data k b (r, b'))"
    using copy_offset [OF inv c] copy_at_offset [OF inv, of _ now numBytes "(r, b')"] c by auto
  then show "same_data b b'" using same_data_refl [OF inv] by (auto simp: copied_data_def)
  show "\<exists>k. sq = m_firstByteSeq b + of_nat k \<and> 0 < sz it \<and> k + sz it \<le> length (stream b) \<and>
      m_packet it = take (sz it) (drop k (stream b))" if rs: "r = Some it"
  proof -
    obtain k n where k: "sq = m_firstByteSeq b + of_nat k" "same_data b b'" "holds k n b' it"
      using * rs by (auto simp: copied_data_def)
    then have "stream b' = stream b" by (simp add: same_data_def)
    with holds_slice [OF k(3)] k(1) show ?thesis by auto
  qed
qed

end
