(* ===== verification/TxDataOps.thy ===== *)
theory TxDataOps
  imports TxData
begin

text \<open>
  The other operations that the socket calls on its send buffer, over \<open>tx_data\<close>: the ones that change
  flags and counters only, \<open>DiscardUpTo\<close>, \<open>ResetLastSegmentSent\<close> and \<open>Add\<close>.
\<close>

section \<open>Flags and counters\<close>

definition flags_only :: "tx_buffer \<Rightarrow> tx_buffer \<Rightarrow> bool" where
  "flags_only b b' \<longleftrightarrow> same_rest b b' \<and> skel (m_sentList b') = skel (m_sentList b)"

named_theorems flags_only "operations that change flags and counters only"

lemma flags_only_refl [simp]: "flags_only b b"
  by (simp add: flags_only_def same_rest_def)

lemma flags_only_trans: "flags_only a b \<Longrightarrow> flags_only b c \<Longrightarrow> flags_only a c"
  by (simp add: flags_only_def same_rest_def)

lemma nonempty_skel: "nonempty is \<longleftrightarrow> list_all (\<lambda>x. fst (snd x) \<noteq> []) (skel is)"
  by (induction "is") simp_all

lemma skel_nonempty: "skel is = skel js \<Longrightarrow> nonempty is \<longleftrightarrow> nonempty js"
  by (simp add: nonempty_skel)

lemma flags_only_data:
  assumes "tx_data b" "flags_only b b'"
  shows "same_data b b'"
proof -
  have "skel (m_sentList b') = skel (m_sentList b)" using assms(2) by (simp add: flags_only_def)
  from skel_eq [OF this] skel_nonempty [OF this] assms show ?thesis
    by (simp add: same_data_def tx_data_def flags_only_def same_rest_def stream_def)
qed

lemma MarkHeadAsLost_flags [flags_only]: "flags_only b (MarkHeadAsLost b)"
  by (auto simp: flags_only_def MarkHeadAsLost_def same_rest_def Let_def split: list.splits)

lemma reno_walk_skel: "skel (fst (reno_walk is)) = skel is"
  by (induction "is") (auto split: prod.splits)

lemma AddRenoSack_flags [flags_only]:
  assumes "AddRenoSack b = Some b'"
  shows "flags_only b b'"
proof (cases "m_sentList b")
  case (Cons h t)
  obtain t' q where w: "reno_walk t = (t', q)" by fastforce
  then have "skel t' = skel t" using reno_walk_skel [of t] by simp
  with assms Cons w show ?thesis
    by (cases q) (auto simp: AddRenoSack_def flags_only_def same_rest_def split: if_splits)
qed (use assms in \<open>auto simp: AddRenoSack_def flags_only_def same_rest_def split: if_splits\<close>)

lemma ResetRenoSack_flags [flags_only]: "flags_only b (ResetRenoSack b)"
  by (auto simp: flags_only_def ResetRenoSack_def same_rest_def skel_def)

lemma lose_items_skel: "skel (fst (lose_items r is n)) = skel is"
  by (induction "is" arbitrary: n) (auto split: prod.splits, (metis fst_conv)+)

lemma SetSentListLost_flags [flags_only]:
  assumes "SetSentListLost r b = Some b'"
  shows "flags_only b b'"
proof -
  have "skel (fst (lose_items r (m_sentList b) n)) = skel (m_sentList b)" for n by (rule lose_items_skel)
  with assms show ?thesis
    by (auto simp: SetSentListLost_def flags_only_def same_rest_def Let_def split: prod.splits if_splits) (metis fst_conv)+
qed

lemma SetSackEnabled_flags [flags_only]: "flags_only b (SetSackEnabled x b)"
  by (simp add: SetSackEnabled_def flags_only_def same_rest_def)

lemma unsack_head_flags [flags_only]:
  assumes "unsack_head b = Some b'"
  shows "flags_only b b'"
proof -
  consider "b' = b" | h t x b1 where "m_sentList b = h # t"
      "AddRenoSack (b\<lparr>m_sentList := h\<lparr>m_sacked := False\<rparr> # t, m_sackedOut := x\<rparr>) = Some b1" "b' = MarkHeadAsLost b1"
    using assms by (auto simp: unsack_head_def split: list.splits if_splits Option.bind_splits)
  then show ?thesis
  proof cases
    case (2 h t x b1)
    have "flags_only b (b\<lparr>m_sentList := h\<lparr>m_sacked := False\<rparr> # t, m_sackedOut := x\<rparr>)"
      by (simp add: flags_only_def same_rest_def 2(1))
    then have "flags_only b b1" by (rule flags_only_trans [OF _ AddRenoSack_flags [OF 2(2)]])
    then show ?thesis unfolding 2(3) by (rule flags_only_trans [OF _ MarkHeadAsLost_flags])
  qed simp
qed

lemma score_frame_flags: "score_frame b b' \<Longrightarrow> same_rest b b'"
  by (simp add: score_frame_rest)

lemma sack_block_skel:
  "sack_block blk s is b = Some (is', cbs, n, b') \<Longrightarrow> skel is' = skel is \<and> same_rest b b'"
proof (induction "is" arbitrary: s b is' cbs n b')
  case Nil
  then show ?case by (simp add: same_rest_def)
next
  case (Cons i "is")
  have same: "same_rest b (sacked_buffer x e i b)" for x e
    by (simp add: same_rest_def sacked_buffer_def)
  consider js c m where "is' = i # js" "sack_block blk (s + GetSize (m_packet i)) is b = Some (js, c, m, b')"
    | "is' = i # is" "b' = b"
    | js c m x e where "is' = sacked_item i # js"
        "sack_block blk (s + GetSize (m_packet i)) is (sacked_buffer x e i b) = Some (js, c, m, b')"
    using Cons.prems unfolding sack_block_Cons by (auto split: if_splits option.splits)
  then show ?case
  proof cases
    case 1
    with Cons.IH [OF 1(2)] show ?thesis by simp
  next
    case 3
    with Cons.IH [OF 3(2)] same_rest_trans [OF same] show ?thesis by (auto simp: sacked_item_def)
  qed (simp add: same_rest_def)
qed

lemma sack_blocks_flags:
  "sack_blocks blks b = Some (cbs, n, early, b') \<Longrightarrow> flags_only b b'"
proof (induction blks arbitrary: b cbs n)
  case (Cons blk blks)
  consider "b' = b" | is' c1 n1 b1 c2 n2 where
      "sack_block blk (m_firstByteSeq b) (m_sentList b) b = Some (is', c1, n1, b1)"
      "sack_blocks blks (b1\<lparr>m_sentList := is'\<rparr>) = Some (c2, n2, early, b')"
    using Cons.prems by (auto split: Option.bind_splits if_splits)
  then show ?case
  proof cases
    case 2
    have "flags_only b (b1\<lparr>m_sentList := is'\<rparr>)"
      using sack_block_skel [OF 2(1)] by (simp add: flags_only_def same_rest_def)
    then show ?thesis by (rule flags_only_trans [OF _ Cons.IH [OF 2(2)]])
  qed simp
qed simp

lemma UpdateLostCount_flags:
  assumes "UpdateLostCount b = Some b'"
  shows "flags_only b b'"
proof -
  have "same_rest b b'" using assms by (cases rule: UpdateLostCount_cases) (simp_all add: same_rest_def)
  then show ?thesis using sskel_skel [OF UpdateLostCount_sskel [OF assms]] by (simp add: flags_only_def)
qed

lemma Update_flags [flags_only]:
  assumes "Update blks b = Some (n, cbs, b')"
  shows "flags_only b b'"
proof -
  obtain early b1 where s: "sack_blocks blks b = Some (cbs, n, early, b1)" "b' = b1 \<or> UpdateLostCount b1 = Some b'"
    using assms by (auto simp: Update_def split: Option.bind_splits if_splits)
  with flags_only_trans [OF sack_blocks_flags [OF s(1)] UpdateLostCount_flags] sack_blocks_flags [OF s(1)]
  show ?thesis by blast
qed

section \<open>Acknowledged data\<close>

text \<open>The first \<open>k\<close> bytes of the window are gone, whether the buffer held them or not.\<close>

definition acked :: "nat \<Rightarrow> tx_buffer \<Rightarrow> tx_buffer \<Rightarrow> bool" where
  "acked k b b' \<longleftrightarrow> tx_data b' \<and> stream b' = drop k (stream b) \<and> m_firstByteSeq b' = m_firstByteSeq b + of_nat k"

lemma acked_0: "acked 0 b b' \<longleftrightarrow> same_data b b'"
  by (simp add: acked_def same_data_def)

lemma RemoveFromCounts_frame:
  "RemoveFromCounts i s b = Some b' \<Longrightarrow> \<exists>x y z. b' = b\<lparr>m_sackedOut := x, m_retransOut := y, m_lostOut := z\<rparr>"
  by (cases b) (auto simp: RemoveFromCounts_def Let_def split: if_splits)

lemma move_sentList:
  "b\<lparr>m_size := u, m_sentSize := v, m_firstByteSeq := w, m_sackedOut := x, m_retransOut := y, m_lostOut := z, m_sentList := l\<rparr> =
   b\<lparr>m_sentList := l, m_size := u, m_sentSize := v, m_firstByteSeq := w, m_sackedOut := x, m_retransOut := y, m_lostOut := z\<rparr>"
  by simp

lemma trim_data:
  assumes inv: "tx_data b" and l: "m_sentList b = i # rest" and d: "d \<le> sz i"
  shows "acked d b (b\<lparr>m_sentList := trim d i @ rest, m_size := m_size b - of_nat d, m_sentSize := m_sentSize b - of_nat d,
    m_firstByteSeq := m_firstByteSeq b + of_nat d, m_sackedOut := x, m_retransOut := y, m_lostOut := z\<rparr>)"
proof -
  have nb: "nbytes (trim d i @ rest) = sz i + nbytes rest - d"
    using d by (auto simp: trim_def)
  have "nodes_ok (i # rest @ m_appList b) (next_node b)" using inv l by (simp add: tx_data_def)
  then have n: "nodes_ok ((trim d i @ rest) @ m_appList b) (next_node b)"
    by (auto simp: nodes_ok_def trim_def)
  have ok: "nonempty (trim d i @ rest)" "contiguous (m_firstByteSeq b + of_nat d) (trim d i @ rest)"
    using inv l d by (auto simp: tx_data_def trim_def of_nat_diff add.assoc)
  have "sz i + nbytes rest + nbytes (m_appList b) - d \<le> unat (m_maxBuffer b)"
    using inv l by (intro le_trans [OF diff_le_self]) (simp add: tx_data_def)
  then show ?thesis
    using inv ok n nb d l by (auto simp: acked_def tx_data_def of_nat_diff stream_def trim_def)
qed

lemma size_zero: "tx_data b \<Longrightarrow> m_size b = 0 \<Longrightarrow> stream b = []"
proof -
  assume "tx_data b" "m_size b = 0"
  then have "tx_total b = 0"
    using tx_data_bound [of b] of_nat32_eq [of "tx_total b" 0] by (simp add: tx_data_def)
  then have "length (stream b) = 0" by (simp add: stream_def)
  then show ?thesis by simp
qed

lemma discard_loop_data:
  assumes "discard_loop now offset gone b = Some r" "tx_data b"
  shows "\<exists>m \<le> unat offset. acked m b (snd r) \<and> (m = unat offset \<or> stream (snd r) = [])"
proof -
  have "tx_data b \<longrightarrow> (\<exists>m \<le> unat offset. acked m b (snd r) \<and> (m = unat offset \<or> stream (snd r) = []))"
  proof (rule discard_loop.raw_induct [where P = "\<lambda>now offset gone b r. tx_data b \<longrightarrow>
      (\<exists>m \<le> unat offset. acked m b (snd r) \<and> (m = unat offset \<or> stream (snd r) = []))", OF _ assms(1)], goal_cases)
    case (1 loop now offset gone b r)
    show ?case
    proof
      assume inv: "tx_data b"
      show "\<exists>m \<le> unat offset. acked m b (snd r) \<and> (m = unat offset \<or> stream (snd r) = [])"
      proof (cases "m_size b > 0 \<and> offset > 0")
        case False
        with 1(2) have "snd r = b" "unat offset = 0 \<or> m_size b = 0" by (auto simp: word_gt_0 unat_eq_0)
        with inv size_zero [OF inv] show ?thesis by (intro exI [of _ 0]) (auto simp: acked_0 same_data_refl)
      next
        case True
        let ?go = "\<lambda>b0 item rest. if offset \<ge> GetSize (m_packet item)
              then do {
                b1 \<leftarrow> RemoveFromCounts item (GetSize (m_packet item))
                       (b0\<lparr>m_size := m_size b0 - GetSize (m_packet item), m_sentSize := m_sentSize b0 - GetSize (m_packet item),
                           m_firstByteSeq := m_firstByteSeq b0 + GetSize (m_packet item)\<rparr>);
                loop now (offset - GetSize (m_packet item)) (gone @ [item]) (b1\<lparr>m_sentList := rest\<rparr>)
              }
              else do {
                b1 \<leftarrow> RemoveFromCounts item offset
                       (b0\<lparr>m_sentList := item\<lparr>m_packet := drop (unat offset) (m_packet item),
                                              m_startSeq := m_startSeq item + offset\<rparr> # rest,
                           m_size := m_size b0 - offset, m_sentSize := m_sentSize b0 - offset,
                           m_firstByteSeq := m_firstByteSeq b0 + offset\<rparr>);
                Some (gone, b1)
              }"
        from True 1(2) obtain b0 where f: "(if m_sentList b = []
               then do {
                 (copied, b') \<leftarrow> CopyFromSequence now offset (m_firstByteSeq b) b;
                 ns_assert (copied \<noteq> None);
                 Some b'
               }
               else Some b) = Some b0"
            and g: "(case m_sentList b0 of [] \<Rightarrow> None
              | item # rest \<Rightarrow> do { ns_assert (m_startSeq item = m_firstByteSeq b0); ?go b0 item rest }) = Some r"
          by (simp only: if_True simp_thms Let_def) (erule bind_eq_Some_conv [THEN iffD1, THEN exE], blast)
        have b0: "same_data b b0"
          using f same_data_refl [OF inv] CopyFromSequence_data(1) [OF inv]
          by (auto split: if_splits Option.bind_splits)
        from g obtain item rest where l0: "m_sentList b0 = item # rest" and c: "?go b0 item rest = Some r"
          by (cases "m_sentList b0") (auto simp: ns_assert_def simp del: if_split split: if_split_asm)
        note b0 = b0 l0
        have inv0: "tx_data b0" using b0(1) by (simp add: same_data_def)
        have bound: "sz item < 2147483648" using tx_data_bound [OF inv0] b0(2) by simp
        then have u: "unat (of_nat (sz item) :: uint32) = sz item" by (intro unat_of_nat32) simp
        have comb: "\<exists>m \<le> unat offset. acked m b (snd r) \<and> (m = unat offset \<or> stream (snd r) = [])"
          if "acked d b0 b2" "d + k \<le> unat offset" "acked k b2 (snd r)" "d + k = unat offset \<or> stream (snd r) = []" for d k b2
          using that b0(1) by (intro exI [of _ "d + k"]) (auto simp: acked_def same_data_def add.assoc add.commute)
        show ?thesis
        proof (cases "offset \<ge> GetSize (m_packet item)")
          case True
          then obtain x y z where l: "loop now (offset - of_nat (sz item)) (gone @ [item])
              (b0\<lparr>m_sentList := trim (sz item) item @ rest, m_size := m_size b0 - of_nat (sz item),
                m_sentSize := m_sentSize b0 - of_nat (sz item), m_firstByteSeq := m_firstByteSeq b0 + of_nat (sz item),
                m_sackedOut := x, m_retransOut := y, m_lostOut := z\<rparr>) = Some r"
            using c by (auto simp: GetSize_def trim_def move_sentList split: Option.bind_splits dest!: RemoveFromCounts_frame)
          have t: "unat (offset - of_nat (sz item)) = unat offset - sz item" "sz item \<le> unat offset"
            using True u by (simp_all add: GetSize_def unat_minus32 word_le_nat_alt)
          define b2 where "b2 = b0\<lparr>m_sentList := trim (sz item) item @ rest, m_size := m_size b0 - of_nat (sz item),
                m_sentSize := m_sentSize b0 - of_nat (sz item), m_firstByteSeq := m_firstByteSeq b0 + of_nat (sz item),
                m_sackedOut := x, m_retransOut := y, m_lostOut := z\<rparr>"
          have a: "acked (sz item) b0 b2"
            unfolding b2_def by (rule trim_data [OF inv0 b0(2) order_refl])
          then have "tx_data b2" by (simp add: acked_def)
          with 1(1) [OF l [folded b2_def]] obtain m where "m \<le> unat offset - sz item" "acked m b2 (snd r)"
              "m = unat offset - sz item \<or> stream (snd r) = []"
            unfolding t(1) by blast
          with comb [OF a, of m] t(2) show ?thesis by auto
        next
          case False
          then have d: "unat offset < sz item" using u by (simp add: GetSize_def word_le_nat_alt)
          then obtain x y z where l: "snd r = b0\<lparr>m_sentList := trim (unat offset) item @ rest, m_size := m_size b0 - of_nat (unat offset),
                m_sentSize := m_sentSize b0 - of_nat (unat offset), m_firstByteSeq := m_firstByteSeq b0 + of_nat (unat offset),
                m_sackedOut := x, m_retransOut := y, m_lostOut := z\<rparr>"
            using c False by (auto simp: trim_def split: Option.bind_splits dest!: RemoveFromCounts_frame)
          have a: "acked (unat offset) b0 (snd r)"
            unfolding l by (rule trim_data [OF inv0 b0(2)]) (use d in simp)
          with comb [OF a, of 0] show ?thesis by (auto simp: acked_def)
        qed
      qed
    qed
  qed
  with assms(2) show ?thesis by blast
qed

lemma seq_diff_word: "of_int (seq_diff a b) = a - b"
proof -
  have "- 1 - a + 1 + b = b - a" "- 1 - b + 1 + a = a - b" by simp_all
  then show ?thesis by (simp add: seq_diff_def Let_def)
qed

lemma unat_le32:
  assumes "uint (w :: 32 word) \<le> 2147483648"
  shows "unat w \<le> 2147483648"
proof -
  have "int (unat w) = uint w" by simp
  with assms have "int (unat w) \<le> int 2147483648" by simp
  then show ?thesis by (simp only: of_nat_le_iff)
qed

lemma tx_data_empty: "tx_data b \<Longrightarrow> stream b = [] \<Longrightarrow> m_sentList b = [] \<and> m_appList b = []"
  by (cases "m_sentList b"; cases "m_appList b") (auto simp: tx_data_def stream_def)

lemma same_data_acked: "acked k a b \<Longrightarrow> same_data b c \<Longrightarrow> acked k a c"
  by (simp add: acked_def same_data_def)

lemma DiscardUpTo_acked:
  assumes inv: "tx_data b" and r: "DiscardUpTo now sq b = Some (gone, b')" and later: "\<not> seq_ge (m_firstByteSeq b) sq"
  shows "acked (unat (sq - m_firstByteSeq b)) b b' \<and> unat (sq - m_firstByteSeq b) \<le> 2147483648"
proof -
  define k where "k = unat (sq - m_firstByteSeq b)"
  have sq: "sq = m_firstByteSeq b + of_nat k" by (simp add: k_def)
  have "seq_gt sq (m_firstByteSeq b)"
    using later seq_gt_flip [of sq "m_firstByteSeq b"] by (auto simp: seq_ge_def)
  then have "uint (sq - m_firstByteSeq b) \<le> 2147483648" by (auto simp: seq_gt_uint)
  then have k: "k \<le> 2147483648" unfolding k_def by (rule unat_le32)
  obtain g b1 b3 where l: "discard_loop now (sq - m_firstByteSeq b) [] b = Some (g, b1)"
      and u: "unsack_head (if m_size b1 = 0 then b1\<lparr>m_firstByteSeq := sq\<rparr> else b1) = Some b3"
      and b': "b' = b3 \<or> b' = b3\<lparr>m_highestSack := (EndIt, 0)\<rparr>"
    using r later by (auto simp: DiscardUpTo_def Let_def seq_diff_word split: Option.bind_splits if_splits)
  obtain m where m: "m \<le> k" "acked m b b1" "m = k \<or> stream b1 = []"
    using discard_loop_data [OF l inv] by (auto simp: k_def)
  have inv1: "tx_data b1" using m(2) by (simp add: acked_def)
  have a2: "acked k b (if m_size b1 = 0 then b1\<lparr>m_firstByteSeq := sq\<rparr> else b1)"
  proof (cases "m_size b1 = 0")
    case True
    then have e: "stream b1 = []" by (rule size_zero [OF inv1])
    with m have "drop k (stream b) = []" by (auto simp: acked_def)
    with True e tx_data_empty [OF inv1 e] inv1 sq show ?thesis by (simp add: acked_def tx_data_def stream_def)
  next
    case False
    then have "stream b1 \<noteq> []" using tx_data_empty [OF inv1] inv1 by (auto simp: tx_data_def)
    with False m show ?thesis by simp
  qed
  then have "tx_data (if m_size b1 = 0 then b1\<lparr>m_firstByteSeq := sq\<rparr> else b1)" by (simp only: acked_def)
  from same_data_acked [OF a2 flags_only_data [OF this unsack_head_flags [OF u]]] have "acked k b b3" .
  then have "acked k b b'" using b' by (auto simp: acked_def tx_data_def stream_def)
  with k show ?thesis by (simp add: k_def)
qed

theorem DiscardUpTo_data:
  assumes inv: "tx_data b" and r: "DiscardUpTo now sq b = Some (gone, b')"
  shows "\<exists>k \<le> 2147483648. acked k b b' \<and> (k = 0 \<or> m_firstByteSeq b' = sq)"
proof (cases "seq_ge (m_firstByteSeq b) sq")
  case True
  with r inv show ?thesis by (auto simp: DiscardUpTo_def acked_0 same_data_refl intro!: exI [of _ 0])
next
  case False
  note a = DiscardUpTo_acked [OF inv r False]
  then have "m_firstByteSeq b' = sq" by (simp add: acked_def)
  with a show ?thesis by blast
qed

section \<open>The other operations\<close>

lemma ResetLastSegmentSent_data:
  assumes inv: "tx_data b"
  shows "same_data b (ResetLastSegmentSent b)"
proof (cases "m_sentList b" rule: rev_cases)
  case Nil
  with inv show ?thesis by (simp add: ResetLastSegmentSent_def same_data_refl)
next
  case (snoc xs x)
  have "nodes_ok (xs @ x # m_appList b) (next_node b)" using inv snoc by (simp add: tx_data_def)
  then have "nodes_ok (xs @ x\<lparr>node := next_node b\<rparr> # m_appList b) (Suc (next_node b))"
    by (auto simp: nodes_ok_def less_SucI)
  with inv snoc show ?thesis
    by (simp add: same_data_def tx_data_def ResetLastSegmentSent_def Let_def GetSize_def stream_def)
qed

lemma Add_data:
  assumes inv: "tx_data b" and p: "length p < 4294967296" and r: "Add p b = (ok, b')"
  shows "tx_data b' \<and> m_firstByteSeq b' = m_firstByteSeq b \<and> stream b' = stream b @ (if ok then p else [])"
proof -
  have t: "tx_total b \<le> unat (m_maxBuffer b)" "m_size b = of_nat (tx_total b)" "tx_total b < 2147483648"
    using inv tx_data_bound [OF inv] by (simp_all add: tx_data_def)
  have "unat (m_size b) = tx_total b"
    unfolding t(2) using t(3) by (intro unat_of_nat32) simp
  then have av: "unat (Available b) = unat (m_maxBuffer b) - tx_total b"
    unfolding Available_def using t(1) by (simp add: unat_minus32)
  have sz: "unat (GetSize p) = length p"
    unfolding GetSize_def using p by (intro unat_of_nat32) simp
  then have pos: "GetSize p > 0 \<longleftrightarrow> p \<noteq> []" by (auto simp: word_less_nat_alt)
  have le: "GetSize p \<le> Available b \<longleftrightarrow> tx_total b + length p \<le> unat (m_maxBuffer b)"
    unfolding word_le_nat_alt av sz using t(1) by auto
  consider "\<not> GetSize p \<le> Available b" "(ok, b') = (False, b)" | "p = []" "(ok, b') = (True, b)"
    | "p \<noteq> []" "tx_total b + length p \<le> unat (m_maxBuffer b)" "ok"
      "b' = b\<lparr>m_appList := m_appList b @ [new_item (next_node b) p], m_size := m_size b + GetSize p, next_node := next_node b + 1\<rparr>"
    using r le pos by (auto simp: Add_def split: if_splits)
  then show ?thesis
  proof cases
    case 3
    have "\<forall>i \<in> set (m_sentList b) \<union> set (m_appList b). node i < next_node b"
      using inv by (simp add: tx_data_def nodes_ok_def)
    then have "next_node b \<notin> node ` (set (m_sentList b) \<union> set (m_appList b))"
      by (metis imageE less_irrefl)
    then have "nodes_ok (m_sentList b @ m_appList b @ [new_item (next_node b) p]) (Suc (next_node b))"
      using inv by (auto simp: nodes_ok_def new_item_def tx_data_def less_Suc_eq)
    with inv 3 show ?thesis
      by (simp add: tx_data_def new_item_def GetSize_def add.assoc stream_def)
  qed (use inv in auto)
qed

text \<open>
  What the socket does with its send buffer, but for adding data and the start of a connection, when the
  acknowledgements that arrive satisfy \<open>K\<close>.
\<close>

inductive tx_internal :: "(seq32 \<Rightarrow> bool) \<Rightarrow> tx_buffer \<Rightarrow> tx_buffer \<Rightarrow> bool" for K where
  copy: "CopyFromSequence now n sq b = Some (r, b') \<Longrightarrow> tx_internal K b b'"
| last: "tx_internal K b (ResetLastSegmentSent b)"
| head: "tx_internal K b (MarkHeadAsLost b)"
| reno: "AddRenoSack b = Some b' \<Longrightarrow> tx_internal K b b'"
| reset: "tx_internal K b (ResetRenoSack b)"
| lost: "SetSentListLost r b = Some b' \<Longrightarrow> tx_internal K b b'"
| sack: "Update blks b = Some (n, cbs, b') \<Longrightarrow> tx_internal K b b'"
| ack: "K sq \<Longrightarrow> DiscardUpTo now sq b = Some (gone, b') \<Longrightarrow> tx_internal K b b'"
| enable: "tx_internal K b (SetSackEnabled x b)"

lemma tx_internal_data:
  assumes "tx_internal K b b'" "tx_data b"
  shows "\<exists>k \<le> 2147483648. acked k b b' \<and> (k = 0 \<or> K (m_firstByteSeq b'))"
proof -
  have 0: "\<exists>k \<le> 2147483648. acked k b b' \<and> (k = 0 \<or> K (m_firstByteSeq b'))" if "same_data b b'" for b b'
    using that by (intro exI [of _ 0]) (simp add: acked_0)
  from assms show ?thesis
  proof induction
    case (ack sq now b gone b')
    then show ?case using DiscardUpTo_data by blast
  qed (blast intro: 0 flags_only_data flags_only CopyFromSequence_data(1) ResetLastSegmentSent_data)+
qed

end
