(* ===== verification/SockMoves.thy ===== *)
theory SockMoves
  imports SockFwd TxDataOps
begin

text \<open>
  Partial correctness of functions in the option monad: \<open>yields m Q\<close> says that a result of \<open>m\<close>, if
  there is one, satisfies \<open>Q\<close>. The rules follow the text of a function; the rule of an operation takes
  what follows the call as its last premise, so that a proof about a handler is a chain of rules. Then
  the contract of a socket, and the elementary changes that keep it.
\<close>

definition yields :: "'a option \<Rightarrow> ('a \<Rightarrow> bool) \<Rightarrow> bool" where
  "yields m Q \<longleftrightarrow> (\<forall>x. m = Some x \<longrightarrow> Q x)"

lemma yieldsD: "yields m Q \<Longrightarrow> m = Some x \<Longrightarrow> Q x"
  by (simp add: yields_def)

lemma yields_mono: "yields m P \<Longrightarrow> (\<And>x. P x \<Longrightarrow> Q x) \<Longrightarrow> yields m Q"
  by (simp add: yields_def)

lemma yields_Some: "Q x \<Longrightarrow> yields (Some x) Q"
  by (simp add: yields_def)

lemma yields_None: "yields None Q"
  by (simp add: yields_def)

lemma yields_bind: "yields m (\<lambda>x. yields (f x) Q) \<Longrightarrow> yields (m \<bind> f) Q"
  by (auto simp: yields_def bind_eq_Some_conv)

lemma yields_assert: "(P \<Longrightarrow> Q ()) \<Longrightarrow> yields (ns_assert P) Q"
  by (simp add: yields_def ns_assert_def)

lemma yields_if: "(P \<Longrightarrow> yields a Q) \<Longrightarrow> (\<not> P \<Longrightarrow> yields b Q) \<Longrightarrow> yields (if P then a else b) Q"
  by simp

lemma yields_let: "(\<And>x. x = a \<Longrightarrow> yields (f x) Q) \<Longrightarrow> yields (let x = a in f x) Q"
  by (simp add: Let_def)

lemma yields_prod: "(\<And>a b. p = (a, b) \<Longrightarrow> yields (f a b) Q) \<Longrightarrow> yields (case p of (a, b) \<Rightarrow> f a b) Q"
  by (cases p) simp

lemma yields_option:
  "(m = None \<Longrightarrow> yields a Q) \<Longrightarrow> (\<And>x. m = Some x \<Longrightarrow> yields (f x) Q) \<Longrightarrow>
     yields (case m of None \<Rightarrow> a | Some x \<Rightarrow> f x) Q"
  by (cases m) auto

lemma yields_sum:
  "(\<And>x. m = Inl x \<Longrightarrow> yields (f x) Q) \<Longrightarrow> (\<And>x. m = Inr x \<Longrightarrow> yields (g x) Q) \<Longrightarrow>
     yields (case m of Inl x \<Rightarrow> f x | Inr x \<Rightarrow> g x) Q"
  by (cases m) auto

lemma yields_map: "yields m (\<lambda>x. Q (f x)) \<Longrightarrow> yields (map_option f m) Q"
  by (auto simp: yields_def)

text \<open>A function about which nothing has to be known.\<close>

lemma yields_any: "(\<And>x. Q x) \<Longrightarrow> yields m Q"
  by (simp add: yields_def)

lemmas yields_basic =
  yields_Some yields_None yields_bind yields_assert yields_if yields_prod yields_option yields_sum yields_map

section \<open>What an operation leaves alone\<close>

lemma yields_on_cc:
  "(\<And>c t. Q (s\<lparr>m_congestionControl := c, m_tcb := t\<rparr>)) \<Longrightarrow> yields (on_cc f s) Q"
  unfolding on_cc_def by (rule yields_any yields_basic)+ simp

lemma yields_on_rec:
  "(\<And>r t. Q (s\<lparr>m_recoveryOps := r, m_tcb := t\<rparr>)) \<Longrightarrow> yields (on_rec f s) Q"
  unfolding on_rec_def by (rule yields_any yields_basic)+ simp

lemma yields_calls:
  "(\<And>c t. Q (s\<lparr>m_congestionControl := c, m_tcb := t\<rparr>)) \<Longrightarrow> yields (call_PktsAcked e n s) Q"
  "(\<And>c t. Q (s\<lparr>m_congestionControl := c, m_tcb := t\<rparr>)) \<Longrightarrow> yields (call_IncreaseWindow e n s) Q"
  "(\<And>c t. Q (s\<lparr>m_congestionControl := c, m_tcb := t\<rparr>)) \<Longrightarrow> yields (call_CwndEvent e ev s) Q"
  unfolding call_PktsAcked_def call_IncreaseWindow_def call_CwndEvent_def by (rule yields_on_cc; simp)+

text \<open>
  The contract of a socket with its observers. A property of the connection state, the send buffer,
  the bytes written and the segments sent is kept by every operation of the socket, if it is kept by
  the six kinds of elementary changes that the locale \<open>sock_contract\<close> lists; \<open>K\<close> says which
  acknowledgement numbers arrive. The lemmas below, one per
  operation of \<open>TcpSocketBase\<close>, are proved once in the locale; what the sockets then satisfy are its
  interpretations.
\<close>

section \<open>The transitions\<close>

inductive tcp_edge :: "TcpStates \<Rightarrow> TcpStates \<Rightarrow> bool" where
  "tcp_edge SYN_SENT SYN_RCVD"
| "tcp_edge SYN_SENT ESTABLISHED"
| "tcp_edge SYN_RCVD ESTABLISHED"
| "tcp_edge SYN_RCVD FIN_WAIT_1"
| "tcp_edge SYN_RCVD CLOSE_WAIT"
| "tcp_edge ESTABLISHED FIN_WAIT_1"
| "tcp_edge ESTABLISHED CLOSE_WAIT"
| "tcp_edge FIN_WAIT_1 FIN_WAIT_2"
| "tcp_edge FIN_WAIT_1 CLOSING"
| "tcp_edge FIN_WAIT_1 CLOSE_WAIT"
| "tcp_edge FIN_WAIT_2 CLOSE_WAIT"
| "tcp_edge FIN_WAIT_2 TIME_WAIT"
| "tcp_edge CLOSING TIME_WAIT"
| "tcp_edge CLOSE_WAIT LAST_ACK"
| "tcp_edge st CLOSED"

type_synonym sock_property = "TcpStates \<Rightarrow> tx_buffer \<Rightarrow> uint8 list \<Rightarrow> segment list \<Rightarrow> bool"

text \<open>The callbacks of the application may call the socket, but keep the property.\<close>

definition app_keeps :: "sock_property \<Rightarrow> ('c, 'r) env \<Rightarrow> bool" where
  "app_keeps P e \<longleftrightarrow> (\<forall>ev s s'. Notify e ev s = Some s' \<longrightarrow>
     P (m_state s) (m_txBuffer s) (written_log s) (sent_log s) \<longrightarrow>
     P (m_state s') (m_txBuffer s') (written_log s') (sent_log s'))"

section \<open>What a property cannot see\<close>

abbreviation view :: "('c, 'r) sock \<Rightarrow> TcpStates \<times> tx_buffer \<times> uint8 list \<times> segment list" where
  "view s \<equiv> (m_state s, m_txBuffer s, written_log s, sent_log s)"

named_theorems silent "operations that leave the view of a socket alone"
named_theorems keeps "operations that keep a property"

lemma let_view:
  fixes a :: "('c, 'r) sock"
  assumes "view a = v" "\<And>x. view x = v \<Longrightarrow> yields (f x) Q"
  shows "yields (let x = a in f x) Q"
  using assms by (simp add: Let_def)

lemma let_pair_view:
  fixes a :: "'h \<times> ('c, 'r) sock"
  assumes "view (snd a) = v" "\<And>x. view (snd x) = v \<Longrightarrow> yields (f x) Q"
  shows "yields (let x = a in f x) Q"
  using assms by (simp add: Let_def)

lemma let_forget: "(\<And>x. yields (f x) Q) \<Longrightarrow> yields (let x = a in f x) Q"
  by (simp add: Let_def)

lemma yields_know: "(\<And>x. m = Some x \<Longrightarrow> Q x) \<Longrightarrow> yields m Q"
  by (simp add: yields_def)

lemma yields_bool:
  "(b \<Longrightarrow> yields x Q) \<Longrightarrow> (\<not> b \<Longrightarrow> yields y Q) \<Longrightarrow> yields (case b of True \<Rightarrow> x | False \<Rightarrow> y) Q"
  by (cases b) simp_all

lemma set_ecn_view [simp]:
  "m_state (set_EcnState st s) = m_state s" "m_txBuffer (set_EcnState st s) = m_txBuffer s"
  "written_log (set_EcnState st s) = written_log s" "sent_log (set_EcnState st s) = sent_log s"
  by (simp_all add: set_EcnState_def)

lemma CancelAllTimers_view [simp]:
  "m_state (CancelAllTimers s) = m_state s" "m_txBuffer (CancelAllTimers s) = m_txBuffer s"
  "written_log (CancelAllTimers s) = written_log s" "sent_log (CancelAllTimers s) = sent_log s"
  by (simp_all add: CancelAllTimers_def)

lemma DeallocateEndPoint_view [simp]:
  "m_state (DeallocateEndPoint s) = m_state s" "m_txBuffer (DeallocateEndPoint s) = m_txBuffer s"
  "written_log (DeallocateEndPoint s) = written_log s" "sent_log (DeallocateEndPoint s) = sent_log s"
  by (simp_all add: DeallocateEndPoint_def)

lemma UpdateWindowSize_view [simp]:
  "m_state (UpdateWindowSize h s) = m_state s" "m_txBuffer (UpdateWindowSize h s) = m_txBuffer s"
  "written_log (UpdateWindowSize h s) = written_log s" "sent_log (UpdateWindowSize h s) = sent_log s"
  by (simp_all add: UpdateWindowSize_def Let_def)

lemma SetPeer_view [simp]:
  "m_state (SetPeer from s) = m_state s" "m_txBuffer (SetPeer from s) = m_txBuffer s"
  "written_log (SetPeer from s) = written_log s" "sent_log (SetPeer from s) = sent_log s"
  by (simp_all add: SetPeer_def)

lemma ack_fields_view [simp]:
  "m_state (snd (ack_fields h s)) = m_state s" "m_txBuffer (snd (ack_fields h s)) = m_txBuffer s"
  "written_log (snd (ack_fields h s)) = written_log s" "sent_log (snd (ack_fields h s)) = sent_log s"
  by (simp_all add: ack_fields_def Let_def)

lemma SendPacket_view [simp]:
  "m_state (SendPacket ep h p s) = m_state s" "m_txBuffer (SendPacket ep h p s) = m_txBuffer s"
  "written_log (SendPacket ep h p s) = written_log s"
  "sent_log (SendPacket ep h p s) = sent_log s @
     [\<lparr>seg_source = local_address ep, seg_destination = peer_address ep, seg_header = h, seg_data = p\<rparr>]"
  by (simp_all add: SendPacket_def)

lemma on_cc_silent [silent]: "(\<And>s'. view s' = view s \<Longrightarrow> Q s') \<Longrightarrow> yields (on_cc f s) Q"
  by (rule yields_on_cc) simp

lemma on_rec_silent [silent]: "(\<And>s'. view s' = view s \<Longrightarrow> Q s') \<Longrightarrow> yields (on_rec f s) Q"
  by (rule yields_on_rec) simp

lemma call_silent [silent]:
  "(\<And>s'. view s' = view s \<Longrightarrow> Q s') \<Longrightarrow> yields (call_PktsAcked e n s) Q"
  "(\<And>s'. view s' = view s \<Longrightarrow> Q s') \<Longrightarrow> yields (call_IncreaseWindow e n s) Q"
  "(\<And>s'. view s' = view s \<Longrightarrow> Q s') \<Longrightarrow> yields (call_CwndEvent e ev s) Q"
  by (rule yields_calls; simp)+

lemma set_CongState_silent [silent]: "(\<And>s'. view s' = view s \<Longrightarrow> Q s') \<Longrightarrow> yields (set_CongState e st s) Q"
  unfolding set_CongState_def by (rule yields_basic silent | simp)+

lemma reduce_SsThresh_silent [silent]: "(\<And>s'. view s' = view s \<Longrightarrow> Q s') \<Longrightarrow> yields (reduce_SsThresh e n s) Q"
  unfolding reduce_SsThresh_def by (rule yields_any yields_basic)+ simp

lemma BytesInFlight_silent [silent]: "(\<And>n s'. view s' = view s \<Longrightarrow> Q (n, s')) \<Longrightarrow> yields (sock_BytesInFlight s) Q"
  unfolding sock_BytesInFlight_def by (rule yields_any yields_basic)+ simp

lemma AvailableWindow_silent [silent]: "(\<And>n s'. view s' = view s \<Longrightarrow> Q (n, s')) \<Longrightarrow> yields (AvailableWindow s) Q"
  unfolding AvailableWindow_def by (rule yields_basic yields_let silent | simp)+

lemma AdvertisedWindowSize_silent [silent]:
  "(\<And>n s'. view s' = view s \<Longrightarrow> Q (n, s')) \<Longrightarrow> yields (AdvertisedWindowSize scale s) Q"
  unfolding AdvertisedWindowSize_def Let_def by (rule yields_bind, rule yields_any, rule yields_Some) simp

lemma AddOptionWScale_silent [silent]:
  "(\<And>h s'. view s' = view s \<Longrightarrow> Q (h, s')) \<Longrightarrow> yields (AddOptionWScale h s) Q"
  unfolding AddOptionWScale_def Let_def by (rule yields_any yields_basic)+ simp

lemma EnterCwr_silent [silent]: "(\<And>s'. view s' = view s \<Longrightarrow> Q s') \<Longrightarrow> yields (sock_EnterCwr e n s) Q"
  unfolding sock_EnterCwr_def by (rule yields_basic let_view [where v = "view s"] silent | simp)+

lemma count_segments_silent [silent]:
  "(\<And>a b s'. view s' = view s \<Longrightarrow> Q (a, b, s')) \<Longrightarrow> yields (count_segments n s) Q"
  unfolding count_segments_def by (rule yields_basic let_view [where v = "view s"] let_forget | simp)+

lemma yields_cong_state:
  "(c = CA_OPEN \<Longrightarrow> yields a Q) \<Longrightarrow> (c = CA_DISORDER \<Longrightarrow> yields b Q) \<Longrightarrow> (c = CA_CWR \<Longrightarrow> yields d Q) \<Longrightarrow>
   (c = CA_RECOVERY \<Longrightarrow> yields f Q) \<Longrightarrow> (c = CA_LOSS \<Longrightarrow> yields g Q) \<Longrightarrow>
   yields (case c of CA_OPEN \<Rightarrow> a | CA_DISORDER \<Rightarrow> b | CA_CWR \<Rightarrow> d | CA_RECOVERY \<Rightarrow> f | CA_LOSS \<Rightarrow> g) Q"
  by (cases c) simp_all

lemma leave_episode_silent [silent]:
  "(\<And>x n s'. view s' = view s \<Longrightarrow> Q (x, n, s')) \<Longrightarrow> yields (leave_episode e a h g o' d s) Q"
  unfolding leave_episode_def
  by (rule yields_basic yields_cong_state let_view [where v = "view s"] silent let_forget | simp)+

lemma complete_cwr_silent [silent]: "(\<And>s'. view s' = view s \<Longrightarrow> Q s') \<Longrightarrow> yields (complete_cwr e a s) Q"
  unfolding complete_cwr_def by (rule yields_basic silent | simp)+

lemma ecn_echo_silent [silent]: "(\<And>s'. view s' = view s \<Longrightarrow> Q s') \<Longrightarrow> yields (ecn_echo e x a h n s) Q"
  unfolding ecn_echo_def by (rule yields_basic let_view [where v = "view s"] silent | simp)+

lemma schedule_last_ack_silent [silent]: "(\<And>s'. view s' = view s \<Longrightarrow> Q s') \<Longrightarrow> yields (schedule_last_ack e s) Q"
  unfolding schedule_last_ack_def by (rule yields_any yields_basic)+ simp

lemma ProcessOptionWScale_silent [silent]: "(\<And>s'. view s' = view s \<Longrightarrow> Q s') \<Longrightarrow> yields (ProcessOptionWScale op s) Q"
  unfolding ProcessOptionWScale_def by (rule yields_any yields_basic)+ simp

lemma ProcessOptionTimestamp_silent [silent]:
  "(\<And>s'. view s' = view s \<Longrightarrow> Q s') \<Longrightarrow> yields (ProcessOptionTimestamp op sq s) Q"
  unfolding ProcessOptionTimestamp_def by (rule yields_bind, rule yields_any) (auto simp: yields_def Let_def split: prod.splits)

lemma EstimateRtt_silent [silent]: "(\<And>s'. view s' = view s \<Longrightarrow> Q s') \<Longrightarrow> yields (EstimateRtt e h s) Q"
  unfolding EstimateRtt_def
  by (rule yields_bind, rule yields_any) (rule yields_basic let_view [where v = "view s"] yields_any | simp)+

lemma receive_ack_fields_silent [silent]:
  "(\<And>r. (case r of None \<Rightarrow> True | Some s' \<Rightarrow> view s' = view s) \<Longrightarrow> Q r) \<Longrightarrow> yields (receive_ack_fields e h s) Q"
  unfolding receive_ack_fields_def by (rule silent yields_basic yields_any | simp)+

lemma enter_persist_silent [silent]: "(\<And>s'. view s' = view s \<Longrightarrow> Q s') \<Longrightarrow> yields (enter_persist e s) Q"
  unfolding enter_persist_def by (rule yields_basic yields_any | simp)+

lemma Recv_silent [silent]: "(\<And>r. view (snd r) = view s \<Longrightarrow> Q r) \<Longrightarrow> yields (sock_Recv n s) Q"
  unfolding sock_Recv_def by (rule yields_basic yields_any | simp)+

section \<open>What the header of a segment carries\<close>

lemma AppendOption_sequence [simp]: "m_sequenceNumber (snd (AppendOption op h)) = m_sequenceNumber h"
  by (simp add: AppendOption_def Let_def)

lemma header_sequence [simp]:
  "m_sequenceNumber (AddOptions e h s) = m_sequenceNumber h"
  "m_sequenceNumber (SetWindowSize w h) = m_sequenceNumber h"
  "m_sequenceNumber (base_header ep flags sq s) = sq"
  by (simp_all add: AddOptions_def AddOptionTimestamp_def SetWindowSize_def base_header_def SetDestinationPort_def
      SetSourcePort_def SetAckNumber_def SetSequenceNumber_def)

section \<open>The contract\<close>

locale sock_contract =
  fixes P :: sock_property and K :: "seq32 \<Rightarrow> bool"
  assumes edge: "P st b w l \<Longrightarrow> tcp_edge st st' \<Longrightarrow> P st' b w l"
    and internal: "P st b w l \<Longrightarrow> tx_internal K b b' \<Longrightarrow> P st b' w l"
    and handshake: "P st b w l \<Longrightarrow> st = SYN_SENT \<or> st = SYN_RCVD \<Longrightarrow> SetHeadSequence n b = Some b' \<Longrightarrow> P st b' w l"
    and written: "P st b w l \<Longrightarrow> Add p b = (True, b') \<Longrightarrow> length p < 4294967296 \<Longrightarrow> P st b' (w @ p) l"
    and control: "P st b w l \<Longrightarrow> seg_data sg = [] \<Longrightarrow> P st b w (l @ [sg])"
    and data: "P st b w l \<Longrightarrow> CopyFromSequence now n (m_sequenceNumber (seg_header sg)) b = Some (Some it, b') \<Longrightarrow>
      seg_data sg = m_packet it \<Longrightarrow> P st b' w (l @ [sg])"
begin

abbreviation ok :: "('c, 'r) sock \<Rightarrow> bool" where
  "ok s \<equiv> P (m_state s) (m_txBuffer s) (written_log s) (sent_log s)"

text \<open>What the guards of the code give.\<close>

lemma edges [simp]:
  "P SYN_SENT b w l \<Longrightarrow> P SYN_RCVD b w l" "P SYN_SENT b w l \<Longrightarrow> P ESTABLISHED b w l" "P SYN_RCVD b w l \<Longrightarrow> P ESTABLISHED b w l"
  "P SYN_RCVD b w l \<Longrightarrow> P FIN_WAIT_1 b w l" "P ESTABLISHED b w l \<Longrightarrow> P FIN_WAIT_1 b w l" "P FIN_WAIT_1 b w l \<Longrightarrow> P FIN_WAIT_2 b w l"
  "P SYN_RCVD b w l \<Longrightarrow> P CLOSE_WAIT b w l" "P ESTABLISHED b w l \<Longrightarrow> P CLOSE_WAIT b w l"
  "P FIN_WAIT_1 b w l \<Longrightarrow> P CLOSE_WAIT b w l" "P FIN_WAIT_2 b w l \<Longrightarrow> P CLOSE_WAIT b w l"
  "P FIN_WAIT_1 b w l \<Longrightarrow> P CLOSING b w l" "P FIN_WAIT_2 b w l \<Longrightarrow> P TIME_WAIT b w l" "P CLOSING b w l \<Longrightarrow> P TIME_WAIT b w l"
  "P CLOSE_WAIT b w l \<Longrightarrow> P LAST_ACK b w l"
  by (erule edge, rule tcp_edge.intros)+

lemma closed: "P st b w l \<Longrightarrow> P CLOSED b w l"
  by (erule edge) (rule tcp_edge.intros)

lemma internal_flags [simp]:
  "P st b w l \<Longrightarrow> P st (MarkHeadAsLost b) w l" "P st b w l \<Longrightarrow> P st (ResetRenoSack b) w l"
  "P st b w l \<Longrightarrow> P st (SetSackEnabled x b) w l" "P st b w l \<Longrightarrow> P st (ResetLastSegmentSent b) w l"
  by (erule internal, rule tx_internal.intros)+

lemma control_log [simp]: "P st b w l \<Longrightarrow> seg_data sg = [] \<Longrightarrow> P st b w (l @ [sg])"
  by (rule control)

lemma let_ok:
  fixes a :: "('c, 'r) sock"
  assumes "ok a" "\<And>x. ok x \<Longrightarrow> yields (f x) Q"
  shows "yields (let x = a in f x) Q"
  using assms by (simp add: Let_def)

lemma let_pair_ok:
  fixes a :: "'h \<times> ('c, 'r) sock"
  assumes "ok (snd a)" "\<And>x. ok (snd x) \<Longrightarrow> yields (f x) Q"
  shows "yields (let x = a in f x) Q"
  using assms by (simp add: Let_def)

text \<open>The state of the guard and of the assignment that follows.\<close>

lemma let_state:
  fixes a :: "('c, 'r) sock"
  assumes "ok a" "m_state a = st" "\<And>x. ok x \<Longrightarrow> m_state x = st \<Longrightarrow> yields (f x) Q"
  shows "yields (let x = a in f x) Q"
  using assms by (simp add: Let_def)

lemma Notify_keeps [keeps]: "app_keeps P e \<Longrightarrow> ok s \<Longrightarrow> (\<And>s'. ok s' \<Longrightarrow> Q s') \<Longrightarrow> yields (Notify e ev s) Q"
  unfolding yields_def app_keeps_def by blast

lemma notify_send_keeps [keeps]: "app_keeps P e \<Longrightarrow> ok s \<Longrightarrow> (\<And>s'. ok s' \<Longrightarrow> Q s') \<Longrightarrow> yields (notify_send e s) Q"
  unfolding notify_send_def by (rule Notify_keeps)

lemma notify_close_keeps [keeps]: "app_keeps P e \<Longrightarrow> ok s \<Longrightarrow> (\<And>s'. ok s' \<Longrightarrow> Q s') \<Longrightarrow> yields (notify_close e s) Q"
  unfolding notify_close_def by (rule yields_basic keeps | assumption | simp)+

lemma CloseAndNotify_keeps [keeps]: "app_keeps P e \<Longrightarrow> ok s \<Longrightarrow> (\<And>s'. ok s' \<Longrightarrow> Q s') \<Longrightarrow> yields (CloseAndNotify e s) Q"
  unfolding CloseAndNotify_def by (rule yields_basic keeps | assumption | (simp add: closed; fail))+

lemma TimeWait_keeps [keeps]:
  "app_keeps P e \<Longrightarrow> P TIME_WAIT (m_txBuffer s) (written_log s) (sent_log s) \<Longrightarrow> (\<And>s'. ok s' \<Longrightarrow> Q s') \<Longrightarrow> yields (TimeWait e s) Q"
  unfolding TimeWait_def by (rule yields_basic keeps yields_any | assumption | simp)+

section \<open>Segments without data\<close>

lemma syn_fields_keeps [keeps]:
  assumes "app_keeps P e" "ok s" "\<And>r. (case r of Inl (h, w, s') \<Rightarrow> ok s' | Inr s' \<Rightarrow> ok s') \<Longrightarrow> Q r"
  shows "yields (syn_fields e sq h s) Q"
  unfolding syn_fields_def
  by (rule yields_basic let_ok keeps silent assms(1) assms(3) yields_any
      | (insert assms(2), simp; fail) | (simp, erule closed; fail) | simp)+

lemma SendEmptyPacket_any:
  assumes "app_keeps P e" "ok s" "\<And>s'. ok s' \<Longrightarrow> Q s'"
  shows "yields (SendEmptyPacket e flags s) Q"
  unfolding SendEmptyPacket_def
  by (rule yields_basic let_ok let_pair_ok keeps silent yields_let assms(1) assms(3) yields_any
      | (insert assms(2), simp; fail) | simp)+

text \<open>Without a SYN no callback is made.\<close>

lemma let_pair_state:
  fixes a :: "'h \<times> ('c, 'r) sock"
  assumes "ok (snd a)" "m_state (snd a) = st" "\<And>x. ok (snd x) \<Longrightarrow> m_state (snd x) = st \<Longrightarrow> yields (f x) Q"
  shows "yields (let x = a in f x) Q"
  using assms by (simp add: Let_def)

lemma no_syn_or_ack: "\<not> has_flag flags F_SYN \<Longrightarrow> \<not> has_flag (flags OR F_ACK) F_SYN"
  by (simp add: has_flag_def bit.conj_disj_distrib2)

lemma syn_absurd: "False \<Longrightarrow> yields (syn_fields e sq h s) Q"
  by simp

lemma SendEmptyPacket_keeps [keeps]:
  assumes "\<not> has_flag flags F_SYN" "ok s" "\<And>s'. ok s' \<Longrightarrow> m_state s' = m_state s \<Longrightarrow> Q s'"
  shows "yields (SendEmptyPacket e flags s) Q"
  unfolding SendEmptyPacket_def
  by (rule yields_basic let_state [where st = "m_state s"] let_pair_state [where st = "m_state s"] syn_absurd
        AdvertisedWindowSize_silent yields_let assms(3) yields_any
      | (insert assms(1,2) no_syn_or_ack [of flags], simp split: if_splits; fail) | simp)+

lemma has_flag_eval [simp]:
  "has_flag (numeral v) (numeral w) \<longleftrightarrow> (numeral v :: uint8) AND numeral w \<noteq> 0"
  "has_flag 1 (numeral w) \<longleftrightarrow> (1 :: uint8) AND numeral w \<noteq> 0"
  "has_flag (numeral v) 1 \<longleftrightarrow> (numeral v :: uint8) AND 1 \<noteq> 0"
  by (simp_all add: has_flag_def)

lemma SendRST_keeps [keeps]: "app_keeps P e \<Longrightarrow> ok s \<Longrightarrow> (\<And>s'. ok s' \<Longrightarrow> Q s') \<Longrightarrow> yields (SendRST e s) Q"
  unfolding SendRST_def by (rule yields_basic keeps | assumption | simp)+

lemma send_ack_keeps [keeps]: "ok s \<Longrightarrow> (\<And>s'. ok s' \<Longrightarrow> m_state s' = m_state s \<Longrightarrow> Q s') \<Longrightarrow> yields (send_ack e s) Q"
  unfolding send_ack_def by (rule yields_basic keeps | assumption | simp)+

section \<open>Data segments\<close>

text \<open>A segment has been copied out of the buffer and may be sent now.\<close>

definition ready :: "seq32 \<Rightarrow> uint8 list \<Rightarrow> sock_property" where
  "ready sq p st b w l \<longleftrightarrow> P st b w l \<and>
     (\<forall>sg. m_sequenceNumber (seg_header sg) = sq \<longrightarrow> seg_data sg = p \<longrightarrow> P st b w (l @ [sg]))"

abbreviation sending :: "seq32 \<Rightarrow> uint8 list \<Rightarrow> ('c, 'r) sock \<Rightarrow> bool" where
  "sending sq p s \<equiv> ready sq p (m_state s) (m_txBuffer s) (written_log s) (sent_log s)"

lemma ready_copy:
  "P st b w l \<Longrightarrow> CopyFromSequence now n sq b = Some (Some it, b') \<Longrightarrow> ready sq (m_packet it) st b' w l"
  unfolding ready_def by (auto intro: data internal tx_internal.copy)

lemma ready_last: "ready sq p st b w l \<Longrightarrow> ready sq p st (ResetLastSegmentSent b) w l"
  unfolding ready_def by simp

lemma ready_log: "ready sq p st b w l \<Longrightarrow> m_sequenceNumber (seg_header sg) = sq \<Longrightarrow> seg_data sg = p \<Longrightarrow> P st b w (l @ [sg])"
  unfolding ready_def by blast

lemma ready_close: "ready sq p st b w l \<Longrightarrow> ready sq p (snd (close_flags c st)) b w l"
  unfolding ready_def close_flags_def by auto

lemma let_copied:
  fixes s :: "('c, 'r) sock"
  assumes "ok s" "CopyFromSequence now n sq (m_txBuffer s) = Some (Some it, b)"
    and "\<And>x. sending sq (m_packet it) x \<Longrightarrow> yields (f x) Q"
  shows "yields (let x = s\<lparr>m_txBuffer := b\<rparr> in f x) Q"
  using assms ready_copy by (auto simp: Let_def)

lemma let_sending:
  fixes a :: "('c, 'r) sock"
  assumes "ready sq p st b w l" "view a = (st, b, w, l)" "\<And>x. sending sq p x \<Longrightarrow> yields (f x) Q"
  shows "yields (let x = a in f x) Q"
  using assms by (simp add: Let_def)

lemma let_closing:
  assumes "sending sq p s" "\<And>fin st. ready sq p st (m_txBuffer s) (written_log s) (sent_log s) \<Longrightarrow> yields (f fin st) Q"
  shows "yields (Let (close_flags c (m_state s)) (case_prod f)) Q"
  using ready_close [OF assms(1), of c] assms(2) by (cases "close_flags c (m_state s)") simp

lemma let_header:
  fixes a :: tcp_header
  assumes "m_sequenceNumber a = sq" "\<And>x. m_sequenceNumber x = sq \<Longrightarrow> yields (f x) Q"
  shows "yields (let x = a in f x) Q"
  using assms by (simp add: Let_def)

lemma let_sent:
  fixes a :: "('c, 'r) sock"
  assumes "ready sq p st b w l" "view a = (st, b, w, l)" "m_sequenceNumber h = sq" "\<And>x. ok x \<Longrightarrow> yields (f x) Q"
  shows "yields (let x = SendPacket ep h p a in f x) Q"
  using ready_log [OF assms(1)] assms(2,3,4) by (simp add: Let_def)

lemma SendDataPacket_keeps [keeps]:
  assumes "ok s" "\<And>n s'. ok s' \<Longrightarrow> Q (n, s')"
  shows "yields (SendDataPacket e sq n withAck s) Q"
  unfolding SendDataPacket_def
  by (rule BytesInFlight_silent AdvertisedWindowSize_silent yields_basic
      | (rule let_copied [where now = "Now e" and n = n and sq = sq], (insert assms(1), simp; fail), (simp; fail))
      | (rule let_sent, assumption, (simp; fail), (simp; fail))
      | (rule let_closing, assumption)
      | (rule let_sending, assumption, (simp; fail))
      | (rule let_header [where sq = sq], (simp; fail))
      | (rule let_ok, (simp; fail))
      | rule let_forget assms(2) yields_know
      | simp; fail)+

end

end
