(* ===== verification/SockKeeps.thy ===== *)
theory SockKeeps
  imports SockMoves
begin

text \<open>
  Every operation of a socket keeps a property that satisfies the contract: the loop that sends data,
  acknowledgements and loss recovery, timeouts, received data and the calls that close a connection.
\<close>

context sock_contract
begin

section \<open>Sending\<close>

lemma send_loop_ok:
  assumes "send_loop e withAck n s = Some r" "app_keeps P e" "ok s"
  shows "ok (snd r)"
proof -
  have "app_keeps P e \<longrightarrow> ok s \<longrightarrow> ok (snd r)"
  proof (rule send_loop.raw_induct [where P = "\<lambda>e _ _ s r. app_keeps P e \<longrightarrow> ok s \<longrightarrow> ok (snd r)",
        OF _ assms(1)], goal_cases)
    case (1 loop e withAck n s r)
    show ?case
    proof (intro impI)
      assume app: "app_keeps P e" and s: "ok s"
      have rec: "yields (loop e withAck n' s') (\<lambda>r. ok (snd r))" if "ok s'" for n' s'
        using 1(1) app that by (auto simp: yields_def)
      show "ok (snd r)"
        by (rule yieldsD [OF _ 1(2)])
           (rule yields_basic let_ok silent keeps rec app let_forget | (insert s, simp; fail) | simp)+
    qed
  qed
  with assms(2,3) show ?thesis by blast
qed

lemma SendPendingData_keeps [keeps]:
  assumes "app_keeps P e" "ok s" "\<And>n s'. ok s' \<Longrightarrow> Q (n, s')"
  shows "yields (SendPendingData e withAck s) Q"
proof -
  have loop: "yields (send_loop e withAck 0 s) Q'" if "\<And>n s'. ok s' \<Longrightarrow> Q' (n, s')" for Q'
    using send_loop_ok [OF _ assms(1,2)] that by (force simp: yields_def)
  show ?thesis unfolding SendPendingData_def
    by (rule yields_basic loop assms(3) | (insert assms(2), simp; fail) | simp)+
qed

lemma DoRetransmit_keeps [keeps]:
  assumes "ok s" "\<And>s'. ok s' \<Longrightarrow> Q s'"
  shows "yields (DoRetransmit e s) Q"
  unfolding DoRetransmit_def
  by (rule yields_basic let_ok keeps let_forget assms(2) | (insert assms(1), simp; fail) | simp)+

section \<open>Acknowledgements and timeouts\<close>

lemma NewAck_keeps [keeps]:
  assumes "app_keeps P e" "ok s" "\<And>s'. ok s' \<Longrightarrow> Q s'"
  shows "yields (NewAck e ack reset s) Q"
  unfolding NewAck_def
  by (rule yields_basic let_ok keeps let_forget assms(1,3) yields_any | (insert assms(2), simp; fail) | simp)+

lemma AddRenoSack_keeps [keeps]:
  "P st b w l \<Longrightarrow> (\<And>b'. P st b' w l \<Longrightarrow> Q b') \<Longrightarrow> yields (AddRenoSack b) Q"
  unfolding yields_def by (blast intro: internal tx_internal.reno)

lemma SetSentListLost_keeps [keeps]:
  "P st b w l \<Longrightarrow> (\<And>b'. P st b' w l \<Longrightarrow> Q b') \<Longrightarrow> yields (SetSentListLost r b) Q"
  unfolding yields_def by (blast intro: internal tx_internal.lost)

lemma EnterRecovery_keeps [keeps]:
  assumes "ok s" "\<And>s'. ok s' \<Longrightarrow> Q s'"
  shows "yields (sock_EnterRecovery e n s) Q"
  unfolding sock_EnterRecovery_def
  by (rule yields_basic let_ok silent AddRenoSack_keeps [where st = "m_state s" and w = "written_log s" and l = "sent_log s"]
        SendDataPacket_keeps let_forget assms(2) yields_any
      | (insert assms(1), simp; fail) | simp)+

lemma DupAck_keeps [keeps]:
  assumes "ok s" "\<And>s'. ok s' \<Longrightarrow> Q s'"
  shows "yields (DupAck e n s) Q"
  unfolding DupAck_def
  by (rule yields_basic let_view [where v = "view s"] silent EnterRecovery_keeps
        AddRenoSack_keeps [where st = "m_state s" and w = "written_log s" and l = "sent_log s"]
        let_forget assms(2) yields_any
      | (insert assms(1), simp; fail) | simp)+

lemma partial_ack_keeps [keeps]:
  assumes "app_keeps P e" "ok s" "\<And>s'. ok s' \<Longrightarrow> Q s'"
  shows "yields (partial_ack e a d g b s) Q"
  unfolding partial_ack_def
  by (rule yields_basic let_ok silent keeps let_forget assms(1,3) | (insert assms(2), simp; fail) | simp)+

lemma full_ack_keeps [keeps]:
  assumes "app_keeps P e" "ok s" "\<And>s'. ok s' \<Longrightarrow> Q s'"
  shows "yields (full_ack e a h g o' d s) Q"
  unfolding full_ack_def
  by (rule yields_basic let_ok silent keeps let_forget assms(1,3) | (insert assms(2), simp; fail) | simp)+

lemma new_data_acked_keeps [keeps]:
  assumes "app_keeps P e" "ok s" "\<And>s'. ok s' \<Longrightarrow> Q s'"
  shows "yields (new_data_acked e a h n o' d s) Q"
  unfolding new_data_acked_def
  by (rule yields_basic let_ok silent keeps let_forget assms(1,3) | (insert assms(2), simp; fail) | simp)+

lemma ProcessAck_keeps [keeps]:
  assumes "app_keeps P e" "ok s" "\<And>s'. ok s' \<Longrightarrow> Q s'"
  shows "yields (ProcessAck e a u n h s) Q"
  unfolding ProcessAck_def
  by (rule yields_basic let_ok silent keeps let_forget assms(1,3) | (insert assms(2), simp; fail) | simp)+

lemma loss_reset_keeps [keeps]:
  assumes "ok s" "\<And>s'. ok s' \<Longrightarrow> Q s'"
  shows "yields (loss_reset e s) Q"
  unfolding loss_reset_def
  by (rule yields_basic silent
        SetSentListLost_keeps [where st = "m_state s" and w = "written_log s" and l = "sent_log s"] let_view [where v = "view s"]
        assms(2) yields_let yields_any
      | (insert assms(1), simp; fail) | simp)+

lemma ReTxTimeout_keeps [keeps]:
  assumes "app_keeps P e" "ok s" "\<And>s'. ok s' \<Longrightarrow> Q s'"
  shows "yields (ReTxTimeout e s) Q"
  unfolding ReTxTimeout_def
  by (rule yields_basic let_ok silent SendEmptyPacket_any Notify_keeps loss_reset_keeps SendPendingData_keeps
        let_forget assms(1,3)
      | (insert assms(2), simp; fail) | simp)+

section \<open>Receiving and closing\<close>

lemma DoClose_keeps [keeps]:
  assumes "app_keeps P e" "ok s" "\<And>s'. ok s' \<Longrightarrow> Q s'"
  shows "yields (DoClose e s) Q"
  unfolding DoClose_def
  by (rule yields_basic keeps assms(1,3) | (insert assms(2), auto; fail) | simp)+

lemma Close_keeps [keeps]:
  assumes "app_keeps P e" "ok s" "\<And>s'. ok s' \<Longrightarrow> Q s'"
  shows "yields (sock_Close e s) Q"
  unfolding sock_Close_def
  by (rule yields_basic keeps assms(1,3) | (insert assms(2), simp; fail) | simp)+

lemma ShutdownSend_keeps [keeps]:
  assumes "ok s" "\<And>s'. ok s' \<Longrightarrow> Q s'"
  shows "yields (ShutdownSend e s) Q"
  unfolding ShutdownSend_def
  by (rule yields_basic let_state [where st = "m_state s"] keeps assms(2)
      | (insert assms(1), auto; fail) | simp)+

lemma DoPeerClose_keeps [keeps]:
  assumes "app_keeps P e" "ok s" "\<And>s'. ok s' \<Longrightarrow> Q s'"
  shows "yields (DoPeerClose e s) Q"
  unfolding DoPeerClose_def
  by (rule yields_basic silent keeps assms(1,3) | (insert assms(2), auto; fail) | simp)+

lemma delayed_ack_keeps [keeps]: "ok s \<Longrightarrow> (\<And>s'. ok s' \<Longrightarrow> Q s') \<Longrightarrow> yields (delayed_ack e s) Q"
  unfolding delayed_ack_def by (rule yields_basic let_ok silent keeps yields_any | assumption | simp)+

lemma acknowledge_data_keeps [keeps]: "ok s \<Longrightarrow> (\<And>s'. ok s' \<Longrightarrow> Q s') \<Longrightarrow> yields (acknowledge_data e p x s) Q"
  unfolding acknowledge_data_def by (rule yields_basic silent keeps | assumption | simp)+

lemma ReceivedData_keeps [keeps]:
  assumes "app_keeps P e" "ok s" "\<And>s'. ok s' \<Longrightarrow> Q s'"
  shows "yields (ReceivedData e p h s) Q"
  unfolding ReceivedData_def
  by (rule yields_basic let_ok keeps let_forget assms(1,3) yields_any | (insert assms(2), simp; fail) | simp)+

lemma PeerClose_keeps [keeps]:
  assumes "app_keeps P e" "ok s" "\<And>s'. ok s' \<Longrightarrow> Q s'"
  shows "yields (PeerClose e p h s) Q"
  unfolding PeerClose_def
  by (rule yields_basic let_ok keeps assms(1,3) | (insert assms(2), simp; fail) | simp)+

lemma ReadOptions_keeps [keeps]:
  "P st b w l \<Longrightarrow> (\<And>n d b'. P st b' w l \<Longrightarrow> Q (n, d, b')) \<Longrightarrow> yields (ReadOptions ops n d b) Q"
proof (induction ops arbitrary: n d b)
  case (Cons op ops)
  have u: "P st b' w l" if "Update blks b = Some (n, items, b')" for blks n items b'
    using internal [OF Cons.prems(1) tx_internal.sack [OF that]] .
  have "yields (do { (n, items, b) \<leftarrow> Update blks b; ReadOptions ops n (d @ items) b }) Q" for blks
    by (rule yields_bind, rule yields_know, rule yields_prod, rule yields_prod)
      (auto intro!: Cons.IH Cons.prems(2) dest: u)
  with Cons show ?case by (cases op) simp_all
qed (simp add: yields_Some)

lemma DiscardUpTo_keeps [keeps]:
  "K sq \<Longrightarrow> P st b w l \<Longrightarrow> (\<And>g b'. P st b' w l \<Longrightarrow> Q (g, b')) \<Longrightarrow> yields (DiscardUpTo now sq b) Q"
  unfolding yields_def by (auto intro: internal tx_internal.ack)

lemma let_ack:
  "K n \<Longrightarrow> (\<And>x. K x \<Longrightarrow> yields (f x) Q) \<Longrightarrow> yields (let x = n in f x) Q"
  by (simp add: Let_def)

lemma ReceivedAck_keeps [keeps]:
  assumes "app_keeps P e" "ok s" "\<And>s'. ok s' \<Longrightarrow> Q s'" "K (m_ackNumber h)"
  shows "yields (ReceivedAck e p h s) Q"
  unfolding ReceivedAck_def
  by (rule yields_basic let_ok silent assms(1,3) | (rule let_ack, rule assms(4))
      | rule let_forget
        ReadOptions_keeps [where st = "m_state s" and w = "written_log s" and l = "sent_log s"]
        DiscardUpTo_keeps ReceivedData_keeps ProcessAck_keeps SendPendingData_keeps yields_any
      | (insert assms(2), simp; fail) | assumption | simp)+

end

end
