(* ===== verification/SockStates.thy ===== *)
theory SockStates
  imports SockKeeps
begin

text \<open>
  The functions of the connection states, the entry for arriving segments and the timers keep a
  property that satisfies the contract, and so does every event of a socket but \<open>Connect\<close>, \<open>Listen\<close> and
  the start of a forked socket.
\<close>

text \<open>The events that do not open a connection. A packet has fewer than \<open>2 ^ 32\<close> bytes.\<close>

fun forward_event :: "sock_event \<Rightarrow> bool" where
  "forward_event AppListen = False"
| "forward_event (AppConnect ep) = False"
| "forward_event (Forked ep h) = False"
| "forward_event (AppSend p) = (length p < 4294967296)"
| "forward_event _ = True"

text \<open>The acknowledgement number of an arriving segment satisfies \<open>K\<close>.\<close>

fun acks_in :: "(seq32 \<Rightarrow> bool) \<Rightarrow> sock_event \<Rightarrow> bool" where
  "acks_in K (Arrival ecn n p h ep) = K (m_ackNumber h)"
| "acks_in K _ = True"

lemma when_set_yields: "yields m Q \<Longrightarrow> yields (when_set t m) Q"
  by (cases t) (simp_all add: when_set_def yields_None)

context sock_contract
begin

section \<open>The connection states\<close>

lemma ProcessEstablished_keeps [keeps]:
  assumes "app_keeps P e" "ok s" "\<And>s'. ok s' \<Longrightarrow> Q s'" "K (m_ackNumber h)"
  shows "yields (ProcessEstablished e p h s) Q"
  unfolding ProcessEstablished_def
  by (rule yields_basic keeps let_forget assms(1,3,4) | (insert assms(2), simp; fail) | simp)+

lemma answer_syn_keeps [keeps]:
  assumes "app_keeps P e" "ok s" "\<And>s'. ok s' \<Longrightarrow> Q s'"
  shows "yields (answer_syn e f s) Q"
  unfolding answer_syn_def
  by (rule yields_basic SendEmptyPacket_any assms(1,3) | (insert assms(2), simp; fail) | simp)+

text \<open>While the handshake is completed, the new state has been set, but the old one still counts.\<close>

lemma advance_head_keeps:
  assumes "P st (m_txBuffer s) (written_log s) (sent_log s)" "st = SYN_SENT \<or> st = SYN_RCVD"
    and "\<And>s'. P st (m_txBuffer s') (written_log s') (sent_log s') \<Longrightarrow> m_state s' = m_state s \<Longrightarrow> Q s'"
  shows "yields (advance_head s) Q"
  unfolding advance_head_def
  by (rule let_forget yields_let yields_bind yields_know)+
    (auto intro!: yields_Some assms(3) intro: handshake [OF assms(1,2)])

lemma let_old_state:
  fixes a :: "('c, 'r) sock"
  assumes "P st (m_txBuffer a) (written_log a) (sent_log a)" "m_state a = st'"
    and "\<And>x. P st (m_txBuffer x) (written_log x) (sent_log x) \<Longrightarrow> m_state x = st' \<Longrightarrow> yields (f x) Q"
  shows "yields (let x = a in f x) Q"
  using assms by (simp add: Let_def)

lemma ProcessSynSent_keeps [keeps]:
  assumes "app_keeps P e" "m_state s = SYN_SENT" "ok s" "\<And>s'. ok s' \<Longrightarrow> Q s'"
  shows "yields (ProcessSynSent e p h s) Q"
  unfolding ProcessSynSent_def
  by (rule yields_basic set_CongState_silent
      | (rule let_old_state [where st = SYN_SENT and st' = ESTABLISHED], (insert assms(2,3), simp; fail), (simp; fail))
      | rule let_ok answer_syn_keeps advance_head_keeps [where st = SYN_SENT] keeps let_forget assms(1,4)
      | (insert assms(2,3), simp; fail) | simp)+

lemma ProcessSynRcvd_keeps [keeps]:
  assumes "app_keeps P e" "m_state s = SYN_RCVD" "ok s" "\<And>s'. ok s' \<Longrightarrow> Q s'" "K (m_ackNumber h)"
  shows "yields (ProcessSynRcvd e p h from s) Q"
  unfolding ProcessSynRcvd_def
  by (rule yields_basic set_CongState_silent let_ok answer_syn_keeps advance_head_keeps [where st = SYN_RCVD] keeps let_forget assms(1,4,5)
      | (insert assms(2,3), simp; fail) | simp)+

lemma wait_finished_keeps [keeps]:
  assumes "app_keeps P e" "ok s" "\<And>s'. ok s' \<Longrightarrow> Q s'"
  shows "yields (wait_finished e h s) Q"
  unfolding wait_finished_def
  by (rule yields_basic let_state [where st = CLOSING] keeps assms(1,3) | (insert assms(2), simp; fail) | simp)+

lemma ProcessWait_keeps [keeps]:
  assumes "app_keeps P e" "ok s" "\<And>s'. ok s' \<Longrightarrow> Q s'" "K (m_ackNumber h)"
  shows "yields (ProcessWait e p h s) Q"
  unfolding ProcessWait_def
  by (rule yields_basic keeps let_forget assms(1,3,4) | (insert assms(2), auto; fail) | simp)+

lemma ProcessClosing_keeps [keeps]:
  assumes "app_keeps P e" "m_state s = CLOSING" "ok s" "\<And>s'. ok s' \<Longrightarrow> Q s'"
  shows "yields (ProcessClosing e h s) Q"
  unfolding ProcessClosing_def
  by (rule yields_basic keeps let_forget assms(1,4) | (insert assms(2,3), simp; fail) | simp)+

lemma ProcessLastAck_keeps [keeps]:
  assumes "app_keeps P e" "ok s" "\<And>s'. ok s' \<Longrightarrow> Q s'"
  shows "yields (ProcessLastAck e p h s) Q"
  unfolding ProcessLastAck_def
  by (rule yields_basic keeps let_forget assms(1,3) | (insert assms(2), simp; fail) | simp)+

section \<open>Arriving segments\<close>

lemma IsValidTcpSegment_keeps [keeps]:
  "ok s \<Longrightarrow> (\<And>v s'. ok s' \<Longrightarrow> Q (v, s')) \<Longrightarrow> yields (IsValidTcpSegment e sq n m s) Q"
  unfolding IsValidTcpSegment_def by (rule yields_basic keeps | assumption | simp)+

lemma receive_syn_keeps [keeps]: "ok s \<Longrightarrow> (\<And>s'. ok s' \<Longrightarrow> Q s') \<Longrightarrow> yields (receive_syn e h s) Q"
  unfolding receive_syn_def
  by (rule let_ok silent yields_basic let_forget yields_any | (simp; fail) | simp)+

lemma reset_closed_keeps [keeps]: "ok s \<Longrightarrow> (\<And>s'. ok s' \<Longrightarrow> Q s') \<Longrightarrow> yields (reset_closed e h ep s) Q"
  unfolding reset_closed_def by (rule yields_basic let_forget silent | simp)+

lemma leave_persist_keeps [keeps]:
  assumes "app_keeps P e" "ok s" "\<And>s'. ok s' \<Longrightarrow> Q s'"
  shows "yields (leave_persist e s) Q"
  unfolding leave_persist_def
  by (rule yields_basic keeps assms(1,3) | (insert assms(2), simp; fail) | simp)+

lemma dispatch_keeps [keeps]:
  assumes "app_keeps P e" "ok s" "\<And>r. ok (fst r) \<Longrightarrow> Q r" "K (m_ackNumber h)"
  shows "yields (dispatch e p h ep s) Q"
proof -
  have one: "yields (do { s' \<leftarrow> m; Some (s', None) }) Q" if "yields m (\<lambda>s'. ok s')" for m
    using that assms(3) by (auto simp: yields_def bind_eq_Some_conv)
  have listen: "yields (do { r \<leftarrow> m; Some (s, r) }) Q" for m
    using assms(2,3) by (auto simp: yields_def bind_eq_Some_conv)
  show ?thesis unfolding dispatch_def
    using assms(1,2,4)
    by (cases "m_state s"; simp only: TcpStates.case; (intro one listen yields_Some assms(3))?)
       (simp_all add: ProcessEstablished_keeps reset_closed_keeps ProcessSynSent_keeps
         ProcessSynRcvd_keeps ProcessWait_keeps ProcessClosing_keeps ProcessLastAck_keeps)
qed

lemma if_ok: "ok a \<Longrightarrow> ok b \<Longrightarrow> ok (if p then a else b)"
  by simp

lemma DoForwardUp_keeps [keeps]:
  assumes "app_keeps P e" "ok s" "\<And>r. ok (fst r) \<Longrightarrow> Q r" "K (m_ackNumber h)"
  shows "yields (DoForwardUp e p h ep s) Q"
  unfolding DoForwardUp_def
  by (rule let_ok if_ok silent keeps yields_basic assms(1,3,4) let_forget | (insert assms(2), simp; fail) | simp)+

lemma ForwardUp_keeps [keeps]:
  assumes "app_keeps P e" "ok s" "\<And>r. ok (fst r) \<Longrightarrow> Q r" "K (m_ackNumber h)"
  shows "yields (ForwardUp e ecn n p h ep s) Q"
  unfolding ForwardUp_def
  by (rule silent keeps yields_basic assms(1,3,4) | (insert assms(2), simp; fail) | simp)+

section \<open>Timers and calls\<close>

lemma DelAckTimeout_keeps [keeps]: "ok s \<Longrightarrow> (\<And>s'. ok s' \<Longrightarrow> Q s') \<Longrightarrow> yields (DelAckTimeout e s) Q"
  unfolding DelAckTimeout_def by (rule yields_basic silent keeps | simp)+

lemma LastAckTimeout_keeps [keeps]:
  assumes "app_keeps P e" "ok s" "\<And>s'. ok s' \<Longrightarrow> Q s'"
  shows "yields (LastAckTimeout e s) Q"
  unfolding LastAckTimeout_def
  by (rule yields_basic let_ok silent keeps assms(1,3) | (insert assms(2), simp; fail) | simp)+

text \<open>The probe: the item is copied and put back, and its bytes are sent.\<close>

lemma probe_ok:
  assumes "ok s" "CopyFromSequence now n sq (m_txBuffer s) = Some (Some it, b)"
    and "view s' = (m_state s, ResetLastSegmentSent b, written_log s, sent_log s)" "m_sequenceNumber h = sq"
  shows "ok ((SendPacket ep h (m_packet it) s')\<lparr>m_persistEvent := x\<rparr>)"
  using ready_log [OF ready_last [OF ready_copy [OF assms(1,2)]]] assms(3,4) by simp

lemma AdvertisedWindowSize_only:
  "(\<And>n v. Q (n, s\<lparr>m_advWnd := v\<rparr>)) \<Longrightarrow> yields (AdvertisedWindowSize scale s) Q"
  unfolding AdvertisedWindowSize_def Let_def by (rule yields_bind, rule yields_any, rule yields_Some) simp

lemma PersistTimeout_keeps [keeps]:
  assumes "ok s" "\<And>s'. ok s' \<Longrightarrow> Q s'"
  shows "yields (PersistTimeout e s) Q"
  unfolding PersistTimeout_def
  by (rule AdvertisedWindowSize_only yields_basic yields_let
      | (rule assms(2),
         rule probe_ok [OF assms(1), where now = "Now e" and n = 1 and sq = "m_nextTxSequence (m_tcb s)"],
         (simp; fail), (simp; fail), (simp; fail))
      | rule yields_know)+

lemma Add_False: "Add p b = (False, b') \<Longrightarrow> b' = b"
  by (auto simp: Add_def split: if_splits)

lemma SetRcvBufSize_keeps [keeps]: "ok s \<Longrightarrow> (\<And>s'. ok s' \<Longrightarrow> Q s') \<Longrightarrow> yields (SetRcvBufSize e n s) Q"
  unfolding SetRcvBufSize_def by (rule let_ok keeps yields_basic let_forget | simp)+

lemma Send_keeps [keeps]:
  assumes "length p < 4294967296" "ok s" "\<And>r. ok (snd r) \<Longrightarrow> Q r"
  shows "yields (sock_Send e p s) Q"
  unfolding sock_Send_def
  by (rule yields_basic yields_bool silent assms(3) | (rule let_ok, (insert written [OF assms(2) _ assms(1)], simp; fail))
      | (insert assms(2) Add_False [of p "m_txBuffer s"], simp; fail) | rule yields_any | simp)+

lemma ConnectionSucceeded_keeps [keeps]:
  assumes "app_keeps P e" "ok s" "\<And>s'. ok s' \<Longrightarrow> Q s'"
  shows "yields (ConnectionSucceeded e s) Q"
  unfolding ConnectionSucceeded_def
  by (rule yields_basic keeps assms(1,3) | (insert assms(2), simp; fail) | simp)+

lemma run_retx_keeps [keeps]:
  assumes "app_keeps P e" "ok s" "\<And>s'. ok s' \<Longrightarrow> Q s'"
  shows "yields (run_retx e s) Q"
proof (cases "m_retxEvent s")
  case (Some r)
  obtain t c where r: "r = (t, c)" by (cases r)
  then show ?thesis using Some assms
    by (cases c) (simp_all add: run_retx_def ReTxTimeout_keeps SendEmptyPacket_any)
qed (simp add: run_retx_def yields_None)

theorem step_keeps:
  assumes "app_keeps P e" "forward_event ev" "acks_in K ev" "ok s"
  shows "yields (sock_step e ev s) ok"
  using assms
  by (cases ev)
    (auto intro!: yields_map when_set_yields keeps silent yields_Some simp: ShutdownRecv_def)

end

section \<open>Runs\<close>

text \<open>A run: events at the times and in the environments they happen in.\<close>

primrec sock_run :: "(('c, 'r) env \<times> sock_event) list \<Rightarrow> ('c, 'r) sock \<Rightarrow> ('c, 'r) sock option" where
  "sock_run [] s = Some s"
| "sock_run (x # xs) s = do { s \<leftarrow> sock_step (fst x) (snd x) s; sock_run xs s }"

lemma sock_run_append: "sock_run (xs @ ys) s = sock_run xs s \<bind> sock_run ys"
  by (induction xs arbitrary: s) (auto split: bind_splits)

context sock_contract
begin

theorem run_keeps:
  "\<forall>x \<in> set xs. app_keeps P (fst x) \<and> forward_event (snd x) \<and> acks_in K (snd x) \<Longrightarrow> ok s \<Longrightarrow> yields (sock_run xs s) ok"
proof (induction xs arbitrary: s)
  case (Cons x xs)
  then show ?case unfolding sock_run.simps
    by (intro yields_bind yields_mono [OF step_keeps]) auto
qed (simp add: yields_Some)

end

end
