(* ===== verification/SockInst.thy ===== *)
theory SockInst
  imports SockFwd Composite
begin

text \<open>
  The objects a socket is made of: the congestion controls and the recovery algorithms as the records
  of operations the socket calls, the defaults of the base classes for what they do not override, and
  a new socket with the default attributes, as \<open>TcpL4Protocol::CreateSocket\<close> makes it.
\<close>

section \<open>Congestion controls\<close>

text \<open>\<open>TcpCongestionOps\<close>: the hooks that do nothing.\<close>

definition base_cc :: "('c \<Rightarrow> 'c) \<Rightarrow> 'c cong_ops" where
  "base_cc fork =
     \<lparr>GetSsThresh = (\<lambda>now c t n. None), IncreaseWindow = (\<lambda>now c t n. Some (c, t)),
      PktsAcked = (\<lambda>now c t n rtt. Some (c, t)), CongestionStateSet = (\<lambda>now c t st. Some (c, t)),
      CwndEvent = (\<lambda>now c t ev. Some (c, t)), cc_Fork = fork, cc_Init = (\<lambda>now c t. Some (c, t))\<rparr>"

text \<open>\<open>raw\<close> is what the memory of a copied object holds.\<close>

definition newreno_ops :: "tcp_newreno \<Rightarrow> tcp_newreno cong_ops" where
  "newreno_ops raw = (base_cc (newreno_copy raw))
     \<lparr>GetSsThresh := (\<lambda>now nr t n. map_option (Pair nr) (newreno_GetSsThresh nr t n)),
      IncreaseWindow := (\<lambda>now nr t n. map_option (Pair nr) (newreno_IncreaseWindow nr t n))\<rparr>"

definition linuxreno_ops :: "linux_reno cong_ops" where
  "linuxreno_ops = (base_cc (\<lambda>c. 0))
     \<lparr>GetSsThresh := (\<lambda>now c t n. Some (c, linuxreno_GetSsThresh t n)),
      IncreaseWindow := (\<lambda>now c t n. linuxreno_IncreaseWindow c t n)\<rparr>"

definition cubic_ops :: "(double \<Rightarrow> double \<Rightarrow> double) \<Rightarrow> (time \<Rightarrow> double) \<Rightarrow> tcp_cubic \<Rightarrow> tcp_cubic cong_ops" where
  "cubic_ops pw secs raw = (base_cc (cubic_copy raw))
     \<lparr>GetSsThresh := (\<lambda>now c t n. cubic_GetSsThresh c t n),
      IncreaseWindow := (\<lambda>now c t n. cubic_IncreaseWindow pw secs now c t n),
      PktsAcked := (\<lambda>now c t n rtt. cubic_PktsAcked now c t rtt),
      CongestionStateSet := (\<lambda>now c t st. Some (cubic_CongestionStateSet now c t st, t))\<rparr>"

text \<open>The calls that \<open>Init\<close> of the composite schedules are not steps of the socket.\<close>

definition composite_ops :: "(double \<Rightarrow> double \<Rightarrow> double) \<Rightarrow> (time \<Rightarrow> double) \<Rightarrow> tcp_composite \<Rightarrow> tcp_composite cong_ops" where
  "composite_ops pw secs raw = (base_cc (composite_copy raw))
     \<lparr>GetSsThresh := (\<lambda>now c t n. composite_GetSsThresh c t n),
      IncreaseWindow := (\<lambda>now c t n. composite_IncreaseWindow pw secs now c t n),
      PktsAcked := (\<lambda>now c t n rtt. composite_PktsAcked now c t rtt),
      CongestionStateSet := (\<lambda>now c t st. Some (composite_CongestionStateSet now c t st, t)),
      cc_Init := (\<lambda>now c t. Some (fst (composite_Init c), t))\<rparr>"

section \<open>Recovery algorithms\<close>

definition classic_ops :: "unit recovery_if" where
  "classic_ops =
     \<lparr>EnterRecovery = (\<lambda>u t dup unacked delivered. Some (u, classic_EnterRecovery t dup)),
      DoRecovery = (\<lambda>u t delivered. Some (u, classic_DoRecovery t)),
      ExitRecovery = (\<lambda>u t. Some (u, classic_ExitRecovery t)), UpdateBytesSent = (\<lambda>u n. u), rec_Fork = id\<rparr>"

definition prr_ops :: "tcp_prr recovery_if" where
  "prr_ops =
     \<lparr>EnterRecovery = (\<lambda>p t dup unacked delivered. prr_EnterRecovery p t unacked delivered),
      DoRecovery = (\<lambda>p t delivered. prr_DoRecovery p t delivered),
      ExitRecovery = (\<lambda>p t. Some (p, prr_ExitRecovery t)), UpdateBytesSent = prr_UpdateBytesSent, rec_Fork = id\<rparr>"

section \<open>A new socket\<close>

text \<open>\<open>TcpSocketState\<close>, then the attributes of the socket.\<close>

definition new_tcb :: tcb where
  "new_tcb =
     \<lparr>m_cWnd = 0, m_cWndInfl = 0, m_ssThresh = 0, m_isRetransDataAcked = False, tcb.m_segmentSize = 536, m_lastAckedSeq = 0,
      m_congState = CA_OPEN, m_highTxMark = 0, m_bytesInFlight = 0, m_ecnState = ECN_DISABLED, m_nextTxSequence = 0,
      m_lastRtt = 0, m_lastAckedSackedBytes = 0\<rparr>"

definition new_sock :: "'c \<Rightarrow> 'r \<Rightarrow> ('c, 'r) sock" where
  "new_sock cc rec =
     \<lparr>m_retxEvent = None, m_lastAckEvent = None, m_delAckEvent = None, m_persistEvent = None, m_timewaitEvent = None,
      m_sendPendingDataEvent = None, m_dupAckCount = 0, m_delAckCount = 0, m_delAckMaxCount = 2, m_noDelay = True,
      m_synCount = 0, m_synRetries = 6, m_dataRetrCount = 0, m_dataRetries = 6, m_rto = 0, m_minRto = 10 ^ 9,
      m_clockGranularity = 10 ^ 6, m_delAckTimeout = 2 * 10 ^ 8, m_persistTimeout = 6 * 10 ^ 9, m_cnTimeout = 3 * 10 ^ 9,
      m_history = [], m_endPoint = None, m_rtt = new_rtt (10 ^ 9) (Fin (1 / 8)) (Fin (1 / 4)),
      m_txBuffer = SetSegmentSize 536 (SetMaxBufferSize 131072 (SetDupAckThresh 3 (new_tx_buffer 0))),
      m_state = CLOSED, m_errno = ERROR_NOTERROR, m_closeNotified = False, m_closeOnEmpty = False,
      m_shutdownSend = False, m_shutdownRecv = False, m_connected = False, m_msl2 = 240 * 10 ^ 9, m_maxWinSize = 65535,
      m_bytesAckedNotProcessed = 0, m_highTxAck = 0, m_rWnd = 0, m_advWnd = 0, m_highRxMark = 0, m_highRxAckMark = 0,
      so_sackEnabled = True, m_winScalingEnabled = True, m_rcvWindShift = 0, m_sndWindShift = 0, m_timestampEnabled = True,
      m_timestampToEcho = 0, m_recover = 0, m_recoverActive = False, m_retxThresh = 3, m_limitedTx = True,
      m_isFirstPartialAck = True, m_ecnEchoSeq = 0, m_ecnCESeq = 0, m_ecnCWRSeq = 0, m_congestionControl = cc,
      m_recoveryOps = rec, m_tcb = new_tcb, m_rxBuffer = rx_SetMaxBufferSize 131072 (new_rx_buffer 0),
      m_initialCWnd = 10, m_initialSsThresh = 4294967295, m_rcvTimestampValue = 0, m_rcvTimestampEchoReply = 0,
      m_minRtt = 2 ^ 63 - 1, m_useEcn = EcnOff, sent_log = [], written_log = [], deferred_calls = []\<rparr>"

text \<open>An environment whose application ignores what it is told, at a given time.\<close>

definition quiet_env :: "'c cong_ops \<Rightarrow> 'r recovery_if \<Rightarrow> time \<Rightarrow> ('c, 'r) env" where
  "quiet_env cc rec now =
     \<lparr>Now = now, cops = cc, rops = rec, Notify = (\<lambda>ev s. Some s), AcceptRequest = True, SkbDelivered = (\<lambda>is. 0),
      file_open = False, FloatingPointUpdate = (\<lambda>m r. None)\<rparr>"

end
