(* ===== verification/TxReach.thy ===== *)
theory TxReach
  imports TxDataOps
begin

text \<open>
  The send buffer as a state machine: one rule per operation of its interface that changes it. The
  premises of three of them (\<open>reno\<close>, \<open>last\<close> and \<open>ack_safe\<close>) exclude the calls after which the scoreboard
  is inconsistent; those of the others bound the arguments. Every state that can be reached satisfies the
  invariant, from which the properties of the buffer follow. Without the premises what remains is the
  data (\<open>tx_internal\<close>).
\<close>

section \<open>The highest SACK stays ahead\<close>

lemma ahead_window:
  "0 < k \<Longrightarrow> k < 2147483648 \<Longrightarrow> ahead (AtNode n, f + of_nat k) f"
  by (simp add: ahead_def ns_seq)

lemma sack_block_ahead:
  assumes "sack_block blk (f + of_nat (nbytes pre)) is b = Some (is', cbs, n, b')"
    and "seq_gt (fst blk) f" "ahead (m_highestSack b) f" "nbytes pre + nbytes is < 2147483648"
  shows "ahead (m_highestSack b') f \<and> (pre = [] \<and> is \<noteq> [] \<longrightarrow> m_sacked (hd is') = m_sacked (hd is))"
  using assms
proof (induction "is" arbitrary: pre is' cbs n b)
  case (Cons i "is")
  have nb: "f + of_nat (nbytes pre) + GetSize (m_packet i) = f + of_nat (nbytes (pre @ [i]))"
    by (simp add: GetSize_def)
  show ?case
  proof (cases "in_block blk (f + of_nat (nbytes pre)) i \<and> \<not> m_sacked i")
    case True
    then obtain e js c m where r: "is' = sacked_item i # js"
        "sack_block blk (f + of_nat (nbytes (pre @ [i]))) is (sacked_buffer (f + of_nat (nbytes pre)) e i b) =
          Some (js, c, m, b')"
      using Cons.prems(1) unfolding sack_block_Cons nb by (auto split: option.splits)
    have pre: "0 < nbytes pre"
    proof (rule ccontr)
      assume "\<not> 0 < nbytes pre"
      with True have "seq_ge f (fst blk)" by (simp add: in_block_def)
      with Cons.prems(2) seq_gt_flip [of f "fst blk"] show False by (auto simp: seq_ge_def)
    qed
    then have "ahead (m_highestSack (sacked_buffer (f + of_nat (nbytes pre)) e i b)) f"
      using Cons.prems(3,4) ahead_window [of "nbytes pre"] by (simp add: sacked_buffer_def)
    from Cons.IH [OF r(2) Cons.prems(2) this] Cons.prems(4) pre show ?thesis by auto
  next
    case False
    then consider js c m where "is' = i # js" "sack_block blk (f + of_nat (nbytes (pre @ [i]))) is b = Some (js, c, m, b')"
      | "is' = i # is" "b' = b"
      using Cons.prems(1) unfolding sack_block_Cons nb by (auto split: if_splits)
    then show ?thesis
    proof cases
      case (1 js c m)
      from Cons.IH [OF 1(2) Cons.prems(2,3)] Cons.prems(4) 1(1) show ?thesis by simp
    next
      case 2
      with Cons.prems(3) show ?thesis by simp
    qed
  qed
qed simp

lemma sack_blocks_ahead:
  assumes "sack_blocks blks b = Some (cbs, n, early, b')" "tx_inv b"
    and "\<forall>blk \<in> set blks. seq_gt (fst blk) (m_firstByteSeq b)"
    and "ahead (m_highestSack b) (m_firstByteSeq b)"
  shows "ahead (m_highestSack b') (m_firstByteSeq b')"
  using assms
proof (induction blks arbitrary: b cbs n)
  case (Cons blk blks)
  show ?case
  proof (cases "seq_lt (m_firstByteSeq b + m_sentSize b) (fst blk)")
    case True
    with Cons.prems show ?thesis by simp
  next
    case False
    with Cons.prems(1) obtain is' c1 n1 b1 c2 n2 where
        r: "sack_block blk (m_firstByteSeq b) (m_sentList b) b = Some (is', c1, n1, b1)"
        "sack_blocks blks (b1\<lparr>m_sentList := is'\<rparr>) = Some (c2, n2, early, b')"
      by (auto split: Option.bind_splits)
    note i = sack_block_inv [OF Cons.prems(2) r(1)]
    have f: "m_firstByteSeq (b1\<lparr>m_sentList := is'\<rparr>) = m_firstByteSeq b"
      using i(3) by (simp add: same_rest_def)
    have "ahead (m_highestSack b1) (m_firstByteSeq b)"
      using sack_block_ahead [of blk "m_firstByteSeq b" "[]" "m_sentList b" b is' c1 n1 b1] r(1)
        Cons.prems(3,4) tx_inv_bound [OF Cons.prems(2)] by simp
    with Cons.IH [OF r(2) i(1)] Cons.prems(3) f show ?thesis by simp
  qed
qed simp

section \<open>The state machine\<close>

definition tx_good :: "tx_buffer \<Rightarrow> bool" where
  "tx_good b \<longleftrightarrow> tx_inv b \<and> ahead (m_highestSack b) (m_firstByteSeq b)"

inductive tx_step :: "tx_buffer \<Rightarrow> tx_buffer \<Rightarrow> bool" where
  add: "length p < 2 ^ 32 \<Longrightarrow> tx_step b (snd (Add p b))"
| max_size: "Size b \<le> n \<Longrightarrow> unat n < 2 ^ 31 \<Longrightarrow> tx_step b (SetMaxBufferSize n b)"
| thresh: "tx_step b (SetDupAckThresh n b)"
| segment_size: "tx_step b (SetSegmentSize n b)"
| sack_enabled: "tx_step b (SetSackEnabled e b)"
| copy: "k \<le> length (stream b) \<Longrightarrow>
    CopyFromSequence now n (m_firstByteSeq b + of_nat k) b = Some (r, b') \<Longrightarrow> tx_step b b'"
| discard: "k < 2 ^ 31 \<Longrightarrow> ack_safe k b \<Longrightarrow>
    DiscardUpTo now (m_firstByteSeq b + of_nat k) b = Some (gone, b') \<Longrightarrow> tx_step b b'"
| sack: "\<forall>blk \<in> set blks. seq_gt (fst blk) (HeadSequence b) \<Longrightarrow>
    Update blks b = Some (n, cbs, b') \<Longrightarrow> tx_step b b'"
| all_lost: "SetSentListLost resetSack b = Some b' \<Longrightarrow> tx_step b b'"
| head_lost: "tx_step b (MarkHeadAsLost b)"
| reno: "reno_clean (tl (m_sentList b)) \<Longrightarrow> AddRenoSack b = Some b' \<Longrightarrow> tx_step b b'"
| last: "m_sentList b = [] \<or> \<not> m_lost i \<and> \<not> m_sacked i \<and> \<not> m_retrans i \<and> i = last (m_sentList b) \<Longrightarrow>
    tx_step b (ResetLastSegmentSent b)"
| reset_reno: "tx_step b (ResetRenoSack b)"
| reset_sent: "tx_step b (ResetSentList b)"
| head_flag: "DeleteRetransmittedFlagFromHead b = Some b' \<Longrightarrow> tx_step b b'"

inductive tx_reachable :: "tx_buffer \<Rightarrow> bool" where
  init: "SetHeadSequence s (new_tx_buffer n) = Some b \<Longrightarrow> tx_reachable b"
| step: "tx_reachable b \<Longrightarrow> tx_step b b' \<Longrightarrow> tx_reachable b'"

lemma tx_good_init: "SetHeadSequence s (new_tx_buffer n) = Some b \<Longrightarrow> tx_good b"
  by (auto simp: SetHeadSequence_def new_tx_buffer_def tx_good_def tx_inv_def nodes_ok_def)

lemma tx_good_rest:
  "tx_inv b' \<Longrightarrow> m_highestSack b' = m_highestSack b \<Longrightarrow> m_firstByteSeq b' = m_firstByteSeq b \<Longrightarrow>
    tx_good b \<Longrightarrow> tx_good b'"
  by (simp add: tx_good_def)

lemma Add_frame: "m_highestSack (snd (Add p b)) = m_highestSack b \<and> m_firstByteSeq (snd (Add p b)) = m_firstByteSeq b"
  by (simp add: Add_def)

lemma tx_good_add:
  assumes "tx_good b" "length p < 2 ^ 32"
  shows "tx_good (snd (Add p b))"
proof -
  have "tx_inv (snd (Add p b))"
    using Add_ok [of b p] assms by (auto simp: tx_good_def split: if_splits)
  then show ?thesis
    using Add_frame assms(1) by (blast intro: tx_good_rest)
qed

lemma tx_good_max:
  assumes "tx_good b" "Size b \<le> n" "unat n < 2 ^ 31"
  shows "tx_good (SetMaxBufferSize n b)"
proof -
  have sz: "Size b = of_nat (tx_total b)" "tx_total b < 2147483648"
    using assms(1) tx_inv_bound [of b] by (simp_all add: tx_good_def Size_def tx_inv_def)
  have "unat (Size b) = tx_total b"
    unfolding sz(1) using sz(2) by (intro unat_of_nat32) simp
  with assms show ?thesis
    by (simp add: tx_good_def tx_inv_def SetMaxBufferSize_def word_le_nat_alt)
qed


lemma tx_good_copy:
  assumes "tx_good b" "k \<le> length (stream b)"
    and "CopyFromSequence now n (m_firstByteSeq b + of_nat k) b = Some (r, b')"
  shows "tx_good b'"
proof (cases r)
  case None
  with copy_returns_copied [OF _ _ assms(3)] assms(1,2) show ?thesis
    by (auto simp: tx_good_def stream_def)
next
  case (Some it)
  with copy_returns_copied [OF _ _ assms(3)] assms(1,2) have "copied now k (unat n) b it b'"
    by (auto simp: tx_good_def stream_def)
  then have "tx_inv b'" "tx_frame b b'" by (simp_all add: copied_def)
  then show ?thesis using tx_frame_fields assms(1) by (intro tx_good_rest [of b' b]) simp_all
qed

lemma tx_good_sack:
  assumes g: "tx_good b" and blks: "\<forall>blk \<in> set blks. seq_gt (fst blk) (HeadSequence b)"
    and r: "Update blks b = Some (n, cbs, b')"
  shows "tx_good b'"
proof -
  have inv: "tx_inv b" "ahead (m_highestSack b) (m_firstByteSeq b)"
    using g by (simp_all add: tx_good_def)
  note ok = Update_ok [OF inv(1) r]
  obtain early b1 where s: "sack_blocks blks b = Some (cbs, n, early, b1)"
    using r by (auto simp: Update_def split: Option.bind_splits if_splits)
  have a: "ahead (m_highestSack b1) (m_firstByteSeq b1)"
    using sack_blocks_ahead [OF s inv(1)] blks inv(2) by (simp add: HeadSequence_def)
  have "b' = b1 \<or> UpdateLostCount b1 = Some b'"
    using r s by (auto simp: Update_def split: if_splits Option.bind_splits)
  then have "m_highestSack b' = m_highestSack b1 \<and> m_firstByteSeq b' = m_firstByteSeq b1"
  proof
    assume "UpdateLostCount b1 = Some b'"
    then show ?thesis by (cases rule: UpdateLostCount_cases) simp_all
  qed simp
  with a ok show ?thesis by (simp add: tx_good_def)
qed

lemma tx_good_reno:
  assumes g: "tx_good b" and l: "reno_clean (tl (m_sentList b))"
    and r: "AddRenoSack b = Some b'"
  shows "tx_good b'"
proof -
  have inv: "tx_inv b" "ahead (m_highestSack b) (m_firstByteSeq b)" using g by (simp_all add: tx_good_def)
  note ok = AddRenoSack_ok [OF inv(1) r l]
  from r have "ahead (m_highestSack b') (m_firstByteSeq b')"
  proof (cases rule: AddRenoSack_cases)
    case (1 h t)
    with inv(2) show ?thesis by simp
  next
    case (2 h pre j post)
    have "m_startSeq j = m_firstByteSeq b + of_nat (nbytes (h # pre))" "0 < sz h"
      using inv(1) 2(1) by (auto simp: tx_inv_def add.assoc item_ok_def)
    moreover have "nbytes (h # pre) < 2147483648" using tx_inv_bound [OF inv(1)] 2(1) by simp
    ultimately show ?thesis
      using ahead_window [of "nbytes (h # pre)" "node j" "m_firstByteSeq b"] by (simp add: 2(4))
  qed
  with ok show ?thesis by (simp add: tx_good_def)
qed

text \<open>The last segment goes back to the application data with its node, its bytes and its place.\<close>

lemma highest_ok_butlast:
  assumes "highest_ok hs f (is @ [i])" "\<not> m_sacked i"
  shows "highest_ok hs f is"
proof -
  have "k \<le> nbytes is \<and> sacked_from n k is" if "sacked_from n k (is @ [i])" for n k
  proof -
    have s: "sacked_from n k is" using that assms(2) by (simp add: sacked_from_append)
    then have "k \<le> nbytes is" by (auto simp: sacked_from_def)
    with s show ?thesis by blast
  qed
  with assms(1) show ?thesis unfolding highest_ok_def by (fastforce split: prod.splits item_it.splits)
qed

lemma ResetLast_eq:
  assumes "m_sentList b = is @ [i]"
  shows "ResetLastSegmentSent b = b\<lparr>m_sentList := is, m_sentSize := m_sentSize b - of_nat (sz i),
    m_retransOut := (if m_retrans i then m_retransOut b - of_nat (sz i) else m_retransOut b),
    m_appList := i\<lparr>node := next_node b\<rparr> # m_appList b, next_node := next_node b + 1\<rparr>"
  using assms by (simp add: ResetLastSegmentSent_def Let_def GetSize_def)

lemma tx_good_last:
  assumes g: "tx_good b"
    and l: "m_sentList b = [] \<or> \<not> m_lost i \<and> \<not> m_sacked i \<and> \<not> m_retrans i \<and> i = last (m_sentList b)"
  shows "tx_good (ResetLastSegmentSent b)"
proof (cases "m_sentList b" rule: rev_cases)
  case Nil
  with g show ?thesis by (simp add: ResetLastSegmentSent_def)
next
  case (snoc xs x)
  have inv: "tx_inv b" using g by (simp add: tx_good_def)
  have x: "\<not> m_lost x" "\<not> m_sacked x" "\<not> m_retrans x" "fresh_item x"
    using l snoc inv by (auto simp: tx_inv_def fresh_item_def item_ok_def)
  have "tx_data (ResetLastSegmentSent b)"
    using ResetLastSegmentSent_data [OF tx_inv_data [OF inv]] by (simp add: same_data_def)
  moreover have "highest_ok (m_highestSack b) (m_firstByteSeq b) xs"
    using inv snoc x(2) highest_ok_butlast [of _ _ xs x] by (simp add: tx_inv_def)
  ultimately have "tx_inv (ResetLastSegmentSent b)"
    using inv snoc x by (simp add: ResetLast_eq tx_inv_def tx_data_def fresh_item_def)
  then show ?thesis using g snoc by (simp add: tx_good_def ResetLast_eq)
qed

lemma tx_good_lost:
  assumes g: "tx_good b" and r: "SetSentListLost resetSack b = Some b'"
  shows "tx_good b'"
proof -
  have "tx_inv b'"
    using SetSentListLost_ok [of b resetSack] g r by (auto simp: tx_good_def)
  moreover have "m_firstByteSeq b' = m_firstByteSeq b"
      "m_highestSack b' = (if resetSack then (EndIt, 0) else m_highestSack b)"
    using r by (auto simp: SetSentListLost_def Let_def split: prod.splits if_splits)
  ultimately show ?thesis using g by (simp add: tx_good_def)
qed

lemma tx_good_head_flag:
  assumes "tx_good b" "DeleteRetransmittedFlagFromHead b = Some b'"
  shows "tx_good b'"
proof -
  have "m_highestSack b' = m_highestSack b \<and> m_firstByteSeq b' = m_firstByteSeq b"
    using assms(2) by (auto simp: DeleteRetransmittedFlagFromHead_def split: if_splits list.splits)
  with DeleteRetransmittedFlagFromHead_ok [OF _ assms(2)] assms(1) show ?thesis
    by (simp add: tx_good_def)
qed

lemma tx_good_step: "tx_step b b' \<Longrightarrow> tx_good b \<Longrightarrow> tx_good b'"
proof (induction rule: tx_step.induct)
  case (discard k b now gone b')
  then show ?case
    using DiscardUpTo_ok [of b k now] by (auto simp: tx_good_def)
next
  case (head_lost b)
  then show ?case
    using MarkHeadAsLost_ok [of b] by (simp add: tx_good_def same_rest_def)
next
  case (reset_reno b)
  then show ?case
    using ResetRenoSack_ok [of b] by (simp add: tx_good_def) (simp add: ResetRenoSack_def)
next
  case (reset_sent b)
  then show ?case
    using ResetSentList_ok [of b] by (simp add: tx_good_def) (simp add: ResetSentList_def)
next
  case (add p b)
  then show ?case using tx_good_add by blast
next
  case (max_size b n)
  then show ?case using tx_good_max by blast
next
  case (copy k b now n r b')
  then show ?case using tx_good_copy by blast
next
  case (sack blks b n cbs b')
  then show ?case using tx_good_sack by blast
next
  case (all_lost resetSack b b')
  then show ?case using tx_good_lost by blast
next
  case (reno b b')
  then show ?case using tx_good_reno by blast
next
  case (last b i)
  then show ?case using tx_good_last by blast
next
  case (head_flag b b')
  then show ?case using tx_good_head_flag by blast
qed (simp_all add: tx_good_def tx_inv_def SetDupAckThresh_def SetSegmentSize_def SetSackEnabled_def)

lemma tx_reachable_good: "tx_reachable b \<Longrightarrow> tx_good b"
  by (induction rule: tx_reachable.induct) (auto intro: tx_good_init tx_good_step)

lemma tx_reachable_inv: "tx_reachable b \<Longrightarrow> tx_inv b"
  using tx_reachable_good by (simp add: tx_good_def)

end
