(* ===== verification/TxProps.thy ===== *)
theory TxProps
  imports TxReach
begin

text \<open>
  The properties of the send buffer, for every state that the operations can reach: the scoreboard
  is consistent, the byte stream is what the application wrote and the peer has not acknowledged,
  segments carry the right bytes, and the calls return. Three runs show where the code departs
  from what its comments expect.
\<close>

section \<open>Segments are retransmitted\<close>

definition retransmit_len :: "tx_item \<Rightarrow> tx_item list \<Rightarrow> nat \<Rightarrow> nat" where
  "retransmit_len i post n =
     (case post of
        [] \<Rightarrow> min n (sz i)
      | j # _ \<Rightarrow> if \<not> m_sacked j \<and> m_lost i = m_lost j then min n (sz i + sz j) else min n (sz i))"

lemma retransmit_size_at:
  assumes "contiguous f (pre @ i # post)" "list_all item_ok (pre @ i # post)"
    and "nbytes (pre @ i # post) < 2147483648" "n < 2147483648"
  shows "retransmit_size (f + of_nat (nbytes pre)) (of_nat n) (pre @ i # post) = of_nat (retransmit_len i post n)"
  using assms
proof (induction pre arbitrary: f)
  case Nil
  have mn: "min (of_nat n) (of_nat x :: uint32) = of_nat (min n x)" if "x < 2147483648" for x
    using that assms(4) by (auto simp: min_def of_nat32_le)
  show ?case
  proof (cases post)
    case Nil
    with Nil.prems mn [of "sz i"] show ?thesis by (simp add: retransmit_len_def GetSize_def)
  next
    case (Cons j js)
    with Nil.prems mn [of "sz i"] mn [of "sz i + sz j"] show ?thesis
      by (simp add: retransmit_len_def GetSize_def)
  qed
next
  case (Cons p pre)
  have "f \<noteq> f + of_nat (sz p + nbytes pre)"
    using Cons.prems seq_eq_window [of 0 "sz p + nbytes pre" f] by (auto simp: item_ok_def)
  then have "retransmit_size (f + of_nat (nbytes (p # pre))) (of_nat n) ((p # pre) @ i # post) =
      retransmit_size (f + of_nat (sz p) + of_nat (nbytes pre)) (of_nat n) (pre @ i # post)"
    using Cons.prems(1) by (simp add: add.assoc)
  with Cons.IH [of "f + of_nat (sz p)"] Cons.prems show ?case by simp
qed

lemma GetTransmittedSegment_returns:
  assumes inv: "tx_inv b" and l: "m_sentList b = pre @ i # post" and s: "\<not> m_sacked i"
    and n: "0 < n" "nbytes pre + n \<le> nbytes (m_sentList b)"
  shows "\<exists>it b'. GetTransmittedSegment (of_nat n) (m_firstByteSeq b + of_nat (nbytes pre)) b = Some (it, b') \<and>
    \<not> m_sacked it \<and> sz it = retransmit_len i post n"
proof -
  let ?f = "m_firstByteSeq b" and ?m = "retransmit_len i post n"
  have w: "nbytes (m_sentList b) < 2147483648" "n < 2147483648" "nbytes pre < 2147483648"
    using tx_inv_bound [OF inv] n l by simp_all
  have ok: "list_all item_ok (pre @ i # post)" "contiguous ?f (pre @ i # post)" "0 < sz i"
    using inv l by (auto simp: tx_inv_def item_ok_def)
  have at: "list_at True ?f (pre @ i # post) b"
    using inv w l by (simp add: list_at_def tx_inv_def)
  have m: "0 < ?m" "retransmit_size (?f + of_nat (nbytes pre)) (of_nat n) (m_sentList b) = of_nat ?m"
    using ok n(1) retransmit_size_at [OF ok(2,1), of n] w l
    by (auto simp: retransmit_len_def split: list.splits)
  have ne: "list_all (\<lambda>j. m_packet j \<noteq> []) post" using ok(1) by (auto simp: list_all_iff item_ok_def)
  have "\<exists>l it b'. GetPacketFromList True (pre @ i # post) ?f (of_nat ?m) (?f + of_nat (nbytes pre)) b = Some (l, it, b')"
  proof (cases "?m \<le> sz i")
    case True
    then consider "?m = sz i" | "?m < sz i" by linarith
    then show ?thesis
      using get_exact [OF at ok(3)] get_front [OF at m(1)] by cases simp_all
  next
    case False
    then obtain j js where p: "post = j # js" "\<not> m_sacked j" "m_lost i = m_lost j" "?m \<le> sz i + sz j"
      by (auto simp: retransmit_len_def split: list.splits if_splits)
    let ?b = "b\<lparr>m_retransOut := merged_retrans i j (m_retransOut b)\<rparr>"
    have "nbytes pre + ?m < 2147483648" using w(1) l p by simp
    then have g: "GetPacketFromList True (pre @ i # post) ?f (of_nat ?m) (?f + of_nat (nbytes pre)) b =
        GetPacketFromList True (pre @ merged i j # js) ?f (of_nat ?m) (?f + of_nat (nbytes pre)) ?b"
      using get_merge [OF at [unfolded p(1)] ok(3), of ?m] False s p by simp
    have "edit (m_sacked i) (edit_state_of (pre @ i # j # js) b) (edit_state_of (pre @ merged i j # js) ?b)"
      using edit.merge [of i j "m_sacked i"] s p by simp
    from list_at_edit [OF this at [unfolded p(1)]]
    have at2: "list_at True ?f (pre @ merged i j # js) ?b" by simp
    have sm: "sz (merged i j) = sz i + sz j" by (simp add: merged_def)
    then consider "?m = sz (merged i j)" | "?m < sz (merged i j)" using p(4) by linarith
    then show ?thesis
      unfolding g using get_exact [OF at2] get_front [OF at2 m(1)] ok(3) sm by cases simp_all
  qed
  then obtain l' it b1 where g: "GetPacketFromList True (pre @ i # post) ?f (of_nat ?m) (?f + of_nat (nbytes pre)) b = Some (l', it, b1)"
    by blast
  have "?m \<le> sz i + nbytes post"
    by (auto simp: retransmit_len_def split: list.splits)
  from get_got [OF at m(1) this ok(3) ne g] have it: "\<not> m_sacked it" "sz it = ?m"
    using s by (simp_all add: got_def)
  have a: "seq_ge (?f + of_nat (nbytes pre)) ?f" "of_nat n \<le> m_sentSize b" "m_sentList b \<noteq> []"
    using w n inv l by (simp_all add: ns_seq tx_inv_def of_nat32_le del: of_nat_add)
  show ?thesis
    using a m(2) g it l by (auto simp: GetTransmittedSegment_def Let_def)
qed

lemma retransmit_returns:
  assumes inv: "tx_inv b" and l: "m_sentList b = pre @ i # post" and s: "\<not> m_sacked i"
    and n: "0 < n" "nbytes pre + unat n \<le> nbytes (m_sentList b)"
  shows "\<exists>it b'. CopyFromSequence now n (m_firstByteSeq b + of_nat (nbytes pre)) b = Some (Some it, b') \<and>
    copied now (nbytes pre) (unat n) b it b' \<and> m_retrans it \<and> m_appList b' = m_appList b"
proof -
  let ?n = "unat n" and ?k = "nbytes pre"
  have n0: "0 < ?n" using n(1) by (simp add: unat_gt_0 word_gt_0)
  have k: "?k \<le> tx_total b" and m: "?n = min (unat n) (tx_total b - ?k)"
    using n l by simp_all
  obtain it b1 where t: "GetTransmittedSegment (of_nat ?n) (m_firstByteSeq b + of_nat ?k) b = Some (it, b1)"
      "\<not> m_sacked it"
    using GetTransmittedSegment_returns [OF inv l s n0 n(2)] by blast
  have g: "tx_inv b1" "segment_at ?k ?n b it b1"
    using GetTransmittedSegment_ok [OF inv n0 n(2) t] by blast+
  then obtain r where c: "copy_finish now (it, b1) = Some r"
    using copy_finish_returns [OF g(1)] unfolding segment_at_def by blast
  have "CopyFromSequence now n (m_firstByteSeq b + of_nat ?k) b = Some r"
    using copy_branches [OF inv k m, of now] n0 n(2) t c by simp
  moreover have "(do {
       r \<leftarrow> GetTransmittedSegment (of_nat ?n) (m_firstByteSeq b + of_nat ?k) b;
       if \<not> m_sacked (fst r) then copy_finish now r else None }) = Some r"
    using t c by simp
  ultimately show ?thesis
    using copy_old [OF inv n0 n(2), of now "fst r" "snd r"] by (cases r) auto
qed


section \<open>The SACK update\<close>

text \<open>An item lies in the block from offset \<open>l\<close> to offset \<open>r\<close>.\<close>

definition covered :: "nat \<Rightarrow> nat \<Rightarrow> nat \<Rightarrow> tx_item \<Rightarrow> bool" where
  "covered l r k i \<longleftrightarrow> l \<le> k \<and> k + sz i \<le> r"

fun marked :: "nat \<Rightarrow> nat \<Rightarrow> nat \<Rightarrow> tx_item list \<Rightarrow> tx_item list" where
  "marked l r k [] = []"
| "marked l r k (i # is) =
     (if covered l r k i \<and> \<not> m_sacked i then sacked_item i else i) # marked l r (k + sz i) is"

lemma marked_beyond: "r < k \<Longrightarrow> marked l r k is = is"
  by (induction "is" arbitrary: k) (simp_all add: covered_def)

lemma in_block_window:
  assumes "l < 2147483648" "r < 2147483648" "k + sz i < 2147483648"
  shows "in_block (f + of_nat l, f + of_nat r) (f + of_nat k) i \<longleftrightarrow> covered l r k i"
    and "seq_gt (f + of_nat k + GetSize (m_packet i)) (f + of_nat r) \<longleftrightarrow> r < k + sz i"
proof -
  have e: "f + of_nat k + GetSize (m_packet i) = f + of_nat (k + sz i)" by (simp add: GetSize_def)
  have k: "k < 2147483648" using assms(3) by simp
  show "in_block (f + of_nat l, f + of_nat r) (f + of_nat k) i \<longleftrightarrow> covered l r k i"
    unfolding in_block_def covered_def fst_conv snd_conv e seq_ge_window [OF k assms(1)]
      seq_le_window [OF assms(3,2)] ..
  show "seq_gt (f + of_nat k + GetSize (m_packet i)) (f + of_nat r) \<longleftrightarrow> r < k + sz i"
    unfolding e seq_gt_window [OF assms(3,2)] ..
qed

lemma sack_block_marks:
  assumes "l < 2147483648" "r < 2147483648" "k + nbytes is < 2147483648" "list_all item_ok is"
    and "fst (m_highestSack b) \<noteq> Singular"
  shows "\<exists>cbs n b'. sack_block (f + of_nat l, f + of_nat r) (f + of_nat k) is b = Some (marked l r k is, cbs, n, b')"
  using assms
proof (induction "is" arbitrary: k b)
  case (Cons i "is")
  let ?blk = "(f + of_nat l, f + of_nat r)"
  have w: "k + sz i < 2147483648" "k + sz i + nbytes is < 2147483648" using Cons.prems(3) by simp_all
  note iw = in_block_window [OF Cons.prems(1,2) w(1), of f]
  have nb: "f + of_nat k + GetSize (m_packet i) = f + of_nat (k + sz i)" by (simp add: GetSize_def)
  have IH: "\<exists>cbs n b'. sack_block ?blk (f + of_nat (k + sz i)) is b = Some (marked l r (k + sz i) is, cbs, n, b')"
    if "fst (m_highestSack b) \<noteq> Singular" for b
    using Cons.IH [OF Cons.prems(1,2) w(2) _ that] Cons.prems(4) by simp
  obtain e where e: "it_is_end (fst (m_highestSack b)) = Some e"
    using Cons.prems(5) by (cases "fst (m_highestSack b)") (auto simp: it_is_end_def)
  show ?case
  proof (cases "covered l r k i \<and> \<not> m_sacked i")
    case True
    have "fst (m_highestSack (sacked_buffer (f + of_nat k) e i b)) \<noteq> Singular"
      using Cons.prems(5) by (simp add: sacked_buffer_def)
    from IH [OF this] True show ?thesis
      unfolding sack_block_Cons snd_conv iw e unfolding nb by auto
  next
    case False
    have "\<not> (m_sacked i \<and> m_lost i)" using Cons.prems(4) by (auto simp: item_ok_def)
    with IH [OF Cons.prems(5)] False marked_beyond [of r "k + sz i" l "is"] show ?thesis
      unfolding sack_block_Cons snd_conv iw unfolding nb by (auto simp: covered_def)
  qed
qed simp

lemma sack_block_at:
  assumes "sack_block blk s is b = Some (is', cbs, n, b')" "n \<noteq> 0 \<or> (\<exists>m. fst (m_highestSack b) = AtNode m)"
  shows "\<exists>m. fst (m_highestSack b') = AtNode m"
  using assms
proof (induction "is" arbitrary: s b is' cbs n)
  case (Cons i "is")
  show ?case
  proof (cases "in_block blk s i \<and> \<not> m_sacked i")
    case True
    then obtain e js c m where r: "it_is_end (fst (m_highestSack b)) = Some e"
        "sack_block blk (s + GetSize (m_packet i)) is (sacked_buffer s e i b) = Some (js, c, m, b')"
      using Cons.prems(1) unfolding sack_block_Cons by (auto split: option.splits)
    have "\<exists>m. fst (m_highestSack (sacked_buffer s e i b)) = AtNode m"
      using r(1) by (cases "fst (m_highestSack b)") (auto simp: sacked_buffer_def it_is_end_def)
    with Cons.IH [OF r(2)] show ?thesis by blast
  next
    case False
    then consider js where "sack_block blk (s + GetSize (m_packet i)) is b = Some (js, cbs, n, b')"
      | "n = 0" "b' = b"
      using Cons.prems(1) unfolding sack_block_Cons by (auto split: if_splits)
    then show ?thesis
    proof cases
      case (1 js)
      from Cons.IH [OF 1 Cons.prems(2)] show ?thesis .
    next
      case 2
      with Cons.prems(2) show ?thesis by simp
    qed
  qed
qed simp

lemma tx_inv_not_Singular: "tx_inv b \<Longrightarrow> fst (m_highestSack b) \<noteq> Singular"
  unfolding tx_inv_def using highest_ok_not_Singular by blast

lemma sack_blocks_return:
  assumes "tx_inv b" "ahead (m_highestSack b) (m_firstByteSeq b)"
    and "\<forall>blk \<in> set blks. \<exists>l r. 0 < l \<and> l < 2147483648 \<and> r < 2147483648 \<and>
      blk = (m_firstByteSeq b + of_nat l, m_firstByteSeq b + of_nat r)"
  shows "\<exists>cbs n early b'. sack_blocks blks b = Some (cbs, n, early, b') \<and>
    (n \<noteq> 0 \<or> (\<exists>m. fst (m_highestSack b) = AtNode m) \<longrightarrow> (\<exists>m. fst (m_highestSack b') = AtNode m)) \<and>
    (m_sentList b \<noteq> [] \<longrightarrow> m_sentList b' \<noteq> [] \<and> m_sacked (hd (m_sentList b')) = m_sacked (hd (m_sentList b)))"
  using assms
proof (induction blks arbitrary: b)
  case (Cons blk blks)
  let ?f = "m_firstByteSeq b"
  obtain l r where blk: "0 < l" "l < 2147483648" "r < 2147483648" "blk = (?f + of_nat l, ?f + of_nat r)"
    using Cons.prems(3) by auto
  show ?case
  proof (cases "seq_lt (?f + m_sentSize b) (fst blk)")
    case True
    then show ?thesis by auto
  next
    case False
    have inv: "list_all item_ok (m_sentList b)" "fst (m_highestSack b) \<noteq> Singular"
        "nbytes (m_sentList b) < 2147483648"
      using Cons.prems(1) tx_inv_not_Singular tx_inv_bound [OF Cons.prems(1)] by (simp_all add: tx_inv_def)
    obtain is1 c1 n1 b1 where s: "sack_block blk ?f (m_sentList b) b = Some (is1, c1, n1, b1)"
      using sack_block_marks [OF blk(2,3), of 0 "m_sentList b" b ?f] inv blk(4) by auto
    let ?b = "b1\<lparr>m_sentList := is1\<rparr>"
    note i = sack_block_inv [OF Cons.prems(1) s]
    have f: "m_firstByteSeq ?b = ?f" using i(3) by (simp add: same_rest_def)
    have "seq_gt (fst blk) ?f" using blk by (simp add: ns_seq)
    then have a: "ahead (m_highestSack b1) ?f" "m_sentList b \<noteq> [] \<longrightarrow> m_sacked (hd is1) = m_sacked (hd (m_sentList b))"
      using sack_block_ahead [of blk ?f "[]" "m_sentList b" b is1 c1 n1 b1] s Cons.prems(2) inv(3) by simp_all
    have len: "m_sentList b \<noteq> [] \<longrightarrow> is1 \<noteq> []"
      using i(2) Cons.prems(1) i(1) i(3) by (cases "m_sentList b") (auto simp: stream_def same_rest_def tx_inv_def item_ok_def)
    have "ahead (m_highestSack ?b) (m_firstByteSeq ?b)" "\<forall>blk \<in> set blks. \<exists>l r. 0 < l \<and> l < 2147483648 \<and> r < 2147483648 \<and>
        blk = (m_firstByteSeq ?b + of_nat l, m_firstByteSeq ?b + of_nat r)"
      unfolding f using a(1) Cons.prems(3) by simp_all
    note h = Cons.IH [OF i(1) this]
    obtain c2 n2 early b' where q: "sack_blocks blks ?b = Some (c2, n2, early, b')"
        "n2 \<noteq> 0 \<or> (\<exists>m. fst (m_highestSack ?b) = AtNode m) \<longrightarrow> (\<exists>m. fst (m_highestSack b') = AtNode m)"
        "m_sentList ?b \<noteq> [] \<longrightarrow> m_sentList b' \<noteq> [] \<and> m_sacked (hd (m_sentList b')) = m_sacked (hd (m_sentList ?b))"
      using h by blast
    have hs: "m_highestSack ?b = m_highestSack b1" by simp
    have "n1 + n2 \<noteq> 0 \<Longrightarrow> n1 \<noteq> 0 \<or> n2 \<noteq> 0" by auto
    then have "n1 + n2 \<noteq> 0 \<or> (\<exists>m. fst (m_highestSack b) = AtNode m) \<longrightarrow> (\<exists>m. fst (m_highestSack b') = AtNode m)"
      using q(2) sack_block_at [OF s] unfolding hs by blast
    with False s q a(2) len show ?thesis by simp
  qed
qed auto


text \<open>
  The SACK flags after the blocks \<open>bs\<close>, as pairs of offsets from \<open>SND.UNA\<close>: an item is sacked when it was or
  when it lies inside one of them. \<open>Update\<close> stops at the first block that begins beyond the sent data.
\<close>

fun sacked_by :: "(nat \<times> nat) list \<Rightarrow> nat \<Rightarrow> tx_item list \<Rightarrow> bool list" where
  "sacked_by bs k [] = []"
| "sacked_by bs k (i # is) =
     (m_sacked i \<or> (\<exists>(l, r) \<in> set bs. l \<le> k \<and> k + sz i \<le> r)) # sacked_by bs (k + sz i) is"

definition blocks_at :: "seq32 \<Rightarrow> (nat \<times> nat) list \<Rightarrow> (seq32 \<times> seq32) list" where
  "blocks_at s bs = map (\<lambda>(l, r). (s + of_nat l, s + of_nat r)) bs"

definition in_sent :: "tx_buffer \<Rightarrow> (nat \<times> nat) list \<Rightarrow> (nat \<times> nat) list" where
  "in_sent b bs = takeWhile (\<lambda>(l, r). l \<le> nbytes (m_sentList b)) bs"

lemma sacked_by_Nil: "sacked_by [] k is = map m_sacked is"
  by (induction "is" arbitrary: k) simp_all

lemma sacked_by_marked: "sacked_by bs k (marked l r k is) = sacked_by ((l, r) # bs) k is"
  by (induction "is" arbitrary: k) (auto simp: sacked_item_def covered_def)

lemma sack_block_count:
  "sack_block blk s is b = Some (is', cbs, n, b') \<Longrightarrow> m_sackedOut b' = m_sackedOut b + n"
proof (induction "is" arbitrary: s b is' cbs n)
  case (Cons i "is")
  show ?case
  proof (cases "in_block blk s i \<and> \<not> m_sacked i")
    case True
    then obtain e js c m where r: "n = GetSize (m_packet i) + m"
        "sack_block blk (s + GetSize (m_packet i)) is (sacked_buffer s e i b) = Some (js, c, m, b')"
      using Cons.prems unfolding sack_block_Cons by (auto split: option.splits)
    from Cons.IH [OF r(2)] r(1) show ?thesis by (simp add: sacked_buffer_def)
  next
    case False
    then consider js c where "sack_block blk (s + GetSize (m_packet i)) is b = Some (js, c, n, b')"
      | "n = 0" "b' = b"
      using Cons.prems unfolding sack_block_Cons by (auto split: if_splits)
    then show ?thesis by cases (use Cons.IH in auto)
  qed
qed simp

lemma marked_skel: "skel (marked l r k is) = skel is" "nbytes (marked l r k is) = nbytes is"
  by (induction "is" arbitrary: k) (simp_all add: sacked_item_def)

text \<open>What the blocks leave of the sent list.\<close>

lemma sack_blocks_mark:
  assumes "sack_blocks (blocks_at (m_firstByteSeq b) bs) b = Some (cbs, n, early, b')" "tx_inv b"
    and "\<forall>(l, r) \<in> set bs. l < 2147483648 \<and> r < 2147483648"
  shows "map m_sacked (m_sentList b') = sacked_by (in_sent b bs) 0 (m_sentList b) \<and>
    skel (m_sentList b') = skel (m_sentList b) \<and> m_sackedOut b' = m_sackedOut b + n"
  using assms
proof (induction bs arbitrary: b cbs n)
  case Nil
  then show ?case by (simp add: blocks_at_def in_sent_def sacked_by_Nil)
next
  case (Cons lr bs)
  obtain l r where lr: "lr = (l, r)" "l < 2147483648" "r < 2147483648" using Cons.prems(3) by (cases lr) auto
  let ?f = "m_firstByteSeq b"
  have w: "nbytes (m_sentList b) < 2147483648" using tx_inv_bound [OF Cons.prems(2)] by simp
  have early: "seq_lt (?f + m_sentSize b) (?f + of_nat l) \<longleftrightarrow> nbytes (m_sentList b) < l"
    using Cons.prems(2) lr(2) w by (simp add: tx_inv_def ns_seq)
  show ?case
  proof (cases "nbytes (m_sentList b) < l")
    case True
    with Cons.prems(1) early show ?thesis by (simp add: lr blocks_at_def in_sent_def sacked_by_Nil)
  next
    case False
    have "fst (m_highestSack b) \<noteq> Singular" "list_all item_ok (m_sentList b)"
      using Cons.prems(2) tx_inv_not_Singular by (simp_all add: tx_inv_def)
    then obtain c1 n1 b1 where one: "sack_block (?f + of_nat l, ?f + of_nat r) ?f (m_sentList b) b =
        Some (marked l r 0 (m_sentList b), c1, n1, b1)"
      using sack_block_marks [OF lr(2,3), of 0 "m_sentList b" b ?f] w by auto
    let ?b = "b1\<lparr>m_sentList := marked l r 0 (m_sentList b)\<rparr>"
    note i = sack_block_inv [OF Cons.prems(2) one]
    have f: "m_firstByteSeq ?b = ?f" using i(3) by (simp add: same_rest_def)
    obtain c2 n2 where more: "sack_blocks (blocks_at (m_firstByteSeq ?b) bs) ?b = Some (c2, n2, early, b')" "n = n1 + n2"
      using Cons.prems(1) early False one unfolding f by (auto simp: lr blocks_at_def split: Option.bind_splits)
    have "\<forall>(l, r) \<in> set bs. l < 2147483648 \<and> r < 2147483648" using Cons.prems(3) by simp
    note h = Cons.IH [OF more(1) i(1) this]
    have "in_sent b (lr # bs) = (l, r) # in_sent ?b bs"
      using False by (simp add: in_sent_def lr(1) marked_skel)
    with h more(2) sack_block_count [OF one] show ?thesis
      by (simp add: sacked_by_marked marked_skel)
  qed
qed

lemma sskel_map_sacked: "sskel is = sskel js \<Longrightarrow> map m_sacked is = map m_sacked js"
proof -
  assume "sskel is = sskel js"
  from arg_cong [OF this, of "map (\<lambda>(n, p, s, k). k)"] show ?thesis by (simp add: sskel_def comp_def)
qed

lemma skel_map_packet: "skel is = skel js \<Longrightarrow> map m_packet is = map m_packet js"
proof -
  assume "skel is = skel js"
  from arg_cong [OF this, of "map (\<lambda>(n, p, s). p)"] show ?thesis by (simp add: skel_def comp_def)
qed

lemma Update_marks:
  assumes "Update (blocks_at (m_firstByteSeq b) bs) b = Some (n, cbs, b')" "tx_inv b"
    and "\<forall>(l, r) \<in> set bs. l < 2147483648 \<and> r < 2147483648"
  shows "map m_sacked (m_sentList b') = sacked_by (in_sent b bs) 0 (m_sentList b)"
    and "map m_packet (m_sentList b') = map m_packet (m_sentList b)"
    and "m_sackedOut b' = m_sackedOut b + n"
proof -
  obtain early b1 where s: "sack_blocks (blocks_at (m_firstByteSeq b) bs) b = Some (cbs, n, early, b1)"
    using assms(1) by (auto simp: Update_def split: Option.bind_splits if_splits)
  note m = sack_blocks_mark [OF s assms(2,3)]
  have "b' = b1 \<or> UpdateLostCount b1 = Some b'"
    using assms(1) s by (auto simp: Update_def split: if_splits Option.bind_splits)
  then have "sskel (m_sentList b') = sskel (m_sentList b1) \<and> m_sackedOut b' = m_sackedOut b1"
  proof
    assume u: "UpdateLostCount b1 = Some b'"
    then have "m_sackedOut b' = m_sackedOut b1" by (cases rule: UpdateLostCount_cases) simp_all
    with UpdateLostCount_sskel [OF u] show ?thesis ..
  qed simp
  then have e: "map m_sacked (m_sentList b') = map m_sacked (m_sentList b1)"
      "map m_packet (m_sentList b') = map m_packet (m_sentList b1)" "m_sackedOut b' = m_sackedOut b1"
    by (blast intro: sskel_map_sacked skel_map_packet sskel_skel)+
  have "map m_packet (m_sentList b1) = map m_packet (m_sentList b)" using m skel_map_packet by blast
  with e m show "map m_sacked (m_sentList b') = sacked_by (in_sent b bs) 0 (m_sentList b)"
    "map m_packet (m_sentList b') = map m_packet (m_sentList b)" "m_sackedOut b' = m_sackedOut b + n"
    by simp_all
qed

lemma UpdateLostCount_returns:
  assumes inv: "tx_inv b" and a: "ahead (m_highestSack b) (m_firstByteSeq b)"
    and n: "fst (m_highestSack b) = AtNode n" and l: "m_sentList b = h # t"
  shows "\<exists>b'. UpdateLostCount b = Some b'"
proof -
  obtain s where hs: "m_highestSack b = (AtNode n, s)" using n by (cases "m_highestSack b") simp
  have "highest_ok (m_highestSack b) (m_firstByteSeq b) (m_sentList b)" using inv by (simp add: tx_inv_def)
  then obtain k where "sacked_from n k (m_sentList b)"
    using a by (auto simp: hs highest_ok_def ahead_def)
  then have "n \<in> node ` set (m_sentList b)"
    unfolding sacked_from_def by force
  then show ?thesis
    by (auto simp: UpdateLostCount_def hs l split: prod.splits)
qed

lemma Update_returns:
  assumes inv: "tx_inv b" and a: "ahead (m_highestSack b) (m_firstByteSeq b)"
    and l: "m_sentList b = h # t" "\<not> m_sacked h"
    and blks: "\<forall>blk \<in> set blks. \<exists>l r. 0 < l \<and> l < 2147483648 \<and> r < 2147483648 \<and>
      blk = (m_firstByteSeq b + of_nat l, m_firstByteSeq b + of_nat r)"
  shows "\<exists>n cbs b'. Update blks b = Some (n, cbs, b')"
proof -
  obtain cbs n early b1 where s: "sack_blocks blks b = Some (cbs, n, early, b1)"
      "n \<noteq> 0 \<longrightarrow> (\<exists>m. fst (m_highestSack b1) = AtNode m)"
      "m_sentList b1 \<noteq> []" "\<not> m_sacked (hd (m_sentList b1))"
    using sack_blocks_return [OF inv a blks] l by auto
  have i: "tx_inv b1" using sack_blocks_inv [OF s(1) inv] by blast
  have "\<forall>blk \<in> set blks. seq_gt (fst blk) (m_firstByteSeq b)"
    using blks by (auto simp: ns_seq)
  from sack_blocks_ahead [OF s(1) inv this a] have a1: "ahead (m_highestSack b1) (m_firstByteSeq b1)" .
  show ?thesis
  proof (cases "early \<or> n = 0")
    case True
    with s tx_inv_counters [OF i] show ?thesis by (auto simp: Update_def)
  next
    case False
    with s(2) obtain m where m: "fst (m_highestSack b1) = AtNode m" by blast
    obtain h1 t1 where "m_sentList b1 = h1 # t1" using s(3) by (cases "m_sentList b1") auto
    then obtain b2 where u: "UpdateLostCount b1 = Some b2"
      using UpdateLostCount_returns [OF i a1 m] by blast
    have sk: "sskel (m_sentList b2) = sskel (m_sentList b1)" by (rule UpdateLostCount_sskel [OF u])
    then have ne: "m_sentList b2 \<noteq> []" using s(3) by (auto simp: sskel_def)
    have "\<not> m_sacked (hd (m_sentList b2))" using sskel_hd [OF sk ne] s(4) by simp
    moreover have "tx_inv b2" using UpdateLostCount_ok [OF i u s(4)] by blast
    ultimately show ?thesis
      using False s(1) m u ne tx_inv_counters [of b2]
      by (auto simp: Update_def it_is_end_def word_neq_0_conv)
  qed
qed

section \<open>Properties of reachable buffers\<close>

text \<open>
  The scoreboard is consistent: the checks of \<open>ConsistencyCheck\<close> hold (the three counters are the sums over
  the flagged items), \<open>m_size\<close> and \<open>m_sentSize\<close> count the bytes held, the assertion of \<open>BytesInFlight\<close> holds,
  and what it returns are the bytes neither lost nor sacked and those retransmitted.
\<close>

definition scoreboard_ok :: "tx_buffer \<Rightarrow> bool" where
  "scoreboard_ok b \<longleftrightarrow>
     ConsistencyCheck b \<and> m_size b = of_nat (length (stream b)) \<and>
     m_sentSize b = of_nat (nbytes (m_sentList b)) \<and>
     BytesInFlight b = Some (of_nat (flagged (\<lambda>i. \<not> m_lost i \<and> \<not> m_sacked i) (m_sentList b) +
       flagged m_retrans (m_sentList b)))"

lemma item_ok_bytes:
  "list_all item_ok is \<Longrightarrow>
    nbytes is = flagged m_sacked is + flagged m_lost is + flagged (\<lambda>i. \<not> m_lost i \<and> \<not> m_sacked i) is"
  by (induction "is") (auto simp: item_ok_def)

lemma scoreboard_counts:
  assumes "list_all item_ok (m_sentList b)" "counts b (m_sentList b)" "nbytes (m_sentList b) < 2147483648"
    and "m_size b = of_nat (length (stream b))" "m_sentSize b = of_nat (nbytes (m_sentList b))"
  shows "scoreboard_ok b"
proof -
  note n = item_ok_bytes [OF assms(1)]
  have "m_sackedOut b + m_lostOut b = of_nat (flagged m_sacked (m_sentList b) + flagged m_lost (m_sentList b))"
    using assms(2) by (simp add: counts_def)
  moreover have "of_nat (flagged m_sacked (m_sentList b) + flagged m_lost (m_sentList b)) \<le> m_sentSize b"
    unfolding assms(5) using n assms(3) by (subst of_nat32_le) simp_all
  moreover have "m_sentSize b - (m_sackedOut b + m_lostOut b) =
      of_nat (flagged (\<lambda>i. \<not> m_lost i \<and> \<not> m_sacked i) (m_sentList b))"
    using assms(2,5) n by (simp add: counts_def)
  ultimately show ?thesis
    using assms(2,4,5) by (simp add: scoreboard_ok_def ConsistencyCheck_def flag_bytes_flagged BytesInFlight_def counts_def)
qed

lemma scoreboard_inv: "tx_inv b \<Longrightarrow> scoreboard_ok b"
  using tx_inv_bound [of b] tx_inv_counts [of b]
  by (intro scoreboard_counts) (simp_all add: tx_inv_def stream_def)

lemma scoreboard_last:
  assumes inv: "tx_inv b" and l: "m_sentList b = is @ [i]"
  shows "scoreboard_ok (ResetLastSegmentSent b) \<longleftrightarrow> \<not> m_lost i \<and> \<not> m_sacked i"
proof -
  let ?b = "ResetLastSegmentSent b"
  have w: "nbytes is + sz i < 2147483648" "0 < sz i" using tx_inv_bound [OF inv] inv l by (auto simp: tx_inv_def item_ok_def)
  have c: "m_lostOut ?b = of_nat (flagged m_lost (is @ [i]))" "m_sackedOut ?b = of_nat (flagged m_sacked (is @ [i]))"
      "m_sentList ?b = is"
    using inv l by (simp_all add: ResetLast_eq [OF l] tx_inv_def)
  show ?thesis
  proof (cases "m_lost i \<or> m_sacked i")
    case True
    have "(of_nat (flagged P is) :: uint32) \<noteq> of_nat (flagged P (is @ [i]))" if "P i" for P
    proof -
      have "flagged P is \<noteq> flagged P (is @ [i])" "flagged P (is @ [i]) < 2147483648"
        using that w flagged_le [of P "is"] by simp_all
      then show ?thesis by (subst of_nat32_eq) simp_all
    qed
    with True c have "\<not> ConsistencyCheck ?b" by (auto simp: ConsistencyCheck_def flag_bytes_flagged simp del: flagged_simps)
    with True show ?thesis by (simp add: scoreboard_ok_def)
  next
    case False
    have "stream ?b = stream b" using ResetLastSegmentSent_data [OF tx_inv_data [OF inv]] by (simp add: same_data_def)
    moreover have "m_size ?b = m_size b" by (simp add: ResetLast_eq [OF l])
    ultimately have sz: "m_size ?b = of_nat (length (stream ?b))" using inv by (simp add: tx_inv_def stream_def)
    have "scoreboard_ok ?b"
    proof (rule scoreboard_counts)
      show "list_all item_ok (m_sentList ?b)" using inv l c(3) by (simp add: tx_inv_def)
      show "counts ?b (m_sentList ?b)" using False c inv l by (simp add: counts_def ResetLast_eq [OF l] tx_inv_def)
      show "m_sentSize ?b = of_nat (nbytes (m_sentList ?b))" using inv l by (simp add: ResetLast_eq [OF l] tx_inv_def)
    qed (use w c(3) sz in simp_all)
    with False show ?thesis by simp
  qed
qed

lemma scoreboard_reno:
  assumes inv: "tx_inv b" and r: "AddRenoSack b = Some b'"
  shows "scoreboard_ok b' \<longleftrightarrow> reno_clean (tl (m_sentList b))"
  using r
proof (cases rule: AddRenoSack_cases)
  case (1 h t)
  then have "tx_inv b'" using AddRenoSack_ok [OF inv r] by simp
  with 1 show ?thesis using scoreboard_inv by simp
next
  case (2 h pre j post)
  have clean: "reno_clean (tl (m_sentList b)) \<longleftrightarrow> \<not> m_lost j" using reno_clean_at [OF 2(3,2)] 2(1) by simp
  show ?thesis
  proof (cases "m_lost j")
    case False
    with clean AddRenoSack_ok [OF inv r] scoreboard_inv show ?thesis by blast
  next
    case True
    let ?u = "\<lambda>i. \<not> m_lost i \<and> \<not> m_sacked i"
    have w: "sz j < 2147483648" "0 < sz j" using tx_inv_bound [OF inv] inv 2(1) by (auto simp: tx_inv_def item_ok_def)
    have n: "nbytes (m_sentList b) =
        flagged m_sacked (m_sentList b) + flagged m_lost (m_sentList b) + flagged ?u (m_sentList b)"
      by (rule item_ok_bytes) (use inv in \<open>simp add: tx_inv_def\<close>)
    have f: "flagged ?u (m_sentList b') = flagged ?u (m_sentList b)"
        "flagged m_retrans (m_sentList b') = flagged m_retrans (m_sentList b)"
      using 2(1,2) True by (simp_all add: 2(4))
    have all: "m_sentSize b - (m_sackedOut b + m_lostOut b) + m_retransOut b =
        of_nat (flagged ?u (m_sentList b) + flagged m_retrans (m_sentList b))"
      using inv n by (simp add: tx_inv_def)
    have "(of_nat (sz j) :: uint32) \<noteq> 0" using w of_nat32_eq [of "sz j" 0] by simp
    then have "x - (y + of_nat (sz j) + z) + r \<noteq> x - (y + z) + r" for x y z r :: uint32
      by (simp add: algebra_simps)
    then have "BytesInFlight b' \<noteq> Some (of_nat (flagged ?u (m_sentList b') + flagged m_retrans (m_sentList b')))"
      unfolding f all [symmetric] by (simp add: 2(4) BytesInFlight_def GetSize_def)
    with clean True show ?thesis by (simp add: scoreboard_ok_def)
  qed
qed

text \<open>
  C4. In every state that the send buffer reaches the scoreboard is consistent. Reached is, from a new
  buffer, by any sequence of: \<open>Add\<close> of packets below \<open>2 ^ 32\<close> bytes; limits of the buffer from its size to
  below \<open>2 ^ 31\<close>; the setters; \<open>CopyFromSequence\<close> at any place of the stream; \<open>DiscardUpTo\<close> of up to
  \<open>2 ^ 31\<close> bytes where \<open>ack_safe\<close> holds; \<open>Update\<close> with blocks that begin above \<open>SND.UNA\<close>; the resets and marks; and,
  with a premise, \<open>ResetLastSegmentSent\<close> (the last segment has no flag) and \<open>AddRenoSack\<close> (the first
  segment after the head that is not sacked is not lost). These two premises cannot be dropped, because the
  code does not look at the flags: at a reached state \<open>ResetLastSegmentSent\<close> leaves a consistent
  scoreboard exactly when the last segment is neither lost nor sacked, and \<open>AddRenoSack\<close> exactly when
  its segment is not lost.
\<close>

theorem tx_scoreboard_consistent:
  assumes "tx_reachable b"
  shows "scoreboard_ok b \<and>
    (m_sentList b \<noteq> [] \<longrightarrow>
      (scoreboard_ok (ResetLastSegmentSent b) \<longleftrightarrow> \<not> m_lost (last (m_sentList b)) \<and> \<not> m_sacked (last (m_sentList b)))) \<and>
    (\<forall>b'. AddRenoSack b = Some b' \<longrightarrow> (scoreboard_ok b' \<longleftrightarrow> reno_clean (tl (m_sentList b))))"
proof -
  have inv: "tx_inv b" using tx_reachable_inv [OF assms] .
  then show ?thesis
    using scoreboard_inv scoreboard_reno scoreboard_last [OF inv, of "butlast (m_sentList b)" "last (m_sentList b)"] by auto
qed

text \<open>
  \<open>Add\<close> appends the whole packet when it fits under the limit of the buffer and otherwise
  changes nothing and says so.
\<close>

theorem tx_add_appends:
  assumes "tx_reachable b" "length p < 2 ^ 32"
  shows "if length (stream b) + length p \<le> unat (m_maxBuffer b)
    then fst (Add p b) \<and> stream (snd (Add p b)) = stream b @ p
    else Add p b = (False, b)"
proof -
  have "length (stream b) = tx_total b" by (simp add: stream_def)
  with Add_ok [OF tx_reachable_inv [OF assms(1)], of p] assms(2) show ?thesis by auto
qed

text \<open>
  C15. A segment that \<open>CopyFromSequence\<close> returns starts at the sequence asked for, is not empty, is
  no longer than asked for and carries exactly the bytes of the stream at that place; the stream
  and \<open>SND.UNA\<close> stay as they are. No segment is returned only for zero bytes or at the end of the
  data.
\<close>

theorem tx_copy_returns_stream:
  assumes "tx_reachable b" "k \<le> length (stream b)"
    and "CopyFromSequence now n (HeadSequence b + of_nat k) b = Some (r, b')"
  shows "stream b' = stream b \<and> HeadSequence b' = HeadSequence b \<and>
    (case r of
       None \<Rightarrow> n = 0 \<or> k = length (stream b)
     | Some it \<Rightarrow> m_startSeq it = HeadSequence b + of_nat k \<and> m_packet it \<noteq> [] \<and>
         length (m_packet it) \<le> unat n \<and> m_packet it = take (length (m_packet it)) (drop k (stream b)))"
proof -
  have inv: "tx_inv b" using tx_reachable_inv [OF assms(1)] .
  have k: "k \<le> tx_total b" using assms(2) by (simp add: stream_def)
  note c = copy_returns_copied [OF inv k assms(3) [unfolded HeadSequence_def]]
  show ?thesis
  proof (cases r)
    case None
    with c show ?thesis by (auto simp: HeadSequence_def stream_def)
  next
    case (Some it)
    with c show ?thesis
      by (auto simp: copied_def segment_at_def HeadSequence_def tx_frame_fields)
  qed
qed

text \<open>
  C16. New data is always handed out: when application data is waiting, a call for it returns a
  segment with the next bytes of it, as many as asked for or all, and moves exactly these to the
  sent data.
\<close>

theorem tx_new_data_is_sent:
  assumes "tx_reachable b" "m_appList b \<noteq> []" "0 < n"
  shows "\<exists>it b'. CopyFromSequence now n (HeadSequence b + m_sentSize b) b = Some (Some it, b') \<and>
    m_packet it = take (unat n) (bytes_of (m_appList b)) \<and>
    bytes_of (m_appList b') = drop (unat n) (bytes_of (m_appList b)) \<and> m_lastSent it = now"
proof -
  have inv: "tx_inv b" using tx_reachable_inv [OF assms(1)] .
  let ?s = "nbytes (m_sentList b)"
  obtain i is' where "m_appList b = i # is'" using assms(2) by (cases "m_appList b") auto
  then have "0 < nbytes (m_appList b)" using inv by (auto simp: tx_inv_def fresh_item_def)
  moreover have "0 < unat n" using assms(3) by (simp add: unat_gt_0 word_gt_0)
  ultimately obtain m where m: "m = min (unat n) (tx_total b - ?s)" "0 < m" "m \<le> nbytes (m_appList b)" by simp
  have e: "HeadSequence b + m_sentSize b = m_firstByteSeq b + of_nat ?s"
    using inv by (simp add: HeadSequence_def tx_inv_def)
  obtain it b' where c: "(do { r \<leftarrow> GetNewSegment (of_nat m) b;
       if \<not> m_retrans (fst r) then copy_finish now r else None }) = Some (Some it, b')"
      "copied now ?s m b it b'" "sz it = m" "bytes_of (m_appList b) = m_packet it @ bytes_of (m_appList b')"
    using copy_new [OF inv m(2,3), of now] by blast
  have "CopyFromSequence now n (m_firstByteSeq b + of_nat ?s) b = Some (Some it, b')"
    using copy_branches [OF inv _ m(1), of now] m(2) c(1) by simp
  moreover have "m_packet it = take (unat n) (bytes_of (m_appList b))"
      "bytes_of (m_appList b') = drop (unat n) (bytes_of (m_appList b))"
  proof -
    have l: "nbytes (m_appList b) = m + nbytes (m_appList b')"
      using arg_cong [OF c(4), of length] c(3) by simp
    have "m_packet it = take (unat n) (bytes_of (m_appList b)) \<and>
        bytes_of (m_appList b') = drop (unat n) (bytes_of (m_appList b))"
    proof (cases "unat n \<le> nbytes (m_appList b)")
      case True
      then have "sz it = unat n" using m(1) c(3) by simp
      then show ?thesis unfolding c(4) by simp
    next
      case False
      then have "m = nbytes (m_appList b)" using m(1) by linarith
      with l have "length (bytes_of (m_appList b')) = 0" by simp
      then have "bytes_of (m_appList b') = []" by (simp only: length_0_conv)
      moreover have "sz it \<le> unat n" using m(1) c(3) by linarith
      ultimately show ?thesis unfolding c(4) by simp
    qed
    then show "m_packet it = take (unat n) (bytes_of (m_appList b))"
      "bytes_of (m_appList b') = drop (unat n) (bytes_of (m_appList b))" by blast+
  qed
  ultimately show ?thesis
    unfolding e using c(2) by (auto simp: copied_def)
qed

text \<open>
  C17. A sent segment that is not sacked can be retransmitted: a call at its first byte for data
  that was sent returns a segment that starts there, is marked as retransmitted and carries the
  bytes of the stream; no assertion of the merging and splitting fails.
\<close>

theorem tx_retransmission_returns:
  assumes "tx_reachable b" "m_sentList b = pre @ i # post" "\<not> m_sacked i"
    and "0 < n" "nbytes pre + unat n \<le> nbytes (m_sentList b)"
  shows "\<exists>it b'. CopyFromSequence now n (m_startSeq i) b = Some (Some it, b') \<and> m_retrans it \<and>
    m_startSeq it = m_startSeq i \<and> m_packet it = take (sz it) (drop (nbytes pre) (stream b)) \<and>
    0 < sz it \<and> sz it \<le> unat n \<and> m_appList b' = m_appList b"
proof -
  have inv: "tx_inv b" using tx_reachable_inv [OF assms(1)] .
  have e: "m_startSeq i = m_firstByteSeq b + of_nat (nbytes pre)"
    using inv assms(2) by (simp add: tx_inv_def)
  show ?thesis
    unfolding e using retransmit_returns [OF inv assms(2,3,4,5), of now]
    by (auto simp: copied_def segment_at_def)
qed

text \<open>
  C18. An acknowledgement of \<open>k\<close> bytes that returns has removed exactly the first \<open>k\<close> bytes of the stream
  and moved \<open>SND.UNA\<close> by \<open>k\<close>, whatever part of them was still unsent, and also when it covers a FIN beyond
  the data. It does return, with no assertion failing, when it stops at a segment that is not sacked or at
  the end of the data; and also when it stops at a sacked one, provided that the next segment that is not
  sacked is not lost and, with SACK, that there is a segment behind it (\<open>ack_safe\<close>). With SACK it fails
  when it stops inside the last segment and that one is sacked: the repair asserts a second segment.
\<close>

theorem tx_discard_exact:
  assumes "tx_reachable b" "k < 2 ^ 31"
  shows "(\<forall>gone b'. DiscardUpTo now (HeadSequence b + of_nat k) b = Some (gone, b') \<longrightarrow>
      stream b' = drop k (stream b) \<and> HeadSequence b' = HeadSequence b + of_nat k) \<and>
    (ack_safe k b \<longrightarrow> (\<exists>gone b'. DiscardUpTo now (HeadSequence b + of_nat k) b = Some (gone, b'))) \<and>
    (0 < k \<and> m_sackEnabled b \<and> (\<exists>h. drop_bytes k (m_sentList b) = [h] \<and> m_sacked h) \<longrightarrow>
      DiscardUpTo now (HeadSequence b + of_nat k) b = None)"
proof -
  have g: "tx_inv b" "ahead (m_highestSack b) (m_firstByteSeq b)" and k: "k < 2147483648"
    using tx_reachable_good [OF assms(1)] assms(2) by (simp_all add: tx_good_def)
  have "stream b' = drop k (stream b) \<and> HeadSequence b' = HeadSequence b + of_nat k"
    if r: "DiscardUpTo now (m_firstByteSeq b + of_nat k) b = Some (gone, b')" for gone b'
  proof (cases "k = 0")
    case True
    with r show ?thesis by (simp add: DiscardUpTo_def seq_ge_def HeadSequence_def)
  next
    case False
    have d: "unat (of_nat k :: uint32) = k" using k by (intro unat_of_nat32) simp
    have "\<not> seq_ge (m_firstByteSeq b) (m_firstByteSeq b + of_nat k)" using False k by (simp add: ns_seq)
    from DiscardUpTo_acked [OF tx_inv_data [OF g(1)] r this] d show ?thesis by (simp add: acked_def HeadSequence_def)
  qed
  then show ?thesis
    using DiscardUpTo_ok [OF g k, of now] DiscardUpTo_fails [OF g _ k, of _ now] unfolding HeadSequence_def by blast
qed

text \<open>
  C19. \<open>Update\<close> with SACK blocks that begin above \<open>SND.UNA\<close>, within \<open>2 ^ 31\<close> bytes of it, returns, as long as
  something is outstanding and the first segment is not sacked. In the buffer it returns a segment is
  sacked exactly when it was before or lies inside one of the blocks, up to the first block that begins
  beyond the sent data, where the function stops. The segments keep their bytes, the stream stays, and
  the value returned is what the count of sacked bytes has grown by.
\<close>

theorem tx_update_returns:
  assumes "tx_reachable b" "m_sentList b = h # t" "\<not> m_sacked h"
    and "\<forall>(l, r) \<in> set bs. 0 < l \<and> l < 2 ^ 31 \<and> r < 2 ^ 31"
  shows "\<exists>n cbs b'. Update (blocks_at (HeadSequence b) bs) b = Some (n, cbs, b') \<and>
    map m_sacked (m_sentList b') = sacked_by (in_sent b bs) 0 (m_sentList b) \<and>
    map m_packet (m_sentList b') = map m_packet (m_sentList b) \<and>
    m_sackedOut b' = m_sackedOut b + n \<and> stream b' = stream b"
proof -
  have g: "tx_inv b" "ahead (m_highestSack b) (m_firstByteSeq b)"
    using tx_reachable_good [OF assms(1)] by (simp_all add: tx_good_def)
  have "\<forall>blk \<in> set (blocks_at (m_firstByteSeq b) bs). \<exists>l r. 0 < l \<and> l < 2147483648 \<and> r < 2147483648 \<and>
      blk = (m_firstByteSeq b + of_nat l, m_firstByteSeq b + of_nat r)"
    using assms(4) by (fastforce simp: blocks_at_def)
  then obtain n cbs b' where u: "Update (blocks_at (m_firstByteSeq b) bs) b = Some (n, cbs, b')"
    using Update_returns [OF g assms(2,3)] by blast
  have "\<forall>(l, r) \<in> set bs. l < 2147483648 \<and> r < 2147483648" using assms(4) by auto
  note m = Update_marks [OF u g(1) this]
  show ?thesis unfolding HeadSequence_def using u m Update_ok [OF g(1) u] by blast
qed

end
