(* ===== verification/TxRuns.thy ===== *)
theory TxRuns
  imports TxProps
begin

text \<open>
  Concrete runs of the send buffer: the states in which the properties of the buffer are applied,
  the request at which an assertion of the code fails, and two runs in which one does.
\<close>

declare GetPacketFromList.simps [code]
declare CopyFromSequence.simps [code]
declare discard_loop.simps [code]

section \<open>A connection with two segments in flight\<close>

text \<open>Twenty bytes are written, two segments of eight are sent from sequence 1000, the second is sacked.\<close>

definition payload :: packet where
  "payload = [1, 2, 3, 4, 5, 6, 7, 8, 9, 10, 11, 12, 13, 14, 15, 16, 17, 18, 19, 20]"

definition run_start :: "seq32 \<Rightarrow> tx_buffer option" where
  "run_start s = map_option (\<lambda>b. snd (Add payload (SetDupAckThresh 3 b))) (SetHeadSequence s (new_tx_buffer 0))"

definition run_sent :: "seq32 \<Rightarrow> tx_buffer option" where
  "run_sent s =
     do {
       b \<leftarrow> run_start s;
       (_, b1) \<leftarrow> CopyFromSequence 5 8 s b;
       (_, b2) \<leftarrow> CopyFromSequence 6 8 (s + 8) b1;
       Some b2
     }"

definition run_sacked :: "seq32 \<Rightarrow> tx_buffer option" where
  "run_sacked s = do { b \<leftarrow> run_sent s; (_, _, b1) \<leftarrow> Update [(s + 8, s + 16)] b; Some b1 }"

definition sent_buffer :: tx_buffer where
  "sent_buffer = the (run_sent 1000)"

definition sacked_buffer2 :: tx_buffer where
  "sacked_buffer2 = the (run_sacked 1000)"

lemma run_sent_ok: "run_sent 1000 = Some sent_buffer"
proof -
  have "run_sent 1000 \<noteq> None" by code_simp
  then show ?thesis by (auto simp: sent_buffer_def)
qed

lemma run_sacked_ok: "run_sacked 1000 = Some sacked_buffer2"
proof -
  have "run_sacked 1000 \<noteq> None" by code_simp
  then show ?thesis by (auto simp: sacked_buffer2_def)
qed

lemma sent_buffer_value:
  "map (\<lambda>i. (m_startSeq i, length (m_packet i), m_sacked i, m_lost i)) (m_sentList sent_buffer) =
     [(1000, 8, False, False), (1008, 8, False, False)] \<and>
   stream sent_buffer = payload \<and> length (m_appList sent_buffer) = 1 \<and> HeadSequence sent_buffer = 1000 \<and>
   m_sentSize sent_buffer = 16 \<and> m_maxBuffer sent_buffer = 32768 \<and>
   map (length \<circ> m_packet) (m_appList sent_buffer) = [4]"
  unfolding sent_buffer_def by code_simp


lemma sacked_buffer_value:
  "map (\<lambda>i. (m_startSeq i, m_sacked i)) (m_sentList sacked_buffer2) = [(1000, False), (1008, True)] \<and>
   stream sacked_buffer2 = payload \<and> HeadSequence sacked_buffer2 = 1000 \<and>
   BytesInFlight sacked_buffer2 = Some 8 \<and> GetSacked sacked_buffer2 = 8"
  unfolding sacked_buffer2_def by code_simp

text \<open>The raw comparison that recognises a request across the end of the sent data.\<close>

lemma raw_between:
  assumes "0 < a" "a < m" "m < 2147483648"
  shows "(q :: uint32) < q + of_nat a \<and> q + of_nat a < q + of_nat m \<longleftrightarrow> unat q + m < 2 ^ 32"
proof -
  have u: "unat (q + of_nat j) = (unat q + j) mod 2 ^ 32" if "j < 2147483648" for j
    using that by (simp add: unat_word_ariths unat_of_nat)
  have q: "unat q < 2 ^ 32" using unsigned_less [of q] by simp
  have w: "(unat q + j) mod 2 ^ 32 = (if unat q + j < 2 ^ 32 then unat q + j else unat q + j - 2 ^ 32)"
    if "j < 2147483648" for j
    using that q by (simp add: le_mod_geq)
  have a: "a < 2147483648" using assms by simp
  show ?thesis
    unfolding word_less_nat_alt u [OF a] u [OF assms(3)] w [OF a] w [OF assms(3)] using assms q by auto
qed

lemma run_start_reachable: "run_start s = Some b \<Longrightarrow> tx_reachable b \<and> m_firstByteSeq b = s \<and> stream b = payload"
proof -
  assume "run_start s = Some b"
  then obtain b1 where b1: "SetHeadSequence s (new_tx_buffer 0) = Some b1" "b = snd (Add payload (SetDupAckThresh 3 b1))"
    by (auto simp: run_start_def)
  define b0 where "b0 = SetDupAckThresh 3 b1"
  have b0: "b = snd (Add payload b0)" using b1(2) by (simp add: b0_def)
  have r: "tx_reachable b0"
    unfolding b0_def by (rule tx_reachable.step [OF tx_reachable.init [OF b1(1)] tx_step.thresh])
  have p: "length payload < 2 ^ 32" by (simp add: payload_def)
  have f: "m_firstByteSeq b0 = s" "stream b0 = []" "m_maxBuffer b0 = 32768"
    using b1(1) by (auto simp: b0_def SetDupAckThresh_def SetHeadSequence_def new_tx_buffer_def stream_def)
  have "tx_reachable b" unfolding b0 by (rule tx_reachable.step [OF r tx_step.add [OF p]])
  moreover have "stream b = payload"
  proof -
    have "tx_total b0 = 0" using arg_cong [OF f(2), of length] by (simp add: stream_def)
    with Add_ok [OF tx_reachable_inv [OF r], of payload] f show ?thesis
      by (simp add: b0 payload_def)
  qed
  moreover have "m_firstByteSeq b = s" using Add_frame b0 f(1) by simp
  ultimately show ?thesis by blast
qed

lemma copy_step:
  assumes "tx_reachable b" "m_firstByteSeq b = s" "stream b = payload" "k \<le> 20"
    and "CopyFromSequence now n (s + of_nat k) b = Some (r, b')"
  shows "tx_reachable b' \<and> m_firstByteSeq b' = s \<and> stream b' = payload"
proof -
  have k: "k \<le> length (stream b)" using assms(3,4) by (simp add: payload_def)
  have c: "CopyFromSequence now n (m_firstByteSeq b + of_nat k) b = Some (r, b')"
    using assms(2,5) by simp
  have kt: "k \<le> tx_total b" using k by (simp add: stream_def)
  have "stream b' = stream b \<and> m_firstByteSeq b' = m_firstByteSeq b"
    using copy_returns_copied [OF tx_reachable_inv [OF assms(1)] kt c]
    by (cases r) (auto simp: copied_def tx_frame_fields)
  with assms tx_reachable.step [OF assms(1) tx_step.copy [OF k c]] show ?thesis by simp
qed

lemma run_sent_reachable:
  assumes "run_sent s = Some b"
  shows "tx_reachable b \<and> m_firstByteSeq b = s \<and> stream b = payload"
proof -
  obtain b0 r1 b1 r2 where r: "run_start s = Some b0" "CopyFromSequence 5 8 s b0 = Some (r1, b1)"
      "CopyFromSequence 6 8 (s + 8) b1 = Some (r2, b)"
    using assms by (auto simp: run_sent_def split: Option.bind_splits)
  have 1: "tx_reachable b1 \<and> m_firstByteSeq b1 = s \<and> stream b1 = payload"
    using copy_step [of b0 s 0 5 8 r1 b1] run_start_reachable [OF r(1)] r(2) by simp
  then show ?thesis
    using copy_step [of b1 s 8 6 8 r2 b] r(3) by simp
qed

lemmas sent_reachable = run_sent_reachable [OF run_sent_ok]

lemma sacked_reachable: "tx_reachable sacked_buffer2"
proof -
  obtain n cbs where u: "Update [(1000 + 8, 1000 + 16)] sent_buffer = Some (n, cbs, sacked_buffer2)"
    using run_sacked_ok run_sent_ok by (auto simp: run_sacked_def split: Option.bind_splits)
  show ?thesis
    by (rule tx_reachable.step [OF _ tx_step.sack [OF _ u]])
      (use sent_reachable in \<open>simp_all add: HeadSequence_def seq_gt_def halfMaxValue_def\<close>)
qed

section \<open>The properties at these states\<close>

theorem tx_scoreboard_consistent_witness:
  "scoreboard_ok sacked_buffer2 \<and> \<not> scoreboard_ok (ResetLastSegmentSent sacked_buffer2)"
proof -
  have "m_sentList sacked_buffer2 \<noteq> []" "m_sacked (last (m_sentList sacked_buffer2))"
    using sacked_buffer_value by (auto simp: map_eq_Cons_conv)
  then show ?thesis using tx_scoreboard_consistent [OF sacked_reachable] by blast
qed

theorem tx_add_appends_witness:
  "fst (Add [21, 22] sent_buffer) \<and> stream (snd (Add [21, 22] sent_buffer)) = payload @ [21, 22]"
  using tx_add_appends [of sent_buffer "[21, 22]"] sent_reachable sent_buffer_value
  by (simp add: payload_def)

theorem tx_copy_returns_stream_witness:
  "\<exists>it b'. CopyFromSequence 9 3 (1000 + of_nat 8) sent_buffer = Some (Some it, b') \<and> m_packet it = [9, 10, 11]"
proof -
  have "map_option (\<lambda>(r, b). map_option (length \<circ> m_packet) r) (CopyFromSequence 9 3 (1000 + of_nat 8) sent_buffer) = Some (Some 3)"
    unfolding sent_buffer_def by code_simp
  then obtain it b' where c: "CopyFromSequence 9 3 (1000 + of_nat 8) sent_buffer = Some (Some it, b')" "length (m_packet it) = 3"
    by auto
  have "m_packet it = take 3 (drop 8 payload)"
    using tx_copy_returns_stream [of sent_buffer 8 9 3 "Some it" b'] c sent_reachable sent_buffer_value
    by (simp add: HeadSequence_def payload_def)
  with c show ?thesis by (simp add: payload_def)
qed

theorem tx_new_data_is_sent_witness:
  "\<exists>it b'. CopyFromSequence 9 3 (1000 + 16) sent_buffer = Some (Some it, b') \<and> m_packet it = [17, 18, 19]"
proof -
  have "m_appList sent_buffer \<noteq> []" using sent_buffer_value by auto
  moreover have "bytes_of (m_appList sent_buffer) = [17, 18, 19, 20]"
    unfolding sent_buffer_def by code_simp
  ultimately show ?thesis
    using tx_new_data_is_sent [of sent_buffer 3 9] sent_reachable sent_buffer_value by auto
qed

theorem tx_retransmission_returns_witness:
  "\<exists>it b'. CopyFromSequence 9 8 1000 sacked_buffer2 = Some (Some it, b') \<and> m_retrans it \<and> m_startSeq it = 1000"
proof -
  obtain i j where l: "m_sentList sacked_buffer2 = [i, j]" "m_startSeq i = 1000" "\<not> m_sacked i"
    using sacked_buffer_value by (auto simp: map_eq_Cons_conv)
  have "nbytes (m_sentList sacked_buffer2) = 16"
    unfolding sacked_buffer2_def by code_simp
  then show ?thesis
    using tx_retransmission_returns [of sacked_buffer2 "[]" i "[j]" 8 9] sacked_reachable l by auto
qed

theorem tx_discard_exact_witness:
  "(\<exists>gone b'. DiscardUpTo 9 (1000 + of_nat 8) sent_buffer = Some (gone, b') \<and>
      stream b' = drop 8 payload \<and> HeadSequence b' = 1000 + of_nat 8) \<and>
    DiscardUpTo 9 (1000 + of_nat 12) (SetSackEnabled True sacked_buffer2) = None"
proof
  have "ack_safe 8 sent_buffer" unfolding sent_buffer_def by code_simp
  then show "\<exists>gone b'. DiscardUpTo 9 (1000 + of_nat 8) sent_buffer = Some (gone, b') \<and>
      stream b' = drop 8 payload \<and> HeadSequence b' = 1000 + of_nat 8"
    using tx_discard_exact [of sent_buffer 8 9] sent_reachable by (simp add: HeadSequence_def) blast
  let ?b = "SetSackEnabled True sacked_buffer2"
  have r: "tx_reachable ?b" by (rule tx_reachable.step [OF sacked_reachable tx_step.sack_enabled])
  have "m_sackEnabled ?b \<and> HeadSequence ?b = 1000 \<and> map m_sacked (drop_bytes 12 (m_sentList ?b)) = [True]"
    unfolding sacked_buffer2_def by code_simp
  then show "DiscardUpTo 9 (1000 + of_nat 12) ?b = None"
    using tx_discard_exact [OF r, of 12 9] by (auto simp: map_eq_Cons_conv)
qed

theorem tx_update_returns_witness:
  "\<exists>n cbs b'. Update (blocks_at 1000 [(8, 16), (40, 50)]) sent_buffer = Some (n, cbs, b') \<and>
    map m_sacked (m_sentList b') = [False, True] \<and> stream b' = payload"
proof -
  obtain h t where l: "m_sentList sent_buffer = h # t" "\<not> m_sacked h"
    using sent_buffer_value by (auto simp: map_eq_Cons_conv)
  have "sacked_by (in_sent sent_buffer [(8, 16), (40, 50)]) 0 (m_sentList sent_buffer) = [False, True]"
    unfolding sent_buffer_def by code_simp
  with tx_update_returns [OF _ l, of "[(8, 16), (40, 50)]"] sent_reachable
  obtain n cbs b' where "Update (blocks_at 1000 [(8, 16), (40, 50)]) sent_buffer = Some (n, cbs, b')"
      "map m_sacked (m_sentList b') = [False, True]" "stream b' = payload"
    by (auto simp: HeadSequence_def)
  then show ?thesis by (intro exI conjI)
qed


section \<open>Runs in which an assertion fails\<close>

text \<open>
  C23. Ask \<open>CopyFromSequence\<close>, at the first byte of a sent segment that is not sacked, for data that reaches
  beyond the sent data into the unsent data. The function recognises such a request by comparing raw
  values. As long as the sequence numbers of the request do not wrap around zero it returns a segment of
  sent data; when they do, none of its branches is taken and the null pointer is dereferenced.
\<close>

theorem copy_partial_fails_at_wrap:
  assumes "tx_reachable b" "m_sentList b = pre @ i # post" "\<not> m_sacked i"
    and "m = min (unat n) (length (stream b) - nbytes pre)" "nbytes (m_sentList b) < nbytes pre + m"
  shows "if unat (m_startSeq i) + m < 2 ^ 32
    then \<exists>it b'. CopyFromSequence now n (m_startSeq i) b = Some (Some it, b') \<and> m_startSeq it = m_startSeq i \<and>
      0 < sz it \<and> nbytes pre + sz it \<le> nbytes (m_sentList b) \<and> m_packet it = take (sz it) (drop (nbytes pre) (stream b))
    else CopyFromSequence now n (m_startSeq i) b = None"
proof -
  have inv: "tx_inv b" using tx_reachable_inv [OF assms(1)] .
  let ?k = "nbytes pre" and ?s = "nbytes (m_sentList b)" and ?sq = "m_startSeq i"
  have sq: "?sq = m_firstByteSeq b + of_nat ?k" using inv assms(2) by (simp add: tx_inv_def)
  have T: "tx_total b < 2147483648" using tx_inv_bound [OF inv] .
  have m: "m = min (unat n) (tx_total b - ?k)" using assms(4) by (simp add: stream_def)
  have "0 < sz i" using inv assms(2) by (auto simp: tx_inv_def item_ok_def)
  then have k: "?k < ?s" "?k \<le> tx_total b" "m < 2147483648" using assms(2) T m by simp_all
  have e: "m_firstByteSeq b + m_sentSize b = ?sq + of_nat (?s - ?k)"
    using inv k(1) by (simp add: sq tx_inv_def of_nat_diff)
  have raw: "?sq < ?sq + of_nat (?s - ?k) \<and> ?sq + of_nat (?s - ?k) < ?sq + of_nat m \<longleftrightarrow> unat ?sq + m < 2 ^ 32"
    using k(1,3) assms(5) by (intro raw_between) simp_all
  have c: "CopyFromSequence now n ?sq b =
      (if unat ?sq + m < 2 ^ 32 then CopyFromSequence now (of_nat (?s - ?k)) ?sq b else None)"
    using copy_branches [OF inv k(2) m, of now] k(1) assms(5) unfolding sq [symmetric] e raw by simp
  have u: "unat (of_nat (?s - ?k) :: uint32) = ?s - ?k" using T by (intro unat_of_nat32) simp
  have p: "(0 :: uint32) < of_nat (?s - ?k)" using of_nat32_less [of 0 "?s - ?k"] k(1) T by simp
  have "?k + unat (of_nat (?s - ?k) :: uint32) \<le> ?s" using u k(1) by simp
  from retransmit_returns [OF inv assms(2,3) p this, of now] show ?thesis
    unfolding c sq [symmetric] u using k(1) by (auto simp: copied_def segment_at_def sq)
qed

theorem copy_partial_fails_at_wrap_witness:
  "(\<exists>it b'. CopyFromSequence 7 10 1008 sent_buffer = Some (Some it, b') \<and> m_startSeq it = 1008 \<and> sz it \<le> 8) \<and>
    CopyFromSequence 7 10 4294967292 (the (run_sent 4294967284)) = None"
proof
  obtain i j where l: "m_sentList sent_buffer = [i] @ j # []" "\<not> m_sacked j" "m_startSeq j = 1008" "sz i = 8" "sz j = 8"
    using sent_buffer_value by (auto simp: map_eq_Cons_conv)
  have "(10 :: nat) = min (unat (10 :: uint32)) (length (stream sent_buffer) - nbytes [i])"
    using sent_buffer_value l by (simp add: payload_def)
  from copy_partial_fails_at_wrap [OF _ l(1,2) this, of 7] sent_reachable l
  show "\<exists>it b'. CopyFromSequence 7 10 1008 sent_buffer = Some (Some it, b') \<and> m_startSeq it = 1008 \<and> sz it \<le> 8"
    by fastforce
  let ?b = "the (run_sent 4294967284)"
  have "run_sent 4294967284 \<noteq> None" by code_simp
  then have r: "run_sent 4294967284 = Some ?b" by simp
  have "map (\<lambda>i. (m_startSeq i, length (m_packet i), m_sacked i)) (m_sentList ?b) =
      [(4294967284, 8, False), (4294967292, 8, False)]" by code_simp
  then obtain i j where w: "m_sentList ?b = [i] @ j # []" "\<not> m_sacked j" "m_startSeq j = 4294967292" "sz i = 8" "sz j = 8"
    by (auto simp: map_eq_Cons_conv)
  have "(10 :: nat) = min (unat (10 :: uint32)) (length (stream ?b) - nbytes [i])"
    using run_sent_reachable [OF r] w by (simp add: payload_def)
  from copy_partial_fails_at_wrap [OF _ w(1,2) this, of 7] run_sent_reachable [OF r] w
  show "CopyFromSequence 7 10 4294967292 ?b = None" by simp
qed

text \<open>A retransmission timeout, a probe of the closed window at \<open>SND.UNA\<close>, and the reset after it.\<close>

definition run_probe :: "seq32 \<Rightarrow> tx_buffer option" where
  "run_probe s =
     do {
       b \<leftarrow> run_sent s;
       b1 \<leftarrow> SetSentListLost True b;
       (_, b2) \<leftarrow> CopyFromSequence 8 1 s b1;
       Some (ResetLastSegmentSent b2)
     }"

text \<open>
  \<open>ResetLastSegmentSent\<close> takes the last segment from the sent list but leaves its bytes in
  \<open>m_lostOut\<close>: after a timeout and a window probe the counters exceed the sent data, so that the
  consistency check and the assertion of \<open>BytesInFlight\<close> fail.
\<close>

theorem reset_last_segment_breaks_counters:
  "map_option (\<lambda>b. (m_sentSize b, m_lostOut b, ConsistencyCheck b, BytesInFlight b)) (run_probe 1000) =
     Some (8, 16, False, None)"
  by code_simp

text \<open>
  \<open>AddRenoSack\<close> does not look at the loss flag: a duplicate acknowledgement while the sent list
  is marked lost makes a segment both lost and sacked, it is counted twice, and the assertion of
  \<open>BytesInFlight\<close> fails.
\<close>

theorem reno_sack_on_lost_segment:
  "(do { b \<leftarrow> run_sent 1000; b1 \<leftarrow> SetSentListLost True b; b2 \<leftarrow> AddRenoSack b1;
         Some (m_sackedOut b2, m_lostOut b2, m_sentSize b2, BytesInFlight b2) }) = Some (8, 16, 16, None)"
  by code_simp

end
