(* ===== verification/SockRuns.thy ===== *)
theory SockRuns
  imports SockStates SockInst TxRuns
begin

text \<open>
  Runs of a socket: the states it goes through, and concrete connections.
\<close>

section \<open>Steps go forward\<close>

definition fwd :: "TcpStates \<Rightarrow> TcpStates \<Rightarrow> bool" where
  "fwd = tcp_edge\<^sup>*\<^sup>*"

lemma fwd_trans: "fwd a b \<Longrightarrow> fwd b c \<Longrightarrow> fwd a c"
  by (simp add: fwd_def)

text \<open>The states that can be reached from \<open>st0\<close> satisfy the contract.\<close>

interpretation fw: sock_contract "\<lambda>st b w l. fwd st0 st" "\<lambda>_. True" for st0
  by unfold_locales (auto simp: fwd_def)

declare fw.edges [simp del] fw.internal_flags [simp del] fw.control_log [simp del]

text \<open>The application may call the socket from a callback, but not \<open>Connect\<close> or \<open>Listen\<close>.\<close>

definition app_forward :: "('c, 'r) env \<Rightarrow> bool" where
  "app_forward e \<longleftrightarrow> (\<forall>ev s s'. Notify e ev s = Some s' \<longrightarrow> fwd (m_state s) (m_state s'))"

lemma acks_in_any [simp]: "acks_in (\<lambda>_. True) ev"
  by (cases ev) simp_all

lemma app_forward_keeps: "app_forward e \<Longrightarrow> app_keeps (\<lambda>st b w l. fwd st0 st) e"
  unfolding app_forward_def app_keeps_def by (blast intro: fwd_trans)

fun state_rank :: "TcpStates \<Rightarrow> nat" where
  "state_rank LISTEN = 0"
| "state_rank SYN_SENT = 0"
| "state_rank SYN_RCVD = 1"
| "state_rank ESTABLISHED = 2"
| "state_rank FIN_WAIT_1 = 3"
| "state_rank FIN_WAIT_2 = 4"
| "state_rank CLOSING = 4"
| "state_rank CLOSE_WAIT = 5"
| "state_rank LAST_ACK = 6"
| "state_rank TIME_WAIT = 7"
| "state_rank CLOSED = 8"

lemma edge_rank: "tcp_edge a b \<Longrightarrow> a = b \<or> state_rank a < state_rank b"
proof (induction rule: tcp_edge.induct)
  case (15 st)
  then show ?case by (cases st) simp_all
qed simp_all

lemma fwd_rank: "fwd a b \<Longrightarrow> a = b \<or> state_rank a < state_rank b"
  unfolding fwd_def by (induction rule: rtranclp_induct) (auto dest: edge_rank)

lemma fwd_antisym: "fwd a b \<Longrightarrow> fwd b a \<Longrightarrow> a = b"
  using fwd_rank [of a b] fwd_rank [of b a] by auto

definition forward_run :: "(('c, 'r) env \<times> sock_event) list \<Rightarrow> bool" where
  "forward_run xs \<longleftrightarrow> (\<forall>x \<in> set xs. app_forward (fst x) \<and> forward_event (snd x))"

lemma run_forward: "forward_run xs \<Longrightarrow> yields (sock_run xs s) (\<lambda>s'. fwd (m_state s) (m_state s'))"
  by (rule fw.run_keeps) (auto simp: forward_run_def app_forward_keeps, simp add: fwd_def)

lemma quiet_forward [simp]: "app_forward (quiet_env cc rec now)"
  by (simp add: app_forward_def quiet_env_def fwd_def)

section \<open>A connection\<close>

text \<open>What evaluates: a call of the option monad as a case split, and the gains of the default estimator.\<close>

lemma bind_case [code_unfold]: "Option.bind m f = (case m of None \<Rightarrow> None | Some x \<Rightarrow> f x)"
  by (cases m) simp_all

lemma gains_code [code]:
  "CheckForReciprocalPowerOfTwo v =
     (if v = Fin (1 / 8) then 3 else if v = Fin (1 / 4) then 2
      else if d_less v TOLERANCE then 0
      else if is_reciprocal v 8 then 3
      else if is_reciprocal v 4 then 2
      else if is_reciprocal v 32 then 5
      else if is_reciprocal v 16 then 4
      else if is_reciprocal v 2 then 1
      else 0)"
  by (simp add: default_gains flip: CheckForReciprocalPowerOfTwo_def)

definition nr0 :: tcp_newreno where
  "nr0 = \<lparr>m_renoAlpha = Fin 1, m_renoBeta = 2\<rparr>"

definition nr_env :: "int \<Rightarrow> (tcp_newreno, unit) env" where
  "nr_env ms = quiet_env (newreno_ops nr0) classic_ops (ms * 10 ^ 6)"

definition ep_a :: end_point where
  "ep_a = \<lparr>local_address = Ipv4Address 1, local_port = 1000, peer_address = Ipv4Address 2, peer_port = 80\<rparr>"

definition plain_header :: "uint8 \<Rightarrow> seq32 \<Rightarrow> seq32 \<Rightarrow> tcp_header" where
  "plain_header flags sq ack = SetWindowSize 60000 (SetAckNumber ack (SetSequenceNumber sq (SetFlags flags new_tcp_header)))"

definition arrive :: "int \<Rightarrow> uint8 \<Rightarrow> seq32 \<Rightarrow> seq32 \<Rightarrow> uint8 list \<Rightarrow> (tcp_newreno, unit) env \<times> sock_event" where
  "arrive ms flags sq ack p = (nr_env ms, Arrival ECN_NotECT 20 p (plain_header flags sq ack) ep_a)"

definition opened :: "(tcp_newreno, unit) sock option" where
  "opened = sock_run [(nr_env 0, AppConnect ep_a), arrive 10 (F_SYN OR F_ACK) 0 1 [], (nr_env 10, DeferredConnectionSucceeded)]
     (new_sock nr0 ())"

definition data_run :: "((tcp_newreno, unit) env \<times> sock_event) list" where
  "data_run = [(nr_env 20, AppSend (replicate 10 7)), (nr_env 20, SendPendingTimer), arrive 30 F_ACK 1 11 [1, 2, 3],
     (nr_env 35, AppRecv 100)]"

definition close_run :: "((tcp_newreno, unit) env \<times> sock_event) list" where
  "close_run = [(nr_env 40, AppClose), arrive 50 F_ACK 4 12 [], arrive 60 (F_FIN OR F_ACK) 4 12 [], (nr_env 240060, TimeWaitTimer)]"

lemma data_run_states: "map_option m_state opened = Some ESTABLISHED"
    "map_option m_state (opened \<bind> sock_run data_run) = Some ESTABLISHED"
  by code_simp+

lemma close_run_states:
    "map (\<lambda>n. map_option m_state (opened \<bind> sock_run (data_run @ take n close_run))) [1, 2, 3, 4] =
       [Some FIN_WAIT_1, Some FIN_WAIT_2, Some TIME_WAIT, Some CLOSED]"
  by code_simp

lemma runs_forward: "forward_run data_run" "forward_run close_run"
  by (simp_all add: forward_run_def data_run_def close_run_def arrive_def nr_env_def)

section \<open>The states of a connection\<close>

text \<open>
  C2. Once \<open>Connect\<close>, \<open>Listen\<close> or a fork has put a socket into a state, every sequence of arriving
  segments, timers and calls of the application (but \<open>Connect\<close> and \<open>Listen\<close>) takes it along the
  transitions \<open>tcp_edge\<close>, and it never comes back to a state it has left; a closed socket stays closed.
  The application may call the socket from its callbacks if these calls are of the same kind. A packet
  has fewer than \<open>2 ^ 32\<close> bytes.
\<close>

theorem socket_moves_forward:
  assumes "forward_run xs" "forward_run ys" "sock_run xs s = Some s1" "sock_run ys s1 = Some s2"
  shows "tcp_edge\<^sup>*\<^sup>* (m_state s) (m_state s1) \<and> tcp_edge\<^sup>*\<^sup>* (m_state s1) (m_state s2) \<and>
    (m_state s2 = m_state s \<longrightarrow> m_state s1 = m_state s) \<and> (m_state s = CLOSED \<longrightarrow> m_state s1 = CLOSED)"
proof -
  have f: "fwd (m_state s) (m_state s1)" "fwd (m_state s1) (m_state s2)"
    using yieldsD [OF run_forward [OF assms(1)] assms(3)] yieldsD [OF run_forward [OF assms(2)] assms(4)] by simp_all
  moreover have "m_state s = CLOSED \<Longrightarrow> m_state s1 = CLOSED" using fwd_rank [OF f(1)] by (cases "m_state s1") simp_all
  ultimately show ?thesis using fwd_antisym [of "m_state s" "m_state s1"] by (auto simp: fwd_def)
qed

theorem socket_moves_forward_witness:
  "\<exists>s s1 s2. opened = Some s \<and> sock_run data_run s = Some s1 \<and> sock_run close_run s1 = Some s2 \<and>
     m_state s = ESTABLISHED \<and> m_state s2 = CLOSED \<and> tcp_edge\<^sup>*\<^sup>* (m_state s) (m_state s1) \<and> tcp_edge\<^sup>*\<^sup>* (m_state s1) (m_state s2)"
proof -
  obtain s where o: "opened = Some s" "m_state s = ESTABLISHED" using data_run_states(1) by auto
  moreover obtain s1 where "sock_run data_run s = Some s1" using data_run_states(2) by (auto simp: o(1))
  note s = o this
  moreover obtain s2 where "sock_run close_run s1 = Some s2" "m_state s2 = CLOSED"
    using close_run_states by (auto simp: sock_run_append close_run_def s(1) s(3))
  ultimately show ?thesis using socket_moves_forward [OF runs_forward s(3)] by blast
qed

end
