(* ===== verification/SockFaults.thy ===== *)
theory SockFaults
  imports SockRuns
begin

text \<open>
  Where the socket departs from what it means to do, on runs of a concrete connection and in general.
\<close>

section \<open>Runs\<close>

text \<open>The state after a run from the opened connection, and what the last segment acknowledged.\<close>

definition after :: "((tcp_newreno, unit) env \<times> sock_event) list \<Rightarrow> (tcp_newreno, unit) sock option" where
  "after xs = opened \<bind> sock_run xs"

definition last_acked :: "(tcp_newreno, unit) sock \<Rightarrow> seq32" where
  "last_acked s = m_ackNumber (seg_header (last (sent_log s)))"

definition closing :: "((tcp_newreno, unit) env \<times> sock_event) list" where
  "closing = [(nr_env 20, AppClose)]"

lemma fwd_close_wait: "fwd CLOSE_WAIT st \<Longrightarrow> st \<in> {CLOSE_WAIT, LAST_ACK, CLOSED}"
  unfolding fwd_def by (induction rule: rtranclp_induct) (auto elim: tcp_edge.cases)

lemma DoPeerClose_forward:
  assumes "app_forward e"
  shows "yields (DoPeerClose e s) (\<lambda>s'. fwd CLOSE_WAIT (m_state s'))"
proof -
  have app: "app_keeps (\<lambda>st b w l. fwd CLOSE_WAIT st) e" by (rule app_forward_keeps [OF assms])
  have start: "fwd CLOSE_WAIT (m_state (s\<lparr>m_state := CLOSE_WAIT\<rparr>))" by (simp add: fwd_def)
  have rest: "yields (do {
       s \<leftarrow> (if m_shutdownSend s then sock_Close e s else SendEmptyPacket e F_ACK s);
       if m_state s = LAST_ACK then schedule_last_ack e (s\<lparr>m_dataRetrCount := m_dataRetries s\<rparr>) else Some s
     }) (\<lambda>s'. fwd CLOSE_WAIT (m_state s'))" if "fwd CLOSE_WAIT (m_state s)" for s :: "('a, 'b) sock"
    by (rule yields_basic schedule_last_ack_silent fw.Close_keeps [OF app]
          fw.SendEmptyPacket_any [OF app] that | assumption | simp)+
  show ?thesis
    unfolding DoPeerClose_def
    by (rule yields_bind, rule yields_assert, rule yields_bind, rule fw.notify_close_keeps [OF app start], rule rest)
qed

text \<open>
  C37. The application has closed (the socket is in \<open>FIN_WAIT_1\<close> or \<open>FIN_WAIT_2\<close>), the FIN of the peer has been
  received ahead of data, and now a segment without a FIN flag arrives whose data completes the stream up to
  that FIN. When \<open>ReceivedData\<close> returns, the socket has taken the way of a socket whose application is still
  open: it is in \<open>CLOSE_WAIT\<close> or what follows it, \<open>LAST_ACK\<close> or \<open>CLOSED\<close>, and no sequence of segments, timers
  and calls takes it to \<open>CLOSING\<close> or \<open>TIME_WAIT\<close> from there. The callbacks of the application may call the
  socket (but not \<open>Connect\<close> or \<open>Listen\<close>), and the one for received data does not take back the FIN. In the
  runs of the witness the same data before the FIN leads to \<open>TIME_WAIT\<close>.
\<close>

theorem late_data_ends_in_close_wait:
  assumes "m_state s \<in> {FIN_WAIT_1, FIN_WAIT_2}" "\<not> has_flag (m_flags h) F_FIN"
    and "rx_Add (Now e) (file_open e) p (m_sequenceNumber h) (m_rxBuffer s) = Some (True, b)"
    and "seq_lt (NextRxSequence (m_rxBuffer s)) (NextRxSequence b)" "Finished b"
    and "app_forward e" "\<forall>s s'. Notify e DataRecv s = Some s' \<and> Finished (m_rxBuffer s) \<longrightarrow> Finished (m_rxBuffer s')"
    and "ReceivedData e p h s = Some s'"
  shows "m_state s' \<in> {CLOSE_WAIT, LAST_ACK, CLOSED} \<and>
    (\<forall>xs s''. forward_run xs \<and> sock_run xs s' = Some s'' \<longrightarrow> m_state s'' \<in> {CLOSE_WAIT, LAST_ACK, CLOSED})"
proof -
  let ?s = "s\<lparr>m_rxBuffer := b\<rparr>"
  obtain s1 where n: "(if \<not> m_shutdownRecv ?s then Notify e DataRecv ?s else Some ?s) = Some s1"
      and d: "(if Finished (m_rxBuffer s1) \<and> \<not> has_flag (m_flags h) F_FIN then DoPeerClose e s1
        else acknowledge_data e p (NextRxSequence (m_rxBuffer s)) s1) = Some s'"
    using assms(3,4,8) by (auto simp: ReceivedData_def Let_def bind_eq_Some_conv)
  have "Finished (m_rxBuffer ?s)" using assms(5) by simp
  with n assms(7) [rule_format, of ?s s1] have "Finished (m_rxBuffer s1)" by (auto split: if_splits)
  with d assms(2) have "DoPeerClose e s1 = Some s'" by simp
  from yieldsD [OF DoPeerClose_forward [OF assms(6)] this] have f: "fwd CLOSE_WAIT (m_state s')" .
  have "m_state s'' \<in> {CLOSE_WAIT, LAST_ACK, CLOSED}" if "forward_run xs" "sock_run xs s' = Some s''" for xs s''
    using fwd_close_wait [OF fwd_trans [OF f yieldsD [OF run_forward [OF that(1)] that(2)]]] .
  with fwd_close_wait [OF f] show ?thesis by blast
qed

theorem late_data_ends_in_close_wait_witness:
  "\<exists>s s'. after (closing @ [arrive 30 (F_FIN OR F_ACK) 4 2 []]) = Some s \<and> m_state s = FIN_WAIT_1 \<and>
     ReceivedData (nr_env 40) [1, 2, 3] (plain_header F_ACK 1 2) s = Some s' \<and> m_state s' \<in> {CLOSE_WAIT, LAST_ACK, CLOSED} \<and>
     map_option m_state (after (closing @ [arrive 30 F_ACK 1 2 [1, 2, 3], arrive 40 (F_FIN OR F_ACK) 4 2 []])) = Some TIME_WAIT"
proof -
  let ?h = "plain_header F_ACK 1 2"
  have "map_option (\<lambda>s. (m_state s, NextRxSequence (m_rxBuffer s),
      map_option (\<lambda>(r, b). (r, NextRxSequence b, Finished b)) (rx_Add (Now (nr_env 40)) (file_open (nr_env 40)) [1, 2, 3] 1 (m_rxBuffer s)),
      ReceivedData (nr_env 40) [1, 2, 3] ?h s = None)) (after (closing @ [arrive 30 (F_FIN OR F_ACK) 4 2 []])) =
    Some (FIN_WAIT_1, 1, Some (True, 5, True), False)" by code_simp
  then obtain s b s' where s: "after (closing @ [arrive 30 (F_FIN OR F_ACK) 4 2 []]) = Some s" "m_state s = FIN_WAIT_1"
      "NextRxSequence (m_rxBuffer s) = 1" "NextRxSequence b = 5" "Finished b"
      "rx_Add (Now (nr_env 40)) (file_open (nr_env 40)) [1, 2, 3] 1 (m_rxBuffer s) = Some (True, b)"
      "ReceivedData (nr_env 40) [1, 2, 3] ?h s = Some s'" by auto
  have h: "\<not> has_flag (m_flags ?h) F_FIN" "m_sequenceNumber ?h = 1" "seq_lt 1 5" by code_simp+
  have q: "app_forward (nr_env 40)"
      "\<forall>s s'. Notify (nr_env 40) DataRecv s = Some s' \<and> Finished (m_rxBuffer s) \<longrightarrow> Finished (m_rxBuffer s')"
    unfolding nr_env_def by (rule quiet_forward, simp add: quiet_env_def)
  have "m_state s' \<in> {CLOSE_WAIT, LAST_ACK, CLOSED}"
    using late_data_ends_in_close_wait [of s ?h "nr_env 40" "[1, 2, 3]" b s'] s h q by simp
  moreover have "map_option m_state (after (closing @ [arrive 30 F_ACK 1 2 [1, 2, 3], arrive 40 (F_FIN OR F_ACK) 4 2 []])) = Some TIME_WAIT"
    by code_simp
  ultimately show ?thesis using s(1,2,7) by blast
qed

text \<open>
  The FIN of the peer comes with its last three bytes, in one segment. The socket goes to \<open>TIME_WAIT\<close>,
  where it answers nothing, but acknowledges the three bytes only; in two segments the FIN is acknowledged.
\<close>

theorem fin_with_data_not_acknowledged:
  "map_option (\<lambda>s. (m_state s, last_acked s)) (after (closing @ [arrive 30 F_ACK 1 2 [1, 2, 3], arrive 40 (F_FIN OR F_ACK) 4 2 []])) =
     Some (TIME_WAIT, 5) \<and>
   map_option (\<lambda>s. (m_state s, last_acked s)) (after (closing @ [arrive 30 (F_FIN OR F_ACK) 1 2 [1, 2, 3]])) =
     Some (TIME_WAIT, 4) \<and>
   map_option (\<lambda>s. (m_state s, last_acked s))
     (after (closing @ [arrive 30 (F_FIN OR F_ACK) 1 2 [1, 2, 3], arrive 1030 (F_FIN OR F_ACK) 1 2 [1, 2, 3]])) =
     Some (TIME_WAIT, 4)"
  by code_simp

text \<open>
  The SYN announces a shift of two and its answer has no window scale option. Scaling is off, but the
  socket goes on shifting: with 131072 bytes free it advertises 32768, which the peer takes as bytes.
\<close>

theorem shift_without_scaling:
  "map_option (\<lambda>s. (m_winScalingEnabled s, unat (m_rcvWindShift s),
       seq_diff (MaxRxSequence (m_rxBuffer s)) (NextRxSequence (m_rxBuffer s)), m_windowSize (seg_header (last (sent_log s)))))
     opened = Some (False, 2, 131072, 32768)"
  by code_simp

section \<open>The persist timer\<close>

lemma persist_needs_data:
  assumes "SizeFromSequence (m_nextTxSequence (m_tcb s)) (m_txBuffer s) = 0"
  shows "PersistTimeout e s = None"
proof -
  have "CopyFromSequence now 1 (m_nextTxSequence (m_tcb s)) (m_txBuffer s) \<in> {None, Some (None, m_txBuffer s)}" for now
    using assms by (subst CopyFromSequence.simps) (auto simp: ns_assert_def)
  from this [of "Now e"] show ?thesis by (auto simp: PersistTimeout_def Let_def split: bind_splits)
qed

definition zero_window :: "((tcp_newreno, unit) env \<times> sock_event) list" where
  "zero_window = [(nr_env 20, Arrival ECN_NotECT 20 [] (SetWindowSize 0 (plain_header F_ACK 1 1)) ep_a)]"

text \<open>
  An acknowledgement with a zero window sets the persist timer also when the application has written
  nothing. When the timer fires with no byte to send, \<open>CopyFromSequence\<close> returns the null pointer, which
  is dereferenced: the step has no defined result.
\<close>

theorem persist_timer_without_data:
  assumes "SizeFromSequence (m_nextTxSequence (m_tcb s)) (m_txBuffer s) = 0"
  shows "sock_step e PersistTimer s = None"
  using persist_needs_data [OF assms] by (simp add: when_set_def split: option.splits)

theorem persist_timer_without_data_witness:
  "\<exists>s. after zero_window = Some s \<and> m_persistEvent s = Some (6020 * 10 ^ 6) \<and> sock_step (nr_env 6020) PersistTimer s = None"
proof -
  have "map_option (\<lambda>s. (m_persistEvent s, SizeFromSequence (m_nextTxSequence (m_tcb s)) (m_txBuffer s))) (after zero_window) =
    Some (Some (6020 * 10 ^ 6), 0)" by code_simp
  then show ?thesis using persist_timer_without_data by blast
qed

section \<open>Sending after a shutdown\<close>

text \<open>
  After \<open>ShutdownSend\<close> a call of \<open>Send\<close> reports an error, but its bytes stay in the send buffer, behind
  the bytes that were there. In the run of the witness the socket has unsent data when the direction is
  shut down, and then sends the refused byte as well.
\<close>

theorem send_after_shutdown_is_kept:
  assumes "m_shutdownSend s" "m_state s = ESTABLISHED" "fst (Add p (m_txBuffer s))"
  shows "sock_Send e p s = Some (None, s\<lparr>m_txBuffer := snd (Add p (m_txBuffer s)), written_log := written_log s @ p,
    m_errno := ERROR_SHUTDOWN\<rparr>)"
  using assms by (cases "Add p (m_txBuffer s)") (simp add: sock_Send_def)

theorem send_after_shutdown_is_kept_witness:
  "\<exists>s s' s''. after [(nr_env 20, AppSend [1, 2]), (nr_env 21, AppShutdownSend)] = Some s \<and>
     sock_Send (nr_env 22) [9] s = Some (None, s') \<and> sock_step (nr_env 23) SendPendingTimer s' = Some s'' \<and>
     seg_data (last (sent_log s'')) = [1, 2, 9]"
proof -
  have "map_option (\<lambda>s. (m_shutdownSend s, m_state s, fst (Add [9] (m_txBuffer s)),
       map_option (\<lambda>s''. seg_data (last (sent_log s''))) (sock_step (nr_env 23) SendPendingTimer
         (s\<lparr>m_txBuffer := snd (Add [9] (m_txBuffer s)), written_log := written_log s @ [9], m_errno := ERROR_SHUTDOWN\<rparr>))))
     (after [(nr_env 20, AppSend [1, 2]), (nr_env 21, AppShutdownSend)]) = Some (True, ESTABLISHED, True, Some [1, 2, 9])"
    by code_simp
  then obtain s where s: "after [(nr_env 20, AppSend [1, 2]), (nr_env 21, AppShutdownSend)] = Some s"
      "m_shutdownSend s" "m_state s = ESTABLISHED" "fst (Add [9] (m_txBuffer s))"
      "map_option (\<lambda>s''. seg_data (last (sent_log s''))) (sock_step (nr_env 23) SendPendingTimer
         (s\<lparr>m_txBuffer := snd (Add [9] (m_txBuffer s)), written_log := written_log s @ [9], m_errno := ERROR_SHUTDOWN\<rparr>)) = Some [1, 2, 9]"
    by auto
  then show ?thesis using send_after_shutdown_is_kept [OF s(2-4)] by auto
qed

end
