(* ===== verification/SockWindow.thy ===== *)
theory SockWindow
  imports SockRuns Checksum
begin

text \<open>
  The window that a socket advertises and what its peer makes of it: scaling loses less than one unit
  and never announces more than there is.
\<close>

section \<open>The scale factor\<close>

declare wscale_loop.simps [simp del]

lemma drop_bit_nat: "unat (drop_bit n (x :: uint32)) = unat x div 2 ^ n"
  by (simp only: unat_drop_bit_eq) (simp add: drop_bit_eq_div)

text \<open>The loop finds the least shift that brings the space below the maximum.\<close>

lemma wscale_loop_result:
  assumes "unat x div 2 ^ n \<le> unat m"
  shows "\<exists>k \<le> n. wscale_loop m x scale = scale + of_nat k \<and> unat x div 2 ^ k \<le> unat m"
  using assms
proof (induction n arbitrary: x scale)
  case 0
  then show ?case by (subst wscale_loop.simps) (simp add: word_less_nat_alt)
next
  case (Suc n)
  show ?case
  proof (cases "m < x")
    case True
    have "unat (drop_bit 1 x) div 2 ^ n \<le> unat m" using Suc.prems by (simp add: drop_bit_nat div_mult2_eq)
    from Suc.IH [OF this, of "scale + 1"] obtain k where
      k: "k \<le> n" "wscale_loop m (drop_bit 1 x) (scale + 1) = scale + 1 + of_nat k" "unat (drop_bit 1 x) div 2 ^ k \<le> unat m"
      by blast
    moreover have "wscale_loop m x scale = wscale_loop m (drop_bit 1 x) (scale + 1)"
      using True by (subst wscale_loop.simps) simp
    ultimately show ?thesis
      by (intro exI [of _ "Suc k"]) (simp add: drop_bit_nat div_mult2_eq [symmetric] ac_simps flip: mult_2)
  next
    case False
    then show ?thesis by (subst wscale_loop.simps) (simp add: word_less_nat_alt exI [of _ 0])
  qed
qed

lemma CalculateWScale_result:
  assumes "unat (rx_maxBuffer (m_rxBuffer s)) div 2 ^ 14 \<le> unat (m_maxWinSize s)"
  shows "unat (CalculateWScale s) \<le> 14 \<and>
    unat (rx_maxBuffer (m_rxBuffer s)) div 2 ^ unat (CalculateWScale s) \<le> unat (m_maxWinSize s)"
proof -
  have m: "unat (ucast (m_maxWinSize s) :: uint32) = unat (m_maxWinSize s)" by (simp add: unat_upcast)
  obtain k where k: "k \<le> 14" "wscale_loop (ucast (m_maxWinSize s)) (rx_maxBuffer (m_rxBuffer s)) 0 = of_nat k"
      "unat (rx_maxBuffer (m_rxBuffer s)) div 2 ^ k \<le> unat (m_maxWinSize s)"
    using wscale_loop_result [of "rx_maxBuffer (m_rxBuffer s)" 14 "ucast (m_maxWinSize s)" 0] assms m by auto
  have u: "unat (of_nat k :: uint8) = k" using k(1) by (simp add: unat_of_nat)
  moreover have "(of_nat k :: uint8) \<le> 14" using k(1) u by (simp add: word_le_nat_alt)
  ultimately show ?thesis using k by (simp add: CalculateWScale_def rx_MaxBufferSize_def min_def)
qed

section \<open>The window\<close>

lemma seq_diff_bound:
  assumes "unat w < 2147483648" "d < 2147483648"
  shows "seq_diff (f + w) (f + of_nat d) \<le> int (unat w)"
  using seq_diff_window [of "unat w" d f] assms by simp

lemma free_space_le:
  assumes "\<not> m_gotFin b" "0 < rx_maxBuffer b" "unat (rx_maxBuffer b) < 2147483648"
    and "0 \<le> seq_diff (MaxRxSequence b) (NextRxSequence b)"
  shows "seq_diff (MaxRxSequence b) (NextRxSequence b) \<le> int (unat (rx_maxBuffer b))"
proof (cases "MaxRxSequence b = m_nextRxSeq b + rx_maxBuffer b")
  case True
  then show ?thesis using seq_diff_bound [of "rx_maxBuffer b" 0 "m_nextRxSeq b"] assms by (simp add: NextRxSequence_def)
next
  case False
  then obtain f p es where d: "m_data b = (f, p) # es" "seq_gt (m_nextRxSeq b) f" "MaxRxSequence b = f + rx_maxBuffer b"
    using assms(1) by (auto simp: MaxRxSequence_def split: list.splits if_splits)
  have u: "f + of_nat (unat (m_nextRxSeq b - f)) = m_nextRxSeq b" by simp
  have "unat (m_nextRxSeq b - f) \<noteq> 2147483648"
  proof
    assume h: "unat (m_nextRxSeq b - f) = 2147483648"
    have "uint (m_nextRxSeq b - f) = 2147483648" using h by (metis of_nat_numeral uint_nat)
    then have n: "m_nextRxSeq b - f = 2147483648" by (simp add: uint32_half)
    have a: "f + rx_maxBuffer b - m_nextRxSeq b = rx_maxBuffer b - (m_nextRxSeq b - f)" by simp
    have w: "0 < uint (rx_maxBuffer b)" "uint (rx_maxBuffer b) < 2147483648"
      using assms(2,3) by (simp_all add: word_less_def) (metis of_nat_less_iff of_nat_numeral uint_nat)
    have v: "uint (rx_maxBuffer b - 2147483648) = uint (rx_maxBuffer b) + 2147483648"
      using w by (simp add: uint32_minus)
    have ne: "rx_maxBuffer b - 2147483648 \<noteq> 2147483648"
      unfolding uint32_half [symmetric] v using w(1) by linarith
    have "seq_diff (f + rx_maxBuffer b) (m_nextRxSeq b) = sint (rx_maxBuffer b - 2147483648)"
      using seq_diff_sint [of "f + rx_maxBuffer b" "m_nextRxSeq b", unfolded a n, OF ne] .
    then have "seq_diff (f + rx_maxBuffer b) (m_nextRxSeq b) < 0" using v w by (simp add: sint_uint32)
    with assms(4) d(3) show False by (simp add: NextRxSequence_def)
  qed
  moreover have "int (unat (m_nextRxSeq b - f)) \<le> 2147483648" using d(2) by (auto simp: seq_gt_uint)
  ultimately have "unat (m_nextRxSeq b - f) < 2147483648" by linarith
  from seq_diff_bound [OF assms(3) this, of f] u d(3)
  show ?thesis by (simp add: NextRxSequence_def)
qed


lemma field_window:
  "unat (push_bit k (ucast (ucast (min (drop_bit k adv) (ucast (M :: uint16))) :: uint16) :: uint32)) =
    min (unat (adv :: uint32) div 2 ^ k) (unat M) * 2 ^ k"
proof -
  let ?w = "min (drop_bit k adv) (ucast M)" and ?n = "min (unat adv div 2 ^ k) (unat M)"
  have M: "unat M < 65536" using unsigned_less [of M] by simp
  have w: "unat ?w = ?n" by (simp add: min_def word_le_nat_alt drop_bit_nat unat_upcast)
  have "unat (ucast ?w :: uint16) = ?n"
    using M unfolding w [symmetric] by (simp add: unsigned_ucast_eq take_bit_nat_eq_self_iff w)
  then have u: "unat (ucast (ucast ?w :: uint16) :: uint32) = ?n" by (simp add: unat_upcast)
  have "?n * 2 ^ k \<le> unat adv div 2 ^ k * 2 ^ k" by (intro mult_le_mono1) simp
  also have "\<dots> \<le> unat adv" by (rule div_times_less_eq_dividend)
  also have "\<dots> < 4294967296" by (rule unat_lt32)
  finally have "?n * 2 ^ k < 2 ^ 32" by simp
  then have "unat (of_nat (?n * 2 ^ k) :: uint32) = ?n * 2 ^ k" by (rule unat_of_nat32)
  moreover have "push_bit k (ucast (ucast ?w :: uint16) :: uint32) = of_nat (?n * 2 ^ k)"
    by (simp add: push_bit_eq_mult flip: u)
  ultimately show ?thesis by simp
qed

lemma seq_diff_le: "seq_diff a b \<le> 2147483648"
proof -
  have i: "0 \<le> v \<Longrightarrow> v < 4294967296 \<Longrightarrow> (if v < 2147483648 then v else v - 4294967296) \<le> 2147483648 \<and>
      - (if v < 2147483648 then v else v - 4294967296) \<le> (2147483648 :: int)" for v by simp
  have "sint x \<le> 2147483648 \<and> - sint x \<le> 2147483648" for x :: uint32
    using i [OF uint_ge_0 uint32_less [of x]] unfolding sint_uint32 .
  then show ?thesis unfolding seq_diff_def Let_def by (simp only: split: if_split) blast
qed

lemma div_unit: "0 < k \<Longrightarrow> (n :: nat) div k * k \<le> n \<and> n < n div k * k + k"
  using dividend_less_times_div [of k n] by (simp add: ac_simps)

lemma UpdateWindowSize_cases:
  "m_rWnd (UpdateWindowSize h p) \<in> {m_rWnd p, push_bit (unat (m_sndWindShift p)) (ucast (m_windowSize h))}"
  "seq_gt (m_ackNumber h) (m_highRxAckMark p) \<Longrightarrow>
    m_rWnd (UpdateWindowSize h p) = push_bit (unat (m_sndWindShift p)) (ucast (m_windowSize h))"
  by (auto simp: UpdateWindowSize_def Let_def split: if_splits prod.splits)

section \<open>From the receiver to the sender\<close>

text \<open>
  What the receiver announces: the free space of its buffer, or, once it has a FIN, the last value that it
  announced before, whatever the buffer holds now.
\<close>

definition announced :: "('c, 'r) sock \<Rightarrow> nat" where
  "announced s =
     (if GotFin (m_rxBuffer s) then unat (m_advWnd s)
      else nat (seq_diff (MaxRxSequence (m_rxBuffer s)) (NextRxSequence (m_rxBuffer s))))"

text \<open>
  C36. The peer reads the window field of a segment with the shift factor \<open>k\<close> that was announced: it keeps
  its window or takes the announced value rounded down to a multiple of \<open>2 ^ k\<close> and cut off at the
  maximum of the field shifted by \<open>k\<close>; it takes it when the segment acknowledges something new. So it never
  takes more than was announced. It loses less than one unit exactly when the field is not cut off, and that
  is so as long as no FIN was received and the shift is still the one that \<open>CalculateWScale\<close> computes for
  the buffer, for every buffer up to the maximum window shifted by 14. When the buffer grows after the
  shift was announced (\<open>SetRcvBufSize\<close>) the field can be cut off; after a FIN the value can be out of date.
\<close>

theorem advertised_window_fits:
  assumes "AdvertisedWindowSize True s = Some (w, s')" "m_sndWindShift p = m_rcvWindShift s" "m_windowSize h = w"
  defines "k \<equiv> unat (m_rcvWindShift s)" and "M \<equiv> unat (m_maxWinSize s)" and "limit \<equiv> unat (rx_MaxBufferSize (m_rxBuffer s))"
  shows "\<exists>r. m_rWnd (UpdateWindowSize h p) \<in> {m_rWnd p, r} \<and>
    (seq_gt (m_ackNumber h) (m_highRxAckMark p) \<longrightarrow> m_rWnd (UpdateWindowSize h p) = r) \<and>
    unat r = min (announced s div 2 ^ k) M * 2 ^ k \<and> unat r \<le> announced s \<and>
    (announced s < unat r + 2 ^ k \<longleftrightarrow> announced s div 2 ^ k \<le> M) \<and>
    (\<not> GotFin (m_rxBuffer s) \<and> m_rcvWindShift s = CalculateWScale s \<and> 0 < limit \<and> limit < 2 ^ 31 \<and> limit div 2 ^ 14 \<le> M \<longrightarrow>
      announced s \<le> limit \<and> announced s div 2 ^ k \<le> M)"
proof -
  let ?b = "m_rxBuffer s"
  let ?d = "seq_diff (MaxRxSequence ?b) (NextRxSequence ?b)"
  define a :: uint32 where "a = (if GotFin ?b then m_advWnd s else of_int ?d)"
  have d0: "\<not> GotFin ?b \<Longrightarrow> 0 \<le> ?d" and w: "w = ucast (min (drop_bit k a) (ucast (m_maxWinSize s)))"
    using assms(1) by (auto simp: AdvertisedWindowSize_def Let_def a_def k_def split: if_splits)
  have "unat (of_nat (nat ?d) :: uint32) = nat ?d"
    using seq_diff_le [of "MaxRxSequence ?b" "NextRxSequence ?b"] by (intro unat_of_nat32) simp
  then have a: "unat a = announced s" using d0 by (auto simp: a_def announced_def)
  define r where "r = (push_bit k (ucast w) :: uint32)"
  have u: "unat r = min (announced s div 2 ^ k) M * 2 ^ k"
    unfolding r_def w field_window a M_def ..
  have q: "announced s div 2 ^ k * 2 ^ k \<le> announced s" "announced s < announced s div 2 ^ k * 2 ^ k + 2 ^ k"
    using div_unit [of "2 ^ k" "announced s"] by simp_all
  have "min (announced s div 2 ^ k) M * 2 ^ k \<le> announced s div 2 ^ k * 2 ^ k" by (intro mult_le_mono1) simp
  then have le: "unat r \<le> announced s" unfolding u using q(1) by linarith
  have unit: "announced s < unat r + 2 ^ k \<longleftrightarrow> announced s div 2 ^ k \<le> M"
  proof (cases "announced s div 2 ^ k \<le> M")
    case True
    then show ?thesis using q(2) by (simp add: u)
  next
    case False
    then have "(M + 1) * 2 ^ k \<le> announced s div 2 ^ k * 2 ^ k" by (intro mult_le_mono1) simp
    from le_trans [OF this q(1)] show ?thesis using False by (simp add: u)
  qed
  have fits: "announced s \<le> limit \<and> announced s div 2 ^ k \<le> M"
    if c: "\<not> GotFin ?b" "m_rcvWindShift s = CalculateWScale s" "0 < limit" "limit < 2 ^ 31" "limit div 2 ^ 14 \<le> M"
  proof -
    have "?d \<le> int (unat (rx_maxBuffer ?b))"
      using free_space_le [of ?b] c(1,3,4) d0 by (simp add: GotFin_def limit_def rx_MaxBufferSize_def unat_gt_0 word_gt_0)
    then have "nat ?d \<le> unat (rx_maxBuffer ?b)" by linarith
    then have fr: "announced s \<le> limit" using c(1) by (simp add: announced_def limit_def rx_MaxBufferSize_def)
    have "limit div 2 ^ k \<le> M"
      using CalculateWScale_result [of s] c(2,5) by (simp add: limit_def M_def k_def rx_MaxBufferSize_def)
    with div_le_mono [OF fr, of "2 ^ k"] fr show ?thesis by linarith
  qed
  have "r = push_bit (unat (m_sndWindShift p)) (ucast (m_windowSize h))" by (simp add: r_def assms(2,3) k_def)
  then have taken: "m_rWnd (UpdateWindowSize h p) \<in> {m_rWnd p, r}"
      "seq_gt (m_ackNumber h) (m_highRxAckMark p) \<Longrightarrow> m_rWnd (UpdateWindowSize h p) = r"
    using UpdateWindowSize_cases [of h p] by simp_all
  show ?thesis using taken u le unit fits by (intro exI [of _ r]) blast
qed

text \<open>Two ends that agreed on the factor two.\<close>

definition scaled_end :: "(tcp_newreno, unit) sock" where
  "scaled_end = (new_sock nr0 ())\<lparr>m_state := ESTABLISHED, m_rcvWindShift := 2, m_sndWindShift := 2\<rparr>"

theorem advertised_window_fits_witness:
  "\<exists>w s'. AdvertisedWindowSize True scaled_end = Some (w, s') \<and> announced scaled_end = 131072 \<and>
     unat (m_rWnd (UpdateWindowSize (SetWindowSize w (plain_header F_ACK 1 1)) scaled_end)) = 131072"
proof -
  let ?h = "SetWindowSize 32768 (plain_header F_ACK 1 1)"
  have "map_option (\<lambda>(w, s'). w) (AdvertisedWindowSize True scaled_end) = Some 32768" by code_simp
  then obtain s' where a: "AdvertisedWindowSize True scaled_end = Some (32768, s')" by auto
  have v: "m_sndWindShift scaled_end = m_rcvWindShift scaled_end" "m_windowSize ?h = 32768"
    "seq_gt (m_ackNumber ?h) (m_highRxAckMark scaled_end)" "m_rcvWindShift scaled_end = 2" "m_maxWinSize scaled_end = 65535"
    "\<not> GotFin (m_rxBuffer scaled_end)"
    "seq_diff (MaxRxSequence (m_rxBuffer scaled_end)) (NextRxSequence (m_rxBuffer scaled_end)) = 131072"
    by code_simp+
  then have n: "announced scaled_end = 131072" by (simp add: announced_def)
  from advertised_window_fits [OF a v(1,2)] v(3)
  have "unat (m_rWnd (UpdateWindowSize ?h scaled_end)) = 131072" unfolding n v(4,5) by auto
  with a n show ?thesis by blast
qed

end
