(* ===== verification/SockSpec.thy ===== *)
theory SockSpec
  imports SockRuns
begin

text \<open>
  What a socket promises as a sender, as a machine on its own: the oldest byte that is not acknowledged,
  the bytes from there on, all bytes the application has written, and the segments sent. The socket
  refines it, whatever the congestion control, the recovery algorithm, the peer and the timers do.
\<close>

section \<open>The sender\<close>

record sender =
  conn_state :: TcpStates
  una :: seq32
  pending :: "uint8 list"
  all_written :: "uint8 list"
  all_sent :: "segment list"

text \<open>
  The steps: the connection state moves on; the peer acknowledges \<open>k\<close> bytes of the window, written or
  not, with an acknowledgement number that satisfies \<open>K\<close>; the handshake sets the first sequence number; the application writes; a segment without data is
  sent, or one with the bytes that are at its sequence number.
\<close>

inductive sender_step :: "(seq32 \<Rightarrow> bool) \<Rightarrow> sender \<Rightarrow> sender \<Rightarrow> bool" for K where
  move: "tcp_edge (conn_state a) st \<Longrightarrow> sender_step K a (a\<lparr>conn_state := st\<rparr>)"
| ack: "k = 0 \<or> k \<le> 2147483648 \<and> K (una a + of_nat k) \<Longrightarrow> sender_step K a (a\<lparr>una := una a + of_nat k, pending := drop k (pending a)\<rparr>)"
| start: "conn_state a = SYN_SENT \<or> conn_state a = SYN_RCVD \<Longrightarrow> sender_step K a (a\<lparr>una := n\<rparr>)"
| put: "sender_step K a (a\<lparr>pending := pending a @ p, all_written := all_written a @ p\<rparr>)"
| control: "seg_data sg = [] \<Longrightarrow> sender_step K a (a\<lparr>all_sent := all_sent a @ [sg]\<rparr>)"
| data: "m_sequenceNumber (seg_header sg) = una a + of_nat k \<Longrightarrow> 0 < n \<Longrightarrow> k + n \<le> length (pending a) \<Longrightarrow>
    k + n < 2147483648 \<Longrightarrow> seg_data sg = take n (drop k (pending a)) \<Longrightarrow> sender_step K a (a\<lparr>all_sent := all_sent a @ [sg]\<rparr>)"

definition sender_view :: "TcpStates \<Rightarrow> tx_buffer \<Rightarrow> uint8 list \<Rightarrow> segment list \<Rightarrow> sender" where
  "sender_view st b w l =
     \<lparr>conn_state = st, una = HeadSequence b, pending = stream b, all_written = w, all_sent = l\<rparr>"

definition sender_of :: "('c, 'r) sock \<Rightarrow> sender" where
  "sender_of s = sender_view (m_state s) (m_txBuffer s) (written_log s) (sent_log s)"

definition refines :: "(seq32 \<Rightarrow> bool) \<Rightarrow> sender \<Rightarrow> TcpStates \<Rightarrow> tx_buffer \<Rightarrow> uint8 list \<Rightarrow> segment list \<Rightarrow> bool" where
  "refines K a st b w l \<longleftrightarrow> tx_data b \<and> (sender_step K)\<^sup>*\<^sup>* a (sender_view st b w l)"

lemma refines_step:
  assumes "refines K a st b w l" "tx_data b'" "sender_step K (sender_view st b w l) (sender_view st' b' w' l')"
  shows "refines K a st' b' w' l'"
  using assms rtranclp.rtrancl_into_rtrancl [of "sender_step K" a] unfolding refines_def by metis

interpretation spec: sock_contract "refines K a" K for K a
proof unfold_locales
  fix st b w l st'
  assume "refines K a st b w l" "tcp_edge st st'"
  then show "refines K a st' b w l"
    using sender_step.move [of "sender_view st b w l" st' K]
    by - (rule refines_step [of K a st b w l], simp_all add: refines_def sender_view_def)
next
  fix st b w l b'
  assume r: "refines K a st b w l" and i: "tx_internal K b b'"
  from tx_internal_data [OF i] r obtain k where "acked k b b'" "k = 0 \<or> k \<le> 2147483648 \<and> K (m_firstByteSeq b')"
    by (auto simp: refines_def)
  then show "refines K a st b' w l"
    using sender_step.ack [of k K "sender_view st b w l"]
    by - (rule refines_step [OF r], simp_all add: acked_def sender_view_def HeadSequence_def)
next
  fix st b w l n b'
  assume r: "refines K a st b w l" and "st = SYN_SENT \<or> st = SYN_RCVD" "SetHeadSequence n b = Some b'"
  then have "b' = b\<lparr>m_firstByteSeq := n, m_highestSack := (EndIt, 0)\<rparr>" "m_sentList b = []"
    by (auto simp: SetHeadSequence_def split: if_splits)
  then show "refines K a st b' w l"
    using sender_step.start [of "sender_view st b w l" K n] r \<open>st = SYN_SENT \<or> st = SYN_RCVD\<close>
    by - (rule refines_step [OF r], simp_all add: refines_def tx_data_def sender_view_def HeadSequence_def stream_def)
next
  fix st b w l p b'
  assume r: "refines K a st b w l" and p: "Add p b = (True, b')" "length p < 4294967296"
  from r have "tx_data b" by (simp add: refines_def)
  from Add_data [OF this p(2,1)] show "refines K a st b' (w @ p) l"
    using sender_step.put [of K "sender_view st b w l" p]
    by - (rule refines_step [OF r], simp_all add: sender_view_def HeadSequence_def)
next
  fix st b w l and sg :: segment
  assume r: "refines K a st b w l" and "seg_data sg = []"
  then show "refines K a st b w (l @ [sg])"
    using sender_step.control [of sg K "sender_view st b w l"]
    by - (rule refines_step [OF r], simp_all add: refines_def sender_view_def)
next
  fix st b w l now n it b' and sg :: segment
  assume r: "refines K a st b w l" and d: "seg_data sg = m_packet it"
    and c: "CopyFromSequence now n (m_sequenceNumber (seg_header sg)) b = Some (Some it, b')"
  from r have inv: "tx_data b" by (simp add: refines_def)
  obtain k where k: "m_sequenceNumber (seg_header sg) = m_firstByteSeq b + of_nat k" "0 < length (m_packet it)"
      "k + length (m_packet it) \<le> length (stream b)" "m_packet it = take (length (m_packet it)) (drop k (stream b))"
    using CopyFromSequence_data(2) [OF inv c refl] by blast
  have lt: "k + length (m_packet it) < 2147483648"
    using k(3) tx_data_bound [OF inv] by (simp add: stream_def)
  have s: "same_data b b'" by (rule CopyFromSequence_data(1) [OF inv c])
  have "sender_step K (sender_view st b w l) (sender_view st b w (l @ [sg]))"
    using sender_step.data [of sg "sender_view st b w l" k "length (m_packet it)" K] k d lt
    by (simp add: sender_view_def HeadSequence_def)
  moreover have "sender_view st b' w (l @ [sg]) = sender_view st b w (l @ [sg])"
    using s by (simp add: sender_view_def HeadSequence_def same_data_def)
  ultimately show "refines K a st b' w (l @ [sg])"
    using s by - (rule refines_step [OF r], simp_all add: same_data_def)
qed

declare spec.edges [simp del] spec.internal_flags [simp del] spec.control_log [simp del]

text \<open>
  The application may call the socket from a callback: what it does to the socket is steps of a sender
  that gets no acknowledgements.
\<close>

definition app_sends :: "('c, 'r) env \<Rightarrow> bool" where
  "app_sends e \<longleftrightarrow> (\<forall>ev s s'. Notify e ev s = Some s' \<longrightarrow> tx_data (m_txBuffer s) \<longrightarrow>
     tx_data (m_txBuffer s') \<and> (sender_step (\<lambda>_. False))\<^sup>*\<^sup>* (sender_of s) (sender_of s'))"

lemma sender_step_mono: "sender_step J a b \<Longrightarrow> (\<And>n. J n \<Longrightarrow> K n) \<Longrightarrow> sender_step K a b"
  by (induction rule: sender_step.induct) (blast intro: sender_step.intros)+

lemma sender_steps_mono: "(sender_step (\<lambda>_. False))\<^sup>*\<^sup>* a b \<Longrightarrow> (sender_step K)\<^sup>*\<^sup>* a b"
  by (induction rule: rtranclp_induct) (auto intro: rtranclp.rtrancl_into_rtrancl sender_step_mono)

lemma app_sends_keeps: "app_sends e \<Longrightarrow> app_keeps (refines K a) e"
  unfolding app_sends_def app_keeps_def refines_def sender_of_def
  by (blast intro: rtranclp_trans sender_steps_mono)

definition sender_run :: "(seq32 \<Rightarrow> bool) \<Rightarrow> (('c, 'r) env \<times> sock_event) list \<Rightarrow> bool" where
  "sender_run K xs \<longleftrightarrow> (\<forall>x \<in> set xs. app_sends (fst x) \<and> forward_event (snd x) \<and> acks_in K (snd x))"

lemma quiet_sends [simp]: "app_sends (quiet_env cc rec now)"
  by (simp add: app_sends_def quiet_env_def)

lemma run_refines:
  "sender_run K xs \<Longrightarrow> tx_data (m_txBuffer s) \<Longrightarrow>
   yields (sock_run xs s) (\<lambda>s'. refines K (sender_of s) (m_state s') (m_txBuffer s') (written_log s') (sent_log s'))"
  by (intro spec.run_keeps) (auto simp: sender_run_def app_sends_keeps refines_def sender_of_def)

text \<open>
  C9. Whatever segments arrive, whichever timers run and whatever the application calls (but \<open>Connect\<close>
  and \<open>Listen\<close>), a socket behaves as a sender: its connection state moves along the transitions, its
  send buffer only drops bytes that were acknowledged and only gains bytes that were written, and each
  data segment it sends carries the bytes that are at its sequence number. \<open>K\<close> is any set that holds the
  acknowledgement numbers that arrive. The congestion control, the recovery algorithm and the counters
  of the scoreboard have no influence on this.
\<close>

theorem socket_refines_sender:
  assumes "sender_run K xs" "tx_data (m_txBuffer s)" "sock_run xs s = Some s'"
  shows "tx_data (m_txBuffer s') \<and> (sender_step K)\<^sup>*\<^sup>* (sender_of s) (sender_of s')"
  using yieldsD [OF run_refines [OF assms(1,2)] assms(3)] by (simp add: refines_def sender_of_def)

text \<open>A connection that was opened, before any data.\<close>

lemma opened_idle:
  "map_option (\<lambda>s. (m_state s, HeadSequence (m_txBuffer s), m_sentList (m_txBuffer s), m_appList (m_txBuffer s),
     m_size (m_txBuffer s), m_sentSize (m_txBuffer s), m_maxBuffer (m_txBuffer s), written_log s)) opened =
   Some (ESTABLISHED, 1, [], [], 0, 0, 131072, [])"
  by code_simp

lemma opened_data:
  assumes "opened = Some s"
  shows "tx_data (m_txBuffer s)"
  using opened_idle by (simp add: assms tx_data_def nodes_ok_def)

lemma data_run_sends: "K 11 \<Longrightarrow> sender_run K data_run"
  by (simp add: sender_run_def data_run_def arrive_def nr_env_def plain_header_def SetAckNumber_def SetWindowSize_def)

theorem socket_refines_sender_witness:
  "\<exists>s s'. opened = Some s \<and> sock_run data_run s = Some s' \<and>
     (sender_step (\<lambda>n. n = 11))\<^sup>*\<^sup>* (sender_of s) (sender_of s')"
proof -
  obtain s where o: "opened = Some s" using opened_idle by auto
  moreover obtain s' where r: "sock_run data_run s = Some s'" using data_run_states(2) by (auto simp: o)
  ultimately show ?thesis
    using socket_refines_sender [OF data_run_sends opened_data [OF o] r, of "\<lambda>n. n = 11"] by auto
qed

end
