(* ===== verification/Delivery.thy ===== *)
theory Delivery
  imports SockSpec RxProps
begin

text \<open>
  The two ends of a connection: what the application of the receiver reads is what the application of the
  sender wrote. The sender is any socket that has left the handshake, over any run; the network may drop,
  duplicate, delay and reorder the segments it sent; the receiver is the receive buffer.
\<close>

section \<open>What was sent\<close>

text \<open>
  Positions count the bytes from the oldest byte that was not acknowledged at the start. The bytes \<open>B\<close>
  that the application wrote lie at the positions \<open>P\<close>, increasing, but not always next to each other: the
  peer may acknowledge bytes that were not written yet. The segment with the bytes \<open>p\<close> carries the
  bytes at the positions from \<open>k\<close> on.
\<close>

definition sent_at :: "nat list \<Rightarrow> uint8 list \<Rightarrow> nat \<Rightarrow> uint8 list \<Rightarrow> bool" where
  "sent_at P B k p \<longleftrightarrow> (\<exists>i. take (length p) (drop i P) = [k..<k + length p] \<and> take (length p) (drop i B) = p)"

definition segment_at :: "seq32 \<Rightarrow> nat list \<Rightarrow> uint8 list \<Rightarrow> segment \<Rightarrow> bool" where
  "segment_at f0 P B sg \<longleftrightarrow> seg_data sg = [] \<or>
     (\<exists>k. m_sequenceNumber (seg_header sg) = f0 + of_nat k \<and> k < 4294967296 \<and> sent_at P B k (seg_data sg))"

definition ack_within :: "seq32 \<Rightarrow> seq32 \<Rightarrow> bool" where
  "ack_within f0 n \<longleftrightarrow> n - f0 < 2147483648"

definition laid_out :: "nat \<Rightarrow> uint8 list \<Rightarrow> nat list \<Rightarrow> uint8 list \<Rightarrow> bool" where
  "laid_out u q P B \<longleftrightarrow> (\<exists>pre. P = pre @ [u..<u + length q] \<and> sorted_wrt (<) pre \<and> (\<forall>x \<in> set pre. x < u) \<and>
     length pre \<le> length B \<and> q = drop (length pre) B)"

lemma laid_out_start: "laid_out 0 q [0..<length q] q"
  by (auto simp: laid_out_def intro!: exI [of _ "[]"])

lemma laid_out_length: "laid_out u q P B \<Longrightarrow> length P = length B"
  by (auto simp: laid_out_def)

lemma laid_out_sorted: "laid_out u q P B \<Longrightarrow> sorted_wrt (<) P"
  by (fastforce simp: laid_out_def sorted_wrt_append)

lemma laid_out_ack:
  assumes "laid_out u q P B"
  shows "laid_out (u + k) (drop k q) P B"
proof -
  obtain pre where pre: "P = pre @ [u..<u + length q]" "sorted_wrt (<) pre" "\<forall>x \<in> set pre. x < u"
      "length pre \<le> length B" "q = drop (length pre) B"
    using assms by (auto simp only: laid_out_def)
  define d where "d = min k (length q)"
  have "[u..<u + length q] = [u..<u + d] @ [u + k..<u + k + length (drop k q)]"
  proof (cases "k \<le> length q")
    case True
    then have "d = k" "u + length q = u + k + length (drop k q)" by (simp_all add: d_def)
    then show ?thesis by (simp only: upt_add_eq_append [OF le_add1])
  qed (simp add: d_def)
  then have "P = (pre @ [u..<u + d]) @ [u + k..<u + k + length (drop k q)]" by (simp add: pre(1))
  moreover have "drop k q = drop (length (pre @ [u..<u + d])) B"
    using pre(5) by (cases "k \<le> length q") (auto simp: d_def add.commute min_def)
  moreover have "length (pre @ [u..<u + d]) \<le> length B"
    using pre(4) arg_cong [OF pre(5), of length] by (simp add: d_def)
  moreover have "sorted_wrt (<) (pre @ [u..<u + d])" "\<forall>x \<in> set (pre @ [u..<u + d]). x < u + k"
    using pre(2,3) by (auto simp: sorted_wrt_append d_def)
  ultimately show ?thesis unfolding laid_out_def by blast
qed

lemma laid_out_put:
  assumes "laid_out u q P B"
  shows "\<exists>P'. laid_out u (q @ p) (P @ P') (B @ p)"
proof -
  obtain pre where pre: "P = pre @ [u..<u + length q]" "sorted_wrt (<) pre" "\<forall>x \<in> set pre. x < u"
      "length pre \<le> length B" "q = drop (length pre) B"
    using assms by (auto simp only: laid_out_def)
  have "P @ [u + length q..<u + length q + length p] = pre @ [u..<u + length (q @ p)]"
    using upt_add_eq_append [of u "u + length q" "length p"] by (simp add: pre(1) add.assoc)
  moreover have "q @ p = drop (length pre) (B @ p)" using pre(4,5) by simp
  moreover have "length pre \<le> length (B @ p)" using pre(4) by simp
  ultimately show ?thesis using pre(2,3) unfolding laid_out_def by blast
qed

lemma laid_out_slice:
  assumes "laid_out u q P B" "k + n \<le> length q"
  shows "sent_at P B (u + k) (take n (drop k q))"
proof -
  obtain pre where pre: "P = pre @ [u..<u + length q]" "q = drop (length pre) B"
    using assms(1) by (auto simp only: laid_out_def)
  have "take n (drop (length pre + k) P) = [u + k..<u + k + n]" using assms(2) by (simp add: pre(1) add.assoc)
  moreover have "take n (drop (length pre + k) B) = take n (drop k q)" by (simp add: pre(2) add.commute)
  moreover have "length (take n (drop k q)) = n" using assms(2) by simp
  ultimately show ?thesis unfolding sent_at_def by metis
qed

definition sent_inv :: "sender \<Rightarrow> sender \<Rightarrow> nat list \<Rightarrow> uint8 list \<Rightarrow> nat \<Rightarrow> bool" where
  "sent_inv a0 a P B u \<longleftrightarrow>
     2 \<le> state_rank (conn_state a) \<and> una a = una a0 + of_nat u \<and> u < 2147483648 \<and>
     laid_out u (pending a) P B \<and>
     (\<exists>w. B = pending a0 @ w \<and> all_written a = all_written a0 @ w) \<and>
     (\<exists>l. all_sent a = all_sent a0 @ l \<and> (\<forall>sg \<in> set l. segment_at (una a0) P B sg))"

lemma sent_inv_start: "2 \<le> state_rank (conn_state a) \<Longrightarrow> sent_inv a a [0..<length (pending a)] (pending a) 0"
  by (simp add: sent_inv_def laid_out_start)

lemma sent_at_append: "sent_at P B k p \<Longrightarrow> length P = length B \<Longrightarrow> sent_at (P @ P') (B @ B') k p"
proof (cases p)
  case (Cons x xs)
  assume "sent_at P B k p" and len: "length P = length B"
  then obtain i where i: "take (length p) (drop i P) = [k..<k + length p]" "take (length p) (drop i B) = p"
    by (auto simp: sent_at_def)
  from arg_cong [OF i(2), of length] Cons have "i + length p \<le> length B" by auto
  with len i show ?thesis by (auto simp: sent_at_def intro!: exI [of _ i])
qed (auto simp: sent_at_def)

lemma segment_at_append: "segment_at f0 P B sg \<Longrightarrow> length P = length B \<Longrightarrow> segment_at f0 (P @ P') (B @ B') sg"
  by (auto simp: segment_at_def intro: sent_at_append)

text \<open>An acknowledgement moves the first position, and the positions of the bytes stay.\<close>

lemma sent_inv_ack:
  assumes inv: "sent_inv a0 a P B u" and k: "k = 0 \<or> k \<le> 2147483648 \<and> ack_within (una a0) (una a + of_nat k)"
  shows "sent_inv a0 (a\<lparr>una := una a + of_nat k, pending := drop k (pending a)\<rparr>) P B (u + k)"
proof -
  have u: "una a = una a0 + of_nat u" "u < 2147483648" using inv by (simp_all add: sent_inv_def)
  have "u + k < 2147483648"
  proof (cases "k = 0")
    case False
    with k have "k \<le> 2147483648" "(of_nat (u + k) :: 32 word) < 2147483648"
      by (simp_all add: ack_within_def u(1))
    moreover from this(1) u(2) have "unat (of_nat (u + k) :: 32 word) = u + k" by (intro unat_of_nat32) simp
    ultimately show ?thesis by (simp add: word_less_nat_alt)
  qed (use u in simp)
  with inv laid_out_ack [of u "pending a" P B k] show ?thesis by (simp add: sent_inv_def add.assoc)
qed

lemma sent_inv_put:
  assumes "sent_inv a0 a P B u"
  shows "\<exists>P'. sent_inv a0 (a\<lparr>pending := pending a @ p, all_written := all_written a @ p\<rparr>) (P @ P') (B @ p) u"
proof -
  have lay: "laid_out u (pending a) P B" using assms by (simp add: sent_inv_def)
  obtain P' where "laid_out u (pending a @ p) (P @ P') (B @ p)" using laid_out_put [OF lay] by blast
  with assms segment_at_append [OF _ laid_out_length [OF lay]] show ?thesis
    by (intro exI [of _ P']) (auto simp: sent_inv_def)
qed

lemma sent_inv_send:
  "sent_inv a0 a P B u \<Longrightarrow> segment_at (una a0) P B sg \<Longrightarrow> sent_inv a0 (a\<lparr>all_sent := all_sent a @ [sg]\<rparr>) P B u"
  by (auto simp: sent_inv_def)

lemma sent_inv_data:
  assumes inv: "sent_inv a0 a P B u" and sq: "m_sequenceNumber (seg_header sg) = una a + of_nat k"
    and n: "k + n \<le> length (pending a)" "k + n < 2147483648" "seg_data sg = take n (drop k (pending a))"
  shows "segment_at (una a0) P B sg"
proof -
  have "sent_at P B (u + k) (seg_data sg)"
    unfolding n(3) using inv n(1) by (intro laid_out_slice) (simp_all add: sent_inv_def)
  moreover have "m_sequenceNumber (seg_header sg) = una a0 + of_nat (u + k)" "u + k < 4294967296"
    using inv n(2) by (simp_all add: sq sent_inv_def add.assoc)
  ultimately show ?thesis unfolding segment_at_def by blast
qed

lemma sent_inv_step:
  assumes "sender_step (ack_within (una a0)) a a'" "sent_inv a0 a P B u"
  shows "\<exists>P B u. sent_inv a0 a' P B u"
  using assms
proof induction
  case (move a st)
  from edge_rank [OF move(1)] have "state_rank (conn_state a) \<le> state_rank st" by auto
  with move(2) have "sent_inv a0 (a\<lparr>conn_state := st\<rparr>) P B u" by (simp add: sent_inv_def)
  then show ?case by blast
next
  case (ack k a)
  then show ?case using sent_inv_ack by blast
next
  case (start a n)
  then show ?case by (auto simp: sent_inv_def)
next
  case (put a p)
  then show ?case using sent_inv_put by blast
next
  case (control sg a)
  then have "segment_at (una a0) P B sg" by (simp add: segment_at_def)
  with control sent_inv_send show ?case by blast
next
  case (data sg a k n)
  from sent_inv_data [OF data(6,1,3,4,5)] have "segment_at (una a0) P B sg" .
  with data sent_inv_send show ?case by blast
qed

lemma sent_inv_steps:
  assumes "(sender_step (ack_within (una a)))\<^sup>*\<^sup>* a a'" "2 \<le> state_rank (conn_state a)"
  shows "\<exists>P B u. sent_inv a a' P B u"
  using assms(1)
proof (induction rule: rtranclp_induct)
  case base
  then show ?case using sent_inv_start [OF assms(2)] by blast
next
  case (step b c)
  then show ?case using sent_inv_step by blast
qed

section \<open>What is read\<close>

text \<open>
  The receiver expects the sequence number \<open>f0\<close>. Of the segments \<open>D\<close> any one may arrive, at any time and
  any number of times, if it lies within half a gigabyte of the bytes read so far.
\<close>

inductive rx_fed :: "seq32 \<Rightarrow> segment set \<Rightarrow> uint8 list \<Rightarrow> rx_buffer \<Rightarrow> bool" for f0 D where
  fresh: "rx_fed f0 D [] (new_rx_buffer f0)"
| resize: "rx_fed f0 D out b \<Longrightarrow> unat m \<le> 1073741824 \<Longrightarrow> rx_fed f0 D out (rx_SetMaxBufferSize m b)"
| arrive: "rx_fed f0 D out b \<Longrightarrow> sg \<in> D \<Longrightarrow> seg_data sg \<noteq> [] \<Longrightarrow> q = unat (m_sequenceNumber (seg_header sg) - f0) \<Longrightarrow>
    length out < q + reach \<Longrightarrow> q + length (seg_data sg) \<le> length out + reach \<Longrightarrow>
    rx_Add now ok (seg_data sg) (m_sequenceNumber (seg_header sg)) b = Some (r, b') \<Longrightarrow> rx_fed f0 D out b'"
| read: "rx_fed f0 D out b \<Longrightarrow> Extract m b = Some (r, b') \<Longrightarrow> rx_fed f0 D (out @ bytes_read r) b'"

text \<open>The stream: the bytes at their positions, and any byte where there is none.\<close>

definition byte_at :: "uint8 \<Rightarrow> nat list \<Rightarrow> uint8 list \<Rightarrow> nat \<Rightarrow> uint8" where
  "byte_at c P B x = (case map_of (zip P B) x of None \<Rightarrow> c | Some v \<Rightarrow> v)"

lemma byte_at_slice:
  assumes "sent_at P B k p" "length P = length B" "sorted_wrt (<) P"
  shows "p = map (byte_at c P B) [k..<k + length p]"
proof -
  have P: "distinct P" using assms(3) strict_sorted_iff by blast
  obtain i where i: "take (length p) (drop i P) = [k..<k + length p]" "take (length p) (drop i B) = p"
    using assms(1) by (auto simp: sent_at_def)
  show ?thesis
  proof (rule nth_equalityI)
    fix j assume j: "j < length p"
    from arg_cong [OF i(2), of length] j have l: "i + j < length B" by auto
    have "P ! (i + j) = k + j" "B ! (i + j) = p ! j"
      using arg_cong [OF i(1), of "\<lambda>l. l ! j"] arg_cong [OF i(2), of "\<lambda>l. l ! j"] j l assms(2) by simp_all
    with map_of_zip_nth [of P B "i + j"] assms(2) P l have "map_of (zip P B) (k + j) = Some (p ! j)" by simp
    with j show "p ! j = map (byte_at c P B) [k..<k + length p] ! j" by (simp add: byte_at_def)
  qed simp
qed

lemma byte_at_outside: "length P = length B \<Longrightarrow> x \<notin> set P \<Longrightarrow> byte_at c P B x = c"
  using map_of_zip_is_None [of P B x] by (metis byte_at_def option.case(1))

lemma map_byte_at: "length P = length B \<Longrightarrow> sorted_wrt (<) P \<Longrightarrow> map (byte_at c P B) P = B"
  by (rule nth_equalityI) (simp_all add: byte_at_def map_of_zip_nth strict_sorted_iff)

lemma fed_run:
  assumes "rx_fed f0 D out b" "\<forall>sg \<in> D. segment_at f0 P B sg" "length P = length B" "sorted_wrt (<) P"
  shows "rx_run f0 (byte_at c P B) out b"
  using assms(1)
proof induction
  case (arrive out b sg q now ok r b')
  from assms(2) arrive(2,3) obtain k where k: "m_sequenceNumber (seg_header sg) = f0 + of_nat k" "k < 4294967296"
      "sent_at P B k (seg_data sg)"
    unfolding segment_at_def by blast
  have q: "q = k" using k(1,2) arrive(4) by (simp add: unat_of_nat32)
  have "segment (byte_at c P B) (length out) q (seg_data sg)"
    using byte_at_slice [OF k(3) assms(3,4)] arrive(5,6) by (simp add: segment_def q)
  from rx_run.arrive [OF arrive.IH this] show ?case using arrive(7) by (simp add: k(1) q)
qed (auto intro: rx_run.intros)

lemma sorted_initial:
  fixes P :: "nat list"
  assumes "sorted_wrt (<) P" "{0..<n} \<subseteq> set P"
  shows "take n P = [0..<n]"
  using assms(2)
proof (induction n)
  case (Suc n)
  from Suc.prems have "{0..<n} \<subseteq> set P" and n: "n \<in> set P" by auto
  then have t: "take n P = [0..<n]" by (intro Suc.IH)
  have d: "sorted_wrt (<) (take n P @ drop n P)" using assms(1) by simp
  have "n \<in> set (take n P @ drop n P)" using n by simp
  then have "n \<in> set (drop n P)" by (simp only: set_append t) simp
  then obtain x xs where x: "drop n P = x # xs" "x \<le> n"
    using d by (cases "drop n P") (auto simp: sorted_wrt_append)
  have "\<forall>y \<in> {0..<n}. y < x" using d unfolding t x(1) by (simp add: sorted_wrt_append)
  with x(2) have "x = n" by (metis atLeastLessThan_iff le0 le_neq_implies_less less_irrefl)
  moreover have "n < length P" using x(1) by (cases "n < length P") auto
  ultimately show ?case using t x(1) by (simp add: take_Suc_conv_app_nth nth_via_drop)
qed simp

lemma fed_prefix:
  assumes "rx_fed f0 D out b" "\<forall>sg \<in> D. segment_at f0 P B sg" "length P = length B" "sorted_wrt (<) P"
  shows "out = take (length out) B"
proof -
  have o: "out = map (byte_at c P B) [0..<length out]" for c
    using rx_run_inv [OF fed_run [OF assms, of c]] by blast
  have "x \<in> set P" if "x < length out" for x
  proof (rule ccontr)
    assume "x \<notin> set P"
    then have "byte_at c P B x = c" for c by (rule byte_at_outside [OF assms(3)])
    then have "out ! x = c" for c using arg_cong [OF o [of c], of "\<lambda>l. l ! x"] that by simp
    from this [of 0] this [of 1] show False by simp
  qed
  then have t: "take (length out) P = [0..<length out]" by (intro sorted_initial [OF assms(4)]) auto
  have "out = map (byte_at 0 P B) (take (length out) P)" unfolding t by (rule o)
  also have "\<dots> = take (length out) (map (byte_at 0 P B) P)" by (simp only: take_map)
  also have "\<dots> = take (length out) B" by (simp only: map_byte_at [OF assms(3,4)])
  finally show ?thesis .
qed

section \<open>From one application to the other\<close>

text \<open>The segments that a run from \<open>s\<close> to \<open>s'\<close> sent, and what is written from the oldest byte in \<open>s\<close> on.\<close>

definition sent_between :: "('c, 'r) sock \<Rightarrow> ('c, 'r) sock \<Rightarrow> segment set" where
  "sent_between s s' = set (drop (length (sent_log s)) (sent_log s'))"

definition written_between :: "('c, 'r) sock \<Rightarrow> ('c, 'r) sock \<Rightarrow> uint8 list" where
  "written_between s s' = stream (m_txBuffer s) @ drop (length (written_log s)) (written_log s')"

text \<open>
  C1. From a socket whose handshake is over, over any run with acknowledgements within 2 GB of the first
  byte, and any loss, duplication, delay and reordering of the segments it sends, the application at the
  other end reads a prefix of the bytes that the application of the socket wrote: each byte once, in
  order and unchanged. This does not depend on the congestion control, the recovery algorithm, the SACK
  blocks that arrive, nor on acknowledgements that are honest.
\<close>

theorem connection_delivers:
  assumes "sender_run (ack_within (HeadSequence (m_txBuffer s))) xs" "tx_data (m_txBuffer s)"
    and "2 \<le> state_rank (m_state s)" "sock_run xs s = Some s'"
    and "rx_fed (HeadSequence (m_txBuffer s)) (sent_between s s') out b"
  shows "\<exists>rest. written_between s s' = out @ rest"
proof -
  let ?a = "sender_of s"
  have a: "una ?a = HeadSequence (m_txBuffer s)" "conn_state ?a = m_state s" "pending ?a = stream (m_txBuffer s)"
    by (simp_all add: sender_of_def sender_view_def)
  have "yields (sock_run xs s) (\<lambda>s'. refines (ack_within (una ?a)) ?a (m_state s') (m_txBuffer s') (written_log s') (sent_log s'))"
    using assms(1,2) by (intro run_refines) (simp_all add: a)
  from yieldsD [OF this assms(4)] have "(sender_step (ack_within (una ?a)))\<^sup>*\<^sup>* ?a (sender_of s')"
    by (simp add: refines_def sender_of_def)
  from sent_inv_steps [OF this] assms(3) a(2) obtain P B u where inv: "sent_inv ?a (sender_of s') P B u" by auto
  then have lay: "laid_out u (pending (sender_of s')) P B" by (simp add: sent_inv_def)
  have "\<forall>sg \<in> sent_between s s'. segment_at (una ?a) P B sg"
    using inv by (auto simp: sent_inv_def sent_between_def sender_of_def sender_view_def)
  from fed_prefix [OF _ this laid_out_length [OF lay] laid_out_sorted [OF lay]] assms(5) a(1)
  have "out = take (length out) B" by simp
  moreover have "written_between s s' = B"
    using inv by (auto simp: sent_inv_def written_between_def sender_of_def sender_view_def)
  ultimately show ?thesis using append_take_drop_id [of "length out" B] by metis
qed

definition data_read :: rx_buffer where
  "data_read = snd (the (Extract 100 (snd (the (rx_Add 25 False (replicate 10 7) 1 (new_rx_buffer 1))))))"

lemma opened_sends:
  "map_option (\<lambda>s. (\<exists>sg \<in> set (drop (length (the (map_option sent_log opened))) (sent_log s)).
      m_sequenceNumber (seg_header sg) = 1 \<and> seg_data sg = replicate 10 7, written_log s)) (opened \<bind> sock_run data_run) =
   Some (True, replicate 10 7)"
  by code_simp

lemma data_read_run:
  assumes "sg \<in> D" "m_sequenceNumber (seg_header sg) = 1" "seg_data sg = replicate 10 7"
  shows "rx_fed 1 D (replicate 10 7) data_read"
proof -
  let ?b = "snd (the (rx_Add 25 False (replicate 10 7) 1 (new_rx_buffer 1)))"
  have "rx_Add 25 False (replicate 10 7) 1 (new_rx_buffer 1) = Some (True, ?b)"
    "Extract 100 ?b = Some (Some (replicate 10 7), data_read)" by code_simp+
  note c = this
  from c(1) assms have "rx_fed 1 D [] ?b"
    by (intro rx_fed.arrive [OF rx_fed.fresh, of sg D 0 1 25 False True]) (simp_all add: reach_def)
  from rx_fed.read [OF this c(2)] show ?thesis by (simp add: bytes_read_def)
qed

theorem connection_delivers_witness:
  "\<exists>s s'. opened = Some s \<and> sock_run data_run s = Some s' \<and> rx_fed 1 (sent_between s s') (replicate 10 7) data_read \<and>
     written_between s s' = replicate 10 7 \<and> (\<exists>rest. written_between s s' = replicate 10 7 @ rest)"
proof -
  obtain s where o: "opened = Some s" "m_state s = ESTABLISHED" "HeadSequence (m_txBuffer s) = 1"
      "m_sentList (m_txBuffer s) = []" "m_appList (m_txBuffer s) = []" "m_size (m_txBuffer s) = 0"
      "m_sentSize (m_txBuffer s) = 0" "m_maxBuffer (m_txBuffer s) = 131072" "written_log s = []"
    using opened_idle by auto
  obtain s' sg where r: "sock_run data_run s = Some s'" "sg \<in> sent_between s s'" "written_log s' = replicate 10 7"
      "m_sequenceNumber (seg_header sg) = 1" "seg_data sg = replicate 10 7"
    using opened_sends by (auto simp: o(1) sent_between_def)
  have run: "sender_run (ack_within (HeadSequence (m_txBuffer s))) data_run"
    by (rule data_run_sends) (simp add: ack_within_def o(3))
  have fed: "rx_fed 1 (sent_between s s') (replicate 10 7) data_read" by (rule data_read_run [OF r(2,4,5)])
  have "written_between s s' = replicate 10 7" using o r by (simp add: written_between_def stream_def)
  moreover have "\<exists>rest. written_between s s' = replicate 10 7 @ rest"
    using connection_delivers [OF run opened_data [OF o(1)] _ r(1), of "replicate 10 7" data_read] fed o(2,3) by simp
  ultimately show ?thesis using o(1) r(1) fed by blast
qed

end
