(* ===== verification/DelayFilter.thy ===== *)
theory DelayFilter
  imports RenoSub DoubleFrac
begin

text \<open>
  \<open>TcpVegas\<close>, \<open>TcpVeno\<close> and \<open>TcpYeah\<close> compare the smallest round trip of the connection with the
  smallest of the last window, and keep the two in the same way. The members and the code they share
  are a record of their own, which the three classes extend. A locale says what the calls of the socket
  do to these members; the order of the two delays, which the classes assert, follows for all sequences
  of calls.
\<close>

section \<open>The members\<close>

record rtt_filter =
  m_baseRtt :: time
  m_minRtt :: time
  m_cntRtt :: uint32

definition rtt_PktsAcked :: "'a rtt_filter_scheme \<Rightarrow> time \<Rightarrow> 'a rtt_filter_scheme" where
  "rtt_PktsAcked f rtt =
     (if rtt = 0 then f
      else f\<lparr>m_minRtt := min (m_minRtt f) rtt, m_baseRtt := min (m_baseRtt f) rtt, m_cntRtt := m_cntRtt f + 1\<rparr>)"

text \<open>\<open>m_cntRtt = 0; m_minRtt = Time::Max();\<close>\<close>

definition rtt_reset :: "'a rtt_filter_scheme \<Rightarrow> 'a rtt_filter_scheme" where
  "rtt_reset f = f\<lparr>m_cntRtt := 0, m_minRtt := t_Max\<rparr>"

definition filter_ok :: "'a rtt_filter_scheme \<Rightarrow> bool" where
  "filter_ok f \<longleftrightarrow> 0 < m_baseRtt f \<and> m_baseRtt f \<le> m_minRtt f \<and> m_minRtt f \<le> t_Max"

lemma filter_ok_new: "m_baseRtt f = t_Max \<Longrightarrow> m_minRtt f = t_Max \<Longrightarrow> filter_ok f"
  by (simp add: filter_ok_def t_Max_def)

lemma filter_ok_acked: "filter_ok f \<Longrightarrow> 0 \<le> rtt \<Longrightarrow> filter_ok (rtt_PktsAcked f rtt)"
  by (auto simp: filter_ok_def rtt_PktsAcked_def)

lemma filter_ok_fresh: "filter_ok f \<Longrightarrow> m_minRtt g = t_Max \<Longrightarrow> m_baseRtt g = m_baseRtt f \<Longrightarrow> filter_ok g"
  by (auto simp: filter_ok_def)

lemma filter_ok_same: "filter_ok f \<Longrightarrow> m_minRtt g = m_minRtt f \<Longrightarrow> m_baseRtt g = m_baseRtt f \<Longrightarrow> filter_ok g"
  by (simp add: filter_ok_def)

lemma filter_ok_truncate [simp]: "filter_ok (rtt_filter.truncate f) = filter_ok f"
  by (simp add: filter_ok_def rtt_filter.truncate_def)

section \<open>All sequences of calls\<close>

text \<open>The socket state is another one at every call; only the state of the algorithm goes on.\<close>

datatype cc_call = Acked time | StateSet tcb TcpCongState | Increase tcb uint32

locale delay_based =
  fixes acked :: "'s \<Rightarrow> time \<Rightarrow> 's" and state_set :: "'s \<Rightarrow> tcb \<Rightarrow> TcpCongState \<Rightarrow> 's" and inc :: "'s increase"
    and delays :: "'s \<Rightarrow> rtt_filter"
  assumes acked_delays: "delays (acked s rtt) = rtt_PktsAcked (delays s) rtt"
    and state_set_delays: "m_baseRtt (delays (state_set s tcb st)) = m_baseRtt (delays s)"
      "m_minRtt (delays (state_set s tcb st)) \<in> {m_minRtt (delays s), t_Max}"
    and inc_delays: "inc s tcb n = Some (s', tcb') \<Longrightarrow>
      m_baseRtt (delays s') = m_baseRtt (delays s) \<and> m_minRtt (delays s') \<in> {m_minRtt (delays s), t_Max}"

fun cc_step :: "('s \<Rightarrow> time \<Rightarrow> 's) \<Rightarrow> ('s \<Rightarrow> tcb \<Rightarrow> TcpCongState \<Rightarrow> 's) \<Rightarrow> 's increase \<Rightarrow> 's \<Rightarrow> cc_call \<Rightarrow> 's option" where
  "cc_step acked state_set inc s (Acked rtt) = Some (acked s rtt)"
| "cc_step acked state_set inc s (StateSet tcb st) = Some (state_set s tcb st)"
| "cc_step acked state_set inc s (Increase tcb n) = map_option fst (inc s tcb n)"

primrec cc_run ::
    "('s \<Rightarrow> time \<Rightarrow> 's) \<Rightarrow> ('s \<Rightarrow> tcb \<Rightarrow> TcpCongState \<Rightarrow> 's) \<Rightarrow> 's increase \<Rightarrow> 's \<Rightarrow> cc_call list \<Rightarrow> 's option" where
  "cc_run acked state_set inc s [] = Some s"
| "cc_run acked state_set inc s (c # cs) = do { s \<leftarrow> cc_step acked state_set inc s c; cc_run acked state_set inc s cs }"

fun past_rtt :: "cc_call \<Rightarrow> bool" where
  "past_rtt (Acked rtt) \<longleftrightarrow> 0 \<le> rtt"
| "past_rtt _ \<longleftrightarrow> True"

lemma cc_run_keeps:
  assumes "P s" "list_all Q cs" "cc_run acked state_set inc s cs = Some s'"
    and "\<And>s c s'. \<lbrakk>P s; Q c; cc_step acked state_set inc s c = Some s'\<rbrakk> \<Longrightarrow> P s'"
  shows "P s'"
  using assms(1-3) by (induction cs arbitrary: s) (auto simp: bind_eq_Some_conv dest: assms(4))

context delay_based begin

lemma step_ok:
  assumes "filter_ok (delays s)" "past_rtt c" "cc_step acked state_set inc s c = Some s'"
  shows "filter_ok (delays s')"
proof (cases c)
  case (Acked rtt)
  then show ?thesis using assms filter_ok_acked by (auto simp: acked_delays)
next
  case (StateSet tcb st)
  then show ?thesis using assms state_set_delays [of s tcb st] filter_ok_same filter_ok_fresh by auto
next
  case (Increase tcb n)
  then obtain tcb' where "inc s tcb n = Some (s', tcb')" using assms(3) by auto
  from inc_delays [OF this] show ?thesis using assms(1) filter_ok_same filter_ok_fresh by blast
qed

lemma run_ok:
  assumes "filter_ok (delays s)" "list_all past_rtt cs" "cc_run acked state_set inc s cs = Some s'"
  shows "filter_ok (delays s')"
  using assms step_ok by (rule cc_run_keeps [where P = "\<lambda>s. filter_ok (delays s)"])

end

section \<open>The window the smallest delay stands for\<close>

text \<open>
  \<open>Time::GetSeconds\<close> is a parameter; what is used of it is that longer times have no fewer seconds,
  and that a positive time has a positive, finite number of them.
\<close>

definition secs_ok :: "(time \<Rightarrow> double) \<Rightarrow> bool" where
  "secs_ok secs \<longleftrightarrow>
     (\<forall>t t'. 0 < t \<longrightarrow> t \<le> t' \<longrightarrow> t' \<le> t_Max \<longrightarrow> (\<exists>a b. secs t = Fin a \<and> secs t' = Fin b \<and> 0 < a \<and> a \<le> b))"

text \<open>
  \<open>double tmp = m_baseRtt.GetSeconds() / m_minRtt.GetSeconds();
  targetCwnd = static_cast<uint32_t>(segCwnd * tmp); NS_ASSERT(segCwnd >= targetCwnd);\<close>
\<close>

definition target_window :: "(time \<Rightarrow> double) \<Rightarrow> 'a rtt_filter_scheme \<Rightarrow> uint32 \<Rightarrow> uint32 option" where
  "target_window secs f segCwnd = do {
     let tmp = d_div (secs (m_baseRtt f)) (secs (m_minRtt f));
     targetCwnd \<leftarrow> to_u32 (d_mul (of_u32 segCwnd) tmp);
     ns_assert (segCwnd \<ge> targetCwnd);
     Some targetCwnd
   }"

lemma target_window_returns:
  assumes "secs_ok secs" "filter_ok f"
  shows "\<exists>v. target_window secs f q = Some v \<and> v \<le> q"
proof -
  obtain a b where ab: "secs (m_baseRtt f) = Fin a" "secs (m_minRtt f) = Fin b" "0 < a" "a \<le> b"
    using assms by (fastforce simp: secs_ok_def filter_ok_def)
  then have "unit_frac (d_div (Fin a) (Fin b))" by (intro unit_frac_div) simp_all
  from scale_down [OF this, of q] show ?thesis by (auto simp: target_window_def ab(1,2) word_le_nat_alt Let_def)
qed

text \<open>Nanoseconds, rounded once.\<close>

definition ns_secs :: "time \<Rightarrow> double" where
  "ns_secs t = fl (of_int t / 10 ^ 9)"

lemma ns_secs_fin:
  assumes "0 < t" "t \<le> t_Max" shows "ns_secs t = Fin (rnd (of_int t / 10 ^ 9))" "0 < rnd (of_int t / 10 ^ 9)"
proof -
  have u: "(of_int t :: rat) / 10 ^ 9 \<le> of_nat 9223372037"
  proof -
    have "(of_int t :: rat) \<le> of_int (9223372037 * 10 ^ 9)" unfolding of_int_le_iff using assms(2) by (simp add: t_Max_def)
    then show ?thesis by simp
  qed
  show "ns_secs t = Fin (rnd (of_int t / 10 ^ 9))"
    unfolding ns_secs_def using fl_below [OF _ u] assms(1) by simp
  have one: "(1 :: rat) \<le> of_int t" using assms(1) by simp
  have "(1 / 2 ^ 30 :: rat) \<le> of_int t / 10 ^ 9" using one by (simp add: field_simps)
  then have "rnd (1 / 2 ^ 30) \<le> rnd (of_int t / 10 ^ 9)" by (intro rnd_mono) simp_all
  moreover have "rnd (1 / 2 ^ 30) = 1 / 2 ^ 30" using rnd_exact [of "1 / 2 ^ 30" 1 30] by simp
  ultimately have "1 / 2 ^ 30 \<le> rnd (of_int t / 10 ^ 9)" by simp
  then show "0 < rnd (of_int t / 10 ^ 9)" by (rule less_le_trans [rotated]) simp
qed

lemma ns_secs_ok: "secs_ok ns_secs"
proof -
  have "\<exists>a b. ns_secs t = Fin a \<and> ns_secs t' = Fin b \<and> 0 < a \<and> a \<le> b" if "0 < t" "t \<le> t'" "t' \<le> t_Max" for t t'
  proof -
    have "rnd (of_int t / 10 ^ 9) \<le> rnd (of_int t' / 10 ^ 9)" using that by (intro rnd_mono) (simp_all add: divide_right_mono)
    with ns_secs_fin [of t] ns_secs_fin [of t'] that show ?thesis by auto
  qed
  then show ?thesis by (simp add: secs_ok_def)
qed

end
