(* ===== verification/Vegas.thy ===== *)
theory Vegas
  imports DelayFilter
begin

text \<open>
  \<open>TcpVegas\<close> (\<open>tcp-vegas.cc\<close>): once per round trip the window is compared with the one that the smallest
  delay of the connection stands for, and changed by one segment.
\<close>

section \<open>State and operations\<close>

record tcp_vegas = rtt_filter +
  vg_newreno :: tcp_newreno
  m_alpha :: uint32
  m_beta :: uint32
  m_gamma :: uint32
  m_doingVegasNow :: bool
  m_begSndNxt :: seq32

text \<open>The constructor, then the attributes.\<close>

definition new_vegas :: "tcp_newreno \<Rightarrow> uint32 \<Rightarrow> uint32 \<Rightarrow> uint32 \<Rightarrow> tcp_vegas" where
  "new_vegas nr alpha beta gamma =
     \<lparr>m_baseRtt = t_Max, m_minRtt = t_Max, m_cntRtt = 0, vg_newreno = nr, m_alpha = alpha, m_beta = beta,
      m_gamma = gamma, m_doingVegasNow = True, m_begSndNxt = 0\<rparr>"

definition vegas_copy :: "tcp_newreno \<Rightarrow> tcp_vegas \<Rightarrow> tcp_vegas" where
  "vegas_copy raw sock =
     sock\<lparr>vg_newreno := newreno_copy raw (vg_newreno sock), m_doingVegasNow := True, m_begSndNxt := 0\<rparr>"

definition vegas_PktsAcked :: "tcp_vegas \<Rightarrow> time \<Rightarrow> tcp_vegas" where
  "vegas_PktsAcked v rtt = rtt_PktsAcked v rtt"

definition EnableVegas :: "tcp_vegas \<Rightarrow> tcb \<Rightarrow> tcp_vegas" where
  "EnableVegas v tcb =
     v\<lparr>m_doingVegasNow := True, m_begSndNxt := m_nextTxSequence tcb, m_cntRtt := 0, m_minRtt := t_Max\<rparr>"

definition DisableVegas :: "tcp_vegas \<Rightarrow> tcp_vegas" where
  "DisableVegas v = v\<lparr>m_doingVegasNow := False\<rparr>"

definition vegas_CongestionStateSet :: "tcp_vegas \<Rightarrow> tcb \<Rightarrow> TcpCongState \<Rightarrow> tcp_vegas" where
  "vegas_CongestionStateSet v tcb newState = (if newState = CA_OPEN then EnableVegas v tcb else DisableVegas v)"

definition vegas_GetSsThresh :: "tcb \<Rightarrow> uint32 \<Rightarrow> uint32" where
  "vegas_GetSsThresh tcb bytesInFlight =
     max (min (m_ssThresh tcb) (m_cWnd tcb - m_segmentSize tcb)) (2 * m_segmentSize tcb)"

text \<open>The adjustment at the end of a cycle with enough samples.\<close>

definition vegas_adjust :: "(time \<Rightarrow> double) \<Rightarrow> tcp_vegas \<Rightarrow> tcb \<Rightarrow> uint32 \<Rightarrow> tcb option" where
  "vegas_adjust secs v tcb segmentsAcked = do {
     segCwnd \<leftarrow> GetCwndInSegments tcb;
     targetCwnd \<leftarrow> target_window secs v segCwnd;
     let diff = segCwnd - targetCwnd;
     tcb \<leftarrow>
       (if diff > m_gamma v \<and> m_cWnd tcb < m_ssThresh tcb then
          let segCwnd = min segCwnd (targetCwnd + 1);
              tcb = tcb\<lparr>m_cWnd := segCwnd * m_segmentSize tcb\<rparr>
          in Some (tcb\<lparr>m_ssThresh := vegas_GetSsThresh tcb 0\<rparr>)
        else if m_cWnd tcb < m_ssThresh tcb then
          map_option fst (newreno_SlowStart (vg_newreno v) tcb segmentsAcked)
        else if diff > m_beta v then
          let segCwnd = segCwnd - 1;
              tcb = tcb\<lparr>m_cWnd := segCwnd * m_segmentSize tcb\<rparr>
          in Some (tcb\<lparr>m_ssThresh := vegas_GetSsThresh tcb 0\<rparr>)
        else if diff < m_alpha v then
          let segCwnd = segCwnd + 1
          in Some (tcb\<lparr>m_cWnd := segCwnd * m_segmentSize tcb\<rparr>)
        else Some tcb);
     Some (tcb\<lparr>m_ssThresh := max (m_ssThresh tcb) (3 * m_cWnd tcb div 4)\<rparr>)
   }"

definition vegas_IncreaseWindow :: "(time \<Rightarrow> double) \<Rightarrow> tcp_vegas increase" where
  "vegas_IncreaseWindow secs v tcb segmentsAcked =
     (if \<not> m_doingVegasNow v then
        map_option (Pair v) (newreno_IncreaseWindow (vg_newreno v) tcb segmentsAcked)
      else if seq_ge (m_lastAckedSeq tcb) (m_begSndNxt v) then do {
        let v = v\<lparr>m_begSndNxt := m_nextTxSequence tcb\<rparr>;
        tcb \<leftarrow>
          (if m_cntRtt v \<le> 2 then newreno_IncreaseWindow (vg_newreno v) tcb segmentsAcked
           else vegas_adjust secs v tcb segmentsAcked);
        Some (rtt_reset v, tcb)
      }
      else if m_cWnd tcb < m_ssThresh tcb then
        map_option (\<lambda>(tcb, n). (v, tcb)) (newreno_SlowStart (vg_newreno v) tcb segmentsAcked)
      else Some (v, tcb))"

section \<open>The delays\<close>

lemma vegas_delays:
  "vegas_IncreaseWindow secs v tcb n = Some (v', tcb') \<Longrightarrow>
     m_baseRtt v' = m_baseRtt v \<and> m_minRtt v' \<in> {m_minRtt v, t_Max} \<and> vg_newreno v' = vg_newreno v \<and> m_beta v' = m_beta v"
  by (auto simp: vegas_IncreaseWindow_def rtt_reset_def bind_eq_Some_conv Let_def split: if_splits)

interpretation vegas: delay_based vegas_PktsAcked vegas_CongestionStateSet "vegas_IncreaseWindow secs" rtt_filter.truncate
proof
  fix s s' :: tcp_vegas and tcb tcb' :: tcb and n rtt st
  show "rtt_filter.truncate (vegas_PktsAcked s rtt) = rtt_PktsAcked (rtt_filter.truncate s) rtt"
    by (simp add: vegas_PktsAcked_def rtt_PktsAcked_def rtt_filter.truncate_def)
  show "m_baseRtt (rtt_filter.truncate (vegas_CongestionStateSet s tcb st)) = m_baseRtt (rtt_filter.truncate s)"
    and "m_minRtt (rtt_filter.truncate (vegas_CongestionStateSet s tcb st)) \<in> {m_minRtt (rtt_filter.truncate s), t_Max}"
    by (simp_all add: vegas_CongestionStateSet_def EnableVegas_def DisableVegas_def rtt_filter.truncate_def)
  show "vegas_IncreaseWindow secs s tcb n = Some (s', tcb') \<Longrightarrow>
      m_baseRtt (rtt_filter.truncate s') = m_baseRtt (rtt_filter.truncate s) \<and>
      m_minRtt (rtt_filter.truncate s') \<in> {m_minRtt (rtt_filter.truncate s), t_Max}"
    using vegas_delays [of secs s tcb n s' tcb'] by (simp add: rtt_filter.truncate_def)
qed

section \<open>The window\<close>

text \<open>The window keeps one segment and gains no more than \<open>n\<close> segments.\<close>

definition window_kept :: "tcb \<Rightarrow> nat \<Rightarrow> tcb \<Rightarrow> bool" where
  "window_kept tcb n tcb' \<longleftrightarrow>
     m_segmentSize tcb' = m_segmentSize tcb \<and> mss tcb \<le> cwnd tcb' \<and> cwnd tcb' \<le> cwnd tcb + n * mss tcb"

lemma window_kept_grown: "ample f tcb n \<Longrightarrow> grown tcb k tcb' \<Longrightarrow> window_kept tcb k tcb'"
  using grown_mss [of tcb k tcb'] by (auto simp: window_kept_def grown_def ample_def)

lemma window_kept_refl: "ample f tcb n \<Longrightarrow> window_kept tcb k tcb"
  by (simp add: window_kept_def ample_def)

lemma window_kept_segments:
  assumes "room tcb n" "1 \<le> unat k" "unat k \<le> unat (m_cWnd tcb div m_segmentSize tcb) + 1" "1 \<le> m"
  shows "window_kept tcb m (tcb\<lparr>m_cWnd := k * m_segmentSize tcb\<rparr>)"
proof -
  have "unat k * mss tcb \<le> (cwnd tcb div mss tcb + 1) * mss tcb" using assms(3) by (intro mult_le_mono1) (simp add: unat_div)
  also have "\<dots> \<le> cwnd tcb + mss tcb" by simp
  finally have u: "unat k * mss tcb \<le> cwnd tcb + mss tcb" .
  then have "unat k * mss tcb < 2 ^ 32" using assms(1) by (simp add: room_def algebra_simps)
  then have c: "unat (k * m_segmentSize tcb) = unat k * mss tcb" by (simp add: unat_word_ariths)
  have "mss tcb \<le> unat k * mss tcb" using mult_le_mono1 [OF assms(2), of "mss tcb"] by simp
  moreover have "unat k * mss tcb \<le> cwnd tcb + m * mss tcb"
    using u mult_le_mono1 [OF assms(4), of "mss tcb"] by linarith
  ultimately show ?thesis unfolding window_kept_def by (simp add: c)
qed

lemma window_kept_ssthresh [simp]: "window_kept tcb n (tcb'\<lparr>m_ssThresh := s\<rparr>) = window_kept tcb n tcb'"
  by (simp add: window_kept_def)

lemma vegas_adjust_kept:
  assumes "secs_ok secs" "filter_ok v" "newreno_ok f (vg_newreno v)" "m_beta v \<noteq> 0" "ample f tcb n"
  shows "\<exists>tcb'. vegas_adjust secs v tcb n = Some tcb' \<and> window_kept tcb (f * (unat n + 1)) tcb'"
proof -
  note room = ample_room [OF assms(5)]
  have factor: "1 \<le> f * (unat n + 1)" using assms(5) by (simp add: ample_def)
  define q where "q = m_cWnd tcb div m_segmentSize tcb"
  have seg: "GetCwndInSegments tcb = Some q" using room_nonzero [OF room] by (simp add: GetCwndInSegments_def udiv32_def q_def)
  have q: "1 \<le> unat q" "unat q < 2 ^ 32" using room_segments [OF room] unat_lt32 [of q] by (simp_all add: q_def)
  obtain t where t: "target_window secs v q = Some t" "t \<le> q" using target_window_returns [OF assms(1,2)] by blast
  note kept = window_kept_segments [OF room _ _ factor, folded q_def]
  obtain t2 n2 k where ss: "newreno_SlowStart (vg_newreno v) tcb n = Some (t2, n2)" "grown tcb (f * k) t2" "k + unat n2 \<le> unat n"
    using newreno_SlowStart_room [OF assms(3,5)] by blast
  have slow: "window_kept tcb (f * (unat n + 1)) t2"
    using ss(2,3) by (intro window_kept_grown [OF assms(5)] grown_weaken [OF ss(2)] mult_le_mono2) simp
  have diff: "unat (q - t) = unat q - unat t" "unat t \<le> unat q" using t(2) by (simp_all add: unat_sub word_le_nat_alt)
  have fast: "1 \<le> unat (min q (t + 1)) \<and> unat (min q (t + 1)) \<le> unat q + 1" if "m_gamma v < q - t"
  proof -
    have "unat t < unat q" using that diff by (simp add: word_less_nat_alt)
    moreover from this have "unat (t + 1) = unat t + 1" using q(2) unat_plus32 [of t 1] by simp
    ultimately show ?thesis by (simp add: min_def word_le_nat_alt)
  qed
  have down: "1 \<le> unat (q - 1) \<and> unat (q - 1) \<le> unat q + 1" if "m_beta v < q - t"
  proof -
    have "0 < unat (m_beta v)" using assms(4) by (simp add: unat_gt_0)
    then have "2 \<le> unat q" using that diff by (simp add: word_less_nat_alt)
    moreover from this have "unat (q - 1) = unat q - 1" by (simp add: unat_sub word_le_nat_alt)
    ultimately show ?thesis by linarith
  qed
  have "(unat q + 1) * mss tcb \<le> cwnd tcb + mss tcb" by (simp add: q_def unat_div)
  then have "(unat q + 1) * mss tcb < 2 ^ 32" using room by (simp add: room_def algebra_simps)
  moreover have "unat q + 1 \<le> (unat q + 1) * mss tcb" using room mult_le_mono2 [of 1 "mss tcb" "unat q + 1"] by (simp add: room_def)
  ultimately have up: "1 \<le> unat (q + 1) \<and> unat (q + 1) \<le> unat q + 1" using unat_plus32 [of q 1] by simp
  have same: "window_kept tcb (f * (unat n + 1)) tcb" using assms(5) by (rule window_kept_refl)
  show ?thesis
    using fast down up slow same kept [of "min q (t + 1)"] kept [of "q - 1"] kept [of "q + 1"]
    by (auto simp: vegas_adjust_def seg t(1) ss(1) Let_def)
qed

lemma vegas_IncreaseWindow_kept:
  assumes "secs_ok secs" "filter_ok v" "newreno_ok f (vg_newreno v)" "m_beta v \<noteq> 0" "ample f tcb n"
  shows "\<exists>v' tcb'. vegas_IncreaseWindow secs v tcb n = Some (v', tcb') \<and> window_kept tcb (f * (unat n + 1)) tcb'"
proof -
  note kept = window_kept_grown [OF assms(5)]
  obtain t1 where reno: "newreno_IncreaseWindow (vg_newreno v) tcb n = Some t1" "window_kept tcb (f * (unat n + 1)) t1"
    using newreno_IncreaseWindow_room [OF assms(3,5)] kept by blast
  obtain t2 n2 k where slow: "newreno_SlowStart (vg_newreno v) tcb n = Some (t2, n2)" "grown tcb (f * k) t2" "k + unat n2 \<le> unat n"
    using newreno_SlowStart_room [OF assms(3,5)] by blast
  have ss: "window_kept tcb (f * (unat n + 1)) t2" using slow(3) by (intro kept grown_weaken [OF slow(2)] mult_le_mono2) simp
  have same: "window_kept tcb (f * (unat n + 1)) tcb" using assms(5) by (rule window_kept_refl)
  obtain t3 where adj: "vegas_adjust secs (v\<lparr>m_begSndNxt := m_nextTxSequence tcb\<rparr>) tcb n = Some t3" "window_kept tcb (f * (unat n + 1)) t3"
    using vegas_adjust_kept [where secs = secs and v = "v\<lparr>m_begSndNxt := m_nextTxSequence tcb\<rparr>" and f = f and tcb = tcb and n = n] assms by (auto simp: filter_ok_def)
  show ?thesis using reno slow(1) ss same adj by (auto simp: vegas_IncreaseWindow_def Let_def)
qed

lemma vegas_run:
  assumes "cc_run vegas_PktsAcked vegas_CongestionStateSet (vegas_IncreaseWindow secs) (new_vegas nr al be ga) cs = Some v"
    and "list_all past_rtt cs"
  shows "filter_ok v" "vg_newreno v = nr" "m_beta v = be"
proof -
  have f: "filter_ok (rtt_filter.truncate (new_vegas nr al be ga))" by (simp add: filter_ok_new new_vegas_def)
  show "filter_ok v" using vegas.run_ok [OF f assms(2,1)] by simp
  have "vg_newreno v = nr \<and> m_beta v = be"
  proof (rule cc_run_keeps [where P = "\<lambda>v. vg_newreno v = nr \<and> m_beta v = be", OF _ assms(2,1)])
    show "vg_newreno (new_vegas nr al be ga) = nr \<and> m_beta (new_vegas nr al be ga) = be" by (simp add: new_vegas_def)
    fix s s' c
    assume "vg_newreno s = nr \<and> m_beta s = be" "cc_step vegas_PktsAcked vegas_CongestionStateSet (vegas_IncreaseWindow secs) s c = Some s'"
    then show "vg_newreno s' = nr \<and> m_beta s' = be"
      by (cases c) (auto simp: vegas_PktsAcked_def rtt_PktsAcked_def vegas_CongestionStateSet_def EnableVegas_def DisableVegas_def
          dest: vegas_delays)
  qed
  then show "vg_newreno v = nr" "m_beta v = be" by simp_all
qed

end
