(* ===== verification/Veno.thy ===== *)
theory Veno
  imports DelayFilter
begin

text \<open>
  \<open>TcpVeno\<close> (\<open>tcp-veno.cc\<close>): NewReno whose increase in congestion avoidance is halved when the delays
  show a queue, and whose cut on a loss is smaller when they do not.
\<close>

section \<open>State and operations\<close>

record tcp_veno = rtt_filter +
  ve_newreno :: tcp_newreno
  m_doingVenoNow :: bool
  m_diff :: uint32
  m_inc :: bool
  m_ackCnt :: uint32
  m_beta :: uint32

definition new_veno :: "tcp_newreno \<Rightarrow> uint32 \<Rightarrow> tcp_veno" where
  "new_veno nr beta =
     \<lparr>m_baseRtt = t_Max, m_minRtt = t_Max, m_cntRtt = 0, ve_newreno = nr, m_doingVenoNow = True, m_diff = 0,
      m_inc = True, m_ackCnt = 0, m_beta = beta\<rparr>"

definition veno_copy :: "tcp_newreno \<Rightarrow> tcp_veno \<Rightarrow> tcp_veno" where
  "veno_copy raw sock =
     sock\<lparr>ve_newreno := newreno_copy raw (ve_newreno sock), m_doingVenoNow := True, m_diff := 0, m_inc := True\<rparr>"

definition veno_PktsAcked :: "tcp_veno \<Rightarrow> time \<Rightarrow> tcp_veno" where
  "veno_PktsAcked v rtt = rtt_PktsAcked v rtt"

definition EnableVeno :: "tcp_veno \<Rightarrow> tcp_veno" where
  "EnableVeno v = v\<lparr>m_doingVenoNow := True, m_minRtt := t_Max\<rparr>"

definition DisableVeno :: "tcp_veno \<Rightarrow> tcp_veno" where
  "DisableVeno v = v\<lparr>m_doingVenoNow := False\<rparr>"

definition veno_CongestionStateSet :: "tcp_veno \<Rightarrow> tcb \<Rightarrow> TcpCongState \<Rightarrow> tcp_veno" where
  "veno_CongestionStateSet v tcb newState = (if newState = CA_OPEN then EnableVeno v else DisableVeno v)"

definition veno_IncreaseWindow :: "(time \<Rightarrow> double) \<Rightarrow> tcp_veno increase" where
  "veno_IncreaseWindow secs v tcb segmentsAcked = do {
     segCwnd \<leftarrow> GetCwndInSegments tcb;
     targetCwnd \<leftarrow> target_window secs v segCwnd;
     let v = v\<lparr>m_diff := segCwnd - targetCwnd\<rparr>;
     (if \<not> m_doingVenoNow v then
        map_option (Pair v) (newreno_IncreaseWindow (ve_newreno v) tcb segmentsAcked)
      else do {
        (v, tcb) \<leftarrow>
          (if m_cntRtt v \<le> 2 then
             map_option (Pair v) (newreno_IncreaseWindow (ve_newreno v) tcb segmentsAcked)
           else if m_cWnd tcb < m_ssThresh tcb then
             map_option (\<lambda>(tcb, n). (v, tcb)) (newreno_SlowStart (ve_newreno v) tcb segmentsAcked)
           else if m_diff v < m_beta v then
             map_option (Pair v) (newreno_CongestionAvoidance (ve_newreno v) tcb segmentsAcked)
           else if m_inc v then
             map_option (Pair (v\<lparr>m_inc := False\<rparr>)) (newreno_CongestionAvoidance (ve_newreno v) tcb segmentsAcked)
           else Some (v\<lparr>m_inc := True\<rparr>, tcb));
        Some (rtt_reset v, tcb)
      })
   }"

definition veno_GetSsThresh :: "tcp_veno \<Rightarrow> tcb \<Rightarrow> uint32 \<Rightarrow> uint32 option" where
  "veno_GetSsThresh v tcb bytesInFlight =
     (if m_diff v < m_beta v then do {
        let tmp = d_div (Fin 4) (Fin 5);
        cut \<leftarrow> to_u32 (d_mul (of_u32 bytesInFlight) tmp);
        Some (max cut (2 * m_segmentSize tcb))
      } else newreno_GetSsThresh (ve_newreno v) tcb bytesInFlight)"

section \<open>The contracts\<close>

lemma veno_delays:
  "veno_IncreaseWindow secs v tcb n = Some (v', tcb') \<Longrightarrow>
     m_baseRtt v' = m_baseRtt v \<and> m_minRtt v' \<in> {m_minRtt v, t_Max} \<and> ve_newreno v' = ve_newreno v"
  by (auto simp: veno_IncreaseWindow_def rtt_reset_def bind_eq_Some_conv Let_def split: if_splits)

interpretation veno: delay_based veno_PktsAcked veno_CongestionStateSet "veno_IncreaseWindow secs" rtt_filter.truncate
proof
  fix s s' :: tcp_veno and tcb tcb' :: tcb and n rtt st
  show "rtt_filter.truncate (veno_PktsAcked s rtt) = rtt_PktsAcked (rtt_filter.truncate s) rtt"
    by (simp add: veno_PktsAcked_def rtt_PktsAcked_def rtt_filter.truncate_def)
  show "m_baseRtt (rtt_filter.truncate (veno_CongestionStateSet s tcb st)) = m_baseRtt (rtt_filter.truncate s)"
    and "m_minRtt (rtt_filter.truncate (veno_CongestionStateSet s tcb st)) \<in> {m_minRtt (rtt_filter.truncate s), t_Max}"
    by (simp_all add: veno_CongestionStateSet_def EnableVeno_def DisableVeno_def rtt_filter.truncate_def)
  show "veno_IncreaseWindow secs s tcb n = Some (s', tcb') \<Longrightarrow>
      m_baseRtt (rtt_filter.truncate s') = m_baseRtt (rtt_filter.truncate s) \<and>
      m_minRtt (rtt_filter.truncate s') \<in> {m_minRtt (rtt_filter.truncate s), t_Max}"
    using veno_delays [of secs s tcb n s' tcb'] by (simp add: rtt_filter.truncate_def)
qed

text \<open>Whatever the delays, the window grows as the socket expects: Veno only leaves out increases of NewReno.\<close>

definition veno_ok :: "nat \<Rightarrow> (time \<Rightarrow> double) \<Rightarrow> tcp_veno \<Rightarrow> bool" where
  "veno_ok f secs v \<longleftrightarrow> secs_ok secs \<and> filter_ok v \<and> newreno_ok f (ve_newreno v)"

lemma veno_IncreaseWindow_grown:
  assumes "veno_ok f secs v" "ample f tcb n"
  shows "\<exists>v' tcb'. veno_IncreaseWindow secs v tcb n = Some (v', tcb') \<and> grown tcb (f * (unat n + 1)) tcb'"
proof -
  have ok: "newreno_ok f (ve_newreno v)" using assms(1) by (simp add: veno_ok_def)
  define q where "q = m_cWnd tcb div m_segmentSize tcb"
  have seg: "GetCwndInSegments tcb = Some q" using room_nonzero [OF ample_room [OF assms(2)]] by (simp add: GetCwndInSegments_def udiv32_def q_def)
  obtain t where t: "target_window secs v q = Some t" using target_window_returns assms(1) by (fastforce simp: veno_ok_def)
  obtain t1 where reno: "newreno_IncreaseWindow (ve_newreno v) tcb n = Some t1" "grown tcb (f * (unat n + 1)) t1"
    using newreno_IncreaseWindow_room [OF ok assms(2)] by blast
  obtain t2 n2 k where slow: "newreno_SlowStart (ve_newreno v) tcb n = Some (t2, n2)" "grown tcb (f * k) t2" "k + unat n2 \<le> unat n"
    using newreno_SlowStart_room [OF ok assms(2)] by blast
  have ss: "grown tcb (f * (unat n + 1)) t2" using slow(3) by (intro grown_weaken [OF slow(2)] mult_le_mono2) simp
  obtain t3 where ca: "newreno_CongestionAvoidance (ve_newreno v) tcb n = Some t3" "grown tcb (f * (unat n + 1)) t3"
    using newreno_CongestionAvoidance_room [OF ok assms(2)] by blast
  have same: "grown tcb (f * (unat n + 1)) tcb" by (rule grown_weaken [OF grown_refl]) (rule le0)
  show ?thesis using reno slow(1) ss ca same by (auto simp: veno_IncreaseWindow_def seg t Let_def)
qed

interpretation veno: window_increase_total f "veno_IncreaseWindow secs" "veno_ok f secs" for f
proof
  fix s s' :: tcp_veno and tcb tcb' :: tcb and n :: uint32
  assume ok: "veno_ok f secs s"
  show "veno_IncreaseWindow secs s tcb n = Some (s', tcb') \<Longrightarrow> veno_ok f secs s'"
    using ok veno_delays [of secs s tcb n s' tcb'] by (auto simp: veno_ok_def filter_ok_def)
  assume r: "ample f tcb n"
  show "\<exists>s' tcb'. veno_IncreaseWindow secs s tcb n = Some (s', tcb')"
    and "veno_IncreaseWindow secs s tcb n = Some (s', tcb') \<Longrightarrow> grown tcb (f * (unat n + 1)) tcb'"
    using veno_IncreaseWindow_grown [OF ok r] by auto
qed

end
