(* ===== verification/Yeah.thy ===== *)
theory Yeah
  imports DelayFilter
begin

text \<open>
  \<open>TcpYeah\<close> (\<open>tcp-yeah.cc\<close>): Scalable while the queue at the bottleneck is short, NewReno with a
  precautionary cut of the window while it is long.
\<close>

section \<open>State\<close>

record tcp_yeah = rtt_filter +
  ye_newreno :: tcp_newreno
  m_alpha :: uint32
  m_gamma :: uint32
  m_delta :: uint32
  m_epsilon :: uint32
  m_phy :: uint32
  m_rho :: uint32
  m_zeta :: uint32
  m_stcpAiFactor :: uint32
  m_stcp :: tcp_scalable
  m_doingYeahNow :: bool
  m_begSndNxt :: seq32
  m_lastQ :: uint32
  m_doingRenoNow :: uint32
  m_renoCount :: uint32
  m_fastCount :: uint32

text \<open>
  The constructor hands \<open>m_stcpAiFactor\<close>, which is still its initial 100, to the Scalable object it
  creates; the attributes are set afterwards. The other attributes are the defaults.
\<close>

definition new_yeah :: "tcp_newreno \<Rightarrow> uint32 \<Rightarrow> tcp_yeah" where
  "new_yeah nr stcpAiFactor =
     \<lparr>m_baseRtt = t_Max, m_minRtt = t_Max, m_cntRtt = 0, ye_newreno = nr, m_alpha = 80, m_gamma = 1, m_delta = 3,
      m_epsilon = 1, m_phy = 8, m_rho = 16, m_zeta = 50, m_stcpAiFactor = stcpAiFactor,
      m_stcp = \<lparr>sc_newreno = nr, m_ackCnt = 0, m_aiFactor = 100, m_mdFactor = Fin (1 / 8)\<rparr>,
      m_doingYeahNow = True, m_begSndNxt = 0, m_lastQ = 0, m_doingRenoNow = 0, m_renoCount = 2, m_fastCount = 0\<rparr>"

definition yeah_copy :: "tcp_newreno \<Rightarrow> tcp_newreno \<Rightarrow> tcp_yeah \<Rightarrow> tcp_yeah" where
  "yeah_copy raw raw' sock =
     sock\<lparr>ye_newreno := newreno_copy raw (ye_newreno sock), m_stcp := scalable_copy raw' (m_stcp sock)\<rparr>"

section \<open>Operations\<close>

definition yeah_PktsAcked :: "tcp_yeah \<Rightarrow> time \<Rightarrow> tcp_yeah" where
  "yeah_PktsAcked y rtt = rtt_PktsAcked y rtt"

definition EnableYeah :: "tcp_yeah \<Rightarrow> seq32 \<Rightarrow> tcp_yeah" where
  "EnableYeah y nextTxSequence =
     y\<lparr>m_doingYeahNow := True, m_begSndNxt := nextTxSequence, m_cntRtt := 0, m_minRtt := t_Max\<rparr>"

definition DisableYeah :: "tcp_yeah \<Rightarrow> tcp_yeah" where
  "DisableYeah y = y\<lparr>m_doingYeahNow := False\<rparr>"

definition yeah_CongestionStateSet :: "tcp_yeah \<Rightarrow> tcb \<Rightarrow> TcpCongState \<Rightarrow> tcp_yeah" where
  "yeah_CongestionStateSet y tcb newState =
     (if newState = CA_OPEN then EnableYeah y (m_nextTxSequence tcb) else DisableYeah y)"

text \<open>A shift by 32 or more has no defined result.\<close>

definition shr32 :: "uint32 \<Rightarrow> uint32 \<Rightarrow> uint32 option" where
  "shr32 x n = (if n < 32 then Some (drop_bit (unat n) x) else None)"

text \<open>The window grows by the rule of the current mode.\<close>

definition yeah_grow :: "tcp_yeah increase" where
  "yeah_grow y tcb segmentsAcked =
     (if m_cWnd tcb < m_ssThresh tcb then
        map_option (\<lambda>(tcb, n). (y, tcb)) (newreno_SlowStart (ye_newreno y) tcb segmentsAcked)
      else if m_doingRenoNow y = 0 then
        map_option (\<lambda>(stcp, tcb). (y\<lparr>m_stcp := stcp\<rparr>, tcb)) (scalable_IncreaseWindow (m_stcp y) tcb segmentsAcked)
      else map_option (Pair y) (newreno_CongestionAvoidance (ye_newreno y) tcb segmentsAcked))"

text \<open>\<open>queue > m_alpha || L > (1 / m_phy)\<close>, with the division of integers.\<close>

definition yeah_congested :: "tcp_yeah \<Rightarrow> uint32 \<Rightarrow> double \<Rightarrow> bool option" where
  "yeah_congested y queue L =
     (if queue > m_alpha y then Some True
      else do { bound \<leftarrow> udiv32 1 (m_phy y); Some (d_less (of_u32 bound) L) })"

text \<open>The precautionary decongestion.\<close>

definition yeah_decongest :: "tcp_yeah \<Rightarrow> tcb \<Rightarrow> uint32 \<Rightarrow> uint32 \<Rightarrow> (tcb \<times> uint32) option" where
  "yeah_decongest y tcb queue segCwnd = do {
     part \<leftarrow> udiv32 queue (m_gamma y);
     most \<leftarrow> shr32 segCwnd (m_epsilon y);
     let reduction = min part most;
     let segCwnd = segCwnd - reduction;
     let segCwnd = max segCwnd (m_renoCount y);
     let tcb = tcb\<lparr>m_cWnd := segCwnd * m_segmentSize tcb\<rparr>;
     Some (tcb\<lparr>m_ssThresh := m_cWnd tcb\<rparr>, segCwnd)
   }"

text \<open>Slow mode and fast mode.\<close>

definition yeah_slow :: "tcp_yeah \<Rightarrow> tcb \<Rightarrow> uint32 \<Rightarrow> uint32 \<Rightarrow> (tcp_yeah \<times> tcb) option" where
  "yeah_slow y tcb queue segCwnd = do {
     (tcb, segCwnd) \<leftarrow>
       (if queue > m_alpha y \<and> segCwnd > m_renoCount y then yeah_decongest y tcb queue segCwnd
        else Some (tcb, segCwnd));
     let y = (if m_renoCount y \<le> 2 then y\<lparr>m_renoCount := max (drop_bit 1 segCwnd) 2\<rparr>
              else y\<lparr>m_renoCount := m_renoCount y + 1\<rparr>);
     Some (y\<lparr>m_doingRenoNow := m_doingRenoNow y + 1\<rparr>, tcb)
   }"

definition yeah_fast :: "tcp_yeah \<Rightarrow> tcp_yeah" where
  "yeah_fast y =
     (let y = y\<lparr>m_fastCount := m_fastCount y + 1\<rparr>;
          y = (if m_fastCount y > m_zeta y then y\<lparr>m_renoCount := 2, m_fastCount := 0\<rparr> else y)
      in y\<lparr>m_doingRenoNow := 0\<rparr>)"

definition yeah_round :: "(time \<Rightarrow> double) \<Rightarrow> tcp_yeah \<Rightarrow> tcb \<Rightarrow> (tcp_yeah \<times> tcb) option" where
  "yeah_round secs y tcb = do {
     segCwnd \<leftarrow> GetCwndInSegments tcb;
     ns_assert (m_minRtt y \<ge> m_baseRtt y);
     rttQueue \<leftarrow> t_sub (m_minRtt y) (m_baseRtt y);
     let bw = d_div (of_u32 segCwnd) (secs (m_minRtt y));
     queue \<leftarrow> to_u32 (d_mul bw (secs rttQueue));
     let L = d_div (secs rttQueue) (secs (m_baseRtt y));
     slow \<leftarrow> yeah_congested y queue L;
     (y, tcb) \<leftarrow> (if slow then yeah_slow y tcb queue segCwnd else Some (yeah_fast y, tcb));
     Some (y\<lparr>m_lastQ := queue\<rparr>, tcb)
   }"

definition yeah_IncreaseWindow :: "(time \<Rightarrow> double) \<Rightarrow> tcp_yeah increase" where
  "yeah_IncreaseWindow secs y tcb segmentsAcked = do {
     (y, tcb) \<leftarrow> yeah_grow y tcb segmentsAcked;
     (if seq_ge (m_lastAckedSeq tcb) (m_begSndNxt y) then do {
        (y, tcb) \<leftarrow> (if m_cntRtt y > 2 then yeah_round secs y tcb else Some (y, tcb));
        Some (rtt_reset (y\<lparr>m_begSndNxt := m_nextTxSequence tcb\<rparr>), tcb)
      } else Some (y, tcb))
   }"

text \<open>\<open>GetSsThresh\<close>, with the number of segments it takes off.\<close>

definition yeah_reduction :: "tcp_yeah \<Rightarrow> uint32 \<Rightarrow> uint32 option" where
  "yeah_reduction y segBytesInFlight =
     (if m_doingRenoNow y < m_rho y then do {
        least \<leftarrow> shr32 segBytesInFlight (m_delta y);
        let reduction = max (m_lastQ y) least;
        Some (min reduction (max (drop_bit 1 segBytesInFlight) 2))
      } else Some (max (drop_bit 1 segBytesInFlight) 2))"

definition yeah_GetSsThresh :: "tcp_yeah \<Rightarrow> tcb \<Rightarrow> uint32 \<Rightarrow> (tcp_yeah \<times> uint32) option" where
  "yeah_GetSsThresh y tcb bytesInFlight = do {
     segBytesInFlight \<leftarrow> udiv32 bytesInFlight (m_segmentSize tcb);
     reduction \<leftarrow> yeah_reduction y segBytesInFlight;
     let y = y\<lparr>m_fastCount := 0\<rparr>;
     let y = y\<lparr>m_renoCount := max (drop_bit 1 (m_renoCount y)) 2\<rparr>;
     Some (y, max (bytesInFlight - reduction * m_segmentSize tcb) (2 * m_segmentSize tcb))
   }"

section \<open>The delays\<close>

lemma yeah_grow_delays:
  "yeah_grow y tcb n = Some (y', tcb') \<Longrightarrow> m_baseRtt y' = m_baseRtt y \<and> m_minRtt y' = m_minRtt y"
  by (auto simp: yeah_grow_def split: if_splits)

lemma yeah_slow_delays: "yeah_slow y tcb q w = Some (y', tcb') \<Longrightarrow> m_baseRtt y' = m_baseRtt y"
  by (auto simp: yeah_slow_def bind_eq_Some_conv Let_def)

lemma yeah_round_delays: "yeah_round secs y tcb = Some (y', tcb') \<Longrightarrow> m_baseRtt y' = m_baseRtt y"
  by (fastforce simp: yeah_round_def yeah_fast_def bind_eq_Some_conv Let_def dest: yeah_slow_delays split: if_splits)

lemma yeah_delays:
  assumes "yeah_IncreaseWindow secs y tcb n = Some (y', tcb')"
  shows "m_baseRtt y' = m_baseRtt y \<and> m_minRtt y' \<in> {m_minRtt y, t_Max}"
proof -
  obtain y1 t1 where g: "yeah_grow y tcb n = Some (y1, t1)"
    and r: "(if seq_ge (m_lastAckedSeq t1) (m_begSndNxt y1) then do {
        (y, tcb) \<leftarrow> (if m_cntRtt y1 > 2 then yeah_round secs y1 t1 else Some (y1, t1));
        Some (rtt_reset (y\<lparr>m_begSndNxt := m_nextTxSequence tcb\<rparr>), tcb)
      } else Some (y1, t1)) = Some (y', tcb')"
    using assms by (auto simp: yeah_IncreaseWindow_def bind_eq_Some_conv)
  from r have "m_baseRtt y' = m_baseRtt y1 \<and> m_minRtt y' \<in> {m_minRtt y1, t_Max}"
    using yeah_round_delays [of secs y1 t1] by (fastforce simp: rtt_reset_def bind_eq_Some_conv split: if_splits)
  with yeah_grow_delays [OF g] show ?thesis by simp
qed

interpretation yeah: delay_based yeah_PktsAcked yeah_CongestionStateSet "yeah_IncreaseWindow secs" rtt_filter.truncate
proof
  fix s s' :: tcp_yeah and tcb tcb' :: tcb and n rtt st
  show "rtt_filter.truncate (yeah_PktsAcked s rtt) = rtt_PktsAcked (rtt_filter.truncate s) rtt"
    by (simp add: yeah_PktsAcked_def rtt_PktsAcked_def rtt_filter.truncate_def)
  show "m_baseRtt (rtt_filter.truncate (yeah_CongestionStateSet s tcb st)) = m_baseRtt (rtt_filter.truncate s)"
    and "m_minRtt (rtt_filter.truncate (yeah_CongestionStateSet s tcb st)) \<in> {m_minRtt (rtt_filter.truncate s), t_Max}"
    by (simp_all add: yeah_CongestionStateSet_def EnableYeah_def DisableYeah_def rtt_filter.truncate_def)
  show "yeah_IncreaseWindow secs s tcb n = Some (s', tcb') \<Longrightarrow>
      m_baseRtt (rtt_filter.truncate s') = m_baseRtt (rtt_filter.truncate s) \<and>
      m_minRtt (rtt_filter.truncate s') \<in> {m_minRtt (rtt_filter.truncate s), t_Max}"
    using yeah_delays [of secs s tcb n s' tcb'] by (simp add: rtt_filter.truncate_def)
qed

section \<open>The threshold after a loss\<close>

lemma half_le: "2 \<le> unat s \<Longrightarrow> unat (max (drop_bit 1 s) 2 :: uint32) \<le> unat s"
  by (auto simp: max_def drop_bit_eq_div word_le_nat_alt unat_div)

lemma yeah_reduction_le:
  assumes "m_delta y < 32" "2 \<le> unat s"
  shows "\<exists>r. yeah_reduction y s = Some r \<and> unat r \<le> unat s"
  using half_le [OF assms(2)] assms(1)
  by (auto simp: yeah_reduction_def shr32_def min_def word_le_nat_alt Let_def)

lemma yeah_GetSsThresh_bounds:
  assumes "m_delta y < 32" "0 < mss tcb" "mss tcb < 2 ^ 29" "2 * mss tcb \<le> unat b"
  shows "\<exists>y' w. yeah_GetSsThresh y tcb b = Some (y', w) \<and> 2 * mss tcb \<le> unat w \<and> unat w \<le> unat b"
proof -
  let ?s = "b div m_segmentSize tcb"
  have nz: "m_segmentSize tcb \<noteq> 0" using assms(2) by auto
  have s: "unat ?s = unat b div mss tcb" by (simp add: unat_div)
  have "2 * mss tcb div mss tcb \<le> unat b div mss tcb" using assms(4) by (rule div_le_mono)
  then have "2 \<le> unat ?s" using assms(2) by (simp add: s)
  then obtain r where r: "yeah_reduction y ?s = Some r" "unat r \<le> unat ?s" using yeah_reduction_le [OF assms(1)] by blast
  have "unat r * mss tcb \<le> unat b div mss tcb * mss tcb" using r(2) by (simp only: s mult_le_mono1)
  then have p: "unat r * mss tcb \<le> unat b" using div_times_less_eq_dividend [of "unat b" "mss tcb"] by linarith
  then have m: "unat (r * m_segmentSize tcb) = unat r * mss tcb"
    using unat_lt32 [of b] by (simp add: unat_word_ariths)
  have d: "unat (b - r * m_segmentSize tcb) \<le> unat b" using p m by (simp add: unat_sub word_le_nat_alt)
  have two: "unat (2 * m_segmentSize tcb) = 2 * mss tcb" using assms(3) by (simp add: unat_word_ariths)
  show ?thesis using d two assms(4) r(1) nz
    by (simp add: yeah_GetSsThresh_def udiv32_def max_def word_le_nat_alt Let_def)
qed

lemma yeah_GetSsThresh_wraps:
  assumes "m_delta y < 32" "0 < mss tcb" "mss tcb < 2 ^ 29"
    and "unat b < 2 * mss tcb \<and> (m_rho y \<le> m_doingRenoNow y \<or> 2 \<le> m_lastQ y)"
  shows "\<exists>y' w. yeah_GetSsThresh y tcb b = Some (y', w) \<and> unat w = 2 ^ 32 + unat b - 2 * mss tcb"
proof -
  let ?s = "b div m_segmentSize tcb"
  have nz: "m_segmentSize tcb \<noteq> 0" using assms(2) by auto
  have "unat b div mss tcb < 2" using assms(2,4) by (simp add: less_mult_imp_div_less)
  then have s: "unat ?s \<le> 1" by (simp add: unat_div)
  then have "unat (drop_bit 1 ?s) = 0" by (simp add: drop_bit_eq_div unat_div)
  then have h: "drop_bit 1 ?s = 0" by (simp only: unat_eq_zero)
  have e: "unat (drop_bit k ?s) \<le> 1" for k
    unfolding unat_drop_bit_eq drop_bit_nat_def using s div_le_dividend [of "unat ?s" "2 ^ k"] by linarith
  then have "drop_bit k ?s \<le> 2" for k using le_trans [OF e, of 2 k] by (simp add: word_le_nat_alt)
  then have r: "yeah_reduction y ?s = Some 2" using assms(1,4)
    by (auto simp: yeah_reduction_def shr32_def h Let_def max_def min_def intro: antisym)
  have two: "unat (2 * m_segmentSize tcb) = 2 * mss tcb" using assms(3) by (simp add: unat_word_ariths)
  have w: "unat (b - 2 * m_segmentSize tcb) = 2 ^ 32 + unat b - 2 * mss tcb"
    using assms(4) two unat_lt32 [of "2 * m_segmentSize tcb"] by (simp add: unat_sub_if_size word_size not_le)
  have "2 * m_segmentSize tcb \<le> b - 2 * m_segmentSize tcb" using assms(3) by (simp add: word_le_nat_alt two w)
  then have "max (b - 2 * m_segmentSize tcb) (2 * m_segmentSize tcb) = b - 2 * m_segmentSize tcb" by (rule max_absorb1)
  then show ?thesis using w r nz by (simp add: yeah_GetSsThresh_def udiv32_def Let_def)
qed

end
