(* ===== verification/HighSpeed.thy ===== *)
theory HighSpeed
  imports RenoSub DoubleFrac
begin

text \<open>
  \<open>TcpHighSpeed\<close> (\<open>tcp-highspeed.cc\<close>): the increase of the window per round trip, and the part it
  gives up on a loss, come from two tables indexed by the window. The loop that turns acknowledged
  segments into segments of the window is the one of \<open>TcpIllinois\<close> too.
\<close>

section \<open>The tables\<close>

text \<open>The bounds of the tests \<open>w <= bound\<close> in the order of the code, with the values returned.\<close>

definition table_a :: "(uint32 \<times> uint32) list" where
  "table_a =
    [(38, 1), (118, 2), (221, 3), (347, 4), (495, 5), (663, 6), (851, 7), (1058, 8), (1284, 9), (1529, 10), (1793, 11),
     (2076, 12), (2378, 13), (2699, 14), (3039, 15), (3399, 16), (3778, 17), (4177, 18), (4596, 19), (5036, 20), (5497, 21),
     (5979, 22), (6483, 23), (7009, 24), (7558, 25), (8130, 26), (8726, 27), (9346, 28), (9991, 29), (10661, 30),
     (11358, 31), (12082, 32), (12834, 33), (13614, 34), (14424, 35), (15265, 36), (16137, 37), (17042, 38), (17981, 39),
     (18955, 40), (19965, 41), (21013, 42), (22101, 43), (23230, 44), (24402, 45), (25618, 46), (26881, 47), (28193, 48),
     (29557, 49), (30975, 50), (32450, 51), (33986, 52), (35586, 53), (37253, 54), (38992, 55), (40808, 56), (42707, 57),
     (44694, 58), (46776, 59), (48961, 60), (51258, 61), (53667, 62), (56230, 63), (58932, 64), (61799, 65), (64851, 66),
     (68113, 67), (71617, 68), (75401, 69), (79517, 70), (84035, 71), (89053, 72), (94717, 73)]"

definition table_b :: "(uint32 \<times> nat) list" where
  "table_b =
    [(38, 50), (118, 44), (221, 41), (347, 38), (495, 37), (663, 35), (851, 34), (1058, 33), (1284, 32), (1529, 31),
     (1793, 30), (2076, 29), (2378, 28), (2699, 28), (3039, 27), (3399, 27), (3778, 26), (4177, 26), (4596, 25), (5036, 25),
     (5497, 24), (5979, 24), (6483, 23), (7009, 23), (7558, 22), (8130, 22), (8726, 22), (9346, 21), (9991, 21),
     (10661, 21), (11358, 20), (12082, 20), (12834, 20), (13614, 19), (14424, 19), (15265, 19), (16137, 19), (17042, 18),
     (17981, 18), (18955, 18), (19965, 17), (21013, 17), (22101, 17), (23230, 17), (24402, 16), (25618, 16), (26881, 16),
     (28193, 16), (29557, 15), (30975, 15), (32450, 15), (33986, 15), (35586, 14), (37253, 14), (38992, 14), (40808, 14),
     (42707, 13), (44694, 13), (46776, 13), (48961, 13), (51258, 13), (53667, 12), (56230, 12), (58932, 12), (61799, 12),
     (64851, 11), (68113, 11), (71617, 11), (75401, 10), (79517, 10), (84035, 10), (89053, 10), (94717, 9)]"

fun table_lookup :: "(uint32 \<times> 'a) list \<Rightarrow> 'a \<Rightarrow> uint32 \<Rightarrow> 'a" where
  "table_lookup [] other w = other"
| "table_lookup ((bound, v) # rest) other w = (if w \<le> bound then v else table_lookup rest other w)"

definition TableLookupA :: "uint32 \<Rightarrow> uint32" where
  "TableLookupA w = table_lookup table_a 73 w"

text \<open>The values are written with two decimals: hundredths, rounded to a double.\<close>

definition TableLookupB :: "uint32 \<Rightarrow> double" where
  "TableLookupB w = fl (of_nat (table_lookup table_b 9 w) / 100)"

section \<open>Operations\<close>

record tcp_highspeed =
  hs_newreno :: tcp_newreno
  hs_ackCnt :: uint32

definition new_highspeed :: "tcp_newreno \<Rightarrow> tcp_highspeed" where
  "new_highspeed nr = \<lparr>hs_newreno = nr, hs_ackCnt = 0\<rparr>"

definition highspeed_copy :: "tcp_newreno \<Rightarrow> tcp_highspeed \<Rightarrow> tcp_highspeed" where
  "highspeed_copy raw sock = sock\<lparr>hs_newreno := newreno_copy raw (hs_newreno sock)\<rparr>"

text \<open>\<open>while (m_ackCnt >= segCwnd) { m_ackCnt -= segCwnd; segCwnd += 1; }\<close>\<close>

partial_function (option) carry_loop :: "uint32 \<Rightarrow> uint32 \<Rightarrow> (uint32 \<times> uint32) option" where
  "carry_loop ackCnt segCwnd =
     (if ackCnt \<ge> segCwnd then carry_loop (ackCnt - segCwnd) (segCwnd + 1) else Some (ackCnt, segCwnd))"

declare carry_loop.simps [code]

definition highspeed_CongestionAvoidance :: "tcp_highspeed increase" where
  "highspeed_CongestionAvoidance s tcb segmentsAcked = do {
     segCwnd \<leftarrow> GetCwndInSegments tcb;
     let oldCwnd = segCwnd;
     let s = (if segmentsAcked > 0 then s\<lparr>hs_ackCnt := hs_ackCnt s + segmentsAcked * TableLookupA segCwnd\<rparr> else s);
     (ackCnt, segCwnd) \<leftarrow> carry_loop (hs_ackCnt s) segCwnd;
     Some (s\<lparr>hs_ackCnt := ackCnt\<rparr>, set_segments oldCwnd segCwnd tcb)
   }"

definition highspeed_IncreaseWindow :: "tcp_highspeed increase" where
  "highspeed_IncreaseWindow = virtual_IncreaseWindow (reno_ss hs_newreno) highspeed_CongestionAvoidance"

definition highspeed_GetSsThresh :: "tcp_highspeed \<Rightarrow> tcb \<Rightarrow> uint32 \<Rightarrow> uint32 option" where
  "highspeed_GetSsThresh s tcb bytesInFlight = do {
     segCwnd \<leftarrow> udiv32 bytesInFlight (m_segmentSize tcb);
     let b = d_sub (Fin 1) (TableLookupB segCwnd);
     ssThresh \<leftarrow> to_u32 (d_max (Fin 2) (d_mul (of_u32 segCwnd) b));
     Some (ssThresh * m_segmentSize tcb)
   }"

section \<open>The loop\<close>

text \<open>
  The \<open>k\<close> segments added are paid for, one window of acknowledgements each, and what is left does not
  pay for another one. This holds whatever the window is, also when it is 0 or its count wraps.
\<close>

definition carried :: "uint32 \<Rightarrow> uint32 \<Rightarrow> nat \<Rightarrow> uint32 \<Rightarrow> bool" where
  "carried ackCnt segCwnd k left \<longleftrightarrow>
     unat ackCnt = unat left + (\<Sum>i<k. unat (segCwnd + of_nat i)) \<and> left < segCwnd + of_nat k"

lemma carried_step:
  assumes "segCwnd \<le> ackCnt" "carried (ackCnt - segCwnd) (segCwnd + 1) k left"
  shows "carried ackCnt segCwnd (Suc k) left"
proof -
  have "unat ackCnt = unat (ackCnt - segCwnd) + unat segCwnd" using assms(1) by (simp add: unat_sub word_le_nat_alt)
  moreover have "(\<Sum>i<Suc k. unat (segCwnd + of_nat i)) = unat segCwnd + (\<Sum>i<k. unat (segCwnd + 1 + of_nat i))"
    unfolding sum.lessThan_Suc_shift by (simp add: add_ac)
  ultimately show ?thesis using assms(2) by (simp add: carried_def add_ac)
qed

lemma carry_loop_returns:
  "\<exists>k left. carry_loop ackCnt segCwnd = Some (left, segCwnd + of_nat k) \<and> carried ackCnt segCwnd k left"
proof (induction "2 * unat ackCnt + (if segCwnd = 0 then 1 else 0)" arbitrary: ackCnt segCwnd rule: less_induct)
  case less
  show ?case
  proof (cases "segCwnd \<le> ackCnt")
    case True
    have "unat (ackCnt - segCwnd) + unat segCwnd = unat ackCnt" using True by (simp add: unat_sub word_le_nat_alt)
    moreover have "segCwnd \<noteq> 0 \<longleftrightarrow> 0 < unat segCwnd" by (simp add: unat_gt_0)
    ultimately have "2 * unat (ackCnt - segCwnd) + (if segCwnd + 1 = 0 then 1 else 0)
        < 2 * unat ackCnt + (if segCwnd = 0 then 1 else 0)" by (cases "segCwnd = 0") auto
    from less [OF this] obtain k left where "carry_loop (ackCnt - segCwnd) (segCwnd + 1) = Some (left, segCwnd + 1 + of_nat k)"
      and c: "carried (ackCnt - segCwnd) (segCwnd + 1) k left" by blast
    then have "carry_loop ackCnt segCwnd = Some (left, segCwnd + of_nat (Suc k))"
      using True by (simp add: carry_loop.simps [of ackCnt] add_ac)
    with carried_step [OF True c] show ?thesis by blast
  next
    case False
    then have "carry_loop ackCnt segCwnd = Some (ackCnt, segCwnd + of_nat 0)" "carried ackCnt segCwnd 0 ackCnt"
      by (simp_all add: carry_loop.simps [of ackCnt] carried_def)
    then show ?thesis by blast
  qed
qed

text \<open>Both classes write the window back only when segments were added.\<close>

lemma highspeed_CongestionAvoidance_returns:
  assumes "m_segmentSize tcb \<noteq> 0"
  defines "q \<equiv> m_cWnd tcb div m_segmentSize tcb"
  shows "\<exists>k s'. highspeed_CongestionAvoidance s tcb n = Some (s', set_segments q (q + of_nat k) tcb) \<and>
    carried (hs_ackCnt s + n * TableLookupA q) q k (hs_ackCnt s')"
proof -
  obtain k left where "carry_loop (hs_ackCnt s + n * TableLookupA q) q = Some (left, q + of_nat k)"
    and c: "carried (hs_ackCnt s + n * TableLookupA q) q k left" using carry_loop_returns by blast
  moreover have "(if n > 0 then s\<lparr>hs_ackCnt := hs_ackCnt s + n * TableLookupA q\<rparr> else s) =
      s\<lparr>hs_ackCnt := hs_ackCnt s + n * TableLookupA q\<rparr>" by (cases "n = 0") (simp_all add: word_neq_0_conv)
  ultimately have "highspeed_CongestionAvoidance s tcb n =
      Some (s\<lparr>hs_ackCnt := left\<rparr>, set_segments q (q + of_nat k) tcb)" using assms(1)
    by (simp add: highspeed_CongestionAvoidance_def GetCwndInSegments_def udiv32_def q_def [symmetric] Let_def)
  with c show ?thesis by fastforce
qed

section \<open>Monotonicity of the tables\<close>

lemma table_lookup_mem: "table_lookup t other w \<in> set (map snd t @ [other])"
  by (induction t other w rule: table_lookup.induct) simp_all

lemma table_lookup_mono:
  assumes "sorted_wrt R (map snd t @ [other])" "\<And>v. R v v" "w \<le> w'"
  shows "R (table_lookup t other w) (table_lookup t other w')"
  using assms(1)
proof (induction t)
  case (Cons e t)
  obtain b v where e: "e = (b, v)" by (cases e)
  have "R v (table_lookup t other w')" using Cons.prems e table_lookup_mem [of t other w'] by fastforce
  moreover have "w' \<le> b \<Longrightarrow> w \<le> b" using assms(3) by simp
  ultimately show ?case using Cons e assms(2) by auto
qed (simp add: assms(2))

end
