(* ===== verification/Illinois.thy ===== *)
theory Illinois
  imports HighSpeed
begin

text \<open>
  \<open>TcpIllinois\<close> (\<open>tcp-illinois.cc\<close>): NewReno whose increase and decrease factors are functions of the
  average and the largest queueing delay of the last round trip.
\<close>

section \<open>State\<close>

record tcp_illinois =
  il_newreno :: tcp_newreno
  m_sumRtt :: time
  m_cntRtt :: uint32
  m_baseRtt :: time
  m_maxRtt :: time
  m_endSeq :: seq32
  m_rttAbove :: bool
  m_rttLow :: uint8
  m_alphaMin :: double
  m_alphaMax :: double
  m_alphaBase :: double
  m_alpha :: double
  m_betaMin :: double
  m_betaMax :: double
  m_betaBase :: double
  m_beta :: double
  m_winThresh :: uint32
  m_theta :: uint32
  m_ackCnt :: uint32

text \<open>The default attributes.\<close>

definition new_illinois :: "tcp_newreno \<Rightarrow> tcp_illinois" where
  "new_illinois nr =
     \<lparr>il_newreno = nr, m_sumRtt = 0, m_cntRtt = 0, m_baseRtt = t_Max, m_maxRtt = Time_Min, m_endSeq = 0,
      m_rttAbove = False, m_rttLow = 0, m_alphaMin = fl (3 / 10), m_alphaMax = Fin 10, m_alphaBase = Fin 1, m_alpha = Fin 10,
      m_betaMin = Fin (1 / 8), m_betaMax = Fin (1 / 2), m_betaBase = Fin (1 / 2), m_beta = Fin (1 / 2),
      m_winThresh = 15, m_theta = 5, m_ackCnt = 0\<rparr>"

definition illinois_copy :: "tcp_newreno \<Rightarrow> tcp_illinois \<Rightarrow> tcp_illinois" where
  "illinois_copy raw sock = sock\<lparr>il_newreno := newreno_copy raw (il_newreno sock)\<rparr>"

section \<open>Delays\<close>

definition CalculateAvgDelay :: "tcp_illinois \<Rightarrow> time option" where
  "CalculateAvgDelay s = do { avg \<leftarrow> t_quot (m_sumRtt s) (uint (m_cntRtt s)); t_sub avg (m_baseRtt s) }"

definition CalculateMaxDelay :: "tcp_illinois \<Rightarrow> time option" where
  "CalculateMaxDelay s = t_sub (m_maxRtt s) (m_baseRtt s)"

definition illinois_PktsAcked :: "tcp_illinois \<Rightarrow> time \<Rightarrow> tcp_illinois option" where
  "illinois_PktsAcked s rtt =
     (if rtt = 0 then Some s
      else do {
        sum \<leftarrow> t_add (m_sumRtt s) rtt;
        Some (s\<lparr>m_baseRtt := min (m_baseRtt s) rtt, m_maxRtt := max rtt (m_maxRtt s), m_cntRtt := m_cntRtt s + 1,
               m_sumRtt := sum\<rparr>)
      })"

definition illinois_Reset :: "tcp_illinois \<Rightarrow> seq32 \<Rightarrow> tcp_illinois" where
  "illinois_Reset s nextTxSequence = s\<lparr>m_endSeq := nextTxSequence, m_cntRtt := 0, m_sumRtt := 0\<rparr>"

section \<open>The factors\<close>

definition CalculateAlpha :: "tcp_illinois \<Rightarrow> double \<Rightarrow> double \<Rightarrow> tcp_illinois" where
  "CalculateAlpha s da dm =
     (let d1 = d_div dm (Fin 100)
      in if d_le da d1 then
           let s = (if \<not> m_rttAbove s then s\<lparr>m_alpha := m_alphaMax s\<rparr> else s);
               s = s\<lparr>m_rttLow := m_rttLow s + 1\<rparr>
           in if ucast (m_rttLow s) \<ge> m_theta s
              then s\<lparr>m_rttLow := 0, m_rttAbove := False, m_alpha := m_alphaMax s\<rparr> else s
         else
           let s = s\<lparr>m_rttAbove := True\<rparr>; dm = d_sub dm d1; da = d_sub da d1
           in s\<lparr>m_alpha := d_div (d_mul dm (m_alphaMax s))
                 (d_add dm (d_div (d_mul da (d_sub (m_alphaMax s) (m_alphaMin s))) (m_alphaMin s)))\<rparr>)"

definition CalculateBeta :: "tcp_illinois \<Rightarrow> double \<Rightarrow> double \<Rightarrow> tcp_illinois" where
  "CalculateBeta s da dm =
     (let d2 = d_div dm (Fin 10); d3 = d_div (d_mul (Fin 8) dm) (Fin 10)
      in if d_le da d2 then s\<lparr>m_beta := m_betaMin s\<rparr>
         else if d_less d2 da \<and> d_less da d3 then
           s\<lparr>m_beta := d_div (d_add (d_sub (d_mul (m_betaMin s) d3) (d_mul (m_betaMax s) d2))
                (d_mul (d_sub (m_betaMax s) (m_betaMin s)) da)) (d_sub d3 d2)\<rparr>
         else if d_le d3 da \<or> d_le d3 d2 then s\<lparr>m_beta := m_betaMax s\<rparr>
         else s)"

text \<open>The caller passes the window in bytes.\<close>

definition RecalcParam :: "tcp_illinois \<Rightarrow> uint32 \<Rightarrow> tcp_illinois option" where
  "RecalcParam s cWnd =
     (if cWnd < m_winThresh s then Some (s\<lparr>m_alpha := m_alphaBase s, m_beta := m_betaBase s\<rparr>)
      else if m_cntRtt s > 0 then do {
        maxDelay \<leftarrow> CalculateMaxDelay s;
        let dm = fl (of_int (GetMilliSeconds maxDelay));
        avgDelay \<leftarrow> CalculateAvgDelay s;
        let da = fl (of_int (GetMilliSeconds avgDelay));
        Some (CalculateBeta (CalculateAlpha s da dm) da dm)
      } else Some s)"

definition illinois_CongestionStateSet :: "tcp_illinois \<Rightarrow> tcb \<Rightarrow> TcpCongState \<Rightarrow> tcp_illinois" where
  "illinois_CongestionStateSet s tcb newState =
     (if newState = CA_LOSS then
        illinois_Reset (s\<lparr>m_alpha := m_alphaBase s, m_beta := m_betaBase s, m_rttLow := 0, m_rttAbove := False\<rparr>)
          (m_nextTxSequence tcb)
      else s)"

section \<open>The window\<close>

definition illinois_avoid :: "tcp_illinois increase" where
  "illinois_avoid s tcb segmentsAcked = do {
     segCwnd \<leftarrow> GetCwndInSegments tcb;
     let oldCwnd = segCwnd;
     ackCnt \<leftarrow>
       (if segmentsAcked > 0 then to_u32 (d_add (of_u32 (m_ackCnt s)) (d_mul (of_u32 segmentsAcked) (m_alpha s)))
        else Some (m_ackCnt s));
     (ackCnt, segCwnd) \<leftarrow> carry_loop ackCnt segCwnd;
     Some (s\<lparr>m_ackCnt := ackCnt\<rparr>, set_segments oldCwnd segCwnd tcb)
   }"

definition illinois_IncreaseWindow :: "tcp_illinois increase" where
  "illinois_IncreaseWindow s tcb segmentsAcked = do {
     s \<leftarrow> (if seq_ge (m_lastAckedSeq tcb) (m_endSeq s) then do {
            s \<leftarrow> RecalcParam s (m_cWnd tcb);
            Some (illinois_Reset s (m_nextTxSequence tcb))
          } else Some s);
     (if m_cWnd tcb < m_ssThresh tcb then
        map_option (\<lambda>(tcb, n). (s, tcb)) (newreno_SlowStart (il_newreno s) tcb segmentsAcked)
      else illinois_avoid s tcb segmentsAcked)
   }"

definition illinois_GetSsThresh :: "tcp_illinois \<Rightarrow> tcb \<Rightarrow> uint32 \<Rightarrow> uint32 option" where
  "illinois_GetSsThresh s tcb bytesInFlight = do {
     segBytesInFlight \<leftarrow> udiv32 bytesInFlight (m_segmentSize tcb);
     ssThresh \<leftarrow> to_u32 (d_max (Fin 2) (d_mul (d_sub (Fin 1) (m_beta s)) (of_u32 segBytesInFlight)));
     Some (ssThresh * m_segmentSize tcb)
   }"

text \<open>The acknowledged segments, weighted and added to those left, pay for the segments of the window.\<close>

lemma illinois_avoid_returns:
  assumes "m_segmentSize tcb \<noteq> 0" "0 < n"
    and "to_u32 (d_add (of_u32 (m_ackCnt s)) (d_mul (of_u32 n) (m_alpha s))) = Some credit"
  defines "q \<equiv> m_cWnd tcb div m_segmentSize tcb"
  shows "\<exists>k left. illinois_avoid s tcb n = Some (s\<lparr>m_ackCnt := left\<rparr>, set_segments q (q + of_nat k) tcb) \<and>
    carried credit q k left"
proof -
  obtain k left where "carry_loop credit q = Some (left, q + of_nat k)" and c: "carried credit q k left"
    using carry_loop_returns by blast
  then have "illinois_avoid s tcb n = Some (s\<lparr>m_ackCnt := left\<rparr>, set_segments q (q + of_nat k) tcb)"
    using assms(1-3) by (simp add: illinois_avoid_def GetCwndInSegments_def udiv32_def q_def [symmetric] Let_def)
  with c show ?thesis by blast
qed

text \<open>The base factors are for windows below the threshold, which the code reads as a number of bytes.\<close>

lemma illinois_threshold_in_bytes:
  assumes "m_winThresh s \<le> m_segmentSize tcb" "m_segmentSize tcb \<le> m_cWnd tcb" "m_cntRtt s = 0"
  shows "RecalcParam s (m_cWnd tcb) = Some s"
  using assms by (auto simp: RecalcParam_def)

end
