(* ===== verification/Htcp.thy ===== *)
theory Htcp
  imports RenoSub DoubleFrac
begin

text \<open>
  \<open>TcpHtcp\<close> (\<open>tcp-htcp.cc\<close>): an increase that depends on the time since the last loss, and a backoff
  that depends on the delays and on the throughput. \<open>TcpHybla\<close> (\<open>tcp-hybla.cc\<close>): an increase that makes
  up for a long round trip. \<open>secs\<close> is \<open>Time::GetSeconds\<close>, \<open>pw\<close> is \<open>std::pow\<close>.
\<close>

section \<open>H-TCP\<close>

record tcp_htcp =
  ht_newreno :: tcp_newreno
  m_alpha :: double
  m_beta :: double
  m_defaultBackoff :: double
  m_throughputRatio :: double
  m_delta :: time
  m_deltaL :: time
  m_lastCon :: time
  m_minRtt :: time
  m_maxRtt :: time
  m_throughput :: uint32
  m_lastThroughput :: uint32
  m_dataSent :: uint32

text \<open>The default attributes.\<close>

definition new_htcp :: "tcp_newreno \<Rightarrow> tcp_htcp" where
  "new_htcp nr =
     \<lparr>ht_newreno = nr, m_alpha = Fin 0, m_beta = Fin 0, m_defaultBackoff = Fin (1 / 2), m_throughputRatio = fl (1 / 5),
      m_delta = 0, m_deltaL = 10 ^ 9, m_lastCon = 0, m_minRtt = t_Max, m_maxRtt = Time_Min, m_throughput = 0,
      m_lastThroughput = 0, m_dataSent = 0\<rparr>"

definition htcp_copy :: "tcp_newreno \<Rightarrow> tcp_htcp \<Rightarrow> tcp_htcp" where
  "htcp_copy raw sock = sock\<lparr>ht_newreno := newreno_copy raw (ht_newreno sock)\<rparr>"

definition htcp_CongestionAvoidance :: "tcp_htcp increase" where
  "htcp_CongestionAvoidance h tcb segmentsAcked =
     (if segmentsAcked > 0 then do {
        let adder = d_div (d_add (of_u32 (m_segmentSize tcb * m_segmentSize tcb)) (d_mul (of_u32 (m_cWnd tcb)) (m_alpha h)))
                      (of_u32 (m_cWnd tcb));
        let adder = d_max (Fin 1) adder;
        n \<leftarrow> to_u32 adder;
        Some (h, tcb\<lparr>m_cWnd := m_cWnd tcb + n\<rparr>)
      } else Some (h, tcb))"

definition htcp_IncreaseWindow :: "tcp_htcp increase" where
  "htcp_IncreaseWindow = virtual_IncreaseWindow (reno_ss ht_newreno) htcp_CongestionAvoidance"

definition htcp_UpdateAlpha :: "(time \<Rightarrow> double) \<Rightarrow> time \<Rightarrow> tcp_htcp \<Rightarrow> tcp_htcp option" where
  "htcp_UpdateAlpha secs now h = do {
     delta \<leftarrow> t_sub now (m_lastCon h);
     let h = h\<lparr>m_delta := delta\<rparr>;
     h \<leftarrow>
       (if m_delta h \<le> m_deltaL h then Some (h\<lparr>m_alpha := Fin 1\<rparr>)
        else do {
          diff \<leftarrow> t_sub (m_delta h) (m_deltaL h);
          let diffSec = secs diff;
          Some (h\<lparr>m_alpha := d_add (d_add (Fin 1) (d_mul (Fin 10) diffSec))
                               (d_mul (Fin (1 / 4)) (d_mul diffSec diffSec))\<rparr>)
        });
     let h = h\<lparr>m_alpha := d_mul (d_mul (Fin 2) (d_sub (Fin 1) (m_beta h))) (m_alpha h)\<rparr>;
     Some (if d_less (m_alpha h) (Fin 1) then h\<lparr>m_alpha := Fin 1\<rparr> else h)
   }"

text \<open>\<open>diff / m_lastThroughput\<close> is a division of integers.\<close>

definition htcp_UpdateBeta :: "tcp_htcp \<Rightarrow> tcp_htcp" where
  "htcp_UpdateBeta h =
     (let h = h\<lparr>m_beta := m_defaultBackoff h\<rparr>
      in if m_throughput h > m_lastThroughput h \<and> m_lastThroughput h > 0 then
           let diff = m_throughput h - m_lastThroughput h
           in if d_le (of_u32 (diff div m_lastThroughput h)) (m_throughputRatio h)
              then h\<lparr>m_beta := d_div (fl (of_int (m_minRtt h))) (fl (of_int (m_maxRtt h)))\<rparr> else h
         else h)"

definition htcp_GetSsThresh :: "(time \<Rightarrow> double) \<Rightarrow> time \<Rightarrow> tcp_htcp \<Rightarrow> tcb \<Rightarrow> uint32 \<Rightarrow> (tcp_htcp \<times> uint32) option" where
  "htcp_GetSsThresh secs now h tcb bytesInFlight = do {
     let h = h\<lparr>m_lastCon := now\<rparr>;
     let h = htcp_UpdateBeta h;
     h \<leftarrow> htcp_UpdateAlpha secs now h;
     let segWin = 2 * m_segmentSize tcb;
     bFlight \<leftarrow> to_u32 (d_mul (of_u32 bytesInFlight) (m_beta h));
     let ssThresh = max segWin bFlight;
     Some (h\<lparr>m_minRtt := t_Max, m_maxRtt := Time_Min, m_lastThroughput := m_throughput h, m_throughput := 0, m_dataSent := 0\<rparr>,
       ssThresh)
   }"

definition htcp_PktsAcked ::
    "(time \<Rightarrow> double) \<Rightarrow> time \<Rightarrow> tcp_htcp \<Rightarrow> tcb \<Rightarrow> uint32 \<Rightarrow> time \<Rightarrow> tcp_htcp option" where
  "htcp_PktsAcked secs now h tcb segmentsAcked rtt = do {
     let h = (if m_congState tcb = CA_OPEN then h\<lparr>m_dataSent := m_dataSent h + segmentsAcked * m_segmentSize tcb\<rparr> else h);
     throughput \<leftarrow> to_u32 (d_div (of_u32 (m_dataSent h)) (d_sub (secs now) (secs (m_lastCon h))));
     let h = h\<lparr>m_throughput := throughput\<rparr>;
     h \<leftarrow> htcp_UpdateAlpha secs now h;
     let h = (if rtt < m_minRtt h then h\<lparr>m_minRtt := rtt\<rparr> else h);
     Some (if rtt > m_maxRtt h then h\<lparr>m_maxRtt := rtt\<rparr> else h)
   }"

text \<open>
  An acknowledgement at the time of the last loss, which \<open>GetSsThresh\<close> sets, divides by zero, and the
  quotient, infinite or not a number, has no conversion.
\<close>

lemma htcp_PktsAcked_at_loss:
  assumes "m_lastCon h = now" "\<exists>x. secs now = Fin x"
  shows "htcp_PktsAcked secs now h tcb n rtt = None"
proof -
  obtain x where "secs now = Fin x" using assms(2) by blast
  then have "d_sub (secs now) (secs now) = Fin 0" by (simp add: d_sub_def fl_def rnd_def pow2_def)
  then have "to_u32 (d_div (of_u32 w) (d_sub (secs now) (secs now))) = None" for w by (simp add: of_u32_def)
  with assms(1) show ?thesis by (simp add: htcp_PktsAcked_def Let_def)
qed

text \<open>A throughput that grew by less than the whole of the last one counts as unchanged.\<close>

lemma htcp_ratio_truncated:
  assumes "0 < m_lastThroughput h" "m_lastThroughput h < m_throughput h"
    and "m_throughput h - m_lastThroughput h < m_lastThroughput h" "d_le (Fin 0) (m_throughputRatio h)"
  shows "m_beta (htcp_UpdateBeta h) = d_div (fl (of_int (m_minRtt h))) (fl (of_int (m_maxRtt h)))"
proof -
  have "(m_throughput h - m_lastThroughput h) div m_lastThroughput h = 0" using assms(3) by (simp add: div_word_less)
  then show ?thesis using assms by (simp add: htcp_UpdateBeta_def Let_def of_u32_def)
qed

section \<open>Hybla\<close>

record tcp_hybla =
  hy_newreno :: tcp_newreno
  m_rho :: double
  m_rRtt :: time
  m_cWndCnt :: double

definition new_hybla :: "tcp_newreno \<Rightarrow> tcp_hybla" where
  "new_hybla nr = \<lparr>hy_newreno = nr, m_rho = Fin 1, m_rRtt = 50 * 10 ^ 6, m_cWndCnt = Fin 0\<rparr>"

definition hybla_copy :: "tcp_newreno \<Rightarrow> tcp_hybla \<Rightarrow> tcp_hybla" where
  "hybla_copy raw sock = sock\<lparr>hy_newreno := newreno_copy raw (hy_newreno sock)\<rparr>"

text \<open>\<open>minRtt\<close> is the member of that name of \<open>TcpSocketState\<close>.\<close>

definition hybla_RecalcParam :: "time \<Rightarrow> tcp_hybla \<Rightarrow> tcp_hybla option" where
  "hybla_RecalcParam minRtt h = do {
     let h = h\<lparr>m_rho := d_max (d_div (fl (of_int (GetMilliSeconds minRtt))) (fl (of_int (GetMilliSeconds (m_rRtt h))))) (Fin 1)\<rparr>;
     ns_assert (d_less (Fin 0) (m_rho h));
     Some h
   }"

definition hybla_PktsAcked :: "time \<Rightarrow> tcp_hybla \<Rightarrow> time \<Rightarrow> tcp_hybla option" where
  "hybla_PktsAcked minRtt h rtt = (if rtt = minRtt then hybla_RecalcParam minRtt h else Some h)"

definition hybla_SlowStart :: "(double \<Rightarrow> double \<Rightarrow> double) \<Rightarrow> tcp_hybla slow_start" where
  "hybla_SlowStart pw h tcb segmentsAcked = do {
     ns_assert (m_cWnd tcb \<le> m_ssThresh tcb);
     (if segmentsAcked \<ge> 1 then do {
        let increment = d_sub (pw (Fin 2) (m_rho h)) (Fin 1);
        incr \<leftarrow> to_u32 (d_mul increment (of_u32 (m_segmentSize tcb)));
        Some (h, tcb\<lparr>m_cWnd := min (m_cWnd tcb + incr) (m_ssThresh tcb)\<rparr>, segmentsAcked - 1)
      } else Some (h, tcb, 0))
   }"

text \<open>The loop over the acknowledged segments, which does not change the window.\<close>

primrec hybla_count :: "(double \<Rightarrow> double \<Rightarrow> double) \<Rightarrow> tcb \<Rightarrow> nat \<Rightarrow> tcp_hybla \<Rightarrow> tcp_hybla option" where
  "hybla_count pw tcb 0 h = Some h"
| "hybla_count pw tcb (Suc segmentsAcked) h = do {
     segCwnd \<leftarrow> GetCwndInSegments tcb;
     let increment = d_div (pw (m_rho h) (Fin 2)) (of_u32 segCwnd);
     hybla_count pw tcb segmentsAcked (h\<lparr>m_cWndCnt := d_add (m_cWndCnt h) increment\<rparr>)
   }"

definition hybla_CongestionAvoidance :: "(double \<Rightarrow> double \<Rightarrow> double) \<Rightarrow> tcp_hybla increase" where
  "hybla_CongestionAvoidance pw h tcb segmentsAcked = do {
     h \<leftarrow> hybla_count pw tcb (unat segmentsAcked) h;
     (if d_le (Fin 1) (m_cWndCnt h) then do {
        inc \<leftarrow> to_u32 (m_cWndCnt h);
        let h = h\<lparr>m_cWndCnt := d_sub (m_cWndCnt h) (of_u32 inc)\<rparr>;
        ns_assert (d_le (Fin 0) (m_cWndCnt h));
        Some (h, tcb\<lparr>m_cWnd := m_cWnd tcb + inc * m_segmentSize tcb\<rparr>)
      } else Some (h, tcb))
   }"

definition hybla_IncreaseWindow :: "(double \<Rightarrow> double \<Rightarrow> double) \<Rightarrow> tcp_hybla increase" where
  "hybla_IncreaseWindow pw = virtual_IncreaseWindow (hybla_SlowStart pw) (hybla_CongestionAvoidance pw)"

text \<open>Slow start stays at or below the threshold, whatever the increment.\<close>

lemma hybla_SlowStart_bound:
  "hybla_SlowStart pw h tcb n = Some (h', tcb', n') \<Longrightarrow> m_cWnd tcb' \<le> m_ssThresh tcb' \<and> m_ssThresh tcb' = m_ssThresh tcb"
  by (auto simp: hybla_SlowStart_def bind_eq_Some_conv Let_def split: if_splits)

end
