(* ===== verification/LowPrio.thy ===== *)
theory LowPrio
  imports RenoSub DoubleFrac
begin

text \<open>
  The congestion controls for traffic of low priority: \<open>TcpLp\<close> (\<open>tcp-lp.cc\<close>), which infers congestion
  from one-way delays, and \<open>TcpLedbat\<close> (\<open>tcp-ledbat.cc\<close>), which holds the queueing delay at a target.
  \<open>rcv\<close> and \<open>echo\<close> are the members \<open>m_rcvTimestampValue\<close> and \<open>m_rcvTimestampEchoReply\<close> of
  \<open>TcpSocketState\<close>.
\<close>

unbundle bit_operations_syntax

section \<open>TCP-LP\<close>

record tcp_lp =
  lp_newreno :: tcp_newreno
  lp_flag :: uint32
  m_sOwd :: uint32
  m_owdMin :: uint32
  m_owdMax :: uint32
  m_owdMaxRsv :: uint32
  m_lastDrop :: time
  m_inference :: time

definition new_lp :: "tcp_newreno \<Rightarrow> tcp_lp" where
  "new_lp nr =
     \<lparr>lp_newreno = nr, lp_flag = 0, m_sOwd = 0, m_owdMin = 0xffffffff, m_owdMax = 0, m_owdMaxRsv = 0, m_lastDrop = 0,
      m_inference = 0\<rparr>"

definition lp_copy :: "tcp_newreno \<Rightarrow> tcp_lp \<Rightarrow> tcp_lp" where
  "lp_copy raw sock = sock\<lparr>lp_newreno := newreno_copy raw (lp_newreno sock)\<rparr>"

definition LP_VALID_OWD :: uint32 where "LP_VALID_OWD = 2"

definition LP_WITHIN_THR :: uint32 where "LP_WITHIN_THR = 8"

definition LP_WITHIN_INF :: uint32 where "LP_WITHIN_INF = 16"

definition lp_CongestionAvoidance :: "tcp_lp increase" where
  "lp_CongestionAvoidance l tcb segmentsAcked =
     (if lp_flag l AND LP_WITHIN_INF = 0
      then map_option (Pair l) (newreno_CongestionAvoidance (lp_newreno l) tcb segmentsAcked) else Some (l, tcb))"

definition lp_IncreaseWindow :: "tcp_lp increase" where
  "lp_IncreaseWindow = virtual_IncreaseWindow (reno_ss lp_newreno) lp_CongestionAvoidance"

text \<open>The difference is one of unsigned integers before it becomes an \<open>int64_t\<close>.\<close>

definition OwdCalculator :: "tcp_lp \<Rightarrow> uint32 \<Rightarrow> uint32 \<Rightarrow> tcp_lp \<times> uint32" where
  "OwdCalculator l rcv echo =
     (let owd = uint (rcv - echo);
          owd = (if owd < 0 then - owd else owd);
          l = (if owd > 0 then l\<lparr>lp_flag := lp_flag l OR LP_VALID_OWD\<rparr>
               else l\<lparr>lp_flag := lp_flag l AND NOT LP_VALID_OWD\<rparr>)
      in (l, of_int owd))"

definition RttSample :: "tcp_lp \<Rightarrow> uint32 \<Rightarrow> uint32 \<Rightarrow> tcp_lp" where
  "RttSample l rcv echo =
     (let (l, mowd) = OwdCalculator l rcv echo
      in if lp_flag l AND LP_VALID_OWD = 0 then l
         else
           let l = (if mowd < m_owdMin l then l\<lparr>m_owdMin := mowd\<rparr> else l);
               l = (if mowd > m_owdMax l then
                      if mowd > m_owdMaxRsv l then
                        let l = (if m_owdMaxRsv l = 0 then l\<lparr>m_owdMax := mowd\<rparr> else l\<lparr>m_owdMax := m_owdMaxRsv l\<rparr>)
                        in l\<lparr>m_owdMaxRsv := mowd\<rparr>
                      else l\<lparr>m_owdMax := mowd\<rparr>
                    else l)
           in if m_sOwd l \<noteq> 0 then l\<lparr>m_sOwd := m_sOwd l + (mowd - drop_bit 3 (m_sOwd l))\<rparr>
              else l\<lparr>m_sOwd := push_bit 3 mowd\<rparr>)"

definition lp_PktsAcked :: "time \<Rightarrow> uint32 \<Rightarrow> uint32 \<Rightarrow> tcp_lp \<Rightarrow> tcb \<Rightarrow> time \<Rightarrow> (tcp_lp \<times> tcb) option" where
  "lp_PktsAcked now rcv echo l tcb rtt = do {
     let l = (if rtt \<noteq> 0 then RttSample l rcv echo else l);
     l \<leftarrow> (if GetMilliSeconds now > uint echo then do {
            t \<leftarrow> t_sub now (uint echo * 10 ^ 6);
            t \<leftarrow> int64 (3 * t);
            Some (l\<lparr>m_inference := t\<rparr>)
          } else Some l);
     since \<leftarrow> (if m_lastDrop l \<noteq> 0 then map_option (\<lambda>d. d < m_inference l) (t_sub now (m_lastDrop l)) else Some False);
     let l = (if since then l\<lparr>lp_flag := lp_flag l OR LP_WITHIN_INF\<rparr> else l\<lparr>lp_flag := lp_flag l AND NOT LP_WITHIN_INF\<rparr>);
     let l = (if drop_bit 3 (m_sOwd l) \<le> m_owdMin l + 15 * (m_owdMax l - m_owdMin l) div 100
              then l\<lparr>lp_flag := lp_flag l OR LP_WITHIN_THR\<rparr> else l\<lparr>lp_flag := lp_flag l AND NOT LP_WITHIN_THR\<rparr>);
     Some (if lp_flag l AND LP_WITHIN_THR \<noteq> 0 then (l, tcb)
           else
             let l = l\<lparr>m_owdMin := drop_bit 3 (m_sOwd l), m_owdMax := drop_bit 2 (m_sOwd l), m_owdMaxRsv := drop_bit 2 (m_sOwd l)\<rparr>;
                 tcb = (if lp_flag l AND LP_WITHIN_INF \<noteq> 0 then tcb\<lparr>m_cWnd := m_segmentSize tcb\<rparr>
                        else tcb\<lparr>m_cWnd := max (drop_bit 1 (m_cWnd tcb)) (m_segmentSize tcb)\<rparr>)
             in (l\<lparr>m_lastDrop := now\<rparr>, tcb))
   }"

text \<open>Within the inference period the window does not grow; otherwise it grows as NewReno's.\<close>

definition lp_ok :: "nat \<Rightarrow> tcp_lp \<Rightarrow> bool" where
  "lp_ok f l \<longleftrightarrow> newreno_ok f (lp_newreno l)"

interpretation lp: reno_subclass_total f "reno_ss lp_newreno" lp_CongestionAvoidance "lp_ok f" for f
proof
  fix s s' :: tcp_lp and tcb tcb' :: tcb and n n' :: uint32
  assume "lp_ok f s"
  then have ok: "newreno_ok f (lp_newreno s)" by (simp add: lp_ok_def)
  show "reno_ss lp_newreno s tcb n = Some (s', tcb', n') \<Longrightarrow> lp_ok f s'"
    and "lp_CongestionAvoidance s tcb n = Some (s', tcb') \<Longrightarrow> lp_ok f s'"
    using ok by (auto simp: reno_ss_def lp_CongestionAvoidance_def lp_ok_def split: if_splits)
  assume r: "ample f tcb n"
  note ss = newreno_SlowStart_room [OF ok r] and ca = newreno_CongestionAvoidance_room [OF ok r]
  show "\<exists>r. reno_ss lp_newreno s tcb n = Some r" "\<exists>r. lp_CongestionAvoidance s tcb n = Some r"
    using ss ca by (auto simp: reno_ss_def lp_CongestionAvoidance_def)
  show "reno_ss lp_newreno s tcb n = Some (s', tcb', n') \<Longrightarrow> \<exists>k. grown tcb (f * k) tcb' \<and> k + unat n' \<le> unat n"
    using ss by (auto simp: reno_ss_def)
  show "lp_CongestionAvoidance s tcb n = Some (s', tcb') \<Longrightarrow> grown tcb (f * (unat n + 1)) tcb'"
    using ca grown_weaken [OF grown_refl] by (auto simp: lp_CongestionAvoidance_def split: if_splits)
qed

text \<open>A peer whose clock is behind by \<open>d\<close> milliseconds has a delay of \<open>2 ^ 32 - d\<close>, not \<open>d\<close>.\<close>

lemma OwdCalculator_wraps:
  assumes "rcv < echo" shows "unat (snd (OwdCalculator l rcv echo)) = 2 ^ 32 - (unat echo - unat rcv)"
proof -
  have "snd (OwdCalculator l rcv echo) = rcv - echo" by (simp add: OwdCalculator_def Let_def not_less)
  moreover have "unat (rcv - echo) = 2 ^ 32 - (unat echo - unat rcv)"
    using assms unat_lt32 [of echo] by (simp add: unat_sub_if_size word_size word_less_nat_alt not_le)
  ultimately show ?thesis by simp
qed

section \<open>LEDBAT: the delay filters\<close>

text \<open>Access to a vector outside its bounds is undefined.\<close>

definition vec_at :: "uint32 list \<Rightarrow> uint32 \<Rightarrow> uint32 option" where
  "vec_at xs i = (if unat i < length xs then Some (xs ! unat i) else None)"

record owd_buf =
  buffer :: "uint32 list"
  min_at :: uint32   \<comment> \<open>\<open>min\<close>\<close>

definition InitCircBuf :: owd_buf where
  "InitCircBuf = \<lparr>buffer = [], min_at = 0\<rparr>"

definition MinCircBuf :: "owd_buf \<Rightarrow> uint32 option" where
  "MinCircBuf b = (if buffer b = [] then Some 0xffffffff else vec_at (buffer b) (min_at b))"

text \<open>\<open>for (uint32_t i = 1; i < maxlen - 1; i++) if (buffer[i] < buffer[min]) min = i;\<close>\<close>

partial_function (option) scan_min :: "uint32 list \<Rightarrow> uint32 \<Rightarrow> uint32 \<Rightarrow> uint32 \<Rightarrow> uint32 option" where
  "scan_min xs limit i m =
     (if i < limit then do {
        a \<leftarrow> vec_at xs i;
        b \<leftarrow> vec_at xs m;
        scan_min xs limit (i + 1) (if a < b then i else m)
      } else Some m)"

declare scan_min.simps [code]

definition AddDelay :: "owd_buf \<Rightarrow> uint32 \<Rightarrow> uint32 \<Rightarrow> owd_buf option" where
  "AddDelay cb owd maxlen =
     (if buffer cb = [] then Some (cb\<lparr>buffer := [owd], min_at := 0\<rparr>)
      else do {
        let cb = cb\<lparr>buffer := buffer cb @ [owd]\<rparr>;
        least \<leftarrow> vec_at (buffer cb) (min_at cb);
        let cb = (if least > owd then cb\<lparr>min_at := of_nat (length (buffer cb) - 1)\<rparr> else cb);
        (if length (buffer cb) \<ge> unat maxlen then do {
           let cb = cb\<lparr>buffer := tl (buffer cb), min_at := 0\<rparr>;
           m \<leftarrow> scan_min (buffer cb) (maxlen - 1) 1 (min_at cb);
           Some (cb\<lparr>min_at := m\<rparr>)
         } else Some cb)
      })"

text \<open>The filter points at the smallest sample, and keeps one sample fewer than its length says.\<close>

definition owd_ok :: "uint32 \<Rightarrow> owd_buf \<Rightarrow> bool" where
  "owd_ok maxlen b \<longleftrightarrow>
     length (buffer b) \<le> max 1 (unat maxlen - 1) \<and>
     (buffer b \<noteq> [] \<longrightarrow> unat (min_at b) < length (buffer b) \<and> (\<forall>x \<in> set (buffer b). buffer b ! unat (min_at b) \<le> x))"

lemma scan_min_returns:
  assumes "unat limit \<le> length xs" "unat m < length xs" "length xs < 2 ^ 32"
    and "unat i \<le> max 1 (unat limit)" "\<forall>j < unat i. j < length xs \<longrightarrow> xs ! unat m \<le> xs ! j"
  shows "\<exists>k. scan_min xs limit i m = Some k \<and> unat k < length xs \<and>
    (\<forall>j < max (unat i) (unat limit). j < length xs \<longrightarrow> xs ! unat k \<le> xs ! j)"
  using assms
proof (induction "unat limit - unat i" arbitrary: i m)
  case 0
  then have "\<not> i < limit" by (simp add: word_less_nat_alt)
  then have "scan_min xs limit i m = Some m" by (simp add: scan_min.simps [of xs limit i])
  moreover have "max (unat i) (unat limit) = unat i" using 0 by simp
  ultimately show ?case using 0 by auto
next
  case (Suc d)
  have il: "unat i < unat limit" using Suc.hyps(2) by simp
  then have i1: "unat (i + 1) = unat i + 1" using unat_lt32 [of limit] unat_plus32 [of i 1] by simp
  let ?m = "if xs ! unat i < xs ! unat m then i else m"
  have step: "scan_min xs limit i m = scan_min xs limit (i + 1) ?m"
    using il Suc.prems by (subst scan_min.simps) (simp add: vec_at_def word_less_nat_alt)
  have "\<exists>k. scan_min xs limit (i + 1) ?m = Some k \<and> unat k < length xs \<and>
      (\<forall>j < max (unat (i + 1)) (unat limit). j < length xs \<longrightarrow> xs ! unat k \<le> xs ! j)"
  proof (rule Suc.hyps(1))
    show "d = unat limit - unat (i + 1)" using Suc.hyps(2) i1 by simp
    show "unat ?m < length xs" using il Suc.prems by auto
    show "unat (i + 1) \<le> max 1 (unat limit)" using il i1 by simp
    show "\<forall>j < unat (i + 1). j < length xs \<longrightarrow> xs ! unat ?m \<le> xs ! j"
      using Suc.prems(5) i1 by (auto simp: less_Suc_eq)
  qed (use Suc.prems in auto)
  moreover have "max (unat (i + 1)) (unat limit) = max (unat i) (unat limit)" using il i1 by simp
  ultimately show ?case using step by simp
qed

lemma vec_at_Some [simp]: "unat i < length xs \<Longrightarrow> vec_at xs i = Some (xs ! unat i)"
  by (simp add: vec_at_def)

definition delay_window :: "uint32 list \<Rightarrow> uint32 \<Rightarrow> uint32 \<Rightarrow> uint32 list" where
  "delay_window xs owd maxlen = (if xs \<noteq> [] \<and> unat maxlen \<le> length xs + 1 then tl xs @ [owd] else xs @ [owd])"

lemma AddDelay_full:
  assumes "xs \<noteq> []" "length xs \<le> max 1 (unat maxlen - 1)" "unat maxlen \<le> length xs + 1" "maxlen \<noteq> 0" "length xs < 2 ^ 32"
  shows "\<exists>m. scan_min (tl xs @ [owd]) (maxlen - 1) 1 0 = Some m \<and> unat m < length xs \<and>
    (\<forall>x \<in> set (tl xs @ [owd]). (tl xs @ [owd]) ! unat m \<le> x)"
proof -
  have lim: "unat (maxlen - 1) = unat maxlen - 1" using assms(4) by (simp add: unat_minus_one)
  have len: "length (tl xs @ [owd]) = length xs" using assms(1) by (cases xs) simp_all
  have "\<exists>m. scan_min (tl xs @ [owd]) (maxlen - 1) 1 0 = Some m \<and> unat m < length (tl xs @ [owd]) \<and>
      (\<forall>j < max (unat (1 :: uint32)) (unat (maxlen - 1)). j < length (tl xs @ [owd]) \<longrightarrow>
        (tl xs @ [owd]) ! unat m \<le> (tl xs @ [owd]) ! j)"
  proof (rule scan_min_returns)
    show "unat (maxlen - 1) \<le> length (tl xs @ [owd])" using assms(3) by (simp only: lim len)
    show "length (tl xs @ [owd]) < 2 ^ 32" using assms(5) by (simp only: len)
    show "unat (0 :: uint32) < length (tl xs @ [owd])" by simp
  qed auto
  moreover have "j < max (unat (1 :: uint32)) (unat (maxlen - 1))" if "j < length xs" for j
    using that assms(2) lim by simp
  ultimately show ?thesis unfolding len by (metis in_set_conv_nth len)
qed

lemma AddDelay_ok:
  assumes "owd_ok maxlen b" "maxlen \<noteq> 0"
  shows "\<exists>b'. AddDelay b owd maxlen = Some b' \<and> owd_ok maxlen b' \<and> buffer b' = delay_window (buffer b) owd maxlen"
proof (cases "buffer b = []")
  case True
  then show ?thesis by (simp add: AddDelay_def owd_ok_def delay_window_def)
next
  case False
  let ?xs = "buffer b" and ?ys = "buffer b @ [owd]"
  have m: "unat (min_at b) < length ?xs" "\<forall>x \<in> set ?xs. ?xs ! unat (min_at b) \<le> x" and len: "length ?xs \<le> max 1 (unat maxlen - 1)"
    using assms(1) False by (simp_all add: owd_ok_def)
  have short: "length ?xs < 2 ^ 32" using len unat_lt32 [of maxlen] by (simp add: le_max_iff_disj) linarith
  then have n: "unat (of_nat (length ?xs) :: uint32) = length ?xs" by (rule unat_of_nat32)
  define k where "k = (if ?xs ! unat (min_at b) > owd then of_nat (length ?xs) else min_at b)"
  have k: "unat k < length ?ys" "\<forall>x \<in> set ?ys. ?ys ! unat k \<le> x"
    using m n by (auto simp: k_def nth_append intro: less_imp_le order_trans)
  have at: "vec_at ?ys (min_at b) = Some (?xs ! unat (min_at b))" using m(1) by (simp add: nth_append)
  show ?thesis
  proof (cases "unat maxlen \<le> length ?xs + 1")
    case full: True
    have tl: "tl ?ys = tl ?xs @ [owd]" using False by simp
    obtain j where j: "scan_min (tl ?xs @ [owd]) (maxlen - 1) 1 0 = Some j" "unat j < length ?xs"
      "\<forall>x \<in> set (tl ?xs @ [owd]). (tl ?xs @ [owd]) ! unat j \<le> x"
      using AddDelay_full [OF False len full assms(2) short] by blast
    have "AddDelay b owd maxlen = Some (b\<lparr>buffer := tl ?xs @ [owd], min_at := j\<rparr>)"
      using False full tl j(1) by (simp add: AddDelay_def at Let_def)
    moreover have "owd_ok maxlen (b\<lparr>buffer := tl ?xs @ [owd], min_at := j\<rparr>)"
      using j(2,3) len False by (simp add: owd_ok_def Suc_leI)
    ultimately show ?thesis using full False by (simp add: delay_window_def)
  next
    case notfull: False
    have "AddDelay b owd maxlen = Some (b\<lparr>buffer := ?ys, min_at := k\<rparr>)"
      using False notfull by (simp add: AddDelay_def at k_def Let_def)
    moreover have "owd_ok maxlen (b\<lparr>buffer := ?ys, min_at := k\<rparr>)" using k notfull by (simp add: owd_ok_def)
    ultimately show ?thesis using notfull by (simp add: delay_window_def)
  qed
qed

section \<open>LEDBAT\<close>

datatype SlowStartType = DO_NOT_SLOWSTART | DO_SLOWSTART

record tcp_ledbat =
  lb_newreno :: tcp_newreno
  m_target :: time
  m_gain :: double
  m_doSs :: SlowStartType
  m_baseHistoLen :: uint32
  m_noiseFilterLen :: uint32
  m_lastRollover :: "64 word"
  m_sndCwndCnt :: int
  m_baseHistory :: owd_buf
  m_noiseFilter :: owd_buf
  lb_flag :: uint32
  m_minCwnd :: uint32

definition LEDBAT_VALID_OWD :: uint32 where "LEDBAT_VALID_OWD = 2"

definition LEDBAT_CAN_SS :: uint32 where "LEDBAT_CAN_SS = 8"

definition new_ledbat :: "tcp_newreno \<Rightarrow> uint32 \<Rightarrow> uint32 \<Rightarrow> tcp_ledbat" where
  "new_ledbat nr histo noise =
     \<lparr>lb_newreno = nr, m_target = 10 ^ 8, m_gain = Fin 1, m_doSs = DO_SLOWSTART, m_baseHistoLen = histo,
      m_noiseFilterLen = noise, m_lastRollover = 0, m_sndCwndCnt = 0, m_baseHistory = InitCircBuf,
      m_noiseFilter = InitCircBuf, lb_flag = LEDBAT_CAN_SS, m_minCwnd = 2\<rparr>"

definition ledbat_copy :: "tcp_newreno \<Rightarrow> tcp_ledbat \<Rightarrow> tcp_ledbat" where
  "ledbat_copy raw sock = sock\<lparr>lb_newreno := newreno_copy raw (lb_newreno sock)\<rparr>"

definition SetDoSs :: "tcp_ledbat \<Rightarrow> SlowStartType \<Rightarrow> tcp_ledbat" where
  "SetDoSs l doSS =
     (let l = l\<lparr>m_doSs := doSS\<rparr>
      in if m_doSs l = DO_SLOWSTART then l\<lparr>lb_flag := lb_flag l OR LEDBAT_CAN_SS\<rparr>
         else l\<lparr>lb_flag := lb_flag l AND NOT LEDBAT_CAN_SS\<rparr>)"

definition CurrentDelay :: "tcp_ledbat \<Rightarrow> uint32 option" where
  "CurrentDelay l = MinCircBuf (m_noiseFilter l)"

definition BaseDelay :: "tcp_ledbat \<Rightarrow> uint32 option" where
  "BaseDelay l = MinCircBuf (m_baseHistory l)"

text \<open>\<open>static_cast<uint64_t>\<close> of a double.\<close>

fun to_u64 :: "double \<Rightarrow> 64 word option" where
  "to_u64 (Fin a) = (if - 1 < a \<and> a < 2 ^ 64 then Some (of_int (if 0 \<le> a then \<lfloor>a\<rfloor> else 0)) else None)"
| "to_u64 _ = None"

text \<open>The last part of \<open>UpdateBaseDelay\<close>: the newest sample of the history is lowered.\<close>

definition lower_newest :: "owd_buf \<Rightarrow> uint32 \<Rightarrow> owd_buf option" where
  "lower_newest b owd = (
     let last = of_nat (length (buffer b) - 1) in do {
       newest \<leftarrow> vec_at (buffer b) last;
       (if owd < newest then do {
          let b = b\<lparr>buffer := (buffer b)[unat last := owd]\<rparr>;
          least \<leftarrow> vec_at (buffer b) (min_at b);
          Some (if owd < least then b\<lparr>min_at := last\<rparr> else b)
        } else Some b)
     })"

definition UpdateBaseDelay :: "(time \<Rightarrow> double) \<Rightarrow> time \<Rightarrow> tcp_ledbat \<Rightarrow> uint32 \<Rightarrow> tcp_ledbat option" where
  "UpdateBaseDelay secs now l owd =
     (if buffer (m_baseHistory l) = [] then do {
        b \<leftarrow> AddDelay (m_baseHistory l) owd (m_baseHistoLen l);
        Some (l\<lparr>m_baseHistory := b\<rparr>)
      } else do {
        timestamp \<leftarrow> to_u64 (secs now);
        (if timestamp - m_lastRollover l > 60 then do {
           b \<leftarrow> AddDelay (m_baseHistory l) owd (m_baseHistoLen l);
           Some (l\<lparr>m_lastRollover := timestamp, m_baseHistory := b\<rparr>)
         } else do {
           b \<leftarrow> lower_newest (m_baseHistory l) owd;
           Some (l\<lparr>m_baseHistory := b\<rparr>)
         })
      })"

definition ledbat_PktsAcked ::
    "(time \<Rightarrow> double) \<Rightarrow> time \<Rightarrow> uint32 \<Rightarrow> uint32 \<Rightarrow> tcp_ledbat \<Rightarrow> time \<Rightarrow> tcp_ledbat option" where
  "ledbat_PktsAcked secs now rcv echo l rtt = do {
     let l = (if rcv = 0 \<or> echo = 0 then l\<lparr>lb_flag := lb_flag l AND NOT LEDBAT_VALID_OWD\<rparr>
              else l\<lparr>lb_flag := lb_flag l OR LEDBAT_VALID_OWD\<rparr>);
     (if rtt \<ge> 0 then do {
        b \<leftarrow> AddDelay (m_noiseFilter l) (rcv - echo) (m_noiseFilterLen l);
        UpdateBaseDelay secs now (l\<lparr>m_noiseFilter := b\<rparr>) (rcv - echo)
      } else Some l)
   }"

definition ledbat_CongestionAvoidance :: "tcp_ledbat increase" where
  "ledbat_CongestionAvoidance l tcb segmentsAcked =
     (if lb_flag l AND LEDBAT_VALID_OWD = 0
      then map_option (Pair l) (newreno_CongestionAvoidance (lb_newreno l) tcb segmentsAcked)
      else do {
        current_delay \<leftarrow> CurrentDelay l;
        base_delay \<leftarrow> BaseDelay l;
        let target = GetMilliSeconds (m_target l);
        offset \<leftarrow> (if current_delay > base_delay then int64 (target - (uint current_delay - uint base_delay))
                   else int64 (target + (uint base_delay - uint current_delay)));
        let offset = d_mul (fl (of_int offset)) (m_gain l);
        cnt \<leftarrow> to_i32 (d_mul (d_mul offset (of_u32 segmentsAcked)) (of_u32 (m_segmentSize tcb)));
        let l = l\<lparr>m_sndCwndCnt := cnt\<rparr>;
        scale \<leftarrow> int64 (target * uint (m_cWnd tcb));
        let inc = d_div (d_mul (Fin (of_int (m_sndCwndCnt l))) (Fin 1)) (fl (of_int scale));
        cwnd \<leftarrow> to_u32 (d_add (of_u32 (m_cWnd tcb)) (d_mul inc (of_u32 (m_segmentSize tcb))));
        let max_cwnd = (m_highTxMark tcb - m_lastAckedSeq tcb) + segmentsAcked * m_segmentSize tcb;
        let cwnd = min cwnd max_cwnd;
        let cwnd = max cwnd (m_minCwnd l * m_segmentSize tcb);
        let tcb = tcb\<lparr>m_cWnd := cwnd\<rparr>;
        Some (l, if m_cWnd tcb \<le> m_ssThresh tcb then tcb\<lparr>m_ssThresh := m_cWnd tcb - 1\<rparr> else tcb)
      })"

definition ledbat_IncreaseWindow :: "tcp_ledbat increase" where
  "ledbat_IncreaseWindow l tcb segmentsAcked =
     (let l = (if m_cWnd tcb \<le> m_segmentSize tcb then l\<lparr>lb_flag := lb_flag l OR LEDBAT_CAN_SS\<rparr> else l)
      in if m_doSs l = DO_SLOWSTART \<and> m_cWnd tcb \<le> m_ssThresh tcb \<and> lb_flag l AND LEDBAT_CAN_SS \<noteq> 0 then
           map_option (\<lambda>(tcb, n). (l, tcb)) (newreno_SlowStart (lb_newreno l) tcb segmentsAcked)
         else ledbat_CongestionAvoidance (l\<lparr>lb_flag := lb_flag l AND NOT LEDBAT_CAN_SS\<rparr>) tcb segmentsAcked)"

section \<open>The filters over all acknowledgements\<close>

lemma owd_ok_min:
  assumes "owd_ok maxlen b" "buffer b \<noteq> []" shows "MinCircBuf b = Some (Min (set (buffer b)))"
proof -
  have m: "unat (min_at b) < length (buffer b)" "\<forall>x \<in> set (buffer b). buffer b ! unat (min_at b) \<le> x"
    using assms by (simp_all add: owd_ok_def)
  then have "Min (set (buffer b)) = buffer b ! unat (min_at b)" by (intro Min_eqI) simp_all
  then show ?thesis using assms(2) m(1) by (simp add: MinCircBuf_def)
qed

text \<open>Lowering the newest sample moves the minimum to it or leaves it where it was.\<close>

lemma owd_ok_lower:
  assumes ok: "owd_ok maxlen b" and ne: "buffer b \<noteq> []" and i: "unat i < length (buffer b)" and owd: "owd < buffer b ! unat i"
  defines "xs \<equiv> (buffer b)[unat i := owd]"
  shows "owd_ok maxlen (b\<lparr>buffer := xs, min_at := if owd < xs ! unat (min_at b) then i else min_at b\<rparr>)"
proof -
  define m where "m = unat (min_at b)"
  have m: "m < length (buffer b)" "\<And>x. x \<in> set (buffer b) \<Longrightarrow> buffer b ! m \<le> x"
    using ok ne by (simp_all add: owd_ok_def m_def)
  have xm: "xs ! m = (if m = unat i then owd else buffer b ! m)" using m(1) i by (simp add: xs_def nth_list_update)
  have "xs ! (if owd < xs ! m then unat i else m) \<le> x" if "x \<in> set xs" for x
  proof -
    have "x = owd \<or> x \<in> set (buffer b)" using that set_update_subset_insert xs_def by fastforce
    moreover have "owd < xs ! m \<Longrightarrow> m \<noteq> unat i \<and> xs ! unat i = owd" using xm i by (auto simp: xs_def)
    ultimately show ?thesis using m(2) [of x] xm owd by (auto intro: less_imp_le less_le_trans order_trans)
  qed
  then show ?thesis using ok i m(1)
    by (cases "owd < xs ! m") (auto simp: owd_ok_def m_def [symmetric] xs_def)
qed

lemma lower_newest_ok:
  assumes "owd_ok maxlen b" "buffer b \<noteq> []"
  shows "\<exists>b'. lower_newest b owd = Some b' \<and> owd_ok maxlen b'"
proof -
  define i :: uint32 where "i = of_nat (length (buffer b) - 1)"
  have "length (buffer b) - 1 < 2 ^ 32"
    using assms(1) unat_lt32 [of maxlen] by (auto simp: owd_ok_def le_max_iff_disj)
  then have "unat i = length (buffer b) - 1" by (simp add: i_def unat_of_nat32)
  then have i: "unat i < length (buffer b)" using assms(2) by (cases "buffer b") simp_all
  let ?xs = "(buffer b)[unat i := owd]"
  have m: "unat (min_at b) < length ?xs" using assms by (simp add: owd_ok_def)
  have "lower_newest b owd =
      (if owd < buffer b ! unat i
       then Some (b\<lparr>buffer := ?xs, min_at := if owd < ?xs ! unat (min_at b) then i else min_at b\<rparr>) else Some b)"
    unfolding lower_newest_def i_def [symmetric] Let_def using i m by simp
  then show ?thesis using owd_ok_lower [OF assms i] assms(1) by auto
qed

definition filters_ok :: "tcp_ledbat \<Rightarrow> bool" where
  "filters_ok l \<longleftrightarrow>
     m_noiseFilterLen l \<noteq> 0 \<and> m_baseHistoLen l \<noteq> 0 \<and>
     owd_ok (m_noiseFilterLen l) (m_noiseFilter l) \<and> owd_ok (m_baseHistoLen l) (m_baseHistory l)"

lemma UpdateBaseDelay_ok:
  assumes "filters_ok l" "to_u64 (secs now) \<noteq> None"
  shows "\<exists>l'. UpdateBaseDelay secs now l owd = Some l' \<and> filters_ok l' \<and>
    m_noiseFilterLen l' = m_noiseFilterLen l \<and> m_baseHistoLen l' = m_baseHistoLen l"
proof -
  let ?b = "m_baseHistory l"
  obtain t where t: "to_u64 (secs now) = Some t" using assms(2) by blast
  have len: "m_baseHistoLen l \<noteq> 0" and ok: "owd_ok (m_baseHistoLen l) ?b" using assms(1) by (simp_all add: filters_ok_def)
  obtain b' where b': "AddDelay ?b owd (m_baseHistoLen l) = Some b'" "owd_ok (m_baseHistoLen l) b'"
    using AddDelay_ok [OF ok len] by blast
  show ?thesis
    using b' t lower_newest_ok [OF ok, of owd] assms(1)
    by (cases "buffer ?b = []"; cases "t - m_lastRollover l > 60") (auto simp: UpdateBaseDelay_def filters_ok_def)
qed

lemma ledbat_PktsAcked_ok:
  assumes "filters_ok l" "to_u64 (secs now) \<noteq> None"
  shows "\<exists>l'. ledbat_PktsAcked secs now rcv echo l rtt = Some l' \<and> filters_ok l' \<and>
    m_noiseFilterLen l' = m_noiseFilterLen l \<and> m_baseHistoLen l' = m_baseHistoLen l"
proof -
  define k where "k = (if rcv = 0 \<or> echo = 0 then l\<lparr>lb_flag := lb_flag l AND NOT LEDBAT_VALID_OWD\<rparr>
              else l\<lparr>lb_flag := lb_flag l OR LEDBAT_VALID_OWD\<rparr>)"
  have k: "filters_ok k" "m_noiseFilterLen k = m_noiseFilterLen l" "m_baseHistoLen k = m_baseHistoLen l"
    using assms(1) by (simp_all add: k_def filters_ok_def)
  obtain b where b: "AddDelay (m_noiseFilter k) (rcv - echo) (m_noiseFilterLen k) = Some b" "owd_ok (m_noiseFilterLen k) b"
    using AddDelay_ok k(1) by (fastforce simp: filters_ok_def)
  have "filters_ok (k\<lparr>m_noiseFilter := b\<rparr>)" using k(1) b(2) by (simp add: filters_ok_def)
  from UpdateBaseDelay_ok [where secs = secs, OF this assms(2), of "rcv - echo"] b(1) k show ?thesis
    by (auto simp: ledbat_PktsAcked_def k_def [symmetric])
qed

text \<open>The time of an acknowledgement, the two time stamps and the round trip it measures.\<close>

primrec ledbat_acks :: "(time \<Rightarrow> double) \<Rightarrow> tcp_ledbat \<Rightarrow> (time \<times> uint32 \<times> uint32 \<times> time) list \<Rightarrow> tcp_ledbat option" where
  "ledbat_acks secs l [] = Some l"
| "ledbat_acks secs l (a # as) = do {
     l \<leftarrow> (case a of (now, rcv, echo, rtt) \<Rightarrow> ledbat_PktsAcked secs now rcv echo l rtt);
     ledbat_acks secs l as
   }"

lemma ledbat_acks_ok:
  assumes "filters_ok l" "\<forall>(now, rest) \<in> set as. to_u64 (secs now) \<noteq> None"
  shows "\<exists>l'. ledbat_acks secs l as = Some l' \<and> filters_ok l' \<and>
    m_noiseFilterLen l' = m_noiseFilterLen l \<and> m_baseHistoLen l' = m_baseHistoLen l"
  using assms
proof (induction as arbitrary: l)
  case (Cons a as)
  obtain now rcv echo rtt where a: "a = (now, rcv, echo, rtt)" by (cases a)
  have "to_u64 (secs now) \<noteq> None" using Cons.prems(2) a by auto
  from ledbat_PktsAcked_ok [where secs = secs, OF Cons.prems(1) this, of rcv echo rtt] obtain k where
    k: "ledbat_PktsAcked secs now rcv echo l rtt = Some k" "filters_ok k" "m_noiseFilterLen k = m_noiseFilterLen l"
      "m_baseHistoLen k = m_baseHistoLen l" by blast
  have "\<forall>(now, rest) \<in> set as. to_u64 (secs now) \<noteq> None" using Cons.prems(2) by simp
  from Cons.IH [OF k(2) this] show ?case using k(1,3,4) by (simp add: a)
qed simp

end
