(* ===== verification/Dctcp.thy ===== *)
theory Dctcp
  imports RenoSub DoubleFrac
begin

text \<open>
  \<open>TcpDctcp\<close> (\<open>tcp-dctcp.cc\<close>): the sender keeps an estimate of the share of marked bytes and cuts the
  window by half of it; the receiver acknowledges at once when the mark changes. The increase is that
  of \<open>TcpLinuxReno\<close>, from which the class is derived.
\<close>

section \<open>State and operations\<close>

record tcp_dctcp =
  dc_reno :: linux_reno
  m_ackedBytesEcn :: uint32
  m_ackedBytesTotal :: uint32
  m_priorRcvNxt :: seq32
  m_priorRcvNxtFlag :: bool
  m_alpha :: double
  m_nextSeq :: seq32
  m_nextSeqFlag :: bool
  m_ceState :: bool
  m_delayedAckReserved :: bool
  m_g :: double
  m_useEct0 :: bool
  m_initialized :: bool

definition new_dctcp :: "double \<Rightarrow> double \<Rightarrow> bool \<Rightarrow> tcp_dctcp" where
  "new_dctcp g alpha useEct0 =
     \<lparr>dc_reno = 0, m_ackedBytesEcn = 0, m_ackedBytesTotal = 0, m_priorRcvNxt = 0, m_priorRcvNxtFlag = False,
      m_alpha = alpha, m_nextSeq = 0, m_nextSeqFlag = False, m_ceState = False, m_delayedAckReserved = False,
      m_g = g, m_useEct0 = useEct0, m_initialized = False\<rparr>"

text \<open>The copy constructor of \<open>TcpLinuxReno\<close> does not copy the counter.\<close>

definition dctcp_copy :: "tcp_dctcp \<Rightarrow> tcp_dctcp" where
  "dctcp_copy sock = sock\<lparr>dc_reno := 0\<rparr>"

text \<open>\<open>Init\<close> also turns ECN on in the socket state: its mode and the code point are returned.\<close>

datatype EcnCodePoint = Ect0 | Ect1

definition dctcp_Init :: "tcp_dctcp \<Rightarrow> tcp_dctcp \<times> EcnCodePoint" where
  "dctcp_Init d = (d\<lparr>m_initialized := True\<rparr>, if m_useEct0 d then Ect0 else Ect1)"

definition InitializeDctcpAlpha :: "tcp_dctcp \<Rightarrow> double \<Rightarrow> tcp_dctcp option" where
  "InitializeDctcpAlpha d alpha = do { ns_assert (\<not> m_initialized d); Some (d\<lparr>m_alpha := alpha\<rparr>) }"

definition dctcp_GetSsThresh :: "tcp_dctcp \<Rightarrow> tcb \<Rightarrow> uint32 \<Rightarrow> uint32 option" where
  "dctcp_GetSsThresh d tcb bytesInFlight =
     to_u32 (d_mul (d_sub (Fin 1) (d_div (m_alpha d) (Fin 2))) (of_u32 (m_cWnd tcb)))"

definition dctcp_Reset :: "tcp_dctcp \<Rightarrow> tcb \<Rightarrow> tcp_dctcp" where
  "dctcp_Reset d tcb = d\<lparr>m_nextSeq := m_nextTxSequence tcb, m_ackedBytesEcn := 0, m_ackedBytesTotal := 0\<rparr>"

definition dctcp_PktsAcked :: "tcp_dctcp \<Rightarrow> tcb \<Rightarrow> uint32 \<Rightarrow> tcp_dctcp" where
  "dctcp_PktsAcked d tcb segmentsAcked =
     (let d = d\<lparr>m_ackedBytesTotal := m_ackedBytesTotal d + segmentsAcked * m_segmentSize tcb\<rparr>;
          d = (if m_ecnState tcb = ECN_ECE_RCVD
               then d\<lparr>m_ackedBytesEcn := m_ackedBytesEcn d + segmentsAcked * m_segmentSize tcb\<rparr> else d);
          d = (if \<not> m_nextSeqFlag d then d\<lparr>m_nextSeq := m_nextTxSequence tcb, m_nextSeqFlag := True\<rparr> else d)
      in if seq_ge (m_lastAckedSeq tcb) (m_nextSeq d) then
           let bytesEcn = (if m_ackedBytesTotal d > 0
                           then d_div (d_mul (of_u32 (m_ackedBytesEcn d)) (Fin 1)) (of_u32 (m_ackedBytesTotal d)) else Fin 0);
               d = d\<lparr>m_alpha := d_add (d_mul (d_sub (Fin 1) (m_g d)) (m_alpha d)) (d_mul (m_g d) bytesEcn)\<rparr>
           in dctcp_Reset d tcb
         else d)"

definition dctcp_IncreaseWindow :: "tcp_dctcp increase" where
  "dctcp_IncreaseWindow d tcb segmentsAcked =
     map_option (\<lambda>(cnt, tcb). (d\<lparr>dc_reno := cnt\<rparr>, tcb)) (linuxreno_IncreaseWindow (dc_reno d) tcb segmentsAcked)"

section \<open>The receiver\<close>

text \<open>
  \<open>rcvNxt\<close> is \<open>NextRxSequence\<close> of the receive buffer. A change of the mark while a delayed
  acknowledgement is due sends one for the bytes before it; it is returned with its ECE flag. The
  buffer is set back before the function returns.
\<close>

definition prior_ack :: "bool \<Rightarrow> tcp_dctcp \<Rightarrow> (seq32 \<times> bool) list" where
  "prior_ack ece d = (if m_delayedAckReserved d \<and> m_priorRcvNxtFlag d then [(m_priorRcvNxt d, ece)] else [])"

definition CeState0to1 :: "tcp_dctcp \<Rightarrow> tcb \<Rightarrow> seq32 \<Rightarrow> tcp_dctcp \<times> tcb \<times> (seq32 \<times> bool) list" where
  "CeState0to1 d tcb rcvNxt =
     (let acks = (if \<not> m_ceState d then prior_ack False d else []);
          d = (if \<not> m_priorRcvNxtFlag d then d\<lparr>m_priorRcvNxtFlag := True\<rparr> else d);
          d = d\<lparr>m_priorRcvNxt := rcvNxt, m_ceState := True\<rparr>
      in (d, tcb\<lparr>m_ecnState := ECN_CE_RCVD\<rparr>, acks))"

definition CeState1to0 :: "tcp_dctcp \<Rightarrow> tcb \<Rightarrow> seq32 \<Rightarrow> tcp_dctcp \<times> tcb \<times> (seq32 \<times> bool) list" where
  "CeState1to0 d tcb rcvNxt =
     (let acks = (if m_ceState d then prior_ack True d else []);
          d = (if \<not> m_priorRcvNxtFlag d then d\<lparr>m_priorRcvNxtFlag := True\<rparr> else d);
          d = d\<lparr>m_priorRcvNxt := rcvNxt, m_ceState := False\<rparr>;
          tcb = (if m_ecnState tcb = ECN_CE_RCVD \<or> m_ecnState tcb = ECN_SENDING_ECE
                 then tcb\<lparr>m_ecnState := ECN_IDLE\<rparr> else tcb)
      in (d, tcb, acks))"

datatype dctcp_event = ECN_IS_CE | ECN_NO_CE | DELAYED_ACK | NON_DELAYED_ACK | OTHER_EVENT

definition UpdateAckReserved :: "tcp_dctcp \<Rightarrow> dctcp_event \<Rightarrow> tcp_dctcp" where
  "UpdateAckReserved d ev =
     (case ev of
        DELAYED_ACK \<Rightarrow> if \<not> m_delayedAckReserved d then d\<lparr>m_delayedAckReserved := True\<rparr> else d
      | NON_DELAYED_ACK \<Rightarrow> if m_delayedAckReserved d then d\<lparr>m_delayedAckReserved := False\<rparr> else d
      | _ \<Rightarrow> d)"

definition dctcp_CwndEvent :: "tcp_dctcp \<Rightarrow> tcb \<Rightarrow> seq32 \<Rightarrow> dctcp_event \<Rightarrow> tcp_dctcp \<times> tcb \<times> (seq32 \<times> bool) list" where
  "dctcp_CwndEvent d tcb rcvNxt ev =
     (case ev of
        ECN_IS_CE \<Rightarrow> CeState0to1 d tcb rcvNxt
      | ECN_NO_CE \<Rightarrow> CeState1to0 d tcb rcvNxt
      | OTHER_EVENT \<Rightarrow> (d, tcb, [])
      | _ \<Rightarrow> (UpdateAckReserved d ev, tcb, []))"

section \<open>The estimate stays between 0 and 1\<close>

lemma round_even_upper: "of_int (round_even y) \<le> y + 1 / 2"
  unfolding round_even_def Let_def by (simp split: if_splits) linarith

lemma qexp_unit: "0 < x \<Longrightarrow> x < 1 \<Longrightarrow> qexp x \<le> - 53"
  using exponent_le [of x 0] by (simp add: qexp_def pow2_def)

lemma rnd_unit_upper:
  assumes "0 \<le> x" "x \<le> 1" shows "rnd x \<le> x + 1 / 2 ^ 54"
proof -
  consider "x = 0" | "x = 1" | "0 < x \<and> x < 1" using assms by fastforce
  then show ?thesis
  proof cases
    case 3
    let ?u = "pow2 (qexp x)"
    have u: "?u \<le> 1 / 2 ^ 53" using pow2_mono [OF qexp_unit, of x] 3 by (simp add: pow2_def)
    have "rnd x = of_int (round_even (x / ?u)) * ?u" using 3 by (simp add: rnd_pos)
    also have "\<dots> \<le> (x / ?u + 1 / 2) * ?u" by (intro mult_right_mono round_even_upper) (simp add: less_imp_le)
    also have "\<dots> = x + ?u / 2" by (simp add: field_simps)
    finally show ?thesis using u by simp
  qed (use rnd_nat [of 0] rnd_nat [of 1] in simp_all)
qed

lemma rnd_unit_idem:
  assumes "0 \<le> x" "x \<le> 1" shows "rnd (rnd x) = rnd x"
proof -
  consider "x = 0" | "x = 1" | "0 < x \<and> x < 1" using assms by fastforce
  then show ?thesis
  proof cases
    case 3
    define k where "k = nat (- qexp x)"
    define N where "N = nat (round_even (x / pow2 (qexp x)))"
    have q: "qexp x = - int k" "53 \<le> k" "k \<le> 1074" using qexp_unit [of x] 3 by (auto simp: k_def qexp_def)
    have p: "pow2 (qexp x) = 1 / 2 ^ k" by (simp add: q(1) pow2_neg)
    have nn: "0 \<le> round_even (x / pow2 (qexp x))" using round_even_mono [of 0 "x / pow2 (qexp x)"] round_even_int [of 0] 3
      by (simp add: less_imp_le)
    have r: "rnd x = of_nat N / 2 ^ k" using 3 nn by (simp add: rnd_pos p N_def)
    have "x < pow2 (exponent x + 1)" using exponent_bounds [of x] 3 by simp
    also have "\<dots> \<le> pow2 (qexp x + 53)" by (intro pow2_mono) (simp add: qexp_def)
    also have "\<dots> = 2 ^ 53 * pow2 (qexp x)" using pow2_int [of 53] by (simp add: pow2_add)
    finally have "x / pow2 (qexp x) \<le> of_int (2 ^ 53)" by (simp add: divide_le_eq)
    then have "round_even (x / pow2 (qexp x)) \<le> 2 ^ 53" using round_even_mono round_even_int by metis
    then have N: "N \<le> 2 ^ 53" by (simp add: N_def)
    show ?thesis
    proof (cases "N = 2 ^ 53")
      case True
      have "(2 ^ 53 :: rat) / 2 ^ k = of_nat 1 / 2 ^ (k - 53)" using q(2) by (simp add: power_diff)
      then have "rnd x = of_nat 1 / 2 ^ (k - 53)" using r True by simp
      then show ?thesis using q(3) by (intro rnd_exact [of _ 1 "k - 53"]) simp_all
    next
      case False
      then show ?thesis using r N q(3) by (intro rnd_exact [of _ N k]) simp_all
    qed
  qed (use rnd_nat [of 0] rnd_nat [of 1] in simp_all)
qed

lemma fl_unit: "0 \<le> x \<Longrightarrow> x \<le> 1 \<Longrightarrow> fl x = Fin (rnd x) \<and> 0 \<le> rnd x \<and> rnd x \<le> 1"
  using fl_below [of x 1] by simp

lemma rnd_one_up:
  assumes "y = 1 + 1 / 2 ^ 54" shows "rnd y = 1"
proof -
  have y: "1 < y" "y < 2" by (simp_all add: assms)
  have "pow2 0 < pow2 (exponent y + 1)" using exponent_bounds [of y] y by (simp add: pow2_def less_le_trans)
  then have "0 \<le> exponent y" by (simp add: pow2_less)
  moreover have "exponent y < 1" using y by (intro exponent_le) (simp_all add: pow2_def)
  ultimately have "qexp y = - 52" by (simp add: qexp_def)
  then have q: "pow2 (qexp y) = 1 / 2 ^ 52" using pow2_neg [of 52] by simp
  have "\<lfloor>y * 2 ^ 52\<rfloor> = 2 ^ 52" by (simp add: assms floor_eq_iff)
  then have "round_even (y * 2 ^ 52) = 2 ^ 52" by (simp add: assms round_even_def Let_def)
  then show ?thesis using rnd_pos [of y] y(1) unfolding q by simp
qed

text \<open>\<open>g\<close> is a double, so rounding does not change it.\<close>

lemma estimate_unit:
  assumes "0 \<le> g" "g \<le> 1" "rnd g = g" "unit_frac alpha" "unit_frac m"
  shows "unit_frac (d_add (d_mul (d_sub (Fin 1) (Fin g)) alpha) (d_mul (Fin g) m))"
proof -
  obtain a where a: "alpha = Fin a" "0 \<le> a" "a \<le> 1" using assms(4) by (auto simp: unit_frac_def)
  obtain b where b: "m = Fin b" "0 \<le> b" "b \<le> 1" using assms(5) by (auto simp: unit_frac_def)
  define c where "c = rnd (1 - g)"
  have c: "fl (1 - g) = Fin c" "0 \<le> c" "c \<le> 1" using fl_unit [of "1 - g"] assms(1,2) by (simp_all add: c_def)
  have cc: "rnd c = c" "c \<le> 1 - g + 1 / 2 ^ 54"
    using rnd_unit_idem [of "1 - g"] rnd_unit_upper [of "1 - g"] assms(1,2) by (simp_all add: c_def)
  have ca: "0 \<le> c * a" "c * a \<le> c" "0 \<le> g * b" "g * b \<le> g"
    using a b c(2) assms(1) by (simp_all add: mult_left_le)
  have p: "fl (c * a) = Fin (rnd (c * a))" "0 \<le> rnd (c * a)" "rnd (c * a) \<le> c"
    using fl_unit [of "c * a"] rnd_mono [OF ca(1,2)] cc(1) ca c(3) by simp_all
  have q: "fl (g * b) = Fin (rnd (g * b))" "0 \<le> rnd (g * b)" "rnd (g * b) \<le> g"
    using fl_unit [of "g * b"] rnd_mono [OF ca(3,4)] assms(2,3) ca by simp_all
  let ?s = "rnd (c * a) + rnd (g * b)"
  have s: "0 \<le> ?s" "?s \<le> 1 + 1 / 2 ^ 54" using p q cc(2) by linarith+
  have "rnd ?s \<le> 1" using rnd_mono [OF s] rnd_one_up [OF refl] by simp
  moreover have "fl ?s = Fin (rnd ?s) \<and> 0 \<le> rnd ?s" using fl_below [of ?s 2] s by simp
  ultimately show ?thesis by (simp add: unit_frac_def a(1) b(1) d_sub_def c(1) p(1) q(1))
qed

text \<open>
  The states of the sender: acknowledgements whose bytes fit the counters of the current window, and
  increases of the window. The events of the receiver do not touch the estimate.
\<close>

inductive dctcp_reach :: "double \<Rightarrow> double \<Rightarrow> tcp_dctcp \<Rightarrow> bool" for g alpha where
  start: "dctcp_reach g alpha (new_dctcp g alpha e)"
| init: "dctcp_reach g alpha d \<Longrightarrow> dctcp_reach g alpha (fst (dctcp_Init d))"
| acked: "\<lbrakk>dctcp_reach g alpha d; unat (m_ackedBytesTotal d) + unat n * unat (m_segmentSize tcb) < 2 ^ 32\<rbrakk> \<Longrightarrow>
    dctcp_reach g alpha (dctcp_PktsAcked d tcb n)"
| increase: "\<lbrakk>dctcp_reach g alpha d; dctcp_IncreaseWindow d tcb n = Some (d', tcb')\<rbrakk> \<Longrightarrow> dctcp_reach g alpha d'"
| event: "dctcp_reach g alpha d \<Longrightarrow> dctcp_reach g alpha (fst (dctcp_CwndEvent d tcb rcvNxt ev))"

definition estimate_ok :: "double \<Rightarrow> tcp_dctcp \<Rightarrow> bool" where
  "estimate_ok g d \<longleftrightarrow> m_g d = g \<and> unit_frac (m_alpha d) \<and> m_ackedBytesEcn d \<le> m_ackedBytesTotal d"

lemma marked_share:
  assumes "marked \<le> all" "0 < all"
  shows "unit_frac (d_div (d_mul (of_u32 marked) (Fin 1)) (of_u32 all))"
proof -
  have n: "unat marked < 2 ^ 53" "unat marked \<le> unat all" "0 < unat all"
    using assms unat_lt32 [of marked] by (simp_all add: word_le_nat_alt unat_gt_0)
  have one: "d_mul (of_u32 marked) (Fin 1) = Fin (of_nat (unat marked))" unfolding of_u32_nat using fl_nat [OF n(1)] by simp
  have le: "(of_nat (unat marked) :: rat) \<le> of_nat (unat all)" "(0 :: rat) < of_nat (unat all)"
    using n(2,3) by (simp_all only: of_nat_le_iff of_nat_0_less_iff)
  show ?thesis unfolding one of_u32_nat [of all] using of_nat_0_le_iff le by (rule unit_frac_div)
qed

lemma dctcp_PktsAcked_ok:
  assumes "estimate_ok (Fin g) d" "0 \<le> g" "g \<le> 1" "rnd g = g"
    and "unat (m_ackedBytesTotal d) + unat n * unat (m_segmentSize tcb) < 2 ^ 32"
  shows "estimate_ok (Fin g) (dctcp_PktsAcked d tcb n)"
proof -
  let ?x = "n * m_segmentSize tcb"
  have x: "unat ?x = unat n * unat (m_segmentSize tcb)" using assms(5) by (simp add: unat_word_ariths)
  have t: "unat (m_ackedBytesTotal d + ?x) = unat (m_ackedBytesTotal d) + unat ?x" using assms(5) x by (intro unat_plus32) simp
  have le: "unat (m_ackedBytesEcn d) \<le> unat (m_ackedBytesTotal d)" using assms(1) by (simp add: estimate_ok_def word_le_nat_alt)
  then have "unat (m_ackedBytesEcn d + ?x) = unat (m_ackedBytesEcn d) + unat ?x" using assms(5) x by (intro unat_plus32) simp
  then have e: "m_ackedBytesEcn d \<le> m_ackedBytesTotal d + ?x" "m_ackedBytesEcn d + ?x \<le> m_ackedBytesTotal d + ?x"
    using le t by (simp_all add: word_le_nat_alt)
  have u: "unit_frac (m_alpha d)" "m_g d = Fin g" using assms(1) by (simp_all add: estimate_ok_def)
  have zero: "unit_frac (Fin 0)" by (simp add: unit_frac_def)
  note est = estimate_unit [OF assms(2-4) u(1)]
  show ?thesis using e est [OF marked_share] est [OF zero] u
    by (simp add: dctcp_PktsAcked_def dctcp_Reset_def estimate_ok_def Let_def del: d_mul.simps d_div.simps)
qed

lemma dctcp_reach_ok:
  assumes "dctcp_reach (Fin g) alpha d" "0 \<le> g" "g \<le> 1" "rnd g = g" "unit_frac alpha"
  shows "estimate_ok (Fin g) d"
  using assms(1)
proof induction
  case (start e)
  then show ?case using assms(5) by (simp add: estimate_ok_def new_dctcp_def)
next
  case (acked d n tcb)
  then show ?case using dctcp_PktsAcked_ok assms(2-4) by blast
next
  case (increase d tcb n d' tcb')
  then show ?case by (auto simp: dctcp_IncreaseWindow_def estimate_ok_def)
next
  case (event d tcb rcvNxt ev)
  then show ?case
    by (cases ev) (simp_all add: dctcp_CwndEvent_def CeState0to1_def CeState1to0_def UpdateAckReserved_def estimate_ok_def Let_def)
qed (simp add: estimate_ok_def dctcp_Init_def)

text \<open>At least half of the window is kept, and never more than all of it.\<close>

lemma dctcp_GetSsThresh_bounds:
  assumes "unit_frac (m_alpha d)"
  shows "\<exists>w. dctcp_GetSsThresh d tcb n = Some w \<and> unat (m_cWnd tcb) div 2 \<le> unat w \<and> unat w \<le> unat (m_cWnd tcb)"
proof -
  define c where "c = unat (m_cWnd tcb)"
  have cb: "c < 2 ^ 53" "c < 2 ^ 32" using unat_lt32 [of "m_cWnd tcb"] by (simp_all add: c_def)
  obtain a where a: "m_alpha d = Fin a" "0 \<le> a" "a \<le> 1" using assms by (auto simp: unit_frac_def)
  have half: "rnd (1 / 2) = 1 / 2" using rnd_exact [of "1 / 2" 1 1] by simp
  have h: "fl (a / 2) = Fin (rnd (a / 2))" "0 \<le> rnd (a / 2)" "rnd (a / 2) \<le> 1 / 2"
    using fl_unit [of "a / 2"] rnd_mono [of "a / 2" "1 / 2"] a half by simp_all
  let ?f = "rnd (1 - rnd (a / 2))"
  have f: "fl (1 - rnd (a / 2)) = Fin ?f" "1 / 2 \<le> ?f" "?f \<le> 1"
    using fl_unit [of "1 - rnd (a / 2)"] rnd_mono [of "1 / 2" "1 - rnd (a / 2)"] h half by simp_all
  have m: "of_nat c * (1 / 2) \<le> of_nat c * ?f" "of_nat c * ?f \<le> of_nat c"
    using f by (simp_all only: mult_left_mono of_nat_0_le_iff mult_left_le)
  have x: "fl (of_nat c * ?f) = Fin (rnd (of_nat c * ?f))" "0 \<le> rnd (of_nat c * ?f)" "rnd (of_nat c * ?f) \<le> of_nat c"
    using fl_below [of "of_nat c * ?f" c] m(2) f cb(1) by simp_all
  have "rnd (of_nat c * (1 / 2)) = of_nat c * (1 / 2)" using cb(1) rnd_exact [of "of_nat c * (1 / 2)" c 1] by simp
  then have lo: "of_nat c / 2 \<le> rnd (of_nat c * ?f)" using rnd_mono [OF _ m(1)] by simp
  obtain w where w: "to_u32 (Fin (rnd (of_nat c * ?f))) = Some w" "unat w = nat \<lfloor>rnd (of_nat c * ?f)\<rfloor>" "unat w \<le> c"
    using to_u32_below [OF x(2,3) cb(2)] by blast
  have "(of_nat (c div 2) :: rat) \<le> of_nat c / 2" using rat_div_bounds(1) [of 2 c] by simp
  then have "int (c div 2) \<le> \<lfloor>rnd (of_nat c * ?f)\<rfloor>" using lo by (simp only: le_floor_iff of_int_of_nat_eq)
  then have "c div 2 \<le> unat w" using w(2) by linarith
  moreover have "dctcp_GetSsThresh d tcb n = Some w"
    unfolding dctcp_GetSsThresh_def of_u32_nat c_def [symmetric]
    using a(1) h(1) f(1) x(1) w(1) by (simp add: d_sub_def mult.commute [of ?f "of_nat c"] del: to_u32.simps)
  ultimately show ?thesis using w(3) unfolding c_def by blast
qed

end
