(* ===== verification/Bic.thy ===== *)
theory Bic
  imports DoubleFrac CongOps
begin

text \<open>
  \<open>TcpBic\<close> (\<open>tcp-bic.cc\<close>): a binary search for the window at which the last loss happened. The number
  of acknowledged segments that a further segment costs is computed in integers but for one quotient.
\<close>

section \<open>State and operations\<close>

record tcp_bic =
  m_fastConvergence :: bool
  m_beta :: double
  m_maxIncr :: uint32
  m_lowWnd :: uint32
  m_smoothPart :: uint32
  m_cWndCnt :: uint32
  m_lastMaxCwnd :: uint32
  m_lastCwnd :: uint32
  m_epochStart :: time
  m_b :: uint8

text \<open>The default attributes.\<close>

definition new_bic :: tcp_bic where
  "new_bic =
     \<lparr>m_fastConvergence = True, m_beta = fl (8 / 10), m_maxIncr = 16, m_lowWnd = 14, m_smoothPart = 5, m_cWndCnt = 0,
      m_lastMaxCwnd = 0, m_lastCwnd = 0, m_epochStart = Time_Min, m_b = 4\<rparr>"

text \<open>Below the window of the last loss: linear far from it, then by halves, then slower.\<close>

definition bic_below :: "tcp_bic \<Rightarrow> uint32 \<Rightarrow> uint32 option" where
  "bic_below b segCwnd = do {
     d \<leftarrow> udiv32 (m_lastMaxCwnd b - segCwnd) (ucast (m_b b));
     let dist = of_u32 d;
     (if d_less (of_u32 (m_maxIncr b)) dist then udiv32 segCwnd (m_maxIncr b)
      else if d_le dist (Fin 1) then udiv32 (segCwnd * m_smoothPart b) (ucast (m_b b))
      else to_u32 (d_div (of_u32 segCwnd) dist))
   }"

definition bic_above :: "tcp_bic \<Rightarrow> uint32 \<Rightarrow> uint32 option" where
  "bic_above b segCwnd =
     (if segCwnd < m_lastMaxCwnd b + ucast (m_b b) then udiv32 (segCwnd * m_smoothPart b) (ucast (m_b b))
      else if segCwnd < m_lastMaxCwnd b + m_maxIncr b * (ucast (m_b b) - 1)
      then udiv32 (segCwnd * (ucast (m_b b) - 1)) (segCwnd - m_lastMaxCwnd b)
      else udiv32 segCwnd (m_maxIncr b))"

definition bic_Update :: "time \<Rightarrow> tcp_bic \<Rightarrow> tcb \<Rightarrow> (tcp_bic \<times> uint32) option" where
  "bic_Update now b tcb = do {
     segCwnd \<leftarrow> GetCwndInSegments tcb;
     let b = b\<lparr>m_lastCwnd := segCwnd\<rparr>;
     let b = (if m_epochStart b = Time_Min then b\<lparr>m_epochStart := now\<rparr> else b);
     (if segCwnd < m_lowWnd b then Some (b, segCwnd)
      else do {
        cnt \<leftarrow> (if segCwnd < m_lastMaxCwnd b then bic_below b segCwnd else bic_above b segCwnd);
        let cnt = (if m_lastMaxCwnd b = 0 then if cnt > 20 then 20 else cnt else cnt);
        Some (b, if cnt = 0 then 1 else cnt)
      })
   }"

definition bic_IncreaseWindow :: "time \<Rightarrow> tcp_bic increase" where
  "bic_IncreaseWindow now b tcb segmentsAcked = do {
     let (tcb, segmentsAcked) =
       (if m_cWnd tcb < m_ssThresh tcb then (tcb\<lparr>m_cWnd := m_cWnd tcb + m_segmentSize tcb\<rparr>, segmentsAcked - 1)
        else (tcb, segmentsAcked));
     (if m_cWnd tcb \<ge> m_ssThresh tcb \<and> segmentsAcked > 0 then do {
        let b = b\<lparr>m_cWndCnt := m_cWndCnt b + segmentsAcked\<rparr>;
        (b, cnt) \<leftarrow> bic_Update now b tcb;
        Some (if m_cWndCnt b > cnt
              then (b\<lparr>m_cWndCnt := 0\<rparr>, tcb\<lparr>m_cWnd := m_cWnd tcb + m_segmentSize tcb\<rparr>) else (b, tcb))
      } else Some (b, tcb))
   }"

definition bic_GetSsThresh :: "tcp_bic \<Rightarrow> tcb \<Rightarrow> uint32 \<Rightarrow> (tcp_bic \<times> uint32) option" where
  "bic_GetSsThresh b tcb bytesInFlight = do {
     segCwnd \<leftarrow> GetCwndInSegments tcb;
     let b = b\<lparr>m_epochStart := Time_Min\<rparr>;
     b \<leftarrow> (if segCwnd < m_lastMaxCwnd b \<and> m_fastConvergence b
           then map_option (\<lambda>w. b\<lparr>m_lastMaxCwnd := w\<rparr>) (to_u32 (d_mul (m_beta b) (of_u32 segCwnd)))
           else Some (b\<lparr>m_lastMaxCwnd := segCwnd\<rparr>));
     ssThresh \<leftarrow>
       (if segCwnd < m_lowWnd b then Some (max (2 * m_segmentSize tcb) (bytesInFlight div 2))
        else to_u32 (d_mul (d_max (d_mul (of_u32 segCwnd) (m_beta b)) (Fin 2)) (of_u32 (m_segmentSize tcb))));
     Some (b, ssThresh)
   }"

section \<open>The cost of a segment\<close>

text \<open>The ranges that the attributes allow.\<close>

definition bic_ok :: "tcp_bic \<Rightarrow> bool" where
  "bic_ok b \<longleftrightarrow> 1 \<le> m_maxIncr b \<and> 1 \<le> m_smoothPart b \<and> 2 \<le> m_b b"

lemma of_u32_less: "d_less (of_u32 a) (of_u32 b) = (a < b)"
  by (simp only: of_u32_nat d_less.simps of_nat_less_iff word_less_nat_alt)

lemma unat_ucast8: "unat (ucast (x :: uint8) :: uint32) = unat x"
  using unsigned_less [of x, where 'a = nat] by (simp add: unsigned_ucast_eq take_bit_nat_eq_self)

lemma ucast_b: "2 \<le> (x :: uint8) \<Longrightarrow> (ucast x :: uint32) \<noteq> 0"
  using unat_ucast8 [of x] by (auto simp: word_le_nat_alt)

lemma bic_below_returns: "bic_ok b \<Longrightarrow> \<exists>c. bic_below b q = Some c"
proof -
  assume ok: "bic_ok b"
  define d where "d = (m_lastMaxCwnd b - q) div ucast (m_b b)"
  have m: "m_maxIncr b \<noteq> 0" "(ucast (m_b b) :: uint32) \<noteq> 0" using ok ucast_b by (auto simp: bic_ok_def)
  have "\<exists>c. to_u32 (d_div (of_u32 q) (of_u32 d)) = Some c" if "\<not> d_le (of_u32 d) (Fin 1)"
  proof -
    have "d \<noteq> 0" using that by (auto simp: d_le_def of_u32_def)
    then have "0 < unat d" by (simp add: unat_gt_0)
    then obtain r where r: "d_div (Fin (of_nat (unat q))) (Fin (of_nat (unat d))) = Fin r"
      "of_nat (unat q div unat d) \<le> r" "r < of_nat (Suc (unat q div unat d))"
      using d_div_nat [of "unat q" "unat d"] unat_lt32 [of q] unat_lt32 [of d] by auto
    have "unat q div unat d < 2 ^ 32" using le_less_trans [OF div_le_dividend unat_lt32, of q "unat d"] by simp
    from to_u32_floor [OF r(2,3) this] show ?thesis unfolding of_u32_nat r(1) by blast
  qed
  then show ?thesis using m by (auto simp: bic_below_def udiv32_def d_def [symmetric] Let_def)
qed

lemma bic_above_returns:
  assumes "bic_ok b" "m_lastMaxCwnd b \<le> q" "unat (m_lastMaxCwnd b) < 2 ^ 31"
  shows "\<exists>c. bic_above b q = Some c"
proof -
  have m: "m_maxIncr b \<noteq> 0" "(ucast (m_b b) :: uint32) \<noteq> 0" using assms(1) ucast_b by (auto simp: bic_ok_def)
  have u: "unat (ucast (m_b b) :: uint32) = unat (m_b b)" "unat (m_b b) < 256"
    using unsigned_less [of "m_b b", where 'a = nat] by (simp_all add: unat_ucast8)
  then have "unat (m_lastMaxCwnd b + ucast (m_b b)) = unat (m_lastMaxCwnd b) + unat (m_b b)"
    using assms(3) unat_plus32 [of "m_lastMaxCwnd b" "ucast (m_b b)"] by simp
  moreover have "2 \<le> unat (m_b b)" using assms(1) by (simp add: bic_ok_def word_le_nat_alt)
  ultimately have "m_lastMaxCwnd b < m_lastMaxCwnd b + ucast (m_b b)" by (simp add: word_less_nat_alt)
  then have "q - m_lastMaxCwnd b \<noteq> 0" if "\<not> q < m_lastMaxCwnd b + ucast (m_b b)" using that by auto
  then show ?thesis using m by (auto simp: bic_above_def udiv32_def)
qed

lemma bic_Update_returns:
  assumes "bic_ok b" "unat (m_lastMaxCwnd b) < 2 ^ 31" "m_segmentSize tcb \<noteq> 0"
  shows "\<exists>b' c. bic_Update now b tcb = Some (b', c) \<and> m_cWndCnt b' = m_cWndCnt b"
proof -
  define q where "q = m_cWnd tcb div m_segmentSize tcb"
  define k where "k = (if m_epochStart b = Time_Min then b\<lparr>m_lastCwnd := q, m_epochStart := now\<rparr> else b\<lparr>m_lastCwnd := q\<rparr>)"
  have k: "bic_ok k" "m_lastMaxCwnd k = m_lastMaxCwnd b" "m_cWndCnt k = m_cWndCnt b"
    using assms(1) by (simp_all add: k_def bic_ok_def)
  have "\<exists>c. (if q < m_lastMaxCwnd k then bic_below k q else bic_above k q) = Some c"
    using bic_below_returns [OF k(1), of q] bic_above_returns [OF k(1), of q] assms(2) k(2) by auto
  then obtain c where c: "(if q < m_lastMaxCwnd k then bic_below k q else bic_above k q) = Some c" by blast
  have "bic_Update now b tcb =
      (if q < m_lowWnd k then Some (k, q)
       else do { cnt \<leftarrow> (if q < m_lastMaxCwnd k then bic_below k q else bic_above k q);
         let cnt = (if m_lastMaxCwnd k = 0 then if cnt > 20 then 20 else cnt else cnt);
         Some (k, if cnt = 0 then 1 else cnt) })"
    using assms(3) by (simp add: bic_Update_def GetCwndInSegments_def udiv32_def q_def [symmetric] k_def Let_def)
  then show ?thesis unfolding c using k(3) by (auto simp: Let_def)
qed

section \<open>The window\<close>

text \<open>With a segment or more acknowledged the window gains at most two segments, and the call returns.\<close>

lemma grown_segment:
  "cwnd tcb + mss tcb < 2 ^ 32 \<Longrightarrow> grown tcb 1 (tcb\<lparr>m_cWnd := m_cWnd tcb + m_segmentSize tcb\<rparr>)"
  by (simp add: grown_def unat_plus32)

lemma grown_optional:
  assumes "cwnd tcb + mss tcb < 2 ^ 32"
  shows "grown tcb 1 (if c then tcb\<lparr>m_cWnd := m_cWnd tcb + m_segmentSize tcb\<rparr> else tcb)"
  using grown_segment [OF assms] by (simp add: grown_def)

definition bic_avoid :: "time \<Rightarrow> tcp_bic increase" where
  "bic_avoid now b tcb n =
     (if m_cWnd tcb \<ge> m_ssThresh tcb \<and> n > 0 then do {
        let b = b\<lparr>m_cWndCnt := m_cWndCnt b + n\<rparr>;
        (b, cnt) \<leftarrow> bic_Update now b tcb;
        Some (if m_cWndCnt b > cnt
              then (b\<lparr>m_cWndCnt := 0\<rparr>, tcb\<lparr>m_cWnd := m_cWnd tcb + m_segmentSize tcb\<rparr>) else (b, tcb))
      } else Some (b, tcb))"

lemma bic_IncreaseWindow_split:
  "bic_IncreaseWindow now b tcb n =
     (if m_cWnd tcb < m_ssThresh tcb then bic_avoid now b (tcb\<lparr>m_cWnd := m_cWnd tcb + m_segmentSize tcb\<rparr>) (n - 1)
      else bic_avoid now b tcb n)"
  by (simp add: bic_IncreaseWindow_def bic_avoid_def Let_def)

lemma bic_avoid_grown:
  assumes "bic_ok b" "unat (m_lastMaxCwnd b) < 2 ^ 31" "m_segmentSize tcb \<noteq> 0" "cwnd tcb + mss tcb < 2 ^ 32"
  shows "\<exists>b' tcb'. bic_avoid now b tcb n = Some (b', tcb') \<and> grown tcb 1 tcb'"
proof -
  have "bic_ok (b\<lparr>m_cWndCnt := m_cWndCnt b + n\<rparr>)" using assms(1) by (simp add: bic_ok_def)
  then obtain b' c where "bic_Update now (b\<lparr>m_cWndCnt := m_cWndCnt b + n\<rparr>) tcb = Some (b', c)"
    using bic_Update_returns [of "b\<lparr>m_cWndCnt := m_cWndCnt b + n\<rparr>" tcb now] assms(2,3) by auto
  then show ?thesis using grown_segment [OF assms(4)] grown_optional [OF assms(4), of False]
    by (auto simp: bic_avoid_def Let_def)
qed

lemma bic_IncreaseWindow_grown:
  assumes "bic_ok b" "unat (m_lastMaxCwnd b) < 2 ^ 31" "m_segmentSize tcb \<noteq> 0" "cwnd tcb + 2 * mss tcb < 2 ^ 32"
  shows "\<exists>b' tcb'. bic_IncreaseWindow now b tcb n = Some (b', tcb') \<and> grown tcb 2 tcb'"
proof (cases "m_cWnd tcb < m_ssThresh tcb")
  case True
  let ?t = "tcb\<lparr>m_cWnd := m_cWnd tcb + m_segmentSize tcb\<rparr>"
  have one: "grown tcb 1 ?t" using assms(4) by (intro grown_segment) simp
  then have "cwnd ?t + mss ?t < 2 ^ 32" using assms(4) by (simp add: grown_def)
  then obtain b' tcb' where "bic_avoid now b ?t (n - 1) = Some (b', tcb')" "grown ?t 1 tcb'"
    using bic_avoid_grown [OF assms(1,2), of ?t now "n - 1"] assms(3) by auto
  with True grown_trans [OF one] show ?thesis by (auto simp: bic_IncreaseWindow_split numeral_2_eq_2)
next
  case False
  have "cwnd tcb + mss tcb < 2 ^ 32" using assms(4) by simp
  then obtain b' tcb' where r: "bic_avoid now b tcb n = Some (b', tcb')" "grown tcb 1 tcb'"
    using bic_avoid_grown [OF assms(1-3)] by blast
  have "grown tcb 2 tcb'" using r(2) unfolding grown_def by linarith
  with False r(1) show ?thesis by (auto simp: bic_IncreaseWindow_split)
qed

end
