(* ===== verification/CcProps.thy ===== *)
theory CcProps
  imports Vegas Veno Yeah Illinois Htcp LowPrio Dctcp Bic
begin

text \<open>
  The properties of the congestion controls besides NewReno, Linux Reno, Cubic and the composite.
\<close>

section \<open>Growth\<close>

text \<open>
  C38. Over any sequence of acknowledgements Linux Reno, Scalable, Veno and TCP-LP return on each, change
  only the window and never shrink it. Linux Reno adds at most a segment for each acknowledged segment and
  one for each acknowledgement; the other three, which inherit NewReno's slow start with its scale factor
  \<open>m_renoAlpha\<close>, add at most \<open>f\<close> times that much. What is assumed: the scale factor of each is a number
  between 0 and \<open>f\<close> (1 for the default, 5 for the largest in the scripts of the repository); the window is
  at least a segment and has room for the bound in 32 bits; Scalable's \<open>AIFactor\<close> is not 0; Veno's delays
  are positive times with the base delay at most the least one, which holds for a new object and after
  every sample; and the conversion of times to seconds is positive and monotone.
\<close>

theorem derived_runs:
  assumes "room_for f tcb as" "secs_ok secs" "m_aiFactor s \<noteq> 0"
    and "\<forall>nr \<in> {sc_newreno s, ve_newreno v, lp_newreno l}. \<exists>r. m_renoAlpha nr = Fin r \<and> 0 \<le> r \<and> r \<le> of_nat f"
    and "0 < rtt_filter.m_baseRtt v" "rtt_filter.m_baseRtt v \<le> rtt_filter.m_minRtt v" "rtt_filter.m_minRtt v \<le> t_Max"
  shows "(\<exists>s' tcb'. run_acks linuxreno_IncreaseWindow cnt tcb as = Some (s', tcb') \<and> grown tcb (budget as) tcb') \<and>
    (\<exists>s' tcb'. run_acks scalable_IncreaseWindow s tcb as = Some (s', tcb') \<and> grown tcb (f * budget as) tcb') \<and>
    (\<exists>s' tcb'. run_acks (veno_IncreaseWindow secs) v tcb as = Some (s', tcb') \<and> grown tcb (f * budget as) tcb') \<and>
    (\<exists>s' tcb'. run_acks lp_IncreaseWindow l tcb as = Some (s', tcb') \<and> grown tcb (f * budget as) tcb')"
proof -
  have ok: "scalable_ok f s" "veno_ok f secs v" "lp_ok f l"
    using assms(2-7) by (simp_all add: scalable_ok_def veno_ok_def lp_ok_def newreno_ok_def filter_ok_def)
  show ?thesis
    using linuxreno.run_returns [of cnt, OF _ room_for_one [OF assms(1)]] scalable.run_returns [OF ok(1) assms(1)]
      veno.run_returns [OF ok(2) assms(1)] lp.run_returns [OF ok(3) assms(1)]
    by (simp add: linuxreno_ok_def scalable_IncreaseWindow_def lp_IncreaseWindow_def)
qed

definition plain_reno :: tcp_newreno where
  "plain_reno = \<lparr>m_renoAlpha = Fin 1, m_renoBeta = 2\<rparr>"

text \<open>The largest scale factor that the scripts of the repository set.\<close>

definition fast_reno :: tcp_newreno where
  "fast_reno = \<lparr>m_renoAlpha = Fin 5, m_renoBeta = 2\<rparr>"

definition window_tcb :: "uint32 \<Rightarrow> uint32 \<Rightarrow> tcb" where
  "window_tcb w thresh =
     \<lparr>m_cWnd = w, m_cWndInfl = w, m_ssThresh = thresh, m_isRetransDataAcked = False, m_segmentSize = 1000,
      m_lastAckedSeq = 5000, m_congState = CA_OPEN, m_highTxMark = 9000, m_bytesInFlight = 4000,
      m_ecnState = ECN_ECE_RCVD, m_nextTxSequence = 9000, m_lastRtt = 0, m_lastAckedSackedBytes = 0\<rparr>"

theorem derived_runs_witness:
  "(\<exists>s' tcb'. run_acks linuxreno_IncreaseWindow 0 (window_tcb 20000 10000) [2, 1, 30] = Some (s', tcb') \<and>
      20000 \<le> cwnd tcb' \<and> cwnd tcb' \<le> 56000) \<and>
   (\<exists>s' tcb'. run_acks scalable_IncreaseWindow (new_scalable fast_reno) (window_tcb 20000 10000) [2, 1, 30] = Some (s', tcb') \<and>
      20000 \<le> cwnd tcb' \<and> cwnd tcb' \<le> 200000)"
proof -
  have "room_for 5 (window_tcb 20000 10000) [2, 1, 30]" by (simp add: room_for_def window_tcb_def)
  then show ?thesis using derived_runs [of 5 "window_tcb 20000 10000" "[2, 1, 30]" ns_secs "new_scalable fast_reno"
      "new_veno fast_reno 3" "new_lp fast_reno" 0]
    by (auto simp: ns_secs_ok new_scalable_def new_veno_def new_lp_def fast_reno_def t_Max_def grown_def window_tcb_def)
qed

text \<open>
  C10. From every state that Vegas reaches from a new object, over any sequence of round-trip samples,
  changes of the congestion state and increases, \<open>IncreaseWindow\<close> passes its assertion and returns; it
  keeps at least one segment of window and adds at most \<open>f\<close> segments for each acknowledged segment and
  for the call. What is assumed: the scale factor \<open>m_renoAlpha\<close> of the NewReno part, whose slow start Vegas
  calls, is a number between 0 and \<open>f\<close> (1 for the default, 5 for the largest in the scripts of the
  repository); \<open>Beta\<close> is not 0; no sample is a negative time; the conversion of times to seconds is
  positive and monotone; and the window is at least a segment and has room for the bound in 32 bits.
\<close>

theorem vegas_window:
  assumes "cc_run vegas_PktsAcked vegas_CongestionStateSet (vegas_IncreaseWindow secs) (new_vegas nr al be ga) cs = Some v"
    and "list_all past_rtt cs" "secs_ok secs" "be \<noteq> 0"
    and "m_renoAlpha nr = Fin r" "0 \<le> r" "r \<le> of_nat f" "1 \<le> f"
    and "1 \<le> mss tcb" "mss tcb \<le> cwnd tcb" "cwnd tcb + f * (unat n + 1) * mss tcb < 2 ^ 32"
  shows "\<exists>v' tcb'. vegas_IncreaseWindow secs v tcb n = Some (v', tcb') \<and>
    mss tcb \<le> cwnd tcb' \<and> cwnd tcb' \<le> cwnd tcb + f * (unat n + 1) * mss tcb"
proof -
  have "newreno_ok f nr" "ample f tcb n" using assms(5-11) by (simp_all add: newreno_ok_def ample_def)
  then show ?thesis using vegas_IncreaseWindow_kept [of secs v f tcb n] vegas_run [OF assms(1,2)] assms(3,4)
    by (fastforce simp: window_kept_def)
qed

theorem vegas_window_witness:
  "\<exists>v v' tcb'. cc_run vegas_PktsAcked vegas_CongestionStateSet (vegas_IncreaseWindow ns_secs) (new_vegas fast_reno 2 4 1)
      [Acked 20000000, Acked 50000000, StateSet (window_tcb 0 0) CA_OPEN, Acked 60000000, Acked 0, Acked 70000000, Acked 50000000] = Some v \<and>
    rtt_filter.m_cntRtt v = 3 \<and> vegas_IncreaseWindow ns_secs v (window_tcb 20000 10000) 2 = Some (v', tcb') \<and>
    1000 \<le> cwnd tcb' \<and> cwnd tcb' \<le> 35000"
proof -
  let ?cs = "[Acked 20000000, Acked 50000000, StateSet (window_tcb 0 0) CA_OPEN, Acked 60000000, Acked 0, Acked 70000000, Acked 50000000]"
  obtain v where v: "cc_run vegas_PktsAcked vegas_CongestionStateSet (vegas_IncreaseWindow ns_secs) (new_vegas fast_reno 2 4 1) ?cs = Some v"
    and c: "rtt_filter.m_cntRtt v = 3"
    by (simp add: vegas_PktsAcked_def rtt_PktsAcked_def vegas_CongestionStateSet_def EnableVegas_def new_vegas_def)
  have p: "list_all past_rtt ?cs" "(4 :: uint32) \<noteq> 0" by simp_all
  show ?thesis using vegas_window [OF v p(1) ns_secs_ok p(2), of 5 5 "window_tcb 20000 10000" 2] v c
    by (auto simp: window_tcb_def fast_reno_def)
qed

text \<open>
  C39. The loop of HighSpeed and Illinois that turns acknowledgements into segments ends for every window
  and every count: it adds \<open>k\<close> segments, each paid for with a window of acknowledgements, and what is
  left does not pay for another one.
\<close>

theorem window_credit:
  assumes "m_segmentSize tcb \<noteq> 0" "0 < n"
    and "to_u32 (d_add (of_u32 (tcp_illinois.m_ackCnt s)) (d_mul (of_u32 n) (tcp_illinois.m_alpha s))) = Some credit"
  shows "let q = m_cWnd tcb div m_segmentSize tcb in
    (\<exists>k h'. highspeed_CongestionAvoidance h tcb n = Some (h', set_segments q (q + of_nat k) tcb) \<and>
      carried (hs_ackCnt h + n * TableLookupA q) q k (hs_ackCnt h')) \<and>
    (\<exists>k s'. illinois_avoid s tcb n = Some (s', set_segments q (q + of_nat k) tcb) \<and>
      carried credit q k (tcp_illinois.m_ackCnt s'))"
  using highspeed_CongestionAvoidance_returns [OF assms(1), of h n] illinois_avoid_returns [OF assms]
  unfolding Let_def by fastforce

theorem window_credit_witness:
  "\<exists>k h'. highspeed_CongestionAvoidance ((new_highspeed plain_reno)\<lparr>hs_ackCnt := 7\<rparr>) (window_tcb 20000 10000) 90 =
      Some (h', set_segments 20 (20 + of_nat k) (window_tcb 20000 10000)) \<and> carried 97 20 k (hs_ackCnt h')"
proof -
  have a: "to_u32 (d_add (of_u32 (tcp_illinois.m_ackCnt (new_illinois plain_reno)))
      (d_mul (of_u32 90) (tcp_illinois.m_alpha (new_illinois plain_reno)))) = Some 900"
    using fl_nat [of 900] by (simp add: new_illinois_def of_u32_def)
  have t: "TableLookupA 20 = 1" by (simp add: TableLookupA_def table_a_def)
  show ?thesis using window_credit [OF _ _ a, of "window_tcb 20000 10000" "(new_highspeed plain_reno)\<lparr>hs_ackCnt := 7\<rparr>"]
    by (simp add: window_tcb_def t Let_def)
qed

section \<open>Delay filters\<close>



section \<open>Cuts\<close>

text \<open>
  C11. As long as the bytes acknowledged in a window fit its counters, the congestion estimate of DCTCP
  stays between 0 and 1, for every gain and initial value in that range and every sequence of marks,
  although it is computed with rounding; so the threshold after a loss is at least half of the window
  and at most the window.
\<close>

theorem dctcp_estimate:
  assumes "dctcp_reach (Fin g) alpha d" "0 \<le> g" "g \<le> 1" "rnd g = g" "unit_frac alpha"
  shows "unit_frac (tcp_dctcp.m_alpha d) \<and>
    (\<exists>w. dctcp_GetSsThresh d tcb n = Some w \<and> cwnd tcb div 2 \<le> unat w \<and> unat w \<le> cwnd tcb)"
  using dctcp_reach_ok [OF assms] dctcp_GetSsThresh_bounds [of d] by (simp add: estimate_ok_def)

theorem dctcp_estimate_witness:
  "unit_frac (tcp_dctcp.m_alpha (dctcp_PktsAcked (new_dctcp (Fin (1 / 16)) (Fin 1) True) (window_tcb 20000 10000) 3)) \<and>
   (\<exists>w. dctcp_GetSsThresh (dctcp_PktsAcked (new_dctcp (Fin (1 / 16)) (Fin 1) True) (window_tcb 20000 10000) 3)
      (window_tcb 20000 10000) 0 = Some w \<and> 10000 \<le> unat w \<and> unat w \<le> 20000)"
proof -
  have r: "dctcp_reach (Fin (1 / 16)) (Fin 1) (dctcp_PktsAcked (new_dctcp (Fin (1 / 16)) (Fin 1) True) (window_tcb 20000 10000) 3)"
    by (intro dctcp_reach.acked dctcp_reach.start) (simp add: new_dctcp_def window_tcb_def)
  have g: "rnd (1 / 16) = 1 / 16" using rnd_exact [of "1 / 16" 1 4] by simp
  show ?thesis using dctcp_estimate [OF r _ _ g, of "window_tcb 20000 10000" 0] by (simp add: unit_frac_def window_tcb_def)
qed



text \<open>
  An acknowledgement of less than a segment, which the socket hands on as 0 segments, takes the count of
  Bic below zero when slow start reaches the threshold: the window gains two segments.
\<close>

theorem bic_idle_ack_grows:
  "map_option (\<lambda>(b, tcb). m_cWnd tcb) (bic_IncreaseWindow 0 new_bic (window_tcb 9000 10000) 0) = Some 11000"
  by code_simp

end
