(* ===== verification/CcOps.thy ===== *)
theory CcOps
  imports SockRuns CcProps
begin

text \<open>
  The congestion controls of \<open>CcProps\<close> as records of the operations that a socket calls, and a
  connection whose window Vegas controls. TCP-LP, LEDBAT and Hybla read members of the socket state that
  the interface does not pass, DCTCP the receive buffer; they have no record here. The properties of the
  socket quantify over these records.
\<close>

definition scalable_ops :: "tcp_newreno \<Rightarrow> tcp_scalable cong_ops" where
  "scalable_ops raw = (base_cc (scalable_copy raw))
     \<lparr>GetSsThresh := (\<lambda>now c t n. map_option (Pair c) (scalable_GetSsThresh c t n)),
      IncreaseWindow := (\<lambda>now c t n. scalable_IncreaseWindow c t n)\<rparr>"

definition highspeed_ops :: "tcp_newreno \<Rightarrow> tcp_highspeed cong_ops" where
  "highspeed_ops raw = (base_cc (highspeed_copy raw))
     \<lparr>GetSsThresh := (\<lambda>now c t n. map_option (Pair c) (highspeed_GetSsThresh c t n)),
      IncreaseWindow := (\<lambda>now c t n. highspeed_IncreaseWindow c t n)\<rparr>"

definition bic_ops :: "tcp_bic cong_ops" where
  "bic_ops = (base_cc id)
     \<lparr>GetSsThresh := (\<lambda>now c t n. bic_GetSsThresh c t n),
      IncreaseWindow := (\<lambda>now c t n. bic_IncreaseWindow now c t n)\<rparr>"

definition vegas_ops :: "(time \<Rightarrow> double) \<Rightarrow> tcp_newreno \<Rightarrow> tcp_vegas cong_ops" where
  "vegas_ops secs raw = (base_cc (vegas_copy raw))
     \<lparr>GetSsThresh := (\<lambda>now c t n. Some (c, vegas_GetSsThresh t n)),
      IncreaseWindow := (\<lambda>now c t n. vegas_IncreaseWindow secs c t n),
      PktsAcked := (\<lambda>now c t n rtt. Some (vegas_PktsAcked c rtt, t)),
      CongestionStateSet := (\<lambda>now c t st. Some (vegas_CongestionStateSet c t st, t))\<rparr>"

definition veno_ops :: "(time \<Rightarrow> double) \<Rightarrow> tcp_newreno \<Rightarrow> tcp_veno cong_ops" where
  "veno_ops secs raw = (base_cc (veno_copy raw))
     \<lparr>GetSsThresh := (\<lambda>now c t n. map_option (Pair c) (veno_GetSsThresh c t n)),
      IncreaseWindow := (\<lambda>now c t n. veno_IncreaseWindow secs c t n),
      PktsAcked := (\<lambda>now c t n rtt. Some (veno_PktsAcked c rtt, t)),
      CongestionStateSet := (\<lambda>now c t st. Some (veno_CongestionStateSet c t st, t))\<rparr>"

definition yeah_ops :: "(time \<Rightarrow> double) \<Rightarrow> tcp_newreno \<Rightarrow> tcp_newreno \<Rightarrow> tcp_yeah cong_ops" where
  "yeah_ops secs raw raw' = (base_cc (yeah_copy raw raw'))
     \<lparr>GetSsThresh := (\<lambda>now c t n. yeah_GetSsThresh c t n),
      IncreaseWindow := (\<lambda>now c t n. yeah_IncreaseWindow secs c t n),
      PktsAcked := (\<lambda>now c t n rtt. Some (yeah_PktsAcked c rtt, t)),
      CongestionStateSet := (\<lambda>now c t st. Some (yeah_CongestionStateSet c t st, t))\<rparr>"

definition illinois_ops :: "tcp_newreno \<Rightarrow> tcp_illinois cong_ops" where
  "illinois_ops raw = (base_cc (illinois_copy raw))
     \<lparr>GetSsThresh := (\<lambda>now c t n. map_option (Pair c) (illinois_GetSsThresh c t n)),
      IncreaseWindow := (\<lambda>now c t n. illinois_IncreaseWindow c t n),
      PktsAcked := (\<lambda>now c t n rtt. map_option (\<lambda>c. (c, t)) (illinois_PktsAcked c rtt)),
      CongestionStateSet := (\<lambda>now c t st. Some (illinois_CongestionStateSet c t st, t))\<rparr>"

definition htcp_ops :: "(time \<Rightarrow> double) \<Rightarrow> tcp_newreno \<Rightarrow> tcp_htcp cong_ops" where
  "htcp_ops secs raw = (base_cc (htcp_copy raw))
     \<lparr>GetSsThresh := (\<lambda>now c t n. htcp_GetSsThresh secs now c t n),
      IncreaseWindow := (\<lambda>now c t n. htcp_IncreaseWindow c t n),
      PktsAcked := (\<lambda>now c t n rtt. map_option (\<lambda>c. (c, t)) (htcp_PktsAcked secs now c t n rtt))\<rparr>"

text \<open>A handshake, ten bytes and their acknowledgement, with a round trip of 10 ms.\<close>

definition vegas_env :: "int \<Rightarrow> (tcp_vegas, unit) env" where
  "vegas_env ms = quiet_env (vegas_ops ns_secs nr0) classic_ops (ms * 10 ^ 6)"

definition vegas_run :: "((tcp_vegas, unit) env \<times> sock_event) list" where
  "vegas_run =
     [(vegas_env 0, AppConnect ep_a), (vegas_env 10, Arrival ECN_NotECT 20 [] (plain_header (F_SYN OR F_ACK) 0 1) ep_a),
      (vegas_env 10, DeferredConnectionSucceeded), (vegas_env 20, AppSend (replicate 10 7)), (vegas_env 20, SendPendingTimer),
      (vegas_env 30, Arrival ECN_NotECT 20 [] (plain_header F_ACK 1 11) ep_a)]"

lemma vegas_connection:
  "map_option (\<lambda>s. (m_state s, rtt_filter.m_baseRtt (m_congestionControl s), tcb.m_cWnd (m_tcb s)))
     (sock_run vegas_run (new_sock (new_vegas nr0 2 4 1) ())) = Some (ESTABLISHED, 10000000, 5360)"
  by code_simp

end
