(* ===== verification/Spec2Isabelle.thy ===== *)
theory Spec2Isabelle
  imports CalOps SimInv RxProps TcpHdrProps CongProps SockFaults SockWindow Delivery CcOps
begin

text \<open>
  \<^bold>\<open>The TCP core of an ns-3 tree with composite congestion control.\<close>

  The repository is the ns-3 network simulator with a congestion control of its own,
  \<open>TcpComposite\<close>, that runs NewReno or Cubic and changes between them at a given time, and with
  hooks that record the throughput of TCP receivers. The paths below are relative to
  \<open>src/src/\<close>. This development models the code that a TCP experiment of the repository runs
  through: the event queue and the event loop, the send and receive buffers of a connection, the
  header on the wire, the congestion control and recovery algorithms, the round-trip estimator, and
  the socket that calls them all.

  \<^bold>\<open>How the parts interact.\<close> \<open>DefaultSimulatorImpl\<close> takes events from a \<open>Scheduler\<close> and runs them.
  An event of a socket cuts segments out of \<open>TcpTxBuffer\<close>, puts a \<open>TcpHeader\<close> in front of them and
  sends them; the receiver decodes the header and adds the bytes to \<open>TcpRxBuffer\<close>, whose SACK blocks
  go back in a header option and update the scoreboard of the sender. How much the sender may send
  is the congestion window of \<open>TcpSocketState\<close>, which \<open>TcpCongestionOps\<close> changes on every
  acknowledgement and \<open>TcpRecoveryOps\<close> during fast recovery. \<open>TcpSocketBase\<close> makes these calls: an
  arriving segment, a timer or a call of the application is one step of the socket, which works on its
  buffers, asks the algorithms for the window, schedules its timers and logs the segments it sends.
  The application may call the socket again from a callback; its reaction is a parameter of a step.
  The properties of the buffers and of the algorithms quantify over all sequences of their calls, and
  so hold for the calls the socket makes.

  \<^bold>\<open>What is where.\<close>
    \<^item> \<open>NsPrelude\<close>: machine integers, \<open>ns_assert\<close>, the rule collections.
    \<^item> \<open>SeqNum\<close>: \<open>SequenceNumber32\<close> (\<open>network/utils/sequence-number.h\<close>), comparison in a circle of
      32 bits, and its reading as positions of a window.
    \<^item> \<open>EventSched\<close>, \<open>ListSched\<close>, \<open>MapSched\<close>, \<open>HeapSched\<close>: \<open>core/model/scheduler.h\<close> with three of
      its classes. The locale of a scheduler that removes the least key is interpreted by the map and
      the list for every call and by the heap for insertion and removal of the next event;
      \<open>SchedEquiv\<close> shows that no client can tell them apart, nor from \<open>PrioSched\<close>, the
      \<open>PriorityQueueScheduler\<close>, whose container is read as a multiset as the contract of
      \<open>std::priority_queue\<close> has it.
    \<^item> \<open>CalSched\<close>, \<open>CalInv\<close>, \<open>CalNext\<close>, \<open>CalOps\<close>: \<open>core/model/calendar-scheduler.cc\<close>, the class
      with buckets of days, a year and a resize that samples the queue. It is an interpretation of a weaker locale, that of a
      scheduler whose client never inserts before the last event removed; the locale of all schedulers
      is a sublocale of it, so what is proved of such clients holds for all five classes.
    \<^item> \<open>SimCore\<close>, \<open>SimInv\<close>: \<open>core/model/default-simulator-impl.cc\<close> over the record of scheduler
      operations; the invariant between queue, clock and unique ids, for every scheduler of the locale.
    \<^item> \<open>TxBuffer\<close>, \<open>TxScore\<close>: \<open>internet/model/tcp-tx-buffer.cc\<close> and \<open>tcp-tx-item.cc\<close>. A packet is
      its list of bytes, an item has an identity so that the iterators the code keeps can be modelled.
      \<open>TxEdit\<close>, \<open>TxInv\<close>, \<open>TxCopy\<close>, \<open>TxCopySpec\<close>, \<open>TxOps\<close>, \<open>TxSack\<close>, \<open>TxUpdate\<close> and \<open>TxDiscard\<close>
      prove that each operation keeps the invariant (the list tiles the window, the counters are sums
      over flags) and what it returns; \<open>TxReach\<close> is the state machine of its interface, \<open>TxProps\<close>
      holds the properties over reachable states and \<open>TxRuns\<close> runs that satisfy or break them.
      The steps of \<open>TxReach\<close> have as premises what the scoreboard needs and the code does not check: the
      segment that \<open>AddRenoSack\<close> marks is not lost, the one that \<open>ResetLastSegmentSent\<close> takes back has no
      flag, and an acknowledgement does not stop where \<open>DiscardUpTo\<close> cannot repair the head (\<open>ack_safe\<close>).
      \<open>TxData\<close> and \<open>TxDataOps\<close> follow the data alone, without these premises, also where a call has left
      the counters wrong; the properties of the socket and of the delivery rest on them.
    \<^item> \<open>RxBuffer\<close>: \<open>internet/model/tcp-rx-buffer.cc\<close> with the throughput lines this repository
      appends to a file. \<open>RxTrim\<close>, \<open>RxInv\<close>, \<open>RxAdd\<close>, \<open>RxExtract\<close> relate it to positions in the
      stream of the sender, \<open>RxProps\<close> has the properties over all sequences of calls.
    \<^item> \<open>Wire\<close>, \<open>Checksum\<close>, \<open>TcpOptions\<close>, \<open>TcpHdr\<close>, \<open>TcpHdrProps\<close>: the reads and writes of
      \<open>Buffer::Iterator\<close> (a buffer is a list of bytes, an iterator the bytes before and after it), the
      Internet checksum, the option classes and \<open>TcpHeader\<close>. Encoders and decoders of integers are
      interpretations of one locale of codecs.
    \<^item> \<open>Double\<close>: IEEE binary64 on rational numbers: round to nearest even, gradual underflow, overflow;
      quotients of 32-bit integers never round up to the next integer nor down to the last one.
    \<^item> \<open>CongState\<close>, \<open>Reno\<close>, \<open>Cubic\<close>, \<open>Composite\<close>, \<open>Recovery\<close>: \<open>internet/model/tcp-socket-state.h\<close>,
      \<open>tcp-congestion-ops.cc\<close>, \<open>tcp-linux-reno.cc\<close>, \<open>tcp-cubic.cc\<close>, \<open>tcp-composite.cc\<close>,
      \<open>tcp-recovery-ops.cc\<close> and \<open>tcp-prr-recovery.cc\<close>, statement by statement.
      \<open>CongOps\<close> states the contract of \<open>IncreaseWindow\<close> as a locale whose parameter \<open>f\<close> bounds the growth: at
      most \<open>f\<close> segments for each acknowledged segment and one call. Linux Reno and Cubic are interpretations
      with \<open>f = 1\<close>, NewReno and the classes derived from it for every \<open>f\<close> that is at least their scale factor
      \<open>m_renoAlpha\<close>, the knob that the scripts of this repository turn. \<open>CompositeEq\<close> compares the composite with the two
      algorithms, call by call and run by run; \<open>CongProps\<close> has the properties.
    \<^item> \<open>RenoSub\<close>: \<open>TcpNewReno::IncreaseWindow\<close> for the classes that override \<open>SlowStart\<close> and
      \<open>CongestionAvoidance\<close>. The locale \<open>reno_subclass\<close> says what the overriding functions keep, and the
      contract of \<open>IncreaseWindow\<close> follows as a sublocale; NewReno, Scalable and TCP-LP are
      interpretations, Veno is one of the contract itself. \<open>HighSpeed\<close>, \<open>Illinois\<close>, \<open>Htcp\<close> (with
      Hybla), \<open>LowPrio\<close> (TCP-LP and LEDBAT), \<open>Dctcp\<close> and \<open>Bic\<close> are the files of these names in
      \<open>internet/model\<close>.
    \<^item> \<open>DelayFilter\<close>: the smallest round trips that \<open>Vegas\<close>, \<open>Veno\<close> and \<open>Yeah\<close> keep. The locale
      \<open>delay_based\<close> says how the calls change them, and the three classes are its interpretations: the
      assertion on the order of the two delays never fails.
    \<^item> \<open>DoubleFrac\<close>: doubles with a factor between 0 and 1, whose conversions never fail. \<open>CcProps\<close>
      has the properties of the further congestion controls; \<open>CcOps\<close> makes them instances of the
      interface of the socket and runs a connection over Vegas.
    \<^item> \<open>Rtt\<close>: \<open>internet/model/rtt-estimator.cc\<close>, with its bounds over all sequences of samples.
    \<^item> \<open>SockState\<close>, \<open>SockSend\<close>, \<open>SockAck\<close>, \<open>SockRecv\<close>, \<open>SockConn\<close>, \<open>SockFwd\<close>:
      \<open>internet/model/tcp-socket-base.cc\<close>. The record of a socket with the interfaces it calls; the
      segments it sends; acknowledgements, loss recovery and the retransmission timeout; received data,
      closing and the calls of the application; the functions of the connection states; the entry for
      arriving segments, the timers, and \<open>sock_step\<close>, which takes one event. \<open>SockInst\<close> turns the
      algorithms into instances of the interfaces and has a new socket with the default attributes.
    \<^item> \<open>SockMoves\<close>, \<open>SockKeeps\<close>, \<open>SockStates\<close>: rules for partial correctness of
      functions in the option monad, and the locale \<open>sock_contract\<close>: a property of the connection state, the
      send buffer, the bytes written and the segments sent that is kept by the elementary changes of a
      socket is kept by every event. It is interpreted twice. In \<open>SockRuns\<close> for the transitions of the
      connection state, together with concrete connections; in \<open>SockSpec\<close> for the refinement of an
      abstract sender, a machine with an oldest byte, the bytes from there on and the segments sent.
    \<^item> \<open>Delivery\<close> puts the ends together: what is read from the receive buffer when segments of a
      socket arrive, in any order and number, is what the application of the socket wrote.
    \<^item> \<open>SockWindow\<close> relates the window one end advertises to the one the other end reads, \<open>SockFaults\<close>
      shows where the socket does not do what it means to.

  \<^bold>\<open>Conventions.\<close> A member variable keeps its name; an operation keeps its name, with a prefix where
  several classes have it. Unsigned integers are words of their width and wrap. \<open>None\<close> is an
  execution that has no defined result: a failed assertion or an abort, a use of the standard library
  outside its contract, a division by zero, an overflow of signed arithmetic, a conversion of a double
  that does not fit, or a loop that does not end. The loops whose end is not obvious are
  \<open>partial_function (option)\<close>, so that not returning is \<open>None\<close> as well, and the properties state that
  the calls return. One loop has a counter instead, that of \<open>drain\<close>, which empties a scheduler; the number
  of events in it is enough. The count of events in a simulator (\<open>m_unscheduledEvents\<close>, a signed 32-bit
  integer in the code) is an integer of unbounded size; it is never above the number of calls made.

  \<^bold>\<open>Bounds.\<close> The properties of the buffers assume that a window is below \<open>2 ^ 31\<close> bytes, the limit of
  the circular comparison, and the growth bounds of the congestion window that the sum fits 32 bits.
  The calendar queue is proved for time stamps below \<open>2 ^ 46\<close> ticks.
  Sequence numbers wrap everywhere else. The delivery from application to application is proved for
  acknowledgements within \<open>2 ^ 31\<close> bytes of the first byte: beyond \<open>2 ^ 32\<close> a delayed segment can be
  taken for a new one, and the time stamps that would tell them apart are not checked by the code.

  \<^bold>\<open>Where the code departs from its intent.\<close> \<open>HeapScheduler::Remove\<close> can break the heap order;
  \<open>CopyFromSequence\<close> dereferences a null pointer when a request for sent and unsent data crosses the
  wrap of sequence numbers; \<open>ResetLastSegmentSent\<close> and \<open>AddRenoSack\<close> leave the counters inconsistent when the
  segment they change is lost (or sacked); an acknowledgement that stops inside the last segment fails an
  assertion when that segment is sacked and SACK is used; an option of unknown kind and
  length zero keeps the header decoder in its loop; the copy constructors of NewReno and the composite
  drop their parameters; Cubic's friendliness loop does not end for a small \<open>Beta\<close> and divides by zero
  for \<open>Beta\<close> 1; the product of proportional rate reduction wraps. In the socket, data behind the FIN of
  the peer leads from a closed sending side to \<open>CLOSE_WAIT\<close>, a FIN that comes with data is not
  acknowledged after \<open>FIN_WAIT_2\<close>, the persist timer dereferences a null pointer when there is no data,
  \<open>Send\<close> keeps the bytes it refuses after \<open>ShutdownSend\<close>, and the window stays shifted when the peer
  does not scale. In the other congestion controls, the threshold of YeAH after a loss wraps when it
  subtracts two segments from less; its \<open>1 / m_phy\<close> and the throughput ratio of H-TCP are quotients of
  integers; H-TCP divides by zero at the time of a loss; the one-way delay of TCP-LP is
  unsigned; Illinois compares bytes with a threshold in segments; BIC takes an acknowledgement of no
  segment for \<open>2 ^ 32\<close>; LEDBAT keeps a sample less than its attribute says. Most of these have a
  theorem or lemma of their own; the findings of the manifest name the lines.

  \<^bold>\<open>Not modelled.\<close> \<open>std::pow\<close> and \<open>Time::GetSeconds\<close> are parameters of Cubic and of the other
  algorithms that call them: the first has no
  rounding fixed by C++, the second goes through 128-bit fixed point arithmetic and extended
  precision that the development does not have yet; the same arithmetic is the parameter
  \<open>FloatingPointUpdate\<close> of the round-trip estimator for gains that are no powers of two. The sign of a
  floating-point zero is not represented. Trace sources, attributes, logging and printing are left
  out; threads only appear through the queue of events that other threads hand over. Of the socket,
  pacing, \<open>CongControl\<close> (BBR), binding and routing, the IPv6 entry \<open>ForwardUp6\<close>, packet tags and ICMP are left out, and the bytes
  that \<open>TcpRateOps\<close> counts as delivered are a parameter. Westwood+ and BBR,
  which compute with \<open>DataRate\<close> and its 128-bit arithmetic, and \<open>TcpRateOps\<close>, the packet storage, IP, the links and the other ns-3 modules are not modelled.
\<close>

end
